(* ===== verification/Prelude.thy ===== *)
theory Prelude
  imports Main "HOL-Library.AList" "HOL-Library.List_Lexorder" "HOL-Library.Char_ord"
begin

text \<open>
  What the components share: results of fallible Go functions as sums, loops that stop at
  the first error, Go maps as association lists with distinct keys, and the evaluation of a
  recursive SQL query (\<^verbatim>\<open>WITH RECURSIVE ... UNION ...\<close>) as a work list, with the
  theorem that it computes a reflexive transitive closure. The collections \<open>go_simps\<close>,
  \<open>cte_simps\<close> and \<open>go_intros\<close> gather the rewriting and introduction rules that the
  component proofs use.
\<close>

named_theorems go_simps "rewriting rules for results, loops and Go maps"
named_theorems go_intros "introduction rules for results and Go maps"
named_theorems cte_simps "rewriting rules for recursive queries"

section \<open>Results of fallible functions\<close>

text \<open>
  A Go function with results \<open>(T, error)\<close> returns a value of \<open>'e + 'a\<close>: \<open>Inl\<close> is a non-nil
  error, \<open>Inr\<close> the value with a nil error.
\<close>

primrec res_bind :: "'e + 'a \<Rightarrow> ('a \<Rightarrow> 'e + 'b) \<Rightarrow> 'e + 'b" where
  "res_bind (Inl e) f = Inl e"
| "res_bind (Inr x) f = f x"

lemma res_bind_eq_Inr [go_simps]:
  "res_bind r f = Inr y \<longleftrightarrow> (\<exists>x. r = Inr x \<and> f x = Inr y)"
  by (cases r) auto

lemma res_bind_eq_Inl [go_simps]:
  "res_bind r f = Inl e \<longleftrightarrow> r = Inl e \<or> (\<exists>x. r = Inr x \<and> f x = Inl e)"
  by (cases r) auto

text \<open>\<open>is_ok\<close> is the test \<open>err == nil\<close>.\<close>

primrec is_ok :: "'e + 'a \<Rightarrow> bool" where
  "is_ok (Inl e) = False"
| "is_ok (Inr x) = True"

lemma is_ok_iff [go_simps]: "is_ok r \<longleftrightarrow> (\<exists>x. r = Inr x)"
  by (cases r) auto

text \<open>A loop over a slice whose body may return an error.\<close>

fun fold_res :: "('a \<Rightarrow> 's \<Rightarrow> 'e + 's) \<Rightarrow> 'a list \<Rightarrow> 's \<Rightarrow> 'e + 's" where
  "fold_res f [] s = Inr s"
| "fold_res f (x # xs) s = res_bind (f x s) (fold_res f xs)"

lemma fold_res_append:
  "fold_res f (xs @ ys) s = res_bind (fold_res f xs s) (fold_res f ys)"
proof (induction xs arbitrary: s)
  case (Cons x xs)
  then show ?case by (cases "f x s") auto
qed simp

text \<open>A loop whose body never fails is an ordinary fold.\<close>

lemma fold_res_total:
  assumes "\<And>x s. x \<in> set xs \<Longrightarrow> f x s = Inr (g x s)"
  shows "fold_res f xs s = Inr (fold g xs s)"
  using assms by (induction xs arbitrary: s) auto

lemma fold_res_invariant:
  assumes "fold_res f xs s = Inr s'" and "P s"
    and "\<And>x s s'. x \<in> set xs \<Longrightarrow> P s \<Longrightarrow> f x s = Inr s' \<Longrightarrow> P s'"
  shows "P s'"
  using assms
proof (induction xs arbitrary: s)
  case (Cons x xs)
  from Cons.prems(1) obtain t where t: "f x s = Inr t" "fold_res f xs t = Inr s'"
    by (auto simp: res_bind_eq_Inr)
  moreover from t(1) Cons.prems(2,3) have "P t" by auto
  ultimately show ?case using Cons.IH[of t] Cons.prems(3) by auto
qed simp

text \<open>\<^verbatim>\<open>COUNT(*)\<close> over the rows that match.\<close>

lemma count_pos_iff [go_simps]: "0 < length (filter P xs) \<longleftrightarrow> (\<exists>x \<in> set xs. P x)"
  by (induction xs) auto

lemmas [go_simps] = filter_empty_conv

section \<open>Go maps\<close>

text \<open>
  A Go map is an association list with distinct keys. \<open>map_of\<close> is the two-result lookup
  \<open>v, ok := m[k]\<close>, \<open>AList.update\<close> the assignment \<open>m[k] = v\<close>, and \<open>map fst\<close> the keys a
  \<open>range\<close> loop visits. Go visits them in no fixed order, so no property below depends on
  the order of the list. A \<open>map[K]bool\<close> in which only \<open>true\<close> is ever stored is the set of
  its keys.
\<close>

type_synonym ('k, 'v) gomap = "('k \<times> 'v) list"

definition gm_wf :: "('k, 'v) gomap \<Rightarrow> bool" where
  "gm_wf m \<longleftrightarrow> distinct (map fst m)"

lemma gm_wf_Nil [simp, go_intros]: "gm_wf []"
  by (simp add: gm_wf_def)

lemma gm_wf_update [simp, go_intros]: "gm_wf m \<Longrightarrow> gm_wf (AList.update k v m)"
  by (simp add: gm_wf_def distinct_update)

lemma map_of_gm_update [simp, go_simps]: "map_of (AList.update k v m) = (map_of m)(k \<mapsto> v)"
  by (simp add: update_conv')

text \<open>Single-result lookup: \<open>m[k]\<close> is the zero value for a missing key.\<close>

definition gm_get :: "'v \<Rightarrow> ('k, 'v) gomap \<Rightarrow> 'k \<Rightarrow> 'v" where
  "gm_get z m k = (case map_of m k of None \<Rightarrow> z | Some v \<Rightarrow> v)"

lemma gm_entry_iff: "gm_wf m \<Longrightarrow> (k, v) \<in> set m \<longleftrightarrow> map_of m k = Some v"
  by (simp add: gm_wf_def)

lemma gm_key_iff: "k \<in> fst ` set m \<longleftrightarrow> (\<exists>v. map_of m k = Some v)"
  by (metis domIff dom_map_of_conv_image_fst not_None_eq)

text \<open>Building a map from a slice of entries: a later entry for a key replaces an earlier one.\<close>

definition gm_of_entries :: "('k \<times> 'v) list \<Rightarrow> ('k, 'v) gomap" where
  "gm_of_entries es = fold (\<lambda>(k, v) m. AList.update k v m) es []"

lemma gm_fold_wf: "gm_wf m \<Longrightarrow> gm_wf (fold (\<lambda>(k, v) m. AList.update k v m) es m)"
  by (induction es arbitrary: m) auto

lemma gm_of_entries_wf [simp]: "gm_wf (gm_of_entries es)"
  by (simp add: gm_of_entries_def gm_fold_wf)

lemma map_of_gm_fold:
  "map_of (fold (\<lambda>(k, v) m. AList.update k v m) es m) = map_of m ++ map_of (rev es)"
  by (induction es arbitrary: m) (auto simp: map_add_def fun_eq_iff split: option.splits)

lemma map_of_gm_of_entries: "map_of (gm_of_entries es) = map_of (rev es)"
  by (simp add: gm_of_entries_def map_of_gm_fold)

lemma map_of_gm_of_distinct:
  assumes "distinct (map fst es)"
  shows "map_of (gm_of_entries es) = map_of es"
proof -
  have "map_of (rev es) = map_of es"
    using assms by (intro map_of_inject_set [THEN iffD2]) (auto simp flip: rev_map)
  then show ?thesis by (simp add: map_of_gm_of_entries)
qed

lemma gm_of_entries_empty_iff [simp]: "gm_of_entries es = [] \<longleftrightarrow> es = []"
proof
  assume "gm_of_entries es = []"
  then have "map_of (rev es) = Map.empty"
    by (metis map_of_gm_of_entries map_of.simps(1))
  then show "es = []" by simp
qed (simp add: gm_of_entries_def)

section \<open>Recursive queries\<close>

text \<open>
  \<^verbatim>\<open>WITH RECURSIVE r AS (base UNION step)\<close> keeps a queue of rows; it takes a row from
  the queue, joins it with the edge table, and appends to the result and to the queue the
  rows that are not in the result yet. \<open>UNION\<close> discards duplicates, which is why the query
  ends on a cyclic edge table as well.
\<close>

definition cte_step :: "('a \<times> 'a) list \<Rightarrow> 'a \<Rightarrow> 'a list \<Rightarrow> 'a list" where
  "cte_step E x seen = remdups (filter (\<lambda>y. y \<notin> set seen) (map snd (filter (\<lambda>(a, b). a = x) E)))"

lemma set_cte_step: "set (cte_step E x seen) = {y. (x, y) \<in> set E \<and> y \<notin> set seen}"
  by (force simp: cte_step_def)

function cte_union :: "('a \<times> 'a) list \<Rightarrow> 'a list \<Rightarrow> 'a list \<Rightarrow> 'a list" where
  "cte_union E [] seen = seen"
| "cte_union E (x # queue) seen =
     cte_union E (queue @ cte_step E x seen) (seen @ cte_step E x seen)"
  by pat_completeness auto

termination
proof (relation "measures [\<lambda>(E, q, seen). card (snd ` set E - set seen), \<lambda>(E, q, seen). length q]",
    goal_cases)
  case (2 E x queue seen)
  show ?case
  proof (cases "cte_step E x seen = []")
    case False
    then obtain y where y: "y \<in> set (cte_step E x seen)" by fastforce
    then have "y \<in> snd ` set E - set seen" by (force simp: set_cte_step)
    then have "snd ` set E - set (seen @ cte_step E x seen) \<subset> snd ` set E - set seen"
      using y by auto
    then have "card (snd ` set E - set (seen @ cte_step E x seen)) < card (snd ` set E - set seen)"
      by (intro psubset_card_mono) auto
    then show ?thesis by simp
  qed simp
qed simp

text \<open>The whole query: the base rows, without duplicates, start both the queue and the result.\<close>

definition cte_closure :: "('a \<times> 'a) list \<Rightarrow> 'a list \<Rightarrow> 'a list" where
  "cte_closure E base = cte_union E (remdups base) (remdups base)"

lemma cte_union_closed:
  assumes "set q \<subseteq> set seen" and "\<And>x y. x \<in> set seen - set q \<Longrightarrow> (x, y) \<in> set E \<Longrightarrow> y \<in> set seen"
  shows "set seen \<subseteq> set (cte_union E q seen) \<and>
    (\<forall>x y. x \<in> set (cte_union E q seen) \<longrightarrow> (x, y) \<in> set E \<longrightarrow> y \<in> set (cte_union E q seen))"
  using assms
proof (induction E q seen rule: cte_union.induct)
  case (2 E x queue seen)
  have "set (queue @ cte_step E x seen) \<subseteq> set (seen @ cte_step E x seen)"
    using "2.prems"(1) by auto
  moreover have "y \<in> set (seen @ cte_step E x seen)"
    if "z \<in> set (seen @ cte_step E x seen) - set (queue @ cte_step E x seen)" and "(z, y) \<in> set E"
    for z y
    using that "2.prems"(2)[of z y] by (cases "z = x") (auto simp: set_cte_step)
  ultimately show ?case using "2.IH" by auto
qed auto

lemma cte_union_sound:
  assumes "set q \<subseteq> set seen" and "set seen \<subseteq> (set E)\<^sup>* `` B"
  shows "set (cte_union E q seen) \<subseteq> (set E)\<^sup>* `` B"
  using assms
proof (induction E q seen rule: cte_union.induct)
  case (2 E x queue seen)
  have "x \<in> (set E)\<^sup>* `` B" using "2.prems" by auto
  then have "set (cte_step E x seen) \<subseteq> (set E)\<^sup>* `` B"
    by (auto simp: set_cte_step intro: rtrancl_into_rtrancl)
  then show ?case using 2 by auto
qed auto

lemma distinct_cte_union: "distinct seen \<Longrightarrow> distinct (cte_union E q seen)"
proof (induction E q seen rule: cte_union.induct)
  case (2 E x queue seen)
  have "distinct (seen @ cte_step E x seen)"
    using "2.prems" by (auto simp: set_cte_step) (simp add: cte_step_def)
  then show ?case using "2.IH" by simp
qed simp

lemma distinct_cte_closure [simp]: "distinct (cte_closure E base)"
  by (simp add: cte_closure_def distinct_cte_union)

theorem set_cte_closure [cte_simps]: "set (cte_closure E base) = (set E)\<^sup>* `` set base"
proof
  show "set (cte_closure E base) \<subseteq> (set E)\<^sup>* `` set base"
    unfolding cte_closure_def by (rule cte_union_sound) auto
next
  let ?R = "set (cte_union E (remdups base) (remdups base))"
  have base: "set base \<subseteq> ?R" and
    closed: "\<And>x y. x \<in> ?R \<Longrightarrow> (x, y) \<in> set E \<Longrightarrow> y \<in> ?R"
    using cte_union_closed[of "remdups base" "remdups base" E] by auto
  show "(set E)\<^sup>* `` set base \<subseteq> set (cte_closure E base)"
  proof
    fix y assume "y \<in> (set E)\<^sup>* `` set base"
    then obtain b where "b \<in> set base" "(b, y) \<in> (set E)\<^sup>*" by auto
    from this(2) have "y \<in> ?R"
      by (induction rule: rtrancl_induct) (use base closed \<open>b \<in> set base\<close> in auto)
    then show "y \<in> set (cte_closure E base)" by (simp add: cte_closure_def)
  qed
qed

end
