(* ===== verification/Auth_Store.thy ===== *)
theory Auth_Store
  imports Prelude
begin

text \<open>
  The authentication store of \<^verbatim>\<open>server/src/internal/auth\<close>: the rows of the SQLite tables
  that access control reads, and the read methods of \<^verbatim>\<open>AuthStore\<close> in
  \<^verbatim>\<open>store.go\<close>, \<^verbatim>\<open>groups.go\<close>, \<^verbatim>\<open>privileges.go\<close> and \<^verbatim>\<open>token_scope.go\<close>.
  A table is the list of its rows; a \<^verbatim>\<open>SELECT\<close> is a comprehension over it. The
  database driver is not part of the repository: it may fail any statement, and
  \<open>db_fails\<close> says which statements fail while the store is read. A failing statement, a
  failing \<^verbatim>\<open>Scan\<close> and a failing \<^verbatim>\<open>rows.Err\<close> all make the method return an error
  before anything else happens, so one \<open>DbError\<close> stands for the three. Identifiers are
  never computed with, so \<^verbatim>\<open>int64\<close> and \<^verbatim>\<open>int\<close> are \<open>int\<close>; access levels are the
  strings the code compares, because it guards against levels it does not know.
\<close>

section \<open>Constants and rows\<close>

type_synonym access_level = string
type_synonym conn_id = int
type_synonym mcp_name = string
type_synonym permission = string

definition ConnectionIDAll :: conn_id where "ConnectionIDAll = 0"
definition AccessLevelNone :: access_level where "AccessLevelNone = ''''"
definition AccessLevelRead :: access_level where "AccessLevelRead = ''read''"
definition AccessLevelReadWrite :: access_level where "AccessLevelReadWrite = ''read_write''"
definition MCPPrivilegeIDWildcard :: int where "MCPPrivilegeIDWildcard = 0"
definition AdminPermissionWildcard :: permission where "AdminPermissionWildcard = ''*''"
definition mcpScopeWildcard :: mcp_name where "mcpScopeWildcard = ''*''"

lemmas const_defs = ConnectionIDAll_def AccessLevelNone_def AccessLevelRead_def
  AccessLevelReadWrite_def MCPPrivilegeIDWildcard_def AdminPermissionWildcard_def
  mcpScopeWildcard_def

lemma levels_distinct [simp]:
  "AccessLevelRead \<noteq> AccessLevelReadWrite" "AccessLevelReadWrite \<noteq> AccessLevelRead"
  "AccessLevelNone \<noteq> AccessLevelRead" "AccessLevelRead \<noteq> AccessLevelNone"
  "AccessLevelNone \<noteq> AccessLevelReadWrite" "AccessLevelReadWrite \<noteq> AccessLevelNone"
  by (simp_all add: const_defs)

record user_row =
  usr_id :: int
  usr_username :: string
  usr_is_superuser :: bool

record token_row =
  tok_id :: int
  tok_owner_id :: int
  tok_annotation :: string

text \<open>A membership row names a member user or a member group, never both.\<close>

record membership_row =
  gm_parent_group_id :: int
  gm_member_user_id :: "int option"
  gm_member_group_id :: "int option"

record mcp_row =
  mpi_id :: int
  mpi_identifier :: mcp_name
  mpi_item_type :: string
  mpi_is_public :: bool

record scoped_connection =
  sc_connection_id :: conn_id
  sc_access_level :: access_level

text \<open>
  The statements the methods run, one constructor each: \<open>R...\<close> a \<^verbatim>\<open>SELECT\<close>,
  \<open>RTx...\<close> one inside a write transaction, \<open>W...\<close> a \<^verbatim>\<open>DELETE\<close> or \<^verbatim>\<open>INSERT\<close>.
\<close>

datatype sql_stmt =
    RUserByID int
  | RTokenByID int
  | RTokenExists int
  | RUserGroups int
  | RCircular int int
  | RGroupMCP int
  | RGroupMCPWildcard int
  | RGroupConns int
  | RGroupAdmin int
  | RPrivilegePublic mcp_name
  | RPrivilegeByName mcp_name
  | RPrivilegeByID int
  | RListPrivileges
  | RConnAssigned conn_id
  | RRestrictedConns
  | REffMCP int
  | REffMCPWildcard int
  | REffConns int
  | REffAdmin int
  | RListGroupConns int
  | RConnScopeCount int
  | RConnScopeLevel int conn_id
  | RConnScopeWildcard int
  | RMCPScopeCount int
  | RMCPScopeWildcard int
  | RMCPScopeItem int mcp_name
  | RMCPScopeNames int
  | RAdminScopeCount int
  | RAdminScopeWildcard int
  | RAdminScopeItem int permission
  | RAdminScope int
  | RScopeConns int
  | RScopeMCP int
  | RScopeAdmin int
  | RLiftCount int conn_id
  | RTokenOwner int
  | RTokenOwnerSuperuser int
  | RTokenAnnotation int
  | WBegin
  | WCommit
  | RTxConns int
  | RTxMCPIDs int
  | RTxMCPNames int
  | RTxAdmin int
  | WClearConns int
  | WInsertConn int conn_id
  | WClearMCP int
  | WInsertMCP int mcp_name
  | WClearAdmin int
  | WInsertAdmin int permission

record auth_store =
  users :: "user_row list"
  tokens :: "token_row list"
  group_memberships :: "membership_row list"
  mcp_privilege_identifiers :: "mcp_row list"
  group_mcp_privileges :: "(int \<times> int) list"
  connection_privileges :: "(int \<times> conn_id \<times> access_level) list"
  group_admin_permissions :: "(int \<times> permission) list"
  token_connection_scope :: "(int \<times> conn_id \<times> access_level) list"
  token_mcp_scope :: "(int \<times> int) list"
  token_admin_scope :: "(int \<times> permission) list"
  db_fails :: "sql_stmt \<Rightarrow> bool"

datatype auth_error =
    DbError
  | ErrTokenNotFound
  | ErrInvalidAccessLevel
  | ErrInvalidConnectionScope
  | ErrUnknownMCPPrivilege
  | ErrUnknownAdminPermission
  | ErrTokenScopeUnreadable
  | ErrTokenScopeChanged
  | ErrTokenNotOwned
  | ErrSuperuserTargetForbidden
  | ErrFederatedAPITokensDisabled
  | ErrRevokeLiftsRestriction
  | ErrGroupInItself
  | ErrCircularReference
  | ErrLookup
  | ErrConstraint
  | ErrAudit
  | ErrGroupNameExists
  | ErrGroupNotFound
  | ErrNotAMember
  | ErrMemberType
  | ErrPrivilegeNotFound
  | ErrGrantNotFound
  | ErrInvalidItemType

type_synonym 'a res = "auth_error + 'a"

text \<open>Running a statement: the driver's failure, or what the statement selects.\<close>

definition run_read :: "auth_store \<Rightarrow> sql_stmt \<Rightarrow> 'a \<Rightarrow> 'a res" where
  "run_read st q v = (if db_fails st q then Inl DbError else Inr v)"

lemma run_read_Inr [go_simps]: "run_read st q v = Inr w \<longleftrightarrow> \<not> db_fails st q \<and> v = w"
  by (auto simp: run_read_def)

lemma run_read_Inl [go_simps]: "run_read st q v = Inl e \<longleftrightarrow> db_fails st q \<and> e = DbError"
  by (auto simp: run_read_def)

text \<open>The first row of a result, or \<^verbatim>\<open>sql.ErrNoRows\<close>.\<close>

definition first_row :: "'a list \<Rightarrow> 'a option" where
  "first_row xs = (case xs of [] \<Rightarrow> None | x # _ \<Rightarrow> Some x)"

lemma first_row_None [go_simps]: "first_row xs = None \<longleftrightarrow> xs = []"
  by (simp add: first_row_def split: list.splits)

lemma first_row_SomeD: "first_row xs = Some x \<Longrightarrow> x \<in> set xs"
  by (auto simp: first_row_def split: list.splits)

lemma first_row_unique:
  assumes "x \<in> set xs" and "\<And>y. y \<in> set xs \<Longrightarrow> y = x"
  shows "first_row xs = Some x"
proof (cases xs)
  case (Cons y ys)
  then have "y = x" by (intro assms(2)) simp
  with Cons show ?thesis by (simp add: first_row_def)
qed (use assms in simp)

section \<open>Users, tokens and groups\<close>

definition GetUserByID :: "auth_store \<Rightarrow> int \<Rightarrow> (user_row option) res" where
  "GetUserByID st uid =
     run_read st (RUserByID uid) (first_row (filter (\<lambda>u. usr_id u = uid) (users st)))"

definition GetTokenByID :: "auth_store \<Rightarrow> int \<Rightarrow> (token_row option) res" where
  "GetTokenByID st tid =
     run_read st (RTokenByID tid) (first_row (filter (\<lambda>t. tok_id t = tid) (tokens st)))"

definition requireTokenLocked :: "auth_store \<Rightarrow> int \<Rightarrow> unit res" where
  "requireTokenLocked st tid =
     res_bind (run_read st (RTokenExists tid) (\<exists>t \<in> set (tokens st). tok_id t = tid))
       (\<lambda>exists. if \<not> exists then Inl ErrTokenNotFound else Inr ())"

text \<open>
  The edges of the group hierarchy: from a member group to the group it belongs to. Rows
  whose member is a user carry no edge.
\<close>

definition parent_edges :: "auth_store \<Rightarrow> (int \<times> int) list" where
  "parent_edges st = List.map_filter
     (\<lambda>r. map_option (\<lambda>m. (m, gm_parent_group_id r)) (gm_member_group_id r)) (group_memberships st)"

lemma set_parent_edges:
  "set (parent_edges st) =
     {(m, gm_parent_group_id r) | m r. r \<in> set (group_memberships st) \<and> gm_member_group_id r = Some m}"
  by (force simp: parent_edges_def map_filter_def)

definition direct_groups :: "auth_store \<Rightarrow> int \<Rightarrow> int list" where
  "direct_groups st uid = map gm_parent_group_id
     (filter (\<lambda>r. gm_member_user_id r = Some uid) (group_memberships st))"

definition GetUserGroups :: "auth_store \<Rightarrow> int \<Rightarrow> (int list) res" where
  "GetUserGroups st uid =
     run_read st (RUserGroups uid) (cte_closure (parent_edges st) (direct_groups st uid))"

text \<open>The groups whose grants membership of a group confers: the group and its ancestors.\<close>

definition ancestor_groups :: "auth_store \<Rightarrow> int \<Rightarrow> int list" where
  "ancestor_groups st gid = cte_closure (parent_edges st) [gid]"

text \<open>
  The descendants of a group, which \<open>validateNoCircularReference\<close> walks downwards from the
  group's own children.
\<close>

definition child_edges :: "auth_store \<Rightarrow> (int \<times> int) list" where
  "child_edges st = map (\<lambda>(m, p). (p, m)) (parent_edges st)"

definition descendants :: "auth_store \<Rightarrow> int \<Rightarrow> int list" where
  "descendants st gid = cte_closure (child_edges st)
     (map snd (filter (\<lambda>(p, m). p = gid) (child_edges st)))"

definition validateNoCircularReference :: "auth_store \<Rightarrow> int \<Rightarrow> int \<Rightarrow> unit res" where
  "validateNoCircularReference st parent child =
     (if parent = child then Inl ErrGroupInItself
      else res_bind (run_read st (RCircular parent child)
               (length (filter (\<lambda>g. g = parent) (descendants st child))))
             (\<lambda>count. if count > 0 then Inl ErrCircularReference else Inr ()))"

section \<open>Group grants\<close>

definition group_mcp_identifiers :: "auth_store \<Rightarrow> int \<Rightarrow> mcp_name list" where
  "group_mcp_identifiers st gid =
     [mpi_identifier m. m \<leftarrow> mcp_privilege_identifiers st,
        (g, pid) \<leftarrow> group_mcp_privileges st, g = gid \<and> mpi_id m = pid]"

definition group_mcp_wildcards :: "auth_store \<Rightarrow> int \<Rightarrow> nat" where
  "group_mcp_wildcards st gid =
     length (filter (\<lambda>(g, pid). g = gid \<and> pid = MCPPrivilegeIDWildcard) (group_mcp_privileges st))"

definition addGroupMCP :: "auth_store \<Rightarrow> int \<Rightarrow> mcp_name set \<Rightarrow> (mcp_name set) res" where
  "addGroupMCP st gid privileges =
     res_bind (run_read st (RGroupMCP gid) (group_mcp_identifiers st gid)) (\<lambda>names.
     res_bind (run_read st (RGroupMCPWildcard gid) (group_mcp_wildcards st gid)) (\<lambda>wildcardCount.
       Inr (if wildcardCount > 0 then insert mcpScopeWildcard (privileges \<union> set names)
            else privileges \<union> set names)))"

definition GetUserMCPPrivileges :: "auth_store \<Rightarrow> int \<Rightarrow> (mcp_name set) res" where
  "GetUserMCPPrivileges st uid =
     res_bind (GetUserGroups st uid) (\<lambda>groupIDs.
       if groupIDs = [] then Inr {} else fold_res (addGroupMCP st) groupIDs {})"

text \<open>One grant row folded into the user's map; the highest level wins.\<close>

definition mergeUserGrant ::
  "conn_id \<times> access_level \<Rightarrow> (conn_id, access_level) gomap \<Rightarrow> (conn_id, access_level) gomap" where
  "mergeUserGrant row privileges =
     (let (connID, accessLevel) = row in
      case map_of privileges connID of
        None \<Rightarrow> AList.update connID accessLevel privileges
      | Some existing \<Rightarrow>
          if accessLevel = AccessLevelReadWrite then AList.update connID accessLevel privileges
          else if existing = AccessLevelRead \<and> accessLevel = AccessLevelReadWrite
          then AList.update connID accessLevel privileges
          else privileges)"

definition group_conn_rows :: "auth_store \<Rightarrow> int \<Rightarrow> (conn_id \<times> access_level) list" where
  "group_conn_rows st gid = map snd (filter (\<lambda>(g, c, l). g = gid) (connection_privileges st))"

definition GetUserConnectionPrivileges ::
  "auth_store \<Rightarrow> int \<Rightarrow> ((conn_id, access_level) gomap) res" where
  "GetUserConnectionPrivileges st uid =
     res_bind (GetUserGroups st uid) (\<lambda>groupIDs.
       if groupIDs = [] then Inr []
       else fold_res (\<lambda>gid privileges.
              res_bind (run_read st (RGroupConns gid) (group_conn_rows st gid))
                (\<lambda>rows. Inr (fold mergeUserGrant rows privileges))) groupIDs [])"

definition GetUserAdminPermissions :: "auth_store \<Rightarrow> int \<Rightarrow> (permission set) res" where
  "GetUserAdminPermissions st uid =
     res_bind (GetUserGroups st uid) (\<lambda>groupIDs.
       if groupIDs = [] then Inr {}
       else fold_res (\<lambda>gid permissions.
              res_bind (run_read st (RGroupAdmin gid)
                  (map snd (filter (\<lambda>(g, p). g = gid) (group_admin_permissions st))))
                (\<lambda>rows. Inr (permissions \<union> set rows))) groupIDs {})"

text \<open>\<open>(isPublic, isRegistered)\<close>.\<close>

definition IsPrivilegePublic :: "auth_store \<Rightarrow> mcp_name \<Rightarrow> (bool \<times> bool) res" where
  "IsPrivilegePublic st name =
     res_bind (run_read st (RPrivilegePublic name)
         (first_row (filter (\<lambda>m. mpi_identifier m = name) (mcp_privilege_identifiers st))))
       (\<lambda>row. case row of None \<Rightarrow> Inr (False, False) | Some m \<Rightarrow> Inr (mpi_is_public m, True))"

definition GetMCPPrivilege :: "auth_store \<Rightarrow> mcp_name \<Rightarrow> (mcp_row option) res" where
  "GetMCPPrivilege st ident =
     run_read st (RPrivilegeByName ident)
       (first_row (filter (\<lambda>m. mpi_identifier m = ident) (mcp_privilege_identifiers st)))"

definition GetMCPPrivilegeByID :: "auth_store \<Rightarrow> int \<Rightarrow> (mcp_row option) res" where
  "GetMCPPrivilegeByID st pid =
     run_read st (RPrivilegeByID pid)
       (first_row (filter (\<lambda>m. mpi_id m = pid) (mcp_privilege_identifiers st)))"

definition ListMCPPrivileges :: "auth_store \<Rightarrow> (mcp_row list) res" where
  "ListMCPPrivileges st =
     run_read st RListPrivileges
       (sort_key mpi_item_type (sort_key mpi_identifier (mcp_privilege_identifiers st)))"

definition IsConnectionAssignedToAnyGroup :: "auth_store \<Rightarrow> conn_id \<Rightarrow> bool res" where
  "IsConnectionAssignedToAnyGroup st connID =
     res_bind (run_read st (RConnAssigned connID)
         (length (filter (\<lambda>(g, c, l). c = connID) (connection_privileges st))))
       (\<lambda>count. Inr (count > 0))"

definition RestrictedConnectionIDs :: "auth_store \<Rightarrow> (conn_id set) res" where
  "RestrictedConnectionIDs st =
     res_bind (run_read st RRestrictedConns
         (remdups (filter (\<lambda>c. c \<noteq> ConnectionIDAll) (map (\<lambda>(g, c, l). c) (connection_privileges st)))))
       (\<lambda>ids. Inr (set ids))"

section \<open>Effective grants of a group\<close>

definition GetGroupEffectiveMCPPrivileges :: "auth_store \<Rightarrow> int \<Rightarrow> (mcp_name list) res" where
  "GetGroupEffectiveMCPPrivileges st gid =
     res_bind (run_read st (REffMCP gid)
         (sort (remdups [mpi_identifier m. m \<leftarrow> mcp_privilege_identifiers st,
            (g, pid) \<leftarrow> group_mcp_privileges st,
            mpi_id m = pid \<and> g \<in> set (ancestor_groups st gid)]))) (\<lambda>privileges.
     res_bind (run_read st (REffMCPWildcard gid)
         (length (filter (\<lambda>(g, pid). g \<in> set (ancestor_groups st gid) \<and> pid = MCPPrivilegeIDWildcard)
            (group_mcp_privileges st)))) (\<lambda>wildcardCount.
       Inr (if wildcardCount > 0 then mcpScopeWildcard # privileges else privileges)))"

definition mergeGroupGrant ::
  "conn_id \<times> access_level \<Rightarrow> (conn_id, access_level) gomap \<Rightarrow> (conn_id, access_level) gomap" where
  "mergeGroupGrant row connMap =
     (let (connID, accessLevel) = row in
      case map_of connMap connID of
        None \<Rightarrow> AList.update connID accessLevel connMap
      | Some existing \<Rightarrow>
          if existing = AccessLevelRead \<and> accessLevel = AccessLevelReadWrite
          then AList.update connID accessLevel connMap
          else connMap)"

definition GetGroupEffectiveConnectionPrivileges ::
  "auth_store \<Rightarrow> int \<Rightarrow> ((conn_id \<times> access_level) list) res" where
  "GetGroupEffectiveConnectionPrivileges st gid =
     res_bind (run_read st (REffConns gid)
         (map snd (filter (\<lambda>(g, c, l). g \<in> set (ancestor_groups st gid)) (connection_privileges st))))
       (\<lambda>rows. Inr (fold mergeGroupGrant rows []))"

definition ListGroupConnectionPrivileges :: "auth_store \<Rightarrow> int \<Rightarrow> ((conn_id \<times> access_level) list) res" where
  "ListGroupConnectionPrivileges st gid =
     run_read st (RListGroupConns gid) (sort_key fst (group_conn_rows st gid))"

definition GetGroupEffectiveAdminPermissions :: "auth_store \<Rightarrow> int \<Rightarrow> (permission list) res" where
  "GetGroupEffectiveAdminPermissions st gid =
     run_read st (REffAdmin gid)
       (sort (remdups (map snd (filter (\<lambda>(g, p). g \<in> set (ancestor_groups st gid))
          (group_admin_permissions st)))))"

end
