(* ===== verification/Group_Hierarchy.thy ===== *)
theory Group_Hierarchy
  imports Auth_Store
begin

text \<open>
  What the group queries of \<open>Auth_Store\<close> compute: membership through the hierarchy, the
  check that keeps the hierarchy acyclic, and the grants a user or a group holds through
  it. The interface \<open>store_read\<close> states what every read method promises its callers,
  whether or not the database fails: a result it does return is the one the tables say.
  Each read method is interpreted as an instance, and the access checks rest on that.
\<close>

section \<open>The contract of a read method\<close>

text \<open>
  A store is healthy when no statement fails. \<open>spec\<close> is what the tables alone say; \<open>read\<close>
  is the method, which may also report a failure.
\<close>

definition healthy :: "auth_store \<Rightarrow> bool" where
  "healthy st \<longleftrightarrow> (\<forall>q. \<not> db_fails st q)"

definition repaired :: "auth_store \<Rightarrow> auth_store" where
  "repaired st = st\<lparr>db_fails := (\<lambda>_. False)\<rparr>"

lemma healthy_repaired [simp, go_intros]: "healthy (repaired st)"
  by (simp add: healthy_def repaired_def)

lemma healthy_run_read [simp]: "healthy st \<Longrightarrow> run_read st q v = Inr v"
  by (simp add: healthy_def run_read_def)

lemma repaired_tables [simp]:
  "users (repaired st) = users st" "tokens (repaired st) = tokens st"
  "group_memberships (repaired st) = group_memberships st"
  "mcp_privilege_identifiers (repaired st) = mcp_privilege_identifiers st"
  "group_mcp_privileges (repaired st) = group_mcp_privileges st"
  "connection_privileges (repaired st) = connection_privileges st"
  "group_admin_permissions (repaired st) = group_admin_permissions st"
  "token_connection_scope (repaired st) = token_connection_scope st"
  "token_mcp_scope (repaired st) = token_mcp_scope st"
  "token_admin_scope (repaired st) = token_admin_scope st"
  by (simp_all add: repaired_def)

locale store_read =
  fixes read :: "auth_store \<Rightarrow> 'a \<Rightarrow> 'b res"
    and spec :: "auth_store \<Rightarrow> 'a \<Rightarrow> 'b res"
  assumes truthful: "read st x = Inr v \<Longrightarrow> spec st x = Inr v"
    and available: "healthy st \<Longrightarrow> read st x = spec st x"
    and tables_only: "spec (repaired st) x = spec st x"
begin

text \<open>A result survives the repair of the database: failures can only withhold results.\<close>

lemma read_repaired: "read st x = Inr v \<Longrightarrow> read (repaired st) x = Inr v"
  by (simp add: available tables_only truthful)

lemma read_cases: "read st x = Inr v \<longleftrightarrow> spec st x = Inr v \<and> is_ok (read st x)"
  using truthful[of st x] by (cases "read st x") auto

end

section \<open>Membership\<close>

text \<open>A user is in a group directly, or because a group the user is in belongs to it.\<close>

inductive in_group :: "auth_store \<Rightarrow> int \<Rightarrow> int \<Rightarrow> bool" for st uid where
  direct: "r \<in> set (group_memberships st) \<Longrightarrow> gm_member_user_id r = Some uid
     \<Longrightarrow> in_group st uid (gm_parent_group_id r)"
| nested: "in_group st uid g \<Longrightarrow> r \<in> set (group_memberships st)
     \<Longrightarrow> gm_member_group_id r = Some g \<Longrightarrow> in_group st uid (gm_parent_group_id r)"

definition user_groups_of :: "auth_store \<Rightarrow> int \<Rightarrow> int list" where
  "user_groups_of st uid = cte_closure (parent_edges st) (direct_groups st uid)"

lemma parent_edges_repaired [simp]: "parent_edges (repaired st) = parent_edges st"
  by (simp add: parent_edges_def)

lemma direct_groups_repaired [simp]: "direct_groups (repaired st) uid = direct_groups st uid"
  by (simp add: direct_groups_def)

lemma user_groups_of_repaired [simp]: "user_groups_of (repaired st) uid = user_groups_of st uid"
  by (simp add: user_groups_of_def)

lemma ancestor_groups_repaired [simp]: "ancestor_groups (repaired st) gid = ancestor_groups st gid"
  by (simp add: ancestor_groups_def)

lemma set_direct_groups:
  "set (direct_groups st uid) =
     {gm_parent_group_id r | r. r \<in> set (group_memberships st) \<and> gm_member_user_id r = Some uid}"
  by (auto simp: direct_groups_def)

lemma in_group_closure:
  "in_group st uid g \<longleftrightarrow> g \<in> (set (parent_edges st))\<^sup>* `` set (direct_groups st uid)"
proof
  assume "in_group st uid g"
  then show "g \<in> (set (parent_edges st))\<^sup>* `` set (direct_groups st uid)"
  proof induction
    case (direct r)
    then show ?case by (auto simp: set_direct_groups intro: rev_ImageI)
  next
    case (nested g r)
    then have "(g, gm_parent_group_id r) \<in> set (parent_edges st)"
      by (auto simp: set_parent_edges)
    with nested.IH show ?case by (auto intro: rtrancl_into_rtrancl)
  qed
next
  assume "g \<in> (set (parent_edges st))\<^sup>* `` set (direct_groups st uid)"
  then obtain b where b: "b \<in> set (direct_groups st uid)" and "(b, g) \<in> (set (parent_edges st))\<^sup>*"
    by auto
  from this(2) show "in_group st uid g"
  proof (induction rule: rtrancl_induct)
    case base
    from b show ?case by (auto simp: set_direct_groups intro: in_group.direct)
  next
    case (step y z)
    then show ?case by (auto simp: set_parent_edges intro: in_group.nested)
  qed
qed

lemma set_user_groups_of: "set (user_groups_of st uid) = {g. in_group st uid g}"
  by (auto simp: user_groups_of_def cte_simps in_group_closure)

interpretation user_groups: store_read GetUserGroups "\<lambda>st uid. Inr (user_groups_of st uid)"
  by unfold_locales (auto simp: GetUserGroups_def user_groups_of_def go_simps)

text \<open>
  The recursive query returns every group the user is in, directly or through the
  hierarchy, each once, also when the stored hierarchy has a cycle.
\<close>

lemma GetUserGroups_correct:
  "healthy st \<Longrightarrow> \<exists>gs. GetUserGroups st uid = Inr gs \<and> distinct gs \<and> set gs = {g. in_group st uid g}"
  using user_groups.available[of st uid]
  by (auto simp: set_user_groups_of) (simp add: user_groups_of_def)

section \<open>The hierarchy stays acyclic\<close>

lemma set_child_edges: "set (child_edges st) = (set (parent_edges st))\<inverse>"
  by (force simp: child_edges_def)

lemma set_descendants: "set (descendants st gid) = {d. (d, gid) \<in> (set (parent_edges st))\<^sup>+}"
proof -
  have base: "set (map snd (filter (\<lambda>(p, m). p = gid) (child_edges st))) =
      (set (child_edges st)) `` {gid}"
    by force
  have "set (descendants st gid) = (set (child_edges st))\<^sup>+ `` {gid}"
    unfolding descendants_def set_cte_closure base
    by (auto simp: Image_iff intro: tranclD [THEN exE] rtrancl_into_trancl2 dest: tranclD)
  then show ?thesis
    by (auto simp: set_child_edges trancl_converse)
qed

lemma validate_ok_iff:
  "validateNoCircularReference st parent child = Inr () \<longleftrightarrow>
     \<not> db_fails st (RCircular parent child) \<and>
     parent \<noteq> child \<and> (parent, child) \<notin> (set (parent_edges st))\<^sup>+"
  by (auto simp: validateNoCircularReference_def go_simps set_descendants)

text \<open>
  Adding \<open>child\<close> to \<open>parent\<close> puts the edge from child to parent into the hierarchy. The
  check accepts exactly the additions after which the hierarchy is still acyclic.
\<close>

lemma validate_acyclic:
  assumes "acyclic (set (parent_edges st))" and "healthy st"
  shows "validateNoCircularReference st parent child = Inr () \<longleftrightarrow>
    acyclic (insert (child, parent) (set (parent_edges st)))"
  using assms by (auto simp: validate_ok_iff healthy_def acyclic_insert rtrancl_eq_or_trancl)

section \<open>Well-formed tables\<close>

text \<open>
  The constraints of the schema (\<^verbatim>\<open>store.go\<close>): primary keys and unique columns, the
  \<^verbatim>\<open>CHECK\<close> on access levels, one scope row per token and connection, and row ids that
  start at 1, so that 0 is free for the wildcards.
\<close>

definition valid_level :: "access_level \<Rightarrow> bool" where
  "valid_level l \<longleftrightarrow> l = AccessLevelRead \<or> l = AccessLevelReadWrite"

definition store_wf :: "auth_store \<Rightarrow> bool" where
  "store_wf st \<longleftrightarrow>
     distinct (map usr_id (users st)) \<and>
     distinct (map tok_id (tokens st)) \<and>
     distinct (map mpi_id (mcp_privilege_identifiers st)) \<and>
     distinct (map mpi_identifier (mcp_privilege_identifiers st)) \<and>
     (\<forall>m \<in> set (mcp_privilege_identifiers st). mpi_id m > 0) \<and>
     (\<forall>(g, c, l) \<in> set (connection_privileges st). valid_level l) \<and>
     (\<forall>(t, c, l) \<in> set (token_connection_scope st). valid_level l) \<and>
     distinct (map (\<lambda>(t, c, l). (t, c)) (token_connection_scope st))"

lemma store_wf_repaired [simp]: "store_wf (repaired st) \<longleftrightarrow> store_wf st"
  by (simp add: store_wf_def)

lemma valid_level_simps [simp]:
  "valid_level AccessLevelRead" "valid_level AccessLevelReadWrite" "\<not> valid_level AccessLevelNone"
  by (simp_all add: valid_level_def)

section \<open>Connection grants\<close>

text \<open>The highest level a list of grants gives on a connection, if any grant names it.\<close>

definition highest_grant :: "(conn_id \<times> access_level) list \<Rightarrow> conn_id \<Rightarrow> access_level option" where
  "highest_grant rows c =
     (if (c, AccessLevelReadWrite) \<in> set rows then Some AccessLevelReadWrite
      else if (c, AccessLevelRead) \<in> set rows then Some AccessLevelRead else None)"

lemma highest_grant_valid: "highest_grant rows c = Some l \<Longrightarrow> valid_level l"
  by (auto simp: highest_grant_def split: if_splits)

lemma highest_grant_cong: "set rows = set rows' \<Longrightarrow> highest_grant rows = highest_grant rows'"
  by (simp add: highest_grant_def fun_eq_iff)

lemma merge_grant_spec:
  assumes "\<forall>(c, l) \<in> set (row # rows). valid_level l" and "map_of m = highest_grant rows"
  shows "map_of (mergeUserGrant row m) = highest_grant (row # rows)"
    and "map_of (mergeGroupGrant row m) = highest_grant (row # rows)"
  using assms
  by (auto simp: mergeUserGrant_def mergeGroupGrant_def highest_grant_def valid_level_def fun_eq_iff
      split: prod.splits option.splits if_splits)

text \<open>Both merge loops keep the highest grant per connection, whatever the order of the rows.\<close>

lemma fold_merge_highest:
  assumes "\<forall>(c, l) \<in> set (rows @ done). valid_level l" and "map_of m = highest_grant done"
  shows "map_of (fold mergeUserGrant rows m) = highest_grant (rev rows @ done)"
    and "map_of (fold mergeGroupGrant rows m) = highest_grant (rev rows @ done)"
  using assms
proof (induction rows arbitrary: m "done")
  case (Cons r rows)
  { case 1
    then show ?case using Cons.IH(1)[of "r # done" "mergeUserGrant r m"]
      by (simp add: merge_grant_spec)
  next
    case 2
    then show ?case using Cons.IH(2)[of "r # done" "mergeGroupGrant r m"]
      by (simp add: merge_grant_spec) }
qed simp_all

lemma highest_grant_Nil [simp]: "highest_grant [] = Map.empty"
  by (simp add: highest_grant_def fun_eq_iff)

lemma highest_grant_rev [simp]: "highest_grant (rev rows) = highest_grant rows"
  by (rule highest_grant_cong) simp

lemma gm_wf_fold_merge:
  "gm_wf m \<Longrightarrow> gm_wf (fold mergeUserGrant rows m)"
  "gm_wf m \<Longrightarrow> gm_wf (fold mergeGroupGrant rows m)"
  by (induction rows arbitrary: m)
     (auto simp: mergeUserGrant_def mergeGroupGrant_def split: prod.splits option.splits)

text \<open>The connection grants of the groups \<open>gs\<close>.\<close>

definition conn_rows_of :: "auth_store \<Rightarrow> int list \<Rightarrow> (conn_id \<times> access_level) list" where
  "conn_rows_of st gs = concat (map (group_conn_rows st) gs)"

lemma set_conn_rows_of:
  "set (conn_rows_of st gs) = {(c, l). \<exists>g \<in> set gs. (g, c, l) \<in> set (connection_privileges st)}"
  by (force simp: conn_rows_of_def group_conn_rows_def)

lemma conn_rows_valid:
  "store_wf st \<Longrightarrow> \<forall>(c, l) \<in> set (conn_rows_of st gs). valid_level l"
  by (fastforce simp: set_conn_rows_of store_wf_def)

definition user_conns :: "auth_store \<Rightarrow> int \<Rightarrow> (conn_id, access_level) gomap" where
  "user_conns st uid = fold mergeUserGrant (conn_rows_of st (user_groups_of st uid)) []"

lemma fold_concat_map: "fold f (concat (map g xs)) s = fold (\<lambda>x. fold f (g x)) xs s"
  by (induction xs arbitrary: s) auto

lemma conn_rows_of_repaired [simp]: "conn_rows_of (repaired st) gs = conn_rows_of st gs"
  by (simp add: conn_rows_of_def group_conn_rows_def cong: map_cong)

lemma fold_res_reads_truthful:
  assumes "\<And>x s v. x \<in> set xs \<Longrightarrow> f x s = Inr v \<Longrightarrow> v = g x s"
  shows "fold_res f xs s = Inr v \<Longrightarrow> v = fold g xs s"
  using assms by (induction xs arbitrary: s) (auto simp: go_simps)

interpretation user_conns: store_read GetUserConnectionPrivileges "\<lambda>st uid. Inr (user_conns st uid)"
proof unfold_locales
  fix st uid v
  assume "GetUserConnectionPrivileges st uid = Inr v"
  then show "Inr (user_conns st uid) = (Inr v :: ((conn_id, access_level) gomap) res)"
    by (auto simp: GetUserConnectionPrivileges_def user_conns_def conn_rows_of_def fold_concat_map
        go_simps dest!: user_groups.truthful split: if_splits
        dest: fold_res_reads_truthful [where g = "\<lambda>gid. fold mergeUserGrant (group_conn_rows st gid)", rotated])
next
  fix st uid
  assume "healthy st"
  then show "GetUserConnectionPrivileges st uid = (Inr (user_conns st uid) :: ((conn_id, access_level) gomap) res)"
    by (simp add: GetUserConnectionPrivileges_def user_groups.available user_conns_def
        conn_rows_of_def fold_concat_map
        fold_res_total [where g = "\<lambda>gid. fold mergeUserGrant (group_conn_rows st gid)"])
qed (simp add: user_conns_def)

lemma user_conns_wf [simp]: "gm_wf (user_conns st uid)"
  by (simp add: user_conns_def gm_wf_fold_merge)

lemma map_of_user_conns:
  "store_wf st \<Longrightarrow> map_of (user_conns st uid) = highest_grant (conn_rows_of st (user_groups_of st uid))"
  using fold_merge_highest(1)[of _ "[]" "[]"] conn_rows_valid
  by (simp add: user_conns_def)

definition group_conns :: "auth_store \<Rightarrow> int \<Rightarrow> (conn_id, access_level) gomap" where
  "group_conns st gid = fold mergeGroupGrant
     (map snd (filter (\<lambda>(g, c, l). g \<in> set (ancestor_groups st gid)) (connection_privileges st))) []"

interpretation group_conns: store_read GetGroupEffectiveConnectionPrivileges
    "\<lambda>st gid. Inr (group_conns st gid)"
  by unfold_locales
     (auto simp: GetGroupEffectiveConnectionPrivileges_def group_conns_def go_simps)

lemma group_conns_wf [simp]: "gm_wf (group_conns st gid)"
  by (simp add: group_conns_def gm_wf_fold_merge)

lemma map_of_group_conns:
  assumes "store_wf st"
  shows "map_of (group_conns st gid) = highest_grant (conn_rows_of st (ancestor_groups st gid))"
proof -
  let ?rows = "map snd (filter (\<lambda>(g, c, l). g \<in> set (ancestor_groups st gid)) (connection_privileges st))"
  have eq: "set ?rows = set (conn_rows_of st (ancestor_groups st gid))"
    by (force simp: set_conn_rows_of)
  then have "\<forall>(c, l) \<in> set ?rows. valid_level l" using conn_rows_valid[OF assms] by simp
  then have "map_of (group_conns st gid) = highest_grant ?rows"
    using fold_merge_highest(2)[of ?rows "[]" "[]"] by (simp add: group_conns_def)
  then show ?thesis using highest_grant_cong[OF eq] by simp
qed

section \<open>MCP and admin grants\<close>

definition user_mcp :: "auth_store \<Rightarrow> int \<Rightarrow> mcp_name set" where
  "user_mcp st uid =
     {mpi_identifier m | m g. in_group st uid g \<and> m \<in> set (mcp_privilege_identifiers st) \<and>
        (g, mpi_id m) \<in> set (group_mcp_privileges st)} \<union>
     (if \<exists>g. in_group st uid g \<and> (g, MCPPrivilegeIDWildcard) \<in> set (group_mcp_privileges st)
      then {mcpScopeWildcard} else {})"

definition group_mcp_set :: "auth_store \<Rightarrow> int \<Rightarrow> mcp_name set" where
  "group_mcp_set st gid = set (group_mcp_identifiers st gid) \<union>
     (if group_mcp_wildcards st gid > 0 then {mcpScopeWildcard} else {})"

lemma group_mcp_set_eq:
  "group_mcp_set st gid =
     {mpi_identifier m | m. m \<in> set (mcp_privilege_identifiers st) \<and>
        (gid, mpi_id m) \<in> set (group_mcp_privileges st)} \<union>
     (if (gid, MCPPrivilegeIDWildcard) \<in> set (group_mcp_privileges st) then {mcpScopeWildcard} else {})"
  by (auto simp: group_mcp_set_def group_mcp_identifiers_def group_mcp_wildcards_def go_simps)

lemma addGroupMCP_Inr: "addGroupMCP st gid s = Inr v \<Longrightarrow> v = s \<union> group_mcp_set st gid"
  by (auto simp: addGroupMCP_def group_mcp_set_def go_simps)

lemma fold_union: "fold (\<lambda>x s. s \<union> g x) xs s = s \<union> (\<Union>x \<in> set xs. g x)"
  by (induction xs arbitrary: s) auto

lemma fold_res_union_truthful:
  assumes "fold_res f xs s = Inr v" and "\<And>x s v. f x s = Inr v \<Longrightarrow> v = s \<union> g x"
  shows "v = s \<union> (\<Union>x \<in> set xs. g x)"
  using fold_res_reads_truthful [OF assms(2,1)] by (simp add: fold_union)

lemma user_mcp_eq: "user_mcp st uid = (\<Union>g \<in> set (user_groups_of st uid). group_mcp_set st g)"
  by (auto simp: user_mcp_def group_mcp_set_eq set_user_groups_of split: if_splits)


interpretation user_mcp: store_read GetUserMCPPrivileges "\<lambda>st uid. Inr (user_mcp st uid)"
proof unfold_locales
  fix st uid v
  assume "GetUserMCPPrivileges st uid = Inr v"
  then show "Inr (user_mcp st uid) = (Inr v :: (mcp_name set) res)"
    by (auto simp: GetUserMCPPrivileges_def user_mcp_eq go_simps dest!: user_groups.truthful
        fold_res_union_truthful [OF _ addGroupMCP_Inr] split: if_splits)
next
  fix st uid
  assume st: "healthy st"
  then have "addGroupMCP st gid s = Inr (s \<union> group_mcp_set st gid)" for gid s
    by (auto simp: addGroupMCP_def group_mcp_set_def)
  then show "GetUserMCPPrivileges st uid = (Inr (user_mcp st uid) :: (mcp_name set) res)"
    using st by (simp add: GetUserMCPPrivileges_def user_groups.available user_mcp_eq fold_union
        fold_res_total [where g = "\<lambda>gid s. s \<union> group_mcp_set st gid"])
qed (simp add: user_mcp_eq group_mcp_set_eq)

definition user_admin :: "auth_store \<Rightarrow> int \<Rightarrow> permission set" where
  "user_admin st uid = {p. \<exists>g. in_group st uid g \<and> (g, p) \<in> set (group_admin_permissions st)}"

definition group_admin_rows :: "auth_store \<Rightarrow> int \<Rightarrow> permission list" where
  "group_admin_rows st gid = map snd (filter (\<lambda>(g, p). g = gid) (group_admin_permissions st))"

lemma user_admin_eq: "user_admin st uid = (\<Union>g \<in> set (user_groups_of st uid). set (group_admin_rows st g))"
  by (force simp: user_admin_def group_admin_rows_def set_user_groups_of)

interpretation user_admin: store_read GetUserAdminPermissions "\<lambda>st uid. Inr (user_admin st uid)"
proof unfold_locales
  fix st uid v
  assume "GetUserAdminPermissions st uid = Inr v"
  then show "Inr (user_admin st uid) = (Inr v :: (permission set) res)"
    unfolding GetUserAdminPermissions_def group_admin_rows_def [symmetric]
    by (auto simp: user_admin_eq go_simps dest!: user_groups.truthful split: if_splits
        dest!: fold_res_union_truthful [where g = "\<lambda>gid. set (group_admin_rows st gid)"])
next
  fix st uid
  assume "healthy st"
  then show "GetUserAdminPermissions st uid = (Inr (user_admin st uid) :: (permission set) res)"
    unfolding GetUserAdminPermissions_def group_admin_rows_def [symmetric]
    by (simp add: user_groups.available user_admin_eq fold_union
        fold_res_total [where g = "\<lambda>gid s. s \<union> set (group_admin_rows st gid)"])
qed (simp add: user_admin_eq group_admin_rows_def)

section \<open>Grants of a group\<close>

lemma set_ancestor_groups: "set (ancestor_groups st gid) = (set (parent_edges st))\<^sup>* `` {gid}"
  by (simp add: ancestor_groups_def cte_simps)

definition group_mcp_list :: "auth_store \<Rightarrow> int \<Rightarrow> mcp_name list" where
  "group_mcp_list st gid =
     (let names = sort (remdups [mpi_identifier m. m \<leftarrow> mcp_privilege_identifiers st,
            (g, pid) \<leftarrow> group_mcp_privileges st,
            mpi_id m = pid \<and> g \<in> set (ancestor_groups st gid)])
      in if \<exists>(g, pid) \<in> set (group_mcp_privileges st).
              g \<in> set (ancestor_groups st gid) \<and> pid = MCPPrivilegeIDWildcard
         then mcpScopeWildcard # names else names)"

interpretation group_mcp: store_read GetGroupEffectiveMCPPrivileges "\<lambda>st gid. Inr (group_mcp_list st gid)"
  by unfold_locales (auto simp: GetGroupEffectiveMCPPrivileges_def group_mcp_list_def go_simps Let_def)

definition group_admin_list :: "auth_store \<Rightarrow> int \<Rightarrow> permission list" where
  "group_admin_list st gid = sort (remdups (map snd
     (filter (\<lambda>(g, p). g \<in> set (ancestor_groups st gid)) (group_admin_permissions st))))"

interpretation group_admin: store_read GetGroupEffectiveAdminPermissions
    "\<lambda>st gid. Inr (group_admin_list st gid)"
  by unfold_locales (auto simp: GetGroupEffectiveAdminPermissions_def group_admin_list_def go_simps)

lemma set_group_mcp_list:
  "set (group_mcp_list st gid) = (\<Union>g \<in> set (ancestor_groups st gid). group_mcp_set st g)"
  by (auto simp: group_mcp_list_def group_mcp_set_eq Let_def split: if_splits)

lemma set_group_admin_list:
  "set (group_admin_list st gid) = (\<Union>g \<in> set (ancestor_groups st gid). set (group_admin_rows st g))"
  by (force simp: group_admin_list_def group_admin_rows_def)

text \<open>
  A user is in a group exactly when the user is in one of its descendants or the group
  itself, so what a user holds is the union of what the groups the user joined confer.
\<close>

lemma user_groups_ancestors:
  "set (user_groups_of st uid) = (\<Union>g \<in> set (direct_groups st uid). set (ancestor_groups st g))"
  by (auto simp: user_groups_of_def cte_simps set_ancestor_groups)

end
