(* ===== verification/Token_Scope.thy ===== *)
theory Token_Scope
  imports Group_Hierarchy
begin

text \<open>
  The scope of an API token, \<^verbatim>\<open>token_scope.go\<close> and its neighbours: how the three scope
  tables are read (a kind with no rows leaves the token unrestricted in that kind, so an
  unreadable or missing token must be an error and never an empty result), how a scope is
  validated and written inside a transaction, and the guards a write passes first
  (\<^verbatim>\<open>token_owner_guard.go\<close>, \<^verbatim>\<open>token_superuser_owner.go\<close>,
  \<^verbatim>\<open>token_scope_snapshot.go\<close>).
\<close>

section \<open>Reading a scope\<close>

record token_scope =
  ts_token_id :: int
  ts_connections :: "scoped_connection list"
  ts_mcp_privileges :: "int list"
  ts_admin_permissions :: "permission list"

definition scope_conn_rows :: "auth_store \<Rightarrow> int \<Rightarrow> scoped_connection list" where
  "scope_conn_rows st tid =
     map (\<lambda>(t, c, l). \<lparr>sc_connection_id = c, sc_access_level = l\<rparr>)
       (filter (\<lambda>(t, c, l). t = tid) (token_connection_scope st))"

definition scope_mcp_rows :: "auth_store \<Rightarrow> int \<Rightarrow> int list" where
  "scope_mcp_rows st tid = map snd (filter (\<lambda>(t, p). t = tid) (token_mcp_scope st))"

definition scope_admin_rows :: "auth_store \<Rightarrow> int \<Rightarrow> permission list" where
  "scope_admin_rows st tid = map snd (filter (\<lambda>(t, p). t = tid) (token_admin_scope st))"

definition GetTokenScope :: "auth_store \<Rightarrow> int \<Rightarrow> (token_scope option) res" where
  "GetTokenScope st tid =
     res_bind (requireTokenLocked st tid) (\<lambda>_.
     res_bind (run_read st (RScopeConns tid) (scope_conn_rows st tid)) (\<lambda>conns.
     res_bind (run_read st (RScopeMCP tid) (scope_mcp_rows st tid)) (\<lambda>mcp.
     res_bind (run_read st (RScopeAdmin tid) (scope_admin_rows st tid)) (\<lambda>admin.
       if conns = [] \<and> mcp = [] \<and> admin = [] then Inr None
       else Inr (Some \<lparr>ts_token_id = tid, ts_connections = conns,
              ts_mcp_privileges = mcp, ts_admin_permissions = admin\<rparr>)))))"

text \<open>\<open>TokenScope.InScope\<close>.\<close>

definition InScope :: "token_scope \<Rightarrow> conn_id \<Rightarrow> bool" where
  "InScope ts connID \<longleftrightarrow>
     ts_connections ts = [] \<or>
     (\<exists>sc \<in> set (ts_connections ts).
        sc_connection_id sc = connID \<or> sc_connection_id sc = ConnectionIDAll)"

definition conn_scope_level :: "auth_store \<Rightarrow> int \<Rightarrow> conn_id \<Rightarrow> access_level option" where
  "conn_scope_level st tid connID =
     map_option sc_access_level
       (first_row (filter (\<lambda>sc. sc_connection_id sc = connID) (scope_conn_rows st tid)))"

definition IsConnectionInTokenScope :: "auth_store \<Rightarrow> int \<Rightarrow> conn_id \<Rightarrow> (bool \<times> access_level) res" where
  "IsConnectionInTokenScope st tid connID =
     res_bind (requireTokenLocked st tid) (\<lambda>_.
     res_bind (run_read st (RConnScopeCount tid) (length (scope_conn_rows st tid))) (\<lambda>count.
       if count = 0 then Inr (True, AccessLevelNone)
       else res_bind (run_read st (RConnScopeLevel tid connID) (conn_scope_level st tid connID)) (\<lambda>specific.
         case specific of
           Some accessLevel \<Rightarrow> Inr (True, accessLevel)
         | None \<Rightarrow>
             res_bind (run_read st (RConnScopeWildcard tid) (conn_scope_level st tid ConnectionIDAll))
               (\<lambda>wildcard. case wildcard of
                  None \<Rightarrow> Inr (False, AccessLevelNone)
                | Some accessLevel \<Rightarrow> Inr (True, accessLevel)))))"

definition IsMCPItemInTokenScope :: "auth_store \<Rightarrow> int \<Rightarrow> mcp_name \<Rightarrow> bool res" where
  "IsMCPItemInTokenScope st tid name =
     res_bind (requireTokenLocked st tid) (\<lambda>_.
     res_bind (run_read st (RMCPScopeCount tid) (length (scope_mcp_rows st tid))) (\<lambda>scopeCount.
       if scopeCount = 0 then Inr True
       else res_bind (run_read st (RMCPScopeWildcard tid)
              (length (filter (\<lambda>p. p = MCPPrivilegeIDWildcard) (scope_mcp_rows st tid)))) (\<lambda>wildcardCount.
         if wildcardCount > 0 then Inr True
         else res_bind (run_read st (RMCPScopeItem tid name)
                (length [m. p \<leftarrow> scope_mcp_rows st tid, m \<leftarrow> mcp_privilege_identifiers st,
                   mpi_id m = p \<and> mpi_identifier m = name]))
              (\<lambda>inScope. Inr (inScope > 0)))))"

definition HasTokenMCPScope :: "auth_store \<Rightarrow> int \<Rightarrow> bool res" where
  "HasTokenMCPScope st tid =
     res_bind (requireTokenLocked st tid) (\<lambda>_.
     res_bind (run_read st (RMCPScopeCount tid) (length (scope_mcp_rows st tid)))
       (\<lambda>count. Inr (count > 0)))"

definition scope_mcp_names :: "auth_store \<Rightarrow> int \<Rightarrow> mcp_name list" where
  "scope_mcp_names st tid =
     [mpi_identifier m. p \<leftarrow> scope_mcp_rows st tid, m \<leftarrow> mcp_privilege_identifiers st, mpi_id m = p]"

definition GetTokenMCPScope :: "auth_store \<Rightarrow> int \<Rightarrow> (mcp_name list) res" where
  "GetTokenMCPScope st tid =
     res_bind (requireTokenLocked st tid) (\<lambda>_.
     res_bind (run_read st (RMCPScopeWildcard tid)
         (length (filter (\<lambda>p. p = MCPPrivilegeIDWildcard) (scope_mcp_rows st tid)))) (\<lambda>wildcardCount.
       if wildcardCount > 0 then Inr [mcpScopeWildcard]
       else run_read st (RMCPScopeNames tid) (sort (scope_mcp_names st tid))))"

definition GetTokenAdminScope :: "auth_store \<Rightarrow> int \<Rightarrow> (permission list) res" where
  "GetTokenAdminScope st tid =
     res_bind (requireTokenLocked st tid) (\<lambda>_.
       run_read st (RAdminScope tid) (scope_admin_rows st tid))"

definition IsAdminPermissionInTokenScope :: "auth_store \<Rightarrow> int \<Rightarrow> permission \<Rightarrow> bool res" where
  "IsAdminPermissionInTokenScope st tid perm =
     res_bind (requireTokenLocked st tid) (\<lambda>_.
     res_bind (run_read st (RAdminScopeCount tid) (length (scope_admin_rows st tid))) (\<lambda>count.
       if count = 0 then Inr True
       else res_bind (run_read st (RAdminScopeWildcard tid)
              (length (filter (\<lambda>p. p = AdminPermissionWildcard) (scope_admin_rows st tid)))) (\<lambda>wildcardCount.
         if wildcardCount > 0 then Inr True
         else res_bind (run_read st (RAdminScopeItem tid perm)
                (length (filter (\<lambda>p. p = perm) (scope_admin_rows st tid))))
              (\<lambda>count. Inr (count > 0)))))"

definition HasTokenScope :: "auth_store \<Rightarrow> int \<Rightarrow> bool res" where
  "HasTokenScope st tid =
     res_bind (requireTokenLocked st tid) (\<lambda>_.
     res_bind (run_read st (RConnScopeCount tid) (length (scope_conn_rows st tid))) (\<lambda>connCount.
     res_bind (run_read st (RMCPScopeCount tid) (length (scope_mcp_rows st tid))) (\<lambda>mcpCount.
     res_bind (run_read st (RAdminScopeCount tid) (length (scope_admin_rows st tid))) (\<lambda>adminCount.
       Inr (connCount > 0 \<or> mcpCount > 0 \<or> adminCount > 0)))))"

section \<open>Validation\<close>

fun validateEntries :: "scoped_connection list \<Rightarrow> conn_id set \<Rightarrow> (conn_id set) res" where
  "validateEntries [] seen = Inr seen"
| "validateEntries (conn # conns) seen =
     (if sc_access_level conn \<noteq> AccessLevelRead \<and> sc_access_level conn \<noteq> AccessLevelReadWrite
      then Inl ErrInvalidAccessLevel
      else if sc_connection_id conn < 0 then Inl ErrInvalidConnectionScope
      else if sc_connection_id conn \<in> seen then Inl ErrInvalidConnectionScope
      else validateEntries conns (insert (sc_connection_id conn) seen))"

definition ValidateScopedConnections :: "scoped_connection list \<Rightarrow> unit res" where
  "ValidateScopedConnections connections =
     res_bind (validateEntries connections {}) (\<lambda>seen.
       if ConnectionIDAll \<in> seen \<and> length connections > 1 then Inl ErrInvalidConnectionScope
       else Inr ())"

definition knownAdminPermissions :: "permission list" where
  "knownAdminPermissions =
     [''manage_connections'', ''manage_groups'', ''manage_permissions'', ''manage_users'',
      ''manage_token_scopes'', ''manage_blackouts'', ''manage_probes'', ''manage_alert_rules'',
      ''manage_notification_channels'', ''store_system_memory'', AdminPermissionWildcard]"

definition ValidateAdminPermissions :: "permission list \<Rightarrow> unit res" where
  "ValidateAdminPermissions permissions =
     (if \<exists>p \<in> set permissions. p \<notin> set knownAdminPermissions then Inl ErrUnknownAdminPermission
      else Inr ())"

section \<open>Writing a scope inside a transaction\<close>

definition tokenConnectionScopeTx :: "auth_store \<Rightarrow> int \<Rightarrow> (scoped_connection list) res" where
  "tokenConnectionScopeTx st tid =
     run_read st (RTxConns tid) (sort_key sc_connection_id (scope_conn_rows st tid))"

definition tokenMCPScopeIDsTx :: "auth_store \<Rightarrow> int \<Rightarrow> (int list) res" where
  "tokenMCPScopeIDsTx st tid = run_read st (RTxMCPIDs tid) (sort (scope_mcp_rows st tid))"

text \<open>
  A left join with \<^verbatim>\<open>mcp_privilege_identifiers\<close>: a wildcard row is rendered as the wildcard
  name once per joined row, and once if it joins with none; a row that names a deleted
  identifier yields no name.
\<close>

definition joined_names :: "auth_store \<Rightarrow> int \<Rightarrow> mcp_name list" where
  "joined_names st p =
     (let ms = filter (\<lambda>m. mpi_id m = p) (mcp_privilege_identifiers st) in
      if p = MCPPrivilegeIDWildcard
      then (if ms = [] then [mcpScopeWildcard] else map (\<lambda>_. mcpScopeWildcard) ms)
      else map mpi_identifier ms)"

definition tokenMCPScopeNamesTx :: "auth_store \<Rightarrow> int \<Rightarrow> (mcp_name list) res" where
  "tokenMCPScopeNamesTx st tid =
     run_read st (RTxMCPNames tid) (sort (concat (map (joined_names st) (scope_mcp_rows st tid))))"

definition tokenAdminScopeTx :: "auth_store \<Rightarrow> int \<Rightarrow> (permission list) res" where
  "tokenAdminScopeTx st tid = run_read st (RTxAdmin tid) (sort (scope_admin_rows st tid))"

text \<open>
  The inserts obey the tables' constraints: the token exists, no second row for the same
  key, and a valid access level.
\<close>

definition insertConnScope :: "int \<Rightarrow> scoped_connection \<Rightarrow> auth_store \<Rightarrow> auth_store res" where
  "insertConnScope tid conn st =
     (if db_fails st (WInsertConn tid (sc_connection_id conn)) then Inl DbError
      else if (\<forall>t \<in> set (tokens st). tok_id t \<noteq> tid) \<or> \<not> valid_level (sc_access_level conn) \<or>
              (\<exists>sc \<in> set (scope_conn_rows st tid). sc_connection_id sc = sc_connection_id conn)
      then Inl ErrConstraint
      else Inr (st\<lparr>token_connection_scope :=
                  token_connection_scope st @ [(tid, sc_connection_id conn, sc_access_level conn)]\<rparr>))"

definition writeTokenConnectionScopeTx ::
  "auth_store \<Rightarrow> int \<Rightarrow> scoped_connection list \<Rightarrow>
     (auth_store \<times> scoped_connection list \<times> scoped_connection list) res" where
  "writeTokenConnectionScopeTx st tid connections =
     res_bind (tokenConnectionScopeTx st tid) (\<lambda>before.
     res_bind (run_read st (WClearConns tid)
         (st\<lparr>token_connection_scope := filter (\<lambda>(t, c, l). t \<noteq> tid) (token_connection_scope st)\<rparr>)) (\<lambda>cleared.
     res_bind (fold_res (insertConnScope tid) connections cleared) (\<lambda>st'.
     res_bind (tokenConnectionScopeTx st' tid) (\<lambda>after. Inr (st', before, after)))))"

definition insertMCPRow :: "int \<Rightarrow> mcp_name \<Rightarrow> int \<Rightarrow> auth_store \<Rightarrow> auth_store res" where
  "insertMCPRow tid name pid st =
     (if db_fails st (WInsertMCP tid name) then Inl DbError
      else if (\<forall>t \<in> set (tokens st). tok_id t \<noteq> tid) \<or> pid \<in> set (scope_mcp_rows st tid)
      then Inl ErrConstraint
      else Inr (st\<lparr>token_mcp_scope := token_mcp_scope st @ [(tid, pid)]\<rparr>))"

text \<open>
  The loop over the names stops at the wildcard, which covers the rest. An
  \<^verbatim>\<open>INSERT ... SELECT\<close> that selects no identifier inserts no row and fails the write.
\<close>

definition ids_of_name :: "auth_store \<Rightarrow> mcp_name \<Rightarrow> int list" where
  "ids_of_name st name = map mpi_id (filter (\<lambda>m. mpi_identifier m = name) (mcp_privilege_identifiers st))"

fun insertMCPNames :: "int \<Rightarrow> mcp_name list \<Rightarrow> auth_store \<Rightarrow> auth_store res" where
  "insertMCPNames tid [] st = Inr st"
| "insertMCPNames tid (name # names) st =
     (if name = mcpScopeWildcard then insertMCPRow tid name MCPPrivilegeIDWildcard st
      else if db_fails st (WInsertMCP tid name) then Inl DbError
      else if ids_of_name st name = [] then Inl ErrUnknownMCPPrivilege
      else res_bind (fold_res (insertMCPRow tid name) (ids_of_name st name) st) (insertMCPNames tid names))"

definition writeTokenMCPScopeByNamesTx ::
  "auth_store \<Rightarrow> int \<Rightarrow> mcp_name list \<Rightarrow> (auth_store \<times> mcp_name list \<times> mcp_name list) res" where
  "writeTokenMCPScopeByNamesTx st tid identifiers =
     res_bind (tokenMCPScopeNamesTx st tid) (\<lambda>before.
     res_bind (run_read st (WClearMCP tid)
         (st\<lparr>token_mcp_scope := filter (\<lambda>(t, p). t \<noteq> tid) (token_mcp_scope st)\<rparr>)) (\<lambda>cleared.
     res_bind (insertMCPNames tid identifiers cleared) (\<lambda>st'.
     res_bind (tokenMCPScopeNamesTx st' tid) (\<lambda>after. Inr (st', before, after)))))"

definition insertAdminRow :: "int \<Rightarrow> permission \<Rightarrow> auth_store \<Rightarrow> auth_store res" where
  "insertAdminRow tid perm st =
     (if db_fails st (WInsertAdmin tid perm) then Inl DbError
      else if (\<forall>t \<in> set (tokens st). tok_id t \<noteq> tid) \<or> perm \<in> set (scope_admin_rows st tid)
      then Inl ErrConstraint
      else Inr (st\<lparr>token_admin_scope := token_admin_scope st @ [(tid, perm)]\<rparr>))"

fun insertAdminPerms :: "int \<Rightarrow> permission list \<Rightarrow> auth_store \<Rightarrow> auth_store res" where
  "insertAdminPerms tid [] st = Inr st"
| "insertAdminPerms tid (perm # perms) st =
     (if perm = AdminPermissionWildcard then insertAdminRow tid AdminPermissionWildcard st
      else res_bind (insertAdminRow tid perm st) (insertAdminPerms tid perms))"

definition writeTokenAdminScopeTx ::
  "auth_store \<Rightarrow> int \<Rightarrow> permission list \<Rightarrow> (auth_store \<times> permission list \<times> permission list) res" where
  "writeTokenAdminScopeTx st tid permissions =
     res_bind (tokenAdminScopeTx st tid) (\<lambda>before.
     res_bind (run_read st (WClearAdmin tid)
         (st\<lparr>token_admin_scope := filter (\<lambda>(t, p). t \<noteq> tid) (token_admin_scope st)\<rparr>)) (\<lambda>cleared.
     res_bind (insertAdminPerms tid permissions cleared) (\<lambda>st'.
     res_bind (tokenAdminScopeTx st' tid) (\<lambda>after. Inr (st', before, after)))))"

section \<open>What the reads say\<close>

definition token_exists :: "auth_store \<Rightarrow> int \<Rightarrow> bool" where
  "token_exists st tid \<longleftrightarrow> (\<exists>t \<in> set (tokens st). tok_id t = tid)"

lemma token_exists_repaired [simp]: "token_exists (repaired st) tid \<longleftrightarrow> token_exists st tid"
  by (simp add: token_exists_def)

lemma scope_rows_repaired [simp]:
  "scope_conn_rows (repaired st) tid = scope_conn_rows st tid"
  "scope_mcp_rows (repaired st) tid = scope_mcp_rows st tid"
  "scope_admin_rows (repaired st) tid = scope_admin_rows st tid"
  "conn_scope_level (repaired st) tid c = conn_scope_level st tid c"
  by (simp_all add: scope_conn_rows_def scope_mcp_rows_def scope_admin_rows_def conn_scope_level_def)

definition when_token :: "auth_store \<Rightarrow> int \<Rightarrow> 'a \<Rightarrow> 'a res" where
  "when_token st tid v = (if token_exists st tid then Inr v else Inl ErrTokenNotFound)"

lemma requireTokenLocked_cases [go_simps]:
  "requireTokenLocked st tid = Inr u \<longleftrightarrow> \<not> db_fails st (RTokenExists tid) \<and> token_exists st tid"
  by (auto simp: requireTokenLocked_def token_exists_def go_simps)

lemma healthy_requireTokenLocked [simp]:
  "healthy st \<Longrightarrow> requireTokenLocked st tid = when_token st tid ()"
  by (auto simp: requireTokenLocked_def when_token_def token_exists_def)

lemma when_token_Inr [go_simps]: "when_token st tid v = Inr w \<longleftrightarrow> token_exists st tid \<and> v = w"
  by (auto simp: when_token_def)

lemma when_token_repaired [simp]: "when_token (repaired st) tid v = when_token st tid v"
  by (simp add: when_token_def)

lemma res_bind_when_token [simp]:
  "res_bind (when_token st tid v) f = (if token_exists st tid then f v else Inl ErrTokenNotFound)"
  by (simp add: when_token_def)

text \<open>The level a scope holds a connection at: its own entry, else the wildcard entry.\<close>

definition conn_scope_answer :: "auth_store \<Rightarrow> int \<Rightarrow> conn_id \<Rightarrow> bool \<times> access_level" where
  "conn_scope_answer st tid c =
     (if scope_conn_rows st tid = [] then (True, AccessLevelNone)
      else case conn_scope_level st tid c of
        Some l \<Rightarrow> (True, l)
      | None \<Rightarrow> (case conn_scope_level st tid ConnectionIDAll of
           None \<Rightarrow> (False, AccessLevelNone)
         | Some l \<Rightarrow> (True, l)))"

definition mcp_in_scope :: "auth_store \<Rightarrow> int \<Rightarrow> mcp_name \<Rightarrow> bool" where
  "mcp_in_scope st tid name \<longleftrightarrow>
     scope_mcp_rows st tid = [] \<or> MCPPrivilegeIDWildcard \<in> set (scope_mcp_rows st tid) \<or>
     (\<exists>m \<in> set (mcp_privilege_identifiers st).
        mpi_id m \<in> set (scope_mcp_rows st tid) \<and> mpi_identifier m = name)"

definition admin_in_scope :: "auth_store \<Rightarrow> int \<Rightarrow> permission \<Rightarrow> bool" where
  "admin_in_scope st tid perm \<longleftrightarrow>
     scope_admin_rows st tid = [] \<or> AdminPermissionWildcard \<in> set (scope_admin_rows st tid) \<or>
     perm \<in> set (scope_admin_rows st tid)"

definition token_scope_of :: "auth_store \<Rightarrow> int \<Rightarrow> token_scope option" where
  "token_scope_of st tid =
     (if scope_conn_rows st tid = [] \<and> scope_mcp_rows st tid = [] \<and> scope_admin_rows st tid = []
      then None
      else Some \<lparr>ts_token_id = tid, ts_connections = scope_conn_rows st tid,
              ts_mcp_privileges = scope_mcp_rows st tid,
              ts_admin_permissions = scope_admin_rows st tid\<rparr>)"

lemma scope_answers_repaired [simp]:
  "conn_scope_answer (repaired st) tid c = conn_scope_answer st tid c"
  "mcp_in_scope (repaired st) tid name = mcp_in_scope st tid name"
  "admin_in_scope (repaired st) tid perm = admin_in_scope st tid perm"
  "token_scope_of (repaired st) tid = token_scope_of st tid"
  by (simp_all add: conn_scope_answer_def mcp_in_scope_def admin_in_scope_def token_scope_of_def
      split: option.split)

interpretation scope_conn: store_read
    "\<lambda>st (tid, c). IsConnectionInTokenScope st tid c"
    "\<lambda>st (tid, c). when_token st tid (conn_scope_answer st tid c)"
  by unfold_locales
     (auto simp: IsConnectionInTokenScope_def conn_scope_answer_def when_token_def go_simps
        split: prod.splits option.splits if_splits)

interpretation scope_mcp: store_read
    "\<lambda>st (tid, name). IsMCPItemInTokenScope st tid name"
    "\<lambda>st (tid, name). when_token st tid (mcp_in_scope st tid name)"
  by unfold_locales
     (auto simp: IsMCPItemInTokenScope_def mcp_in_scope_def when_token_def go_simps
        split: prod.splits if_splits)

interpretation scope_admin: store_read
    "\<lambda>st (tid, perm). IsAdminPermissionInTokenScope st tid perm"
    "\<lambda>st (tid, perm). when_token st tid (admin_in_scope st tid perm)"
  by unfold_locales
     (auto simp: IsAdminPermissionInTokenScope_def admin_in_scope_def when_token_def go_simps
        split: prod.splits if_splits)

interpretation whole_scope: store_read GetTokenScope "\<lambda>st tid. when_token st tid (token_scope_of st tid)"
  by unfold_locales
     (auto simp: GetTokenScope_def token_scope_of_def when_token_def go_simps split: if_splits)

interpretation admin_scope: store_read GetTokenAdminScope
    "\<lambda>st tid. when_token st tid (scope_admin_rows st tid)"
  by unfold_locales (auto simp: GetTokenAdminScope_def when_token_def go_simps)

interpretation mcp_scope_names: store_read GetTokenMCPScope
    "\<lambda>st tid. when_token st tid
       (if MCPPrivilegeIDWildcard \<in> set (scope_mcp_rows st tid) then [mcpScopeWildcard]
        else sort (scope_mcp_names st tid))"
  by unfold_locales
     (auto simp: GetTokenMCPScope_def when_token_def scope_mcp_names_def go_simps split: if_splits)

interpretation has_mcp_scope: store_read HasTokenMCPScope
    "\<lambda>st tid. when_token st tid (scope_mcp_rows st tid \<noteq> [])"
  by unfold_locales (auto simp: HasTokenMCPScope_def when_token_def go_simps)

text \<open>
  \<open>TokenScope.InScope\<close> on the scope as loaded answers as \<open>IsConnectionInTokenScope\<close> does on
  the rows.
\<close>

lemma conn_scope_level_None:
  "conn_scope_level st tid c = None \<longleftrightarrow> (\<forall>sc \<in> set (scope_conn_rows st tid). sc_connection_id sc \<noteq> c)"
  by (auto simp: conn_scope_level_def go_simps)

lemma scoped_connection_eta [simp]:
  "\<lparr>sc_connection_id = sc_connection_id z, sc_access_level = sc_access_level z\<rparr> = z"
  by (cases z) simp

lemma conn_scope_level_SomeD:
  "conn_scope_level st tid c = Some l \<Longrightarrow>
     \<lparr>sc_connection_id = c, sc_access_level = l\<rparr> \<in> set (scope_conn_rows st tid)"
  by (auto simp: conn_scope_level_def dest!: first_row_SomeD)

lemma InScope_rows:
  "ts_connections ts = scope_conn_rows st tid \<Longrightarrow> InScope ts c \<longleftrightarrow> fst (conn_scope_answer st tid c)"
  using conn_scope_level_None[of st tid c] conn_scope_level_None[of st tid ConnectionIDAll]
  by (auto simp: InScope_def conn_scope_answer_def split: option.splits)

lemma set_scope_conn_rows:
  "sc \<in> set (scope_conn_rows st tid) \<longleftrightarrow>
     (tid, sc_connection_id sc, sc_access_level sc) \<in> set (token_connection_scope st)"
proof -
  have "sc = \<lparr>sc_connection_id = c, sc_access_level = l\<rparr> \<longleftrightarrow>
      sc_connection_id sc = c \<and> sc_access_level sc = l" for c l
    by (cases sc) auto
  then show ?thesis by (force simp: scope_conn_rows_def)
qed

lemma scope_level_valid:
  "store_wf st \<Longrightarrow> conn_scope_level st tid c = Some l \<Longrightarrow> valid_level l"
  by (fastforce simp: store_wf_def set_scope_conn_rows dest: conn_scope_level_SomeD)

lemma conn_scope_answer_valid:
  "store_wf st \<Longrightarrow> conn_scope_answer st tid c = (True, l) \<Longrightarrow> l = AccessLevelNone \<or> valid_level l"
  by (auto simp: conn_scope_answer_def split: if_splits option.splits dest: scope_level_valid)

section \<open>What the writes store\<close>

lemma validateEntries_ok:
  "validateEntries cs seen = Inr seen' \<longleftrightarrow>
     (\<forall>c \<in> set cs. valid_level (sc_access_level c) \<and> sc_connection_id c \<ge> 0) \<and>
     distinct (map sc_connection_id cs) \<and> sc_connection_id ` set cs \<inter> seen = {} \<and>
     seen' = seen \<union> sc_connection_id ` set cs"
  by (induction cs arbitrary: seen) (auto simp: valid_level_def)

text \<open>
  A connection scope is accepted exactly when its levels are valid, its connections are
  distinct and not negative, and the all-connections entry stands alone.
\<close>

lemma ValidateScopedConnections_ok:
  "ValidateScopedConnections cs = Inr () \<longleftrightarrow>
     (\<forall>c \<in> set cs. valid_level (sc_access_level c) \<and> sc_connection_id c \<ge> 0) \<and>
     distinct (map sc_connection_id cs) \<and>
     (ConnectionIDAll \<in> sc_connection_id ` set cs \<longrightarrow> length cs = 1)"
  by (cases cs) (auto simp: ValidateScopedConnections_def go_simps validateEntries_ok simp del: validateEntries.simps)

lemma scope_conn_rows_update [simp]:
  "scope_conn_rows (st\<lparr>token_connection_scope := rows\<rparr>) tid =
     map (\<lambda>(t, c, l). \<lparr>sc_connection_id = c, sc_access_level = l\<rparr>) (filter (\<lambda>(t, c, l). t = tid) rows)"
  by (simp add: scope_conn_rows_def)

lemma healthy_update [simp]:
  "healthy (st\<lparr>token_connection_scope := a\<rparr>) \<longleftrightarrow> healthy st"
  "healthy (st\<lparr>token_mcp_scope := b\<rparr>) \<longleftrightarrow> healthy st"
  "healthy (st\<lparr>token_admin_scope := d\<rparr>) \<longleftrightarrow> healthy st"
  by (simp_all add: healthy_def)

lemma insertConnScope_ok:
  assumes "insertConnScope tid conn st = Inr st'"
  shows "scope_conn_rows st' tid = scope_conn_rows st tid @ [conn]"
    and "t \<noteq> tid \<Longrightarrow> scope_conn_rows st' t = scope_conn_rows st t"
    and "store_wf st \<Longrightarrow> store_wf st'"
    and "tokens st' = tokens st" and "db_fails st' = db_fails st"
proof -
  have new: "st' = st\<lparr>token_connection_scope :=
        token_connection_scope st @ [(tid, sc_connection_id conn, sc_access_level conn)]\<rparr>"
    and l: "valid_level (sc_access_level conn)"
    and fresh: "\<forall>sc \<in> set (scope_conn_rows st tid). sc_connection_id sc \<noteq> sc_connection_id conn"
    using assms by (auto simp: insertConnScope_def split: if_splits)
  show "scope_conn_rows st' tid = scope_conn_rows st tid @ [conn]"
    and "t \<noteq> tid \<Longrightarrow> scope_conn_rows st' t = scope_conn_rows st t"
    and "tokens st' = tokens st" and "db_fails st' = db_fails st"
    by (simp_all add: new scope_conn_rows_def)
  have "(tid, sc_connection_id conn, x) \<notin> set (token_connection_scope st)" for x
    using fresh set_scope_conn_rows[of "\<lparr>sc_connection_id = sc_connection_id conn, sc_access_level = x\<rparr>" st tid]
    by auto
  then show "store_wf st \<Longrightarrow> store_wf st'"
    using l by (auto simp: new store_wf_def)
qed

lemma insertConnScope_succeeds:
  assumes "healthy st" "token_exists st tid" "valid_level (sc_access_level conn)"
    and "\<forall>sc \<in> set (scope_conn_rows st tid). sc_connection_id sc \<noteq> sc_connection_id conn"
  shows "\<exists>st'. insertConnScope tid conn st = Inr st'"
  using assms by (auto simp: insertConnScope_def healthy_def token_exists_def)

lemma insertConns_ok:
  assumes "healthy st" "token_exists st tid" "store_wf st"
    and "\<forall>c \<in> set cs. valid_level (sc_access_level c)"
    and "distinct (map sc_connection_id (scope_conn_rows st tid @ cs))"
  shows "\<exists>st'. fold_res (insertConnScope tid) cs st = Inr st' \<and>
    scope_conn_rows st' tid = scope_conn_rows st tid @ cs \<and>
    (\<forall>t. t \<noteq> tid \<longrightarrow> scope_conn_rows st' t = scope_conn_rows st t) \<and> store_wf st' \<and> healthy st'"
  using assms
proof (induction cs arbitrary: st)
  case (Cons c cs)
  have "\<forall>sc \<in> set (scope_conn_rows st tid). sc_connection_id sc \<noteq> sc_connection_id c"
    using Cons.prems(5) by (auto simp: image_iff eq_commute)
  then obtain st1 where st1: "insertConnScope tid c st = Inr st1"
    using insertConnScope_succeeds[of st tid c] Cons.prems by auto
  note new = insertConnScope_ok[OF st1]
  have "healthy st1" "token_exists st1 tid" using Cons.prems new by (simp_all add: healthy_def token_exists_def)
  then show ?case using Cons.IH[of st1] Cons.prems new st1 by auto
qed simp

lemma distinct_filter_map: "distinct (map f xs) \<Longrightarrow> distinct (map f (filter P xs))"
  by (induction xs) auto

text \<open>
  Writing a valid connection scope replaces the token's entries by exactly the ones given,
  touches no other token's, and keeps the tables well formed.
\<close>

lemma writeTokenConnectionScopeTx_ok:
  assumes "healthy st" "store_wf st" "token_exists st tid" "ValidateScopedConnections cs = Inr ()"
  shows "\<exists>st' b a. writeTokenConnectionScopeTx st tid cs = Inr (st', b, a) \<and>
    scope_conn_rows st' tid = cs \<and> b = sort_key sc_connection_id (scope_conn_rows st tid) \<and>
    (\<forall>t. t \<noteq> tid \<longrightarrow> scope_conn_rows st' t = scope_conn_rows st t) \<and> store_wf st' \<and> healthy st'"
proof -
  let ?st = "st\<lparr>token_connection_scope := filter (\<lambda>(t, c, l). t \<noteq> tid) (token_connection_scope st)\<rparr>"
  have clear: "scope_conn_rows ?st tid = []"
    "\<And>t. t \<noteq> tid \<Longrightarrow> scope_conn_rows ?st t = scope_conn_rows st t"
    by (auto simp: scope_conn_rows_def filter_empty_conv intro!: arg_cong2[where f = map] filter_cong)
  have "store_wf ?st" using assms(2) by (auto simp: store_wf_def distinct_filter_map)
  moreover have "token_exists ?st tid" "healthy ?st" using assms by (simp_all add: token_exists_def)
  ultimately obtain st' where "fold_res (insertConnScope tid) cs ?st = Inr st'"
    "scope_conn_rows st' tid = cs" "\<forall>t. t \<noteq> tid \<longrightarrow> scope_conn_rows st' t = scope_conn_rows st t"
    "store_wf st'" "healthy st'"
    using insertConns_ok[of ?st tid cs] assms(4) clear
    by (auto simp: ValidateScopedConnections_ok)
  then show ?thesis using assms(1) by (auto simp: writeTokenConnectionScopeTx_def tokenConnectionScopeTx_def)
qed

lemma insertMCPRow_ok:
  assumes "insertMCPRow tid name pid st = Inr st'"
  shows "scope_mcp_rows st' tid = scope_mcp_rows st tid @ [pid]"
    and "t \<noteq> tid \<Longrightarrow> scope_mcp_rows st' t = scope_mcp_rows st t"
    and "mcp_privilege_identifiers st' = mcp_privilege_identifiers st"
  using assms by (auto simp: insertMCPRow_def scope_mcp_rows_def split: if_splits)

lemma insertMCPRows_ok:
  assumes "fold_res (insertMCPRow tid name) ids st = Inr st'"
  shows "scope_mcp_rows st' tid = scope_mcp_rows st tid @ ids"
    and "t \<noteq> tid \<Longrightarrow> scope_mcp_rows st' t = scope_mcp_rows st t"
    and "mcp_privilege_identifiers st' = mcp_privilege_identifiers st"
  using assms
  by (induction ids arbitrary: st) (auto simp: go_simps insertMCPRow_ok)

text \<open>The identifiers of the names before the first wildcard are all registered and stored.\<close>

abbreviation named_part :: "mcp_name list \<Rightarrow> mcp_name list" where
  "named_part names \<equiv> takeWhile (\<lambda>n. n \<noteq> mcpScopeWildcard) names"

lemma insertMCPNames_ok:
  "insertMCPNames tid names st = Inr st' \<Longrightarrow>
     set (scope_mcp_rows st' tid) = set (scope_mcp_rows st tid) \<union>
       (if mcpScopeWildcard \<in> set names then {MCPPrivilegeIDWildcard} else {}) \<union>
       (\<Union>n \<in> set (named_part names). set (ids_of_name st n)) \<and>
     (\<forall>n \<in> set (named_part names). ids_of_name st n \<noteq> []) \<and>
     (\<forall>t. t \<noteq> tid \<longrightarrow> scope_mcp_rows st' t = scope_mcp_rows st t) \<and>
     mcp_privilege_identifiers st' = mcp_privilege_identifiers st"
proof (induction names arbitrary: st)
  case (Cons name names)
  show ?case
  proof (cases "name = mcpScopeWildcard")
    case True
    with Cons.prems show ?thesis by (auto simp: insertMCPRow_ok)
  next
    case False
    with Cons.prems obtain st1 where
      st1: "fold_res (insertMCPRow tid name) (ids_of_name st name) st = Inr st1"
      and rest: "insertMCPNames tid names st1 = Inr st'" and ids: "ids_of_name st name \<noteq> []"
      by (auto simp: go_simps split: if_splits)
    have "ids_of_name st1 = ids_of_name st"
      by (simp add: ids_of_name_def insertMCPRows_ok[OF st1] fun_eq_iff)
    with Cons.IH[OF rest] ids False insertMCPRows_ok[OF st1] show ?thesis by auto
  qed
qed simp

lemma set_ids_of_name:
  "set (ids_of_name st n) = {mpi_id m | m. m \<in> set (mcp_privilege_identifiers st) \<and> mpi_identifier m = n}"
  by (auto simp: ids_of_name_def)

text \<open>
  A successful write of a non-empty list of names stores a scope that admits exactly those
  names, or everything when the wildcard is among them; in particular it never stores the
  empty scope, which would admit everything.
\<close>

lemma writeTokenMCPScopeByNamesTx_ok:
  assumes written: "writeTokenMCPScopeByNamesTx st tid names = Inr (st', b, a)"
    and wf: "store_wf st" and "names \<noteq> []"
  shows "mcp_in_scope st' tid n \<longleftrightarrow> mcpScopeWildcard \<in> set names \<or> n \<in> set names"
    and "t \<noteq> tid \<Longrightarrow> scope_mcp_rows st' t = scope_mcp_rows st t"
proof -
  let ?st = "st\<lparr>token_mcp_scope := filter (\<lambda>(t, p). t \<noteq> tid) (token_mcp_scope st)\<rparr>"
  have ins: "insertMCPNames tid names ?st = Inr st'"
    using written by (auto simp: writeTokenMCPScopeByNamesTx_def go_simps)
  have same: "scope_mcp_rows ?st t = scope_mcp_rows st t" if "t \<noteq> tid" for t
    using that by (auto simp: scope_mcp_rows_def filter_empty_conv intro!: arg_cong2[where f = map] filter_cong)
  have empty: "scope_mcp_rows ?st tid = []"
    by (auto simp: scope_mcp_rows_def filter_empty_conv)
  note ok = insertMCPNames_ok[OF ins]
  from ok same show "t \<noteq> tid \<Longrightarrow> scope_mcp_rows st' t = scope_mcp_rows st t" by simp
  have mpis: "mcp_privilege_identifiers st' = mcp_privilege_identifiers st" using ok by simp
  have ids: "ids_of_name ?st = ids_of_name st" by (simp add: ids_of_name_def fun_eq_iff)
  show "mcp_in_scope st' tid n \<longleftrightarrow> mcpScopeWildcard \<in> set names \<or> n \<in> set names"
  proof (cases "mcpScopeWildcard \<in> set names")
    case True
    with ok show ?thesis by (simp add: mcp_in_scope_def)
  next
    case False
    then have named: "named_part names = names" by (auto simp: takeWhile_eq_all_conv)
    from ok empty False ids named have rows: "set (scope_mcp_rows st' tid) = (\<Union>n \<in> set names. set (ids_of_name st n))"
      and reg: "\<forall>n \<in> set names. ids_of_name st n \<noteq> []" by auto
    have "scope_mcp_rows st' tid \<noteq> []"
      using rows reg \<open>names \<noteq> []\<close> by (cases names) (auto simp flip: set_empty)
    moreover have "MCPPrivilegeIDWildcard \<notin> set (scope_mcp_rows st' tid)"
      using rows wf by (auto simp: set_ids_of_name store_wf_def const_defs)
    moreover have "(\<exists>m \<in> set (mcp_privilege_identifiers st). mpi_id m \<in> set (scope_mcp_rows st' tid) \<and>
        mpi_identifier m = n) \<longleftrightarrow> n \<in> set names"
    proof
      assume "\<exists>m \<in> set (mcp_privilege_identifiers st). mpi_id m \<in> set (scope_mcp_rows st' tid) \<and> mpi_identifier m = n"
      then obtain m m' n' where "m \<in> set (mcp_privilege_identifiers st)" "mpi_identifier m = n"
        "n' \<in> set names" "m' \<in> set (mcp_privilege_identifiers st)" "mpi_identifier m' = n'" "mpi_id m = mpi_id m'"
        by (auto simp: rows set_ids_of_name)
      moreover from this wf have "m = m'"
        by (auto simp: store_wf_def distinct_map inj_on_def)
      ultimately show "n \<in> set names" by simp
    next
      assume "n \<in> set names"
      moreover from this reg obtain m where "m \<in> set (mcp_privilege_identifiers st)" "mpi_identifier m = n"
        by (auto simp: ids_of_name_def filter_empty_conv)
      ultimately show "\<exists>m \<in> set (mcp_privilege_identifiers st). mpi_id m \<in> set (scope_mcp_rows st' tid) \<and>
          mpi_identifier m = n"
        by (auto simp: rows set_ids_of_name)
    qed
    ultimately show ?thesis using False by (simp add: mcp_in_scope_def mpis)
  qed
qed

lemma insertAdminPerms_ok:
  "insertAdminPerms tid perms st = Inr st' \<Longrightarrow>
     scope_admin_rows st' tid = scope_admin_rows st tid @
       takeWhile (\<lambda>p. p \<noteq> AdminPermissionWildcard) perms @
       (if AdminPermissionWildcard \<in> set perms then [AdminPermissionWildcard] else []) \<and>
     (\<forall>t. t \<noteq> tid \<longrightarrow> scope_admin_rows st' t = scope_admin_rows st t)"
proof (induction perms arbitrary: st)
  case (Cons p perms)
  have row: "insertAdminRow tid q st = Inr s \<Longrightarrow>
      scope_admin_rows s tid = scope_admin_rows st tid @ [q] \<and>
      (\<forall>t. t \<noteq> tid \<longrightarrow> scope_admin_rows s t = scope_admin_rows st t)" for q s
    by (auto simp: insertAdminRow_def scope_admin_rows_def split: if_splits)
  from Cons show ?case by (auto simp: go_simps row split: if_splits)
qed simp

lemma writeTokenAdminScopeTx_ok:
  assumes "writeTokenAdminScopeTx st tid perms = Inr (st', b, a)" and "perms \<noteq> []"
  shows "admin_in_scope st' tid p \<longleftrightarrow> AdminPermissionWildcard \<in> set perms \<or> p \<in> set perms"
proof -
  let ?st = "st\<lparr>token_admin_scope := filter (\<lambda>(t, p). t \<noteq> tid) (token_admin_scope st)\<rparr>"
  have "insertAdminPerms tid perms ?st = Inr st'"
    using assms by (auto simp: writeTokenAdminScopeTx_def go_simps)
  moreover have "scope_admin_rows ?st tid = []"
    by (auto simp: scope_admin_rows_def filter_empty_conv)
  ultimately have rows: "scope_admin_rows st' tid = takeWhile (\<lambda>p. p \<noteq> AdminPermissionWildcard) perms @
      (if AdminPermissionWildcard \<in> set perms then [AdminPermissionWildcard] else [])"
    using insertAdminPerms_ok by fastforce
  show ?thesis
  proof (cases "AdminPermissionWildcard \<in> set perms")
    case False
    then have "takeWhile (\<lambda>p. p \<noteq> AdminPermissionWildcard) perms = perms"
      by (metis (full_types) takeWhile_eq_all_conv)
    with rows False assms(2) show ?thesis by (simp add: admin_in_scope_def del: takeWhile_eq_all_conv)
  qed (simp add: admin_in_scope_def rows)
qed

end
