(* ===== verification/Rbac_Checker.thy ===== *)
theory Rbac_Checker
  imports Token_Scope
begin

text \<open>
  The access checks of \<^verbatim>\<open>access.go\<close>: what a request, made by a session or with an API
  token, may reach. A request's identity is the set of values the authentication
  middleware put into the Go context (\<^verbatim>\<open>middleware.go\<close>); a checker holds the store and the
  lookup of a connection's sharing, both of which may be missing. The datastore behind the
  lookup and behind the connection lister is not modelled: both are parameters.
\<close>

section \<open>The request and the checker\<close>

record request_ctx =
  ctx_username :: "string option"
  ctx_is_api_token :: "bool option"
  ctx_user_id :: "int option"
  ctx_token_id :: "int option"
  ctx_is_superuser :: "bool option"

definition GetUsernameFromContext :: "request_ctx \<Rightarrow> string" where
  "GetUsernameFromContext ctx = (case ctx_username ctx of Some u \<Rightarrow> u | None \<Rightarrow> '''')"

definition IsAPITokenFromContext :: "request_ctx \<Rightarrow> bool" where
  "IsAPITokenFromContext ctx = (case ctx_is_api_token ctx of Some b \<Rightarrow> b | None \<Rightarrow> False)"

definition GetUserIDFromContext :: "request_ctx \<Rightarrow> int" where
  "GetUserIDFromContext ctx = (case ctx_user_id ctx of Some i \<Rightarrow> i | None \<Rightarrow> 0)"

definition GetTokenIDFromContext :: "request_ctx \<Rightarrow> int" where
  "GetTokenIDFromContext ctx = (case ctx_token_id ctx of Some i \<Rightarrow> i | None \<Rightarrow> 0)"

definition IsSuperuserFromContext :: "request_ctx \<Rightarrow> bool" where
  "IsSuperuserFromContext ctx = (case ctx_is_superuser ctx of Some b \<Rightarrow> b | None \<Rightarrow> False)"

type_synonym sharing_lookup = "conn_id \<Rightarrow> (bool \<times> string) res"

record rbac_checker =
  authStore :: "auth_store option"
  connSharingLookupFn :: "sharing_lookup option"

definition NewRBACChecker :: "auth_store option \<Rightarrow> rbac_checker" where
  "NewRBACChecker st = \<lparr>authStore = st, connSharingLookupFn = None\<rparr>"

definition SetConnectionSharingLookup ::
  "rbac_checker option \<Rightarrow> sharing_lookup \<Rightarrow> rbac_checker option" where
  "SetConnectionSharingLookup rc fn = map_option (\<lambda>c. c\<lparr>connSharingLookupFn := Some fn\<rparr>) rc"

definition NewRBACCheckerWithSharing ::
  "auth_store option \<Rightarrow> sharing_lookup option \<Rightarrow> rbac_checker option" where
  "NewRBACCheckerWithSharing st lookup =
     (let checker = Some (NewRBACChecker st) in
      case lookup of None \<Rightarrow> checker | Some fn \<Rightarrow> SetConnectionSharingLookup checker fn)"

text \<open>The store of a checker, absent for a nil checker and for one without a store.\<close>

definition checker_store :: "rbac_checker option \<Rightarrow> auth_store option" where
  "checker_store rc = Option.bind rc authStore"

definition checker_lookup :: "rbac_checker option \<Rightarrow> sharing_lookup option" where
  "checker_lookup rc = Option.bind rc connSharingLookupFn"

definition tokenContextIncomplete :: "request_ctx \<Rightarrow> bool" where
  "tokenContextIncomplete ctx \<longleftrightarrow> IsAPITokenFromContext ctx \<and> GetTokenIDFromContext ctx \<le> 0"

section \<open>Superuser status\<close>

definition tokenCarriesSuperuser :: "auth_store \<Rightarrow> request_ctx \<Rightarrow> bool" where
  "tokenCarriesSuperuser st ctx =
     (if tokenContextIncomplete ctx then False
      else let tokenID = GetTokenIDFromContext ctx in
        if tokenID \<le> 0 then True
        else case GetTokenAdminScope st tokenID of
          Inl _ \<Rightarrow> False
        | Inr scope \<Rightarrow> scope = [] \<or> AdminPermissionWildcard \<in> set scope)"

definition IsSuperuser :: "rbac_checker option \<Rightarrow> request_ctx \<Rightarrow> bool" where
  "IsSuperuser rc ctx =
     (if \<not> IsSuperuserFromContext ctx then False
      else case checker_store rc of
        None \<Rightarrow> False
      | Some st \<Rightarrow> tokenCarriesSuperuser st ctx)"

section \<open>Access levels\<close>

definition knownAccessLevel :: "access_level \<Rightarrow> bool" where
  "knownAccessLevel level \<longleftrightarrow>
     level = AccessLevelNone \<or> level = AccessLevelRead \<or> level = AccessLevelReadWrite"

definition applyTokenCeiling :: "access_level \<Rightarrow> access_level \<Rightarrow> access_level" where
  "applyTokenCeiling tokenLevel userLevel =
     (if tokenLevel = AccessLevelRead \<or> userLevel = AccessLevelRead then AccessLevelRead
      else if \<not> knownAccessLevel tokenLevel \<or> \<not> knownAccessLevel userLevel then AccessLevelRead
      else userLevel)"

definition resolveConnectionAccess ::
  "(conn_id, access_level) gomap \<Rightarrow> conn_id \<Rightarrow> access_level \<times> bool" where
  "resolveConnectionAccess privs connID =
     (case (map_of privs connID, map_of privs ConnectionIDAll) of
        (None, None) \<Rightarrow> (AccessLevelNone, False)
      | (None, Some wildcardLevel) \<Rightarrow> (wildcardLevel, True)
      | (Some specificLevel, None) \<Rightarrow> (specificLevel, True)
      | (Some specificLevel, Some wildcardLevel) \<Rightarrow>
          if wildcardLevel = AccessLevelReadWrite then (AccessLevelReadWrite, True)
          else (specificLevel, True))"

record access_facts =
  af_owned :: bool
  af_shared :: bool
  af_restricted :: bool

definition connectionAccessRule ::
  "access_facts \<Rightarrow> (conn_id, access_level) gomap \<Rightarrow> conn_id \<Rightarrow> access_level \<times> bool" where
  "connectionAccessRule facts privs connID =
     (if af_owned facts then (AccessLevelReadWrite, True)
      else if af_shared facts \<and> \<not> af_restricted facts then (AccessLevelReadWrite, True)
      else resolveConnectionAccess privs connID)"

definition applyConnectionTokenScope ::
  "auth_store \<Rightarrow> request_ctx \<Rightarrow> conn_id \<Rightarrow> access_level \<Rightarrow> bool \<times> access_level" where
  "applyConnectionTokenScope st ctx connID level =
     (let tokenID = GetTokenIDFromContext ctx in
      if tokenID \<le> 0 then (True, level)
      else case IsConnectionInTokenScope st tokenID connID of
        Inl _ \<Rightarrow> (False, AccessLevelNone)
      | Inr (inScope, scopeLevel) \<Rightarrow>
          if \<not> inScope then (False, AccessLevelNone)
          else (True, applyTokenCeiling scopeLevel level))"

section \<open>The checks\<close>

definition mcp_scope_check :: "auth_store \<Rightarrow> request_ctx \<Rightarrow> mcp_name \<Rightarrow> bool" where
  "mcp_scope_check st ctx name =
     (if GetTokenIDFromContext ctx > 0
      then (case IsMCPItemInTokenScope st (GetTokenIDFromContext ctx) name of
              Inl _ \<Rightarrow> False | Inr inScope \<Rightarrow> inScope)
      else True)"

definition CanAccessMCPItem :: "rbac_checker option \<Rightarrow> request_ctx \<Rightarrow> mcp_name \<Rightarrow> bool" where
  "CanAccessMCPItem rc ctx name =
     (case checker_store rc of
        None \<Rightarrow> False
      | Some st \<Rightarrow>
          if tokenContextIncomplete ctx then False
          else if IsSuperuserFromContext ctx then mcp_scope_check st ctx name
          else case IsPrivilegePublic st name of
            Inl _ \<Rightarrow> False
          | Inr (isPublic, isRegistered) \<Rightarrow>
              if \<not> isRegistered then False
              else if isPublic then mcp_scope_check st ctx name
              else let userID = GetUserIDFromContext ctx in
                if userID = 0 then False
                else case GetUserMCPPrivileges st userID of
                  Inl _ \<Rightarrow> False
                | Inr privileges \<Rightarrow>
                    if name \<notin> privileges \<and> mcpScopeWildcard \<notin> privileges then False
                    else mcp_scope_check st ctx name)"

definition CanAccessConnection ::
  "rbac_checker option \<Rightarrow> request_ctx \<Rightarrow> conn_id \<Rightarrow> bool \<times> access_level" where
  "CanAccessConnection rc ctx connID =
     (case checker_store rc of
        None \<Rightarrow> (False, AccessLevelNone)
      | Some st \<Rightarrow>
          if tokenContextIncomplete ctx then (False, AccessLevelNone)
          else if IsSuperuserFromContext ctx then
            (case checker_lookup rc of
               None \<Rightarrow> applyConnectionTokenScope st ctx connID AccessLevelReadWrite
             | Some lookup \<Rightarrow>
                 (case lookup connID of
                    Inl _ \<Rightarrow> (False, AccessLevelNone)
                  | Inr _ \<Rightarrow> applyConnectionTokenScope st ctx connID AccessLevelReadWrite))
          else
            (case IsConnectionAssignedToAnyGroup st connID of
               Inl _ \<Rightarrow> (False, AccessLevelNone)
             | Inr isRestricted \<Rightarrow>
                 (case (if GetUserIDFromContext ctx \<noteq> 0
                        then GetUserConnectionPrivileges st (GetUserIDFromContext ctx) else Inr []) of
                    Inl _ \<Rightarrow> (False, AccessLevelNone)
                  | Inr privileges \<Rightarrow>
                      (case (case checker_lookup rc of
                               None \<Rightarrow> Inr \<lparr>af_owned = False, af_shared = True, af_restricted = isRestricted\<rparr>
                             | Some lookup \<Rightarrow>
                                 res_bind (lookup connID) (\<lambda>(isShared, ownerUsername).
                                   Inr \<lparr>af_owned = GetUsernameFromContext ctx \<noteq> '''' \<and>
                                                    ownerUsername = GetUsernameFromContext ctx,
                                        af_shared = isShared, af_restricted = isRestricted\<rparr>)) of
                         Inl _ \<Rightarrow> (False, AccessLevelNone)
                       | Inr facts \<Rightarrow>
                           (case connectionAccessRule facts privileges connID of
                              (accessLevel, hasAccess) \<Rightarrow>
                                if \<not> hasAccess then (False, AccessLevelNone)
                                else applyConnectionTokenScope st ctx connID accessLevel)))))"

definition HasAdminPermission :: "rbac_checker option \<Rightarrow> request_ctx \<Rightarrow> permission \<Rightarrow> bool" where
  "HasAdminPermission rc ctx perm =
     (case checker_store rc of
        None \<Rightarrow> False
      | Some st \<Rightarrow>
          let tokenID = GetTokenIDFromContext ctx;
              scopeCheck = (case IsAdminPermissionInTokenScope st tokenID perm of
                              Inl _ \<Rightarrow> False | Inr inScope \<Rightarrow> inScope) in
          if tokenContextIncomplete ctx then False
          else if IsSuperuserFromContext ctx then (if tokenID \<le> 0 then True else scopeCheck)
          else if GetUserIDFromContext ctx = 0 then False
          else case GetUserAdminPermissions st (GetUserIDFromContext ctx) of
            Inl _ \<Rightarrow> False
          | Inr perms \<Rightarrow>
              if perm \<notin> perms \<and> AdminPermissionWildcard \<notin> perms then False
              else if tokenID > 0 then scopeCheck else True)"

definition HasWriteAccess :: "rbac_checker option \<Rightarrow> request_ctx \<Rightarrow> conn_id \<Rightarrow> bool" where
  "HasWriteAccess rc ctx connID =
     (case CanAccessConnection rc ctx connID of
        (canAccess, accessLevel) \<Rightarrow> canAccess \<and> accessLevel = AccessLevelReadWrite)"

definition ConnectionInTokenScope :: "rbac_checker option \<Rightarrow> request_ctx \<Rightarrow> conn_id \<Rightarrow> bool" where
  "ConnectionInTokenScope rc ctx connID =
     (case checker_store rc of
        None \<Rightarrow> False
      | Some st \<Rightarrow>
          if tokenContextIncomplete ctx then False
          else (case applyConnectionTokenScope st ctx connID AccessLevelReadWrite of
                  (inScope, level) \<Rightarrow> inScope \<and> level = AccessLevelReadWrite))"

definition AllConnectionsInTokenScope :: "rbac_checker option \<Rightarrow> request_ctx \<Rightarrow> bool" where
  "AllConnectionsInTokenScope rc ctx = ConnectionInTokenScope rc ctx ConnectionIDAll"

section \<open>Effective privileges\<close>

record effective_privileges =
  ep_token_scope_error :: "auth_error option"
  ep_is_superuser :: bool
  ep_mcp_privileges :: "mcp_name set"
  ep_connection_privileges :: "(conn_id, access_level) gomap"
  ep_admin_permissions :: "permission set"
  ep_token_scope :: "token_scope option"

definition empty_privileges :: effective_privileges where
  "empty_privileges = \<lparr>ep_token_scope_error = None, ep_is_superuser = False, ep_mcp_privileges = {},
     ep_connection_privileges = [], ep_admin_permissions = {}, ep_token_scope = None\<rparr>"

definition scopeHasConnectionWildcard :: "token_scope \<Rightarrow> bool" where
  "scopeHasConnectionWildcard scope \<longleftrightarrow>
     (\<exists>sc \<in> set (ts_connections scope). sc_connection_id sc = ConnectionIDAll)"

definition scopeHasMCPWildcard :: "token_scope \<Rightarrow> bool" where
  "scopeHasMCPWildcard scope \<longleftrightarrow> MCPPrivilegeIDWildcard \<in> set (ts_mcp_privileges scope)"

definition scopeHasAdminWildcard :: "token_scope \<Rightarrow> bool" where
  "scopeHasAdminWildcard scope \<longleftrightarrow> AdminPermissionWildcard \<in> set (ts_admin_permissions scope)"

definition applyScopedConnections :: "token_scope \<Rightarrow> effective_privileges \<Rightarrow> effective_privileges" where
  "applyScopedConnections scope result =
     (if ts_connections scope = [] \<or>
         (scopeHasConnectionWildcard scope \<and> length (ts_connections scope) = 1) then result
      else result\<lparr>ep_connection_privileges :=
             fold (\<lambda>sc. AList.update (sc_connection_id sc) (sc_access_level sc))
               (ts_connections scope) (ep_connection_privileges result)\<rparr>)"

definition applyScopedMCPPrivileges ::
  "auth_store \<Rightarrow> token_scope \<Rightarrow> effective_privileges \<Rightarrow> effective_privileges" where
  "applyScopedMCPPrivileges st scope result =
     (if ts_mcp_privileges scope = [] \<or> scopeHasMCPWildcard scope then result
      else fold (\<lambda>privID r. case GetMCPPrivilegeByID st privID of
                  Inr (Some priv) \<Rightarrow> r\<lparr>ep_mcp_privileges := insert (mpi_identifier priv) (ep_mcp_privileges r)\<rparr>
                | _ \<Rightarrow> r) (ts_mcp_privileges scope) result)"

definition applyScopedAdminPermissions :: "token_scope \<Rightarrow> effective_privileges \<Rightarrow> effective_privileges" where
  "applyScopedAdminPermissions scope result =
     (if ts_admin_permissions scope = [] \<or> scopeHasAdminWildcard scope then result
      else result\<lparr>ep_admin_permissions := ep_admin_permissions result \<union> set (ts_admin_permissions scope)\<rparr>)"

definition applySuperuserTokenScope ::
  "auth_store \<Rightarrow> request_ctx \<Rightarrow> effective_privileges \<Rightarrow> effective_privileges" where
  "applySuperuserTokenScope st ctx result =
     (let tokenID = GetTokenIDFromContext ctx in
      if tokenID \<le> 0 then result
      else case GetTokenScope st tokenID of
        Inl err \<Rightarrow> result\<lparr>ep_token_scope_error := Some err, ep_is_superuser := False\<rparr>
      | Inr None \<Rightarrow> result
      | Inr (Some scope) \<Rightarrow>
          applyScopedAdminPermissions scope
            (applyScopedMCPPrivileges st scope
              (applyScopedConnections scope (result\<lparr>ep_token_scope := Some scope\<rparr>))))"

definition applyWildcardConnectionScope ::
  "token_scope \<Rightarrow> access_level \<Rightarrow> (conn_id, access_level) gomap \<Rightarrow> (conn_id, access_level) gomap" where
  "applyWildcardConnectionScope scope wildcardLevel owned =
     fold (\<lambda>sc privs.
         if sc_connection_id sc = ConnectionIDAll then privs
         else case resolveConnectionAccess owned (sc_connection_id sc) of
           (userLevel, ok) \<Rightarrow>
             if \<not> ok then privs
             else AList.update (sc_connection_id sc)
                    (applyTokenCeiling (sc_access_level sc) userLevel) privs)
       (ts_connections scope)
       (map (\<lambda>(c, level). (c, applyTokenCeiling wildcardLevel level)) owned)"

definition narrowConnections ::
  "token_scope \<Rightarrow> (conn_id, access_level) gomap \<Rightarrow> (conn_id, access_level) gomap" where
  "narrowConnections scope privs =
     fold (\<lambda>sc scoped.
         case resolveConnectionAccess privs (sc_connection_id sc) of
           (userLevel, userHasAccess) \<Rightarrow>
             if \<not> userHasAccess then scoped
             else AList.update (sc_connection_id sc)
                    (applyTokenCeiling (sc_access_level sc) userLevel) scoped)
       (ts_connections scope) []"

definition wildcardScopeLevel :: "token_scope \<Rightarrow> access_level" where
  "wildcardScopeLevel scope =
     (case first_row (filter (\<lambda>sc. sc_connection_id sc = ConnectionIDAll) (ts_connections scope)) of
        None \<Rightarrow> AccessLevelNone | Some sc \<Rightarrow> sc_access_level sc)"

definition narrowMCP :: "auth_store \<Rightarrow> token_scope \<Rightarrow> mcp_name set \<Rightarrow> mcp_name set" where
  "narrowMCP st scope privs =
     fold (\<lambda>privID scoped.
         case GetMCPPrivilegeByID st privID of
           Inr (Some priv) \<Rightarrow>
             if mpi_identifier priv \<in> privs \<or> mcpScopeWildcard \<in> privs
             then insert (mpi_identifier priv) scoped else scoped
         | _ \<Rightarrow> scoped)
       (ts_mcp_privileges scope) {}"

definition narrowAdmin :: "token_scope \<Rightarrow> permission set \<Rightarrow> permission set" where
  "narrowAdmin scope perms =
     set (filter (\<lambda>p. p \<in> perms \<or> AdminPermissionWildcard \<in> perms) (ts_admin_permissions scope))"

definition applyTokenScope ::
  "auth_store \<Rightarrow> token_scope \<Rightarrow> effective_privileges \<Rightarrow> effective_privileges" where
  "applyTokenScope st scope result =
     result\<lparr>
       ep_token_scope := Some scope,
       ep_connection_privileges :=
         (if ts_connections scope = [] then ep_connection_privileges result
          else if scopeHasConnectionWildcard scope
          then applyWildcardConnectionScope scope (wildcardScopeLevel scope) (ep_connection_privileges result)
          else narrowConnections scope (ep_connection_privileges result)),
       ep_mcp_privileges :=
         (if ts_mcp_privileges scope = [] \<or> scopeHasMCPWildcard scope then ep_mcp_privileges result
          else narrowMCP st scope (ep_mcp_privileges result)),
       ep_admin_permissions :=
         (if ts_admin_permissions scope = [] \<or> scopeHasAdminWildcard scope then ep_admin_permissions result
          else narrowAdmin scope (ep_admin_permissions result))\<rparr>"

text \<open>\<open>or_default\<close> is the pattern \<open>if err == nil { result = v }\<close>.\<close>

definition or_default :: "'a \<Rightarrow> 'a res \<Rightarrow> 'a" where
  "or_default d r = (case r of Inl _ \<Rightarrow> d | Inr v \<Rightarrow> v)"

definition GetEffectivePrivileges :: "rbac_checker option \<Rightarrow> request_ctx \<Rightarrow> effective_privileges" where
  "GetEffectivePrivileges rc ctx =
     (case checker_store rc of
        None \<Rightarrow> empty_privileges
      | Some st \<Rightarrow>
          if tokenContextIncomplete ctx then empty_privileges
          else if IsSuperuserFromContext ctx
          then applySuperuserTokenScope st ctx (empty_privileges\<lparr>ep_is_superuser := IsSuperuser rc ctx\<rparr>)
          else let userID = GetUserIDFromContext ctx in
            if userID = 0 then empty_privileges
            else let result = empty_privileges\<lparr>
                   ep_mcp_privileges := or_default {} (GetUserMCPPrivileges st userID),
                   ep_connection_privileges := or_default [] (GetUserConnectionPrivileges st userID),
                   ep_admin_permissions := or_default {} (GetUserAdminPermissions st userID)\<rparr>;
                 tokenID = GetTokenIDFromContext ctx in
              if tokenID > 0
              then (case GetTokenScope st tokenID of
                      Inl err \<Rightarrow> result\<lparr>ep_token_scope_error := Some err\<rparr>
                    | Inr None \<Rightarrow> result
                    | Inr (Some scope) \<Rightarrow> applyTokenScope st scope result)
              else result)"

section \<open>Visible connections\<close>

record visibility_info =
  vi_id :: conn_id
  vi_is_shared :: bool
  vi_owner_username :: string

text \<open>
  The connection lister: its enumeration of the connections, and, for a lister that also
  implements \<^verbatim>\<open>OwnedClusterGroupLister\<close>, the members of the cluster groups a user owns.
\<close>

record connection_lister =
  GetAllConnections :: "(visibility_info list) res"
  GetOwnedClusterGroupConnectionIDs :: "(string \<Rightarrow> (conn_id list) res) option"

definition superuserVisibleConnectionIDs ::
  "auth_store \<Rightarrow> request_ctx \<Rightarrow> (conn_id list \<times> bool) res" where
  "superuserVisibleConnectionIDs st ctx =
     (let tokenID = GetTokenIDFromContext ctx in
      if tokenID \<le> 0 then Inr ([], True)
      else res_bind (GetTokenScope st tokenID) (\<lambda>scope.
        case scope of
          None \<Rightarrow> Inr ([], True)
        | Some s \<Rightarrow>
            if ts_connections s = [] \<or> scopeHasConnectionWildcard s then Inr ([], True)
            else Inr (map sc_connection_id (ts_connections s), False)))"

definition addSeen :: "conn_id \<Rightarrow> conn_id list \<Rightarrow> conn_id list" where
  "addSeen c seen = (if c \<in> set seen then seen else seen @ [c])"

definition ruleAdmits ::
  "request_ctx \<Rightarrow> conn_id set \<Rightarrow> (conn_id, access_level) gomap \<Rightarrow> visibility_info \<Rightarrow> bool" where
  "ruleAdmits ctx restricted privs info =
     snd (connectionAccessRule
       \<lparr>af_owned = GetUsernameFromContext ctx \<noteq> '''' \<and> vi_owner_username info = GetUsernameFromContext ctx,
        af_shared = vi_is_shared info, af_restricted = vi_id info \<in> restricted\<rparr> privs (vi_id info))"

definition VisibleConnectionIDs ::
  "rbac_checker option \<Rightarrow> request_ctx \<Rightarrow> connection_lister option \<Rightarrow> (conn_id list \<times> bool) res" where
  "VisibleConnectionIDs rc ctx lister =
     (case checker_store rc of
        None \<Rightarrow> Inr ([], False)
      | Some st \<Rightarrow>
          if tokenContextIncomplete ctx then Inr ([], False)
          else if IsSuperuserFromContext ctx then superuserVisibleConnectionIDs st ctx
          else let privs = GetEffectivePrivileges rc ctx; tokenID = GetTokenIDFromContext ctx in
            case (if tokenID > 0 then ep_token_scope_error privs else None) of
              Some err \<Rightarrow> Inl err
            | None \<Rightarrow>
                if map_of (ep_connection_privileges privs) ConnectionIDAll \<noteq> None then Inr ([], True)
                else res_bind
                  (case lister of
                     None \<Rightarrow> Inr (map fst (ep_connection_privileges privs))
                   | Some l \<Rightarrow>
                       res_bind (GetAllConnections l) (\<lambda>all.
                       res_bind (RestrictedConnectionIDs st) (\<lambda>restricted.
                         Inr (fold addSeen
                           (map vi_id (filter (ruleAdmits ctx restricted (ep_connection_privileges privs)) all))
                           (map fst (ep_connection_privileges privs))))))
                  (\<lambda>seen. Inr (case (if tokenID > 0 then ep_token_scope privs else None) of
                       None \<Rightarrow> (seen, False)
                     | Some scope \<Rightarrow> (filter (InScope scope) seen, False))))"

end
