(* ===== verification/Rbac_Facts.thy ===== *)
theory Rbac_Facts
  imports Rbac_Checker
begin

text \<open>
  What the access checks guarantee. Each check splits into what the caller's user may
  reach, which does not depend on the token, and the intersection with the token's scope.
  From the split: a token never exceeds its owner, a scoped token is confined to its
  scope, failures of the database only deny, and the reports (effective privileges, visible
  connections) agree with the checks.
\<close>

section \<open>Levels\<close>

definition accessLevelRank :: "access_level \<Rightarrow> nat" where
  "accessLevelRank level =
     (if level = AccessLevelRead then 1 else if level = AccessLevelReadWrite then 2 else 0)"

lemma accessLevelRank_simps [simp]:
  "accessLevelRank AccessLevelNone = 0" "accessLevelRank AccessLevelRead = 1"
  "accessLevelRank AccessLevelReadWrite = 2"
  by (simp_all add: accessLevelRank_def)

lemma valid_level_rank: "valid_level l \<longleftrightarrow> accessLevelRank l > 0"
  by (auto simp: valid_level_def accessLevelRank_def)

lemma applyTokenCeiling_le:
  "valid_level userLevel \<Longrightarrow> accessLevelRank (applyTokenCeiling tokenLevel userLevel) \<le> accessLevelRank userLevel"
  by (auto simp: applyTokenCeiling_def valid_level_def)

lemma applyTokenCeiling_le_token:
  "valid_level tokenLevel \<Longrightarrow> accessLevelRank (applyTokenCeiling tokenLevel userLevel) \<le> accessLevelRank tokenLevel"
  by (auto simp: applyTokenCeiling_def valid_level_def accessLevelRank_def)

lemma applyTokenCeiling_min:
  "valid_level a \<Longrightarrow> valid_level b \<Longrightarrow>
     accessLevelRank (applyTokenCeiling a b) = min (accessLevelRank a) (accessLevelRank b)"
  unfolding valid_level_def by (elim disjE) (simp_all add: applyTokenCeiling_def knownAccessLevel_def)

lemma applyTokenCeiling_simps [simp]:
  "valid_level l \<Longrightarrow> applyTokenCeiling AccessLevelNone l = l"
  "applyTokenCeiling AccessLevelRead l = AccessLevelRead"
  "applyTokenCeiling l AccessLevelRead = AccessLevelRead"
  "applyTokenCeiling AccessLevelReadWrite AccessLevelReadWrite = AccessLevelReadWrite"
  by (auto simp: applyTokenCeiling_def valid_level_def knownAccessLevel_def)

lemma applyTokenCeiling_valid: "valid_level l \<Longrightarrow> valid_level (applyTokenCeiling t l)"
  by (auto simp: applyTokenCeiling_def valid_level_def)

lemma resolve_ok_iff:
  "snd (resolveConnectionAccess privs c) \<longleftrightarrow>
     map_of privs c \<noteq> None \<or> map_of privs ConnectionIDAll \<noteq> None"
  by (auto simp: resolveConnectionAccess_def split: option.splits)

lemma resolve_valid:
  assumes "\<And>c l. map_of privs c = Some l \<Longrightarrow> valid_level l" and "resolveConnectionAccess privs c = (l, True)"
  shows "valid_level l"
  using assms by (auto simp: resolveConnectionAccess_def split: option.splits if_splits)

text \<open>When both a specific and a wildcard grant exist, the higher one counts.\<close>

lemma resolve_rank:
  assumes "\<And>c l. map_of privs c = Some l \<Longrightarrow> valid_level l"
    and "resolveConnectionAccess privs c = (l, True)"
  shows "accessLevelRank l = max
     (case map_of privs c of None \<Rightarrow> 0 | Some s \<Rightarrow> accessLevelRank s)
     (case map_of privs ConnectionIDAll of None \<Rightarrow> 0 | Some w \<Rightarrow> accessLevelRank w)"
  using assms(2) assms(1)[of c] assms(1)[of ConnectionIDAll]
  by (cases "map_of privs c"; cases "map_of privs ConnectionIDAll")
     (auto simp: resolveConnectionAccess_def valid_level_def split: if_splits)

section \<open>The owner's side and the token's side\<close>

text \<open>What the request reaches before its token's scope is applied.\<close>

definition base_conn :: "rbac_checker option \<Rightarrow> auth_store \<Rightarrow> request_ctx \<Rightarrow> conn_id \<Rightarrow> access_level option" where
  "base_conn rc st ctx c =
     (if IsSuperuserFromContext ctx then
        (case checker_lookup rc of
           None \<Rightarrow> Some AccessLevelReadWrite
         | Some lookup \<Rightarrow> if is_ok (lookup c) then Some AccessLevelReadWrite else None)
      else case IsConnectionAssignedToAnyGroup st c of Inl _ \<Rightarrow> None
      | Inr restricted \<Rightarrow>
          (case (if GetUserIDFromContext ctx \<noteq> 0
                 then GetUserConnectionPrivileges st (GetUserIDFromContext ctx) else Inr []) of
             Inl _ \<Rightarrow> None
           | Inr privs \<Rightarrow>
               (case (case checker_lookup rc of None \<Rightarrow> Inr (True, '''') | Some lookup \<Rightarrow> lookup c) of
                  Inl _ \<Rightarrow> None
                | Inr (shared, owner) \<Rightarrow>
                    (case connectionAccessRule
                       \<lparr>af_owned = checker_lookup rc \<noteq> None \<and> GetUsernameFromContext ctx \<noteq> '''' \<and>
                                   owner = GetUsernameFromContext ctx,
                        af_shared = shared, af_restricted = restricted\<rparr> privs c of
                       (l, ok) \<Rightarrow> if ok then Some l else None))))"

lemma CanAccessConnection_split:
  "CanAccessConnection rc ctx c =
     (case checker_store rc of
        None \<Rightarrow> (False, AccessLevelNone)
      | Some st \<Rightarrow>
          if tokenContextIncomplete ctx then (False, AccessLevelNone)
          else case base_conn rc st ctx c of
            None \<Rightarrow> (False, AccessLevelNone)
          | Some l \<Rightarrow> applyConnectionTokenScope st ctx c l)"
  by (auto simp: CanAccessConnection_def base_conn_def
      split: option.splits sum.splits prod.splits if_splits)

definition base_mcp :: "auth_store \<Rightarrow> request_ctx \<Rightarrow> mcp_name \<Rightarrow> bool" where
  "base_mcp st ctx name =
     (IsSuperuserFromContext ctx \<or>
      (case IsPrivilegePublic st name of
         Inl _ \<Rightarrow> False
       | Inr (public, registered) \<Rightarrow>
           registered \<and>
           (public \<or>
            (GetUserIDFromContext ctx \<noteq> 0 \<and>
             (case GetUserMCPPrivileges st (GetUserIDFromContext ctx) of
                Inl _ \<Rightarrow> False
              | Inr privs \<Rightarrow> name \<in> privs \<or> mcpScopeWildcard \<in> privs)))))"

lemma CanAccessMCPItem_split:
  "CanAccessMCPItem rc ctx name \<longleftrightarrow>
     (\<exists>st. checker_store rc = Some st \<and> \<not> tokenContextIncomplete ctx \<and>
           base_mcp st ctx name \<and> mcp_scope_check st ctx name)"
  by (auto simp: CanAccessMCPItem_def base_mcp_def Let_def
      split: option.splits sum.splits prod.splits if_splits)

definition base_admin :: "auth_store \<Rightarrow> request_ctx \<Rightarrow> permission \<Rightarrow> bool" where
  "base_admin st ctx perm =
     (IsSuperuserFromContext ctx \<or>
      (GetUserIDFromContext ctx \<noteq> 0 \<and>
       (case GetUserAdminPermissions st (GetUserIDFromContext ctx) of
          Inl _ \<Rightarrow> False
        | Inr perms \<Rightarrow> perm \<in> perms \<or> AdminPermissionWildcard \<in> perms)))"

definition admin_scope_check :: "auth_store \<Rightarrow> request_ctx \<Rightarrow> permission \<Rightarrow> bool" where
  "admin_scope_check st ctx perm =
     (GetTokenIDFromContext ctx > 0 \<longrightarrow>
        IsAdminPermissionInTokenScope st (GetTokenIDFromContext ctx) perm = Inr True)"

lemma HasAdminPermission_split:
  "HasAdminPermission rc ctx perm \<longleftrightarrow>
     (\<exists>st. checker_store rc = Some st \<and> \<not> tokenContextIncomplete ctx \<and>
           base_admin st ctx perm \<and> admin_scope_check st ctx perm)"
  by (auto simp: HasAdminPermission_def base_admin_def admin_scope_check_def Let_def
      split: option.splits sum.splits if_splits)

text \<open>The same request made in a session, without the token.\<close>

definition as_session :: "request_ctx \<Rightarrow> request_ctx" where
  "as_session ctx = ctx\<lparr>ctx_is_api_token := None, ctx_token_id := None\<rparr>"

lemma as_session_simps [simp]:
  "GetUsernameFromContext (as_session ctx) = GetUsernameFromContext ctx"
  "GetUserIDFromContext (as_session ctx) = GetUserIDFromContext ctx"
  "IsSuperuserFromContext (as_session ctx) = IsSuperuserFromContext ctx"
  "GetTokenIDFromContext (as_session ctx) = 0"
  "\<not> tokenContextIncomplete (as_session ctx)"
  by (simp_all add: as_session_def GetUsernameFromContext_def GetUserIDFromContext_def
      IsSuperuserFromContext_def GetTokenIDFromContext_def tokenContextIncomplete_def IsAPITokenFromContext_def)

lemma base_as_session [simp]:
  "base_conn rc st (as_session ctx) c = base_conn rc st ctx c"
  "base_mcp st (as_session ctx) name = base_mcp st ctx name"
  "base_admin st (as_session ctx) perm = base_admin st ctx perm"
  unfolding base_conn_def base_mcp_def base_admin_def as_session_simps by simp_all

lemma user_conns_valid:
  assumes "store_wf st" "GetUserConnectionPrivileges st uid = Inr privs" "map_of privs c = Some l"
  shows "valid_level l"
  using assms highest_grant_valid
  by (auto dest!: user_conns.truthful simp: map_of_user_conns)

lemma base_conn_cases:
  assumes "base_conn rc st ctx c = Some l"
  shows "l = AccessLevelReadWrite \<or>
    (\<exists>privs. (privs = [] \<or> GetUserConnectionPrivileges st (GetUserIDFromContext ctx) = Inr privs) \<and>
       resolveConnectionAccess privs c = (l, True))"
  using assms
  by (auto simp: base_conn_def connectionAccessRule_def
      split: if_splits option.splits sum.splits prod.splits)

lemma base_conn_valid:
  assumes "store_wf st" and "base_conn rc st ctx c = Some l"
  shows "valid_level l"
  using base_conn_cases[OF assms(2)] resolve_valid user_conns_valid[OF assms(1)]
  by (auto simp: resolveConnectionAccess_def) blast

lemma applyConnectionTokenScope_session [simp]:
  "applyConnectionTokenScope st (as_session ctx) c l = (True, l)"
  by (simp add: applyConnectionTokenScope_def)

lemma applyConnectionTokenScope_le:
  "valid_level l \<Longrightarrow> applyConnectionTokenScope st ctx c l = (True, l') \<Longrightarrow>
     accessLevelRank l' \<le> accessLevelRank l"
  by (auto simp: applyConnectionTokenScope_def Let_def applyTokenCeiling_le
      split: if_splits sum.splits prod.splits)

section \<open>Failures of the database\<close>

definition repair_checker :: "rbac_checker option \<Rightarrow> rbac_checker option" where
  "repair_checker rc = map_option (\<lambda>r. r\<lparr>authStore := map_option repaired (authStore r)\<rparr>) rc"

lemma repair_checker_simps [simp]:
  "checker_store (repair_checker rc) = map_option repaired (checker_store rc)"
  "checker_lookup (repair_checker rc) = checker_lookup rc"
  by (cases rc; simp add: repair_checker_def checker_store_def checker_lookup_def)+

interpretation assigned: store_read IsConnectionAssignedToAnyGroup
    "\<lambda>st c. Inr (\<exists>(g, d, l) \<in> set (connection_privileges st). d = c)"
  by unfold_locales (auto simp: IsConnectionAssignedToAnyGroup_def go_simps)

interpretation public_privilege: store_read IsPrivilegePublic
    "\<lambda>st name. Inr (case first_row (filter (\<lambda>m. mpi_identifier m = name) (mcp_privilege_identifiers st)) of
       None \<Rightarrow> (False, False) | Some m \<Rightarrow> (mpi_is_public m, True))"
  by unfold_locales (auto simp: IsPrivilegePublic_def res_bind_eq_Inr run_read_Inr split: option.splits)

interpretation privilege_by_id: store_read GetMCPPrivilegeByID
    "\<lambda>st pid. Inr (first_row (filter (\<lambda>m. mpi_id m = pid) (mcp_privilege_identifiers st)))"
  by unfold_locales (auto simp: GetMCPPrivilegeByID_def go_simps)

interpretation restricted_ids: store_read "\<lambda>st (u :: unit). RestrictedConnectionIDs st"
    "\<lambda>st u. Inr {c. c \<noteq> ConnectionIDAll \<and> (\<exists>(g, d, l) \<in> set (connection_privileges st). d = c)}"
  by unfold_locales (force simp: RestrictedConnectionIDs_def go_simps)+

lemma base_conn_repaired:
  assumes "base_conn rc st ctx c = Some l"
  shows "base_conn (repair_checker rc) (repaired st) ctx c = Some l"
proof (cases "IsSuperuserFromContext ctx")
  case True
  with assms show ?thesis by (simp add: base_conn_def)
next
  case False
  with assms obtain restricted privs where
    "IsConnectionAssignedToAnyGroup st c = Inr restricted"
    "(if GetUserIDFromContext ctx \<noteq> 0
      then GetUserConnectionPrivileges st (GetUserIDFromContext ctx) else Inr []) = Inr privs"
    by (fastforce simp: base_conn_def split: sum.splits)
  moreover from this have "IsConnectionAssignedToAnyGroup (repaired st) c = Inr restricted"
    "(if GetUserIDFromContext ctx \<noteq> 0
      then GetUserConnectionPrivileges (repaired st) (GetUserIDFromContext ctx) else Inr []) = Inr privs"
    by (auto dest: assigned.read_repaired user_conns.read_repaired split: if_splits)
  ultimately show ?thesis using assms False unfolding base_conn_def repair_checker_simps by simp
qed

lemma applyConnectionTokenScope_repaired:
  assumes "applyConnectionTokenScope st ctx c l = (True, l')"
  shows "applyConnectionTokenScope (repaired st) ctx c l = (True, l')"
  using assms scope_conn.read_repaired[of st "(GetTokenIDFromContext ctx, c)"]
  by (auto simp: applyConnectionTokenScope_def Let_def split: if_splits sum.splits)

lemma base_mcp_repaired: "base_mcp st ctx name \<Longrightarrow> base_mcp (repaired st) ctx name"
  using public_privilege.read_repaired[of st name] user_mcp.read_repaired[of st "GetUserIDFromContext ctx"]
  by (auto simp: base_mcp_def split: sum.splits)

lemma base_admin_repaired: "base_admin st ctx perm \<Longrightarrow> base_admin (repaired st) ctx perm"
  using user_admin.read_repaired[of st "GetUserIDFromContext ctx"]
  by (auto simp: base_admin_def split: sum.splits)

lemma scope_checks_repaired:
  "mcp_scope_check st ctx name \<Longrightarrow> mcp_scope_check (repaired st) ctx name"
  "admin_scope_check st ctx perm \<Longrightarrow> admin_scope_check (repaired st) ctx perm"
  using scope_mcp.read_repaired[of st "(GetTokenIDFromContext ctx, name)"]
    scope_admin.read_repaired[of st "(GetTokenIDFromContext ctx, perm)" True]
  by (auto simp: mcp_scope_check_def admin_scope_check_def split: if_splits sum.splits)

lemma tokenCarriesSuperuser_repaired: "tokenCarriesSuperuser st ctx \<Longrightarrow> tokenCarriesSuperuser (repaired st) ctx"
  using admin_scope.read_repaired[of st "GetTokenIDFromContext ctx"]
  by (auto simp: tokenCarriesSuperuser_def Let_def split: if_splits sum.splits)

section \<open>A worked installation\<close>

text \<open>
  The store the examples are evaluated on: \<open>ann\<close> (user 1) is in group 5, which belongs to
  group 6; \<open>root\<close> (user 2) is a superuser. Token 10 is ann's, scoped to connection 7 at
  read; token 20 is root's, scoped to connection 8 and to one admin permission.
\<close>

definition sample_store :: auth_store where
  "sample_store = \<lparr>
     users = [\<lparr>usr_id = 1, usr_username = ''ann'', usr_is_superuser = False\<rparr>,
              \<lparr>usr_id = 2, usr_username = ''root'', usr_is_superuser = True\<rparr>],
     tokens = [\<lparr>tok_id = 10, tok_owner_id = 1, tok_annotation = ''ann ci''\<rparr>,
               \<lparr>tok_id = 20, tok_owner_id = 2, tok_annotation = ''root ci''\<rparr>],
     group_memberships = [\<lparr>gm_parent_group_id = 5, gm_member_user_id = Some 1, gm_member_group_id = None\<rparr>,
                          \<lparr>gm_parent_group_id = 6, gm_member_user_id = None, gm_member_group_id = Some 5\<rparr>],
     mcp_privilege_identifiers =
       [\<lparr>mpi_id = 1, mpi_identifier = ''query'', mpi_item_type = ''tool'', mpi_is_public = False\<rparr>,
        \<lparr>mpi_id = 2, mpi_identifier = ''list'', mpi_item_type = ''tool'', mpi_is_public = True\<rparr>],
     group_mcp_privileges = [(5, 1)],
     connection_privileges = [(6, 7, ''read_write''), (5, 8, ''read'')],
     group_admin_permissions = [(5, ''manage_probes'')],
     token_connection_scope = [(10, 7, ''read''), (20, 8, ''read_write'')],
     token_mcp_scope = [(10, 1)],
     token_admin_scope = [(20, ''manage_probes'')],
     db_fails = (\<lambda>_. False)\<rparr>"

definition sample_lookup :: sharing_lookup where
  "sample_lookup c = (if c = 7 \<or> c = 8 then Inr (False, ''bob'') else if c = 9 then Inr (True, ''bob'')
     else Inl ErrLookup)"

definition sample_checker :: "rbac_checker option" where
  "sample_checker = NewRBACCheckerWithSharing (Some sample_store) (Some sample_lookup)"

definition ann_token :: request_ctx where
  "ann_token = \<lparr>ctx_username = Some ''ann'', ctx_is_api_token = Some True, ctx_user_id = Some 1,
     ctx_token_id = Some 10, ctx_is_superuser = Some False\<rparr>"

definition root_token :: request_ctx where
  "root_token = \<lparr>ctx_username = Some ''root'', ctx_is_api_token = Some True, ctx_user_id = Some 2,
     ctx_token_id = Some 20, ctx_is_superuser = Some True\<rparr>"

lemma sample_ann_7: "CanAccessConnection sample_checker ann_token 7 = (True, AccessLevelRead)"
  by code_simp

lemma sample_wf: "store_wf sample_store"
  by (simp add: store_wf_def sample_store_def valid_level_def const_defs)

lemma sample_checker_store: "checker_store sample_checker = Some sample_store"
  by (simp add: sample_checker_def NewRBACCheckerWithSharing_def SetConnectionSharingLookup_def
      NewRBACChecker_def checker_store_def)

lemma sample_healthy: "healthy sample_store"
  by (simp add: healthy_def sample_store_def)

section \<open>Properties\<close>

text \<open>
  C1. An API token never reaches more than its owner does in a session: every connection,
  at no higher level; every MCP item; every admin permission.
\<close>

theorem token_within_owner:
  assumes "checker_store rc = Some st" and "store_wf st"
  shows "(CanAccessConnection rc ctx c = (True, l) \<longrightarrow>
      (\<exists>l'. CanAccessConnection rc (as_session ctx) c = (True, l') \<and> accessLevelRank l \<le> accessLevelRank l'))
    \<and> (CanAccessMCPItem rc ctx name \<longrightarrow> CanAccessMCPItem rc (as_session ctx) name)
    \<and> (HasAdminPermission rc ctx perm \<longrightarrow> HasAdminPermission rc (as_session ctx) perm)"
proof -
  have "\<exists>l'. CanAccessConnection rc (as_session ctx) c = (True, l') \<and> accessLevelRank l \<le> accessLevelRank l'"
    if "CanAccessConnection rc ctx c = (True, l)"
  proof -
    from that assms(1) obtain b where b: "base_conn rc st ctx c = Some b"
      and l: "applyConnectionTokenScope st ctx c b = (True, l)"
      by (auto simp: CanAccessConnection_split split: if_splits option.splits)
    from base_conn_valid[OF assms(2) b] l have "accessLevelRank l \<le> accessLevelRank b"
      by (rule applyConnectionTokenScope_le)
    with b assms(1) show ?thesis by (simp add: CanAccessConnection_split)
  qed
  then show ?thesis
    using assms(1) by (auto simp: CanAccessMCPItem_split HasAdminPermission_split
        mcp_scope_check_def admin_scope_check_def)
qed

theorem token_within_owner_witness:
  "\<exists>l'. CanAccessConnection sample_checker (as_session ann_token) 7 = (True, l') \<and>
     accessLevelRank AccessLevelRead \<le> accessLevelRank l'"
  using token_within_owner[OF sample_checker_store sample_wf, of ann_token 7 AccessLevelRead] sample_ann_7
  by blast

text \<open>
  C2. A token's connection scope is a ceiling on every connection check, for superusers'
  tokens and for connection owners alike: an access that is granted is to a connection the
  scope admits, and never above the level the scope records for it.
\<close>

theorem connection_scope_is_ceiling:
  assumes "checker_store rc = Some st" and "store_wf st"
    and "GetTokenIDFromContext ctx = tid" "tid > 0" and "scope_conn_rows st tid \<noteq> []"
    and "CanAccessConnection rc ctx c = (True, l)"
  shows "\<exists>s. (conn_scope_level st tid c = Some s \<or>
        conn_scope_level st tid c = None \<and> conn_scope_level st tid ConnectionIDAll = Some s) \<and>
      accessLevelRank l \<le> accessLevelRank s"
proof -
  from assms(1,3,4,6) obtain b s where b: "base_conn rc st ctx c = Some b"
    and s: "IsConnectionInTokenScope st tid c = Inr (True, s)" and l: "l = applyTokenCeiling s b"
    by (auto simp: CanAccessConnection_split applyConnectionTokenScope_def Let_def
        split: if_splits option.splits sum.splits prod.splits)
  from scope_conn.truthful[of st "(tid, c)"] s have ans: "conn_scope_answer st tid c = (True, s)"
    by (simp add: go_simps)
  with assms(5) have lev: "conn_scope_level st tid c = Some s \<or>
      conn_scope_level st tid c = None \<and> conn_scope_level st tid ConnectionIDAll = Some s"
    by (auto simp: conn_scope_answer_def split: option.splits)
  then have "valid_level s" using scope_level_valid[OF assms(2)] by blast
  then have "accessLevelRank l \<le> accessLevelRank s" unfolding l by (rule applyTokenCeiling_le_token)
  with lev show ?thesis by blast
qed

theorem connection_scope_is_ceiling_witness:
  "\<exists>s. (conn_scope_level sample_store 10 7 = Some s \<or>
        conn_scope_level sample_store 10 7 = None \<and> conn_scope_level sample_store 10 ConnectionIDAll = Some s) \<and>
      accessLevelRank AccessLevelRead \<le> accessLevelRank s"
  by (rule connection_scope_is_ceiling[OF sample_checker_store sample_wf, of ann_token])
     (simp_all add: sample_ann_7, simp_all add: ann_token_def GetTokenIDFromContext_def scope_conn_rows_def sample_store_def)

text \<open>
  C3. A failing database statement can only deny. Whatever a check grants while some
  statements fail, it grants, at the same level, once none does.
\<close>

theorem failures_only_deny:
  "(CanAccessConnection rc ctx c = (True, l) \<longrightarrow> CanAccessConnection (repair_checker rc) ctx c = (True, l))
   \<and> (CanAccessMCPItem rc ctx name \<longrightarrow> CanAccessMCPItem (repair_checker rc) ctx name)
   \<and> (HasAdminPermission rc ctx perm \<longrightarrow> HasAdminPermission (repair_checker rc) ctx perm)
   \<and> (IsSuperuser rc ctx \<longrightarrow> IsSuperuser (repair_checker rc) ctx)
   \<and> (ConnectionInTokenScope rc ctx c \<longrightarrow> ConnectionInTokenScope (repair_checker rc) ctx c)"
proof (cases "checker_store rc")
  case None
  then show ?thesis
    by (simp add: CanAccessConnection_def CanAccessMCPItem_def HasAdminPermission_def IsSuperuser_def
        ConnectionInTokenScope_def)
next
  case (Some st)
  have "CanAccessConnection (repair_checker rc) ctx c = (True, l)"
    if "CanAccessConnection rc ctx c = (True, l)"
    using that Some base_conn_repaired[of rc st ctx c] applyConnectionTokenScope_repaired[of st ctx c]
    by (auto simp: CanAccessConnection_split split: if_splits option.splits)
  moreover have "ConnectionInTokenScope (repair_checker rc) ctx c" if "ConnectionInTokenScope rc ctx c"
    using that Some applyConnectionTokenScope_repaired[of st ctx c AccessLevelReadWrite]
    by (auto simp: ConnectionInTokenScope_def split: if_splits prod.splits)
  ultimately show ?thesis
    using Some by (auto simp: CanAccessMCPItem_split HasAdminPermission_split IsSuperuser_def
        base_mcp_repaired base_admin_repaired scope_checks_repaired tokenCarriesSuperuser_repaired
        split: if_splits)
qed

theorem failures_only_deny_witness:
  "CanAccessConnection (repair_checker sample_checker) ann_token 7 = (True, AccessLevelRead)"
  using failures_only_deny[of sample_checker ann_token 7 AccessLevelRead] sample_ann_7 by blast

text \<open>
  C4. No checker, no store, or a token request that has lost its token id: every check
  denies, and the reports are empty.
\<close>

theorem missing_identity_denies:
  assumes "checker_store rc = None \<or> tokenContextIncomplete ctx"
  shows "CanAccessConnection rc ctx c = (False, AccessLevelNone) \<and> \<not> CanAccessMCPItem rc ctx name \<and>
    \<not> HasAdminPermission rc ctx perm \<and> \<not> IsSuperuser rc ctx \<and> \<not> HasWriteAccess rc ctx c \<and>
    \<not> ConnectionInTokenScope rc ctx c \<and> \<not> AllConnectionsInTokenScope rc ctx \<and>
    GetEffectivePrivileges rc ctx = empty_privileges \<and> VisibleConnectionIDs rc ctx lister = Inr ([], False)"
  using assms
  by (cases "checker_store rc")
     (auto simp: CanAccessConnection_def CanAccessMCPItem_def HasAdminPermission_def IsSuperuser_def
       HasWriteAccess_def ConnectionInTokenScope_def AllConnectionsInTokenScope_def Let_def
       GetEffectivePrivileges_def VisibleConnectionIDs_def tokenCarriesSuperuser_def)

theorem missing_identity_denies_witness:
  "\<not> IsSuperuser sample_checker (root_token\<lparr>ctx_token_id := None\<rparr>) \<and>
   VisibleConnectionIDs sample_checker (root_token\<lparr>ctx_token_id := None\<rparr>) None = Inr ([], False)"
proof -
  have "tokenContextIncomplete (root_token\<lparr>ctx_token_id := None\<rparr>)" by code_simp
  then show ?thesis using missing_identity_denies[of sample_checker "root_token\<lparr>ctx_token_id := None\<rparr>"] by blast
qed

text \<open>
  The blanket superuser gate opens exactly for a superuser's request that holds every
  admin permission, the token's scope included.
\<close>

theorem superuser_gate:
  assumes "checker_store rc = Some st" and "healthy st"
  shows "IsSuperuser rc ctx \<longleftrightarrow> IsSuperuserFromContext ctx \<and> (\<forall>perm. HasAdminPermission rc ctx perm)"
proof -
  let ?tid = "GetTokenIDFromContext ctx"
  obtain q :: string where q: "q \<notin> set (scope_admin_rows st ?tid)"
    using ex_new_if_finite[OF infinite_UNIV_listI, of "set (scope_admin_rows st ?tid)"] by auto
  then have "\<not> admin_in_scope st ?tid q"
    if "scope_admin_rows st ?tid \<noteq> []" "AdminPermissionWildcard \<notin> set (scope_admin_rows st ?tid)"
    using that by (simp add: admin_in_scope_def)
  moreover have "IsAdminPermissionInTokenScope st ?tid p = when_token st ?tid (admin_in_scope st ?tid p)" for p
    using scope_admin.available[OF assms(2), of "(?tid, p)"] by simp
  ultimately show ?thesis
    using assms admin_scope.available[OF assms(2), of ?tid]
    by (auto simp: IsSuperuser_def tokenCarriesSuperuser_def HasAdminPermission_split base_admin_def
        admin_scope_check_def admin_in_scope_def when_token_def Let_def split: if_splits)
qed

theorem superuser_gate_witness:
  "\<not> IsSuperuser sample_checker root_token \<and> \<not> (\<forall>perm. HasAdminPermission sample_checker root_token perm)"
proof -
  have "\<not> IsSuperuser sample_checker root_token" and "IsSuperuserFromContext root_token" by code_simp+
  then show ?thesis using superuser_gate[OF sample_checker_store sample_healthy, of root_token] by blast
qed

end
