(* ===== verification/Visible_Connections.thy ===== *)
theory Visible_Connections
  imports Rbac_Facts
begin

text \<open>
  The reports of \<^verbatim>\<open>access.go\<close> against its checks: \<open>GetEffectivePrivileges\<close> and
  \<open>VisibleConnectionIDs\<close> compute, from the maps of grants narrowed by the token's scope, what
  \<open>CanAccessConnection\<close>, \<open>HasAdminPermission\<close> and \<open>CanAccessMCPItem\<close> answer item by item.
\<close>

section \<open>Narrowing a map of grants\<close>

definition has_key :: "('k, 'v) gomap \<Rightarrow> 'k \<Rightarrow> bool" where
  "has_key m k \<longleftrightarrow> map_of m k \<noteq> None"

lemma has_key_simps [simp]:
  "\<not> has_key [] k" "has_key (AList.update k' v m) k \<longleftrightarrow> k = k' \<or> has_key m k"
  "has_key (map (\<lambda>(k, v). (k, f v)) m) k \<longleftrightarrow> has_key m k"
  by (simp_all add: has_key_def update_conv' map_of_map)

lemma resolve_ok_has_key:
  "snd (resolveConnectionAccess privs c) \<longleftrightarrow> has_key privs c \<or> has_key privs ConnectionIDAll"
  by (simp add: resolve_ok_iff has_key_def)

text \<open>The connection grants \<open>applyTokenScope\<close> leaves of a user's own.\<close>

definition scoped_conns :: "token_scope \<Rightarrow> (conn_id, access_level) gomap \<Rightarrow> (conn_id, access_level) gomap" where
  "scoped_conns scope privs =
     (if ts_connections scope = [] then privs
      else if scopeHasConnectionWildcard scope
      then applyWildcardConnectionScope scope (wildcardScopeLevel scope) privs
      else narrowConnections scope privs)"

lemma applyTokenScope_simps [simp]:
  "ep_connection_privileges (applyTokenScope st scope r) = scoped_conns scope (ep_connection_privileges r)"
  "ep_token_scope (applyTokenScope st scope r) = Some scope"
  "ep_token_scope_error (applyTokenScope st scope r) = ep_token_scope_error r"
  by (simp_all add: applyTokenScope_def scoped_conns_def)

lemma fold_guarded_update_keys:
  "has_key (fold (\<lambda>x m. if P x then AList.update (k x) (v x) m else m) xs m) c \<longleftrightarrow>
     has_key m c \<or> (\<exists>x \<in> set xs. P x \<and> k x = c)"
  by (induction xs arbitrary: m) auto

lemma narrowConnections_keys:
  "has_key (narrowConnections scope privs) c \<longleftrightarrow>
     (\<exists>sc \<in> set (ts_connections scope). sc_connection_id sc = c) \<and> (has_key privs c \<or> has_key privs ConnectionIDAll)"
proof -
  have "narrowConnections scope privs =
      fold (\<lambda>sc m. if snd (resolveConnectionAccess privs (sc_connection_id sc))
          then AList.update (sc_connection_id sc)
                 (applyTokenCeiling (sc_access_level sc) (fst (resolveConnectionAccess privs (sc_connection_id sc)))) m
          else m) (ts_connections scope) []"
    unfolding narrowConnections_def by (rule fold_cong) (auto simp: fun_eq_iff split: prod.splits)
  then show ?thesis by (auto simp: fold_guarded_update_keys resolve_ok_has_key)
qed

lemma applyWildcardConnectionScope_keys:
  "has_key (applyWildcardConnectionScope scope w privs) c \<longleftrightarrow>
     has_key privs c \<or>
     (\<exists>sc \<in> set (ts_connections scope). sc_connection_id sc = c) \<and> c \<noteq> ConnectionIDAll \<and>
       has_key privs ConnectionIDAll"
proof -
  have "applyWildcardConnectionScope scope w privs =
      fold (\<lambda>sc m. if sc_connection_id sc \<noteq> ConnectionIDAll \<and> snd (resolveConnectionAccess privs (sc_connection_id sc))
          then AList.update (sc_connection_id sc)
                 (applyTokenCeiling (sc_access_level sc) (fst (resolveConnectionAccess privs (sc_connection_id sc)))) m
          else m) (ts_connections scope) (map (\<lambda>(k, level). (k, applyTokenCeiling w level)) privs)"
    unfolding applyWildcardConnectionScope_def by (rule fold_cong) (auto simp: fun_eq_iff split: prod.splits)
  then show ?thesis by (auto simp: fold_guarded_update_keys resolve_ok_has_key)
qed

lemma scoped_conns_wildcard:
  "has_key (scoped_conns scope privs) ConnectionIDAll \<Longrightarrow> InScope scope c"
  by (auto simp: scoped_conns_def InScope_def scopeHasConnectionWildcard_def narrowConnections_keys
      split: if_splits)

text \<open>Inside the scope, the narrowed grants admit what the user's own grants admit.\<close>

lemma scoped_conns_admit:
  assumes "InScope scope c"
  shows "has_key (scoped_conns scope privs) c \<or> has_key (scoped_conns scope privs) ConnectionIDAll \<longleftrightarrow>
    has_key privs c \<or> has_key privs ConnectionIDAll"
  using assms
  by (cases "scopeHasConnectionWildcard scope"; cases "ts_connections scope = []")
     (auto simp: scoped_conns_def InScope_def scopeHasConnectionWildcard_def narrowConnections_keys
        applyWildcardConnectionScope_keys)

lemma set_fold_addSeen: "set (fold addSeen xs seen) = set seen \<union> set xs"
  by (induction xs arbitrary: seen) (auto simp: addSeen_def)

definition owned_or_open :: "request_ctx \<Rightarrow> bool \<Rightarrow> bool \<Rightarrow> string \<Rightarrow> bool" where
  "owned_or_open ctx restricted shared owner \<longleftrightarrow>
     GetUsernameFromContext ctx \<noteq> '''' \<and> owner = GetUsernameFromContext ctx \<or> shared \<and> \<not> restricted"

lemma ruleAdmits_iff:
  "ruleAdmits ctx restricted privs info \<longleftrightarrow>
     owned_or_open ctx (vi_id info \<in> restricted) (vi_is_shared info) (vi_owner_username info) \<or>
     has_key privs (vi_id info) \<or> has_key privs ConnectionIDAll"
  by (auto simp: ruleAdmits_def connectionAccessRule_def owned_or_open_def resolve_ok_has_key)

section \<open>The user's privileges as the report holds them\<close>

definition own_conns :: "auth_store \<Rightarrow> request_ctx \<Rightarrow> (conn_id, access_level) gomap" where
  "own_conns st ctx = (if GetUserIDFromContext ctx = 0 then [] else user_conns st (GetUserIDFromContext ctx))"

text \<open>The scope that narrows a request: none in a session.\<close>

definition request_scope :: "auth_store \<Rightarrow> request_ctx \<Rightarrow> token_scope option" where
  "request_scope st ctx =
     (if GetTokenIDFromContext ctx > 0 then token_scope_of st (GetTokenIDFromContext ctx) else None)"

definition in_request_scope :: "auth_store \<Rightarrow> request_ctx \<Rightarrow> conn_id \<Rightarrow> bool" where
  "in_request_scope st ctx c \<longleftrightarrow> (case request_scope st ctx of None \<Rightarrow> True | Some scope \<Rightarrow> InScope scope c)"

lemma token_scope_of_conns:
  "token_scope_of st tid = Some scope \<Longrightarrow> ts_connections scope = scope_conn_rows st tid"
  "token_scope_of st tid = None \<Longrightarrow> scope_conn_rows st tid = []"
  by (auto simp: token_scope_of_def split: if_splits)

lemma in_request_scope_answer:
  "in_request_scope st ctx c \<longleftrightarrow>
     GetTokenIDFromContext ctx \<le> 0 \<or> fst (conn_scope_answer st (GetTokenIDFromContext ctx) c)"
proof (cases "token_scope_of st (GetTokenIDFromContext ctx)")
  case None
  then show ?thesis
    by (simp add: in_request_scope_def request_scope_def conn_scope_answer_def token_scope_of_conns(2))
next
  case (Some scope)
  from token_scope_of_conns(1)[OF this] have
    "InScope scope c \<longleftrightarrow> fst (conn_scope_answer st (GetTokenIDFromContext ctx) c)" by (rule InScope_rows)
  with Some show ?thesis by (simp add: in_request_scope_def request_scope_def not_less)
qed

lemma applyConnectionTokenScope_iff:
  assumes "healthy st" and "token_exists st (GetTokenIDFromContext ctx) \<or> GetTokenIDFromContext ctx \<le> 0"
  shows "fst (applyConnectionTokenScope st ctx c l) \<longleftrightarrow> in_request_scope st ctx c"
  using assms scope_conn.available[OF assms(1), of "(GetTokenIDFromContext ctx, c)"]
  by (auto simp: applyConnectionTokenScope_def Let_def in_request_scope_answer when_token_def split: prod.splits)

lemma base_conn_user:
  assumes "healthy st" "\<not> IsSuperuserFromContext ctx" "checker_lookup rc = Some lookup"
    "lookup c = Inr (shared, owner)"
  shows "base_conn rc st ctx c \<noteq> None \<longleftrightarrow>
    owned_or_open ctx (\<exists>(g, d, l) \<in> set (connection_privileges st). d = c) shared owner \<or>
    has_key (own_conns st ctx) c \<or> has_key (own_conns st ctx) ConnectionIDAll"
  using assms assigned.available[OF assms(1), of c] user_conns.available[OF assms(1), of "GetUserIDFromContext ctx"]
  by (auto simp: base_conn_def connectionAccessRule_def owned_or_open_def own_conns_def
      resolveConnectionAccess_def has_key_def split: option.splits if_splits prod.splits)

text \<open>The report of a user's request: grants narrowed by the scope, and the scope itself.\<close>

lemma effective_user:
  assumes "checker_store rc = Some st" "healthy st" "\<not> tokenContextIncomplete ctx"
    "\<not> IsSuperuserFromContext ctx"
    "GetUserIDFromContext ctx \<noteq> 0 \<or> GetTokenIDFromContext ctx \<le> 0"
  shows "let r = GetEffectivePrivileges rc ctx; tid = GetTokenIDFromContext ctx in
    (tid > 0 \<and> \<not> token_exists st tid \<longrightarrow> ep_token_scope_error r \<noteq> None) \<and>
    (tid \<le> 0 \<or> token_exists st tid \<longrightarrow>
       ep_token_scope_error r = None \<and> ep_token_scope r = request_scope st ctx \<and>
       ep_connection_privileges r =
         (case request_scope st ctx of None \<Rightarrow> own_conns st ctx | Some scope \<Rightarrow> scoped_conns scope (own_conns st ctx)))"
  using assms whole_scope.available[OF assms(2), of "GetTokenIDFromContext ctx"]
    user_conns.available[OF assms(2), of "GetUserIDFromContext ctx"]
  by (auto simp: GetEffectivePrivileges_def Let_def or_default_def empty_privileges_def own_conns_def
      request_scope_def when_token_def split: option.splits)

section \<open>Properties\<close>

lemma visible_superuser:
  assumes "checker_store rc = Some st" "healthy st" "\<not> tokenContextIncomplete ctx" "IsSuperuserFromContext ctx"
    and "VisibleConnectionIDs rc ctx lister = Inr (ids, everything)"
  shows "(everything \<or> c \<in> set ids \<longleftrightarrow> in_request_scope st ctx c) \<and>
    (GetTokenIDFromContext ctx \<le> 0 \<or> token_exists st (GetTokenIDFromContext ctx))"
  using assms whole_scope.available[OF assms(2), of "GetTokenIDFromContext ctx"]
  by (auto simp: VisibleConnectionIDs_def superuserVisibleConnectionIDs_def Let_def when_token_def
      in_request_scope_def request_scope_def InScope_def scopeHasConnectionWildcard_def
      split: if_splits option.splits)

lemma admitted_listed:
  assumes "info \<in> set all" "\<forall>i \<in> set all. lookup (vi_id i) = Inr (vi_is_shared i, vi_owner_username i)"
  shows "vi_id info \<in> vi_id ` set (filter (ruleAdmits ctx restricted privs) all) \<longleftrightarrow> ruleAdmits ctx restricted privs info"
proof
  assume "vi_id info \<in> vi_id ` set (filter (ruleAdmits ctx restricted privs) all)"
  then obtain i where "i \<in> set all" "ruleAdmits ctx restricted privs i" "vi_id i = vi_id info" by auto
  with bspec[OF assms(2), of i] bspec[OF assms(2) assms(1)] show "ruleAdmits ctx restricted privs info"
    by (simp add: ruleAdmits_def)
qed (use assms(1) in simp)

lemma scoped_conns_report:
  assumes "privs = (case request_scope st ctx of None \<Rightarrow> own_conns st ctx
      | Some scope \<Rightarrow> scoped_conns scope (own_conns st ctx))"
  shows "has_key privs ConnectionIDAll \<or> in_request_scope st ctx c \<and> (free \<or> has_key privs c) \<longleftrightarrow>
    in_request_scope st ctx c \<and> (free \<or> has_key (own_conns st ctx) c \<or> has_key (own_conns st ctx) ConnectionIDAll)"
proof (cases "request_scope st ctx")
  case (Some scope)
  then show ?thesis
    using scoped_conns_wildcard[of scope "own_conns st ctx" c] scoped_conns_admit[of scope c "own_conns st ctx"]
    unfolding assms in_request_scope_def by auto
qed (auto simp: assms in_request_scope_def)

lemma visible_user:
  assumes "checker_store rc = Some st" "healthy st" "\<not> tokenContextIncomplete ctx" "\<not> IsSuperuserFromContext ctx"
    and uid: "GetUserIDFromContext ctx \<noteq> 0 \<or> GetTokenIDFromContext ctx \<le> 0"
    and all: "GetAllConnections l = Inr all" "info \<in> set all" "vi_id info \<noteq> ConnectionIDAll"
      "\<forall>i \<in> set all. lookup (vi_id i) = Inr (vi_is_shared i, vi_owner_username i)"
    and vis: "VisibleConnectionIDs rc ctx (Some l) = Inr (ids, everything)"
  shows "(everything \<or> vi_id info \<in> set ids \<longleftrightarrow>
      in_request_scope st ctx (vi_id info) \<and>
      (owned_or_open ctx (\<exists>(g, d, l) \<in> set (connection_privileges st). d = vi_id info)
         (vi_is_shared info) (vi_owner_username info) \<or>
       has_key (own_conns st ctx) (vi_id info) \<or> has_key (own_conns st ctx) ConnectionIDAll)) \<and>
    (GetTokenIDFromContext ctx \<le> 0 \<or> token_exists st (GetTokenIDFromContext ctx))"
proof -
  let ?c = "vi_id info" and ?eff = "GetEffectivePrivileges rc ctx" and ?tid = "GetTokenIDFromContext ctx"
  let ?privs = "ep_connection_privileges ?eff"
  define restricted where
    "restricted = {c. c \<noteq> ConnectionIDAll \<and> (\<exists>(g, d, l) \<in> set (connection_privileges st). d = c)}"
  define free where "free = owned_or_open ctx (?c \<in> restricted) (vi_is_shared info) (vi_owner_username info)"
  have restr: "RestrictedConnectionIDs st = Inr restricted"
    using restricted_ids.available[OF assms(2)] by (simp add: restricted_def)
  from vis have tok: "?tid \<le> 0 \<or> token_exists st ?tid"
    using effective_user[OF assms(1-5)] assms(1,3,4) by (auto simp: VisibleConnectionIDs_def Let_def)
  with effective_user[OF assms(1-5)] have eff: "ep_token_scope_error ?eff = None"
      "ep_token_scope ?eff = request_scope st ctx"
      "?privs = (case request_scope st ctx of None \<Rightarrow> own_conns st ctx
         | Some scope \<Rightarrow> scoped_conns scope (own_conns st ctx))" by (auto simp: Let_def)
  have seen: "?c \<in> vi_id ` set (filter (ruleAdmits ctx restricted ?privs) all) \<longleftrightarrow>
      free \<or> has_key ?privs ?c \<or> has_key ?privs ConnectionIDAll"
    unfolding admitted_listed[OF all(2,4)] ruleAdmits_iff free_def ..
  have keys: "?c \<in> fst ` set ?privs \<longleftrightarrow> has_key ?privs ?c"
    by (simp add: has_key_def map_of_eq_None_iff)
  define found where "found = fold addSeen (map vi_id (filter (ruleAdmits ctx restricted ?privs) all)) (map fst ?privs)"
  have mem: "?c \<in> set found \<longleftrightarrow> free \<or> has_key ?privs ?c \<or> has_key ?privs ConnectionIDAll"
    using seen keys unfolding found_def set_fold_addSeen by auto
  have "(if ?tid > 0 then ep_token_scope_error ?eff else None) = None"
    "(if ?tid > 0 then ep_token_scope ?eff else None) = request_scope st ctx"
    using eff(1,2) by (simp_all add: request_scope_def)
  then have "VisibleConnectionIDs rc ctx (Some l) =
      Inr (if has_key ?privs ConnectionIDAll then ([], True)
           else (case request_scope st ctx of None \<Rightarrow> (found, False)
                 | Some scope \<Rightarrow> (filter (InScope scope) found, False)))"
    using assms(1,3,4) all(1) restr unfolding VisibleConnectionIDs_def found_def
    by (simp add: Let_def has_key_def)
  with vis have "everything \<or> ?c \<in> set ids \<longleftrightarrow> has_key ?privs ConnectionIDAll \<or>
      in_request_scope st ctx ?c \<and> ?c \<in> set found"
    by (auto simp: in_request_scope_def split: if_splits option.splits)
  then have "everything \<or> ?c \<in> set ids \<longleftrightarrow> has_key ?privs ConnectionIDAll \<or>
      in_request_scope st ctx ?c \<and> (free \<or> has_key ?privs ?c)"
    using mem by blast
  then show ?thesis using tok all(3) unfolding scoped_conns_report[OF eff(3)]
    by (simp add: free_def restricted_def)
qed

text \<open>
  C5. The list of visible connections is the set of connections the access check admits: a
  connection of the datastore is listed, or covered by the answer that everything is
  visible, exactly when \<open>CanAccessConnection\<close> grants it to the same request. The lister and
  the lookup read one datastore (\<open>lookup\<close> answers what the lister lists), whose identifiers
  are never the wildcard 0; a token's request carries its owner's id.
\<close>

theorem visible_iff_accessible:
  assumes "checker_store rc = Some st" "healthy st" "checker_lookup rc = Some lookup"
    and "GetAllConnections l = Inr all" "info \<in> set all"
    and "\<forall>i \<in> set all. lookup (vi_id i) = Inr (vi_is_shared i, vi_owner_username i) \<and> vi_id i \<noteq> ConnectionIDAll"
    and "GetUserIDFromContext ctx \<noteq> 0 \<or> GetTokenIDFromContext ctx \<le> 0"
    and "VisibleConnectionIDs rc ctx (Some l) = Inr (ids, everything)"
  shows "(everything \<or> vi_id info \<in> set ids) \<longleftrightarrow> fst (CanAccessConnection rc ctx (vi_id info))"
proof (cases "tokenContextIncomplete ctx")
  case True
  with assms(1,8) show ?thesis by (simp add: VisibleConnectionIDs_def CanAccessConnection_def)
next
  case False
  have lk: "lookup (vi_id info) = Inr (vi_is_shared info, vi_owner_username info)" "vi_id info \<noteq> ConnectionIDAll"
    using bspec[OF assms(6,5)] by simp_all
  have split: "fst (CanAccessConnection rc ctx (vi_id info)) \<longleftrightarrow>
      base_conn rc st ctx (vi_id info) \<noteq> None \<and> in_request_scope st ctx (vi_id info)"
    if "GetTokenIDFromContext ctx \<le> 0 \<or> token_exists st (GetTokenIDFromContext ctx)"
    using that assms(1) False applyConnectionTokenScope_iff[OF assms(2)]
    by (auto simp: CanAccessConnection_split split: option.splits)
  show ?thesis
  proof (cases "IsSuperuserFromContext ctx")
    case True
    with visible_superuser[OF assms(1,2) False True assms(8), of "vi_id info"] split assms(3) lk
    show ?thesis by (auto simp: base_conn_def)
  next
    case su: False
    have "\<forall>i \<in> set all. lookup (vi_id i) = Inr (vi_is_shared i, vi_owner_username i)" using assms(6) by blast
    from visible_user[OF assms(1,2) False su assms(7,4,5) lk(2) this assms(8)] split
      base_conn_user[OF assms(2) su assms(3) lk(1)]
    show ?thesis by blast
  qed
qed

definition sample_lister :: connection_lister where
  "sample_lister = \<lparr>GetAllConnections =
       Inr [\<lparr>vi_id = 7, vi_is_shared = False, vi_owner_username = ''bob''\<rparr>,
            \<lparr>vi_id = 9, vi_is_shared = True, vi_owner_username = ''bob''\<rparr>],
     GetOwnedClusterGroupConnectionIDs = None\<rparr>"

theorem visible_iff_accessible_witness:
  "(False \<or> (7 :: int) \<in> set [7]) \<longleftrightarrow> fst (CanAccessConnection sample_checker ann_token 7)"
proof -
  have "VisibleConnectionIDs sample_checker ann_token (Some sample_lister) = Inr ([7], False)" by code_simp
  moreover have "checker_lookup sample_checker = Some sample_lookup"
    by (simp add: sample_checker_def NewRBACCheckerWithSharing_def SetConnectionSharingLookup_def
        NewRBACChecker_def checker_lookup_def)
  ultimately show ?thesis
    using visible_iff_accessible[OF sample_checker_store sample_healthy, of sample_lookup sample_lister _
        "\<lparr>vi_id = 7, vi_is_shared = False, vi_owner_username = ''bob''\<rparr>" ann_token "[7]" False]
    by (simp add: sample_lister_def sample_lookup_def const_defs ann_token_def GetUserIDFromContext_def)
qed

lemma narrowAdmin_iff:
  "\<not> scopeHasAdminWildcard scope \<Longrightarrow>
     p \<in> narrowAdmin scope perms \<or> AdminPermissionWildcard \<in> narrowAdmin scope perms \<longleftrightarrow>
     p \<in> set (ts_admin_permissions scope) \<and> (p \<in> perms \<or> AdminPermissionWildcard \<in> perms)"
  by (auto simp: narrowAdmin_def scopeHasAdminWildcard_def)

lemma token_scope_of_rows:
  assumes "token_scope_of st tid = Some scope"
  shows "ts_mcp_privileges scope = scope_mcp_rows st tid" "ts_admin_permissions scope = scope_admin_rows st tid"
  using assms by (auto simp: token_scope_of_def split: if_splits)

lemma token_scope_of_NoneD:
  "token_scope_of st tid = None \<Longrightarrow> scope_mcp_rows st tid = [] \<and> scope_admin_rows st tid = []"
  by (auto simp: token_scope_of_def split: if_splits)

lemma applyTokenScope_admin:
  assumes "token_scope_of st tid = Some scope"
  shows "p \<in> ep_admin_permissions (applyTokenScope st scope r) \<or>
      AdminPermissionWildcard \<in> ep_admin_permissions (applyTokenScope st scope r) \<longleftrightarrow>
    admin_in_scope st tid p \<and> (p \<in> ep_admin_permissions r \<or> AdminPermissionWildcard \<in> ep_admin_permissions r)"
  using narrowAdmin_iff[of scope p "ep_admin_permissions r"]
  by (auto simp: applyTokenScope_def admin_in_scope_def scopeHasAdminWildcard_def token_scope_of_rows[OF assms])

text \<open>
  The admin permissions reported as effective are the ones the check grants: for a
  user's request, in a session or with a token that exists, \<open>HasAdminPermission\<close> holds
  exactly for the permissions listed, or for all when the wildcard is listed.
\<close>

theorem admin_report_agrees:
  assumes "checker_store rc = Some st" "healthy st" "\<not> tokenContextIncomplete ctx"
    "\<not> IsSuperuserFromContext ctx" "GetUserIDFromContext ctx \<noteq> 0"
    and "token_exists st (GetTokenIDFromContext ctx) \<or> GetTokenIDFromContext ctx \<le> 0"
  shows "HasAdminPermission rc ctx p \<longleftrightarrow>
    p \<in> ep_admin_permissions (GetEffectivePrivileges rc ctx) \<or>
    AdminPermissionWildcard \<in> ep_admin_permissions (GetEffectivePrivileges rc ctx)"
proof -
  let ?tid = "GetTokenIDFromContext ctx" and ?perms = "user_admin st (GetUserIDFromContext ctx)"
  let ?eff = "ep_admin_permissions (GetEffectivePrivileges rc ctx)"
  have perms: "GetUserAdminPermissions st (GetUserIDFromContext ctx) = Inr ?perms"
    using user_admin.available[OF assms(2)] by simp
  have scope: "IsAdminPermissionInTokenScope st ?tid p = when_token st ?tid (admin_in_scope st ?tid p)"
    using scope_admin.available[OF assms(2), of "(?tid, p)"] by simp
  have "HasAdminPermission rc ctx p \<longleftrightarrow>
      (p \<in> ?perms \<or> AdminPermissionWildcard \<in> ?perms) \<and> (?tid > 0 \<longrightarrow> admin_in_scope st ?tid p)"
    using assms perms scope
    by (auto simp: HasAdminPermission_split base_admin_def admin_scope_check_def when_token_def)
  moreover have "p \<in> ?eff \<or> AdminPermissionWildcard \<in> ?eff \<longleftrightarrow>
      (p \<in> ?perms \<or> AdminPermissionWildcard \<in> ?perms) \<and> (?tid > 0 \<longrightarrow> admin_in_scope st ?tid p)"
  proof (cases "?tid > 0")
    case True
    then have "GetTokenScope st ?tid = Inr (token_scope_of st ?tid)"
      using whole_scope.available[OF assms(2), of ?tid] assms(6) by (simp add: when_token_def)
    with True assms perms show ?thesis
      by (cases "token_scope_of st ?tid")
         (auto simp: GetEffectivePrivileges_def Let_def or_default_def applyTokenScope_admin admin_in_scope_def
            dest: token_scope_of_NoneD)
  qed (use assms perms in \<open>simp add: GetEffectivePrivileges_def Let_def or_default_def\<close>)
  ultimately show ?thesis by blast
qed

theorem admin_report_agrees_witness:
  "HasAdminPermission sample_checker ann_token ''manage_probes'' \<longleftrightarrow>
   ''manage_probes'' \<in> ep_admin_permissions (GetEffectivePrivileges sample_checker ann_token) \<or>
   AdminPermissionWildcard \<in> ep_admin_permissions (GetEffectivePrivileges sample_checker ann_token)"
  by (rule admin_report_agrees[OF sample_checker_store sample_healthy]) code_simp+

end
