(* ===== verification/Token_Ceiling.thy ===== *)
theory Token_Ceiling
  imports Rbac_Facts
begin

text \<open>
  What an API token may hand to anyone else: \<^verbatim>\<open>token_ceiling.go\<close> and the grant checks of
  \<^verbatim>\<open>grant_scope.go\<close>. A ceiling carries the checker, the store the checker holds (present
  whenever \<open>actorCeiling\<close> returns a ceiling) and the request. A session's ceiling covers
  everything.
\<close>

section \<open>The acting token's named scopes\<close>

definition actingToken :: "rbac_checker option \<Rightarrow> request_ctx \<Rightarrow> (auth_store \<times> int) option" where
  "actingToken rc ctx =
     (case checker_store rc of
        None \<Rightarrow> None
      | Some st \<Rightarrow> if tokenContextIncomplete ctx then None else Some (st, GetTokenIDFromContext ctx))"

definition namedScope :: "string list \<Rightarrow> string \<Rightarrow> string set \<times> bool" where
  "namedScope entries wildcard =
     (if entries = [] then ({}, False)
      else if wildcard \<in> set entries then ({}, False)
      else (set entries, True))"

text \<open>\<open>Some (set, restricted)\<close>, or \<open>None\<close> for a scope that cannot be read.\<close>

definition actorMCPScope :: "rbac_checker option \<Rightarrow> request_ctx \<Rightarrow> (mcp_name set \<times> bool) option" where
  "actorMCPScope rc ctx =
     (case actingToken rc ctx of
        None \<Rightarrow> None
      | Some (st, tokenID) \<Rightarrow>
          if tokenID \<le> 0 then Some ({}, False)
          else case GetTokenMCPScope st tokenID of
            Inl _ \<Rightarrow> None
          | Inr names \<Rightarrow>
              let (s, restricted) = namedScope names mcpScopeWildcard in
              if restricted \<or> names \<noteq> [] then Some (s, restricted)
              else case HasTokenMCPScope st tokenID of
                Inl _ \<Rightarrow> None
              | Inr hasRows \<Rightarrow> if hasRows then Some ({}, True) else Some ({}, False))"

definition actorAdminScope :: "rbac_checker option \<Rightarrow> request_ctx \<Rightarrow> (permission set \<times> bool) option" where
  "actorAdminScope rc ctx =
     (case actingToken rc ctx of
        None \<Rightarrow> None
      | Some (st, tokenID) \<Rightarrow>
          if tokenID \<le> 0 then Some ({}, False)
          else case GetTokenAdminScope st tokenID of
            Inl _ \<Rightarrow> None
          | Inr perms \<Rightarrow> Some (namedScope perms AdminPermissionWildcard))"

section \<open>What a principal reaches\<close>

record principal_reach =
  pr_asUser :: bool
  pr_username :: string
  pr_superuser :: bool
  pr_conns :: "(conn_id, access_level) gomap"
  pr_mcp :: "mcp_name set"
  pr_admin :: "permission set"

definition reachEverythingAdminPermissions :: "permission list" where
  "reachEverythingAdminPermissions =
     [''manage_users'', ''manage_groups'', ''manage_permissions'', ''manage_token_scopes'',
      AdminPermissionWildcard]"

definition reachesEverything :: "principal_reach \<Rightarrow> bool" where
  "reachesEverything p \<longleftrightarrow>
     pr_superuser p \<or> (\<exists>perm \<in> set reachEverythingAdminPermissions. perm \<in> pr_admin p)"

definition loadUserReach :: "auth_store \<Rightarrow> int \<Rightarrow> principal_reach option" where
  "loadUserReach st userID =
     (case GetUserByID st userID of Inl _ \<Rightarrow> None | Inr None \<Rightarrow> None
      | Inr (Some user) \<Rightarrow>
     (case GetUserConnectionPrivileges st userID of Inl _ \<Rightarrow> None | Inr conns \<Rightarrow>
     (case GetUserMCPPrivileges st userID of Inl _ \<Rightarrow> None | Inr mcp \<Rightarrow>
     (case GetUserAdminPermissions st userID of Inl _ \<Rightarrow> None | Inr admin \<Rightarrow>
        Some \<lparr>pr_asUser = True, pr_username = usr_username user, pr_superuser = usr_is_superuser user,
          pr_conns = conns, pr_mcp = mcp, pr_admin = admin\<rparr>))))"

definition loadGroupReach :: "auth_store \<Rightarrow> int \<Rightarrow> principal_reach option" where
  "loadGroupReach st groupID =
     (case GetGroupEffectiveConnectionPrivileges st groupID of Inl _ \<Rightarrow> None | Inr connPrivs \<Rightarrow>
     (case GetGroupEffectiveMCPPrivileges st groupID of Inl _ \<Rightarrow> None | Inr mcpNames \<Rightarrow>
     (case GetGroupEffectiveAdminPermissions st groupID of Inl _ \<Rightarrow> None | Inr adminPerms \<Rightarrow>
        Some \<lparr>pr_asUser = False, pr_username = '''', pr_superuser = False,
          pr_conns = gm_of_entries connPrivs, pr_mcp = set mcpNames, pr_admin = set adminPerms\<rparr>)))"

section \<open>The ceiling\<close>

record token_ceiling =
  tc_rc :: "rbac_checker option"
  tc_store :: auth_store
  tc_ctx :: request_ctx
  tc_session :: bool

definition actorCeiling :: "rbac_checker option \<Rightarrow> request_ctx \<Rightarrow> token_ceiling option" where
  "actorCeiling rc ctx =
     (case actingToken rc ctx of
        None \<Rightarrow> None
      | Some (st, tokenID) \<Rightarrow> Some \<lparr>tc_rc = rc, tc_store = st, tc_ctx = ctx, tc_session = (tokenID \<le> 0)\<rparr>)"

text \<open>The loop that lowers a level to the lowest of a scope's entries.\<close>

definition lowerLevel :: "access_level \<Rightarrow> access_level \<Rightarrow> access_level" where
  "lowerLevel entry level = (if accessLevelRank entry < accessLevelRank level then entry else level)"

definition lowestScopedLevel :: "token_ceiling \<Rightarrow> access_level \<Rightarrow> access_level" where
  "lowestScopedLevel c level =
     (let tokenID = GetTokenIDFromContext (tc_ctx c) in
      if tokenID \<le> 0 then level
      else case GetTokenScope (tc_store c) tokenID of
        Inl _ \<Rightarrow> AccessLevelNone
      | Inr None \<Rightarrow> level
      | Inr (Some scope) \<Rightarrow>
          let lowest = fold lowerLevel (map sc_access_level (ts_connections scope)) level in
          if accessLevelRank lowest = 0 then AccessLevelNone else lowest)"

definition allConnectionsLevel :: "token_ceiling \<Rightarrow> access_level" where
  "allConnectionsLevel c =
     (case (if IsSuperuserFromContext (tc_ctx c) then Inr AccessLevelReadWrite
            else let userID = GetUserIDFromContext (tc_ctx c) in
              if userID \<noteq> 0
              then res_bind (GetUserConnectionPrivileges (tc_store c) userID)
                     (\<lambda>privs. Inr (gm_get AccessLevelNone privs ConnectionIDAll))
              else Inr AccessLevelNone) of
        Inl _ \<Rightarrow> AccessLevelNone
      | Inr ownerLevel \<Rightarrow>
          if accessLevelRank ownerLevel = 0 then AccessLevelNone
          else (case applyConnectionTokenScope (tc_store c) (tc_ctx c) ConnectionIDAll ownerLevel of
                  (inScope, level) \<Rightarrow> if \<not> inScope then AccessLevelNone else lowestScopedLevel c level))"

definition ceilingLevel :: "token_ceiling \<Rightarrow> conn_id \<Rightarrow> access_level" where
  "ceilingLevel c connectionID =
     (if tc_session c then AccessLevelReadWrite
      else if connectionID = ConnectionIDAll then allConnectionsLevel c
      else case CanAccessConnection (tc_rc c) (tc_ctx c) connectionID of
        (ok, level) \<Rightarrow> if \<not> ok then AccessLevelNone else level)"

definition coversConnection :: "token_ceiling \<Rightarrow> conn_id \<Rightarrow> access_level \<Rightarrow> bool" where
  "coversConnection c connectionID level \<longleftrightarrow>
     (let want = accessLevelRank level in
      want > 0 \<and> accessLevelRank (ceilingLevel c connectionID) \<ge> want)"

definition ownerHolds :: "token_ceiling \<Rightarrow> string \<Rightarrow> (int \<Rightarrow> (string set) res) \<Rightarrow> bool" where
  "ownerHolds c wildcard holds =
     (if IsSuperuserFromContext (tc_ctx c) then True
      else let userID = GetUserIDFromContext (tc_ctx c) in
        if userID = 0 then False
        else case holds userID of Inl _ \<Rightarrow> False | Inr granted \<Rightarrow> wildcard \<in> granted)"

definition holdsAllMCP :: "token_ceiling \<Rightarrow> bool" where
  "holdsAllMCP c =
     (if tc_session c then True
      else case actorMCPScope (tc_rc c) (tc_ctx c) of
        None \<Rightarrow> False
      | Some (_, restricted) \<Rightarrow>
          \<not> restricted \<and> ownerHolds c mcpScopeWildcard (GetUserMCPPrivileges (tc_store c)))"

definition holdsAllAdmin :: "token_ceiling \<Rightarrow> bool" where
  "holdsAllAdmin c =
     (if tc_session c then True
      else case actorAdminScope (tc_rc c) (tc_ctx c) of
        None \<Rightarrow> False
      | Some (_, restricted) \<Rightarrow>
          \<not> restricted \<and> ownerHolds c AdminPermissionWildcard (GetUserAdminPermissions (tc_store c)))"

definition coversMCP :: "token_ceiling \<Rightarrow> mcp_name \<Rightarrow> bool" where
  "coversMCP c name =
     (if tc_session c then True
      else if name = mcpScopeWildcard then holdsAllMCP c
      else CanAccessMCPItem (tc_rc c) (tc_ctx c) name)"

definition coversAdmin :: "token_ceiling \<Rightarrow> permission \<Rightarrow> bool" where
  "coversAdmin c perm =
     (if tc_session c then True
      else if perm = AdminPermissionWildcard then holdsAllAdmin c
      else HasAdminPermission (tc_rc c) (tc_ctx c) perm)"

definition holdsEverything :: "token_ceiling \<Rightarrow> bool" where
  "holdsEverything c \<longleftrightarrow>
     coversConnection c ConnectionIDAll AccessLevelReadWrite \<and> holdsAllMCP c \<and> holdsAllAdmin c"

definition holdsSuperuser :: "token_ceiling \<Rightarrow> bool" where
  "holdsSuperuser c \<longleftrightarrow> tc_session c \<or> (IsSuperuserFromContext (tc_ctx c) \<and> holdsEverything c)"

section \<open>Comparing a reach with the ceiling\<close>

definition ownedClusterGroupsCovered :: "token_ceiling \<Rightarrow> string \<Rightarrow> connection_lister \<Rightarrow> bool" where
  "ownedClusterGroupsCovered c username lister =
     (if username = '''' then True
      else case GetOwnedClusterGroupConnectionIDs lister of
        None \<Rightarrow> False
      | Some groups \<Rightarrow>
          (case groups username of
             Inl _ \<Rightarrow> False
           | Inr members \<Rightarrow> \<forall>m \<in> set members. coversConnection c m AccessLevelReadWrite))"

definition listedConnectionCovered :: "token_ceiling \<Rightarrow> string \<Rightarrow> visibility_info \<Rightarrow> bool" where
  "listedConnectionCovered c username info =
     (if username \<noteq> '''' \<and> vi_owner_username info = username
      then coversConnection c (vi_id info) AccessLevelReadWrite
      else if checker_lookup (tc_rc c) \<noteq> None \<and> \<not> vi_is_shared info then True
      else case IsConnectionAssignedToAnyGroup (tc_store c) (vi_id info) of
        Inl _ \<Rightarrow> False
      | Inr restricted \<Rightarrow>
          if restricted then True else coversConnection c (vi_id info) AccessLevelReadWrite)"

definition unrestrictedReachCovered :: "token_ceiling \<Rightarrow> string \<Rightarrow> connection_lister option \<Rightarrow> bool" where
  "unrestrictedReachCovered c username lister =
     (case lister of
        None \<Rightarrow> False
      | Some l \<Rightarrow>
          if \<not> ownedClusterGroupsCovered c username l then False
          else case GetAllConnections l of
            Inl _ \<Rightarrow> False
          | Inr conns \<Rightarrow> \<forall>info \<in> set conns. listedConnectionCovered c username info)"

definition coversReachConnections :: "token_ceiling \<Rightarrow> principal_reach \<Rightarrow> connection_lister option \<Rightarrow> bool" where
  "coversReachConnections c p lister =
     (if coversConnection c ConnectionIDAll AccessLevelReadWrite then True
      else if pr_superuser p \<or> pr_admin p \<noteq> {} then False
      else if \<exists>(connectionID, level) \<in> set (pr_conns p). \<not> coversConnection c connectionID level then False
      else if \<not> pr_asUser p then True
      else unrestrictedReachCovered c (pr_username p) lister)"

definition coversReachMCP :: "token_ceiling \<Rightarrow> principal_reach \<Rightarrow> bool" where
  "coversReachMCP c p =
     (if holdsAllMCP c then True
      else if reachesEverything p \<or> mcpScopeWildcard \<in> pr_mcp p then False
      else if \<exists>name \<in> pr_mcp p. \<not> coversMCP c name then False
      else if \<not> pr_asUser p then True
      else case ListMCPPrivileges (tc_store c) of
        Inl _ \<Rightarrow> False
      | Inr privileges \<Rightarrow> \<forall>priv \<in> set privileges. mpi_is_public priv \<longrightarrow> coversMCP c (mpi_identifier priv))"

definition coversReachAdmin :: "token_ceiling \<Rightarrow> principal_reach \<Rightarrow> bool" where
  "coversReachAdmin c p =
     (if holdsAllAdmin c then True
      else if reachesEverything p then False
      else \<forall>perm \<in> pr_admin p. coversAdmin c perm)"

definition coversReach :: "token_ceiling \<Rightarrow> principal_reach \<Rightarrow> connection_lister option \<Rightarrow> bool" where
  "coversReach c p lister =
     (if pr_superuser p \<and> \<not> holdsSuperuser c then False
      else coversReachConnections c p lister \<and> coversReachMCP c p \<and> coversReachAdmin c p)"

end
