(* ===== verification/Grant_Scope.thy ===== *)
theory Grant_Scope
  imports Token_Ceiling
begin

text \<open>
  The grant checks of \<^verbatim>\<open>grant_scope.go\<close> and the lift guard of \<^verbatim>\<open>privileges.go\<close>: whether
  the caller may grant or revoke a connection, an MCP item or an admin permission, add a
  member to a group, or act on a user. The lemmas connect the ceiling with the access
  checks: whatever a token may grant, the token itself can do.
\<close>

section \<open>Lift guards\<close>

text \<open>A nil guard is \<open>None\<close>.\<close>

record lift_guard =
  lg_all :: bool
  lg_allowed :: "conn_id set"

definition AllowAllLifts :: lift_guard where
  "AllowAllLifts = \<lparr>lg_all = True, lg_allowed = {}\<rparr>"

definition AllowLifts :: "conn_id list \<Rightarrow> lift_guard" where
  "AllowLifts connectionIDs = \<lparr>lg_all = False, lg_allowed = set connectionIDs\<rparr>"

definition lift_allows :: "lift_guard option \<Rightarrow> conn_id \<Rightarrow> bool" where
  "lift_allows g connectionID =
     (case g of None \<Rightarrow> True | Some guard \<Rightarrow> lg_all guard \<or> connectionID \<in> lg_allowed guard)"

definition liftsConnectionRestriction :: "auth_store \<Rightarrow> int \<Rightarrow> conn_id \<Rightarrow> bool res" where
  "liftsConnectionRestriction st groupID connectionID =
     (if connectionID = ConnectionIDAll then Inr False
      else let rows = filter (\<lambda>(g, c, l). c = connectionID) (connection_privileges st) in
        res_bind (run_read st (RLiftCount groupID connectionID)
            (length rows, length (filter (\<lambda>(g, c, l). g \<noteq> groupID) rows)))
          (\<lambda>(before, after). Inr (before > 0 \<and> after = 0)))"

definition guardLiftTx :: "auth_store \<Rightarrow> lift_guard option \<Rightarrow> int \<Rightarrow> conn_id \<Rightarrow> unit res" where
  "guardLiftTx st guard groupID connectionID =
     (if lift_allows guard connectionID then Inr ()
      else res_bind (liftsConnectionRestriction st groupID connectionID)
             (\<lambda>lifts. if lifts then Inl ErrRevokeLiftsRestriction else Inr ()))"

section \<open>The grant checks\<close>

definition ConnectionReadableInTokenScope :: "rbac_checker option \<Rightarrow> request_ctx \<Rightarrow> conn_id \<Rightarrow> bool" where
  "ConnectionReadableInTokenScope rc ctx connectionID =
     (case actingToken rc ctx of
        None \<Rightarrow> False
      | Some (st, _) \<Rightarrow>
          (case applyConnectionTokenScope st ctx connectionID AccessLevelRead of
             (inScope, level) \<Rightarrow> inScope \<and> level = AccessLevelRead))"

definition CanGrantConnection :: "rbac_checker option \<Rightarrow> request_ctx \<Rightarrow> conn_id \<Rightarrow> access_level \<Rightarrow> bool" where
  "CanGrantConnection rc ctx connectionID level =
     (case actorCeiling rc ctx of None \<Rightarrow> False | Some c \<Rightarrow> coversConnection c connectionID level)"

definition CanRevokeConnection :: "rbac_checker option \<Rightarrow> request_ctx \<Rightarrow> int \<Rightarrow> conn_id \<Rightarrow> bool" where
  "CanRevokeConnection rc ctx groupID connectionID =
     (case actorCeiling rc ctx of
        None \<Rightarrow> False
      | Some c \<Rightarrow> tc_session c \<or> coversConnection c connectionID AccessLevelRead)"

definition ConnectionLiftGuard :: "rbac_checker option \<Rightarrow> request_ctx \<Rightarrow> conn_id list \<Rightarrow> lift_guard" where
  "ConnectionLiftGuard rc ctx connectionIDs =
     (case actorCeiling rc ctx of
        None \<Rightarrow> AllowLifts []
      | Some c \<Rightarrow>
          if tc_session c then AllowAllLifts
          else AllowLifts (filter (\<lambda>i. coversConnection c i AccessLevelReadWrite) connectionIDs))"

definition connectionsReadable :: "token_ceiling \<Rightarrow> int \<Rightarrow> bool" where
  "connectionsReadable c groupID =
     (case GetGroupEffectiveConnectionPrivileges (tc_store c) groupID of
        Inl _ \<Rightarrow> False
      | Inr privs \<Rightarrow> \<forall>(connectionID, level) \<in> set privs. coversConnection c connectionID AccessLevelRead)"

definition CanRemoveGroupMember :: "rbac_checker option \<Rightarrow> request_ctx \<Rightarrow> int \<Rightarrow> bool" where
  "CanRemoveGroupMember rc ctx groupID =
     (case actorCeiling rc ctx of
        None \<Rightarrow> False | Some c \<Rightarrow> tc_session c \<or> connectionsReadable c groupID)"

definition CanDeleteGroup :: "rbac_checker option \<Rightarrow> request_ctx \<Rightarrow> int \<Rightarrow> bool" where
  "CanDeleteGroup rc ctx groupID =
     (case actorCeiling rc ctx of
        None \<Rightarrow> False | Some c \<Rightarrow> tc_session c \<or> connectionsReadable c groupID)"

text \<open>\<open>GroupDeleteLiftGuard\<close> reads the store before it builds a ceiling: \<open>None\<close> is the nil
  dereference of a checker without a store.\<close>

definition GroupDeleteLiftGuard :: "rbac_checker option \<Rightarrow> request_ctx \<Rightarrow> int \<Rightarrow> lift_guard option" where
  "GroupDeleteLiftGuard rc ctx groupID =
     (case checker_store rc of
        None \<Rightarrow> None
      | Some st \<Rightarrow>
          Some (case ListGroupConnectionPrivileges st groupID of
                  Inl _ \<Rightarrow> AllowLifts []
                | Inr own \<Rightarrow> ConnectionLiftGuard rc ctx (map fst own)))"

definition CanGrantMCPItem :: "rbac_checker option \<Rightarrow> request_ctx \<Rightarrow> mcp_name \<Rightarrow> bool" where
  "CanGrantMCPItem rc ctx name =
     (case actorCeiling rc ctx of None \<Rightarrow> False | Some c \<Rightarrow> coversMCP c name)"

definition no_reach :: principal_reach where
  "no_reach = \<lparr>pr_asUser = False, pr_username = '''', pr_superuser = False, pr_conns = [], pr_mcp = {},
     pr_admin = {}\<rparr>"

definition CanGrantAdminPermission :: "rbac_checker option \<Rightarrow> request_ctx \<Rightarrow> permission \<Rightarrow> bool" where
  "CanGrantAdminPermission rc ctx perm =
     (case actorCeiling rc ctx of
        None \<Rightarrow> False | Some c \<Rightarrow> coversReach c (no_reach\<lparr>pr_admin := {perm}\<rparr>) None)"

definition TokenHoldsEverything :: "rbac_checker option \<Rightarrow> request_ctx \<Rightarrow> bool" where
  "TokenHoldsEverything rc ctx =
     (case actorCeiling rc ctx of None \<Rightarrow> False | Some c \<Rightarrow> holdsSuperuser c)"

definition UserWithinTokenScope ::
  "rbac_checker option \<Rightarrow> request_ctx \<Rightarrow> int \<Rightarrow> connection_lister option \<Rightarrow> bool" where
  "UserWithinTokenScope rc ctx userID lister =
     (case actorCeiling rc ctx of
        None \<Rightarrow> False
      | Some c \<Rightarrow>
          if tc_session c then True
          else case loadUserReach (tc_store c) userID of None \<Rightarrow> False | Some reach \<Rightarrow> coversReach c reach lister)"

definition NewUserWithinTokenScope ::
  "rbac_checker option \<Rightarrow> request_ctx \<Rightarrow> string \<Rightarrow> connection_lister option \<Rightarrow> bool" where
  "NewUserWithinTokenScope rc ctx username lister =
     (case actorCeiling rc ctx of
        None \<Rightarrow> False
      | Some c \<Rightarrow> coversReach c (no_reach\<lparr>pr_asUser := True, pr_username := username\<rparr>) lister)"

definition GroupWithinTokenScope :: "rbac_checker option \<Rightarrow> request_ctx \<Rightarrow> int \<Rightarrow> bool" where
  "GroupWithinTokenScope rc ctx groupID =
     (case actorCeiling rc ctx of
        None \<Rightarrow> False
      | Some c \<Rightarrow>
          if tc_session c then True
          else case loadGroupReach (tc_store c) groupID of None \<Rightarrow> False | Some reach \<Rightarrow> coversReach c reach None)"

section \<open>The ceiling against the access checks\<close>

lemma actorCeiling_Some:
  "actorCeiling rc ctx = Some c \<longleftrightarrow>
     (\<exists>st. checker_store rc = Some st \<and> \<not> tokenContextIncomplete ctx \<and>
       c = \<lparr>tc_rc = rc, tc_store = st, tc_ctx = ctx, tc_session = (GetTokenIDFromContext ctx \<le> 0)\<rparr>)"
  by (auto simp: actorCeiling_def actingToken_def split: option.splits if_splits)

lemma fold_lowerLevel_le:
  "accessLevelRank (fold lowerLevel ls l) \<le> accessLevelRank l"
  "l' \<in> set ls \<Longrightarrow> accessLevelRank (fold lowerLevel ls l) \<le> accessLevelRank l'"
proof (induction ls arbitrary: l)
  case (Cons x ls)
  have le: "accessLevelRank (lowerLevel x l) \<le> accessLevelRank l" "accessLevelRank (lowerLevel x l) \<le> accessLevelRank x"
    for l by (auto simp: lowerLevel_def)
  { case 1 show ?case using Cons.IH(1)[of "lowerLevel x l"] le(1)[of l] by simp
  next
    case 2 then show ?case
      using Cons.IH(1)[of "lowerLevel x l"] Cons.IH(2)[of "lowerLevel x l"] le(2)[of l] by auto
  }
qed simp_all

text \<open>The datastore behind the sharing lookup knows the connection.\<close>

definition connection_known :: "rbac_checker option \<Rightarrow> conn_id \<Rightarrow> bool" where
  "connection_known rc conn = (case checker_lookup rc of None \<Rightarrow> True | Some lookup \<Rightarrow> is_ok (lookup conn))"

text \<open>The level at which the owner holds the grant on all connections.\<close>

definition owner_all_level :: "auth_store \<Rightarrow> request_ctx \<Rightarrow> access_level" where
  "owner_all_level st ctx =
     (if IsSuperuserFromContext ctx then AccessLevelReadWrite
      else if GetUserIDFromContext ctx \<noteq> 0
      then gm_get AccessLevelNone (user_conns st (GetUserIDFromContext ctx)) ConnectionIDAll
      else AccessLevelNone)"

lemma allConnectionsLevel_eq:
  assumes "healthy (tc_store c)"
  shows "allConnectionsLevel c =
    (if accessLevelRank (owner_all_level (tc_store c) (tc_ctx c)) = 0 then AccessLevelNone
     else (case applyConnectionTokenScope (tc_store c) (tc_ctx c) ConnectionIDAll
                  (owner_all_level (tc_store c) (tc_ctx c)) of
             (inScope, level) \<Rightarrow> if \<not> inScope then AccessLevelNone else lowestScopedLevel c level))"
  using user_conns.available[OF assms]
  by (simp add: allConnectionsLevel_def owner_all_level_def Let_def)

lemma gm_get_rank_pos:
  "accessLevelRank (gm_get AccessLevelNone m k) > 0 \<Longrightarrow> map_of m k = Some (gm_get AccessLevelNone m k)"
  by (auto simp: gm_get_def split: option.splits)

lemma owner_all_level_base:
  assumes "healthy st" "store_wf st" and "accessLevelRank (owner_all_level st ctx) > 0"
    and exists: "connection_known rc conn"
  shows "\<exists>b. base_conn rc st ctx conn = Some b \<and> accessLevelRank (owner_all_level st ctx) \<le> accessLevelRank b"
proof (cases "IsSuperuserFromContext ctx")
  case True
  then show ?thesis using exists by (auto simp: connection_known_def base_conn_def owner_all_level_def split: option.splits)
next
  case False
  let ?uid = "GetUserIDFromContext ctx" and ?privs = "user_conns st (GetUserIDFromContext ctx)"
  from False assms(3) have uid: "?uid \<noteq> 0" and w: "owner_all_level st ctx = gm_get AccessLevelNone ?privs ConnectionIDAll"
    by (auto simp: owner_all_level_def split: if_splits)
  from assms(3) w have wild: "map_of ?privs ConnectionIDAll = Some (owner_all_level st ctx)"
    using gm_get_rank_pos by metis
  have privs: "GetUserConnectionPrivileges st ?uid = Inr ?privs" using user_conns.available[OF assms(1)] by simp
  obtain r where r: "resolveConnectionAccess ?privs conn = (r, True)"
    using resolve_ok_iff[of ?privs conn] wild by (metis option.distinct(1) prod.collapse)
  have "accessLevelRank (owner_all_level st ctx) \<le> accessLevelRank r"
    using resolve_rank[OF _ r] wild user_conns_valid[OF assms(2) privs] by fastforce
  moreover have "accessLevelRank (owner_all_level st ctx) \<le> 2"
    by (auto simp: accessLevelRank_def)
  ultimately have rule: "\<exists>b. connectionAccessRule facts ?privs conn = (b, True) \<and>
      accessLevelRank (owner_all_level st ctx) \<le> accessLevelRank b" for facts
    using r by (auto simp: connectionAccessRule_def)
  obtain shared owner where lk:
      "(case checker_lookup rc of None \<Rightarrow> Inr (True, '''') | Some lookup \<Rightarrow> lookup conn) = (Inr (shared, owner) :: (bool \<times> string) res)"
    using exists by (cases "checker_lookup rc") (fastforce simp: is_ok_iff connection_known_def)+
  obtain restricted where "IsConnectionAssignedToAnyGroup st conn = Inr restricted"
    using assigned.available[OF assms(1)] by simp
  with False uid privs lk rule[of "\<lparr>af_owned = checker_lookup rc \<noteq> None \<and> GetUsernameFromContext ctx \<noteq> '''' \<and>
      owner = GetUsernameFromContext ctx, af_shared = shared, af_restricted = restricted\<rparr>"]
  show ?thesis by (auto simp: base_conn_def)
qed

lemma conn_scope_answer_wildcard:
  assumes "conn_scope_answer st tid ConnectionIDAll = (True, s)"
  shows "\<exists>s'. conn_scope_answer st tid conn = (True, s') \<and>
    (s' = AccessLevelNone \<or> (\<exists>sc \<in> set (scope_conn_rows st tid). sc_access_level sc = s'))"
  using assms conn_scope_level_SomeD[of st tid]
  by (cases "conn_scope_level st tid conn") (fastforce simp: conn_scope_answer_def split: if_splits option.splits)+

text \<open>
  The level a token holds every connection at is a lower bound for the level it holds any
  one connection at, as long as the connection exists.
\<close>

lemma allConnectionsLevel_le:
  assumes "actorCeiling rc ctx = Some c" "\<not> tc_session c" and "healthy (tc_store c)" "store_wf (tc_store c)"
    and exists: "connection_known rc conn"
    and pos: "accessLevelRank (allConnectionsLevel c) > 0"
  shows "\<exists>l. CanAccessConnection rc ctx conn = (True, l) \<and>
    accessLevelRank (allConnectionsLevel c) \<le> accessLevelRank l"
proof -
  let ?tid = "GetTokenIDFromContext ctx" and ?low = "allConnectionsLevel c"
  from assms(1,2) obtain st where st: "checker_store rc = Some st" "\<not> tokenContextIncomplete ctx"
    and c: "tc_rc c = rc" "tc_store c = st" "tc_ctx c = ctx" and tid: "?tid > 0"
    by (auto simp: actorCeiling_Some)
  let ?w = "owner_all_level st ctx" and ?rows = "scope_conn_rows st ?tid"
  have h: "healthy st" and wf: "store_wf st" using assms(3,4) c by simp_all
  have scope: "IsConnectionInTokenScope st ?tid d = when_token st ?tid (conn_scope_answer st ?tid d)" for d
    using scope_conn.available[OF h, of "(?tid, d)"] by simp
  have whole: "GetTokenScope st ?tid = when_token st ?tid (token_scope_of st ?tid)"
    using whole_scope.available[OF h] by simp
  from pos have w: "accessLevelRank ?w > 0"
    by (auto simp: allConnectionsLevel_eq[OF assms(3)] c split: if_splits)
  from pos w tid obtain s where tok: "token_exists st ?tid" and s: "conn_scope_answer st ?tid ConnectionIDAll = (True, s)"
    and low: "?low = lowestScopedLevel c (applyTokenCeiling s ?w)"
    by (auto simp: allConnectionsLevel_eq[OF assms(3)] c applyConnectionTokenScope_def Let_def scope
        when_token_def split: if_splits prod.splits)
  have "valid_level ?w" using w by (simp add: valid_level_rank)
  then have low_w: "accessLevelRank ?low \<le> accessLevelRank ?w"
    using applyTokenCeiling_le[of ?w s] fold_lowerLevel_le(1)[of _ "applyTokenCeiling s ?w"] tid tok
    unfolding low lowestScopedLevel_def c
    by (auto simp: whole Let_def when_token_def split: option.splits intro: order_trans)
  have low_row: "accessLevelRank ?low \<le> accessLevelRank (sc_access_level sc)" if "sc \<in> set ?rows" for sc
    using that fold_lowerLevel_le(2)[of "sc_access_level sc" "map sc_access_level ?rows" "applyTokenCeiling s ?w"]
      tid tok unfolding low lowestScopedLevel_def c
    by (auto simp: whole Let_def when_token_def token_scope_of_def split: if_splits)
  obtain b where b: "base_conn rc st ctx conn = Some b" "accessLevelRank ?w \<le> accessLevelRank b"
    using owner_all_level_base[OF h wf w exists] by blast
  have vb: "valid_level b" using base_conn_valid[OF wf b(1)] .
  obtain s' where ans: "conn_scope_answer st ?tid conn = (True, s')"
    and s': "s' = AccessLevelNone \<or> (\<exists>sc \<in> set ?rows. sc_access_level sc = s')"
    using conn_scope_answer_wildcard[OF s] by blast
  have "accessLevelRank ?low \<le> accessLevelRank (applyTokenCeiling s' b)"
  proof (cases "s' = AccessLevelNone")
    case False
    then have "accessLevelRank ?low \<le> accessLevelRank s'" using s' low_row by blast
    moreover from this pos have "valid_level s'" by (simp add: valid_level_rank)
    ultimately show ?thesis using low_w b(2) vb by (simp add: applyTokenCeiling_min)
  qed (use low_w b(2) vb in simp)
  moreover have "applyConnectionTokenScope st ctx conn b = (True, applyTokenCeiling s' b)"
    using tid tok scope[of conn] ans by (simp add: applyConnectionTokenScope_def when_token_def)
  ultimately show ?thesis using st b(1) by (simp add: CanAccessConnection_split)
qed

lemma valid_level_covered:
  "valid_level l \<Longrightarrow> coversConnection c d l \<longleftrightarrow> accessLevelRank l \<le> accessLevelRank (ceilingLevel c d)"
  by (auto simp: coversConnection_def valid_level_rank)

lemma covers_all_covers:
  assumes "actorCeiling rc ctx = Some c" "\<not> tc_session c" "healthy (tc_store c)" "store_wf (tc_store c)"
    and "coversConnection c ConnectionIDAll l" "connection_known rc conn" "accessLevelRank l' \<le> accessLevelRank l"
    "valid_level l'"
  shows "coversConnection c conn l'"
proof (cases "conn = ConnectionIDAll")
  case True
  then show ?thesis using assms(5,7,8) by (auto simp: coversConnection_def valid_level_rank)
next
  case False
  have "accessLevelRank l \<le> accessLevelRank (allConnectionsLevel c)" "accessLevelRank (allConnectionsLevel c) > 0"
    using assms(2,5) by (auto simp: coversConnection_def ceilingLevel_def Let_def)
  with allConnectionsLevel_le[OF assms(1-4,6)] False assms(1,2,7,8) show ?thesis
    by (auto simp: coversConnection_def ceilingLevel_def valid_level_rank actorCeiling_Some)
qed

lemma holdsAllAdmin_has:
  assumes "actorCeiling rc ctx = Some c" "\<not> tc_session c" "healthy (tc_store c)" "holdsAllAdmin c"
  shows "HasAdminPermission rc ctx perm"
  using assms admin_scope.available[OF assms(3), of "GetTokenIDFromContext ctx"]
    scope_admin.available[OF assms(3), of "(GetTokenIDFromContext ctx, perm)"]
  by (auto simp: actorCeiling_Some holdsAllAdmin_def actorAdminScope_def actingToken_def ownerHolds_def Let_def
      HasAdminPermission_split base_admin_def admin_scope_check_def when_token_def namedScope_def
      admin_in_scope_def split: option.splits sum.splits if_splits)

text \<open>No registered MCP item is called by the name that stands for all of them.\<close>

definition no_wildcard_item :: "auth_store \<Rightarrow> bool" where
  "no_wildcard_item st \<longleftrightarrow> (\<forall>m \<in> set (mcp_privilege_identifiers st). mpi_identifier m \<noteq> mcpScopeWildcard)"

lemma actorMCPScope_unrestricted:
  assumes "healthy st" "no_wildcard_item st" "checker_store rc = Some st" "GetTokenIDFromContext ctx > 0"
    and "actorMCPScope rc ctx = Some (s, False)"
  shows "token_exists st (GetTokenIDFromContext ctx) \<and> mcp_in_scope st (GetTokenIDFromContext ctx) name"
proof -
  let ?tid = "GetTokenIDFromContext ctx"
  have "GetTokenMCPScope st ?tid = when_token st ?tid
      (if MCPPrivilegeIDWildcard \<in> set (scope_mcp_rows st ?tid) then [mcpScopeWildcard] else sort (scope_mcp_names st ?tid))"
    "HasTokenMCPScope st ?tid = when_token st ?tid (scope_mcp_rows st ?tid \<noteq> [])"
    using mcp_scope_names.available[OF assms(1)] has_mcp_scope.available[OF assms(1)] by simp_all
  then show ?thesis using assms
    by (auto simp: actorMCPScope_def actingToken_def when_token_def namedScope_def mcp_in_scope_def Let_def
        scope_mcp_names_def no_wildcard_item_def split: if_splits option.splits prod.splits)
qed

lemma holdsAllMCP_covers:
  assumes "actorCeiling rc ctx = Some c" "\<not> tc_session c" "healthy (tc_store c)" "no_wildcard_item (tc_store c)"
    and "holdsAllMCP c"
    and "m \<in> set (mcp_privilege_identifiers (tc_store c))"
  shows "CanAccessMCPItem rc ctx (mpi_identifier m)"
proof -
  let ?tid = "GetTokenIDFromContext ctx" and ?name = "mpi_identifier m"
  from assms(1,2) obtain st where st: "checker_store rc = Some st" "\<not> tokenContextIncomplete ctx" "?tid > 0"
    and c: "tc_rc c = rc" "tc_store c = st" "tc_ctx c = ctx"
    by (auto simp: actorCeiling_Some)
  from assms(2,5) obtain s where s: "actorMCPScope rc ctx = Some (s, False)"
    and own: "ownerHolds c mcpScopeWildcard (GetUserMCPPrivileges st)"
    by (auto simp: holdsAllMCP_def c split: option.splits)
  have h: "healthy st" using assms(3) c by simp
  have "IsMCPItemInTokenScope st ?tid ?name = Inr True"
    using actorMCPScope_unrestricted[OF h _ st(1,3) s, of ?name] assms(4) c
      scope_mcp.available[OF h, of "(?tid, ?name)"] by (simp add: when_token_def)
  moreover have "filter (\<lambda>m. mpi_identifier m = ?name) (mcp_privilege_identifiers st) \<noteq> []"
    using assms(6) c by (auto simp: filter_empty_conv)
  then obtain row where "first_row (filter (\<lambda>m. mpi_identifier m = ?name) (mcp_privilege_identifiers st)) = Some row"
    using first_row_None by fastforce
  then have "IsPrivilegePublic st ?name = Inr (mpi_is_public row, True)"
    using public_privilege.available[OF h, of ?name] by simp
  ultimately show ?thesis
    using st own by (auto simp: CanAccessMCPItem_split base_mcp_def mcp_scope_check_def ownerHolds_def c Let_def
        split: if_splits sum.splits)
qed

section \<open>Joining a group\<close>

definition add_member :: "int \<Rightarrow> int \<Rightarrow> auth_store \<Rightarrow> auth_store" where
  "add_member gid uid st = st\<lparr>group_memberships :=
     \<lparr>gm_parent_group_id = gid, gm_member_user_id = Some uid, gm_member_group_id = None\<rparr> # group_memberships st\<rparr>"

lemma add_member_groups:
  "set (user_groups_of (add_member gid uid st) uid) = set (user_groups_of st uid) \<union> set (ancestor_groups st gid)"
proof -
  have "parent_edges (add_member gid uid st) = parent_edges st"
    by (simp add: parent_edges_def add_member_def map_filter_def)
  then have "ancestor_groups (add_member gid uid st) g = ancestor_groups st g" for g
    by (simp add: ancestor_groups_def)
  moreover have "direct_groups (add_member gid uid st) uid = gid # direct_groups st uid"
    by (simp add: direct_groups_def add_member_def)
  ultimately show ?thesis by (auto simp: user_groups_ancestors)
qed

lemma add_member_tables [simp]:
  "connection_privileges (add_member gid uid st) = connection_privileges st"
  "mcp_privilege_identifiers (add_member gid uid st) = mcp_privilege_identifiers st"
  "group_mcp_privileges (add_member gid uid st) = group_mcp_privileges st"
  "group_admin_permissions (add_member gid uid st) = group_admin_permissions st"
  "store_wf (add_member gid uid st) \<longleftrightarrow> store_wf st"
  by (simp_all add: add_member_def store_wf_def)

lemma highest_grant_Un:
  assumes "set rows = set rows1 \<union> set rows2" "highest_grant rows c = Some l"
  shows "highest_grant rows1 c = Some l \<or> highest_grant rows2 c = Some l"
  using assms by (auto simp: highest_grant_def split: if_splits)

lemma add_member_conns:
  assumes "store_wf st" and "map_of (user_conns (add_member gid uid st) uid) c = Some l"
  shows "map_of (user_conns st uid) c = Some l \<or> map_of (group_conns st gid) c = Some l"
proof -
  have "set (conn_rows_of (add_member gid uid st) (user_groups_of (add_member gid uid st) uid)) =
      set (conn_rows_of st (user_groups_of st uid)) \<union> set (conn_rows_of st (ancestor_groups st gid))"
    by (auto simp: set_conn_rows_of add_member_groups)
  from highest_grant_Un[OF this] assms show ?thesis by (simp add: map_of_user_conns map_of_group_conns)
qed

lemma add_member_names:
  "user_mcp (add_member gid uid st) uid = user_mcp st uid \<union> set (group_mcp_list st gid)"
  "user_admin (add_member gid uid st) uid = user_admin st uid \<union> set (group_admin_list st gid)"
  by (auto simp: user_mcp_eq user_admin_eq add_member_groups set_group_mcp_list set_group_admin_list
      group_mcp_set_eq group_admin_rows_def)

section \<open>Properties\<close>

lemma group_reach:
  assumes "healthy st"
  shows "loadGroupReach st gid = Some \<lparr>pr_asUser = False, pr_username = '''', pr_superuser = False,
    pr_conns = gm_of_entries (group_conns st gid), pr_mcp = set (group_mcp_list st gid),
    pr_admin = set (group_admin_list st gid)\<rparr>"
  using group_conns.available[OF assms, of gid] group_mcp.available[OF assms, of gid]
    group_admin.available[OF assms, of gid]
  by (simp add: loadGroupReach_def)

lemma coversAdmin_has:
  assumes "actorCeiling rc ctx = Some c" "\<not> tc_session c" "healthy (tc_store c)" "coversAdmin c perm"
    and "perm = p \<or> perm = AdminPermissionWildcard"
  shows "HasAdminPermission rc ctx p"
  using assms holdsAllAdmin_has[OF assms(1-3)]
  by (auto simp: coversAdmin_def actorCeiling_Some split: if_splits)

text \<open>Each grant a group confers is one a token may make when the group is within its ceiling.\<close>

lemma group_within_covers:
  assumes "checker_store rc = Some st" "healthy st" "store_wf st" "no_wildcard_item st"
    and "GetTokenIDFromContext ctx > 0" and "GroupWithinTokenScope rc ctx gid"
  shows "connection_known rc conn \<Longrightarrow> map_of (group_conns st gid) conn = Some l \<Longrightarrow> CanGrantConnection rc ctx conn l"
    and "map_of (group_conns st gid) ConnectionIDAll = Some l \<Longrightarrow> CanGrantConnection rc ctx ConnectionIDAll l"
    and "name \<in> set (group_mcp_list st gid) \<Longrightarrow> CanGrantMCPItem rc ctx name"
    and "perm \<in> set (group_admin_list st gid) \<Longrightarrow> \<exists>c. actorCeiling rc ctx = Some c \<and> coversAdmin c perm"
proof -
  define reach where "reach = \<lparr>pr_asUser = False, pr_username = '''', pr_superuser = False,
    pr_conns = gm_of_entries (group_conns st gid), pr_mcp = set (group_mcp_list st gid),
    pr_admin = set (group_admin_list st gid)\<rparr>"
  from assms(6) obtain c where c: "actorCeiling rc ctx = Some c"
    by (auto simp: GroupWithinTokenScope_def split: option.splits)
  then have tc: "tc_store c = st" "\<not> tc_session c" "tc_rc c = rc" "tc_ctx c = ctx"
    using assms(1,5) by (auto simp: actorCeiling_Some)
  have "loadGroupReach st gid = Some reach" unfolding reach_def by (rule group_reach[OF assms(2)])
  then have cov: "coversReach c reach None" using assms(6) c tc by (simp add: GroupWithinTokenScope_def)
  have h: "healthy (tc_store c)" "store_wf (tc_store c)" "no_wildcard_item (tc_store c)" using assms(2-4) tc by simp_all
  have "CanGrantConnection rc ctx d l" if d: "map_of (group_conns st gid) d = Some l" "d = ConnectionIDAll \<or> connection_known rc d" for d
  proof -
    have l: "valid_level l" using d(1) highest_grant_valid by (auto simp: map_of_group_conns[OF assms(3)])
    have "(d, l) \<in> set (pr_conns reach)"
      using d(1) by (simp add: reach_def gm_entry_iff map_of_gm_of_distinct[OF group_conns_wf[unfolded gm_wf_def]])
    moreover have "coversConnection c ConnectionIDAll AccessLevelReadWrite \<Longrightarrow> coversConnection c d l"
      using covers_all_covers[OF c tc(2) h(1,2), of AccessLevelReadWrite d l] l d(2)
      by (auto simp: valid_level_def coversConnection_def)
    ultimately have "coversConnection c d l"
      using cov by (auto simp: coversReach_def coversReachConnections_def reach_def split: if_splits)
    then show ?thesis using c by (simp add: CanGrantConnection_def)
  qed
  then show "connection_known rc conn \<Longrightarrow> map_of (group_conns st gid) conn = Some l \<Longrightarrow> CanGrantConnection rc ctx conn l"
    "map_of (group_conns st gid) ConnectionIDAll = Some l \<Longrightarrow> CanGrantConnection rc ctx ConnectionIDAll l" by simp_all
  show "CanGrantMCPItem rc ctx name" if "name \<in> set (group_mcp_list st gid)"
  proof -
    have "name = mcpScopeWildcard \<or> (\<exists>m \<in> set (mcp_privilege_identifiers st). name = mpi_identifier m)"
      using that by (auto simp: set_group_mcp_list group_mcp_set_eq split: if_splits)
    then have "holdsAllMCP c \<Longrightarrow> coversMCP c name"
      using holdsAllMCP_covers[OF c tc(2) h(1,3)] tc by (auto simp: coversMCP_def)
    then show ?thesis using cov that c
      by (auto simp: CanGrantMCPItem_def coversReach_def coversReachMCP_def reach_def split: if_splits)
  qed
  show "\<exists>c. actorCeiling rc ctx = Some c \<and> coversAdmin c perm" if "perm \<in> set (group_admin_list st gid)"
    using cov that c holdsAllAdmin_has[OF c tc(2) h(1), of perm] tc
    by (auto simp: coversReach_def coversReachAdmin_def coversAdmin_def reach_def split: if_splits)
qed

lemma can_grant_held:
  assumes "checker_store rc = Some st" "healthy st" "store_wf st" "GetTokenIDFromContext ctx > 0"
    and "CanGrantConnection rc ctx granted l"
    and "granted = conn \<or> granted = ConnectionIDAll" "connection_known rc conn" "conn \<noteq> ConnectionIDAll"
  shows "\<exists>l'. CanAccessConnection rc ctx conn = (True, l') \<and> 0 < accessLevelRank l \<and>
    accessLevelRank l \<le> accessLevelRank l'"
proof -
  from assms(5) obtain c where c: "actorCeiling rc ctx = Some c" "coversConnection c granted l"
    by (auto simp: CanGrantConnection_def split: option.splits)
  then have tc: "tc_store c = st" "\<not> tc_session c" "tc_rc c = rc" "tc_ctx c = ctx" and "valid_level l"
    using assms(1,4) by (auto simp: actorCeiling_Some coversConnection_def valid_level_rank Let_def)
  then have "coversConnection c conn l"
    using c assms(2,3,6,7) covers_all_covers[OF c(1), of l conn l] by auto
  with tc assms(8) show ?thesis
    by (auto simp: coversConnection_def ceilingLevel_def Let_def split: prod.splits if_splits)
qed

text \<open>
  A token grants only what it holds. When \<open>CanGrantConnection\<close> lets an API token grant a
  level on a connection, or on all connections at once, the token itself has at least that
  level on the connection, and on every connection the datastore knows.
\<close>

theorem grant_within_access:
  assumes "checker_store rc = Some st" "healthy st" "store_wf st" "GetTokenIDFromContext ctx > 0"
    and "CanGrantConnection rc ctx granted l"
    and "granted = conn \<or> granted = ConnectionIDAll" "connection_known rc conn" "conn \<noteq> ConnectionIDAll"
  shows "\<exists>l'. CanAccessConnection rc ctx conn = (True, l') \<and> 0 < accessLevelRank l \<and>
    accessLevelRank l \<le> accessLevelRank l'"
  using assms by (rule can_grant_held)

theorem grant_within_access_witness:
  "\<exists>l'. CanAccessConnection sample_checker ann_token 7 = (True, l') \<and> 0 < accessLevelRank AccessLevelRead \<and>
    accessLevelRank AccessLevelRead \<le> accessLevelRank l'"
proof (rule grant_within_access[OF sample_checker_store sample_healthy sample_wf])
  show "CanGrantConnection sample_checker ann_token 7 AccessLevelRead" by code_simp
qed (code_simp | simp)+

text \<open>
  Adding a member through a token hands out nothing the token lacks. When
  \<open>GroupWithinTokenScope\<close> lets a token add a user to a group, every connection grant, MCP item
  and admin permission the user then holds is one the user held before or one the token may
  itself grant or use.
\<close>

theorem membership_within_ceiling:
  assumes "checker_store rc = Some st" "healthy st" "store_wf st" "no_wildcard_item st"
    and "GetTokenIDFromContext ctx > 0" and "GroupWithinTokenScope rc ctx gid" "connection_known rc conn"
  shows "(map_of (user_conns (add_member gid uid st) uid) conn = Some l \<longrightarrow>
      map_of (user_conns st uid) conn = Some l \<or> CanGrantConnection rc ctx conn l) \<and>
    (name \<in> user_mcp (add_member gid uid st) uid \<longrightarrow> name \<in> user_mcp st uid \<or> CanGrantMCPItem rc ctx name) \<and>
    (perm \<in> user_admin (add_member gid uid st) uid \<longrightarrow> perm \<in> user_admin st uid \<or> HasAdminPermission rc ctx perm)"
proof -
  note cov = group_within_covers[OF assms(1-6)]
  have "perm \<in> set (group_admin_list st gid) \<Longrightarrow> HasAdminPermission rc ctx perm"
    using cov(4)[of perm] coversAdmin_has[of rc ctx _ perm perm] assms(1,2,5) by (auto simp: actorCeiling_Some)
  then show ?thesis using add_member_conns[OF assms(3), of gid uid conn l] cov(1)[OF assms(7)] cov(3) by (auto simp: add_member_names)
qed

text \<open>The worked installation with an unscoped token, 30, of its superuser.\<close>

definition grant_store :: auth_store where
  "grant_store = sample_store\<lparr>tokens := \<lparr>tok_id = 30, tok_owner_id = 2, tok_annotation = ''root all''\<rparr> # tokens sample_store\<rparr>"

definition grant_checker :: "rbac_checker option" where
  "grant_checker = NewRBACCheckerWithSharing (Some grant_store) (Some sample_lookup)"

definition root_full :: request_ctx where
  "root_full = root_token\<lparr>ctx_token_id := Some 30\<rparr>"

lemma grant_store_facts:
  "checker_store grant_checker = Some grant_store" "healthy grant_store" "store_wf grant_store"
  "no_wildcard_item grant_store" "GetTokenIDFromContext root_full > 0"
  by (simp_all add: grant_checker_def NewRBACCheckerWithSharing_def SetConnectionSharingLookup_def
      NewRBACChecker_def checker_store_def grant_store_def sample_store_def healthy_def store_wf_def
      valid_level_def const_defs no_wildcard_item_def root_full_def root_token_def GetTokenIDFromContext_def)

theorem membership_within_ceiling_witness:
  "map_of (user_conns grant_store 3) 8 = Some AccessLevelRead \<or>
   CanGrantConnection grant_checker root_full 8 AccessLevelRead"
proof -
  have "GroupWithinTokenScope grant_checker root_full 5" "connection_known grant_checker 8"
    "map_of (user_conns (add_member 5 3 grant_store) 3) 8 = Some AccessLevelRead"
    by code_simp+
  then show ?thesis using membership_within_ceiling[OF grant_store_facts] by blast
qed

lemma holds_everything:
  assumes "checker_store rc = Some st" "healthy st" "store_wf st" "no_wildcard_item st"
    and "GetTokenIDFromContext ctx > 0" and "TokenHoldsEverything rc ctx"
  shows "IsSuperuser rc ctx \<and> HasAdminPermission rc ctx perm \<and>
    (connection_known rc conn \<longrightarrow> HasWriteAccess rc ctx conn) \<and>
    (m \<in> set (mcp_privilege_identifiers st) \<longrightarrow> CanAccessMCPItem rc ctx (mpi_identifier m))"
proof -
  from assms(6) obtain c where c: "actorCeiling rc ctx = Some c" and su: "holdsSuperuser c"
    by (auto simp: TokenHoldsEverything_def split: option.splits)
  then have tc: "tc_store c = st" "\<not> tc_session c" "tc_rc c = rc" "tc_ctx c = ctx" "\<not> tokenContextIncomplete ctx"
    using assms(1,5) by (auto simp: actorCeiling_Some)
  have h: "healthy (tc_store c)" "store_wf (tc_store c)" "no_wildcard_item (tc_store c)" using assms(2-4) tc by simp_all
  from su tc(2) have all: "IsSuperuserFromContext ctx" "coversConnection c ConnectionIDAll AccessLevelReadWrite"
    "holdsAllMCP c" "holdsAllAdmin c" by (auto simp: holdsSuperuser_def holdsEverything_def tc)
  have admin: "HasAdminPermission rc ctx p" for p by (rule holdsAllAdmin_has[OF c tc(2) h(1) all(4)])
  have "GetTokenAdminScope st (GetTokenIDFromContext ctx) =
      when_token st (GetTokenIDFromContext ctx) (scope_admin_rows st (GetTokenIDFromContext ctx))"
    using admin_scope.available[OF assms(2)] by simp
  with all(4) tc assms(1,5) have "IsSuperuser rc ctx" using all(1)
    by (auto simp: IsSuperuser_def tokenCarriesSuperuser_def holdsAllAdmin_def actorAdminScope_def actingToken_def
        namedScope_def when_token_def Let_def split: if_splits option.splits sum.splits)
  moreover have "HasWriteAccess rc ctx conn" if known: "connection_known rc conn"
  proof -
    have pos: "accessLevelRank (allConnectionsLevel c) = 2"
      using all(2) tc(2) by (auto simp: coversConnection_def ceilingLevel_def accessLevelRank_def split: if_splits)
    then obtain l where "CanAccessConnection rc ctx conn = (True, l)" "accessLevelRank l = 2"
      using allConnectionsLevel_le[OF c tc(2) h(1,2) known] by (fastforce simp: accessLevelRank_def split: if_splits)
    then show ?thesis by (auto simp: HasWriteAccess_def accessLevelRank_def split: if_splits)
  qed
  ultimately show ?thesis using admin holdsAllMCP_covers[OF c tc(2) h(1,3) all(3)] tc by auto
qed

text \<open>
  A token that may create or promote superusers is a superuser's token with superuser
  access: it passes the blanket superuser gate, has read and write on every connection the
  datastore knows, reaches every registered MCP item and holds every admin permission.
\<close>

theorem token_holds_everything:
  assumes "checker_store rc = Some st" "healthy st" "store_wf st" "no_wildcard_item st"
    and "GetTokenIDFromContext ctx > 0" and "TokenHoldsEverything rc ctx"
  shows "IsSuperuser rc ctx \<and> HasAdminPermission rc ctx perm \<and>
    (connection_known rc conn \<longrightarrow> HasWriteAccess rc ctx conn) \<and>
    (m \<in> set (mcp_privilege_identifiers st) \<longrightarrow> CanAccessMCPItem rc ctx (mpi_identifier m))"
  using assms by (rule holds_everything)

theorem token_holds_everything_witness:
  "IsSuperuser grant_checker root_full \<and> HasAdminPermission grant_checker root_full ''manage_users''"
proof -
  have "TokenHoldsEverything grant_checker root_full" by code_simp
  from token_holds_everything[OF grant_store_facts this] show ?thesis by blast
qed

lemma lift_guard_covers:
  assumes "lift_allows (Some (ConnectionLiftGuard rc ctx ids)) conn"
  shows "\<not> tokenContextIncomplete ctx \<and>
    (GetTokenIDFromContext ctx \<le> 0 \<or> CanGrantConnection rc ctx conn AccessLevelReadWrite)"
  using assms
  by (auto simp: lift_allows_def ConnectionLiftGuard_def AllowLifts_def AllowAllLifts_def CanGrantConnection_def
      actorCeiling_Some split: option.splits if_splits)

end
