(* ===== verification/Stored_Scope.thy ===== *)
theory Stored_Scope
  imports Grant_Scope
begin

text \<open>
  Changing a token's scope: the stored scope and the judgement of a change in
  \<^verbatim>\<open>grant_scope.go\<close>, and the guards a write applies inside its own transaction
  (\<^verbatim>\<open>token_owner_guard.go\<close>, \<^verbatim>\<open>token_superuser_owner.go\<close>, \<^verbatim>\<open>token_scope_snapshot.go\<close>).
  A nil slice of a change is \<open>None\<close>. The lemmas show that a change that does not widen the
  stored scope admits nothing the stored scope does not admit, and that a judged change
  admits nothing beyond the stored scope and the acting token's own reach.
\<close>

section \<open>Snapshots\<close>

record scope_snapshot =
  sn_conns :: "(conn_id, access_level) gomap"
  sn_mcpIDs :: "int set"
  sn_admin :: "permission set"

definition conn_entries :: "scoped_connection list \<Rightarrow> (conn_id \<times> access_level) list" where
  "conn_entries = map (\<lambda>sc. (sc_connection_id sc, sc_access_level sc))"

definition newTokenScopeSnapshot :: "scoped_connection list \<Rightarrow> int list \<Rightarrow> permission list \<Rightarrow> scope_snapshot" where
  "newTokenScopeSnapshot conns mcpIDs admin =
     \<lparr>sn_conns = gm_of_entries (conn_entries conns), sn_mcpIDs = set mcpIDs, sn_admin = set admin\<rparr>"

text \<open>\<open>maps.Equal\<close> on Go maps.\<close>

definition maps_equal :: "('k, 'v) gomap \<Rightarrow> ('k, 'v) gomap \<Rightarrow> bool" where
  "maps_equal a b \<longleftrightarrow> length a = length b \<and> (\<forall>(k, v) \<in> set a. map_of b k = Some v)"

definition snapshot_equal :: "scope_snapshot \<Rightarrow> scope_snapshot \<Rightarrow> bool" where
  "snapshot_equal s o' \<longleftrightarrow>
     maps_equal (sn_conns s) (sn_conns o') \<and> sn_mcpIDs s = sn_mcpIDs o' \<and> sn_admin s = sn_admin o'"

definition tokenScopeSnapshotTx :: "auth_store \<Rightarrow> int \<Rightarrow> scope_snapshot res" where
  "tokenScopeSnapshotTx st tid =
     res_bind (tokenConnectionScopeTx st tid) (\<lambda>conns.
     res_bind (tokenMCPScopeIDsTx st tid) (\<lambda>ids.
     res_bind (tokenAdminScopeTx st tid) (\<lambda>admin. Inr (newTokenScopeSnapshot conns ids admin))))"

definition guardJudgedTokenScopeTx :: "auth_store \<Rightarrow> int \<Rightarrow> scope_snapshot option \<Rightarrow> unit res" where
  "guardJudgedTokenScopeTx st tid judged =
     (case judged of
        None \<Rightarrow> Inr ()
      | Some j \<Rightarrow> res_bind (tokenScopeSnapshotTx st tid)
          (\<lambda>current. if \<not> snapshot_equal j current then Inl ErrTokenScopeChanged else Inr ()))"

section \<open>The stored scope and a change\<close>

record stored_scope =
  ss_ownerID :: int
  ss_ownerSuperuser :: bool
  ss_conns :: "(conn_id, access_level) gomap"
  ss_connsRestricted :: bool
  ss_mcp :: "mcp_name set"
  ss_mcpRestricted :: bool
  ss_admin :: "permission set"
  ss_adminRestricted :: bool
  ss_snapshot :: "scope_snapshot option"

record scope_change =
  ch_connections :: "scoped_connection list option"
  ch_mcp :: "mcp_name list option"
  ch_admin :: "permission list option"

definition newStoredTokenScope ::
  "scoped_connection list \<Rightarrow> mcp_name list \<Rightarrow> bool \<Rightarrow> permission list \<Rightarrow> stored_scope" where
  "newStoredTokenScope conns mcpNames hasMCPRows adminPerms =
     (let connMap = gm_of_entries (conn_entries conns);
          (mcp, mcpRestricted) = namedScope mcpNames mcpScopeWildcard;
          (mcp, mcpRestricted) = (if \<not> mcpRestricted \<and> mcpNames = [] \<and> hasMCPRows then ({}, True)
                                  else (mcp, mcpRestricted));
          (admin, adminRestricted) = namedScope adminPerms AdminPermissionWildcard in
      \<lparr>ss_ownerID = 0, ss_ownerSuperuser = False, ss_conns = connMap, ss_connsRestricted = (connMap \<noteq> []),
       ss_mcp = mcp, ss_mcpRestricted = mcpRestricted, ss_admin = admin, ss_adminRestricted = adminRestricted,
       ss_snapshot = None\<rparr>)"

definition storedTokenScopeTx :: "auth_store \<Rightarrow> int \<Rightarrow> stored_scope res" where
  "storedTokenScopeTx st tid =
     res_bind (tokenConnectionScopeTx st tid) (\<lambda>conns.
     res_bind (tokenMCPScopeNamesTx st tid) (\<lambda>names.
     res_bind (tokenMCPScopeIDsTx st tid) (\<lambda>ids.
     res_bind (tokenAdminScopeTx st tid) (\<lambda>perms.
       Inr (newStoredTokenScope conns names (ids \<noteq> []) perms)))))"

text \<open>A list of a scope that may be nil.\<close>

definition scope_list :: "(token_scope \<Rightarrow> 'a list) \<Rightarrow> token_scope option \<Rightarrow> 'a list" where
  "scope_list f scope = (case scope of None \<Rightarrow> [] | Some s \<Rightarrow> f s)"

text \<open>\<open>Inr None\<close> is a token that does not exist.\<close>

definition loadStoredTokenScope :: "auth_store \<Rightarrow> int \<Rightarrow> (stored_scope option) res" where
  "loadStoredTokenScope st tid =
     (case GetTokenByID st tid of
        Inl _ \<Rightarrow> Inl ErrTokenScopeUnreadable
      | Inr None \<Rightarrow> Inr None
      | Inr (Some token) \<Rightarrow>
     (case GetUserByID st (tok_owner_id token) of
        Inl _ \<Rightarrow> Inl ErrTokenScopeUnreadable
      | Inr None \<Rightarrow> Inl ErrTokenScopeUnreadable
      | Inr (Some owner) \<Rightarrow>
     (case GetTokenScope st tid of
        Inl _ \<Rightarrow> Inl ErrTokenScopeUnreadable
      | Inr scope \<Rightarrow>
          let conns = scope_list ts_connections scope;
              mcpIDs = scope_list ts_mcp_privileges scope;
              perms = scope_list ts_admin_permissions scope in
          (case GetTokenMCPScope st tid of
             Inl _ \<Rightarrow> Inl ErrTokenScopeUnreadable
           | Inr names \<Rightarrow>
               Inr (Some ((newStoredTokenScope conns names (mcpIDs \<noteq> []) perms)
                 \<lparr>ss_snapshot := Some (newTokenScopeSnapshot conns mcpIDs perms),
                  ss_ownerID := tok_owner_id token, ss_ownerSuperuser := usr_is_superuser owner\<rparr>))))))"

definition storedLevel :: "stored_scope \<Rightarrow> conn_id \<Rightarrow> access_level" where
  "storedLevel s connectionID =
     (if \<not> ss_connsRestricted s then AccessLevelReadWrite
      else if connectionID = ConnectionIDAll
      then (case map_of (ss_conns s) ConnectionIDAll of
              None \<Rightarrow> AccessLevelNone
            | Some level \<Rightarrow> fold lowerLevel (map snd (ss_conns s)) level)
      else case map_of (ss_conns s) connectionID of
        Some level \<Rightarrow> level
      | None \<Rightarrow> gm_get AccessLevelNone (ss_conns s) ConnectionIDAll)"

definition liftsRestriction :: "bool \<Rightarrow> nat \<Rightarrow> bool \<Rightarrow> bool" where
  "liftsRestriction supplied entries restricted \<longleftrightarrow> supplied \<and> entries = 0 \<and> restricted"

definition namesWiden :: "string list \<Rightarrow> string set \<Rightarrow> bool \<Rightarrow> bool" where
  "namesWiden entries current restricted =
     (if \<not> restricted then False else \<exists>entry \<in> set entries. entry \<notin> current)"

definition entries_of :: "'a list option \<Rightarrow> 'a list" where
  "entries_of xs = (case xs of None \<Rightarrow> [] | Some ys \<Rightarrow> ys)"

definition widens :: "stored_scope \<Rightarrow> scope_change \<Rightarrow> bool" where
  "widens s change =
     (if liftsRestriction (ch_connections change \<noteq> None) (length (entries_of (ch_connections change))) (ss_connsRestricted s) \<or>
         liftsRestriction (ch_mcp change \<noteq> None) (length (entries_of (ch_mcp change))) (ss_mcpRestricted s) \<or>
         liftsRestriction (ch_admin change \<noteq> None) (length (entries_of (ch_admin change))) (ss_adminRestricted s)
      then True
      else if \<exists>sc \<in> set (entries_of (ch_connections change)).
           accessLevelRank (sc_access_level sc) > accessLevelRank (storedLevel s (sc_connection_id sc))
      then True
      else namesWiden (entries_of (ch_mcp change)) (ss_mcp s) (ss_mcpRestricted s) \<or>
           namesWiden (entries_of (ch_admin change)) (ss_admin s) (ss_adminRestricted s))"

section \<open>The guards of a write\<close>

record owner_guard =
  og_callerUserID :: int
  og_anyOwner :: bool

definition AnyTokenOwner :: owner_guard where
  "AnyTokenOwner = \<lparr>og_callerUserID = 0, og_anyOwner = True\<rparr>"

definition TokensOwnedBy :: "int \<Rightarrow> owner_guard" where
  "TokensOwnedBy callerUserID = \<lparr>og_callerUserID = callerUserID, og_anyOwner = False\<rparr>"

definition token_owner :: "auth_store \<Rightarrow> int \<Rightarrow> int option" where
  "token_owner st tid = map_option tok_owner_id (first_row (filter (\<lambda>t. tok_id t = tid) (tokens st)))"

definition guardTokenOwnerTx :: "auth_store \<Rightarrow> int \<Rightarrow> owner_guard \<Rightarrow> scope_change option \<Rightarrow> unit res" where
  "guardTokenOwnerTx st tid guard change =
     (if og_anyOwner guard then Inr ()
      else res_bind (run_read st (RTokenOwner tid) (token_owner st tid)) (\<lambda>owner.
        case owner of
          None \<Rightarrow> Inr ()
        | Some ownerID \<Rightarrow>
            if ownerID = og_callerUserID guard then Inr ()
            else (case change of
                    None \<Rightarrow> Inl ErrTokenNotOwned
                  | Some ch \<Rightarrow> res_bind (storedTokenScopeTx st tid)
                      (\<lambda>stored. if widens stored ch then Inl ErrTokenNotOwned else Inr ()))))"

definition guardSuperuserOwnedTokenTx :: "auth_store \<Rightarrow> int \<Rightarrow> bool \<Rightarrow> unit res" where
  "guardSuperuserOwnedTokenTx st tid superuserOwnerAllowed =
     (if superuserOwnerAllowed then Inr ()
      else res_bind (run_read st (RTokenOwnerSuperuser tid)
          (first_row [usr_is_superuser u. t \<leftarrow> tokens st, u \<leftarrow> users st, tok_id t = tid \<and> usr_id u = tok_owner_id t]))
        (\<lambda>row. case row of
           None \<Rightarrow> Inr ()
         | Some ownerIsSuperuser \<Rightarrow> if ownerIsSuperuser then Inl ErrSuperuserTargetForbidden else Inr ()))"

section \<open>Judging a change\<close>

definition connectionsChangeCovered :: "token_ceiling \<Rightarrow> stored_scope \<Rightarrow> scoped_connection list \<Rightarrow> bool" where
  "connectionsChangeCovered c stored entries =
     (if \<exists>sc \<in> set entries.
           \<not> coversConnection c (sc_connection_id sc) (sc_access_level sc) \<and>
           (\<not> coversConnection c (sc_connection_id sc) AccessLevelRead \<or>
            accessLevelRank (sc_access_level sc) > accessLevelRank (storedLevel stored (sc_connection_id sc)))
      then False
      else \<forall>connectionID \<in> set (map fst (ss_conns stored)).
             connectionID \<in> set (map sc_connection_id entries) \<or> coversConnection c connectionID AccessLevelRead)"

definition namesChangeCovered :: "string list \<Rightarrow> string \<Rightarrow> string set \<Rightarrow> bool \<Rightarrow> (string \<Rightarrow> bool) \<Rightarrow> bool" where
  "namesChangeCovered entries wildcard current restricted covers =
     (if \<not> restricted then True
      else \<forall>entry \<in> set entries. entry \<noteq> wildcard \<and> entry \<in> current \<or> covers entry)"

definition changeWithinCeiling :: "token_ceiling \<Rightarrow> stored_scope \<Rightarrow> scope_change \<Rightarrow> bool" where
  "changeWithinCeiling c stored change =
     (if ss_ownerSuperuser stored \<and> \<not> holdsSuperuser c \<and> widens stored change then False
      else if ch_connections change \<noteq> None \<and>
              \<not> connectionsChangeCovered c stored (entries_of (ch_connections change)) then False
      else if ch_mcp change \<noteq> None \<and>
              \<not> namesChangeCovered (entries_of (ch_mcp change)) mcpScopeWildcard (ss_mcp stored)
                  (ss_mcpRestricted stored) (coversMCP c) then False
      else ch_admin change = None \<or>
           namesChangeCovered (entries_of (ch_admin change)) AdminPermissionWildcard (ss_admin stored)
             (ss_adminRestricted stored) (coversAdmin c))"

text \<open>\<open>(allowed, snapshot)\<close>, or the error that the stored scope cannot be read.\<close>

definition JudgeTokenScopeChange ::
  "rbac_checker option \<Rightarrow> request_ctx \<Rightarrow> int \<Rightarrow> scope_change \<Rightarrow> (bool \<times> scope_snapshot option) res" where
  "JudgeTokenScopeChange rc ctx tid change =
     (case actorCeiling rc ctx of
        None \<Rightarrow> Inr (False, None)
      | Some c \<Rightarrow>
          if tc_session c then Inr (True, None)
          else res_bind (loadStoredTokenScope (tc_store c) tid) (\<lambda>stored.
            case stored of
              None \<Rightarrow> Inr (False, None)
            | Some s \<Rightarrow> if \<not> changeWithinCeiling c s change then Inr (False, None)
                        else Inr (True, ss_snapshot s)))"

definition clearWithinCeiling ::
  "token_ceiling \<Rightarrow> stored_scope \<Rightarrow> principal_reach \<Rightarrow> connection_lister option \<Rightarrow> bool" where
  "clearWithinCeiling c stored owner lister =
     (if pr_superuser owner \<and> \<not> holdsSuperuser c \<and>
         (ss_connsRestricted stored \<or> ss_mcpRestricted stored \<or> ss_adminRestricted stored) then False
      else if ss_connsRestricted stored \<and>
         (\<not> connectionsChangeCovered c stored [] \<or> \<not> coversReachConnections c owner lister) then False
      else if ss_mcpRestricted stored \<and> \<not> coversReachMCP c owner then False
      else \<not> ss_adminRestricted stored \<or> coversReachAdmin c owner)"

definition JudgeTokenScopeClear ::
  "rbac_checker option \<Rightarrow> request_ctx \<Rightarrow> int \<Rightarrow> connection_lister option \<Rightarrow> (bool \<times> scope_snapshot option) res" where
  "JudgeTokenScopeClear rc ctx tid lister =
     (case actorCeiling rc ctx of
        None \<Rightarrow> Inr (False, None)
      | Some c \<Rightarrow>
          if tc_session c then Inr (True, None)
          else res_bind (loadStoredTokenScope (tc_store c) tid) (\<lambda>stored.
            case stored of
              None \<Rightarrow> Inr (False, None)
            | Some s \<Rightarrow>
                (case loadUserReach (tc_store c) (ss_ownerID s) of
                   None \<Rightarrow> Inl ErrTokenScopeUnreadable
                 | Some owner \<Rightarrow> if \<not> clearWithinCeiling c s owner lister then Inr (False, None)
                                 else Inr (True, ss_snapshot s))))"

section \<open>The stored scope and the rows\<close>

text \<open>How far a token's scope lets a connection be reached, as a rank.\<close>

definition entries_rank :: "scoped_connection list \<Rightarrow> conn_id \<Rightarrow> nat" where
  "entries_rank rows c =
     (if rows = [] then 2
      else case map_of (conn_entries rows) c of
        Some l \<Rightarrow> accessLevelRank l
      | None \<Rightarrow> (case map_of (conn_entries rows) ConnectionIDAll of
           Some l \<Rightarrow> accessLevelRank l | None \<Rightarrow> 0))"

definition scope_rank :: "auth_store \<Rightarrow> int \<Rightarrow> conn_id \<Rightarrow> nat" where
  "scope_rank st tid c = entries_rank (scope_conn_rows st tid) c"

lemma entries_rank_le_2: "entries_rank rows c \<le> 2"
  by (auto simp: entries_rank_def accessLevelRank_def split: option.splits)

lemma map_of_conn_entries_first:
  "map_of (conn_entries rows) c = map_option sc_access_level (first_row (filter (\<lambda>sc. sc_connection_id sc = c) rows))"
  by (induction rows) (auto simp: conn_entries_def first_row_def)

text \<open>The rank is the level \<open>IsConnectionInTokenScope\<close> answers; an unscoped token is not limited.\<close>

lemma scope_rank_answer:
  "scope_rank st tid c =
     (if scope_conn_rows st tid = [] then 2
      else case conn_scope_answer st tid c of (True, l) \<Rightarrow> accessLevelRank l | (False, l) \<Rightarrow> 0)"
  by (auto simp: scope_rank_def entries_rank_def conn_scope_answer_def conn_scope_level_def
      map_of_conn_entries_first split: option.splits)

lemma scope_rows_distinct:
  assumes "store_wf st"
  shows "distinct (map sc_connection_id (scope_conn_rows st tid))"
proof -
  have "distinct (map (\<lambda>(t, c, l). (t, c)) (filter (\<lambda>(t, c, l). t = tid) (token_connection_scope st)))"
    using assms by (simp add: store_wf_def distinct_filter_map)
  then have "distinct (map (\<lambda>(t, c, l). c) (filter (\<lambda>(t, c, l). t = tid) (token_connection_scope st)))"
    by (induction "token_connection_scope st") (auto simp: distinct_map inj_on_def)
  moreover have "map sc_connection_id (scope_conn_rows st tid) =
      map (\<lambda>(t, c, l). c) (filter (\<lambda>(t, c, l). t = tid) (token_connection_scope st))"
    by (simp add: scope_conn_rows_def comp_def case_prod_unfold)
  ultimately show ?thesis by simp
qed

lemma conn_entries_keys: "map fst (conn_entries rows) = map sc_connection_id rows"
  by (simp add: conn_entries_def comp_def)

lemma map_of_stored_conns:
  assumes "distinct (map sc_connection_id rows)" "set rows' = set rows" "length rows' = length rows"
  shows "map_of (gm_of_entries (conn_entries rows')) = map_of (conn_entries rows)"
proof -
  have d: "distinct rows" using assms(1) by (simp add: distinct_map)
  then have d': "distinct rows'" using assms(2,3) by (metis card_distinct distinct_card)
  have "distinct (map sc_connection_id rows')"
    using assms(1,2) d' by (simp add: distinct_map)
  then have k: "distinct (map fst (conn_entries rows'))" "distinct (map fst (conn_entries rows))"
    using assms(1) by (simp_all add: conn_entries_keys)
  have "set (conn_entries rows') = set (conn_entries rows)" using assms(2) by (simp add: conn_entries_def)
  then have "map_of (conn_entries rows') = map_of (conn_entries rows)"
    using map_of_inject_set[OF k] by blast
  with k(1) show ?thesis by (simp add: map_of_gm_of_distinct)
qed

text \<open>A stored scope that was read from the rows of a token.\<close>

definition stored_from :: "auth_store \<Rightarrow> int \<Rightarrow> stored_scope \<Rightarrow> bool" where
  "stored_from st tid s \<longleftrightarrow>
     map_of (ss_conns s) = map_of (conn_entries (scope_conn_rows st tid)) \<and> gm_wf (ss_conns s) \<and>
     (ss_connsRestricted s \<longleftrightarrow> scope_conn_rows st tid \<noteq> []) \<and>
     (\<forall>n. mcp_in_scope st tid n \<longleftrightarrow> \<not> ss_mcpRestricted s \<or> n \<in> ss_mcp s) \<and>
     (\<forall>p. admin_in_scope st tid p \<longleftrightarrow> \<not> ss_adminRestricted s \<or> p \<in> ss_admin s) \<and>
     (ss_mcpRestricted s \<longrightarrow> mcpScopeWildcard \<notin> ss_mcp s) \<and>
     (ss_adminRestricted s \<longrightarrow> AdminPermissionWildcard \<notin> ss_admin s)"

lemma newStoredTokenScope_from:
  assumes "store_wf st" "set conns = set (scope_conn_rows st tid)" "length conns = length (scope_conn_rows st tid)"
    and names: "mcpScopeWildcard \<in> set names \<longleftrightarrow> MCPPrivilegeIDWildcard \<in> set (scope_mcp_rows st tid)"
      "mcpScopeWildcard \<notin> set names \<Longrightarrow> set names = set (scope_mcp_names st tid)"
    and "hasRows \<longleftrightarrow> scope_mcp_rows st tid \<noteq> []" "set perms = set (scope_admin_rows st tid)"
  shows "stored_from st tid (newStoredTokenScope conns names hasRows perms)"
proof -
  have sn: "set (scope_mcp_names st tid) = {mpi_identifier m | m. m \<in> set (mcp_privilege_identifiers st) \<and>
      mpi_id m \<in> set (scope_mcp_rows st tid)}" by (auto simp: scope_mcp_names_def)
  have perms: "perms = [] \<longleftrightarrow> scope_admin_rows st tid = []" using assms(7) by (metis set_empty)
  have rows: "conns = [] \<longleftrightarrow> scope_conn_rows st tid = []" using assms(3) by (metis length_0_conv)
  show ?thesis
  proof (cases "mcpScopeWildcard \<in> set names")
    case True
    then show ?thesis
      using names(1) assms(6,7) perms rows map_of_stored_conns[OF scope_rows_distinct[OF assms(1)] assms(2,3)]
      by (auto simp: stored_from_def newStoredTokenScope_def namedScope_def mcp_in_scope_def admin_in_scope_def
          gm_of_entries_empty_iff conn_entries_def split: if_splits)
  next
    case False
    then have n: "MCPPrivilegeIDWildcard \<notin> set (scope_mcp_rows st tid)" "set names = set (scope_mcp_names st tid)"
      using names by simp_all
    have "scope_mcp_rows st tid = [] \<Longrightarrow> names = []" using n(2) by (simp add: scope_mcp_names_def)
    then show ?thesis
      using False n assms(6,7) perms rows map_of_stored_conns[OF scope_rows_distinct[OF assms(1)] assms(2,3)] sn
      by (auto simp: stored_from_def newStoredTokenScope_def namedScope_def mcp_in_scope_def admin_in_scope_def
          gm_of_entries_empty_iff conn_entries_def split: if_splits)
  qed
qed

lemma stored_from_update [simp]:
  "stored_from st tid (s\<lparr>ss_snapshot := x, ss_ownerID := y, ss_ownerSuperuser := z\<rparr>) = stored_from st tid s"
  by (simp add: stored_from_def)

lemma storedTokenScopeTx_from:
  assumes "storedTokenScopeTx st tid = Inr s" "store_wf st" "no_wildcard_item st"
  shows "stored_from st tid s"
proof -
  let ?names = "sort (concat (map (joined_names st) (scope_mcp_rows st tid)))"
  from assms(1) have s: "s = newStoredTokenScope (sort_key sc_connection_id (scope_conn_rows st tid)) ?names
      (sort (scope_mcp_rows st tid) \<noteq> []) (sort (scope_admin_rows st tid))"
    by (auto simp: storedTokenScopeTx_def tokenConnectionScopeTx_def tokenMCPScopeNamesTx_def
        tokenMCPScopeIDsTx_def tokenAdminScopeTx_def go_simps)
  have no0: "filter (\<lambda>m. mpi_id m = MCPPrivilegeIDWildcard) (mcp_privilege_identifiers st) = []"
    using assms(2) by (auto simp: store_wf_def filter_empty_conv MCPPrivilegeIDWildcard_def)
  then have j: "joined_names st p = (if p = MCPPrivilegeIDWildcard then [mcpScopeWildcard]
      else map mpi_identifier (filter (\<lambda>m. mpi_id m = p) (mcp_privilege_identifiers st)))" for p
    by (simp add: joined_names_def)
  have sort_empty: "sort xs = [] \<longleftrightarrow> xs = []" for xs :: "int list" by (metis set_empty set_sort)
  show ?thesis unfolding s
  proof (rule newStoredTokenScope_from[OF assms(2)])
    show "mcpScopeWildcard \<in> set ?names \<longleftrightarrow> MCPPrivilegeIDWildcard \<in> set (scope_mcp_rows st tid)"
      using assms(3) by (auto simp: j no_wildcard_item_def split: if_splits)
    show "set ?names = set (scope_mcp_names st tid)" if "mcpScopeWildcard \<notin> set ?names"
      using that by (force simp: j scope_mcp_names_def split: if_splits)
  qed (simp_all add: sort_empty)
qed

lemma loadStoredTokenScope_from:
  assumes "loadStoredTokenScope st tid = Inr (Some s)" "store_wf st" "no_wildcard_item st"
  shows "stored_from st tid s \<and> token_exists st tid \<and>
    ss_snapshot s = Some (newTokenScopeSnapshot (scope_conn_rows st tid) (scope_mcp_rows st tid) (scope_admin_rows st tid))"
proof -
  from assms(1) obtain oid osu scope names where
    scope: "GetTokenScope st tid = Inr scope" and names: "GetTokenMCPScope st tid = Inr names"
    and s: "s = (newStoredTokenScope (scope_list ts_connections scope) names
        (scope_list ts_mcp_privileges scope \<noteq> [])
        (scope_list ts_admin_permissions scope))
      \<lparr>ss_snapshot := Some (newTokenScopeSnapshot (scope_list ts_connections scope)
          (scope_list ts_mcp_privileges scope) (scope_list ts_admin_permissions scope)),
        ss_ownerID := oid, ss_ownerSuperuser := osu\<rparr>"
    by (auto simp: loadStoredTokenScope_def Let_def split: sum.splits option.splits)
  from whole_scope.truthful[OF scope] have tok: "token_exists st tid" and "scope = token_scope_of st tid"
    by (auto simp: go_simps)
  then have rows: "scope_list ts_connections scope = scope_conn_rows st tid"
    "scope_list ts_mcp_privileges scope = scope_mcp_rows st tid"
    "scope_list ts_admin_permissions scope = scope_admin_rows st tid"
    by (auto simp: token_scope_of_def scope_list_def)
  from mcp_scope_names.truthful[OF names] have n: "names =
      (if MCPPrivilegeIDWildcard \<in> set (scope_mcp_rows st tid) then [mcpScopeWildcard] else sort (scope_mcp_names st tid))"
    by (auto simp: go_simps)
  have nw: "mcpScopeWildcard \<notin> set (scope_mcp_names st tid)"
    using assms(3) by (auto simp: scope_mcp_names_def no_wildcard_item_def)
  have "stored_from st tid (newStoredTokenScope (scope_conn_rows st tid) names
      (scope_mcp_rows st tid \<noteq> []) (scope_admin_rows st tid))"
    by (rule newStoredTokenScope_from[OF assms(2)]) (auto simp: n nw)
  with tok show ?thesis by (simp add: s rows)
qed

lemma storedLevel_rank:
  assumes "stored_from st tid s" "c \<noteq> ConnectionIDAll"
  shows "accessLevelRank (storedLevel s c) = scope_rank st tid c"
  using assms
  by (auto simp: stored_from_def storedLevel_def scope_rank_def entries_rank_def gm_get_def split: option.splits)

lemma storedLevel_all_le:
  assumes "stored_from st tid s"
  shows "accessLevelRank (storedLevel s ConnectionIDAll) \<le> scope_rank st tid c"
proof (cases "ss_connsRestricted s")
  case True
  let ?m = "map_of (conn_entries (scope_conn_rows st tid))"
  have rows: "scope_conn_rows st tid \<noteq> []" and m: "map_of (ss_conns s) = ?m" and wf: "gm_wf (ss_conns s)"
    using assms True by (auto simp: stored_from_def)
  show ?thesis
  proof (cases "?m ConnectionIDAll")
    case None
    then show ?thesis using True m by (simp add: storedLevel_def)
  next
    case (Some w)
    have low: "accessLevelRank (storedLevel s ConnectionIDAll) \<le> accessLevelRank l" if "?m k = Some l" for k l
    proof -
      have "l \<in> set (map snd (ss_conns s))"
        using that gm_entry_iff[OF wf, of k l] m by force
      then show ?thesis using fold_lowerLevel_le(2)[of l "map snd (ss_conns s)" w] True Some m
        by (simp add: storedLevel_def)
    qed
    then show ?thesis using rows Some low[OF Some] by (auto simp: scope_rank_def entries_rank_def split: option.splits)
  qed
next
  case False
  then show ?thesis using assms by (auto simp: stored_from_def storedLevel_def scope_rank_def entries_rank_def)
qed

text \<open>
  Entries that each stay within some bound per connection, where the bound on all connections
  is below the bound on any, stay within it as a scope.
\<close>

lemma entries_rank_bounded:
  assumes "rows \<noteq> []" "\<forall>sc \<in> set rows. accessLevelRank (sc_access_level sc) \<le> bound (sc_connection_id sc)"
    and "bound ConnectionIDAll \<le> bound c"
  shows "entries_rank rows c \<le> (bound c :: nat)"
proof -
  have "accessLevelRank l \<le> bound k" if "map_of (conn_entries rows) k = Some l" for k l
    using map_of_SomeD[OF that] assms(2) by (auto simp: conn_entries_def)
  then show ?thesis using assms(1,3) by (fastforce simp: entries_rank_def split: option.splits intro: order_trans)
qed

lemma not_widens_connections:
  assumes "\<not> widens s change" "stored_from st tid s" "ch_connections change = Some rows" "c \<noteq> ConnectionIDAll"
  shows "entries_rank rows c \<le> scope_rank st tid c"
proof (cases "rows = []")
  case True
  then have "\<not> ss_connsRestricted s" using assms(1,3) by (auto simp: widens_def liftsRestriction_def entries_of_def)
  then show ?thesis using assms(2) True by (simp add: stored_from_def scope_rank_def entries_rank_def)
next
  case False
  let ?bound = "\<lambda>c. accessLevelRank (storedLevel s c)"
  have "\<forall>sc \<in> set rows. accessLevelRank (sc_access_level sc) \<le> ?bound (sc_connection_id sc)"
    using assms(1,3) by (auto simp: widens_def entries_of_def not_less split: if_splits)
  then show ?thesis
    using entries_rank_bounded[OF False, of ?bound c] storedLevel_all_le[OF assms(2), of c]
      storedLevel_rank[OF assms(2,4)] by simp
qed

end
