(* ===== verification/Decimal_Text.thy ===== *)
theory Decimal_Text
  imports Prelude
begin

text \<open>
  Integers as text, for the hashes of the audit log and the descriptions of alerts: the
  decimal renderings of the Go library and that they can be read back.
\<close>

text \<open>\<^verbatim>\<open>strconv.Itoa\<close> and \<^verbatim>\<open>strconv.FormatInt\<close>.\<close>

definition digit_char :: "nat \<Rightarrow> char" where
  "digit_char d = char_of (48 + d)"

fun nat_string :: "nat \<Rightarrow> string" where
  "nat_string n = (if n < 10 then [digit_char n] else nat_string (n div 10) @ [digit_char (n mod 10)])"

declare nat_string.simps [simp del]

definition FormatInt :: "int \<Rightarrow> string" where
  "FormatInt i = (if i < 0 then CHR ''-'' # nat_string (nat (- i)) else nat_string (nat i))"

definition char_digit :: "char \<Rightarrow> nat" where
  "char_digit c = of_char c - 48"

lemma char_digit_inverse [simp]: "d < 10 \<Longrightarrow> char_digit (digit_char d) = d"
  by (simp add: char_digit_def digit_char_def)

lemma of_digit_char: "d < 10 \<Longrightarrow> of_char (digit_char d) = 48 + d"
  by (simp add: digit_char_def)

definition string_nat :: "string \<Rightarrow> nat" where
  "string_nat s = fold (\<lambda>c n. 10 * n + char_digit c) s 0"

lemma string_nat_snoc [simp]: "string_nat (s @ [c]) = 10 * string_nat s + char_digit c"
  by (simp add: string_nat_def)

lemma string_nat_inverse [simp]: "string_nat (nat_string n) = n"
proof (induction n rule: nat_string.induct)
  case (1 n)
  then show ?case by (subst nat_string.simps) (auto simp: string_nat_def[of "[_]"])
qed

lemma nat_string_digits: "c \<in> set (nat_string n) \<Longrightarrow> (of_char c :: nat) \<in> {48..57}"
proof (induction n rule: nat_string.induct)
  case (1 n)
  then show ?case by (subst (asm) (2) nat_string.simps) (auto simp: of_digit_char split: if_splits)
qed

lemma nat_string_neq_Nil [simp]: "nat_string n \<noteq> []"
  by (subst nat_string.simps) simp

lemma nat_string_no_colon: "CHR '':'' \<notin> set (nat_string n)"
  using nat_string_digits[of "CHR '':''" n] by auto

lemma nat_string_no_minus: "CHR ''-'' \<notin> set (nat_string n)"
  using nat_string_digits[of "CHR ''-''" n] by auto

lemma FormatInt_inject: "FormatInt i = FormatInt j \<longleftrightarrow> i = j"
proof
  assume eq: "FormatInt i = FormatInt j"
  have neg: "CHR ''-'' \<in> set (FormatInt i) \<longleftrightarrow> i < 0" for i
    using nat_string_no_minus by (simp add: FormatInt_def)
  have "i < 0 \<longleftrightarrow> j < 0" using neg[of i] neg[of j] eq by simp
  moreover have "nat_string a = nat_string b \<Longrightarrow> a = b" for a b
    using string_nat_inverse by metis
  ultimately have "nat (if i < 0 then - i else i) = nat (if j < 0 then - j else j)"
    using eq by (auto simp: FormatInt_def split: if_splits)
  then show "i = j" using \<open>i < 0 \<longleftrightarrow> j < 0\<close> by (auto split: if_splits)
qed simp

end
