(* ===== verification/Audit_Log.thy ===== *)
theory Audit_Log
  imports Decimal_Text
begin

text \<open>
  The audit log of \<^verbatim>\<open>audit.go\<close> and its tail anchors of \<^verbatim>\<open>audit_tail.go\<close>: the rendering of
  an event for hashing, the keyed hash that chains each row to the one before, and
  \<open>recordAudit\<close>, which appends an event inside the caller's transaction and moves the tail
  anchor on. The log is the list of rows in id order, which is how every query of the code
  reads it. HMAC-SHA256 (in hexadecimal), SHA-256 and the JSON decoder are parameters, held
  in a record. A timestamp is its rendering in \<^verbatim>\<open>auditTimeLayout\<close>, the text that is stored and
  hashed; the zero time is the empty string. As in the store, one error stands for every
  failure of the database driver.
\<close>

section \<open>Events and their rendering\<close>

record audit_event =
  ev_id :: int
  ev_occurred_at :: string
  ev_actor_type :: string
  ev_actor_id :: "int option"
  ev_actor_name :: string
  ev_actor_ip :: string
  ev_action :: string
  ev_target_type :: string
  ev_target_id :: "int option"
  ev_target_name :: string
  ev_outcome :: string
  ev_error :: string
  ev_details :: string
  ev_prev_hash :: string
  ev_hash :: string
  ev_hash_version :: int

text \<open>Who an event is attributed to, and an event before it is recorded; \<open>details\<close> is its JSON text.\<close>

record actor =
  act_type :: string
  act_id :: "int option"
  act_name :: string
  act_ip :: string

definition newEvent :: "actor \<Rightarrow> string \<Rightarrow> string \<Rightarrow> int option \<Rightarrow> string \<Rightarrow> string \<Rightarrow> audit_event" where
  "newEvent actor action targetType targetID targetName details =
     \<lparr>ev_id = 0, ev_occurred_at = [], ev_actor_type = act_type actor, ev_actor_id = act_id actor,
      ev_actor_name = act_name actor, ev_actor_ip = act_ip actor, ev_action = action,
      ev_target_type = targetType, ev_target_id = targetID, ev_target_name = targetName,
      ev_outcome = ''success'', ev_error = [], ev_details = details, ev_prev_hash = [], ev_hash = [],
      ev_hash_version = 0\<rparr>"

definition canonicalFields :: "string list \<Rightarrow> string" where
  "canonicalFields fs = concat (map (\<lambda>field. nat_string (length field) @ CHR '':'' # field) fs)"

definition auditIDString :: "int option \<Rightarrow> string" where
  "auditIDString i = (case i of None \<Rightarrow> [] | Some n \<Rightarrow> FormatInt n)"

definition auditCanonical :: "string \<Rightarrow> audit_event \<Rightarrow> string" where
  "auditCanonical label ev = canonicalFields
     [label, FormatInt (ev_hash_version ev), ev_prev_hash ev, ev_occurred_at ev, ev_actor_type ev,
      auditIDString (ev_actor_id ev), ev_actor_name ev, ev_actor_ip ev, ev_action ev,
      ev_target_type ev, auditIDString (ev_target_id ev), ev_target_name ev, ev_outcome ev,
      ev_error ev, ev_details ev]"

text \<open>A reader for the rendering, which shows that no two lists of fields share one.\<close>

fun parseFields :: "nat \<Rightarrow> string \<Rightarrow> string list" where
  "parseFields 0 s = []"
| "parseFields (Suc n) s =
     (let digits = takeWhile (\<lambda>c. c \<noteq> CHR '':'') s; rest = drop (length digits + 1) s;
          len = string_nat digits in
      take len rest # parseFields n (drop len rest))"

lemma parse_canonical: "parseFields (length fs) (canonicalFields fs @ rest) = fs"
proof (induction fs)
  case (Cons f fs)
  have "takeWhile (\<lambda>c. c \<noteq> CHR '':'') (nat_string (length f) @ CHR '':'' # f @ canonicalFields fs @ rest) =
      nat_string (length f)"
    using nat_string_no_colon by (subst takeWhile_append2) auto
  with Cons show ?case by (simp add: canonicalFields_def)
qed (simp add: canonicalFields_def)

text \<open>Lists of different lengths cannot collide either: a shorter list would have to go on.\<close>

lemma canonicalFields_Cons:
  "canonicalFields (f # fs) = nat_string (length f) @ CHR '':'' # f @ canonicalFields fs"
  by (simp add: canonicalFields_def)

lemma canonicalFields_Nil_iff [simp]: "canonicalFields fs = [] \<longleftrightarrow> fs = []"
  by (cases fs) (simp_all add: canonicalFields_def)

lemma canonicalFields_inject: "canonicalFields xs = canonicalFields ys \<longleftrightarrow> xs = ys"
proof
  show "canonicalFields xs = canonicalFields ys \<Longrightarrow> xs = ys"
  proof (induction xs arbitrary: ys)
    case Nil
    then show ?case by (simp add: canonicalFields_def[of "[]"] eq_commute[of "[]"])
  next
    case (Cons x xs)
    then obtain y ys' where ys: "ys = y # ys'" by (cases ys) (auto simp: canonicalFields_def[of "[]"])
    have "parseFields 1 (canonicalFields [x] @ canonicalFields xs) =
        parseFields 1 (canonicalFields [y] @ canonicalFields ys')"
      using Cons.prems by (simp add: ys canonicalFields_def)
    then have "x = y"
      using parse_canonical[of "[x]" "canonicalFields xs"] parse_canonical[of "[y]" "canonicalFields ys'"] by simp
    with Cons show ?case by (simp add: ys canonicalFields_Cons)
  qed
qed simp

lemma auditIDString_inject [simp]: "auditIDString i = auditIDString j \<longleftrightarrow> i = j"
proof -
  have "FormatInt n \<noteq> []" for n by (simp add: FormatInt_def)
  then show ?thesis by (auto simp: auditIDString_def FormatInt_inject eq_commute[of "[]"] split: option.splits)
qed

text \<open>What a hash covers: everything but the row's id and the hash itself.\<close>

definition content :: "audit_event \<Rightarrow> audit_event" where
  "content ev = ev\<lparr>ev_id := 0, ev_hash := []\<rparr>"

lemma auditCanonical_inject:
  "auditCanonical l a = auditCanonical l' b \<longleftrightarrow> l = l' \<and> content a = content b"
  by (cases a; cases b) (auto simp: auditCanonical_def canonicalFields_inject content_def FormatInt_inject)

section \<open>Hashing a row\<close>

text \<open>
  What an anchor event's details record (\<open>auditAnchor\<close>), as the JSON decoder returns it.
\<close>

record audit_anchor =
  aa_oldest_retained_id :: "int option"
  aa_oldest_retained_hash :: string
  aa_history_through_id :: "int option"
  aa_history_events :: int
  aa_history_digest :: string

record audit_env =
  env_hmac :: "string \<Rightarrow> string \<Rightarrow> string"
  env_sha256 :: "string \<Rightarrow> string"
  env_unmarshal :: "string \<Rightarrow> audit_anchor option"
  auditKey :: string

datatype audit_error =
    AuditDbError
  | ErrNoAuditKey
  | ErrAuditUnkeyedRow
  | ErrUnknownAuditHashVersion
  | ErrAuditDetails
  | ErrAuditAnchorUnverified
  | ErrAuditRowUnverified
  | ErrAuditChainBroken
  | ErrAuditChainDowngraded
  | ErrAuditKeyMismatch

type_synonym 'a ares = "audit_error + 'a"

definition auditHashKeyed :: "audit_env \<Rightarrow> string \<Rightarrow> audit_event \<Rightarrow> string ares" where
  "auditHashKeyed env label ev =
     (if auditKey env = [] then Inl ErrNoAuditKey
      else Inr (env_hmac env (auditKey env) (auditCanonical label ev)))"

definition auditHash :: "audit_env \<Rightarrow> audit_event \<Rightarrow> string ares" where
  "auditHash env ev =
     (if ev_hash_version ev = 1 then Inl ErrAuditUnkeyedRow
      else if ev_hash_version ev = 2 then auditHashKeyed env ''v2'' ev
      else if ev_hash_version ev = 3 then auditHashKeyed env ''v3'' ev
      else Inl ErrUnknownAuditHashVersion)"

definition auditRowVerifies :: "audit_env \<Rightarrow> audit_event \<Rightarrow> bool" where
  "auditRowVerifies env ev = (case auditHash env ev of Inl _ \<Rightarrow> False | Inr want \<Rightarrow> want = ev_hash ev)"

section \<open>The database and the tail anchors\<close>

text \<open>
  \<open>ad_events\<close> is \<^verbatim>\<open>audit_events\<close> in id order; \<open>ad_seq\<close> the row of \<^verbatim>\<open>sqlite_sequence\<close> that
  AUTOINCREMENT keeps; \<open>ad_primary\<close> and \<open>ad_current\<close> the two slots of \<^verbatim>\<open>audit_tail\<close>;
  \<open>ad_schema_ok\<close> the answer of \<open>verifyAuditSchema\<close>, which compares the definitions of the
  index and triggers with the expected text.
\<close>

record tail_binding =
  tb_id :: int
  tb_hash :: string
  tb_mac :: string

record tail_slot =
  tl_event_id :: int
  tl_event_hash :: string
  tl_mac :: string
  tl_bound :: "tail_binding option"

datatype audit_stmt =
    QTailState
  | QSequenceTable
  | QSequence
  | QEvents
  | QAnchors
  | QRow int
  | XBegin
  | XCommit
  | XInsert
  | XTail nat

record audit_db =
  ad_events :: "audit_event list"
  ad_seq_table :: bool
  ad_seq :: "int option"
  ad_primary :: "tail_slot option"
  ad_current :: "tail_slot option"
  ad_schema_ok :: bool
  ad_fails :: "audit_stmt \<Rightarrow> bool"

definition run_audit :: "audit_db \<Rightarrow> audit_stmt \<Rightarrow> 'a \<Rightarrow> 'a ares" where
  "run_audit db q v = (if ad_fails db q then Inl AuditDbError else Inr v)"

lemma run_audit_Inr [go_simps]: "run_audit db q v = Inr w \<longleftrightarrow> \<not> ad_fails db q \<and> v = w"
  by (auto simp: run_audit_def)

lemma run_audit_Inl [go_simps]: "run_audit db q v = Inl e \<longleftrightarrow> ad_fails db q \<and> e = AuditDbError"
  by (auto simp: run_audit_def)

text \<open>The scanned row has the zero value of each column an absent row leaves NULL.\<close>

record audit_tail_state =
  hasNewest :: bool
  newestID :: int
  newestHash :: string
  newestVersion :: int
  hasAnchor :: bool
  anchorID :: int
  anchorHash :: string
  anchorMAC :: string
  bound :: "tail_binding option"
  hasCurrent :: bool
  currentID :: int
  currentHash :: string
  currentMAC :: string

definition tail_state_of :: "audit_db \<Rightarrow> audit_tail_state" where
  "tail_state_of db =
     (let newest = (if ad_events db = [] then None else Some (last (ad_events db))) in
      \<lparr>hasNewest = (newest \<noteq> None),
       newestID = (case newest of None \<Rightarrow> 0 | Some e \<Rightarrow> ev_id e),
       newestHash = (case newest of None \<Rightarrow> [] | Some e \<Rightarrow> ev_hash e),
       newestVersion = (case newest of None \<Rightarrow> 0 | Some e \<Rightarrow> ev_hash_version e),
       hasAnchor = (ad_primary db \<noteq> None),
       anchorID = (case ad_primary db of None \<Rightarrow> 0 | Some t \<Rightarrow> tl_event_id t),
       anchorHash = (case ad_primary db of None \<Rightarrow> [] | Some t \<Rightarrow> tl_event_hash t),
       anchorMAC = (case ad_primary db of None \<Rightarrow> [] | Some t \<Rightarrow> tl_mac t),
       bound = Option.bind (ad_primary db) tl_bound,
       hasCurrent = (ad_current db \<noteq> None),
       currentID = (case ad_current db of None \<Rightarrow> 0 | Some t \<Rightarrow> tl_event_id t),
       currentHash = (case ad_current db of None \<Rightarrow> [] | Some t \<Rightarrow> tl_event_hash t),
       currentMAC = (case ad_current db of None \<Rightarrow> [] | Some t \<Rightarrow> tl_mac t)\<rparr>)"

definition readAuditTailState :: "audit_db \<Rightarrow> audit_tail_state ares" where
  "readAuditTailState db = run_audit db QTailState (tail_state_of db)"

definition namesNewest :: "audit_tail_state \<Rightarrow> bool" where
  "namesNewest t \<longleftrightarrow> hasAnchor t \<and> hasNewest t \<and> anchorID t = newestID t \<and> anchorHash t = newestHash t"

definition currentNamesNewest :: "audit_tail_state \<Rightarrow> bool" where
  "currentNamesNewest t \<longleftrightarrow> hasCurrent t \<and> hasNewest t \<and> currentID t = newestID t \<and> currentHash t = newestHash t"

definition auditTailLabel :: string where
  "auditTailLabel = ''pgedge-ai-workbench/audit-tail/v1''"

definition auditTailCurrentLabel :: string where
  "auditTailCurrentLabel = ''pgedge-ai-workbench/audit-tail-current/v1''"

definition auditTailMAC :: "audit_env \<Rightarrow> int \<Rightarrow> string \<Rightarrow> string ares" where
  "auditTailMAC env i hash =
     (if auditKey env = [] then Inl ErrNoAuditKey
      else Inr (env_hmac env (auditKey env) (canonicalFields [auditTailLabel, FormatInt i, hash])))"

definition auditTailCurrentMAC :: "audit_env \<Rightarrow> int \<Rightarrow> string \<Rightarrow> int \<Rightarrow> string \<Rightarrow> string \<Rightarrow> string ares" where
  "auditTailCurrentMAC env i hash primaryID primaryHash primaryMAC =
     (if auditKey env = [] then Inl ErrNoAuditKey
      else Inr (env_hmac env (auditKey env)
        (canonicalFields [auditTailCurrentLabel, FormatInt i, hash, FormatInt primaryID, primaryHash, primaryMAC])))"

definition auditTailMACVerifies :: "audit_env \<Rightarrow> int \<Rightarrow> string \<Rightarrow> string \<Rightarrow> bool" where
  "auditTailMACVerifies env i hash mac = (case auditTailMAC env i hash of Inl _ \<Rightarrow> False | Inr want \<Rightarrow> want = mac)"

definition auditTailVerifies :: "audit_env \<Rightarrow> audit_tail_state \<Rightarrow> bool" where
  "auditTailVerifies env st \<longleftrightarrow>
     bound st = None \<and> auditTailMACVerifies env (anchorID st) (anchorHash st) (anchorMAC st)"

definition currentTailVerifies :: "audit_env \<Rightarrow> audit_tail_state \<Rightarrow> bool" where
  "currentTailVerifies env st =
     (case auditTailCurrentMAC env (currentID st) (currentHash st) (anchorID st) (anchorHash st) (anchorMAC st) of
        Inl _ \<Rightarrow> False | Inr want \<Rightarrow> hasAnchor st \<and> want = currentMAC st)"

definition writeAuditTailSlot ::
  "audit_db \<Rightarrow> nat \<Rightarrow> int \<Rightarrow> string \<Rightarrow> string \<Rightarrow> tail_binding option \<Rightarrow> audit_db ares" where
  "writeAuditTailSlot db slot i hash mac b =
     (let row = Some \<lparr>tl_event_id = i, tl_event_hash = hash, tl_mac = mac, tl_bound = b\<rparr> in
      run_audit db (XTail slot)
        (if slot = 1 then db\<lparr>ad_primary := row\<rparr> else db\<lparr>ad_current := row\<rparr>))"

definition writeAuditTail :: "audit_env \<Rightarrow> audit_db \<Rightarrow> audit_event \<Rightarrow> audit_db ares" where
  "writeAuditTail env db ev =
     res_bind (auditTailMAC env (ev_id ev) (ev_hash ev)) (\<lambda>mac.
       writeAuditTailSlot db 1 (ev_id ev) (ev_hash ev) mac None)"

definition writeAuditTailCurrent ::
  "audit_env \<Rightarrow> audit_db \<Rightarrow> audit_event \<Rightarrow> int \<Rightarrow> string \<Rightarrow> string \<Rightarrow> audit_db ares" where
  "writeAuditTailCurrent env db ev primaryID primaryHash primaryMAC =
     res_bind (auditTailCurrentMAC env (ev_id ev) (ev_hash ev) primaryID primaryHash primaryMAC) (\<lambda>mac.
       writeAuditTailSlot db 2 (ev_id ev) (ev_hash ev) mac None)"

definition newestAuditRowVerifies :: "audit_env \<Rightarrow> audit_db \<Rightarrow> audit_tail_state \<Rightarrow> bool ares" where
  "newestAuditRowVerifies env db st =
     res_bind (run_audit db (QRow (newestID st))
         (find (\<lambda>e. ev_id e = newestID st) (ad_events db)))
       (\<lambda>row. case row of None \<Rightarrow> Inr False | Some ev \<Rightarrow> Inr (auditRowVerifies env ev))"

datatype auditTailMove = auditTailStay | auditTailAdvance | auditTailAdvanceCurrent | auditTailPromote

definition auditSequenceUnused :: "audit_db \<Rightarrow> bool ares" where
  "auditSequenceUnused db =
     res_bind (run_audit db QSequenceTable (ad_seq_table db)) (\<lambda>present.
       if \<not> present then Inr True
       else res_bind (run_audit db QSequence (ad_seq db)) (\<lambda>seq. Inr (seq = None \<or> seq = Some 0)))"

definition planAuditTailMoveAfterKeyChange ::
  "audit_env \<Rightarrow> audit_db \<Rightarrow> audit_tail_state \<Rightarrow> auditTailMove ares" where
  "planAuditTailMoveAfterKeyChange env db before =
     (let verified = (\<lambda>move. res_bind (newestAuditRowVerifies env db before)
                        (\<lambda>verifies. Inr (if verifies then auditTailStay else move))) in
      if namesNewest before \<and> \<not> hasCurrent before then verified auditTailAdvanceCurrent
      else if currentNamesNewest before then verified auditTailPromote
      else Inr auditTailStay)"

definition planAuditTailMove :: "audit_env \<Rightarrow> audit_db \<Rightarrow> audit_tail_state \<Rightarrow> auditTailMove ares" where
  "planAuditTailMove env db before =
     (if \<not> hasAnchor before \<and> \<not> hasNewest before
      then res_bind (auditSequenceUnused db)
             (\<lambda>unused. Inr (if unused then auditTailAdvance else auditTailStay))
      else if namesNewest before \<and> auditTailVerifies env before then Inr auditTailAdvance
      else if currentNamesNewest before \<and> currentTailVerifies env before then Inr auditTailAdvanceCurrent
      else planAuditTailMoveAfterKeyChange env db before)"

definition applyAuditTailMove ::
  "audit_env \<Rightarrow> audit_db \<Rightarrow> auditTailMove \<Rightarrow> audit_tail_state \<Rightarrow> audit_event \<Rightarrow> audit_db ares" where
  "applyAuditTailMove env db move before ev =
     (case move of
        auditTailStay \<Rightarrow> Inr db
      | auditTailAdvance \<Rightarrow> writeAuditTail env db ev
      | auditTailAdvanceCurrent \<Rightarrow>
          writeAuditTailCurrent env db ev (anchorID before) (anchorHash before) (anchorMAC before)
      | auditTailPromote \<Rightarrow>
          res_bind (writeAuditTailSlot db 1 (currentID before) (currentHash before) (currentMAC before)
              (Some \<lparr>tb_id = anchorID before, tb_hash = anchorHash before, tb_mac = anchorMAC before\<rparr>))
            (\<lambda>db'. writeAuditTailCurrent env db' ev (currentID before) (currentHash before) (currentMAC before)))"

section \<open>Appending an event\<close>

text \<open>
  AUTOINCREMENT gives a new row an id above every id the table has ever held; the unique
  index on \<^verbatim>\<open>prev_hash\<close> refuses a second row with the same predecessor.
\<close>

definition next_audit_id :: "audit_db \<Rightarrow> int" where
  "next_audit_id db = Max (set (0 # (case ad_seq db of None \<Rightarrow> 0 | Some s \<Rightarrow> s) # map ev_id (ad_events db))) + 1"

definition insertAuditEvent :: "audit_db \<Rightarrow> audit_event \<Rightarrow> (audit_event \<times> audit_db) ares" where
  "insertAuditEvent db ev =
     (let row = ev\<lparr>ev_id := next_audit_id db\<rparr> in
      if \<exists>e \<in> set (ad_events db). ev_prev_hash e = ev_prev_hash ev then Inl AuditDbError
      else run_audit db XInsert
        (row, db\<lparr>ad_events := ad_events db @ [row], ad_seq_table := True, ad_seq := Some (ev_id row)\<rparr>))"

definition complete_event :: "string \<Rightarrow> string \<Rightarrow> audit_event \<Rightarrow> audit_event" where
  "complete_event now prevHash ev =
     (let ev = (if ev_occurred_at ev = [] then ev\<lparr>ev_occurred_at := now\<rparr> else ev);
          ev = (if ev_outcome ev = [] then ev\<lparr>ev_outcome := ''success''\<rparr> else ev);
          ev = (if ev_actor_type ev = []
                then ev\<lparr>ev_actor_type := ''system'',
                        ev_actor_name := (if ev_actor_name ev = [] then ''system'' else ev_actor_name ev)\<rparr>
                else ev)
      in ev\<lparr>ev_prev_hash := prevHash, ev_hash_version := 3\<rparr>)"

definition recordAudit :: "audit_env \<Rightarrow> string \<Rightarrow> audit_db \<Rightarrow> audit_event \<Rightarrow> (audit_event \<times> audit_db) ares" where
  "recordAudit env now db ev =
     res_bind (readAuditTailState db) (\<lambda>before.
     res_bind (planAuditTailMove env db before) (\<lambda>move.
       let ev = complete_event now (newestHash before) ev in
       res_bind (auditHash env ev) (\<lambda>hash.
       res_bind (insertAuditEvent db (ev\<lparr>ev_hash := hash\<rparr>)) (\<lambda>(row, db').
       res_bind (applyAuditTailMove env db' move before row) (\<lambda>db''. Inr (row, db''))))))"

text \<open>\<open>recordAuditInOwnTx\<close>: all the events or none.\<close>

definition recordAuditInOwnTx :: "audit_env \<Rightarrow> string \<Rightarrow> audit_event list \<Rightarrow> audit_db \<Rightarrow> audit_db ares" where
  "recordAuditInOwnTx env now evs db =
     res_bind (run_audit db XBegin db) (\<lambda>tx.
     res_bind (fold_res (\<lambda>ev tx. res_bind (recordAudit env now tx ev) (\<lambda>(row, tx'). Inr tx')) evs tx) (\<lambda>tx.
       run_audit tx XCommit tx))"

end
