(* ===== verification/Audit_Verify.thy ===== *)
theory Audit_Verify
  imports Audit_Log
begin

text \<open>
  The verifier of the audit log: \<^verbatim>\<open>audit_verify.go\<close>, the anchor and head checks of
  \<^verbatim>\<open>audit_head.go\<close> and the tail checks of \<^verbatim>\<open>audit.go\<close> and \<^verbatim>\<open>audit_tail.go\<close>. A walk
  over the rows in id order keeps its state in a record and stops at the first row that
  fails. The digest of history rows is kept as the text that has been written to it.
\<close>

section \<open>Anchor events\<close>

definition auditActionPurge :: string where "auditActionPurge = ''audit.purge''"
definition auditActionRechain :: string where "auditActionRechain = ''audit.rechain''"

definition recordsHead :: "audit_anchor \<Rightarrow> bool" where
  "recordsHead a \<longleftrightarrow> aa_oldest_retained_hash a \<noteq> []"

definition hasHistory :: "audit_anchor \<Rightarrow> bool" where
  "hasHistory a \<longleftrightarrow> aa_history_through_id a \<noteq> None \<and> aa_history_digest a \<noteq> []"

definition inHistory :: "audit_anchor \<Rightarrow> int \<Rightarrow> bool" where
  "inHistory a i = (case aa_history_through_id a of
     None \<Rightarrow> False | Some through \<Rightarrow> aa_history_digest a \<noteq> [] \<and> i \<le> through)"

definition isAuditAnchorAction :: "string \<Rightarrow> bool" where
  "isAuditAnchorAction action \<longleftrightarrow> action = auditActionPurge \<or> action = auditActionRechain"

definition no_anchor :: audit_anchor where
  "no_anchor = \<lparr>aa_oldest_retained_id = None, aa_oldest_retained_hash = [], aa_history_through_id = None,
     aa_history_events = 0, aa_history_digest = []\<rparr>"

definition parseAuditAnchor :: "audit_env \<Rightarrow> audit_event \<Rightarrow> audit_anchor ares" where
  "parseAuditAnchor env ev =
     (if ev_details ev = [] then Inr no_anchor
      else case env_unmarshal env (ev_details ev) of None \<Rightarrow> Inl ErrAuditDetails | Some a \<Rightarrow> Inr a)"

record anchor_event =
  ae_found :: bool
  ae_event :: "audit_event option"
  ae_record :: audit_anchor
  ae_purge_seen :: bool

definition no_anchor_event :: anchor_event where
  "no_anchor_event = \<lparr>ae_found = False, ae_event = None, ae_record = no_anchor, ae_purge_seen = False\<rparr>"

fun scanAnchors :: "audit_env \<Rightarrow> audit_event list \<Rightarrow> anchor_event \<Rightarrow> anchor_event ares" where
  "scanAnchors env [] found = Inr found"
| "scanAnchors env (ev # rows) found =
     (let found = (if ev_action ev = auditActionPurge then found\<lparr>ae_purge_seen := True\<rparr> else found) in
      if \<not> auditRowVerifies env ev then Inl ErrAuditAnchorUnverified
      else res_bind (parseAuditAnchor env ev) (\<lambda>anchor.
        if recordsHead anchor
        then Inr (found\<lparr>ae_found := True, ae_event := Some ev, ae_record := anchor\<rparr>)
        else scanAnchors env rows found))"

definition findAuditAnchor :: "audit_env \<Rightarrow> audit_db \<Rightarrow> anchor_event ares" where
  "findAuditAnchor env db =
     res_bind (run_audit db QAnchors
         (rev (filter (\<lambda>e. isAuditAnchorAction (ev_action e)) (ad_events db))))
       (\<lambda>rows. scanAnchors env rows no_anchor_event)"

section \<open>The history digest and the head check\<close>

record history_digest =
  hd_written :: string
  hd_events :: int

definition auditHistoryLabel :: string where
  "auditHistoryLabel = ''pgedge-ai-workbench/audit-history/v1''"

definition digest_add :: "history_digest \<Rightarrow> audit_event \<Rightarrow> history_digest" where
  "digest_add d ev =
     \<lparr>hd_written = hd_written d @ canonicalFields [auditCanonical auditHistoryLabel ev, ev_hash ev],
      hd_events = hd_events d + 1\<rparr>"

definition digest_matches :: "audit_env \<Rightarrow> history_digest \<Rightarrow> audit_anchor \<Rightarrow> bool" where
  "digest_matches env d a \<longleftrightarrow>
     hd_events d = aa_history_events a \<and> env_sha256 env (hd_written d) = aa_history_digest a"

text \<open>\<open>hc_oldest\<close> is absent until a row has been seen.\<close>

record head_check =
  hc_oldest :: "audit_event option"
  hc_purge_seen :: bool
  hc_anchor :: audit_anchor

definition noteOldest :: "head_check \<Rightarrow> audit_event \<Rightarrow> head_check" where
  "noteOldest h ev = (case hc_oldest h of None \<Rightarrow> h\<lparr>hc_oldest := Some ev\<rparr> | Some _ \<Rightarrow> h)"

definition observe_head :: "audit_env \<Rightarrow> head_check \<Rightarrow> audit_event \<Rightarrow> head_check ares" where
  "observe_head env h ev =
     (let h = noteOldest h ev in
      if \<not> isAuditAnchorAction (ev_action ev) then Inr h
      else res_bind (parseAuditAnchor env ev) (\<lambda>anchor.
        let h = (if ev_action ev = auditActionPurge then h\<lparr>hc_purge_seen := True\<rparr> else h)
        in Inr (if recordsHead anchor then h\<lparr>hc_anchor := anchor\<rparr> else h)))"

definition auditGenesisAllowed :: "audit_event \<Rightarrow> bool" where
  "auditGenesisAllowed ev \<longleftrightarrow> ev_id ev = 1 \<or> ev_action ev = auditActionPurge"

text \<open>A head that is not accounted for is reported with the id of the oldest row.\<close>

definition head_ok :: "head_check \<Rightarrow> (audit_error \<times> int) + unit" where
  "head_ok h =
     (case hc_oldest h of
        None \<Rightarrow> Inr ()
      | Some oldest \<Rightarrow>
          if recordsHead (hc_anchor h)
          then (if ev_hash oldest = aa_oldest_retained_hash (hc_anchor h) then Inr ()
                else Inl (ErrAuditChainBroken, ev_id oldest))
          else if ev_prev_hash oldest = [] \<and> \<not> auditGenesisAllowed oldest
          then Inl (ErrAuditChainBroken, ev_id oldest)
          else if ev_prev_hash oldest \<noteq> [] \<and> \<not> hc_purge_seen h
          then Inl (ErrAuditChainBroken, ev_id oldest)
          else Inr ())"

section \<open>The walk\<close>

record chain_walk =
  cw_history :: history_digest
  cw_head :: head_check
  cw_count :: nat
  cw_prevHash :: string
  cw_first :: bool
  cw_highestVersion :: int
  cw_keyProven :: bool

definition walk_start :: chain_walk where
  "walk_start = \<lparr>cw_history = \<lparr>hd_written = [], hd_events = 0\<rparr>,
     cw_head = \<lparr>hc_oldest = None, hc_purge_seen = False, hc_anchor = no_anchor\<rparr>,
     cw_count = 0, cw_prevHash = [], cw_first = True, cw_highestVersion = 0, cw_keyProven = False\<rparr>"

definition walk_step :: "audit_env \<Rightarrow> audit_anchor \<Rightarrow> audit_event \<Rightarrow> chain_walk \<Rightarrow> chain_walk ares" where
  "walk_step env anchor ev w =
     (if inHistory anchor (ev_id ev)
      then Inr (w\<lparr>cw_history := digest_add (cw_history w) ev, cw_head := noteOldest (cw_head w) ev\<rparr>)
      else if \<not> cw_first w \<and> ev_prev_hash ev \<noteq> cw_prevHash w then Inl ErrAuditChainBroken
      else if ev_hash_version ev < cw_highestVersion w then Inl ErrAuditChainDowngraded
      else case auditHash env ev of
        Inl _ \<Rightarrow> Inl ErrAuditChainBroken
      | Inr want \<Rightarrow>
          if want \<noteq> ev_hash ev then Inl ErrAuditRowUnverified
          else res_bind (observe_head env (cw_head w) ev) (\<lambda>head.
            Inr (w\<lparr>cw_keyProven := True, cw_head := head, cw_highestVersion := ev_hash_version ev\<rparr>)))"

text \<open>
  The loop of \<open>run\<close>. A failure carries the id of the row it stopped at and the walk so far,
  because the caller reads \<open>firstBad\<close>, the count and \<open>keyProven\<close> from it.
\<close>

fun walk_rows ::
  "audit_env \<Rightarrow> audit_anchor \<Rightarrow> audit_event list \<Rightarrow> chain_walk \<Rightarrow> (audit_error \<times> int \<times> chain_walk) + chain_walk" where
  "walk_rows env anchor [] w = Inr w"
| "walk_rows env anchor (ev # rows) w =
     (let w = w\<lparr>cw_count := Suc (cw_count w)\<rparr> in
      case walk_step env anchor ev w of
        Inl e \<Rightarrow> Inl (e, ev_id ev, w)
      | Inr w' \<Rightarrow> walk_rows env anchor rows (w'\<lparr>cw_prevHash := ev_hash ev, cw_first := False\<rparr>))"

section \<open>The tail\<close>

definition checkAuditTail :: "int \<Rightarrow> int option \<Rightarrow> unit ares" where
  "checkAuditTail newest seq =
     (case seq of
        None \<Rightarrow> if newest > 0 then Inl ErrAuditChainBroken else Inr ()
      | Some s \<Rightarrow> if s > newest then Inl ErrAuditChainBroken
                  else if s < newest then Inl ErrAuditChainBroken else Inr ())"

definition max_audit_id :: "audit_db \<Rightarrow> int" where
  "max_audit_id db = (if ad_events db = [] then 0 else Max (set (map ev_id (ad_events db))))"

definition verifyAuditSequence :: "audit_db \<Rightarrow> unit ares" where
  "verifyAuditSequence db =
     res_bind (run_audit db QSequenceTable (ad_seq_table db)) (\<lambda>present.
       if \<not> present then Inl ErrAuditChainBroken
       else res_bind (run_audit db QSequence (max_audit_id db, ad_seq db))
              (\<lambda>(newest, seq). checkAuditTail newest seq))"

definition auditTailAnchorPresent :: "audit_tail_state \<Rightarrow> unit ares" where
  "auditTailAnchorPresent st =
     (if \<not> hasAnchor st \<and> hasNewest st \<and> newestVersion st \<ge> 3 then Inl ErrAuditChainBroken
      else if hasAnchor st \<and> \<not> hasNewest st then Inl ErrAuditChainBroken
      else Inr ())"

definition verifyAuditTailAnchor :: "audit_env \<Rightarrow> audit_db \<Rightarrow> unit ares" where
  "verifyAuditTailAnchor env db =
     res_bind (readAuditTailState db) (\<lambda>st.
     res_bind (auditTailAnchorPresent st) (\<lambda>_.
       if \<not> hasAnchor st then Inr ()
       else if \<not> namesNewest st then Inl ErrAuditChainBroken
       else if \<not> auditTailVerifies env st then Inl ErrAuditChainBroken
       else Inr ()))"

definition verifyAuditTail :: "audit_env \<Rightarrow> audit_db \<Rightarrow> unit ares" where
  "verifyAuditTail env db = res_bind (verifyAuditSequence db) (\<lambda>_. verifyAuditTailAnchor env db)"

definition auditTailBoundRow :: "audit_db \<Rightarrow> tail_binding \<Rightarrow> int \<Rightarrow> (audit_event option) ares" where
  "auditTailBoundRow db b i =
     (if tb_id b \<ge> i then Inr None
      else res_bind (run_audit db (QRow (tb_id b)) (find (\<lambda>e. ev_id e = tb_id b) (ad_events db)))
        (\<lambda>row. case row of
           None \<Rightarrow> Inr None
         | Some ev \<Rightarrow> if ev_hash ev \<noteq> tb_hash b then Inr None else Inr (Some ev)))"

definition checkAuditTailBinding :: "audit_db \<Rightarrow> int \<Rightarrow> tail_binding option \<Rightarrow> unit ares" where
  "checkAuditTailBinding db i b =
     (case b of
        None \<Rightarrow> Inr ()
      | Some binding \<Rightarrow>
          res_bind (auditTailBoundRow db binding i)
            (\<lambda>row. case row of Some _ \<Rightarrow> Inr () | None \<Rightarrow> Inl ErrAuditChainBroken))"

definition primaryBinding :: "audit_tail_state \<Rightarrow> tail_binding option" where
  "primaryBinding t = (if hasAnchor t
     then Some \<lparr>tb_id = anchorID t, tb_hash = anchorHash t, tb_mac = anchorMAC t\<rparr> else None)"

definition verifyAuditTailCurrent :: "audit_env \<Rightarrow> audit_tail_state \<Rightarrow> audit_event \<Rightarrow> unit ares" where
  "verifyAuditTailCurrent env st lastFailing =
     (if newestID st = ev_id lastFailing
      then (if hasCurrent st then Inl ErrAuditChainBroken else Inr ())
      else if \<not> hasCurrent st then Inl ErrAuditChainBroken
      else if \<not> currentNamesNewest st then Inl ErrAuditChainBroken
      else if \<not> currentTailVerifies env st then Inl ErrAuditChainBroken
      else Inr ())"

definition checkRotatedAuditTail ::
  "audit_env \<Rightarrow> audit_db \<Rightarrow> audit_tail_state \<Rightarrow> audit_event \<Rightarrow> unit ares" where
  "checkRotatedAuditTail env db st lastFailing =
     (if \<not> hasAnchor st then Inr ()
      else if namesNewest st \<and> auditTailVerifies env st then Inr ()
      else if anchorID st = ev_id lastFailing \<and> anchorHash st = ev_hash lastFailing \<and>
              \<not> auditTailVerifies env st
      then res_bind (verifyAuditTailCurrent env st lastFailing)
             (\<lambda>_. checkAuditTailBinding db (anchorID st) (bound st))
      else if newestID st = ev_id lastFailing \<and> currentNamesNewest st \<and>
              \<not> currentTailVerifies env st \<and> \<not> auditTailVerifies env st
      then checkAuditTailBinding db (currentID st) (primaryBinding st)
      else Inl ErrAuditChainBroken)"

definition verifyAuditTailAfterKeyChange :: "audit_env \<Rightarrow> audit_db \<Rightarrow> audit_event \<Rightarrow> unit ares" where
  "verifyAuditTailAfterKeyChange env db lastFailing =
     res_bind (verifyAuditSequence db) (\<lambda>_.
     res_bind (readAuditTailState db) (\<lambda>st.
     res_bind (auditTailAnchorPresent st) (\<lambda>_. checkRotatedAuditTail env db st lastFailing)))"

section \<open>Telling a changed secret from tampering\<close>

text \<open>The state of the walk in \<open>looksLikeKeyChange\<close>; a walk that stops is \<open>None\<close>.\<close>

record key_walk =
  kw_run :: nat
  kw_last :: "audit_event option"
  kw_lastFailing :: "audit_event option"
  kw_verifying :: bool

definition key_step :: "audit_env \<Rightarrow> audit_event \<Rightarrow> key_walk \<Rightarrow> key_walk option" where
  "key_step env ev k =
     (if (kw_run k > 0 \<or> kw_verifying k) \<and>
         (case kw_last k of None \<Rightarrow> ev_prev_hash ev \<noteq> [] | Some prior \<Rightarrow> ev_prev_hash ev \<noteq> ev_hash prior)
      then None
      else if auditRowVerifies env ev
      then (if kw_run k = 0 then None else Some (k\<lparr>kw_last := Some ev, kw_verifying := True\<rparr>))
      else if kw_verifying k then None
      else Some (k\<lparr>kw_last := Some ev, kw_run := Suc (kw_run k), kw_lastFailing := Some ev\<rparr>))"

fun key_rows :: "audit_env \<Rightarrow> audit_event list \<Rightarrow> key_walk \<Rightarrow> key_walk option" where
  "key_rows env [] k = Some k"
| "key_rows env (ev # rows) k = Option.bind (key_step env ev k) (key_rows env rows)"

definition key_start :: key_walk where
  "key_start = \<lparr>kw_run = 0, kw_last = None, kw_lastFailing = None, kw_verifying = False\<rparr>"

definition looksLikeKeyChange :: "audit_env \<Rightarrow> audit_db \<Rightarrow> bool ares" where
  "looksLikeKeyChange env db =
     res_bind (run_audit db QEvents (ad_events db)) (\<lambda>rows.
       case key_rows env rows key_start of
         None \<Rightarrow> Inr False
       | Some k \<Rightarrow>
           (case kw_lastFailing k of
              None \<Rightarrow> Inr False
            | Some lastFailing \<Rightarrow>
                (case verifyAuditTailAfterKeyChange env db lastFailing of
                   Inr _ \<Rightarrow> Inr True
                 | Inl e \<Rightarrow> if e = ErrAuditChainBroken then Inr False else Inl e)))"

definition classifyUnverifiedRow :: "audit_env \<Rightarrow> audit_db \<Rightarrow> chain_walk \<Rightarrow> bool \<Rightarrow> audit_error" where
  "classifyUnverifiedRow env db w anchorFound =
     (if \<not> cw_keyProven w \<and> \<not> anchorFound
      then (case looksLikeKeyChange env db of
              Inl e \<Rightarrow> e
            | Inr keyChange \<Rightarrow> if keyChange then ErrAuditKeyMismatch else ErrAuditChainBroken)
      else ErrAuditChainBroken)"

section \<open>The verifier\<close>

record audit_report =
  rp_events :: nat
  rp_first_bad :: int
  rp_history_events :: int
  rp_history_anchor_id :: int

definition report_start :: "anchor_event \<Rightarrow> audit_report" where
  "report_start anchor =
     (let zero = \<lparr>rp_events = 0, rp_first_bad = 0, rp_history_events = 0, rp_history_anchor_id = 0\<rparr> in
      if hasHistory (ae_record anchor)
      then zero\<lparr>rp_history_events := aa_history_events (ae_record anchor),
                rp_history_anchor_id := (case ae_event anchor of None \<Rightarrow> 0 | Some e \<Rightarrow> ev_id e)\<rparr>
      else zero)"

text \<open>The report and the error, \<open>None\<close> for a log that verifies.\<close>

definition verifyAuditLog :: "audit_env \<Rightarrow> audit_db \<Rightarrow> audit_report \<times> audit_error option" where
  "verifyAuditLog env db =
     (if \<not> ad_schema_ok db then (report_start no_anchor_event, Some ErrAuditChainBroken)
      else
        let anchor = (case findAuditAnchor env db of Inl _ \<Rightarrow> no_anchor_event | Inr a \<Rightarrow> a);
            report = report_start anchor in
        case run_audit db QEvents (ad_events db) of
          Inl e \<Rightarrow> (report, Some e)
        | Inr rows \<Rightarrow>
            (case walk_rows env (ae_record anchor) rows walk_start of
               Inl (e, firstBad, w) \<Rightarrow>
                 (report\<lparr>rp_events := cw_count w, rp_first_bad := firstBad\<rparr>,
                  Some (if e = ErrAuditRowUnverified then classifyUnverifiedRow env db w (ae_found anchor) else e))
             | Inr w \<Rightarrow>
                 let report = report\<lparr>rp_events := cw_count w\<rparr> in
                 if hasHistory (ae_record anchor) \<and> \<not> digest_matches env (cw_history w) (ae_record anchor)
                 then (report\<lparr>rp_first_bad := (case ae_event anchor of None \<Rightarrow> 0 | Some e \<Rightarrow> ev_id e)\<rparr>,
                       Some ErrAuditChainBroken)
                 else (case head_ok (cw_head w) of
                         Inl (e, firstBad) \<Rightarrow> (report\<lparr>rp_first_bad := firstBad\<rparr>, Some e)
                       | Inr _ \<Rightarrow>
                           (case verifyAuditTail env db of
                              Inl e \<Rightarrow> (report, Some e) | Inr _ \<Rightarrow> (report, None)))))"

definition VerifyAuditChain :: "audit_env \<Rightarrow> audit_db \<Rightarrow> nat \<times> int \<times> audit_error option" where
  "VerifyAuditChain env db =
     (case verifyAuditLog env db of (report, err) \<Rightarrow> (rp_events report, rp_first_bad report, err))"

end
