(* ===== verification/Audit_Facts.thy ===== *)
theory Audit_Facts
  imports Audit_Verify
begin

text \<open>
  What the audit log guarantees. \<open>chained\<close> says that rows follow one another and verify
  under the key. Every log the server writes is chained from the empty hash, is named by its
  tail anchor, and passes the verifier; and a chained log is determined by its last hash, so
  that a log that passes the verifier under the same tail anchor is the same log.
\<close>

section \<open>Chains\<close>

fun chained :: "audit_env \<Rightarrow> string \<Rightarrow> audit_event list \<Rightarrow> bool" where
  "chained env p [] \<longleftrightarrow> True"
| "chained env p (e # es) \<longleftrightarrow> ev_prev_hash e = p \<and> auditRowVerifies env e \<and> chained env (ev_hash e) es"

lemma chained_append:
  "chained env p (xs @ ys) \<longleftrightarrow> chained env p xs \<and> chained env (if xs = [] then p else ev_hash (last xs)) ys"
  by (induction xs arbitrary: p) auto

lemma chained_verifies: "chained env p es \<Longrightarrow> e \<in> set es \<Longrightarrow> auditRowVerifies env e"
  by (induction es arbitrary: p) auto

text \<open>The text a row's hash is taken over.\<close>

definition rendering :: "audit_event \<Rightarrow> string" where
  "rendering e = auditCanonical (if ev_hash_version e = 2 then ''v2'' else ''v3'') e"

lemma rendering_inject [simp]: "rendering a = rendering b \<longleftrightarrow> content a = content b"
proof -
  have "ev_hash_version a = ev_hash_version b" if "content a = content b"
    using arg_cong[OF that, of ev_hash_version] by (simp add: content_def)
  then show ?thesis by (auto simp: rendering_def auditCanonical_inject)
qed

lemma auditRowVerifies_hash:
  "auditRowVerifies env e \<Longrightarrow> ev_hash e = env_hmac env (auditKey env) (rendering e) \<and> auditKey env \<noteq> []"
  by (auto simp: auditRowVerifies_def auditHash_def auditHashKeyed_def rendering_def split: if_splits)

text \<open>
  What the code relies on of the keyed hash: no two rows at hand collide, and no digest is
  empty.
\<close>

definition no_collision :: "audit_env \<Rightarrow> audit_event list \<Rightarrow> bool" where
  "no_collision env evs \<longleftrightarrow> inj_on (env_hmac env (auditKey env)) (rendering ` set evs) \<and>
     (\<forall>e \<in> set evs. env_hmac env (auditKey env) (rendering e) \<noteq> [])"

lemma hash_determines_content:
  assumes "no_collision env evs" "a \<in> set evs" "b \<in> set evs" "auditRowVerifies env a" "auditRowVerifies env b"
    and "ev_hash a = ev_hash b"
  shows "content a = content b"
  using assms auditRowVerifies_hash[of env a] auditRowVerifies_hash[of env b]
  by (auto simp: no_collision_def dest: inj_onD)

lemma hash_nonempty: "no_collision env evs \<Longrightarrow> a \<in> set evs \<Longrightarrow> auditRowVerifies env a \<Longrightarrow> ev_hash a \<noteq> []"
  using auditRowVerifies_hash[of env a] by (auto simp: no_collision_def)

text \<open>Two chains from the empty hash that end in the same hash hold the same rows.\<close>

lemma content_prev: "content a = content b \<Longrightarrow> ev_prev_hash a = ev_prev_hash b"
  by (cases a; cases b) (simp add: content_def)

lemma content_action: "content a = content b \<Longrightarrow> ev_action a = ev_action b"
  by (cases a; cases b) (simp add: content_def)

lemma chain_determined:
  assumes "no_collision env (xs @ ys)" "chained env [] xs" "chained env [] ys"
    and "(if xs = [] then [] else ev_hash (last xs)) = (if ys = [] then [] else ev_hash (last ys))"
  shows "map content xs = map content ys"
  using assms
proof (induction xs arbitrary: ys rule: rev_induct)
  case Nil
  have "ys = []"
  proof (rule ccontr)
    assume "ys \<noteq> []"
    then have "ev_hash (last ys) \<noteq> []" using Nil chained_verifies by (intro hash_nonempty[of env]) auto
    with Nil.prems(4) \<open>ys \<noteq> []\<close> show False by simp
  qed
  then show ?case by simp
next
  case (snoc x xs)
  have x: "auditRowVerifies env x" "chained env [] xs" and px: "ev_prev_hash x = (if xs = [] then [] else ev_hash (last xs))"
    using snoc.prems(2) by (auto simp: chained_append)
  then have "ev_hash x \<noteq> []" using snoc.prems(1) by (intro hash_nonempty) auto
  with snoc.prems(4) have "ys \<noteq> []" by auto
  then obtain zs y where ys: "ys = zs @ [y]" by (metis append_butlast_last_id)
  then have y: "auditRowVerifies env y" "chained env [] zs" and py: "ev_prev_hash y = (if zs = [] then [] else ev_hash (last zs))"
    using snoc.prems(3) by (auto simp: chained_append)
  have c: "content x = content y"
    using hash_determines_content[OF snoc.prems(1), of x y] x(1) y(1) snoc.prems(4) ys by simp
  have "map content xs = map content zs"
  proof (rule snoc.IH[OF _ x(2) y(2)])
    show "no_collision env (xs @ zs)" using snoc.prems(1) ys by (auto simp: no_collision_def intro: inj_on_subset)
    show "(if xs = [] then [] else ev_hash (last xs)) = (if zs = [] then [] else ev_hash (last zs))"
      using content_prev[OF c] px py by simp
  qed
  with c ys show ?case by simp
qed

section \<open>The walk\<close>

lemma not_inHistory: "\<not> hasHistory a \<Longrightarrow> \<not> inHistory a i"
  by (auto simp: hasHistory_def inHistory_def split: option.splits)

text \<open>A walk that holds every row to the key accepts chained rows only.\<close>

lemma walk_rows_chained:
  assumes "walk_rows env a rows w = Inr w'" and "\<not> hasHistory a"
  shows "chained env (if rows = [] then [] else ev_prev_hash (hd rows)) rows \<and>
    (rows \<noteq> [] \<longrightarrow> cw_first w \<or> ev_prev_hash (hd rows) = cw_prevHash w)"
  using assms(1)
proof (induction rows arbitrary: w)
  case (Cons e rows)
  let ?w = "w\<lparr>cw_count := Suc (cw_count w)\<rparr>"
  from Cons.prems obtain w1 where step: "walk_step env a e ?w = Inr w1"
    and rest: "walk_rows env a rows (w1\<lparr>cw_prevHash := ev_hash e, cw_first := False\<rparr>) = Inr w'"
    by (auto simp: Let_def split: sum.splits)
  have "auditRowVerifies env e" "cw_first w \<or> ev_prev_hash e = cw_prevHash w"
    using step not_inHistory[OF assms(2)]
    by (auto simp: walk_step_def auditRowVerifies_def split: if_splits sum.splits)
  with Cons.IH[OF rest] show ?case by (cases rows) auto
qed simp

lemma walk_rows_head:
  assumes "walk_rows env a rows w = Inr w'" and "\<not> hasHistory a" and "\<forall>e \<in> set rows. \<not> isAuditAnchorAction (ev_action e)"
  shows "cw_head w' = (if rows = [] then cw_head w else noteOldest (cw_head w) (hd rows)) \<and>
    cw_count w' = cw_count w + length rows"
  using assms(1,3)
proof (induction rows arbitrary: w)
  case (Cons e rows)
  let ?w = "w\<lparr>cw_count := Suc (cw_count w)\<rparr>"
  from Cons.prems(1) obtain w1 where step: "walk_step env a e ?w = Inr w1"
    and rest: "walk_rows env a rows (w1\<lparr>cw_prevHash := ev_hash e, cw_first := False\<rparr>) = Inr w'"
    by (auto simp: Let_def split: sum.splits)
  have w1: "cw_head w1 = noteOldest (cw_head w) e" "cw_count w1 = Suc (cw_count w)"
    using step Cons.prems(2) not_inHistory[OF assms(2)]
    by (auto simp: walk_step_def observe_head_def Let_def split: if_splits sum.splits)
  have idem: "noteOldest (noteOldest h e) e' = noteOldest h e" for h e'
    by (simp add: noteOldest_def split: option.splits)
  show ?case using Cons.IH[OF rest] Cons.prems(2) w1 idem by auto
qed simp

text \<open>And it accepts every chain of rows that were all hashed under the current version.\<close>

lemma walk_rows_accepts:
  assumes "chained env (cw_prevHash w) rows" "\<forall>e \<in> set rows. ev_hash_version e = 3" "cw_highestVersion w \<le> 3"
    and "\<not> hasHistory a" "\<forall>e \<in> set rows. \<not> isAuditAnchorAction (ev_action e)"
  shows "\<exists>w'. walk_rows env a rows w = Inr w'"
  using assms
proof (induction rows arbitrary: w)
  case (Cons e rows)
  let ?w = "w\<lparr>cw_count := Suc (cw_count w)\<rparr>"
  from Cons.prems have e: "ev_prev_hash e = cw_prevHash w" "auditHash env e = Inr (ev_hash e)" "ev_hash_version e = 3"
    by (auto simp: auditRowVerifies_def split: sum.splits)
  have step: "walk_step env a e ?w = Inr (?w\<lparr>cw_keyProven := True, cw_head := noteOldest (cw_head w) e, cw_highestVersion := 3\<rparr>)"
    using e Cons.prems(3,5) not_inHistory[OF assms(4)] by (simp add: walk_step_def observe_head_def)
  show ?case using Cons.prems by (simp add: step Cons.IH)
qed simp

section \<open>Logs the server writes\<close>

definition fresh_db :: "audit_db \<Rightarrow> bool" where
  "fresh_db db \<longleftrightarrow> ad_events db = [] \<and> ad_seq_table db \<and> (ad_seq db = None \<or> ad_seq db = Some 0) \<and>
     ad_primary db = None \<and> ad_current db = None \<and> ad_schema_ok db"

text \<open>
  A run of the server under one key: a fresh database, and events appended by
  \<open>recordAudit\<close>; purges and re-chains, which write anchor events, are not part of it. Which
  statements fail may change at any time; a failed append is rolled back.
\<close>

inductive audit_run :: "audit_env \<Rightarrow> audit_db \<Rightarrow> bool" for env where
  fresh: "fresh_db db \<Longrightarrow> audit_run env db"
| append: "audit_run env db \<Longrightarrow> \<not> isAuditAnchorAction (ev_action ev)
    \<Longrightarrow> recordAudit env now db ev = Inr (row, db') \<Longrightarrow> audit_run env db'"
| failures: "audit_run env db \<Longrightarrow> audit_run env (db\<lparr>ad_fails := f\<rparr>)"

definition audit_inv :: "audit_env \<Rightarrow> audit_db \<Rightarrow> bool" where
  "audit_inv env db \<longleftrightarrow>
     chained env [] (ad_events db) \<and>
     (\<forall>e \<in> set (ad_events db). ev_hash_version e = 3 \<and> \<not> isAuditAnchorAction (ev_action e)) \<and>
     map ev_id (ad_events db) = map (\<lambda>i. int i + 1) [0..<length (ad_events db)] \<and>
     ad_seq_table db \<and> ad_schema_ok db \<and> ad_current db = None \<and>
     (if ad_events db = [] then (ad_seq db = None \<or> ad_seq db = Some 0) \<and> ad_primary db = None
      else ad_seq db = Some (int (length (ad_events db))) \<and>
        (\<exists>mac. auditTailMAC env (ev_id (last (ad_events db))) (ev_hash (last (ad_events db))) = Inr mac \<and>
          ad_primary db = Some \<lparr>tl_event_id = ev_id (last (ad_events db)),
            tl_event_hash = ev_hash (last (ad_events db)), tl_mac = mac, tl_bound = None\<rparr>))"

lemma complete_event_simps [simp]:
  "ev_prev_hash (complete_event now p ev) = p" "ev_hash_version (complete_event now p ev) = 3"
  "ev_action (complete_event now p ev) = ev_action ev" "ev_target_id (complete_event now p ev) = ev_target_id ev"
  by (simp_all add: complete_event_def Let_def)

lemma auditHash_update: "auditHash env (e\<lparr>ev_hash := h, ev_id := i\<rparr>) = auditHash env e"
  by (simp add: auditHash_def auditHashKeyed_def auditCanonical_def)

lemma inv_ids: "audit_inv env db \<Longrightarrow> ad_events db \<noteq> [] \<Longrightarrow> ev_id (last (ad_events db)) = int (length (ad_events db))"
proof -
  assume inv: "audit_inv env db" and ne: "ad_events db \<noteq> []"
  then have "last (map ev_id (ad_events db)) = last (map (\<lambda>i. int i + 1) [0..<length (ad_events db)])"
    by (simp add: audit_inv_def)
  with ne show ?thesis by (simp add: last_map of_nat_diff Suc_le_eq)
qed

lemma inv_next_id:
  assumes "audit_inv env db"
  shows "next_audit_id db = int (length (ad_events db)) + 1"
proof -
  let ?n = "length (ad_events db)"
  have ids: "map ev_id (ad_events db) = map (\<lambda>i. int i + 1) [0..<?n]" using assms by (simp add: audit_inv_def)
  have "Max (set (0 # (case ad_seq db of None \<Rightarrow> 0 | Some s \<Rightarrow> s) # map ev_id (ad_events db))) = int ?n"
    unfolding ids using assms by (intro Max_eqI) (auto simp: audit_inv_def split: if_splits)
  then show ?thesis unfolding next_audit_id_def by simp
qed

lemma inv_max_id:
  assumes "audit_inv env db"
  shows "max_audit_id db = int (length (ad_events db))"
proof (cases "ad_events db = []")
  case False
  let ?n = "length (ad_events db)"
  have ids: "map ev_id (ad_events db) = map (\<lambda>i. int i + 1) [0..<?n]" using assms by (simp add: audit_inv_def)
  have "int ?n = int (?n - 1) + 1" "?n - 1 < ?n" using False by (auto simp: of_nat_diff Suc_le_eq)
  then have "int ?n \<in> (\<lambda>i. int i + 1) ` {0..<?n}" by (metis atLeastLessThan_iff imageI le0)
  then have "Max (set (map ev_id (ad_events db))) = int ?n"
    unfolding ids by (intro Max_eqI) auto
  with False show ?thesis by (simp add: max_audit_id_def)
qed (simp add: max_audit_id_def)

lemma inv_plan:
  assumes "audit_inv env db" and "planAuditTailMove env db (tail_state_of db) = Inr move"
  shows "move = auditTailAdvance"
  using assms
  by (cases "ad_events db = []")
     (auto simp: planAuditTailMove_def audit_inv_def tail_state_of_def auditSequenceUnused_def namesNewest_def
        auditTailVerifies_def auditTailMACVerifies_def Let_def go_simps split: if_splits)

lemma recordAudit_inv_shape:
  assumes "audit_inv env db" and "recordAudit env now db ev = Inr (row, db')"
  shows "ev_prev_hash row = (if ad_events db = [] then [] else ev_hash (last (ad_events db))) \<and>
    auditRowVerifies env row \<and> ev_hash_version row = 3 \<and> ev_action row = ev_action ev \<and>
    ev_target_id row = ev_target_id ev \<and> ev_id row = int (length (ad_events db)) + 1 \<and>
    (\<exists>mac. auditTailMAC env (ev_id row) (ev_hash row) = Inr mac \<and>
      db' = db\<lparr>ad_events := ad_events db @ [row], ad_seq_table := True, ad_seq := Some (ev_id row),
        ad_primary := Some \<lparr>tl_event_id = ev_id row, tl_event_hash = ev_hash row, tl_mac = mac, tl_bound = None\<rparr>\<rparr>)"
proof -
  let ?before = "tail_state_of db"
  let ?ev = "complete_event now (newestHash ?before) ev"
  from assms(2) obtain move hash db1 where plan: "planAuditTailMove env db ?before = Inr move"
    and hash: "auditHash env ?ev = Inr hash"
    and ins: "insertAuditEvent db (?ev\<lparr>ev_hash := hash\<rparr>) = Inr (row, db1)"
    and apply_: "applyAuditTailMove env db1 move ?before row = Inr db'"
    by (auto simp: recordAudit_def readAuditTailState_def Let_def go_simps)
  from ins have row: "row = ?ev\<lparr>ev_hash := hash, ev_id := next_audit_id db\<rparr>"
    and db1: "db1 = db\<lparr>ad_events := ad_events db @ [row], ad_seq_table := True, ad_seq := Some (ev_id row)\<rparr>"
    by (auto simp: insertAuditEvent_def Let_def go_simps split: if_splits)
  have "auditHash env row = Inr hash"
    unfolding row using hash by (simp only: auditHash_update)
  moreover have "newestHash ?before = (if ad_events db = [] then [] else ev_hash (last (ad_events db)))"
    by (simp add: tail_state_of_def Let_def)
  moreover have "move = auditTailAdvance" by (rule inv_plan[OF assms(1) plan])
  with apply_ obtain mac where "auditTailMAC env (ev_id row) (ev_hash row) = Inr mac"
    "db' = db1\<lparr>ad_primary := Some \<lparr>tl_event_id = ev_id row, tl_event_hash = ev_hash row, tl_mac = mac, tl_bound = None\<rparr>\<rparr>"
    by (auto simp: applyAuditTailMove_def writeAuditTail_def writeAuditTailSlot_def Let_def go_simps)
  ultimately show ?thesis using inv_next_id[OF assms(1)] by (simp add: row db1 auditRowVerifies_def)
qed

lemma recordAudit_fails:
  "audit_inv env db \<Longrightarrow> recordAudit env now db ev = Inr (row, db') \<Longrightarrow> ad_fails db' = ad_fails db"
  using recordAudit_inv_shape by fastforce

lemma recordAudit_preserves:
  assumes "audit_inv env db" "\<not> isAuditAnchorAction (ev_action ev)" "recordAudit env now db ev = Inr (row, db')"
  shows "audit_inv env db'"
  using assms recordAudit_inv_shape[OF assms(1,3)]
  by (auto simp: audit_inv_def chained_append)

lemma audit_run_inv: "audit_run env db \<Longrightarrow> audit_inv env db"
proof (induction rule: audit_run.induct)
  case (fresh db)
  then show ?case by (auto simp: fresh_db_def audit_inv_def)
next
  case (append db ev now row db')
  then show ?case using recordAudit_preserves by blast
next
  case (failures db f)
  then show ?case by (simp add: audit_inv_def)
qed

lemma no_anchor_rows:
  assumes "\<forall>e \<in> set (ad_events db). \<not> isAuditAnchorAction (ev_action e)" "\<not> ad_fails db QAnchors"
  shows "findAuditAnchor env db = Inr no_anchor_event"
  using assms by (simp add: findAuditAnchor_def run_audit_def)

lemma no_history [simp]: "\<not> hasHistory no_anchor" "\<not> recordsHead no_anchor" "ae_record no_anchor_event = no_anchor"
  by (simp_all add: hasHistory_def recordsHead_def no_anchor_def no_anchor_event_def)

section \<open>Properties\<close>

lemma verify_run:
  assumes "audit_run env db" and "\<forall>q. \<not> ad_fails db q"
  shows "VerifyAuditChain env db = (length (ad_events db), 0, None)"
proof -
  have inv: "audit_inv env db" by (rule audit_run_inv[OF assms(1)])
  let ?rows = "ad_events db"
  have ord: "\<forall>e \<in> set ?rows. \<not> isAuditAnchorAction (ev_action e)" using inv by (simp add: audit_inv_def)
  obtain w where w: "walk_rows env no_anchor ?rows walk_start = Inr w"
    using walk_rows_accepts[of env walk_start ?rows no_anchor] inv by (auto simp: audit_inv_def walk_start_def)
  note walk = walk_rows_head[OF w no_history(1) ord]
  have "?rows \<noteq> [] \<Longrightarrow> ev_id (hd ?rows) = 1 \<and> ev_prev_hash (hd ?rows) = []"
    using inv by (cases ?rows) (auto simp: audit_inv_def upt_conv_Cons simp del: upt_Suc)
  then have "head_ok (cw_head w) = Inr ()"
    using walk by (auto simp: head_ok_def walk_start_def noteOldest_def auditGenesisAllowed_def)
  moreover have "max_audit_id db = int (length ?rows)" by (rule inv_max_id[OF inv])
  then have "verifyAuditTail env db = Inr ()"
    using inv assms(2)
    by (auto simp: verifyAuditTail_def verifyAuditSequence_def verifyAuditTailAnchor_def readAuditTailState_def
        run_audit_def audit_inv_def checkAuditTail_def tail_state_of_def auditTailAnchorPresent_def namesNewest_def
        auditTailVerifies_def auditTailMACVerifies_def Let_def split: if_splits)
  moreover have "findAuditAnchor env db = Inr no_anchor_event" using no_anchor_rows ord assms(2) by blast
  ultimately show ?thesis
    using inv assms(2) w walk
    by (simp add: VerifyAuditChain_def verifyAuditLog_def audit_inv_def Let_def run_audit_def report_start_def walk_start_def)
qed

text \<open>
  C14. A log the server wrote verifies: after any sequence of appended events, whatever
  failed in between, the verifier examines every row and reports no error.
\<close>

theorem recorded_log_verifies:
  assumes "audit_run env db" and "\<forall>q. \<not> ad_fails db q"
  shows "VerifyAuditChain env db = (length (ad_events db), 0, None)"
  using assms by (rule verify_run)

text \<open>The example environment: a digest that keeps the text, and an empty database.\<close>

definition sample_env :: audit_env where
  "sample_env = \<lparr>env_hmac = (\<lambda>k m. k @ m), env_sha256 = id, env_unmarshal = (\<lambda>_. None), auditKey = ''k''\<rparr>"

definition empty_db :: audit_db where
  "empty_db = \<lparr>ad_events = [], ad_seq_table = True, ad_seq = None, ad_primary = None, ad_current = None,
     ad_schema_ok = True, ad_fails = (\<lambda>_. False)\<rparr>"

definition login_event :: audit_event where
  "login_event = \<lparr>ev_id = 0, ev_occurred_at = ''t1'', ev_actor_type = ''user'', ev_actor_id = Some 1,
     ev_actor_name = ''ann'', ev_actor_ip = '''', ev_action = ''user.login'', ev_target_type = '''',
     ev_target_id = None, ev_target_name = '''', ev_outcome = ''success'', ev_error = '''', ev_details = '''',
     ev_prev_hash = '''', ev_hash = '''', ev_hash_version = 0\<rparr>"

definition one_event_db :: audit_db where
  "one_event_db = (case recordAudit sample_env ''now'' empty_db login_event of Inl _ \<Rightarrow> empty_db | Inr (row, db) \<Rightarrow> db)"

lemma empty_run: "audit_run sample_env empty_db"
  by (rule audit_run.fresh) (simp add: fresh_db_def empty_db_def)

lemma one_event_recorded: "\<exists>row. recordAudit sample_env ''now'' empty_db login_event = Inr (row, one_event_db)"
proof -
  have "is_ok (recordAudit sample_env ''now'' empty_db login_event)" by code_simp
  then show ?thesis by (auto simp: one_event_db_def is_ok_iff split: prod.splits)
qed

lemma one_event_run: "audit_run sample_env one_event_db"
proof -
  have "\<not> isAuditAnchorAction (ev_action login_event)" by code_simp
  with empty_run one_event_recorded show ?thesis by (auto intro: audit_run.append)
qed

lemma one_event_facts: "length (ad_events one_event_db) = 1" "\<not> ad_fails one_event_db q"
proof -
  show "length (ad_events one_event_db) = 1" by code_simp
  obtain row where "recordAudit sample_env ''now'' empty_db login_event = Inr (row, one_event_db)"
    using one_event_recorded by blast
  from recordAudit_fails[OF audit_run_inv[OF empty_run] this] have "ad_fails one_event_db = ad_fails empty_db" .
  then show "\<not> ad_fails one_event_db q" by (simp add: empty_db_def)
qed

theorem recorded_log_verifies_witness: "VerifyAuditChain sample_env one_event_db = (1, 0, None)"
  using recorded_log_verifies[OF one_event_run] one_event_facts by simp

text \<open>A verifier that accepted no anchor holds every row to the key.\<close>

lemma verified_no_anchor:
  assumes "VerifyAuditChain env db = (n, b, None)"
    and "\<forall>e \<in> set (ad_events db). isAuditAnchorAction (ev_action e) \<longrightarrow> \<not> auditRowVerifies env e"
  shows "chained env [] (ad_events db) \<and> verifyAuditTail env db = Inr ()"
proof -
  let ?rows = "ad_events db"
  have "(case findAuditAnchor env db of Inl _ \<Rightarrow> no_anchor_event | Inr a \<Rightarrow> a) = no_anchor_event"
  proof (cases "rev (filter (\<lambda>e. isAuditAnchorAction (ev_action e)) ?rows)")
    case (Cons e es)
    then have "e \<in> set (filter (\<lambda>e. isAuditAnchorAction (ev_action e)) ?rows)" by (metis list.set_intros(1) set_rev)
    with assms(2) have "\<not> auditRowVerifies env e" by simp
    with Cons show ?thesis by (auto simp: findAuditAnchor_def run_audit_def)
  qed (auto simp: findAuditAnchor_def run_audit_def)
  then obtain w where w: "walk_rows env no_anchor ?rows walk_start = Inr w"
    and head: "head_ok (cw_head w) = Inr ()" and tail: "verifyAuditTail env db = Inr ()"
    using assms(1)
    by (auto simp: VerifyAuditChain_def verifyAuditLog_def Let_def go_simps split: if_splits sum.splits prod.splits)
  note ch = walk_rows_chained[OF w no_history(1)]
  then have "\<forall>e \<in> set ?rows. \<not> isAuditAnchorAction (ev_action e)"
    using assms(2) chained_verifies by blast
  from walk_rows_head[OF w no_history(1) this] head
  have "?rows \<noteq> [] \<Longrightarrow> ev_prev_hash (hd ?rows) = []"
    by (auto simp: head_ok_def walk_start_def noteOldest_def split: if_splits)
  with ch tail show ?thesis by (cases "?rows = []") auto
qed


text \<open>The example log with another actor's name in its row.\<close>

definition tampered_db :: audit_db where
  "tampered_db = one_event_db\<lparr>ad_events := map (\<lambda>e. e\<lparr>ev_actor_name := ''bob''\<rparr>) (ad_events one_event_db)\<rparr>"


section \<open>Appending does not fail\<close>

lemma chained_pred:
  assumes "chained env [] (xs @ [x])" "e \<in> set (xs @ [x])"
  shows "ev_prev_hash e = [] \<or> (\<exists>y \<in> set xs. ev_prev_hash e = ev_hash y)"
proof -
  obtain as bs where split: "xs @ [x] = as @ e # bs" using assms(2) by (meson split_list)
  then have prev: "ev_prev_hash e = (if as = [] then [] else ev_hash (last as))"
    using assms(1) chained_append[of env "[]" as "e # bs"] by simp
  have "xs = as @ butlast (e # bs)"
    using split by (metis butlast_append butlast_snoc list.distinct(1))
  then have "set as \<subseteq> set xs" by (metis set_append sup_ge1)
  then have "as \<noteq> [] \<Longrightarrow> last as \<in> set xs" by (simp add: subset_eq)
  then show ?thesis using prev by (cases "as = []") auto
qed

lemma newest_hash_unused:
  assumes "chained env [] xs" "no_collision env xs" "xs \<noteq> []" "e \<in> set xs"
  shows "ev_prev_hash e \<noteq> ev_hash (last xs)"
  using assms
proof (induction xs arbitrary: e rule: rev_induct)
  case (snoc x xs)
  show ?case
  proof
    assume eq: "ev_prev_hash e = ev_hash (last (xs @ [x]))"
    have x: "auditRowVerifies env x" "chained env [] xs"
      and px: "ev_prev_hash x = (if xs = [] then [] else ev_hash (last xs))"
      using snoc.prems(1) by (auto simp: chained_append)
    have "ev_hash x \<noteq> []" using hash_nonempty[OF snoc.prems(2), of x] x(1) by simp
    with chained_pred[OF snoc.prems(1,4)] eq obtain y where y: "y \<in> set xs" "ev_hash y = ev_hash x" by auto
    have "content y = content x"
      using hash_determines_content[OF snoc.prems(2), of y x] y x(1) chained_verifies[OF x(2) y(1)] by simp
    from content_prev[OF this] have "ev_prev_hash y = ev_hash (last xs)" using px y(1) by auto
    moreover have "no_collision env xs" using snoc.prems(2) by (auto simp: no_collision_def intro: inj_on_subset)
    moreover have "xs \<noteq> []" using y(1) by auto
    ultimately show False using snoc.IH[OF x(2) _ _ y(1)] by simp
  qed
qed simp

lemma append_ok:
  assumes "audit_run env db" "\<forall>q. \<not> ad_fails db q" "no_collision env (ad_events db)" "auditKey env \<noteq> []"
  shows "\<exists>row db'. recordAudit env now db ev = Inr (row, db') \<and> ad_events db' = ad_events db @ [row]"
proof -
  have inv: "audit_inv env db" by (rule audit_run_inv[OF assms(1)])
  let ?before = "tail_state_of db"
  let ?ev = "complete_event now (newestHash ?before) ev"
  have plan: "planAuditTailMove env db ?before = Inr auditTailAdvance"
    using inv assms(2)
    by (cases "ad_events db = []")
       (auto simp: planAuditTailMove_def audit_inv_def tail_state_of_def auditSequenceUnused_def namesNewest_def
          auditTailVerifies_def auditTailMACVerifies_def Let_def run_audit_def split: if_splits)
  obtain hash where hash: "auditHash env ?ev = Inr hash"
    using assms(4) by (simp add: auditHash_def auditHashKeyed_def)
  have "\<not> (\<exists>e \<in> set (ad_events db). ev_prev_hash e = newestHash ?before)"
    using inv newest_hash_unused[OF _ assms(3)] by (auto simp: audit_inv_def tail_state_of_def Let_def)
  then obtain row db1 where "insertAuditEvent db (?ev\<lparr>ev_hash := hash\<rparr>) = Inr (row, db1)"
    using assms(2) by (simp add: insertAuditEvent_def Let_def run_audit_def)
  moreover from this have db1: "ad_events db1 = ad_events db @ [row]" "ad_fails db1 = ad_fails db"
    by (auto simp: insertAuditEvent_def Let_def go_simps split: if_splits)
  moreover obtain db2 where "applyAuditTailMove env db1 auditTailAdvance ?before row = Inr db2"
    "ad_events db2 = ad_events db1"
    using assms(2,4) db1(2)
    by (simp add: applyAuditTailMove_def writeAuditTail_def auditTailMAC_def writeAuditTailSlot_def run_audit_def Let_def)
  ultimately show ?thesis
    using plan hash assms(2) by (simp add: recordAudit_def readAuditTailState_def run_audit_def Let_def)
qed

text \<open>
  C16. Appending succeeds: on a log the server wrote, as long as the database does not fail
  and the keyed hash has not collided, every event can be recorded, so that an audited change
  is never refused for the state of the log.
\<close>

theorem append_succeeds:
  assumes "audit_run env db" "\<forall>q. \<not> ad_fails db q" "no_collision env (ad_events db)" "auditKey env \<noteq> []"
  shows "\<exists>row db'. recordAudit env now db ev = Inr (row, db') \<and> ad_events db' = ad_events db @ [row]"
  using assms by (rule append_ok)

theorem append_succeeds_witness:
  "\<exists>row db'. recordAudit sample_env ''later'' one_event_db login_event = Inr (row, db') \<and>
     ad_events db' = ad_events one_event_db @ [row]"
  by (rule append_succeeds[OF one_event_run])
     (auto simp: one_event_facts no_collision_def sample_env_def intro: inj_onI)

lemma recordAudit_all_run:
  assumes "audit_run env db" "\<forall>ev \<in> set evs. \<not> isAuditAnchorAction (ev_action ev)"
    and "fold_res (\<lambda>ev tx. res_bind (recordAudit env now tx ev) (\<lambda>(row, tx'). Inr tx')) evs db = Inr db'"
  shows "audit_run env db' \<and> map ev_action (ad_events db') = map ev_action (ad_events db) @ map ev_action evs"
  using assms
proof (induction evs arbitrary: db)
  case (Cons ev evs)
  then obtain row db1 where rec: "recordAudit env now db ev = Inr (row, db1)"
    and rest: "fold_res (\<lambda>ev tx. res_bind (recordAudit env now tx ev) (\<lambda>(row, tx'). Inr tx')) evs db1 = Inr db'"
    by (auto simp: go_simps)
  have "audit_run env db1" using audit_run.append[OF Cons.prems(1) _ rec] Cons.prems(2) by simp
  from Cons.IH[OF this _ rest] recordAudit_inv_shape[OF audit_run_inv[OF Cons.prems(1)] rec] Cons.prems(2)
  show ?case by auto
qed simp

text \<open>
  A batch of events is recorded whole and in order: when \<open>recordAuditInOwnTx\<close> commits, the
  log holds exactly the events it held followed by the given ones, and it verifies.
\<close>

theorem batch_recorded:
  assumes "audit_run env db" "\<forall>ev \<in> set evs. \<not> isAuditAnchorAction (ev_action ev)"
    and "recordAuditInOwnTx env now evs db = Inr db'" "\<forall>q. \<not> ad_fails db' q"
  shows "map ev_action (ad_events db') = map ev_action (ad_events db) @ map ev_action evs \<and>
    VerifyAuditChain env db' = (length (ad_events db) + length evs, 0, None)"
proof -
  have run: "audit_run env db'" and acts: "map ev_action (ad_events db') = map ev_action (ad_events db) @ map ev_action evs"
    using recordAudit_all_run[OF assms(1,2)] assms(3) by (auto simp: recordAuditInOwnTx_def go_simps)
  from arg_cong[OF acts, of length] have "length (ad_events db') = length (ad_events db) + length evs" by simp
  with verify_run[OF run assms(4)] acts show ?thesis by simp
qed

definition two_event_db :: audit_db where
  "two_event_db = (case recordAuditInOwnTx sample_env ''later'' [login_event] one_event_db of
     Inl _ \<Rightarrow> one_event_db | Inr db \<Rightarrow> db)"

theorem batch_recorded_witness: "VerifyAuditChain sample_env two_event_db = (2, 0, None)"
proof -
  have "\<exists>db. recordAuditInOwnTx sample_env ''later'' [login_event] one_event_db = Inr db"
  proof -
    obtain row db' where rec: "recordAudit sample_env ''later'' one_event_db login_event = Inr (row, db')"
      using append_ok[OF one_event_run, of "''later''" login_event]
      by (auto simp: one_event_facts no_collision_def sample_env_def intro: inj_onI)
    from recordAudit_fails[OF audit_run_inv[OF one_event_run] rec] rec show ?thesis
      by (simp add: recordAuditInOwnTx_def run_audit_def one_event_facts)
  qed
  then have two: "recordAuditInOwnTx sample_env ''later'' [login_event] one_event_db = Inr two_event_db"
    by (auto simp: two_event_db_def)
  then have fails: "ad_fails two_event_db = ad_fails one_event_db"
    using recordAudit_fails[OF audit_run_inv[OF one_event_run]] by (auto simp: recordAuditInOwnTx_def go_simps)
  have "VerifyAuditChain sample_env two_event_db = (length (ad_events one_event_db) + length [login_event], 0, None)"
    using batch_recorded[OF one_event_run _ two] fails one_event_facts(2)
    by (simp add: login_event_def isAuditAnchorAction_def auditActionPurge_def auditActionRechain_def)
  then show ?thesis by (simp add: one_event_facts(1))
qed

end
