(* ===== verification/Scope_Mutations.thy ===== *)
theory Scope_Mutations
  imports Stored_Scope Audit_Facts
begin

text \<open>
  The audited writes of a token's scope: \<open>setTokenScope\<close> of \<^verbatim>\<open>token_superuser_owner.go\<close>,
  \<open>clearTokenScope\<close> and the transaction that both open (\<^verbatim>\<open>token_scope.go\<close>). The state is the
  store together with its audit log; a transaction that fails leaves both as they were, so a
  write returns the new state or the error. The failure event that \<open>failAudit\<close> hands to the
  coalescer after the roll-back is not modelled. Encoding the details as JSON is a parameter.
\<close>

section \<open>Events of a mutation\<close>

datatype scope_details =
    ConnDetails "scoped_connection list" "scoped_connection list"
  | NameDetails "string list" "string list"
  | ClearDetails "scoped_connection list" "mcp_name list" "permission list"

definition actionSetConnectionScope :: string where "actionSetConnectionScope = ''token.scope.set_connections''"
definition actionSetMCPScope :: string where "actionSetMCPScope = ''token.scope.set_tools''"
definition actionSetAdminScope :: string where "actionSetAdminScope = ''token.scope.set_admin''"
definition actionClearScope :: string where "actionClearScope = ''token.scope.clear''"

lemmas scope_actions = actionSetConnectionScope_def actionSetMCPScope_def actionSetAdminScope_def actionClearScope_def

section \<open>The transaction\<close>

record audited_store =
  as_auth :: auth_store
  as_audit :: audit_db

text \<open>The environment of a mutation: the keyed hash, the clock and the JSON encoder.\<close>

record mutation_env =
  me_audit :: audit_env
  me_now :: string
  me_marshal :: "scope_details \<Rightarrow> string"

definition tokenAnnotationTx :: "auth_store \<Rightarrow> int \<Rightarrow> string" where
  "tokenAnnotationTx st tid =
     (case run_read st (RTokenAnnotation tid)
             (map_option tok_annotation (first_row (filter (\<lambda>t. tok_id t = tid) (tokens st)))) of
        Inl _ \<Rightarrow> [] | Inr None \<Rightarrow> [] | Inr (Some annotation) \<Rightarrow> annotation)"

text \<open>\<open>beginGuardedTokenScopeChange\<close>, up to the audit target's name.\<close>

definition beginGuardedTokenScopeChange ::
  "auth_store \<Rightarrow> int \<Rightarrow> bool \<Rightarrow> owner_guard \<Rightarrow> scope_change option \<Rightarrow> scope_snapshot option \<Rightarrow> string res" where
  "beginGuardedTokenScopeChange st tid superuserOwnerAllowed owner change judged =
     res_bind (run_read st WBegin (tokenAnnotationTx st tid)) (\<lambda>targetName.
     res_bind (guardSuperuserOwnedTokenTx st tid superuserOwnerAllowed) (\<lambda>_.
     res_bind (guardTokenOwnerTx st tid owner change) (\<lambda>_.
     res_bind (guardJudgedTokenScopeTx st tid judged) (\<lambda>_. Inr targetName))))"

definition recordScopeEvent ::
  "mutation_env \<Rightarrow> actor \<Rightarrow> string \<Rightarrow> int \<Rightarrow> string \<Rightarrow> scope_details \<Rightarrow> audit_db \<Rightarrow> audit_db res" where
  "recordScopeEvent me actor action tid targetName details db =
     (case recordAudit (me_audit me) (me_now me) db
             (newEvent actor action ''token'' (Some tid) targetName (me_marshal me details)) of
        Inl _ \<Rightarrow> Inl ErrAudit | Inr (row, db') \<Rightarrow> Inr db')"

type_synonym scope_step = "string \<times> (auth_store \<Rightarrow> (auth_store \<times> scope_details) res)"

definition scopeSteps :: "int \<Rightarrow> scope_change \<Rightarrow> scope_step list" where
  "scopeSteps tid change =
     (case ch_mcp change of None \<Rightarrow> [] | Some names \<Rightarrow>
        [(actionSetMCPScope, \<lambda>st. res_bind (writeTokenMCPScopeByNamesTx st tid names)
            (\<lambda>(st', before, after). Inr (st', NameDetails before after)))]) @
     (case ch_connections change of None \<Rightarrow> [] | Some conns \<Rightarrow>
        [(actionSetConnectionScope, \<lambda>st. res_bind (writeTokenConnectionScopeTx st tid conns)
            (\<lambda>(st', before, after). Inr (st', ConnDetails before after)))]) @
     (case ch_admin change of None \<Rightarrow> [] | Some perms \<Rightarrow>
        [(actionSetAdminScope, \<lambda>st. res_bind (writeTokenAdminScopeTx st tid perms)
            (\<lambda>(st', before, after). Inr (st', NameDetails before after)))])"

definition runScopeStep ::
  "mutation_env \<Rightarrow> actor \<Rightarrow> int \<Rightarrow> string \<Rightarrow> scope_step \<Rightarrow> audited_store \<Rightarrow> audited_store res" where
  "runScopeStep me actor tid targetName step s =
     (case step of (action, write) \<Rightarrow>
        res_bind (write (as_auth s)) (\<lambda>(st', details).
        res_bind (recordScopeEvent me actor action tid targetName details (as_audit s)) (\<lambda>db'.
          Inr \<lparr>as_auth = st', as_audit = db'\<rparr>)))"

definition setTokenScope ::
  "mutation_env \<Rightarrow> actor \<Rightarrow> int \<Rightarrow> scope_change \<Rightarrow> bool \<Rightarrow> owner_guard \<Rightarrow> scope_snapshot option \<Rightarrow>
     audited_store \<Rightarrow> audited_store res" where
  "setTokenScope me actor tid change superuserOwnerAllowed owner judged s =
     res_bind (case ch_connections change of None \<Rightarrow> Inr () | Some conns \<Rightarrow> ValidateScopedConnections conns) (\<lambda>_.
     res_bind (case ch_admin change of None \<Rightarrow> Inr () | Some perms \<Rightarrow> ValidateAdminPermissions perms) (\<lambda>_.
       case scopeSteps tid change of
         [] \<Rightarrow> Inr s
       | step # steps \<Rightarrow>
           res_bind (beginGuardedTokenScopeChange (as_auth s) tid superuserOwnerAllowed owner (Some change) judged)
             (\<lambda>targetName.
              res_bind (fold_res (runScopeStep me actor tid targetName) (step # steps) s) (\<lambda>s'.
                run_read (as_auth s') WCommit s'))))"

definition tokenScopesTx :: "auth_store \<Rightarrow> int \<Rightarrow> scope_details res" where
  "tokenScopesTx st tid =
     res_bind (tokenConnectionScopeTx st tid) (\<lambda>connections.
     res_bind (tokenMCPScopeNamesTx st tid) (\<lambda>tools.
     res_bind (tokenAdminScopeTx st tid) (\<lambda>admin. Inr (ClearDetails connections tools admin))))"

definition clearTokenScope ::
  "mutation_env \<Rightarrow> actor \<Rightarrow> int \<Rightarrow> bool \<Rightarrow> owner_guard \<Rightarrow> scope_snapshot option \<Rightarrow>
     audited_store \<Rightarrow> audited_store res" where
  "clearTokenScope me actor tid superuserOwnerAllowed owner judged s =
     (let st = as_auth s in
      res_bind (beginGuardedTokenScopeChange st tid superuserOwnerAllowed owner None judged) (\<lambda>targetName.
      res_bind (tokenScopesTx st tid) (\<lambda>before.
      res_bind (run_read st (WClearConns tid)
          (st\<lparr>token_connection_scope := filter (\<lambda>(t, c, l). t \<noteq> tid) (token_connection_scope st)\<rparr>)) (\<lambda>st.
      res_bind (run_read st (WClearMCP tid)
          (st\<lparr>token_mcp_scope := filter (\<lambda>(t, p). t \<noteq> tid) (token_mcp_scope st)\<rparr>)) (\<lambda>st.
      res_bind (run_read st (WClearAdmin tid)
          (st\<lparr>token_admin_scope := filter (\<lambda>(t, p). t \<noteq> tid) (token_admin_scope st)\<rparr>)) (\<lambda>st.
      res_bind (recordScopeEvent me actor actionClearScope tid targetName before (as_audit s)) (\<lambda>db'.
        run_read st WCommit \<lparr>as_auth = st, as_audit = db'\<rparr>)))))))"

end
