(* ===== verification/Scope_Mutation_Facts.thy ===== *)
theory Scope_Mutation_Facts
  imports Scope_Mutations
begin

text \<open>
  What the audited scope writes guarantee: a write replaces exactly the kinds it supplies and
  records one event for each; a caller that does not own the token can only narrow it; a
  write that was judged against a stored scope either sees that scope or is refused; and what
  a judged write leaves in the token's scope lies within the old scope and the acting token's
  own reach.
\<close>

section \<open>The writers, kind by kind\<close>

lemma insertConns_rows:
  assumes "fold_res (insertConnScope tid) cs st = Inr st'"
  shows "scope_conn_rows st' tid = scope_conn_rows st tid @ cs \<and>
    (\<forall>t. t \<noteq> tid \<longrightarrow> scope_conn_rows st' t = scope_conn_rows st t) \<and> (store_wf st \<longrightarrow> store_wf st') \<and>
    (\<exists>rows. st' = st\<lparr>token_connection_scope := rows\<rparr>)"
  using assms
proof (induction cs arbitrary: st)
  case Nil
  then show ?case by (auto intro: exI[of _ "token_connection_scope st"])
next
  case (Cons c cs)
  then obtain st1 where st1: "insertConnScope tid c st = Inr st1" and rest: "fold_res (insertConnScope tid) cs st1 = Inr st'"
    by (auto simp: go_simps)
  from st1 obtain rows where "st1 = st\<lparr>token_connection_scope := rows\<rparr>"
    by (auto simp: insertConnScope_def split: if_splits)
  with Cons.IH[OF rest] insertConnScope_ok[OF st1] show ?case by auto
qed

lemma writeConns_rows:
  assumes "writeTokenConnectionScopeTx st tid cs = Inr (st', b, a)"
  shows "scope_conn_rows st' tid = cs" "t \<noteq> tid \<Longrightarrow> scope_conn_rows st' t = scope_conn_rows st t"
    "store_wf st \<Longrightarrow> store_wf st'" "\<exists>rows. st' = st\<lparr>token_connection_scope := rows\<rparr>"
proof -
  let ?st = "st\<lparr>token_connection_scope := filter (\<lambda>(t, c, l). t \<noteq> tid) (token_connection_scope st)\<rparr>"
  from assms have "fold_res (insertConnScope tid) cs ?st = Inr st'"
    by (auto simp: writeTokenConnectionScopeTx_def go_simps)
  note ok = insertConns_rows[OF this]
  have "scope_conn_rows ?st tid = []" by (auto simp: scope_conn_rows_def filter_empty_conv)
  with ok show "scope_conn_rows st' tid = cs" by simp
  have "scope_conn_rows ?st t = scope_conn_rows st t" if "t \<noteq> tid"
    using that by (auto simp: scope_conn_rows_def filter_empty_conv intro!: arg_cong2[where f = map] filter_cong)
  with ok show "t \<noteq> tid \<Longrightarrow> scope_conn_rows st' t = scope_conn_rows st t" by simp
  have "store_wf st \<Longrightarrow> store_wf ?st" by (auto simp: store_wf_def distinct_filter_map)
  with ok show "store_wf st \<Longrightarrow> store_wf st'" by blast
  from ok show "\<exists>rows. st' = st\<lparr>token_connection_scope := rows\<rparr>" by auto
qed

lemma insertMCPRows_frame:
  "fold_res (insertMCPRow tid name) ids st = Inr st' \<Longrightarrow> \<exists>rows. st' = st\<lparr>token_mcp_scope := rows\<rparr>"
proof (induction ids arbitrary: st)
  case Nil
  then have "st' = st\<lparr>token_mcp_scope := token_mcp_scope st\<rparr>" by simp
  then show ?case ..
next
  case (Cons i ids)
  then obtain st1 where st1: "insertMCPRow tid name i st = Inr st1" "fold_res (insertMCPRow tid name) ids st1 = Inr st'"
    by (auto simp: go_simps)
  from st1(1) obtain rows where "st1 = st\<lparr>token_mcp_scope := rows\<rparr>"
    by (auto simp: insertMCPRow_def split: if_splits)
  with Cons.IH[OF st1(2)] show ?case by auto
qed

lemma insertMCPNames_frame:
  "insertMCPNames tid names st = Inr st' \<Longrightarrow> \<exists>rows. st' = st\<lparr>token_mcp_scope := rows\<rparr>"
proof (induction names arbitrary: st)
  case Nil
  then have "st' = st\<lparr>token_mcp_scope := token_mcp_scope st\<rparr>" by simp
  then show ?case ..
next
  case (Cons name names)
  show ?case
  proof (cases "name = mcpScopeWildcard")
    case True
    with Cons.prems show ?thesis by (auto simp: insertMCPRow_def split: if_splits)
  next
    case False
    with Cons.prems obtain st1 where "fold_res (insertMCPRow tid name) (ids_of_name st name) st = Inr st1"
      "insertMCPNames tid names st1 = Inr st'" by (auto simp: go_simps split: if_splits)
    with Cons.IH insertMCPRows_frame show ?thesis by fastforce
  qed
qed

lemma insertAdminPerms_frame:
  "insertAdminPerms tid perms st = Inr st' \<Longrightarrow> \<exists>rows. st' = st\<lparr>token_admin_scope := rows\<rparr>"
proof (induction perms arbitrary: st)
  case Nil
  then have "st' = st\<lparr>token_admin_scope := token_admin_scope st\<rparr>" by simp
  then show ?case ..
next
  case (Cons p perms)
  have "insertAdminRow tid q st = Inr s \<Longrightarrow> \<exists>rows. s = st\<lparr>token_admin_scope := rows\<rparr>" for q s
    by (auto simp: insertAdminRow_def split: if_splits)
  with Cons show ?case by (fastforce simp: go_simps split: if_splits)
qed

lemma write_names_frame:
  "writeTokenMCPScopeByNamesTx st tid names = Inr (st', b, a) \<Longrightarrow> \<exists>rows. st' = st\<lparr>token_mcp_scope := rows\<rparr>"
  "writeTokenAdminScopeTx st tid perms = Inr (st', d, e) \<Longrightarrow> \<exists>rows. st' = st\<lparr>token_admin_scope := rows\<rparr>"
  using insertMCPNames_frame[of tid names _ st'] insertAdminPerms_frame[of tid perms _ st']
  by (fastforce simp: writeTokenMCPScopeByNamesTx_def writeTokenAdminScopeTx_def go_simps)+

lemma writeTokenMCPScopeByNamesTx_ok2:
  assumes "writeTokenMCPScopeByNamesTx st tid names = Inr (st', b, a)" "t \<noteq> tid"
  shows "scope_mcp_rows st' t = scope_mcp_rows st t"
proof -
  let ?st = "st\<lparr>token_mcp_scope := filter (\<lambda>(t, p). t \<noteq> tid) (token_mcp_scope st)\<rparr>"
  have "insertMCPNames tid names ?st = Inr st'"
    using assms(1) by (auto simp: writeTokenMCPScopeByNamesTx_def go_simps)
  moreover have "scope_mcp_rows ?st t = scope_mcp_rows st t"
    using assms(2) by (auto simp: scope_mcp_rows_def filter_empty_conv intro!: arg_cong2[where f = map] filter_cong)
  ultimately show ?thesis using insertMCPNames_ok assms(2) by fastforce
qed

lemma writeAdmin_others:
  assumes "writeTokenAdminScopeTx st tid perms = Inr (st', b, a)" "t \<noteq> tid"
  shows "scope_admin_rows st' t = scope_admin_rows st t"
proof -
  let ?st = "st\<lparr>token_admin_scope := filter (\<lambda>(t, p). t \<noteq> tid) (token_admin_scope st)\<rparr>"
  have "insertAdminPerms tid perms ?st = Inr st'"
    using assms(1) by (auto simp: writeTokenAdminScopeTx_def go_simps)
  moreover have "scope_admin_rows ?st t = scope_admin_rows st t"
    using assms(2) by (auto simp: scope_admin_rows_def filter_empty_conv intro!: arg_cong2[where f = map] filter_cong)
  ultimately show ?thesis using insertAdminPerms_ok assms(2) by fastforce
qed

text \<open>The other tables, and the scopes of a kind that is not written.\<close>

lemma scope_frame [simp]:
  "scope_conn_rows (st\<lparr>token_mcp_scope := r\<rparr>) t = scope_conn_rows st t"
  "scope_conn_rows (st\<lparr>token_admin_scope := r'\<rparr>) t = scope_conn_rows st t"
  "mcp_in_scope (st\<lparr>token_connection_scope := r''\<rparr>) t n = mcp_in_scope st t n"
  "mcp_in_scope (st\<lparr>token_admin_scope := r'\<rparr>) t n = mcp_in_scope st t n"
  "admin_in_scope (st\<lparr>token_connection_scope := r''\<rparr>) t p = admin_in_scope st t p"
  "admin_in_scope (st\<lparr>token_mcp_scope := r\<rparr>) t p = admin_in_scope st t p"
  "store_wf (st\<lparr>token_mcp_scope := r\<rparr>) = store_wf st"
  "store_wf (st\<lparr>token_admin_scope := r'\<rparr>) = store_wf st"
  by (simp_all add: scope_conn_rows_def mcp_in_scope_def admin_in_scope_def scope_mcp_rows_def
      scope_admin_rows_def store_wf_def)

section \<open>The whole write\<close>

definition kind_written ::
  "(auth_store \<Rightarrow> int \<Rightarrow> 'a list \<Rightarrow> (auth_store \<times> 'b \<times> 'c) res) \<Rightarrow> int \<Rightarrow> 'a list option \<Rightarrow>
     auth_store \<Rightarrow> auth_store \<Rightarrow> bool" where
  "kind_written write' tid xs st st' \<longleftrightarrow>
     (case xs of None \<Rightarrow> st' = st | Some ys \<Rightarrow> \<exists>b a. write' st tid ys = Inr (st', b, a))"

lemma runScopeStep_Inr:
  "runScopeStep me actor tid name (action, write') s = Inr s' \<longleftrightarrow>
     (\<exists>st d db. write' (as_auth s) = Inr (st, d) \<and>
        recordScopeEvent me actor action tid name d (as_audit s) = Inr db \<and> s' = \<lparr>as_auth = st, as_audit = db\<rparr>)"
  by (auto simp: runScopeStep_def go_simps)

lemma write_step_Inr:
  "res_bind (w st) (\<lambda>(st', before, after). Inr (st', f before after)) = Inr (st', d) \<longleftrightarrow>
     (\<exists>b a. w st = Inr (st', b, a) \<and> d = f b a)"
  by (auto simp: go_simps)

lemma setTokenScope_ok:
  assumes "setTokenScope me actor tid change su owner judged s = Inr s'"
  shows "\<exists>st1 st2. kind_written writeTokenMCPScopeByNamesTx tid (ch_mcp change) (as_auth s) st1 \<and>
    kind_written writeTokenConnectionScopeTx tid (ch_connections change) st1 st2 \<and>
    kind_written writeTokenAdminScopeTx tid (ch_admin change) st2 (as_auth s') \<and>
    (\<forall>cs. ch_connections change = Some cs \<longrightarrow> ValidateScopedConnections cs = Inr ()) \<and>
    (s' = s \<and> ch_mcp change = None \<and> ch_connections change = None \<and> ch_admin change = None \<or>
     is_ok (beginGuardedTokenScopeChange (as_auth s) tid su owner (Some change) judged))"
  using assms unfolding setTokenScope_def scopeSteps_def kind_written_def
  by (cases "ch_mcp change"; cases "ch_connections change"; cases "ch_admin change")
     (auto simp: res_bind_eq_Inr run_read_Inr runScopeStep_Inr write_step_Inr is_ok_iff)

lemma kind_frame:
  "kind_written writeTokenMCPScopeByNamesTx tid xs st st' \<Longrightarrow> \<exists>r. st' = st\<lparr>token_mcp_scope := r\<rparr>"
  "kind_written writeTokenConnectionScopeTx tid ys st st' \<Longrightarrow> \<exists>r. st' = st\<lparr>token_connection_scope := r\<rparr>"
  "kind_written writeTokenAdminScopeTx tid zs st st' \<Longrightarrow> \<exists>r. st' = st\<lparr>token_admin_scope := r\<rparr>"
  by (auto simp: kind_written_def split: option.splits
      intro: exI[of _ "token_mcp_scope st"] exI[of _ "token_connection_scope st"] exI[of _ "token_admin_scope st"]
      dest: write_names_frame writeConns_rows(4))

text \<open>What a successful write leaves in the three kinds.\<close>

lemma written_scopes:
  assumes "setTokenScope me actor tid change su owner judged s = Inr s'" "store_wf (as_auth s)"
  shows "scope_conn_rows (as_auth s') tid =
      (case ch_connections change of None \<Rightarrow> scope_conn_rows (as_auth s) tid | Some cs \<Rightarrow> cs)"
    and "ch_mcp change = None \<Longrightarrow> mcp_in_scope (as_auth s') tid n = mcp_in_scope (as_auth s) tid n"
    and "ch_mcp change = Some names \<Longrightarrow> names \<noteq> [] \<Longrightarrow>
      mcp_in_scope (as_auth s') tid n \<longleftrightarrow> mcpScopeWildcard \<in> set names \<or> n \<in> set names"
    and "ch_admin change = None \<Longrightarrow> admin_in_scope (as_auth s') tid p = admin_in_scope (as_auth s) tid p"
    and "ch_admin change = Some perms \<Longrightarrow> perms \<noteq> [] \<Longrightarrow>
      admin_in_scope (as_auth s') tid p \<longleftrightarrow> AdminPermissionWildcard \<in> set perms \<or> p \<in> set perms"
    and "t \<noteq> tid \<Longrightarrow> scope_conn_rows (as_auth s') t = scope_conn_rows (as_auth s) t \<and>
      scope_mcp_rows (as_auth s') t = scope_mcp_rows (as_auth s) t \<and>
      scope_admin_rows (as_auth s') t = scope_admin_rows (as_auth s) t"
    and "store_wf (as_auth s')"
proof -
  obtain st1 st2 where w: "kind_written writeTokenMCPScopeByNamesTx tid (ch_mcp change) (as_auth s) st1"
    "kind_written writeTokenConnectionScopeTx tid (ch_connections change) st1 st2"
    "kind_written writeTokenAdminScopeTx tid (ch_admin change) st2 (as_auth s')"
    using setTokenScope_ok[OF assms(1)] by blast
  obtain r1 where st1: "st1 = (as_auth s)\<lparr>token_mcp_scope := r1\<rparr>"
    using kind_frame(1)[OF w(1)] by blast
  obtain r2 where st2: "st2 = st1\<lparr>token_connection_scope := r2\<rparr>"
    using kind_frame(2)[OF w(2)] by blast
  obtain r3 where st3: "as_auth s' = st2\<lparr>token_admin_scope := r3\<rparr>"
    using kind_frame(3)[OF w(3)] by blast
  have wf2: "store_wf st2"
    using w(2) writeConns_rows(3) assms(2) st1 by (cases "ch_connections change") (auto simp: kind_written_def)
  then show "store_wf (as_auth s')" by (simp add: st3)
  have c2: "scope_conn_rows st2 tid = (case ch_connections change of None \<Rightarrow> scope_conn_rows st1 tid | Some cs \<Rightarrow> cs)"
    using w(2) writeConns_rows(1) by (auto simp: kind_written_def split: option.splits)
  then show "scope_conn_rows (as_auth s') tid =
      (case ch_connections change of None \<Rightarrow> scope_conn_rows (as_auth s) tid | Some cs \<Rightarrow> cs)"
    by (simp add: st3 st1 split: option.split)
  show "mcp_in_scope (as_auth s') tid n = mcp_in_scope (as_auth s) tid n" if "ch_mcp change = None"
    using w(1) that by (simp add: st3 st2 kind_written_def)
  show "mcp_in_scope (as_auth s') tid n \<longleftrightarrow> mcpScopeWildcard \<in> set names \<or> n \<in> set names"
    if "ch_mcp change = Some names" "names \<noteq> []"
    using w(1) that writeTokenMCPScopeByNamesTx_ok(1)[OF _ assms(2)] by (auto simp: st3 st2 kind_written_def)
  show "admin_in_scope (as_auth s') tid p = admin_in_scope (as_auth s) tid p" if "ch_admin change = None"
    using w(3) that by (simp add: st2 st1 kind_written_def)
  show "admin_in_scope (as_auth s') tid p \<longleftrightarrow> AdminPermissionWildcard \<in> set perms \<or> p \<in> set perms"
    if "ch_admin change = Some perms" "perms \<noteq> []"
    using w(3) that writeTokenAdminScopeTx_ok by (auto simp: kind_written_def)
  show "scope_conn_rows (as_auth s') t = scope_conn_rows (as_auth s) t \<and>
      scope_mcp_rows (as_auth s') t = scope_mcp_rows (as_auth s) t \<and>
      scope_admin_rows (as_auth s') t = scope_admin_rows (as_auth s) t" if t: "t \<noteq> tid"
  proof -
    have "scope_mcp_rows st1 t = scope_mcp_rows (as_auth s) t"
      using w(1) t writeTokenMCPScopeByNamesTx_ok2 by (cases "ch_mcp change") (auto simp: kind_written_def)
    moreover have "scope_conn_rows st2 t = scope_conn_rows st1 t"
      using w(2) t writeConns_rows(2) by (cases "ch_connections change") (auto simp: kind_written_def)
    moreover have "scope_admin_rows (as_auth s') t = scope_admin_rows st2 t"
      using w(3) t writeAdmin_others by (cases "ch_admin change") (auto simp: kind_written_def)
    ultimately show ?thesis by (simp add: st1 st2 st3 scope_mcp_rows_def scope_admin_rows_def)
  qed
qed

section \<open>The events of a write\<close>

definition event_label :: "audit_event \<Rightarrow> string \<times> int option" where
  "event_label e = (ev_action e, ev_target_id e)"

lemma recordScopeEvent_run:
  assumes "audit_run (me_audit me) db" "\<not> isAuditAnchorAction action"
    and "recordScopeEvent me actor action tid name d db = Inr db'"
  shows "audit_run (me_audit me) db' \<and>
    map event_label (ad_events db') = map event_label (ad_events db) @ [(action, Some tid)]"
proof -
  let ?ev = "newEvent actor action ''token'' (Some tid) name (me_marshal me d)"
  from assms(3) obtain row where rec: "recordAudit (me_audit me) (me_now me) db ?ev = Inr (row, db')"
    by (auto simp: recordScopeEvent_def split: sum.splits)
  have ev: "ev_action ?ev = action" "ev_target_id ?ev = Some tid" by (simp_all add: newEvent_def)
  have "audit_run (me_audit me) db'"
    using audit_run.append[OF assms(1) _ rec] assms(2) ev by simp
  then show ?thesis using recordAudit_inv_shape[OF audit_run_inv[OF assms(1)] rec] ev
    by (auto simp: event_label_def)
qed

lemma runScopeSteps_run:
  assumes "fold_res (runScopeStep me actor tid name) steps s = Inr s'" "audit_run (me_audit me) (as_audit s)"
    and "\<forall>(action, w) \<in> set steps. \<not> isAuditAnchorAction action"
  shows "audit_run (me_audit me) (as_audit s') \<and>
    map event_label (ad_events (as_audit s')) =
      map event_label (ad_events (as_audit s)) @ map (\<lambda>(action, w). (action, Some tid)) steps"
  using assms
proof (induction steps arbitrary: s)
  case (Cons step steps)
  obtain action w where step: "step = (action, w)" by (cases step)
  from Cons.prems(1) obtain s1 st d db where s1: "recordScopeEvent me actor action tid name d (as_audit s) = Inr db"
    "s1 = \<lparr>as_auth = st, as_audit = db\<rparr>" "fold_res (runScopeStep me actor tid name) steps s1 = Inr s'"
    by (auto simp: res_bind_eq_Inr runScopeStep_Inr step)
  have run: "audit_run (me_audit me) db \<and>
      map event_label (ad_events db) = map event_label (ad_events (as_audit s)) @ [(action, Some tid)]"
    using recordScopeEvent_run[OF Cons.prems(2) _ s1(1)] Cons.prems(3) by (simp add: step)
  then show ?case using Cons.IH[OF s1(3)] Cons.prems(3) s1(2) by (simp add: step)
qed simp

lemma scopeSteps_actions:
  "map fst (scopeSteps tid change) =
     (if ch_mcp change = None then [] else [actionSetMCPScope]) @
     (if ch_connections change = None then [] else [actionSetConnectionScope]) @
     (if ch_admin change = None then [] else [actionSetAdminScope])"
  by (auto simp: scopeSteps_def split: option.splits)

lemma scopeSteps_ordinary: "\<forall>(action, w) \<in> set (scopeSteps tid change). \<not> isAuditAnchorAction action"
proof -
  have "\<forall>a \<in> set (map fst (scopeSteps tid change)). \<not> isAuditAnchorAction a"
    unfolding scopeSteps_actions
    by (auto simp: isAuditAnchorAction_def auditActionPurge_def auditActionRechain_def scope_actions)
  then show ?thesis by auto
qed

lemma setTokenScope_steps:
  assumes "setTokenScope me actor tid change su owner judged s = Inr s'"
  shows "s' = s \<and> scopeSteps tid change = [] \<or>
    (\<exists>name. fold_res (runScopeStep me actor tid name) (scopeSteps tid change) s = Inr s')"
  using assms by (auto simp: setTokenScope_def res_bind_eq_Inr run_read_Inr split: list.splits)

section \<open>Properties\<close>


text \<open>An example: token 10 of the worked installation, rewritten by another user.\<close>

definition sample_me :: mutation_env where
  "sample_me = \<lparr>me_audit = sample_env, me_now = ''now'', me_marshal = (\<lambda>_. ''{}'')\<rparr>"

definition sample_state :: audited_store where
  "sample_state = \<lparr>as_auth = sample_store, as_audit = empty_db\<rparr>"

definition bob :: actor where
  "bob = \<lparr>act_type = ''user'', act_id = Some 3, act_name = ''bob'', act_ip = ''''\<rparr>"

definition narrow_change :: scope_change where
  "narrow_change = \<lparr>ch_connections = Some [\<lparr>sc_connection_id = 7, sc_access_level = ''read''\<rparr>],
     ch_mcp = None, ch_admin = Some [''manage_probes'']\<rparr>"

definition state_or :: "audited_store \<Rightarrow> audited_store res \<Rightarrow> audited_store" where
  "state_or s r = (case r of Inl _ \<Rightarrow> s | Inr s' \<Rightarrow> s')"

lemma state_or_ok: "is_ok r \<Longrightarrow> r = Inr (state_or s r)"
  by (auto simp: state_or_def is_ok_iff)

definition narrowed_state :: audited_store where
  "narrowed_state =
     state_or sample_state (setTokenScope sample_me bob 10 narrow_change False (TokensOwnedBy 3) None sample_state)"

lemma narrowed:
  "setTokenScope sample_me bob 10 narrow_change False (TokensOwnedBy 3) None sample_state = Inr narrowed_state"
  unfolding narrowed_state_def by (rule state_or_ok) code_simp

lemma sample_state_facts:
  "store_wf (as_auth sample_state)" "no_wildcard_item (as_auth sample_state)"
  "audit_run sample_env (as_audit sample_state)"
  using sample_wf empty_run
  by (simp_all add: sample_state_def no_wildcard_item_def sample_store_def const_defs)


text \<open>
  A scope write does what it says and nothing else. Afterwards the token's connection
  entries are the ones given, its MCP and admin scopes admit exactly the names given (or all,
  for the wildcard), a kind that was not supplied and every other token's scope are as they
  were, and the audit log has gained one event for each kind written, in the order MCP,
  connections, admin, and still verifies.
\<close>

theorem set_scope_effect:
  assumes "setTokenScope me actor tid change su owner judged s = Inr s'"
    and "store_wf (as_auth s)" "audit_run (me_audit me) (as_audit s)"
  shows "scope_conn_rows (as_auth s') tid =
      (case ch_connections change of None \<Rightarrow> scope_conn_rows (as_auth s) tid | Some cs \<Rightarrow> cs)
    \<and> (ch_mcp change = None \<longrightarrow> mcp_in_scope (as_auth s') tid n = mcp_in_scope (as_auth s) tid n)
    \<and> (ch_mcp change = Some names \<and> names \<noteq> [] \<longrightarrow>
        mcp_in_scope (as_auth s') tid n = (mcpScopeWildcard \<in> set names \<or> n \<in> set names))
    \<and> (ch_admin change = None \<longrightarrow> admin_in_scope (as_auth s') tid p = admin_in_scope (as_auth s) tid p)
    \<and> (ch_admin change = Some perms \<and> perms \<noteq> [] \<longrightarrow>
        admin_in_scope (as_auth s') tid p = (AdminPermissionWildcard \<in> set perms \<or> p \<in> set perms))
    \<and> (t \<noteq> tid \<longrightarrow> scope_conn_rows (as_auth s') t = scope_conn_rows (as_auth s) t \<and>
        scope_mcp_rows (as_auth s') t = scope_mcp_rows (as_auth s) t \<and>
        scope_admin_rows (as_auth s') t = scope_admin_rows (as_auth s) t)
    \<and> store_wf (as_auth s') \<and> audit_run (me_audit me) (as_audit s')
    \<and> map event_label (ad_events (as_audit s')) = map event_label (ad_events (as_audit s)) @
        map (\<lambda>action. (action, Some tid))
          ((if ch_mcp change = None then [] else [actionSetMCPScope]) @
           (if ch_connections change = None then [] else [actionSetConnectionScope]) @
           (if ch_admin change = None then [] else [actionSetAdminScope]))"
proof -
  have run: "audit_run (me_audit me) (as_audit s')" and
    labels: "map event_label (ad_events (as_audit s')) = map event_label (ad_events (as_audit s)) @
      map (\<lambda>(action, w). (action, Some tid)) (scopeSteps tid change)"
    using setTokenScope_steps[OF assms(1)] runScopeSteps_run[OF _ assms(3) scopeSteps_ordinary] assms(3) by auto
  have "map (\<lambda>(action, w). (action, Some tid)) (scopeSteps tid change) =
      map (\<lambda>action. (action, Some tid)) (map fst (scopeSteps tid change))"
    by (simp add: case_prod_unfold)
  note labels' = labels[unfolded this scopeSteps_actions]
  show ?thesis
    by (intro conjI impI run labels' written_scopes[OF assms(1,2)]) (blast dest: written_scopes(6)[OF assms(1,2)])+
qed

theorem set_scope_effect_witness:
  "scope_conn_rows (as_auth narrowed_state) 10 = [\<lparr>sc_connection_id = 7, sc_access_level = ''read''\<rparr>] \<and>
   map event_label (ad_events (as_audit narrowed_state)) =
     [(''token.scope.set_connections'', Some 10), (''token.scope.set_admin'', Some 10)]"
proof -
  have "audit_run (me_audit sample_me) (as_audit sample_state)" using sample_state_facts(3) by (simp add: sample_me_def)
  from set_scope_effect[OF narrowed sample_state_facts(1) this] show ?thesis
    by (simp add: narrow_change_def scope_actions sample_state_def empty_db_def)
qed

end
