(* ===== verification/Group_Mutations.thy ===== *)
theory Group_Mutations
  imports Scope_Mutations
begin

text \<open>
  The audited mutations of groups and memberships: \<^verbatim>\<open>groups.go\<close> with the snapshots and
  audit details of \<^verbatim>\<open>actor_store_groups.go\<close>. The state is the audited store with the
  \<^verbatim>\<open>user_groups\<close> table and the sequence AUTOINCREMENT keeps for it. Each mutation is one
  transaction under the store's write lock: it returns the new state, or the error after
  which the transaction has been rolled back. The constraints of the schema are part of the
  statements: an \<^verbatim>\<open>INSERT\<close> or \<^verbatim>\<open>UPDATE\<close> that breaks one fails. The failure event of
  \<open>failAudit\<close>, which the failure coalescer writes after the roll-back, is the business of
  \<open>Audit_Denials\<close>. Encoding the details as JSON is a parameter.
\<close>

section \<open>Rows, statements and state\<close>

record group_row =
  ug_id :: int
  ug_name :: string
  ug_description :: "string option"

text \<open>The statements of the group and grant mutations; each may fail in the driver.\<close>

datatype group_stmt =
    GBegin
  | GCommit
  | RSnapshot int
  | RGroupName int
  | WInsertGroup
  | WUpdateGroup int
  | RMemberUsers int
  | RMemberGroups int
  | RDetailMCP int
  | RDetailConns int
  | RDetailAdmin int
  | RGrantConns int
  | WDropMemberships int
  | WDropMCP int
  | WDropConns int
  | WDropAdmin int
  | WDeleteGroup int
  | RMemberName string int
  | WAddUser int int
  | WAddGroup int int
  | WRemoveUser int int
  | WRemoveGroup int int
  | RPrivilegeID mcp_name
  | RPrivilegeName int
  | WGrantMCP int
  | WTrimMCP int
  | WRevokeMCP int
  | RConnLevel int conn_id
  | WGrantConn int conn_id
  | WRevokeConn int conn_id
  | RIndividualAdmin int
  | WGrantAdmin int
  | WTrimAdmin int
  | WRevokeAdmin int

record group_state = audited_store +
  user_groups :: "group_row list"
  user_groups_seq :: int
  gs_fails :: "group_stmt \<Rightarrow> bool"

definition run_stmt :: "group_state \<Rightarrow> group_stmt \<Rightarrow> 'a \<Rightarrow> 'a res" where
  "run_stmt s q v = (if gs_fails s q then Inl DbError else Inr v)"

lemma run_stmt_Inr [go_simps]: "run_stmt s q v = Inr w \<longleftrightarrow> \<not> gs_fails s q \<and> v = w"
  by (auto simp: run_stmt_def)

lemma run_stmt_Inl [go_simps]: "run_stmt s q v = Inl e \<longleftrightarrow> gs_fails s q \<and> e = DbError"
  by (auto simp: run_stmt_def)

text \<open>A statement that a constraint of the schema may also refuse.\<close>

definition run_checked :: "group_state \<Rightarrow> group_stmt \<Rightarrow> auth_error \<Rightarrow> bool \<Rightarrow> 'a \<Rightarrow> 'a res" where
  "run_checked s q err ok v = res_bind (run_stmt s q v) (\<lambda>v. if ok then Inr v else Inl err)"

lemma run_checked_Inr [go_simps]: "run_checked s q e ok v = Inr w \<longleftrightarrow> \<not> gs_fails s q \<and> ok \<and> v = w"
  by (auto simp: run_checked_def go_simps)

text \<open>Changing the tables of the authentication store inside the state.\<close>

definition on_auth :: "(auth_store \<Rightarrow> auth_store) \<Rightarrow> group_state \<Rightarrow> group_state" where
  "on_auth f s = s\<lparr>as_auth := f (as_auth s)\<rparr>"

lemma on_auth_simps [simp]:
  "as_auth (on_auth f s) = f (as_auth s)" "as_audit (on_auth f s) = as_audit s"
  "user_groups (on_auth f s) = user_groups s" "user_groups_seq (on_auth f s) = user_groups_seq s"
  "gs_fails (on_auth f s) = gs_fails s"
  by (simp_all add: on_auth_def)

definition group_ids :: "group_state \<Rightarrow> int set" where
  "group_ids s = ug_id ` set (user_groups s)"

section \<open>Snapshots and audit details\<close>

record group_snapshot =
  gsn_id :: int
  gsn_name :: string
  gsn_description :: string

text \<open>An access level rendered by \<open>accessLevelDetail\<close> is the empty string when there is no grant.\<close>

datatype group_details =
    AfterDetails group_snapshot
  | ChangeDetails group_snapshot group_snapshot
  | DeleteDetails group_snapshot "string list" "string list" "mcp_name list"
      "(conn_id \<times> access_level) list" "permission list"
  | MemberDetails string int string
  | PrivilegeDetails int mcp_name
  | ConnGrantDetails conn_id access_level access_level
  | ConnRevokeDetails conn_id access_level
  | PermissionDetails permission "permission list option"

record group_env =
  ge_audit :: audit_env
  ge_now :: string
  ge_marshal :: "group_details \<Rightarrow> string"

definition recordGroupEvent ::
  "group_env \<Rightarrow> actor \<Rightarrow> string \<Rightarrow> int \<Rightarrow> string \<Rightarrow> group_details \<Rightarrow> group_state \<Rightarrow> group_state res" where
  "recordGroupEvent env actor action gid targetName details s =
     (case recordAudit (ge_audit env) (ge_now env) (as_audit s)
             (newEvent actor action ''group'' (Some gid) targetName (ge_marshal env details)) of
        Inl _ \<Rightarrow> Inl ErrAudit
      | Inr (row, db) \<Rightarrow> Inr (s\<lparr>as_audit := db\<rparr>))"

text \<open>\<open>None\<close> is \<^verbatim>\<open>sql.ErrNoRows\<close>; a NULL description reads as the empty string.\<close>

definition groupSnapshotTx :: "group_state \<Rightarrow> int \<Rightarrow> (group_snapshot option) res" where
  "groupSnapshotTx s gid =
     run_stmt s (RSnapshot gid)
       (map_option (\<lambda>r. \<lparr>gsn_id = ug_id r, gsn_name = ug_name r,
            gsn_description = (case ug_description r of None \<Rightarrow> '''' | Some d \<Rightarrow> d)\<rparr>)
          (first_row (filter (\<lambda>r. ug_id r = gid) (user_groups s))))"

definition groupMembersTx :: "group_state \<Rightarrow> int \<Rightarrow> (string list \<times> string list) res" where
  "groupMembersTx s gid =
     res_bind (run_stmt s (RMemberUsers gid)
        (sort [usr_username u. m \<leftarrow> group_memberships (as_auth s), u \<leftarrow> users (as_auth s),
           gm_parent_group_id m = gid \<and> gm_member_user_id m = Some (usr_id u)])) (\<lambda>us.
     res_bind (run_stmt s (RMemberGroups gid)
        (sort [ug_name g. m \<leftarrow> group_memberships (as_auth s), g \<leftarrow> user_groups s,
           gm_parent_group_id m = gid \<and> gm_member_group_id m = Some (ug_id g)])) (\<lambda>gs. Inr (us, gs)))"

text \<open>A left join: a grant of an id that is not registered has the empty name.\<close>

definition groupMCPPrivilegesTx :: "group_state \<Rightarrow> int \<Rightarrow> (mcp_name list) res" where
  "groupMCPPrivilegesTx s gid =
     run_stmt s (RDetailMCP gid)
       (sort (concat (map (\<lambda>(g, pid).
          case filter (\<lambda>m. mpi_id m = pid) (mcp_privilege_identifiers (as_auth s)) of
            [] \<Rightarrow> [if pid = MCPPrivilegeIDWildcard then ''*'' else '''']
          | ms \<Rightarrow> map (\<lambda>m. if pid = MCPPrivilegeIDWildcard then ''*'' else mpi_identifier m) ms)
          (filter (\<lambda>(g, pid). g = gid) (group_mcp_privileges (as_auth s))))))"

definition groupAdminPermissionsTx :: "group_state \<Rightarrow> int \<Rightarrow> (permission list) res" where
  "groupAdminPermissionsTx s gid =
     run_stmt s (RDetailAdmin gid)
       (sort (map snd (filter (\<lambda>(g, p). g = gid) (group_admin_permissions (as_auth s)))))"

definition groupConnectionPrivilegesTx :: "group_state \<Rightarrow> int \<Rightarrow> ((conn_id \<times> access_level) list) res" where
  "groupConnectionPrivilegesTx s gid =
     run_stmt s (RDetailConns gid) (sort_key fst (group_conn_rows (as_auth s) gid))"

definition groupDeleteDetailsTx :: "group_state \<Rightarrow> group_snapshot \<Rightarrow> group_details res" where
  "groupDeleteDetailsTx s before =
     res_bind (groupMembersTx s (gsn_id before)) (\<lambda>(us, gs).
     res_bind (groupMCPPrivilegesTx s (gsn_id before)) (\<lambda>mcp.
     res_bind (groupConnectionPrivilegesTx s (gsn_id before)) (\<lambda>conns.
     res_bind (groupAdminPermissionsTx s (gsn_id before)) (\<lambda>admin.
       Inr (DeleteDetails before us gs mcp conns admin)))))"

definition memberTypeUser :: string where "memberTypeUser = ''user''"
definition memberTypeGroup :: string where "memberTypeGroup = ''group''"

definition groupMemberNameTx :: "group_state \<Rightarrow> string \<Rightarrow> int \<Rightarrow> string res" where
  "groupMemberNameTx s memberType memberID =
     (if memberType = memberTypeUser
      then res_bind (run_stmt s (RMemberName memberType memberID)
             (first_row (filter (\<lambda>u. usr_id u = memberID) (users (as_auth s)))))
             (\<lambda>row. Inr (case row of None \<Rightarrow> '''' | Some u \<Rightarrow> usr_username u))
      else if memberType = memberTypeGroup
      then res_bind (run_stmt s (RMemberName memberType memberID)
             (first_row (filter (\<lambda>g. ug_id g = memberID) (user_groups s))))
             (\<lambda>row. Inr (case row of None \<Rightarrow> '''' | Some g \<Rightarrow> ug_name g))
      else Inl ErrMemberType)"

section \<open>Groups\<close>

text \<open>AUTOINCREMENT: above every id the table has ever held.\<close>

definition next_group_id :: "group_state \<Rightarrow> int" where
  "next_group_id s = Max (set (0 # user_groups_seq s # map ug_id (user_groups s))) + 1"

definition insertGroup :: "string \<Rightarrow> string \<Rightarrow> group_state \<Rightarrow> (int \<times> group_state) res" where
  "insertGroup name description s =
     (let gid = next_group_id s in
      run_checked s WInsertGroup ErrGroupNameExists (\<forall>r \<in> set (user_groups s). ug_name r \<noteq> name)
        (gid, s\<lparr>user_groups := user_groups s @ [\<lparr>ug_id = gid, ug_name = name, ug_description = Some description\<rparr>],
                user_groups_seq := gid\<rparr>))"

definition createGroup :: "group_env \<Rightarrow> actor \<Rightarrow> string \<Rightarrow> string \<Rightarrow> group_state \<Rightarrow> (int \<times> group_state) res" where
  "createGroup env actor name description s =
     res_bind (run_stmt s GBegin s) (\<lambda>s.
     res_bind (insertGroup name description s) (\<lambda>(newID, s).
     res_bind (groupSnapshotTx s newID) (\<lambda>snap.
       case snap of
         None \<Rightarrow> Inl DbError
       | Some after \<Rightarrow>
           res_bind (recordGroupEvent env actor ''group.create'' newID (gsn_name after) (AfterDetails after) s) (\<lambda>s.
             run_stmt s GCommit (newID, s)))))"

text \<open>An empty name leaves the name as it is.\<close>

definition updateRow :: "int \<Rightarrow> string \<Rightarrow> string \<Rightarrow> group_row \<Rightarrow> group_row" where
  "updateRow gid name description r =
     (if ug_id r \<noteq> gid then r
      else if name = '''' then r\<lparr>ug_description := Some description\<rparr>
      else r\<lparr>ug_name := name, ug_description := Some description\<rparr>)"

definition updateGroupRow :: "int \<Rightarrow> string \<Rightarrow> string \<Rightarrow> group_state \<Rightarrow> group_state res" where
  "updateGroupRow gid name description s =
     res_bind (run_checked s (WUpdateGroup gid) ErrGroupNameExists
         (name = '''' \<or> (\<forall>r \<in> set (user_groups s). ug_name r = name \<longrightarrow> ug_id r = gid) \<or> gid \<notin> group_ids s)
         (length (filter (\<lambda>r. ug_id r = gid) (user_groups s)))) (\<lambda>rows.
       if rows = 0 then Inl ErrGroupNotFound
       else Inr (s\<lparr>user_groups := map (updateRow gid name description) (user_groups s)\<rparr>))"

definition updateGroup :: "group_env \<Rightarrow> actor \<Rightarrow> int \<Rightarrow> string \<Rightarrow> string \<Rightarrow> group_state \<Rightarrow> group_state res" where
  "updateGroup env actor gid name description s =
     res_bind (run_stmt s GBegin s) (\<lambda>s.
     res_bind (groupSnapshotTx s gid) (\<lambda>snap.
       case snap of
         None \<Rightarrow> Inl ErrGroupNotFound
       | Some before \<Rightarrow>
           res_bind (updateGroupRow gid name description s) (\<lambda>s.
             let after = before\<lparr>gsn_description := description,
                   gsn_name := (if name \<noteq> '''' then name else gsn_name before)\<rparr> in
             res_bind (recordGroupEvent env actor ''group.update'' gid (gsn_name before) (ChangeDetails before after) s)
               (\<lambda>s. run_stmt s GCommit s))))"

definition guardGroupLiftsTx :: "group_state \<Rightarrow> lift_guard option \<Rightarrow> int \<Rightarrow> unit res" where
  "guardGroupLiftsTx s guard gid =
     (case guard of
        None \<Rightarrow> Inr ()
      | Some g \<Rightarrow>
          if lg_all g then Inr ()
          else res_bind (run_stmt s (RGrantConns gid) (map fst (group_conn_rows (as_auth s) gid))) (\<lambda>ids.
                 fold_res (\<lambda>connID _. guardLiftTx (as_auth s) guard gid connID) ids ()))"

definition groupDeleteBeforeTx :: "group_state \<Rightarrow> int \<Rightarrow> (group_snapshot \<times> group_details) res" where
  "groupDeleteBeforeTx s gid =
     res_bind (groupSnapshotTx s gid) (\<lambda>snap.
       case snap of
         None \<Rightarrow> Inl ErrGroupNotFound
       | Some before \<Rightarrow> res_bind (groupDeleteDetailsTx s before) (\<lambda>details. Inr (before, details)))"

definition deleteGroupDependentsTx :: "int \<Rightarrow> group_state \<Rightarrow> group_state res" where
  "deleteGroupDependentsTx gid s =
     res_bind (run_stmt s (WDropMemberships gid) (on_auth (\<lambda>st. st\<lparr>group_memberships :=
         filter (\<lambda>m. \<not> (gm_parent_group_id m = gid \<or> gm_member_group_id m = Some gid)) (group_memberships st)\<rparr>) s)) (\<lambda>s.
     res_bind (run_stmt s (WDropMCP gid) (on_auth (\<lambda>st. st\<lparr>group_mcp_privileges :=
         filter (\<lambda>(g, p). g \<noteq> gid) (group_mcp_privileges st)\<rparr>) s)) (\<lambda>s.
     res_bind (run_stmt s (WDropConns gid) (on_auth (\<lambda>st. st\<lparr>connection_privileges :=
         filter (\<lambda>(g, c, l). g \<noteq> gid) (connection_privileges st)\<rparr>) s)) (\<lambda>s.
       run_stmt s (WDropAdmin gid) (on_auth (\<lambda>st. st\<lparr>group_admin_permissions :=
         filter (\<lambda>(g, p). g \<noteq> gid) (group_admin_permissions st)\<rparr>) s))))"

text \<open>The cascades of the foreign keys find nothing left to delete.\<close>

definition deleteGroupRowTx :: "int \<Rightarrow> group_state \<Rightarrow> group_state res" where
  "deleteGroupRowTx gid s =
     res_bind (run_stmt s (WDeleteGroup gid) (length (filter (\<lambda>r. ug_id r = gid) (user_groups s)))) (\<lambda>rows.
       if rows = 0 then Inl ErrGroupNotFound
       else Inr (s\<lparr>user_groups := filter (\<lambda>r. ug_id r \<noteq> gid) (user_groups s)\<rparr>))"

definition deleteGroup :: "group_env \<Rightarrow> actor \<Rightarrow> int \<Rightarrow> lift_guard option \<Rightarrow> group_state \<Rightarrow> group_state res" where
  "deleteGroup env actor gid guard s =
     res_bind (run_stmt s GBegin s) (\<lambda>s.
     res_bind (groupDeleteBeforeTx s gid) (\<lambda>(before, details).
     res_bind (guardGroupLiftsTx s guard gid) (\<lambda>_.
     res_bind (deleteGroupDependentsTx gid s) (\<lambda>s.
     res_bind (deleteGroupRowTx gid s) (\<lambda>s.
     res_bind (recordGroupEvent env actor ''group.delete'' gid (gsn_name before) details s) (\<lambda>s.
       run_stmt s GCommit s))))))"

section \<open>Memberships\<close>

text \<open>
  A group id without a row gives an empty target name and leaves the error to the change.
\<close>

definition membershipChange ::
  "group_env \<Rightarrow> actor \<Rightarrow> string \<Rightarrow> string \<Rightarrow> int \<Rightarrow> int \<Rightarrow> (group_state \<Rightarrow> group_state res) \<Rightarrow>
     group_state \<Rightarrow> group_state res" where
  "membershipChange env actor action memberType groupID memberID change s =
     res_bind (run_stmt s GBegin s) (\<lambda>s.
     res_bind (groupSnapshotTx s groupID) (\<lambda>snap.
     let name = (case snap of None \<Rightarrow> '''' | Some found \<Rightarrow> gsn_name found) in
     res_bind (change s) (\<lambda>s.
     res_bind (groupMemberNameTx s memberType memberID) (\<lambda>memberName.
     res_bind (recordGroupEvent env actor action groupID name (MemberDetails memberType memberID memberName) s) (\<lambda>s.
       run_stmt s GCommit s)))))"

text \<open>
  The constraints on a new membership: both ends exist (foreign keys), the pair is new
  (UNIQUE) and a group is not its own member (CHECK).
\<close>

definition insertUserMember :: "int \<Rightarrow> int \<Rightarrow> group_state \<Rightarrow> group_state res" where
  "insertUserMember groupID userID s =
     run_checked s (WAddUser groupID userID) ErrConstraint
       (groupID \<in> group_ids s \<and> userID \<in> usr_id ` set (users (as_auth s)) \<and>
        (\<forall>m \<in> set (group_memberships (as_auth s)).
           \<not> (gm_parent_group_id m = groupID \<and> gm_member_user_id m = Some userID)))
       (on_auth (\<lambda>st. st\<lparr>group_memberships := group_memberships st @
          [\<lparr>gm_parent_group_id = groupID, gm_member_user_id = Some userID, gm_member_group_id = None\<rparr>]\<rparr>) s)"

definition insertGroupMember :: "int \<Rightarrow> int \<Rightarrow> group_state \<Rightarrow> group_state res" where
  "insertGroupMember parent child s =
     run_checked s (WAddGroup parent child) ErrConstraint
       (parent \<in> group_ids s \<and> child \<in> group_ids s \<and> parent \<noteq> child \<and>
        (\<forall>m \<in> set (group_memberships (as_auth s)).
           \<not> (gm_parent_group_id m = parent \<and> gm_member_group_id m = Some child)))
       (on_auth (\<lambda>st. st\<lparr>group_memberships := group_memberships st @
          [\<lparr>gm_parent_group_id = parent, gm_member_user_id = None, gm_member_group_id = Some child\<rparr>]\<rparr>) s)"

text \<open>A \<^verbatim>\<open>DELETE\<close> that must hit a row.\<close>

definition deleteMembers :: "group_stmt \<Rightarrow> (membership_row \<Rightarrow> bool) \<Rightarrow> group_state \<Rightarrow> group_state res" where
  "deleteMembers q hit s =
     res_bind (run_stmt s q (length (filter hit (group_memberships (as_auth s))))) (\<lambda>rows.
       if rows = 0 then Inl ErrNotAMember
       else Inr (on_auth (\<lambda>st. st\<lparr>group_memberships := filter (\<lambda>m. \<not> hit m) (group_memberships st)\<rparr>) s))"

definition addUserToGroup :: "group_env \<Rightarrow> actor \<Rightarrow> int \<Rightarrow> int \<Rightarrow> group_state \<Rightarrow> group_state res" where
  "addUserToGroup env actor groupID userID =
     membershipChange env actor ''group.member.add'' memberTypeUser groupID userID (insertUserMember groupID userID)"

definition addGroupToGroup :: "group_env \<Rightarrow> actor \<Rightarrow> int \<Rightarrow> int \<Rightarrow> group_state \<Rightarrow> group_state res" where
  "addGroupToGroup env actor parent child =
     membershipChange env actor ''group.member.add'' memberTypeGroup parent child
       (\<lambda>s. res_bind (validateNoCircularReference (as_auth s) parent child) (\<lambda>_. insertGroupMember parent child s))"

definition removeUserFromGroup :: "group_env \<Rightarrow> actor \<Rightarrow> int \<Rightarrow> int \<Rightarrow> group_state \<Rightarrow> group_state res" where
  "removeUserFromGroup env actor groupID userID =
     membershipChange env actor ''group.member.remove'' memberTypeUser groupID userID
       (deleteMembers (WRemoveUser groupID userID)
          (\<lambda>m. gm_parent_group_id m = groupID \<and> gm_member_user_id m = Some userID))"

definition removeGroupFromGroup :: "group_env \<Rightarrow> actor \<Rightarrow> int \<Rightarrow> int \<Rightarrow> group_state \<Rightarrow> group_state res" where
  "removeGroupFromGroup env actor parent child =
     membershipChange env actor ''group.member.remove'' memberTypeGroup parent child
       (deleteMembers (WRemoveGroup parent child)
          (\<lambda>m. gm_parent_group_id m = parent \<and> gm_member_group_id m = Some child))"

end
