(* ===== verification/Grant_Mutations.thy ===== *)
theory Grant_Mutations
  imports Group_Mutations
begin

text \<open>
  The audited grants of \<^verbatim>\<open>privileges.go\<close>: granting a group an MCP item, a connection or an
  admin permission, and revoking it, each in one transaction with its audit event.
  \<^verbatim>\<open>INSERT OR IGNORE\<close> skips a row that would break a UNIQUE or a CHECK constraint and
  reports no error, but still fails on a foreign key; \<^verbatim>\<open>INSERT OR REPLACE\<close> deletes the row
  it conflicts with.
\<close>

section \<open>Names for the audit trail\<close>

text \<open>A group that is missing or cannot be read has the empty name.\<close>

definition groupAuditName :: "group_state \<Rightarrow> int \<Rightarrow> string" where
  "groupAuditName s gid =
     (case run_stmt s (RGroupName gid) (first_row (filter (\<lambda>r. ug_id r = gid) (user_groups s))) of
        Inr (Some r) \<Rightarrow> ug_name r | _ \<Rightarrow> '''')"

definition mcpPrivilegeAuditName :: "group_state \<Rightarrow> int \<Rightarrow> mcp_name" where
  "mcpPrivilegeAuditName s pid =
     (if pid = MCPPrivilegeIDWildcard then ''*''
      else case run_stmt s (RPrivilegeName pid)
                  (first_row (filter (\<lambda>m. mpi_id m = pid) (mcp_privilege_identifiers (as_auth s)))) of
        Inr (Some m) \<Rightarrow> mpi_identifier m | _ \<Rightarrow> '''')"

definition connectionAccessLevelTx :: "group_state \<Rightarrow> int \<Rightarrow> conn_id \<Rightarrow> access_level" where
  "connectionAccessLevelTx s gid connectionID =
     (case run_stmt s (RConnLevel gid connectionID)
             (first_row (filter (\<lambda>(c, l). c = connectionID) (group_conn_rows (as_auth s) gid))) of
        Inr (Some (c, level)) \<Rightarrow> level | _ \<Rightarrow> '''')"

section \<open>MCP items\<close>

definition insertMCPGrant :: "int \<Rightarrow> int \<Rightarrow> group_state \<Rightarrow> group_state res" where
  "insertMCPGrant gid pid s =
     (let known = (gid, pid) \<in> set (group_mcp_privileges (as_auth s)) in
      run_checked s (WGrantMCP gid) ErrConstraint (known \<or> gid \<in> group_ids s)
        (if known then s
         else on_auth (\<lambda>st. st\<lparr>group_mcp_privileges := group_mcp_privileges st @ [(gid, pid)]\<rparr>) s))"

definition deleteMCPGrant :: "int \<Rightarrow> int option \<Rightarrow> group_state \<Rightarrow> group_state res" where
  "deleteMCPGrant gid pid s =
     res_bind (run_stmt s (WRevokeMCP gid)
         (length (filter (\<lambda>(g, p). g = gid \<and> Some p = pid) (group_mcp_privileges (as_auth s))))) (\<lambda>rows.
       if rows = 0 then Inl ErrGrantNotFound
       else Inr (on_auth (\<lambda>st. st\<lparr>group_mcp_privileges :=
              filter (\<lambda>(g, p). \<not> (g = gid \<and> Some p = pid)) (group_mcp_privileges st)\<rparr>) s))"

definition grantMCPPrivilege :: "group_env \<Rightarrow> actor \<Rightarrow> int \<Rightarrow> int \<Rightarrow> group_state \<Rightarrow> group_state res" where
  "grantMCPPrivilege env actor gid pid s =
     res_bind (run_stmt s GBegin s) (\<lambda>s.
     let name = groupAuditName s gid in
     res_bind (insertMCPGrant gid pid s) (\<lambda>s.
     res_bind (recordGroupEvent env actor ''privilege.mcp.grant'' gid name
         (PrivilegeDetails pid (mcpPrivilegeAuditName s pid)) s) (\<lambda>s.
       run_stmt s GCommit s)))"

text \<open>The id of a registered identifier; \<open>None\<close> is \<^verbatim>\<open>sql.ErrNoRows\<close>.\<close>

definition privilege_id :: "group_state \<Rightarrow> mcp_name \<Rightarrow> int option" where
  "privilege_id s ident =
     map_option mpi_id (first_row (filter (\<lambda>m. mpi_identifier m = ident) (mcp_privilege_identifiers (as_auth s))))"

definition resolvePrivilege :: "group_state \<Rightarrow> mcp_name \<Rightarrow> int res" where
  "resolvePrivilege s ident =
     (if ident = ''*'' then Inr MCPPrivilegeIDWildcard
      else res_bind (run_stmt s (RPrivilegeID ident) (privilege_id s ident))
             (\<lambda>row. case row of None \<Rightarrow> Inl ErrPrivilegeNotFound | Some pid \<Rightarrow> Inr pid))"

text \<open>Granting the wildcard removes the individual grants.\<close>

definition trimMCPGrants :: "int \<Rightarrow> mcp_name \<Rightarrow> group_state \<Rightarrow> group_state res" where
  "trimMCPGrants gid ident s =
     (if ident = ''*''
      then run_stmt s (WTrimMCP gid) (on_auth (\<lambda>st. st\<lparr>group_mcp_privileges :=
             filter (\<lambda>(g, p). \<not> (g = gid \<and> p \<noteq> MCPPrivilegeIDWildcard)) (group_mcp_privileges st)\<rparr>) s)
      else Inr s)"

definition grantMCPPrivilegeByName :: "group_env \<Rightarrow> actor \<Rightarrow> int \<Rightarrow> mcp_name \<Rightarrow> group_state \<Rightarrow> group_state res" where
  "grantMCPPrivilegeByName env actor gid ident s =
     res_bind (run_stmt s GBegin s) (\<lambda>s.
     let name = groupAuditName s gid in
     res_bind (resolvePrivilege s ident) (\<lambda>pid.
     res_bind (insertMCPGrant gid pid s) (\<lambda>s.
     res_bind (trimMCPGrants gid ident s) (\<lambda>s.
     res_bind (recordGroupEvent env actor ''privilege.mcp.grant'' gid name (PrivilegeDetails pid ident) s) (\<lambda>s.
       run_stmt s GCommit s)))))"

definition revokeMCPPrivilege :: "group_env \<Rightarrow> actor \<Rightarrow> int \<Rightarrow> int \<Rightarrow> group_state \<Rightarrow> group_state res" where
  "revokeMCPPrivilege env actor gid pid s =
     res_bind (run_stmt s GBegin s) (\<lambda>s.
     let name = groupAuditName s gid; privilegeName = mcpPrivilegeAuditName s pid in
     res_bind (deleteMCPGrant gid (Some pid) s) (\<lambda>s.
     res_bind (recordGroupEvent env actor ''privilege.mcp.revoke'' gid name (PrivilegeDetails pid privilegeName) s) (\<lambda>s.
       run_stmt s GCommit s)))"

text \<open>
  The lookup only names the id in the event, and reads as 0 when it fails; the
  \<^verbatim>\<open>DELETE\<close> resolves the identifier again in a subquery.
\<close>

definition revokeMCPPrivilegeByName :: "group_env \<Rightarrow> actor \<Rightarrow> int \<Rightarrow> mcp_name \<Rightarrow> group_state \<Rightarrow> group_state res" where
  "revokeMCPPrivilegeByName env actor gid ident s =
     res_bind (run_stmt s GBegin s) (\<lambda>s.
     let name = groupAuditName s gid;
         pid = (if ident = ''*'' then MCPPrivilegeIDWildcard
                else case run_stmt s (RPrivilegeID ident) (privilege_id s ident) of Inr (Some p) \<Rightarrow> p | _ \<Rightarrow> 0);
         victim = (if ident = ''*'' then Some MCPPrivilegeIDWildcard else privilege_id s ident) in
     res_bind (deleteMCPGrant gid victim s) (\<lambda>s.
     res_bind (recordGroupEvent env actor ''privilege.mcp.revoke'' gid name (PrivilegeDetails pid ident) s) (\<lambda>s.
       run_stmt s GCommit s)))"

section \<open>Connections\<close>

definition replaceConnGrant :: "int \<Rightarrow> conn_id \<Rightarrow> access_level \<Rightarrow> group_state \<Rightarrow> group_state res" where
  "replaceConnGrant gid connectionID level s =
     run_checked s (WGrantConn gid connectionID) ErrConstraint (gid \<in> group_ids s)
       (on_auth (\<lambda>st. st\<lparr>connection_privileges :=
          filter (\<lambda>(g, c, l). \<not> (g = gid \<and> c = connectionID)) (connection_privileges st) @ [(gid, connectionID, level)]\<rparr>) s)"

definition grantConnectionPrivilege ::
  "group_env \<Rightarrow> actor \<Rightarrow> int \<Rightarrow> conn_id \<Rightarrow> access_level \<Rightarrow> group_state \<Rightarrow> group_state res" where
  "grantConnectionPrivilege env actor gid connectionID accessLevel s =
     res_bind (run_stmt s GBegin s) (\<lambda>s.
     let name = groupAuditName s gid; before = connectionAccessLevelTx s gid connectionID in
     if accessLevel \<noteq> AccessLevelRead \<and> accessLevel \<noteq> AccessLevelReadWrite then Inl ErrInvalidAccessLevel
     else
     res_bind (replaceConnGrant gid connectionID accessLevel s) (\<lambda>s.
     res_bind (recordGroupEvent env actor ''privilege.connection.grant'' gid name
         (ConnGrantDetails connectionID before accessLevel) s) (\<lambda>s.
       run_stmt s GCommit s)))"

definition deleteConnGrant :: "int \<Rightarrow> conn_id \<Rightarrow> group_state \<Rightarrow> group_state res" where
  "deleteConnGrant gid connectionID s =
     res_bind (run_stmt s (WRevokeConn gid connectionID)
         (length (filter (\<lambda>(g, c, l). g = gid \<and> c = connectionID) (connection_privileges (as_auth s))))) (\<lambda>rows.
       if rows = 0 then Inl ErrGrantNotFound
       else Inr (on_auth (\<lambda>st. st\<lparr>connection_privileges :=
              filter (\<lambda>(g, c, l). \<not> (g = gid \<and> c = connectionID)) (connection_privileges st)\<rparr>) s))"

definition revokeConnectionPrivilege ::
  "group_env \<Rightarrow> actor \<Rightarrow> int \<Rightarrow> conn_id \<Rightarrow> lift_guard option \<Rightarrow> group_state \<Rightarrow> group_state res" where
  "revokeConnectionPrivilege env actor gid connectionID guard s =
     res_bind (run_stmt s GBegin s) (\<lambda>s.
     let name = groupAuditName s gid; before = connectionAccessLevelTx s gid connectionID in
     res_bind (guardLiftTx (as_auth s) guard gid connectionID) (\<lambda>_.
     res_bind (deleteConnGrant gid connectionID s) (\<lambda>s.
     res_bind (recordGroupEvent env actor ''privilege.connection.revoke'' gid name
         (ConnRevokeDetails connectionID before) s) (\<lambda>s.
       run_stmt s GCommit s))))"

section \<open>Admin permissions\<close>

text \<open>The CHECK constraint of \<^verbatim>\<open>group_admin_permissions\<close>.\<close>

definition storable_permission :: "permission \<Rightarrow> bool" where
  "storable_permission p \<longleftrightarrow> p \<in> set
     [''manage_connections'', ''manage_groups'', ''manage_permissions'', ''manage_users'', ''manage_token_scopes'',
      ''manage_blackouts'', ''manage_probes'', ''manage_alert_rules'', ''manage_notification_channels'',
      ''store_system_memory'', ''*'']"

definition individualAdminPermissions :: "group_state \<Rightarrow> int \<Rightarrow> (permission list) res" where
  "individualAdminPermissions s gid =
     run_stmt s (RIndividualAdmin gid)
       (sort (map snd (filter (\<lambda>(g, p). g = gid \<and> p \<noteq> AdminPermissionWildcard) (group_admin_permissions (as_auth s)))))"

definition insertAdminGrant :: "int \<Rightarrow> permission \<Rightarrow> group_state \<Rightarrow> group_state res" where
  "insertAdminGrant gid permission s =
     (let skipped = \<not> storable_permission permission \<or> (gid, permission) \<in> set (group_admin_permissions (as_auth s)) in
      run_checked s (WGrantAdmin gid) ErrConstraint (skipped \<or> gid \<in> group_ids s)
        (if skipped then s
         else on_auth (\<lambda>st. st\<lparr>group_admin_permissions := group_admin_permissions st @ [(gid, permission)]\<rparr>) s))"

definition trimAdminGrants :: "int \<Rightarrow> permission \<Rightarrow> group_state \<Rightarrow> group_state res" where
  "trimAdminGrants gid permission s =
     (if permission = AdminPermissionWildcard
      then run_stmt s (WTrimAdmin gid) (on_auth (\<lambda>st. st\<lparr>group_admin_permissions :=
             filter (\<lambda>(g, p). \<not> (g = gid \<and> p \<noteq> AdminPermissionWildcard)) (group_admin_permissions st)\<rparr>) s)
      else Inr s)"

definition grantAdminPermission :: "group_env \<Rightarrow> actor \<Rightarrow> int \<Rightarrow> permission \<Rightarrow> group_state \<Rightarrow> group_state res" where
  "grantAdminPermission env actor gid permission s =
     res_bind (run_stmt s GBegin s) (\<lambda>s.
     let name = groupAuditName s gid in
     res_bind (if permission = AdminPermissionWildcard
               then res_bind (individualAdminPermissions s gid) (\<lambda>removed. Inr (Some removed)) else Inr None) (\<lambda>removed.
     res_bind (insertAdminGrant gid permission s) (\<lambda>s.
     res_bind (trimAdminGrants gid permission s) (\<lambda>s.
     res_bind (recordGroupEvent env actor ''permission.admin.grant'' gid name (PermissionDetails permission removed) s) (\<lambda>s.
       run_stmt s GCommit s)))))"

definition deleteAdminGrant :: "int \<Rightarrow> permission \<Rightarrow> group_state \<Rightarrow> group_state res" where
  "deleteAdminGrant gid permission s =
     res_bind (run_stmt s (WRevokeAdmin gid)
         (length (filter (\<lambda>(g, p). g = gid \<and> p = permission) (group_admin_permissions (as_auth s))))) (\<lambda>rows.
       if rows = 0 then Inl ErrGrantNotFound
       else Inr (on_auth (\<lambda>st. st\<lparr>group_admin_permissions :=
              filter (\<lambda>(g, p). \<not> (g = gid \<and> p = permission)) (group_admin_permissions st)\<rparr>) s))"

definition revokeAdminPermission :: "group_env \<Rightarrow> actor \<Rightarrow> int \<Rightarrow> permission \<Rightarrow> group_state \<Rightarrow> group_state res" where
  "revokeAdminPermission env actor gid permission s =
     res_bind (run_stmt s GBegin s) (\<lambda>s.
     let name = groupAuditName s gid in
     res_bind (deleteAdminGrant gid permission s) (\<lambda>s.
     res_bind (recordGroupEvent env actor ''permission.admin.revoke'' gid name (PermissionDetails permission None) s) (\<lambda>s.
       run_stmt s GCommit s)))"

section \<open>The operations together\<close>

datatype group_op =
    CreateGroup string string
  | UpdateGroup int string string
  | DeleteGroup int "lift_guard option"
  | AddUserToGroup int int
  | AddGroupToGroup int int
  | RemoveUserFromGroup int int
  | RemoveGroupFromGroup int int
  | GrantMCPPrivilege int int
  | GrantMCPPrivilegeByName int mcp_name
  | RevokeMCPPrivilege int int
  | RevokeMCPPrivilegeByName int mcp_name
  | GrantConnectionPrivilege int conn_id access_level
  | RevokeConnectionPrivilege int conn_id "lift_guard option"
  | GrantAdminPermission int permission
  | RevokeAdminPermission int permission

fun run_op :: "group_env \<Rightarrow> actor \<Rightarrow> group_op \<Rightarrow> group_state \<Rightarrow> group_state res" where
  "run_op env a (CreateGroup n d) s = res_bind (createGroup env a n d s) (\<lambda>(gid, s). Inr s)"
| "run_op env a (UpdateGroup g n d) s = updateGroup env a g n d s"
| "run_op env a (DeleteGroup g guard) s = deleteGroup env a g guard s"
| "run_op env a (AddUserToGroup g u) s = addUserToGroup env a g u s"
| "run_op env a (AddGroupToGroup p c) s = addGroupToGroup env a p c s"
| "run_op env a (RemoveUserFromGroup g u) s = removeUserFromGroup env a g u s"
| "run_op env a (RemoveGroupFromGroup p c) s = removeGroupFromGroup env a p c s"
| "run_op env a (GrantMCPPrivilege g p) s = grantMCPPrivilege env a g p s"
| "run_op env a (GrantMCPPrivilegeByName g n) s = grantMCPPrivilegeByName env a g n s"
| "run_op env a (RevokeMCPPrivilege g p) s = revokeMCPPrivilege env a g p s"
| "run_op env a (RevokeMCPPrivilegeByName g n) s = revokeMCPPrivilegeByName env a g n s"
| "run_op env a (GrantConnectionPrivilege g c l) s = grantConnectionPrivilege env a g c l s"
| "run_op env a (RevokeConnectionPrivilege g c guard) s = revokeConnectionPrivilege env a g c guard s"
| "run_op env a (GrantAdminPermission g p) s = grantAdminPermission env a g p s"
| "run_op env a (RevokeAdminPermission g p) s = revokeAdminPermission env a g p s"

end
