(* ===== verification/Group_Invariants.thy ===== *)
theory Group_Invariants
  imports Grant_Mutations
begin

text \<open>
  The invariant of the group tables and the split of every mutation into the statements that
  change tables and the audit event. \<open>group_wf\<close> states the constraints of the schema, that
  every reference names a row, and that the hierarchy has no cycle; each operation keeps it.
  The interface \<open>audited_write\<close> states what a mutation promises its callers: the tables
  change by its writes alone and exactly one event is appended, so the log the server wrote
  stays one the server wrote.
\<close>

section \<open>The invariant\<close>

definition groups_ok :: "group_state \<Rightarrow> bool" where
  "groups_ok s \<longleftrightarrow> distinct (map ug_id (user_groups s)) \<and> distinct (map ug_name (user_groups s)) \<and>
     0 \<le> user_groups_seq s \<and> (\<forall>r \<in> set (user_groups s). 0 < ug_id r \<and> ug_id r \<le> user_groups_seq s)"

text \<open>A membership names one member, a user or a group, and both of its ends exist.\<close>

definition member_ok :: "group_state \<Rightarrow> membership_row \<Rightarrow> bool" where
  "member_ok s m \<longleftrightarrow> gm_parent_group_id m \<in> group_ids s \<and>
     (gm_member_user_id m = None \<longleftrightarrow> gm_member_group_id m \<noteq> None) \<and>
     (\<forall>u. gm_member_user_id m = Some u \<longrightarrow> u \<in> usr_id ` set (users (as_auth s))) \<and>
     (\<forall>g. gm_member_group_id m = Some g \<longrightarrow> g \<in> group_ids s)"

definition members_ok :: "group_state \<Rightarrow> bool" where
  "members_ok s \<longleftrightarrow> (\<forall>m \<in> set (group_memberships (as_auth s)). member_ok s m) \<and>
     distinct (group_memberships (as_auth s)) \<and> acyclic (set (parent_edges (as_auth s)))"

definition grants_ok :: "group_state \<Rightarrow> bool" where
  "grants_ok s \<longleftrightarrow>
     fst ` set (group_mcp_privileges (as_auth s)) \<subseteq> group_ids s \<and> distinct (group_mcp_privileges (as_auth s)) \<and>
     fst ` set (connection_privileges (as_auth s)) \<subseteq> group_ids s \<and>
     distinct (map (\<lambda>(g, c, l). (g, c)) (connection_privileges (as_auth s))) \<and>
     fst ` set (group_admin_permissions (as_auth s)) \<subseteq> group_ids s \<and> distinct (group_admin_permissions (as_auth s)) \<and>
     (\<forall>(g, p) \<in> set (group_admin_permissions (as_auth s)). storable_permission p)"

definition group_wf :: "group_state \<Rightarrow> bool" where
  "group_wf s \<longleftrightarrow> store_wf (as_auth s) \<and> groups_ok s \<and> members_ok s \<and> grants_ok s"

lemmas wf_defs = group_wf_def groups_ok_def members_ok_def member_ok_def grants_ok_def

text \<open>Which statements fail, and the audit log, are not part of the invariant.\<close>

lemma group_wf_audit [simp]: "group_wf (s\<lparr>as_audit := db\<rparr>) = group_wf s"
  by (simp add: wf_defs group_ids_def cong: conj_cong)

lemma group_ids_frame [simp]:
  "group_ids (on_auth f s) = group_ids s" "group_ids (s\<lparr>as_audit := db\<rparr>) = group_ids s"
  by (simp_all add: group_ids_def on_auth_def)

section \<open>The writes of an operation\<close>

text \<open>The statements of each mutation that change tables, with the checks among them.\<close>

fun op_writes :: "group_op \<Rightarrow> group_state \<Rightarrow> group_state res" where
  "op_writes (CreateGroup n d) s = res_bind (insertGroup n d s) (\<lambda>(gid, s). Inr s)"
| "op_writes (UpdateGroup g n d) s = updateGroupRow g n d s"
| "op_writes (DeleteGroup g guard) s =
     res_bind (guardGroupLiftsTx s guard g) (\<lambda>_. res_bind (deleteGroupDependentsTx g s) (deleteGroupRowTx g))"
| "op_writes (AddUserToGroup g u) s = insertUserMember g u s"
| "op_writes (AddGroupToGroup p c) s =
     res_bind (validateNoCircularReference (as_auth s) p c) (\<lambda>_. insertGroupMember p c s)"
| "op_writes (RemoveUserFromGroup g u) s = deleteMembers (WRemoveUser g u)
     (\<lambda>m. gm_parent_group_id m = g \<and> gm_member_user_id m = Some u) s"
| "op_writes (RemoveGroupFromGroup p c) s = deleteMembers (WRemoveGroup p c)
     (\<lambda>m. gm_parent_group_id m = p \<and> gm_member_group_id m = Some c) s"
| "op_writes (GrantMCPPrivilege g p) s = insertMCPGrant g p s"
| "op_writes (GrantMCPPrivilegeByName g n) s =
     res_bind (resolvePrivilege s n) (\<lambda>pid. res_bind (insertMCPGrant g pid s) (trimMCPGrants g n))"
| "op_writes (RevokeMCPPrivilege g p) s = deleteMCPGrant g (Some p) s"
| "op_writes (RevokeMCPPrivilegeByName g n) s =
     deleteMCPGrant g (if n = ''*'' then Some MCPPrivilegeIDWildcard else privilege_id s n) s"
| "op_writes (GrantConnectionPrivilege g c l) s =
     (if l \<noteq> AccessLevelRead \<and> l \<noteq> AccessLevelReadWrite then Inl ErrInvalidAccessLevel else replaceConnGrant g c l s)"
| "op_writes (RevokeConnectionPrivilege g c guard) s =
     res_bind (guardLiftTx (as_auth s) guard g c) (\<lambda>_. deleteConnGrant g c s)"
| "op_writes (GrantAdminPermission g p) s = res_bind (insertAdminGrant g p s) (trimAdminGrants g p)"
| "op_writes (RevokeAdminPermission g p) s = deleteAdminGrant g p s"

fun op_action :: "group_op \<Rightarrow> string" where
  "op_action (CreateGroup n d) = ''group.create''"
| "op_action (UpdateGroup g n d) = ''group.update''"
| "op_action (DeleteGroup g guard) = ''group.delete''"
| "op_action (AddUserToGroup g u) = ''group.member.add''"
| "op_action (AddGroupToGroup p c) = ''group.member.add''"
| "op_action (RemoveUserFromGroup g u) = ''group.member.remove''"
| "op_action (RemoveGroupFromGroup p c) = ''group.member.remove''"
| "op_action (GrantMCPPrivilege g p) = ''privilege.mcp.grant''"
| "op_action (GrantMCPPrivilegeByName g n) = ''privilege.mcp.grant''"
| "op_action (RevokeMCPPrivilege g p) = ''privilege.mcp.revoke''"
| "op_action (RevokeMCPPrivilegeByName g n) = ''privilege.mcp.revoke''"
| "op_action (GrantConnectionPrivilege g c l) = ''privilege.connection.grant''"
| "op_action (RevokeConnectionPrivilege g c guard) = ''privilege.connection.revoke''"
| "op_action (GrantAdminPermission g p) = ''permission.admin.grant''"
| "op_action (RevokeAdminPermission g p) = ''permission.admin.revoke''"

text \<open>The group an operation names; a new group has no id yet.\<close>

fun op_group :: "group_op \<Rightarrow> int option" where
  "op_group (CreateGroup n d) = None"
| "op_group (UpdateGroup g n d) = Some g"
| "op_group (DeleteGroup g guard) = Some g"
| "op_group (AddUserToGroup g u) = Some g"
| "op_group (AddGroupToGroup p c) = Some p"
| "op_group (RemoveUserFromGroup g u) = Some g"
| "op_group (RemoveGroupFromGroup p c) = Some p"
| "op_group (GrantMCPPrivilege g p) = Some g"
| "op_group (GrantMCPPrivilegeByName g n) = Some g"
| "op_group (RevokeMCPPrivilege g p) = Some g"
| "op_group (RevokeMCPPrivilegeByName g n) = Some g"
| "op_group (GrantConnectionPrivilege g c l) = Some g"
| "op_group (RevokeConnectionPrivilege g c guard) = Some g"
| "op_group (GrantAdminPermission g p) = Some g"
| "op_group (RevokeAdminPermission g p) = Some g"

definition op_target :: "group_op \<Rightarrow> group_state \<Rightarrow> int" where
  "op_target op s = (case op_group op of None \<Rightarrow> next_group_id s | Some g \<Rightarrow> g)"

lemmas group_defs = createGroup_def updateGroup_def deleteGroup_def groupDeleteBeforeTx_def membershipChange_def
  addUserToGroup_def addGroupToGroup_def removeUserFromGroup_def removeGroupFromGroup_def

lemmas grant_defs = grantMCPPrivilege_def grantMCPPrivilegeByName_def revokeMCPPrivilege_def
  revokeMCPPrivilegeByName_def grantConnectionPrivilege_def revokeConnectionPrivilege_def
  grantAdminPermission_def revokeAdminPermission_def

lemmas write_defs = insertGroup_def updateGroupRow_def deleteGroupDependentsTx_def deleteGroupRowTx_def
  insertUserMember_def insertGroupMember_def deleteMembers_def insertMCPGrant_def deleteMCPGrant_def
  trimMCPGrants_def replaceConnGrant_def deleteConnGrant_def insertAdminGrant_def trimAdminGrants_def deleteAdminGrant_def

lemma group_op_writes:
  "createGroup env a n d s = Inr (gid, s') \<Longrightarrow> \<exists>t name details. insertGroup n d s = Inr (gid, t) \<and>
     recordGroupEvent env a ''group.create'' gid name details t = Inr s'"
  "updateGroup env a g n d s = Inr s' \<Longrightarrow> \<exists>t name details. updateGroupRow g n d s = Inr t \<and>
     recordGroupEvent env a ''group.update'' g name details t = Inr s'"
  "deleteGroup env a g guard s = Inr s' \<Longrightarrow> \<exists>t name details. op_writes (DeleteGroup g guard) s = Inr t \<and>
     recordGroupEvent env a ''group.delete'' g name details t = Inr s'"
  "membershipChange env a act ty g m f s = Inr s' \<Longrightarrow> \<exists>t name details. f s = Inr t \<and>
     recordGroupEvent env a act g name details t = Inr s'"
  by (auto simp: group_defs go_simps Let_def split: option.splits; blast)+

lemma run_op_writes:
  assumes "run_op env a op s = Inr s'"
  shows "\<exists>t name details. op_writes op s = Inr t \<and>
    recordGroupEvent env a (op_action op) (op_target op s) name details t = Inr s'"
proof (cases op)
  case (CreateGroup n d)
  with assms obtain gid where made: "createGroup env a n d s = Inr (gid, s')" by (auto simp: go_simps)
  then have "insertGroup n d s = Inr (gid, t) \<Longrightarrow> gid = next_group_id s" for t
    by (auto simp: insertGroup_def Let_def go_simps)
  with group_op_writes(1)[OF made] CreateGroup show ?thesis by (fastforce simp: op_target_def)
next
  case (AddGroupToGroup p c)
  with assms have "membershipChange env a ''group.member.add'' memberTypeGroup p c (op_writes op) s = Inr s'"
    by (simp add: addGroupToGroup_def op_writes.simps[abs_def])
  from group_op_writes(4)[OF this] AddGroupToGroup show ?thesis by (simp add: op_target_def)
qed (use assms group_op_writes(2-) in
     \<open>auto simp: op_target_def addUserToGroup_def removeUserFromGroup_def removeGroupFromGroup_def
        grant_defs go_simps Let_def split: if_splits\<close>)

section \<open>The interface of a mutation\<close>

lemma recordAudit_row:
  assumes "recordAudit env now db ev = Inr (row, db')"
  shows "\<exists>p h i. row = (complete_event now p ev)\<lparr>ev_hash := h, ev_id := i\<rparr> \<and> ad_events db' = ad_events db @ [row]"
  using assms
  by (fastforce simp: recordAudit_def insertAuditEvent_def applyAuditTailMove_def writeAuditTail_def writeAuditTailSlot_def
      writeAuditTailCurrent_def Let_def go_simps split: if_splits auditTailMove.splits)

text \<open>What the event of a mutation says: who did it, what, to which group, and that it succeeded.\<close>

definition attests :: "actor \<Rightarrow> string \<Rightarrow> int \<Rightarrow> audit_event \<Rightarrow> bool" where
  "attests a action gid row \<longleftrightarrow> ev_actor_type row = act_type a \<and> ev_actor_id row = act_id a \<and>
     ev_actor_name row = act_name a \<and> ev_actor_ip row = act_ip a \<and> ev_action row = action \<and>
     ev_target_type row = ''group'' \<and> ev_target_id row = Some gid \<and> ev_outcome row = ''success''"

lemma recordGroupEvent_ok:
  assumes "recordGroupEvent env a act gid name details t = Inr s'"
  shows "\<exists>row. s' = t\<lparr>as_audit := as_audit s'\<rparr> \<and> ad_events (as_audit s') = ad_events (as_audit t) @ [row] \<and>
    (act_type a \<noteq> '''' \<longrightarrow> attests a act gid row)"
    and "\<exists>ev row. recordAudit (ge_audit env) (ge_now env) (as_audit t) ev = Inr (row, as_audit s') \<and> ev_action ev = act"
proof -
  let ?ev = "newEvent a act ''group'' (Some gid) name (ge_marshal env details)"
  from assms obtain row db where rec: "recordAudit (ge_audit env) (ge_now env) (as_audit t) ?ev = Inr (row, db)"
    and s': "s' = t\<lparr>as_audit := db\<rparr>"
    by (auto simp: recordGroupEvent_def split: sum.splits)
  from recordAudit_row[OF rec] obtain p h i where
    "row = (complete_event (ge_now env) p ?ev)\<lparr>ev_hash := h, ev_id := i\<rparr>" "ad_events db = ad_events (as_audit t) @ [row]"
    by blast
  then show "\<exists>row. s' = t\<lparr>as_audit := as_audit s'\<rparr> \<and> ad_events (as_audit s') = ad_events (as_audit t) @ [row] \<and>
    (act_type a \<noteq> '''' \<longrightarrow> attests a act gid row)"
    by (intro exI[of _ row]) (simp add: s' attests_def complete_event_def newEvent_def Let_def)
  show "\<exists>ev row. recordAudit (ge_audit env) (ge_now env) (as_audit t) ev = Inr (row, as_audit s') \<and> ev_action ev = act"
    using rec s' by (intro exI[of _ ?ev] exI[of _ row]) (simp add: newEvent_def)
qed

locale audited_write =
  fixes mutate :: "'o \<Rightarrow> group_env \<Rightarrow> actor \<Rightarrow> group_state \<Rightarrow> group_state res"
    and writes :: "'o \<Rightarrow> group_state \<Rightarrow> group_state res"
    and action :: "'o \<Rightarrow> string"
    and target :: "'o \<Rightarrow> group_state \<Rightarrow> int"
  assumes splits: "mutate x env a s = Inr s' \<Longrightarrow> \<exists>t name details. writes x s = Inr t \<and>
      recordGroupEvent env a (action x) (target x s) name details t = Inr s'"
    and tables_only: "writes x s = Inr t \<Longrightarrow> as_audit t = as_audit s"
    and ordinary: "\<not> isAuditAnchorAction (action x)"
begin

lemma changes_tables:
  "mutate x env a s = Inr s' \<Longrightarrow> \<exists>t. writes x s = Inr t \<and> s' = t\<lparr>as_audit := as_audit s'\<rparr>"
  using splits recordGroupEvent_ok(1) by metis

lemma appends_event:
  assumes "mutate x env a s = Inr s'" "act_type a \<noteq> ''''"
  shows "\<exists>row. ad_events (as_audit s') = ad_events (as_audit s) @ [row] \<and> attests a (action x) (target x s) row"
  using splits[OF assms(1)] recordGroupEvent_ok(1) tables_only assms(2) by metis

lemma keeps_log:
  assumes "mutate x env a s = Inr s'" "audit_run (ge_audit env) (as_audit s)"
  shows "audit_run (ge_audit env) (as_audit s')"
proof -
  from splits[OF assms(1)] obtain t name details where t: "writes x s = Inr t"
    "recordGroupEvent env a (action x) (target x s) name details t = Inr s'" by blast
  from recordGroupEvent_ok(2)[OF t(2)] obtain ev row where
    "recordAudit (ge_audit env) (ge_now env) (as_audit s) ev = Inr (row, as_audit s')" "ev_action ev = action x"
    using tables_only[OF t(1)] by auto
  with audit_run.append[OF assms(2)] ordinary show ?thesis by metis
qed

text \<open>An invariant that does not look at the log is kept when the writes keep it.\<close>

lemma keeps_invariant:
  assumes "mutate x env a s = Inr s'" "I s"
    and "\<And>t. writes x s = Inr t \<Longrightarrow> I t" "\<And>t db. I (t\<lparr>as_audit := db\<rparr>) = I t"
  shows "I s'"
  using changes_tables[OF assms(1)] assms(2-) by metis

end

lemma writes_audit: "op_writes op s = Inr t \<Longrightarrow> as_audit t = as_audit s"
  by (cases op) (auto simp: write_defs go_simps Let_def split: if_splits)

interpretation group_ops: audited_write "\<lambda>op env a s. run_op env a op s" op_writes op_action op_target
proof unfold_locales
  show "\<not> isAuditAnchorAction (op_action x)" for x
    by (cases x) (simp_all add: isAuditAnchorAction_def auditActionPurge_def auditActionRechain_def)
qed (rule run_op_writes writes_audit; assumption)+

section \<open>Every operation keeps the invariant\<close>

lemma next_group_id_fresh: "groups_ok s \<Longrightarrow> next_group_id s = user_groups_seq s + 1"
proof -
  assume "groups_ok s"
  then have "Max (set (0 # user_groups_seq s # map ug_id (user_groups s))) = user_groups_seq s"
    by (intro Max_eqI) (auto simp: groups_ok_def)
  then show ?thesis unfolding next_group_id_def by simp
qed

lemma parent_edges_append [simp]:
  "set (parent_edges (st\<lparr>group_memberships := group_memberships st @ [r]\<rparr>)) =
     (case gm_member_group_id r of None \<Rightarrow> set (parent_edges st)
      | Some m \<Rightarrow> insert (m, gm_parent_group_id r) (set (parent_edges st)))"
  by (auto simp: set_parent_edges split: option.splits)

lemma parent_edges_filter:
  "set (parent_edges (st\<lparr>group_memberships := filter P (group_memberships st)\<rparr>)) \<subseteq> set (parent_edges st)"
  by (auto simp: set_parent_edges)

lemma parent_edges_tables [simp]:
  "parent_edges (st\<lparr>group_mcp_privileges := x\<rparr>) = parent_edges st"
  "parent_edges (st\<lparr>connection_privileges := y\<rparr>) = parent_edges st"
  "parent_edges (st\<lparr>group_admin_permissions := z\<rparr>) = parent_edges st"
  by (simp_all add: parent_edges_def)

text \<open>Adding groups, or changing what is stored of them, breaks no reference.\<close>

lemma member_ok_mono:
  "member_ok s m \<Longrightarrow> as_auth t = as_auth s \<Longrightarrow> group_ids s \<subseteq> group_ids t \<Longrightarrow> member_ok t m"
  by (auto simp: member_ok_def)

lemma groups_changed_wf:
  assumes "group_wf s" "groups_ok t" and same: "as_auth t = as_auth s" "group_ids s \<subseteq> group_ids t"
  shows "group_wf t"
proof -
  have "members_ok t" using assms(1) member_ok_mono[OF _ same] by (auto simp: group_wf_def members_ok_def same(1))
  moreover have "grants_ok t" using assms(1) same(2) by (simp add: group_wf_def grants_ok_def same(1)) (meson subset_trans)
  ultimately show ?thesis using assms(1,2) by (simp add: group_wf_def same(1))
qed

lemma insertGroup_wf:
  assumes "group_wf s" "insertGroup n d s = Inr (gid, t)"
  shows "group_wf t"
proof -
  have t: "t = s\<lparr>user_groups := user_groups s @ [\<lparr>ug_id = user_groups_seq s + 1, ug_name = n, ug_description = Some d\<rparr>],
      user_groups_seq := user_groups_seq s + 1\<rparr>" and new: "n \<notin> ug_name ` set (user_groups s)"
    using assms next_group_id_fresh[of s] by (auto simp: insertGroup_def group_wf_def Let_def go_simps)
  have "groups_ok t" using assms(1) new by (force simp: t group_wf_def groups_ok_def)
  moreover have "group_ids s \<subseteq> group_ids t" "as_auth t = as_auth s" by (auto simp: t group_ids_def)
  ultimately show ?thesis using groups_changed_wf[OF assms(1)] by blast
qed

lemma updateRow_simps [simp]: "ug_id (updateRow g n d r) = ug_id r"
  by (simp add: updateRow_def)

lemma updateGroupRow_wf:
  assumes "group_wf s" "updateGroupRow g n d s = Inr t"
  shows "group_wf t"
proof -
  have t: "t = s\<lparr>user_groups := map (updateRow g n d) (user_groups s)\<rparr>" and g: "g \<in> group_ids s"
    and free: "n = '''' \<or> (\<forall>r \<in> set (user_groups s). ug_name r = n \<longrightarrow> ug_id r = g)"
    using assms(2) by (auto simp: updateGroupRow_def go_simps group_ids_def split: if_splits)
  have ids: "group_ids t = group_ids s" unfolding group_ids_def t by (simp add: image_image)
  have dist: "distinct (user_groups s)" and ug: "inj_on ug_id (set (user_groups s))" "inj_on ug_name (set (user_groups s))"
    using assms(1) by (auto simp: group_wf_def groups_ok_def distinct_map)
  have "inj_on (\<lambda>r. ug_name (updateRow g n d r)) (set (user_groups s))"
  proof (rule inj_onI)
    fix x y assume xy: "x \<in> set (user_groups s)" "y \<in> set (user_groups s)"
      "ug_name (updateRow g n d x) = ug_name (updateRow g n d y)"
    then have "ug_name x = ug_name y \<or> ug_id x = ug_id y"
      using free by (auto simp: updateRow_def split: if_splits)
    then show "x = y" using xy(1,2) ug by (auto dest: inj_onD)
  qed
  then have "groups_ok t"
    using assms(1) dist by (auto simp: t group_wf_def groups_ok_def distinct_map o_def comp_inj_on)
  then show ?thesis using groups_changed_wf[OF assms(1)] ids by (simp add: t)
qed

lemma membership_wf:
  assumes "group_wf s" "member_ok s r" "r \<notin> set (group_memberships (as_auth s))"
    and "\<And>m. gm_member_group_id r = Some m \<Longrightarrow> acyclic (insert (m, gm_parent_group_id r) (set (parent_edges (as_auth s))))"
  shows "group_wf (on_auth (\<lambda>st. st\<lparr>group_memberships := group_memberships st @ [r]\<rparr>) s)"
  using assms by (auto simp: group_wf_def groups_ok_def members_ok_def member_ok_def grants_ok_def store_wf_def
      group_ids_def on_auth_def split: option.splits)

lemma memberships_removed_wf:
  assumes "group_wf s"
  shows "group_wf (on_auth (\<lambda>st. st\<lparr>group_memberships := filter P (group_memberships st)\<rparr>) s)"
  using assms acyclic_subset[OF _ parent_edges_filter[of P "as_auth s"]]
  by (auto simp: group_wf_def groups_ok_def members_ok_def member_ok_def grants_ok_def store_wf_def group_ids_def on_auth_def)

lemma grants_wf:
  assumes "group_wf s"
  shows "fst ` set x \<subseteq> group_ids s \<Longrightarrow> distinct x \<Longrightarrow> group_wf (on_auth (\<lambda>st. st\<lparr>group_mcp_privileges := x\<rparr>) s)"
    and "fst ` set y \<subseteq> group_ids s \<Longrightarrow> distinct (map (\<lambda>(g, c, l). (g, c)) y) \<Longrightarrow> \<forall>(g, c, l) \<in> set y. valid_level l \<Longrightarrow>
      group_wf (on_auth (\<lambda>st. st\<lparr>connection_privileges := y\<rparr>) s)"
    and "fst ` set z \<subseteq> group_ids s \<Longrightarrow> distinct z \<Longrightarrow> \<forall>(g, p) \<in> set z. storable_permission p \<Longrightarrow>
      group_wf (on_auth (\<lambda>st. st\<lparr>group_admin_permissions := z\<rparr>) s)"
  using assms by (auto simp: group_wf_def groups_ok_def members_ok_def member_ok_def grants_ok_def store_wf_def
      group_ids_def on_auth_def)

text \<open>Everything that mentions a group, taken out of the tables.\<close>

definition drop_group :: "int \<Rightarrow> auth_store \<Rightarrow> auth_store" where
  "drop_group g st = st\<lparr>
     group_memberships := filter (\<lambda>m. \<not> (gm_parent_group_id m = g \<or> gm_member_group_id m = Some g)) (group_memberships st),
     group_mcp_privileges := filter (\<lambda>(h, p). h \<noteq> g) (group_mcp_privileges st),
     connection_privileges := filter (\<lambda>(h, c, l). h \<noteq> g) (connection_privileges st),
     group_admin_permissions := filter (\<lambda>(h, p). h \<noteq> g) (group_admin_permissions st)\<rparr>"

lemma delete_writes:
  assumes "op_writes (DeleteGroup g guard) s = Inr t"
  shows "t = (on_auth (drop_group g) s)\<lparr>user_groups := filter (\<lambda>r. ug_id r \<noteq> g) (user_groups s)\<rparr> \<and>
    g \<in> group_ids s \<and> guardGroupLiftsTx s guard g = Inr ()"
  using assms
  by (auto simp: deleteGroupDependentsTx_def deleteGroupRowTx_def go_simps on_auth_def drop_group_def group_ids_def
      split: if_splits)

lemma delete_wf:
  assumes "group_wf s" "op_writes (DeleteGroup g guard) s = Inr t"
  shows "group_wf t"
proof -
  have t: "t = (on_auth (drop_group g) s)\<lparr>user_groups := filter (\<lambda>r. ug_id r \<noteq> g) (user_groups s)\<rparr>"
    using delete_writes[OF assms(2)] by simp
  have ids: "group_ids t = group_ids s - {g}" by (auto simp: t group_ids_def)
  have "groups_ok t" using assms(1) by (auto simp: t group_wf_def groups_ok_def distinct_map inj_on_def)
  moreover have "parent_edges (drop_group g (as_auth s)) =
      parent_edges ((as_auth s)\<lparr>group_memberships := group_memberships (drop_group g (as_auth s))\<rparr>)"
    by (simp add: parent_edges_def)
  then have "set (parent_edges (drop_group g (as_auth s))) \<subseteq> set (parent_edges (as_auth s))"
    using parent_edges_filter by (simp add: drop_group_def)
  then have "members_ok t" using assms(1) acyclic_subset[of "set (parent_edges (as_auth s))"]
    by (auto simp: t group_wf_def members_ok_def member_ok_def ids[unfolded t]) (auto simp: drop_group_def)
  moreover have "grants_ok t" using assms(1)
    by (auto simp: group_wf_def grants_ok_def ids[unfolded t] t distinct_map_filter) (auto simp: drop_group_def distinct_map_filter)
  moreover have "store_wf (as_auth t)" using assms(1) by (auto simp: t group_wf_def store_wf_def drop_group_def)
  ultimately show ?thesis by (simp add: group_wf_def)
qed

lemma mcp_writes_wf:
  assumes "group_wf s"
  shows "insertMCPGrant g p s = Inr t \<Longrightarrow> group_wf t" "deleteMCPGrant g q s = Inr t \<Longrightarrow> group_wf t"
    "trimMCPGrants g n s = Inr t \<Longrightarrow> group_wf t"
proof -
  have rows: "fst ` set (group_mcp_privileges (as_auth s)) \<subseteq> group_ids s" "distinct (group_mcp_privileges (as_auth s))"
    using assms by (simp_all add: group_wf_def grants_ok_def)
  then have kept: "group_wf (on_auth (\<lambda>st. st\<lparr>group_mcp_privileges := filter P (group_mcp_privileges st)\<rparr>) s)" for P
    using grants_wf(1)[OF assms, of "filter P (group_mcp_privileges (as_auth s))"] by (auto simp: on_auth_def)
  show "deleteMCPGrant g q s = Inr t \<Longrightarrow> group_wf t" "trimMCPGrants g n s = Inr t \<Longrightarrow> group_wf t"
    using assms by (auto simp: deleteMCPGrant_def trimMCPGrants_def go_simps split: if_splits intro: kept)
  show "insertMCPGrant g p s = Inr t \<Longrightarrow> group_wf t"
    using assms rows grants_wf(1)[OF assms, of "group_mcp_privileges (as_auth s) @ [(g, p)]"]
    by (auto simp: insertMCPGrant_def Let_def go_simps on_auth_def split: if_splits)
qed

lemma conn_writes_wf:
  assumes "group_wf s"
  shows "replaceConnGrant g c l s = Inr t \<Longrightarrow> valid_level l \<Longrightarrow> group_wf t" "deleteConnGrant g c s = Inr t \<Longrightarrow> group_wf t"
proof -
  let ?rows = "connection_privileges (as_auth s)"
  let ?left = "filter (\<lambda>(h, d, l). \<not> (h = g \<and> d = c)) ?rows"
  have rows: "fst ` set ?rows \<subseteq> group_ids s" "distinct (map (\<lambda>(g, c, l). (g, c)) ?rows)" "\<forall>(g, c, l) \<in> set ?rows. valid_level l"
    using assms by (simp_all add: group_wf_def grants_ok_def store_wf_def)
  then have left: "fst ` set ?left \<subseteq> group_ids s" "distinct (map (\<lambda>(g, c, l). (g, c)) ?left)"
    "\<forall>(g, c, l) \<in> set ?left. valid_level l" by (auto simp: distinct_map_filter)
  show "deleteConnGrant g c s = Inr t \<Longrightarrow> group_wf t"
    using grants_wf(2)[OF assms left] by (auto simp: deleteConnGrant_def go_simps on_auth_def split: if_splits)
  show "group_wf t" if "replaceConnGrant g c l s = Inr t" "valid_level l"
  proof -
    have "g \<in> group_ids s" and t: "t = on_auth (\<lambda>st. st\<lparr>connection_privileges := ?left @ [(g, c, l)]\<rparr>) s"
      using that(1) by (auto simp: replaceConnGrant_def go_simps on_auth_def)
    then show ?thesis unfolding t using left that(2) by (intro grants_wf(2)[OF assms]) auto
  qed
qed

lemma admin_writes_wf:
  assumes "group_wf s"
  shows "insertAdminGrant g p s = Inr t \<Longrightarrow> group_wf t" "deleteAdminGrant g p s = Inr t \<Longrightarrow> group_wf t"
    "trimAdminGrants g p s = Inr t \<Longrightarrow> group_wf t"
proof -
  let ?rows = "group_admin_permissions (as_auth s)"
  have rows: "fst ` set ?rows \<subseteq> group_ids s" "distinct ?rows" "\<forall>(g, p) \<in> set ?rows. storable_permission p"
    using assms by (simp_all add: group_wf_def grants_ok_def)
  then have kept: "group_wf (on_auth (\<lambda>st. st\<lparr>group_admin_permissions := filter P (group_admin_permissions st)\<rparr>) s)" for P
    using grants_wf(3)[OF assms, of "filter P ?rows"] by (auto simp: on_auth_def)
  show "deleteAdminGrant g p s = Inr t \<Longrightarrow> group_wf t" "trimAdminGrants g p s = Inr t \<Longrightarrow> group_wf t"
    using assms by (auto simp: deleteAdminGrant_def trimAdminGrants_def go_simps split: if_splits intro: kept)
  show "insertAdminGrant g p s = Inr t \<Longrightarrow> group_wf t"
    using assms rows grants_wf(3)[OF assms, of "?rows @ [(g, p)]"]
    by (auto simp: insertAdminGrant_def Let_def go_simps on_auth_def split: if_splits)
qed

lemma op_writes_wf:
  assumes "group_wf s" "op_writes op s = Inr t"
  shows "group_wf t"
proof (cases op)
  case (AddGroupToGroup p c)
  then have "acyclic (insert (c, p) (set (parent_edges (as_auth s))))"
    using assms by (auto simp: go_simps validate_ok_iff group_wf_def members_ok_def acyclic_insert rtrancl_eq_or_trancl)
  with AddGroupToGroup assms show ?thesis
    by (auto simp: insertGroupMember_def go_simps intro!: membership_wf simp: member_ok_def)
next
  case (AddUserToGroup g u)
  with assms show ?thesis
    by (auto simp: insertUserMember_def go_simps intro!: membership_wf simp: member_ok_def)
next
  case (DeleteGroup g guard)
  with assms delete_wf show ?thesis by blast
next
  case (GrantConnectionPrivilege g c l)
  with assms conn_writes_wf(1)[OF assms(1)] show ?thesis by (auto simp: valid_level_def split: if_splits)
qed (use assms in \<open>auto simp: go_simps deleteMembers_def split: if_splits
       intro: insertGroup_wf updateGroupRow_wf memberships_removed_wf mcp_writes_wf conn_writes_wf(2) admin_writes_wf\<close>)

end
