(* ===== verification/Group_Spec.thy ===== *)
theory Group_Spec
  imports Group_Invariants
begin

text \<open>
  What the group and grant operations promise, without tables: groups are a finite map from
  ids to names and descriptions, memberships and grants are sets, connection levels a map.
  \<open>spec_allows\<close> says when an operation may succeed and \<open>spec_op\<close> what it then does. The
  audited mutations refine this specification in both directions: a mutation that commits is
  allowed and has the specified effect, and an allowed one commits while nothing fails.
\<close>

section \<open>The specification\<close>

record group_model =
  md_groups :: "int \<rightharpoonup> string \<times> string"
  md_seq :: int
  md_users :: "(int \<times> int) set"
  md_nested :: "(int \<times> int) set"
  md_items :: "(int \<times> int) set"
  md_conns :: "int \<times> conn_id \<rightharpoonup> access_level"
  md_admin :: "(int \<times> permission) set"
  md_known :: "int set"
  md_registry :: "mcp_name \<rightharpoonup> int"

definition name_free :: "group_model \<Rightarrow> int option \<Rightarrow> string \<Rightarrow> bool" where
  "name_free m self n \<longleftrightarrow> (\<forall>g d. md_groups m g = Some (n, d) \<longrightarrow> self = Some g)"

text \<open>The group holds the only grant that restricts the connection.\<close>

definition sole_grant :: "group_model \<Rightarrow> int \<Rightarrow> conn_id \<Rightarrow> bool" where
  "sole_grant m g c \<longleftrightarrow> c \<noteq> ConnectionIDAll \<and> (\<exists>h. md_conns m (h, c) \<noteq> None) \<and>
     (\<forall>h. md_conns m (h, c) \<noteq> None \<longrightarrow> h = g)"

definition item_id :: "group_model \<Rightarrow> mcp_name \<Rightarrow> int option" where
  "item_id m n = (if n = ''*'' then Some MCPPrivilegeIDWildcard else md_registry m n)"

fun spec_allows :: "group_op \<Rightarrow> group_model \<Rightarrow> bool" where
  "spec_allows (CreateGroup n d) m = name_free m None n"
| "spec_allows (UpdateGroup g n d) m = (g \<in> dom (md_groups m) \<and> (n = '''' \<or> name_free m (Some g) n))"
| "spec_allows (DeleteGroup g guard) m =
     (g \<in> dom (md_groups m) \<and> (\<forall>c. md_conns m (g, c) \<noteq> None \<and> sole_grant m g c \<longrightarrow> lift_allows guard c))"
| "spec_allows (AddUserToGroup g u) m = (g \<in> dom (md_groups m) \<and> u \<in> md_known m \<and> (g, u) \<notin> md_users m)"
| "spec_allows (AddGroupToGroup p c) m = (p \<in> dom (md_groups m) \<and> c \<in> dom (md_groups m) \<and> (p, c) \<notin> md_nested m \<and>
     acyclic (insert (p, c) (md_nested m)))"
| "spec_allows (RemoveUserFromGroup g u) m = ((g, u) \<in> md_users m)"
| "spec_allows (RemoveGroupFromGroup p c) m = ((p, c) \<in> md_nested m)"
| "spec_allows (GrantMCPPrivilege g p) m = (g \<in> dom (md_groups m))"
| "spec_allows (GrantMCPPrivilegeByName g n) m = (g \<in> dom (md_groups m) \<and> item_id m n \<noteq> None)"
| "spec_allows (RevokeMCPPrivilege g p) m = ((g, p) \<in> md_items m)"
| "spec_allows (RevokeMCPPrivilegeByName g n) m = (\<exists>p. item_id m n = Some p \<and> (g, p) \<in> md_items m)"
| "spec_allows (GrantConnectionPrivilege g c l) m = (g \<in> dom (md_groups m) \<and> valid_level l)"
| "spec_allows (RevokeConnectionPrivilege g c guard) m =
     (md_conns m (g, c) \<noteq> None \<and> (sole_grant m g c \<longrightarrow> lift_allows guard c))"
| "spec_allows (GrantAdminPermission g p) m = (storable_permission p \<longrightarrow> g \<in> dom (md_groups m))"
| "spec_allows (RevokeAdminPermission g p) m = ((g, p) \<in> md_admin m)"

fun spec_op :: "group_op \<Rightarrow> group_model \<Rightarrow> group_model" where
  "spec_op (CreateGroup n d) m =
     m\<lparr>md_groups := (md_groups m)(md_seq m + 1 \<mapsto> (n, d)), md_seq := md_seq m + 1\<rparr>"
| "spec_op (UpdateGroup g n d) m =
     m\<lparr>md_groups := (md_groups m)(g \<mapsto> (if n = '''' then fst (the (md_groups m g)) else n, d))\<rparr>"
| "spec_op (DeleteGroup g guard) m =
     m\<lparr>md_groups := (md_groups m)(g := None),
       md_users := {(h, u) \<in> md_users m. h \<noteq> g}, md_nested := {(p, c) \<in> md_nested m. p \<noteq> g \<and> c \<noteq> g},
       md_items := {(h, i) \<in> md_items m. h \<noteq> g},
       md_conns := (\<lambda>(h, c). if h = g then None else md_conns m (h, c)),
       md_admin := {(h, p) \<in> md_admin m. h \<noteq> g}\<rparr>"
| "spec_op (AddUserToGroup g u) m = m\<lparr>md_users := insert (g, u) (md_users m)\<rparr>"
| "spec_op (AddGroupToGroup p c) m = m\<lparr>md_nested := insert (p, c) (md_nested m)\<rparr>"
| "spec_op (RemoveUserFromGroup g u) m = m\<lparr>md_users := md_users m - {(g, u)}\<rparr>"
| "spec_op (RemoveGroupFromGroup p c) m = m\<lparr>md_nested := md_nested m - {(p, c)}\<rparr>"
| "spec_op (GrantMCPPrivilege g p) m = m\<lparr>md_items := insert (g, p) (md_items m)\<rparr>"
| "spec_op (GrantMCPPrivilegeByName g n) m =
     m\<lparr>md_items := insert (g, the (item_id m n)) (if n = ''*'' then {(h, i) \<in> md_items m. h \<noteq> g} else md_items m)\<rparr>"
| "spec_op (RevokeMCPPrivilege g p) m = m\<lparr>md_items := md_items m - {(g, p)}\<rparr>"
| "spec_op (RevokeMCPPrivilegeByName g n) m = m\<lparr>md_items := md_items m - {(g, the (item_id m n))}\<rparr>"
| "spec_op (GrantConnectionPrivilege g c l) m = m\<lparr>md_conns := (md_conns m)((g, c) \<mapsto> l)\<rparr>"
| "spec_op (RevokeConnectionPrivilege g c guard) m = m\<lparr>md_conns := (md_conns m)((g, c) := None)\<rparr>"
| "spec_op (GrantAdminPermission g p) m =
     (if p = AdminPermissionWildcard then m\<lparr>md_admin := insert (g, p) {(h, q) \<in> md_admin m. h \<noteq> g}\<rparr>
      else if storable_permission p then m\<lparr>md_admin := insert (g, p) (md_admin m)\<rparr> else m)"
| "spec_op (RevokeAdminPermission g p) m = m\<lparr>md_admin := md_admin m - {(g, p)}\<rparr>"

section \<open>The tables as a model\<close>

definition described :: "group_row \<Rightarrow> int \<times> string \<times> string" where
  "described r = (ug_id r, ug_name r, case ug_description r of None \<Rightarrow> '''' | Some d \<Rightarrow> d)"

definition conn_entry :: "int \<times> conn_id \<times> access_level \<Rightarrow> (int \<times> conn_id) \<times> access_level" where
  "conn_entry = (\<lambda>(g, c, l). ((g, c), l))"

definition model_of :: "group_state \<Rightarrow> group_model" where
  "model_of s =
     \<lparr>md_groups = map_of (map described (user_groups s)), md_seq = user_groups_seq s,
      md_users = {(gm_parent_group_id m, u) | m u. m \<in> set (group_memberships (as_auth s)) \<and> gm_member_user_id m = Some u},
      md_nested = {(gm_parent_group_id m, c) | m c. m \<in> set (group_memberships (as_auth s)) \<and> gm_member_group_id m = Some c},
      md_items = set (group_mcp_privileges (as_auth s)),
      md_conns = map_of (map conn_entry (connection_privileges (as_auth s))),
      md_admin = set (group_admin_permissions (as_auth s)),
      md_known = usr_id ` set (users (as_auth s)), md_registry = privilege_id s\<rparr>"

lemma model_of_audit [simp]: "model_of (s\<lparr>as_audit := db\<rparr>) = model_of s"
  by (simp add: model_of_def privilege_id_def[abs_def])

lemma dom_groups [simp]: "dom (md_groups (model_of s)) = group_ids s"
  by (force simp: model_of_def dom_map_of_conv_image_fst described_def group_ids_def)

lemma groups_entry:
  assumes "groups_ok s"
  shows "md_groups (model_of s) g = Some (n, d) \<longleftrightarrow>
    (\<exists>r \<in> set (user_groups s). ug_id r = g \<and> ug_name r = n \<and> (case ug_description r of None \<Rightarrow> '''' | Some d \<Rightarrow> d) = d)"
proof -
  have "distinct (map fst (map described (user_groups s)))"
    using assms by (simp add: groups_ok_def described_def comp_def)
  then show ?thesis unfolding model_of_def by (auto simp: map_of_eq_Some_iff described_def)
qed

lemma conns_entry:
  assumes "grants_ok s"
  shows "md_conns (model_of s) (g, c) = Some l \<longleftrightarrow> (g, c, l) \<in> set (connection_privileges (as_auth s))"
proof -
  have "distinct (map fst (map conn_entry (connection_privileges (as_auth s))))"
    using assms by (simp add: grants_ok_def conn_entry_def case_prod_unfold comp_def)
  then show ?thesis unfolding model_of_def by (force simp: map_of_eq_Some_iff conn_entry_def)
qed

lemma conns_None: "grants_ok s \<Longrightarrow> md_conns (model_of s) (g, c) = None \<longleftrightarrow> (\<forall>l. (g, c, l) \<notin> set (connection_privileges (as_auth s)))"
  using conns_entry[of s g c] by (metis option.exhaust not_None_eq)

section \<open>The writes refine the specification\<close>

lemma nested_edges: "md_nested (model_of s) = (set (parent_edges (as_auth s)))\<inverse>"
  by (auto simp: model_of_def set_parent_edges)

lemma guard_lift_iff:
  assumes "grants_ok s" "\<not> db_fails (as_auth s) (RLiftCount g c)"
  shows "guardLiftTx (as_auth s) guard g c = Inr () \<longleftrightarrow> (sole_grant (model_of s) g c \<longrightarrow> lift_allows guard c)"
  using assms conns_None[OF assms(1)]
  by (auto simp: guardLiftTx_def liftsConnectionRestriction_def sole_grant_def go_simps Let_def run_read_def)

lemma guard_lift_sound:
  assumes "grants_ok s" "guardLiftTx (as_auth s) guard g c = Inr ()"
  shows "sole_grant (model_of s) g c \<longrightarrow> lift_allows guard c"
proof (cases "db_fails (as_auth s) (RLiftCount g c)")
  case True
  with assms(2) show ?thesis
    by (auto simp: guardLiftTx_def liftsConnectionRestriction_def sole_grant_def go_simps Let_def split: if_splits)
next
  case False
  with guard_lift_iff[OF assms(1)] assms(2) show ?thesis by blast
qed

lemma fold_res_unit:
  fixes f :: "'a \<Rightarrow> 'e + unit"
  shows "fold_res (\<lambda>x _. f x) xs () = Inr () \<longleftrightarrow> (\<forall>x \<in> set xs. f x = Inr ())"
  by (induction xs) (auto simp: go_simps)

lemma set_grant_conns: "set (map fst (group_conn_rows st g)) = {c. \<exists>l. (g, c, l) \<in> set (connection_privileges st)}"
  by (force simp: group_conn_rows_def)

lemma guard_group_sound:
  assumes "grants_ok s" "guardGroupLiftsTx s guard g = Inr ()"
  shows "\<forall>c. md_conns (model_of s) (g, c) \<noteq> None \<and> sole_grant (model_of s) g c \<longrightarrow> lift_allows guard c"
proof (intro allI impI, elim conjE)
  fix c assume held: "md_conns (model_of s) (g, c) \<noteq> None" "sole_grant (model_of s) g c"
  then have "c \<in> set (map fst (group_conn_rows (as_auth s) g))"
    unfolding set_grant_conns using conns_None[OF assms(1)] by auto
  with assms(2) have "(\<forall>gd. guard = Some gd \<longrightarrow> \<not> lg_all gd) \<Longrightarrow> guard \<noteq> None \<Longrightarrow> guardLiftTx (as_auth s) guard g c = Inr ()"
    by (auto simp: guardGroupLiftsTx_def go_simps fold_res_unit split: option.splits if_splits)
  with guard_lift_sound[OF assms(1), of guard g c] held(2) show "lift_allows guard c"
    by (cases guard) (auto simp: lift_allows_def)
qed

lemma guard_group_complete:
  assumes "grants_ok s" "healthy (as_auth s)" "\<forall>q. \<not> gs_fails s q"
    and "\<forall>c. md_conns (model_of s) (g, c) \<noteq> None \<and> sole_grant (model_of s) g c \<longrightarrow> lift_allows guard c"
  shows "guardGroupLiftsTx s guard g = Inr ()"
proof -
  have "guardLiftTx (as_auth s) guard g c = Inr ()" if "c \<in> set (map fst (group_conn_rows (as_auth s) g))" for c
    using that[unfolded set_grant_conns] assms(2,4) guard_lift_iff[OF assms(1), of g c guard] conns_None[OF assms(1), of g c]
    by (auto simp: healthy_def)
  then show ?thesis using assms(3) by (auto simp: guardGroupLiftsTx_def run_stmt_def fold_res_unit split: option.splits)
qed

lemma map_of_filter_keys: "map_of (filter (\<lambda>(k, v). P k) xs) = (\<lambda>k. if P k then map_of xs k else None)"
  by (induction xs) (auto simp: fun_eq_iff)

lemma conn_entries_filter:
  "map_of (map conn_entry (filter (\<lambda>(g, c, l). P (g, c)) rows)) = (\<lambda>k. if P k then map_of (map conn_entry rows) k else None)"
proof -
  have "map conn_entry (filter (\<lambda>(g, c, l). P (g, c)) rows) = filter (\<lambda>(k, v). P k) (map conn_entry rows)"
    by (induction rows) (auto simp: conn_entry_def)
  then show ?thesis by (simp only: map_of_filter_keys)
qed

lemma groups_appended:
  assumes "groups_ok s"
  shows "map_of (map described (user_groups s @ [\<lparr>ug_id = user_groups_seq s + 1, ug_name = n, ug_description = Some d\<rparr>])) =
    (map_of (map described (user_groups s)))(user_groups_seq s + 1 \<mapsto> (n, d))"
proof -
  have "user_groups_seq s + 1 \<notin> fst ` set (map described (user_groups s))"
    using assms by (auto simp: groups_ok_def described_def)
  then have "map_of (map described (user_groups s)) (user_groups_seq s + 1) = None"
    by (simp add: map_of_eq_None_iff)
  then show ?thesis by (auto simp: fun_eq_iff map_add_def described_def split: option.splits)
qed

lemma groups_updated:
  assumes "groups_ok s" "r \<in> set (user_groups s)" "ug_id r = g"
  shows "map_of (map described (map (updateRow g n d) (user_groups s))) =
    (map_of (map described (user_groups s)))(g \<mapsto> (if n = '''' then ug_name r else n, d))"
proof
  fix h
  have dist: "distinct (map fst (map described (map f (user_groups s))))" if "\<And>x. ug_id (f x) = ug_id x" for f
    using assms(1) that by (simp add: groups_ok_def described_def comp_def)
  show "map_of (map described (map (updateRow g n d) (user_groups s))) h =
      ((map_of (map described (user_groups s)))(g \<mapsto> (if n = '''' then ug_name r else n, d))) h"
  proof (cases "h = g")
    case True
    have "(g, if n = '''' then ug_name r else n, d) \<in> set (map described (map (updateRow g n d) (user_groups s)))"
      using assms(2,3) by (force simp: described_def updateRow_def)
    then show ?thesis using True dist[of "updateRow g n d"] by simp
  next
    case False
    then have "map_of (map described (map (updateRow g n d) rows)) h = map_of (map described rows) h" for rows
      by (induction rows) (auto simp: described_def updateRow_def)
    then show ?thesis using False by simp
  qed
qed

lemma groups_removed:
  "map_of (map described (filter (\<lambda>r. ug_id r \<noteq> g) rows)) = (map_of (map described rows))(g := None)"
  by (induction rows) (auto simp: described_def fun_eq_iff)

lemma privilege_id_frame: "mcp_privilege_identifiers (as_auth t) = mcp_privilege_identifiers (as_auth s) \<Longrightarrow>
    privilege_id t = privilege_id s"
  by (simp add: privilege_id_def fun_eq_iff)

abbreviation user_member :: "int \<Rightarrow> int \<Rightarrow> membership_row" where
  "user_member g u \<equiv> \<lparr>gm_parent_group_id = g, gm_member_user_id = Some u, gm_member_group_id = None\<rparr>"

abbreviation group_member :: "int \<Rightarrow> int \<Rightarrow> membership_row" where
  "group_member p c \<equiv> \<lparr>gm_parent_group_id = p, gm_member_user_id = None, gm_member_group_id = Some c\<rparr>"

text \<open>With well-formed rows a membership of the model is a row of the table.\<close>

lemma member_rows:
  assumes "members_ok s" "m \<in> set (group_memberships (as_auth s))"
  shows "gm_member_user_id m = Some u \<Longrightarrow> m = user_member (gm_parent_group_id m) u"
    and "gm_member_group_id m = Some c \<Longrightarrow> m = group_member (gm_parent_group_id m) c"
  using assms by (cases m; auto simp: members_ok_def member_ok_def)+

lemma users_iff: "members_ok s \<Longrightarrow> md_users (model_of s) = {(g, u). user_member g u \<in> set (group_memberships (as_auth s))}"
  unfolding model_of_def by (auto, metis member_rows(1), force)

lemma members_raw:
  "(g, u) \<in> md_users (model_of s) \<longleftrightarrow>
     (\<exists>m \<in> set (group_memberships (as_auth s)). gm_parent_group_id m = g \<and> gm_member_user_id m = Some u)"
  "(p, c) \<in> md_nested (model_of s) \<longleftrightarrow>
     (\<exists>m \<in> set (group_memberships (as_auth s)). gm_parent_group_id m = p \<and> gm_member_group_id m = Some c)"
  by (auto simp: model_of_def)

lemma nested_iff: "members_ok s \<Longrightarrow> md_nested (model_of s) = {(p, c). group_member p c \<in> set (group_memberships (as_auth s))}"
  unfolding model_of_def by (auto, metis member_rows(2), force)

lemma model_simps [simp]:
  "md_items (model_of s) = set (group_mcp_privileges (as_auth s))"
  "md_admin (model_of s) = set (group_admin_permissions (as_auth s))"
  "md_known (model_of s) = usr_id ` set (users (as_auth s))" "md_registry (model_of s) = privilege_id s"
  "md_seq (model_of s) = user_groups_seq s"
  by (simp_all add: model_of_def)

lemma model_groups: "md_groups (model_of s) = map_of (map described (user_groups s))"
  and model_conns: "md_conns (model_of s) = map_of (map conn_entry (connection_privileges (as_auth s)))"
  by (simp_all add: model_of_def)

lemma name_free_iff:
  assumes "groups_ok s"
  shows "name_free (model_of s) self n \<longleftrightarrow> (\<forall>r \<in> set (user_groups s). ug_name r = n \<longrightarrow> self = Some (ug_id r))"
  unfolding name_free_def groups_entry[OF assms] by blast

text \<open>One lemma per group of operations: what is written is what the model says.\<close>

lemma group_rows_refine:
  assumes "group_wf s"
  shows "op_writes (CreateGroup n d) s = Inr t \<Longrightarrow>
      spec_allows (CreateGroup n d) (model_of s) \<and> model_of t = spec_op (CreateGroup n d) (model_of s)"
    and "op_writes (UpdateGroup g n d) s = Inr t \<Longrightarrow>
      spec_allows (UpdateGroup g n d) (model_of s) \<and> model_of t = spec_op (UpdateGroup g n d) (model_of s)"
proof -
  have ok: "groups_ok s" using assms by (simp add: group_wf_def)
  show "spec_allows (CreateGroup n d) (model_of s) \<and> model_of t = spec_op (CreateGroup n d) (model_of s)"
    if "op_writes (CreateGroup n d) s = Inr t"
    using that groups_appended[OF ok, of n d] next_group_id_fresh[OF ok]
    by (auto simp: insertGroup_def Let_def go_simps name_free_iff[OF ok]) (simp add: model_of_def privilege_id_def[abs_def])
  show "spec_allows (UpdateGroup g n d) (model_of s) \<and> model_of t = spec_op (UpdateGroup g n d) (model_of s)"
    if upd: "op_writes (UpdateGroup g n d) s = Inr t"
  proof -
    from upd obtain r where r: "r \<in> set (user_groups s)" "ug_id r = g"
      and t: "t = s\<lparr>user_groups := map (updateRow g n d) (user_groups s)\<rparr>"
      and free: "n = '''' \<or> (\<forall>r \<in> set (user_groups s). ug_name r = n \<longrightarrow> ug_id r = g)"
      by (auto simp: updateGroupRow_def go_simps group_ids_def split: if_splits)
    obtain e where "md_groups (model_of s) g = Some (ug_name r, e)" using groups_entry[OF ok] r by blast
    then have "model_of t = spec_op (UpdateGroup g n d) (model_of s)"
      using groups_updated[OF ok r, of n d] by (simp add: t model_of_def privilege_id_def[abs_def])
    with r free show ?thesis by (auto simp: name_free_iff[OF ok] group_ids_def)
  qed
qed

lemma memberships_model:
  assumes "members_ok t" "user_groups t = user_groups s" "user_groups_seq t = user_groups_seq s"
    and "as_auth t = (as_auth s)\<lparr>group_memberships := x\<rparr>"
  shows "model_of t = (model_of s)\<lparr>md_users := {(g, u). user_member g u \<in> set x},
    md_nested := {(p, c). group_member p c \<in> set x}\<rparr>"
proof -
  have "privilege_id t = privilege_id s" by (rule privilege_id_frame) (simp add: assms(4))
  then show ?thesis using users_iff[OF assms(1)] nested_iff[OF assms(1)]
    by (intro group_model.equality) (simp_all add: assms(2-) model_groups model_conns)
qed

lemma membership_refine:
  assumes "group_wf s" "op_writes op s = Inr t"
    and "op = AddUserToGroup g u \<or> op = AddGroupToGroup g u \<or> op = RemoveUserFromGroup g u \<or> op = RemoveGroupFromGroup g u"
  shows "spec_allows op (model_of s) \<and> model_of t = spec_op op (model_of s)"
proof -
  have s: "members_ok s" and t: "members_ok t" using assms(1) op_writes_wf[OF assms(1,2)] by (simp_all add: group_wf_def)
  have ac: "(g, u) \<in> (set (parent_edges (as_auth s)))\<^sup>+ \<or> g = u \<or> acyclic (insert (u, g) (set (parent_edges (as_auth s))))"
    using s by (auto simp: members_ok_def acyclic_insert rtrancl_eq_or_trancl)
  have conv: "acyclic (insert (g, u) (md_nested (model_of s))) \<longleftrightarrow> acyclic (insert (u, g) (set (parent_edges (as_auth s))))"
  proof -
    have "insert (g, u) (md_nested (model_of s)) = (insert (u, g) (set (parent_edges (as_auth s))))\<inverse>"
      by (auto simp: nested_edges)
    then show ?thesis by (simp only: acyclic_converse)
  qed
  have "spec_allows op (model_of s)"
    using assms(2,3) ac
    by (elim disjE) (auto simp: conv insertUserMember_def insertGroupMember_def deleteMembers_def go_simps validate_ok_iff
        members_raw simp del: acyclic_insert split: if_splits)
  moreover from assms(2,3) obtain x where "user_groups t = user_groups s" "user_groups_seq t = user_groups_seq s"
    and x: "as_auth t = (as_auth s)\<lparr>group_memberships := x\<rparr>"
    by (elim disjE) (auto simp: insertUserMember_def insertGroupMember_def deleteMembers_def go_simps split: if_splits)
  from memberships_model[OF t this] have "model_of t = spec_op op (model_of s)"
    using assms(2,3) arg_cong[OF x, of group_memberships]
    by (elim disjE) (auto simp: users_iff[OF s] nested_iff[OF s] insertUserMember_def insertGroupMember_def deleteMembers_def
        go_simps split: if_splits intro!: group_model.equality)
  ultimately show ?thesis ..
qed

lemma delete_refine:
  assumes "group_wf s" "op_writes (DeleteGroup g guard) s = Inr t"
  shows "spec_allows (DeleteGroup g guard) (model_of s) \<and> model_of t = spec_op (DeleteGroup g guard) (model_of s)"
proof -
  have ok: "grants_ok s" "members_ok s" "members_ok t"
    using assms(1) delete_wf[OF assms] by (simp_all add: group_wf_def)
  note w = delete_writes[OF assms(2)]
  then have tab: "as_auth t = drop_group g (as_auth s)" "user_groups t = filter (\<lambda>r. ug_id r \<noteq> g) (user_groups s)"
    "user_groups_seq t = user_groups_seq s" by simp_all
  have "md_conns (model_of t) = (\<lambda>(h, c). if h = g then None else md_conns (model_of s) (h, c))"
    using conn_entries_filter[of "\<lambda>(h, c). h \<noteq> g" "connection_privileges (as_auth s)"]
    by (auto simp: tab model_conns drop_group_def fun_eq_iff)
  moreover have "privilege_id t = privilege_id s" by (rule privilege_id_frame) (simp add: tab drop_group_def)
  ultimately have "model_of t = spec_op (DeleteGroup g guard) (model_of s)"
    by (intro group_model.equality)
       (auto simp: users_iff[OF ok(2)] users_iff[OF ok(3)] nested_iff[OF ok(2)] nested_iff[OF ok(3)] model_groups groups_removed
         tab drop_group_def)
  moreover have "spec_allows (DeleteGroup g guard) (model_of s)" using w guard_group_sound[OF ok(1), of guard g] by simp
  ultimately show ?thesis by blast
qed

lemma item_writes:
  "insertMCPGrant g p s = Inr t \<Longrightarrow> fst ` set (group_mcp_privileges (as_auth s)) \<subseteq> group_ids s \<Longrightarrow>
     g \<in> group_ids s \<and> set (group_mcp_privileges (as_auth t)) = insert (g, p) (set (group_mcp_privileges (as_auth s))) \<and>
     t = on_auth (\<lambda>st. st\<lparr>group_mcp_privileges := group_mcp_privileges (as_auth t)\<rparr>) s"
  "deleteMCPGrant g q s = Inr t \<Longrightarrow> \<exists>p. q = Some p \<and> (g, p) \<in> set (group_mcp_privileges (as_auth s)) \<and>
     set (group_mcp_privileges (as_auth t)) = set (group_mcp_privileges (as_auth s)) - {(g, p)} \<and>
     t = on_auth (\<lambda>st. st\<lparr>group_mcp_privileges := group_mcp_privileges (as_auth t)\<rparr>) s"
  "trimMCPGrants g n s = Inr t \<Longrightarrow> set (group_mcp_privileges (as_auth t)) =
     {(h, p) \<in> set (group_mcp_privileges (as_auth s)). n = ''*'' \<and> h = g \<longrightarrow> p = MCPPrivilegeIDWildcard} \<and>
     t = on_auth (\<lambda>st. st\<lparr>group_mcp_privileges := group_mcp_privileges (as_auth t)\<rparr>) s"
  by (auto simp: insertMCPGrant_def deleteMCPGrant_def trimMCPGrants_def go_simps Let_def on_auth_def split: if_splits)

lemma items_model:
  "t = on_auth (\<lambda>st. st\<lparr>group_mcp_privileges := x\<rparr>) s \<Longrightarrow> model_of t = (model_of s)\<lparr>md_items := set x\<rparr>"
  by (simp add: model_of_def privilege_id_def[abs_def])

lemma item_refine:
  assumes "group_wf s" "op_writes op s = Inr t"
    and "op = GrantMCPPrivilege g p \<or> op = GrantMCPPrivilegeByName g n \<or> op = RevokeMCPPrivilege g p \<or>
      op = RevokeMCPPrivilegeByName g n"
  shows "spec_allows op (model_of s) \<and> model_of t = spec_op op (model_of s)"
proof -
  have rows: "fst ` set (group_mcp_privileges (as_auth s)) \<subseteq> group_ids s"
    using assms(1) by (simp add: group_wf_def grants_ok_def)
  from assms(3) show ?thesis
  proof (elim disjE)
    assume "op = GrantMCPPrivilege g p"
    then show ?thesis using assms(2) item_writes(1)[OF _ rows, of g p t] items_model by fastforce
  next
    assume op: "op = GrantMCPPrivilegeByName g n"
    with assms(2) obtain pid u where pid: "resolvePrivilege s n = Inr pid" and u: "insertMCPGrant g pid s = Inr u"
      "trimMCPGrants g n u = Inr t" by (auto simp: go_simps)
    from pid have item: "item_id (model_of s) n = Some pid" and star: "n = ''*'' \<Longrightarrow> pid = MCPPrivilegeIDWildcard"
      by (auto simp: resolvePrivilege_def item_id_def go_simps split: if_splits option.splits)
    note ins = item_writes(1)[OF u(1) rows] and trim = item_writes(3)[OF u(2)]
    have "on_auth (\<lambda>st. st\<lparr>group_mcp_privileges := x\<rparr>) (on_auth (\<lambda>st. st\<lparr>group_mcp_privileges := y\<rparr>) s) =
        on_auth (\<lambda>st. st\<lparr>group_mcp_privileges := x\<rparr>) s" for x y by (simp add: on_auth_def)
    with ins trim have "t = on_auth (\<lambda>st. st\<lparr>group_mcp_privileges := group_mcp_privileges (as_auth t)\<rparr>) s" by metis
    from items_model[OF this] ins trim item star op show ?thesis
      by (auto intro!: group_model.equality)
  next
    assume "op = RevokeMCPPrivilege g p"
    then show ?thesis using assms(2) item_writes(2)[of g "Some p" s t] items_model by fastforce
  next
    assume op: "op = RevokeMCPPrivilegeByName g n"
    with assms(2) have "deleteMCPGrant g (item_id (model_of s) n) s = Inr t"
      by (simp add: item_id_def split: if_splits)
    from item_writes(2)[OF this] show ?thesis using items_model op by fastforce
  qed
qed

lemma conn_refine:
  assumes "group_wf s" "op_writes op s = Inr t"
    and "op = GrantConnectionPrivilege g c l \<or> op = RevokeConnectionPrivilege g c guard"
  shows "spec_allows op (model_of s) \<and> model_of t = spec_op op (model_of s)"
proof -
  let ?rows = "connection_privileges (as_auth s)"
  let ?left = "filter (\<lambda>(h, d, l). \<not> (h = g \<and> d = c)) ?rows"
  have ok: "grants_ok s" using assms(1) by (simp add: group_wf_def)
  have "?left = filter (\<lambda>(h, d, l). (h, d) \<noteq> (g, c)) ?rows" by (intro filter_cong) auto
  then have left: "map_of (map conn_entry ?left) = (md_conns (model_of s))((g, c) := None)"
    using conn_entries_filter[of "\<lambda>k. k \<noteq> (g, c)" ?rows] by (auto simp: model_conns fun_eq_iff)
  have add: "map_of (map conn_entry (?left @ [(g, c, l)])) = (md_conns (model_of s))((g, c) \<mapsto> l)"
    using left by (auto simp: map_add_def conn_entry_def fun_eq_iff split: option.splits)
  have conns: "model_of (on_auth (\<lambda>st. st\<lparr>connection_privileges := y\<rparr>) s) = (model_of s)\<lparr>md_conns := map_of (map conn_entry y)\<rparr>"
    for y by (simp add: model_of_def privilege_id_def[abs_def])
  from assms(3) show ?thesis
  proof
    assume op: "op = GrantConnectionPrivilege g c l"
    with assms(2) have "t = on_auth (\<lambda>st. st\<lparr>connection_privileges := ?left @ [(g, c, l)]\<rparr>) s" "g \<in> group_ids s" "valid_level l"
      by (auto simp: replaceConnGrant_def go_simps valid_level_def on_auth_def split: if_splits)
    then show ?thesis unfolding op by (simp only: conns add) simp
  next
    assume op: "op = RevokeConnectionPrivilege g c guard"
    with assms(2) have "t = on_auth (\<lambda>st. st\<lparr>connection_privileges := ?left\<rparr>) s"
      and held: "\<exists>l. (g, c, l) \<in> set ?rows" and lift: "guardLiftTx (as_auth s) guard g c = Inr ()"
      by (auto simp: deleteConnGrant_def go_simps on_auth_def split: if_splits)
    moreover have "md_conns (model_of s) (g, c) \<noteq> None" using held conns_None[OF ok] by blast
    ultimately show ?thesis using guard_lift_sound[OF ok lift] unfolding op by (simp only: conns left) simp
  qed
qed

lemma admin_refine:
  assumes "group_wf s" "op_writes op s = Inr t" and "op = GrantAdminPermission g p \<or> op = RevokeAdminPermission g p"
  shows "spec_allows op (model_of s) \<and> model_of t = spec_op op (model_of s)"
proof -
  have rows: "fst ` set (group_admin_permissions (as_auth s)) \<subseteq> group_ids s"
    using assms(1) by (simp add: group_wf_def grants_ok_def)
  have star: "storable_permission AdminPermissionWildcard" by (simp add: storable_permission_def AdminPermissionWildcard_def)
  let ?z = "group_admin_permissions (as_auth t)"
  have t: "t = on_auth (\<lambda>st. st\<lparr>group_admin_permissions := ?z\<rparr>) s"
    using assms(2,3)
    by (elim disjE)
       (auto simp: insertAdminGrant_def deleteAdminGrant_def trimAdminGrants_def go_simps Let_def on_auth_def split: if_splits)
  have "model_of t = (model_of s)\<lparr>md_admin := set ?z\<rparr>"
    by (subst t) (simp add: model_of_def privilege_id_def[abs_def])
  moreover have "spec_allows op (model_of s) \<and> spec_op op (model_of s) = (model_of s)\<lparr>md_admin := set ?z\<rparr>"
    using assms(2,3) rows star
    by (elim disjE)
       (auto simp: insertAdminGrant_def deleteAdminGrant_def trimAdminGrants_def go_simps Let_def
          intro!: group_model.equality split: if_splits)
  ultimately show ?thesis by simp
qed

lemma op_writes_refine:
  assumes "group_wf s" "op_writes op s = Inr t"
  shows "spec_allows op (model_of s) \<and> model_of t = spec_op op (model_of s)"
proof (cases op)
  case (CreateGroup n d) with assms group_rows_refine(1) show ?thesis by blast
next
  case (UpdateGroup g n d) with assms group_rows_refine(2) show ?thesis by blast
next
  case (DeleteGroup g guard) with assms delete_refine show ?thesis by blast
qed (use membership_refine[OF assms] item_refine[OF assms] conn_refine[OF assms] admin_refine[OF assms] in blast)+

section \<open>Allowed operations succeed\<close>

text \<open>Nothing fails: no statement, and the log is one the server wrote, under a key without collisions.\<close>

definition all_works :: "group_env \<Rightarrow> group_state \<Rightarrow> bool" where
  "all_works env s \<longleftrightarrow> (\<forall>q. \<not> gs_fails s q) \<and> healthy (as_auth s) \<and> audit_run (ge_audit env) (as_audit s) \<and>
     (\<forall>q. \<not> ad_fails (as_audit s) q) \<and> no_collision (ge_audit env) (ad_events (as_audit s)) \<and>
     auditKey (ge_audit env) \<noteq> []"

lemma writes_enabled:
  assumes "group_wf s" "\<forall>q. \<not> gs_fails s q" "healthy (as_auth s)" "spec_allows op (model_of s)"
  shows "\<exists>t. op_writes op s = Inr t"
proof -
  have ok: "groups_ok s" "members_ok s" "grants_ok s" using assms(1) by (simp_all add: group_wf_def)
  note run = run_stmt_def run_checked_def
  show ?thesis
  proof (cases op)
    case (CreateGroup n d)
    with assms(2,4) show ?thesis by (auto simp: insertGroup_def run Let_def name_free_iff[OF ok(1)])
  next
    case (UpdateGroup g n d)
    with assms(2,4) show ?thesis
      by (auto simp: updateGroupRow_def run name_free_iff[OF ok(1)] group_ids_def filter_empty_conv)
  next
    case (DeleteGroup g guard)
    with assms(4) guard_group_complete[OF ok(3) assms(3,2)] have "guardGroupLiftsTx s guard g = Inr ()" "g \<in> group_ids s" by simp_all
    with assms(2) DeleteGroup show ?thesis
      by (auto simp: deleteGroupDependentsTx_def deleteGroupRowTx_def run group_ids_def filter_empty_conv)
  next
    case (AddUserToGroup g u)
    with assms(2,4) show ?thesis by (auto simp: insertUserMember_def run members_raw)
  next
    case (AddGroupToGroup p c)
    then have "validateNoCircularReference (as_auth s) p c = Inr ()" "p \<noteq> c"
      using assms(3,4) by (auto simp: validate_ok_iff healthy_def nested_edges acyclic_insert rtrancl_converse
          dest: trancl_into_rtrancl)
    with AddGroupToGroup assms(2,4) show ?thesis by (auto simp: insertGroupMember_def run members_raw)
  next
    case (RevokeConnectionPrivilege g c guard)
    with assms(3,4) guard_lift_iff[OF ok(3), of g c guard] have "guardLiftTx (as_auth s) guard g c = Inr ()"
      by (simp add: healthy_def)
    with RevokeConnectionPrivilege assms(2,4) conns_None[OF ok(3), of g c] show ?thesis
      by (auto simp: deleteConnGrant_def run filter_empty_conv)
  qed (use assms(2,4) in \<open>auto simp: members_raw deleteMembers_def insertMCPGrant_def deleteMCPGrant_def trimMCPGrants_def
        resolvePrivilege_def item_id_def replaceConnGrant_def insertAdminGrant_def trimAdminGrants_def deleteAdminGrant_def
        valid_level_def run Let_def filter_empty_conv split: option.splits if_splits\<close>)
qed

lemma writes_fails: "op_writes op s = Inr t \<Longrightarrow> gs_fails t = gs_fails s"
  by (cases op) (auto simp: write_defs go_simps Let_def split: if_splits)

lemma event_recorded:
  assumes "all_works env s" "as_audit t = as_audit s"
  shows "\<exists>db. recordGroupEvent env a act gid name details t = Inr (t\<lparr>as_audit := db\<rparr>)"
proof -
  let ?ev = "newEvent a act ''group'' (Some gid) name (ge_marshal env details)"
  obtain row db where "recordAudit (ge_audit env) (ge_now env) (as_audit s) ?ev = Inr (row, db)"
    using append_ok[of "ge_audit env" "as_audit s" "ge_now env" ?ev] assms(1) by (auto simp: all_works_def)
  then show ?thesis by (auto simp: recordGroupEvent_def assms(2))
qed

lemma snapshot_found:
  assumes "\<not> gs_fails s (RSnapshot g)" "g \<in> group_ids s"
  shows "\<exists>snap. groupSnapshotTx s g = Inr (Some snap)"
proof -
  obtain r where "r \<in> set (user_groups s)" "ug_id r = g" using assms(2) by (auto simp: group_ids_def)
  then have "filter (\<lambda>r. ug_id r = g) (user_groups s) \<noteq> []" by (auto simp: filter_empty_conv)
  then obtain x where "first_row (filter (\<lambda>r. ug_id r = g) (user_groups s)) = Some x"
    by (cases "first_row (filter (\<lambda>r. ug_id r = g) (user_groups s))") (auto simp: first_row_None)
  with assms(1) show ?thesis by (simp add: groupSnapshotTx_def run_stmt_def)
qed

lemma membership_complete:
  assumes "all_works env s" "f s = Inr t" "as_audit t = as_audit s" "gs_fails t = gs_fails s"
    and "ty = memberTypeUser \<or> ty = memberTypeGroup"
  shows "\<exists>s'. membershipChange env a act ty g m f s = Inr s'"
proof -
  have "\<exists>name. groupMemberNameTx t ty m = Inr name"
    using assms(1,4,5) by (auto simp: groupMemberNameTx_def all_works_def run_stmt_def)
  then obtain name where name: "groupMemberNameTx t ty m = Inr name" ..
  obtain snap where snap: "groupSnapshotTx s g = Inr snap"
    using assms(1) by (auto simp: groupSnapshotTx_def all_works_def run_stmt_def)
  obtain db where "recordGroupEvent env a act g (case snap of None \<Rightarrow> '''' | Some found \<Rightarrow> gsn_name found)
      (MemberDetails ty m name) t = Inr (t\<lparr>as_audit := db\<rparr>)"
    using event_recorded[OF assms(1,3)] by blast
  then show ?thesis using assms(1,2,4) name snap
    by (simp add: membershipChange_def all_works_def run_stmt_def)
qed

lemma delete_complete:
  assumes "all_works env s" "op_writes (DeleteGroup g guard) s = Inr t"
  shows "\<exists>s'. deleteGroup env a g guard s = Inr s'"
proof -
  note same = writes_audit[OF assms(2)] writes_fails[OF assms(2)]
  have ok: "\<not> gs_fails s q" "\<not> gs_fails t q" for q using assms(1) same(2) by (simp_all add: all_works_def)
  obtain snap where sn: "groupSnapshotTx s g = Inr (Some snap)"
    using snapshot_found[OF ok(1)] delete_writes[OF assms(2)] by blast
  obtain details where dt: "groupDeleteDetailsTx s snap = Inr details"
    using ok by (simp add: groupDeleteDetailsTx_def groupMembersTx_def groupMCPPrivilegesTx_def groupConnectionPrivilegesTx_def
        groupAdminPermissionsTx_def run_stmt_def)
  from assms(2) obtain u where "guardGroupLiftsTx s guard g = Inr ()" "deleteGroupDependentsTx g s = Inr u"
    "deleteGroupRowTx g u = Inr t" by (auto simp: go_simps)
  then show ?thesis
    using sn dt ok event_recorded[OF assms(1) same(1), of a "''group.delete''" g "gsn_name snap" details]
    by (auto simp: deleteGroup_def groupDeleteBeforeTx_def run_stmt_def)
qed

lemma rows_complete:
  assumes "all_works env s"
  shows "op_writes (CreateGroup n d) s = Inr t \<Longrightarrow> \<exists>s'. run_op env a (CreateGroup n d) s = Inr s'"
    and "op_writes (UpdateGroup g n d) s = Inr t \<Longrightarrow> \<exists>s'. run_op env a (UpdateGroup g n d) s = Inr s'"
proof -
  have ok: "\<not> gs_fails s q" for q using assms by (simp add: all_works_def)
  have rec: "\<exists>log. \<forall>act gid name details. recordGroupEvent env a act gid name details t = Inr (t\<lparr>as_audit := log act gid name details\<rparr>)"
    if "as_audit t = as_audit s" using event_recorded[OF assms that] by metis
  show "\<exists>s'. run_op env a (CreateGroup n d) s = Inr s'" if made: "op_writes (CreateGroup n d) s = Inr t"
  proof -
    from made obtain gid where t: "insertGroup n d s = Inr (gid, t)" by (auto simp: go_simps)
    then have "gid \<in> group_ids t" by (auto simp: insertGroup_def Let_def go_simps group_ids_def)
    then obtain snap where "groupSnapshotTx t gid = Inr (Some snap)"
      using snapshot_found ok writes_fails[OF made] by metis
    with t ok writes_fails[OF made] rec[OF writes_audit[OF made]] show ?thesis
      by (auto simp: createGroup_def run_stmt_def)
  qed
  show "\<exists>s'. run_op env a (UpdateGroup g n d) s = Inr s'" if upd: "op_writes (UpdateGroup g n d) s = Inr t"
  proof -
    have "g \<in> group_ids s" using upd by (auto simp: updateGroupRow_def go_simps group_ids_def split: if_splits)
    then obtain snap where "groupSnapshotTx s g = Inr (Some snap)" using snapshot_found ok by blast
    with upd ok writes_fails[OF upd] rec[OF writes_audit[OF upd]] show ?thesis
      by (auto simp: updateGroup_def run_stmt_def Let_def)
  qed
qed

lemma run_op_complete:
  assumes "all_works env s" "op_writes op s = Inr t"
  shows "\<exists>s'. run_op env a op s = Inr s'"
proof -
  note same = writes_audit[OF assms(2)] writes_fails[OF assms(2)]
  have ok: "\<not> gs_fails s q" "\<not> gs_fails t q" for q using assms(1) same(2) by (simp_all add: all_works_def)
  obtain log where rec: "\<And>act gid name details.
      recordGroupEvent env a act gid name details t = Inr (t\<lparr>as_audit := log act gid name details\<rparr>)"
    using event_recorded[OF assms(1) same(1)] by metis
  have member: "\<exists>s'. membershipChange env a act ty g m (op_writes op) s = Inr s'"
    if "ty = memberTypeUser \<or> ty = memberTypeGroup" for act ty g m
    by (rule membership_complete[where f = "op_writes op", OF assms same that])
  show ?thesis
  proof (cases op)
    case (CreateGroup n d)
    with rows_complete(1) assms show ?thesis by simp
  next
    case (UpdateGroup g n d)
    with rows_complete(2) assms show ?thesis by simp
  next
    case (DeleteGroup g guard)
    with delete_complete assms show ?thesis by simp
  next
    case (AddUserToGroup g u)
    with member[of memberTypeUser] show ?thesis by (simp add: addUserToGroup_def op_writes.simps[abs_def])
  next
    case (AddGroupToGroup p c)
    with member[of memberTypeGroup] show ?thesis by (simp add: addGroupToGroup_def op_writes.simps[abs_def])
  next
    case (RemoveUserFromGroup g u)
    with member[of memberTypeUser] show ?thesis by (simp add: removeUserFromGroup_def op_writes.simps[abs_def])
  next
    case (RemoveGroupFromGroup p c)
    with member[of memberTypeGroup] show ?thesis by (simp add: removeGroupFromGroup_def op_writes.simps[abs_def])
  next
    case (GrantMCPPrivilegeByName g n)
    then obtain pid u where "resolvePrivilege s n = Inr pid" "insertMCPGrant g pid s = Inr u" "trimMCPGrants g n u = Inr t"
      using assms(2) by (auto simp: go_simps)
    with GrantMCPPrivilegeByName ok show ?thesis by (simp add: grantMCPPrivilegeByName_def run_stmt_def Let_def rec)
  next
    case (GrantAdminPermission g p)
    then obtain u where "insertAdminGrant g p s = Inr u" "trimAdminGrants g p u = Inr t"
      using assms(2) by (auto simp: go_simps)
    with GrantAdminPermission ok show ?thesis
      by (simp add: grantAdminPermission_def individualAdminPermissions_def run_stmt_def Let_def rec)
  next
    case (RevokeConnectionPrivilege g c guard)
    then have "guardLiftTx (as_auth s) guard g c = Inr ()" "deleteConnGrant g c s = Inr t"
      using assms(2) by (auto simp: go_simps)
    with RevokeConnectionPrivilege ok show ?thesis by (simp add: revokeConnectionPrivilege_def run_stmt_def Let_def rec)
  next
    case (GrantMCPPrivilege g p)
    with assms(2) ok show ?thesis by (simp add: grantMCPPrivilege_def run_stmt_def rec)
  next
    case (RevokeMCPPrivilege g p)
    with assms(2) ok show ?thesis by (simp add: revokeMCPPrivilege_def run_stmt_def rec)
  next
    case (RevokeMCPPrivilegeByName g n)
    with assms(2) ok show ?thesis by (simp add: revokeMCPPrivilegeByName_def run_stmt_def rec)
  next
    case (GrantConnectionPrivilege g c l)
    with assms(2) ok show ?thesis by (auto simp: grantConnectionPrivilege_def run_stmt_def rec split: if_splits)
  next
    case (RevokeAdminPermission g p)
    with assms(2) ok show ?thesis by (simp add: revokeAdminPermission_def run_stmt_def rec)
  qed
qed

end
