(* ===== verification/Group_Mutation_Facts.thy ===== *)
theory Group_Mutation_Facts
  imports Group_Spec
begin

text \<open>
  Properties of the group and grant mutations over whole runs of the server: the tables stay
  well-formed and the hierarchy acyclic, every committed change has its event and no event is
  without a change, and the operations implement their specification. A sample store with a
  working audit log instantiates the theorems.
\<close>

section \<open>Runs\<close>

text \<open>
  A run commits operations of any actors, one after another, at any time. Which statements
  fail may change from one operation to the next; an operation that fails is rolled back and
  leaves no trace in the tables.
\<close>

definition failing :: "(sql_stmt \<Rightarrow> bool) \<Rightarrow> (group_stmt \<Rightarrow> bool) \<Rightarrow> (audit_stmt \<Rightarrow> bool) \<Rightarrow> group_state \<Rightarrow> group_state" where
  "failing f g h s = s\<lparr>as_auth := (as_auth s)\<lparr>db_fails := f\<rparr>, as_audit := (as_audit s)\<lparr>ad_fails := h\<rparr>, gs_fails := g\<rparr>"

inductive group_run :: "group_env \<Rightarrow> group_state \<Rightarrow> (actor \<times> group_op) list \<Rightarrow> group_state \<Rightarrow> bool" for env s where
  start: "group_run env s [] s"
| commit: "group_run env s ops t \<Longrightarrow> run_op (env\<lparr>ge_now := now\<rparr>) a op (failing f g h t) = Inr u \<Longrightarrow>
    group_run env s (ops @ [(a, op)]) u"

inductive_cases group_run_NilE: "group_run env s [] t"

lemma group_wf_failing [simp]: "group_wf (failing f g h s) = group_wf s"
  by (simp add: wf_defs failing_def group_ids_def store_wf_def parent_edges_def cong: conj_cong)

lemma run_op_wf: "group_wf s \<Longrightarrow> run_op env a op s = Inr s' \<Longrightarrow> group_wf s'"
  by (rule group_ops.keeps_invariant[where I = group_wf]) (auto intro: op_writes_wf)

section \<open>Samples\<close>

definition sample_groups :: group_state where
  "sample_groups = \<lparr>as_auth = grant_store, as_audit = one_event_db,
     user_groups = [\<lparr>ug_id = 5, ug_name = ''dev'', ug_description = Some ''developers''\<rparr>,
                    \<lparr>ug_id = 6, ug_name = ''ops'', ug_description = None\<rparr>],
     user_groups_seq = 6, gs_fails = (\<lambda>_. False)\<rparr>"

definition sample_group_env :: group_env where
  "sample_group_env = \<lparr>ge_audit = sample_env, ge_now = ''t2'', ge_marshal = (\<lambda>_. ''{}'')\<rparr>"

definition root_actor :: actor where
  "root_actor = \<lparr>act_type = ''user'', act_id = Some 2, act_name = ''root'', act_ip = ''''\<rparr>"

lemma sample_edges: "set (parent_edges grant_store) = {(5, 6)}"
  by (simp add: parent_edges_def grant_store_def sample_store_def List.map_filter_def)

lemma sample_groups_wf: "group_wf sample_groups"
  using grant_store_facts(3) sample_edges
  by (auto simp: wf_defs sample_groups_def group_ids_def grant_store_def sample_store_def storable_permission_def
      acyclic_def trancl_insert)

lemma sample_groups_work: "all_works sample_group_env sample_groups"
  using grant_store_facts(2) one_event_run one_event_facts
  by (auto simp: all_works_def sample_groups_def sample_group_env_def no_collision_def sample_env_def intro: inj_onI)

lemma sample_failing: "failing (\<lambda>_. False) (\<lambda>_. False) (\<lambda>_. False) sample_groups = sample_groups"
proof -
  have "ad_fails one_event_db = (\<lambda>_. False)" using one_event_facts(2) by (simp add: fun_eq_iff)
  moreover have "db_fails grant_store = (\<lambda>_. False)" by (simp add: grant_store_def sample_store_def)
  ultimately show ?thesis by (simp add: failing_def sample_groups_def)
qed

text \<open>An operation the specification allows on the sample store is a run of one step.\<close>

lemma sample_group_run:
  assumes "op_writes op sample_groups = Inr t"
  shows "\<exists>u. group_run sample_group_env sample_groups [(root_actor, op)] u"
proof -
  obtain u where "run_op sample_group_env root_actor op sample_groups = Inr u"
    using run_op_complete[OF sample_groups_work assms] by blast
  then have "run_op (sample_group_env\<lparr>ge_now := ''t2''\<rparr>) root_actor op
      (failing (\<lambda>_. False) (\<lambda>_. False) (\<lambda>_. False) sample_groups) = Inr u"
    unfolding sample_failing by (simp add: sample_group_env_def)
  from group_run.commit[OF group_run.start this] show ?thesis by auto
qed

lemma sample_create: "\<exists>t. op_writes (CreateGroup ''qa'' ''testers'') sample_groups = Inr t"
  by (simp add: insertGroup_def run_checked_def run_stmt_def sample_groups_def Let_def)

section \<open>Properties\<close>

text \<open>
  C10. The invariant of the group tables. Whatever groups, memberships and grants the server
  creates, changes and deletes, in whatever order and whatever fails in between, the tables
  stay well-formed: every membership and grant names a group and a member that exist, the
  constraints of the schema hold, and the hierarchy of groups has no cycle.
\<close>

theorem group_tables_invariant:
  assumes "group_run env s ops t" "group_wf s"
  shows "group_wf t"
  using assms
proof (induction rule: group_run.induct)
  case (commit ops t now a op f g h u)
  then show ?case using run_op_wf[of "failing f g h t"] by simp
qed

theorem group_tables_invariant_witness:
  "\<exists>t. group_run sample_group_env sample_groups [(root_actor, CreateGroup ''qa'' ''testers'')] t \<and> group_wf t"
  using sample_create sample_group_run group_tables_invariant sample_groups_wf by metis

text \<open>
  C9. The group and grant operations implement their specification. An operation that
  commits is one the specification allows, and changes the groups, memberships and grants
  exactly as the specification says; and one it allows commits when nothing fails.
\<close>

theorem group_ops_refine:
  assumes "group_wf s"
  shows "(run_op env a op s = Inr s' \<longrightarrow> spec_allows op (model_of s) \<and> model_of s' = spec_op op (model_of s)) \<and>
    (all_works env s \<and> spec_allows op (model_of s) \<longrightarrow> (\<exists>s'. run_op env a op s = Inr s'))"
proof (intro conjI impI; (elim conjE)?)
  assume run: "run_op env a op s = Inr s'"
  from group_ops.changes_tables[OF run] obtain t where t: "op_writes op s = Inr t" "s' = t\<lparr>as_audit := as_audit s'\<rparr>" by blast
  have "model_of s' = model_of t" by (subst t(2)) simp
  with op_writes_refine[OF assms t(1)]
  show "spec_allows op (model_of s)" "model_of s' = spec_op op (model_of s)" by simp_all
next
  assume works: "all_works env s" "spec_allows op (model_of s)"
  then obtain t where "op_writes op s = Inr t" using writes_enabled[OF assms] unfolding all_works_def by blast
  from run_op_complete[OF works(1) this] show "\<exists>s'. run_op env a op s = Inr s'" .
qed

theorem group_ops_refine_witness:
  "\<exists>s'. run_op sample_group_env root_actor (RevokeConnectionPrivilege 6 7 (Some (AllowLifts [7]))) sample_groups = Inr s'"
proof -
  have "lift_allows (Some (AllowLifts [7])) 7" by (simp add: lift_allows_def AllowLifts_def)
  moreover have "md_conns (model_of sample_groups) (6, 7) \<noteq> None"
    by (simp add: model_conns sample_groups_def grant_store_def sample_store_def conn_entry_def)
  ultimately show ?thesis using group_ops_refine[OF sample_groups_wf] sample_groups_work by (auto simp del: run_op.simps)
qed

definition attested :: "actor \<times> group_op \<Rightarrow> audit_event \<Rightarrow> bool" where
  "attested step row = (case step of (a, op) \<Rightarrow>
     \<exists>gid. attests a (op_action op) gid row \<and> (op_group op = None \<or> op_group op = Some gid))"

lemma run_op_attested:
  assumes "run_op env a op s = Inr s'" "act_type a \<noteq> ''''"
  shows "\<exists>row. ad_events (as_audit s') = ad_events (as_audit s) @ [row] \<and> attested (a, op) row"
  using group_ops.appends_event[OF assms] by (auto simp: attested_def op_target_def split: option.splits)

lemma audited_run:
  assumes "group_run env s ops t" "audit_run (ge_audit env) (as_audit s)" "\<forall>(a, op) \<in> set ops. act_type a \<noteq> ''''"
  shows "audit_run (ge_audit env) (as_audit t) \<and>
    (\<exists>rows. ad_events (as_audit t) = ad_events (as_audit s) @ rows \<and> list_all2 attested ops rows)"
  using assms
proof (induction rule: group_run.induct)
  case (commit ops t now a op f g h u)
  have "audit_run (ge_audit env) (as_audit (failing f g h t))"
    using commit audit_run.failures by (simp add: failing_def)
  with group_ops.keeps_log[OF commit.hyps(2)] have "audit_run (ge_audit env) (as_audit u)" by simp
  moreover from run_op_attested[OF commit.hyps(2)] commit.prems(2) obtain row where
    "ad_events (as_audit u) = ad_events (as_audit t) @ [row]" "attested (a, op) row" by (auto simp: failing_def)
  ultimately show ?case using commit by (auto intro: list_all2_appendI)
qed simp

text \<open>
  C11. Every committed change is in the audit log, and nothing else is. Over a run that
  starts on a log the server wrote, the log grows by exactly one event per committed
  operation, in order, which names the actor, the operation, the group it was applied to and
  its success; and while the database works the log verifies.
\<close>

theorem every_change_audited:
  assumes "group_run env s ops t" "audit_run (ge_audit env) (as_audit s)" "\<forall>(a, op) \<in> set ops. act_type a \<noteq> ''''"
  shows "(\<exists>rows. ad_events (as_audit t) = ad_events (as_audit s) @ rows \<and> list_all2 attested ops rows) \<and>
    ((\<forall>q. \<not> ad_fails (as_audit t) q) \<longrightarrow>
       VerifyAuditChain (ge_audit env) (as_audit t) = (length (ad_events (as_audit s)) + length ops, 0, None))"
proof -
  from audited_run[OF assms] obtain rows where run: "audit_run (ge_audit env) (as_audit t)"
    and rows: "ad_events (as_audit t) = ad_events (as_audit s) @ rows" "list_all2 attested ops rows" by blast
  with verify_run[OF run] list_all2_lengthD[OF rows(2)] show ?thesis by auto
qed

theorem every_change_audited_witness:
  "\<exists>t rows. group_run sample_group_env sample_groups [(root_actor, CreateGroup ''qa'' ''testers'')] t \<and>
     ad_events (as_audit t) = ad_events one_event_db @ rows \<and>
     list_all2 attested [(root_actor, CreateGroup ''qa'' ''testers'')] rows"
proof -
  obtain t where run: "group_run sample_group_env sample_groups [(root_actor, CreateGroup ''qa'' ''testers'')] t"
    using sample_create sample_group_run by metis
  from every_change_audited[OF this] one_event_run show ?thesis
    using run by (auto simp: sample_group_env_def sample_groups_def root_actor_def)
qed

text \<open>Membership only shrinks when rows are removed.\<close>

lemma in_group_mono:
  assumes "set (group_memberships st') \<subseteq> set (group_memberships st)" "in_group st' u h"
  shows "in_group st u h"
  using assms(2)
proof induction
  case (direct r) then show ?case using assms(1) in_group.direct by blast
next
  case (nested h r) then show ?case using assms(1) in_group.nested by blast
qed

lemma in_group_parent: "in_group st u h \<Longrightarrow> \<exists>m \<in> set (group_memberships st). gm_parent_group_id m = h"
  by (induction rule: in_group.induct) auto

lemma drop_group_rows:
  "set (group_memberships (drop_group g st)) \<subseteq> set (group_memberships st)"
  "m \<in> set (group_memberships (drop_group g st)) \<Longrightarrow> gm_parent_group_id m \<noteq> g \<and> gm_member_group_id m \<noteq> Some g"
  "g \<notin> fst ` set (group_mcp_privileges (drop_group g st))"
  "g \<notin> fst ` set (connection_privileges (drop_group g st))"
  "g \<notin> fst ` set (group_admin_permissions (drop_group g st))"
  "(h, c, l) \<in> set (connection_privileges st) \<Longrightarrow> h \<noteq> g \<Longrightarrow> (h, c, l) \<in> set (connection_privileges (drop_group g st))"
  by (auto simp: drop_group_def)

lemma deleted_tables:
  assumes "deleteGroup env a g guard s = Inr s'"
  shows "as_auth s' = drop_group g (as_auth s) \<and> user_groups s' = filter (\<lambda>r. ug_id r \<noteq> g) (user_groups s) \<and>
    user_groups_seq s' = user_groups_seq s \<and> g \<in> group_ids s \<and> guardGroupLiftsTx s guard g = Inr ()"
proof -
  have "run_op env a (DeleteGroup g guard) s = Inr s'" using assms by simp
  from group_ops.changes_tables[OF this] obtain t where t: "op_writes (DeleteGroup g guard) s = Inr t"
    "s' = t\<lparr>as_audit := as_audit s'\<rparr>" by blast
  from delete_writes[OF t(1)] show ?thesis by (subst t(2), subst t(2), subst t(2)) simp
qed

text \<open>
  C12. Deleting a group takes everything of it away. After a delete no membership, grant or
  permission row names the group, nobody is in it, nobody has joined any other group, and its
  id is never given to a new group. If a connection it granted is left without any group
  grant, which opens a shared connection to everyone, then the caller's guard allowed that.
\<close>

theorem deleted_group_gone:
  assumes "group_wf s" "deleteGroup env a g guard s = Inr s'"
  shows "g \<notin> group_ids s' \<and> g < next_group_id s' \<and>
    (\<forall>m \<in> set (group_memberships (as_auth s')). gm_parent_group_id m \<noteq> g \<and> gm_member_group_id m \<noteq> Some g) \<and>
    g \<notin> fst ` set (group_mcp_privileges (as_auth s')) \<union> fst ` set (connection_privileges (as_auth s')) \<union>
        fst ` set (group_admin_permissions (as_auth s')) \<and>
    (\<forall>u h. in_group (as_auth s') u h \<longrightarrow> in_group (as_auth s) u h \<and> h \<noteq> g) \<and>
    (\<forall>c. c \<noteq> ConnectionIDAll \<and> (\<exists>l. (g, c, l) \<in> set (connection_privileges (as_auth s))) \<and>
        (\<forall>h l. (h, c, l) \<notin> set (connection_privileges (as_auth s'))) \<longrightarrow> lift_allows guard c)"
proof -
  note d = deleted_tables[OF assms(2)]
  have ok: "groups_ok s" "grants_ok s" using assms(1) by (simp_all add: group_wf_def)
  have "groups_ok s'" using run_op_wf[OF assms(1), of env a "DeleteGroup g guard" s'] assms(2) by (simp add: group_wf_def)
  then have "g < next_group_id s'" using d ok(1) next_group_id_fresh by (auto simp: groups_ok_def group_ids_def)
  moreover have "in_group (as_auth s) u h \<and> h \<noteq> g" if "in_group (as_auth s') u h" for u h
    using that in_group_mono[OF drop_group_rows(1)] in_group_parent drop_group_rows(2) d by metis
  moreover have "lift_allows guard c" if "c \<noteq> ConnectionIDAll" "\<exists>l. (g, c, l) \<in> set (connection_privileges (as_auth s))"
    "\<forall>h l. (h, c, l) \<notin> set (connection_privileges (as_auth s'))" for c
  proof -
    have "sole_grant (model_of s) g c"
      using that drop_group_rows(6) d conns_None[OF ok(2)] by (auto simp: sole_grant_def) metis
    then show ?thesis using guard_group_sound[OF ok(2)] d that(2) conns_None[OF ok(2)] by blast
  qed
  moreover have "g \<notin> group_ids s'" using d by (auto simp: group_ids_def)
  ultimately show ?thesis using drop_group_rows(2)[of _ g "as_auth s"] drop_group_rows(3-5)[of g "as_auth s"] d by auto
qed

lemma sample_delete: "\<exists>s'. deleteGroup sample_group_env root_actor 5 None sample_groups = Inr s'"
proof -
  have "\<exists>s'. run_op sample_group_env root_actor (DeleteGroup 5 None) sample_groups = Inr s'"
    by (rule run_op_complete[OF sample_groups_work])
       (simp add: guardGroupLiftsTx_def deleteGroupDependentsTx_def deleteGroupRowTx_def run_stmt_def sample_groups_def)
  then show ?thesis by simp
qed

theorem deleted_group_gone_witness:
  "\<exists>s'. deleteGroup sample_group_env root_actor 5 None sample_groups = Inr s' \<and> 5 \<notin> group_ids s' \<and>
     \<not> in_group (as_auth s') 1 5"
  using sample_delete deleted_group_gone[OF sample_groups_wf] by metis

section \<open>Grants\<close>

lemma op_tables:
  assumes "run_op env a op s = Inr s'"
  shows "\<exists>t. op_writes op s = Inr t \<and> as_auth s' = as_auth t \<and> user_groups s' = user_groups t"
proof -
  from group_ops.changes_tables[OF assms] obtain t where t: "op_writes op s = Inr t" "s' = t\<lparr>as_audit := as_audit s'\<rparr>" by blast
  from arg_cong[OF t(2), of as_auth] arg_cong[OF t(2), of user_groups] t(1) show ?thesis by auto
qed

text \<open>
  A connection grant reaches exactly the members of the group, and revoking it undoes it.
  After the grant every user in the group, directly or through the hierarchy, holds the
  connection at the granted level or above; a user outside the group holds what was held
  before; and revoking a grant that was not there before leaves the tables as they were.
\<close>

theorem grant_reaches_members:
  assumes "group_wf s" "grantConnectionPrivilege env a g c l s = Inr t"
  shows "(in_group (as_auth s) uid g \<longrightarrow>
      (\<exists>k. map_of (user_conns (as_auth t) uid) c = Some k \<and> accessLevelRank l \<le> accessLevelRank k)) \<and>
    (\<not> in_group (as_auth s) uid g \<longrightarrow> map_of (user_conns (as_auth t) uid) = map_of (user_conns (as_auth s) uid)) \<and>
    ((\<forall>k. (g, c, k) \<notin> set (connection_privileges (as_auth s))) \<and> revokeConnectionPrivilege env' b g c guard t = Inr u
      \<longrightarrow> as_auth u = as_auth s \<and> user_groups u = user_groups s)"
proof -
  let ?rows = "connection_privileges (as_auth s)"
  let ?new = "filter (\<lambda>(h, d, k). \<not> (h = g \<and> d = c)) ?rows @ [(g, c, l)]"
  have run: "run_op env a (GrantConnectionPrivilege g c l) s = Inr t" using assms(2) by simp
  from op_tables[OF run] have t: "as_auth t = (as_auth s)\<lparr>connection_privileges := ?new\<rparr>" "user_groups t = user_groups s"
    and l: "valid_level l"
    by (auto simp: replaceConnGrant_def go_simps valid_level_def split: if_splits)
  have wf: "store_wf (as_auth s)" "store_wf (as_auth t)"
    using assms(1) run_op_wf[OF assms(1) run] by (simp_all add: group_wf_def)
  have groups: "user_groups_of (as_auth t) uid = user_groups_of (as_auth s) uid"
    by (simp add: t user_groups_of_def direct_groups_def)
  have rows: "set (conn_rows_of (as_auth t) (user_groups_of (as_auth s) uid)) =
      {(d, k). (\<exists>h. in_group (as_auth s) uid h \<and> (h, d, k) \<in> set ?rows \<and> \<not> (h = g \<and> d = c)) \<or>
         in_group (as_auth s) uid g \<and> d = c \<and> k = l}"
    by (auto simp: set_conn_rows_of set_user_groups_of t(1))
  note maps = map_of_user_conns[OF wf(1), of uid] map_of_user_conns[OF wf(2), of uid, unfolded groups]
  have "\<exists>k. map_of (user_conns (as_auth t) uid) c = Some k \<and> accessLevelRank l \<le> accessLevelRank k"
    if "in_group (as_auth s) uid g"
    using that l unfolding maps(2) highest_grant_def rows by (auto simp: valid_level_def accessLevelRank_def)
  moreover have "map_of (user_conns (as_auth t) uid) = map_of (user_conns (as_auth s) uid)" if "\<not> in_group (as_auth s) uid g"
  proof -
    have "set (conn_rows_of (as_auth t) (user_groups_of (as_auth s) uid)) = set (conn_rows_of (as_auth s) (user_groups_of (as_auth s) uid))"
      unfolding rows using that by (auto simp: set_conn_rows_of set_user_groups_of)
    then show ?thesis unfolding maps by (rule highest_grant_cong)
  qed
  moreover have "as_auth u = as_auth s \<and> user_groups u = user_groups s"
    if "\<forall>k. (g, c, k) \<notin> set ?rows" "revokeConnectionPrivilege env' b g c guard t = Inr u"
  proof -
    have "run_op env' b (RevokeConnectionPrivilege g c guard) t = Inr u" using that(2) by simp
    from op_tables[OF this] have "as_auth u = (as_auth t)\<lparr>connection_privileges :=
        filter (\<lambda>(h, d, k). \<not> (h = g \<and> d = c)) (connection_privileges (as_auth t))\<rparr>" "user_groups u = user_groups t"
      by (auto simp: deleteConnGrant_def go_simps split: if_splits)
    moreover have "filter (\<lambda>(h, d, k). \<not> (h = g \<and> d = c)) ?rows = ?rows"
      using that(1) by (intro filter_True) auto
    ultimately show ?thesis by (simp add: t)
  qed
  ultimately show ?thesis by blast
qed

theorem grant_reaches_members_witness:
  "\<exists>t k. grantConnectionPrivilege sample_group_env root_actor 6 9 AccessLevelRead sample_groups = Inr t \<and>
     map_of (user_conns (as_auth t) 1) 9 = Some k \<and> accessLevelRank AccessLevelRead \<le> accessLevelRank k"
proof -
  have "\<exists>t. run_op sample_group_env root_actor (GrantConnectionPrivilege 6 9 AccessLevelRead) sample_groups = Inr t"
    by (rule run_op_complete[OF sample_groups_work])
       (simp add: replaceConnGrant_def run_checked_def run_stmt_def sample_groups_def group_ids_def)
  then obtain t where t: "grantConnectionPrivilege sample_group_env root_actor 6 9 AccessLevelRead sample_groups = Inr t" by auto
  have "6 \<in> set (user_groups_of grant_store 1)" by code_simp
  then have "in_group (as_auth sample_groups) 1 6" by (simp add: set_user_groups_of sample_groups_def)
  with grant_reaches_members[OF sample_groups_wf t] t show ?thesis by blast
qed

text \<open>
  C13. Granting an admin permission that does not exist is reported as a success. The CHECK
  constraint makes \<^verbatim>\<open>INSERT OR IGNORE\<close> skip the row without an error, so the operation changes
  no table, for a group that does not exist too, and still commits a success event that says
  the permission was granted.
\<close>

theorem unknown_permission_granted:
  assumes "\<not> storable_permission p" "all_works env s" "act_type a \<noteq> ''''"
  shows "\<exists>s' row. grantAdminPermission env a g p s = Inr s' \<and> as_auth s' = as_auth s \<and> user_groups s' = user_groups s \<and>
    ad_events (as_audit s') = ad_events (as_audit s) @ [row] \<and> attests a ''permission.admin.grant'' g row"
proof -
  have p: "p \<noteq> AdminPermissionWildcard" using assms(1) by (auto simp: storable_permission_def AdminPermissionWildcard_def)
  have w: "op_writes (GrantAdminPermission g p) s = Inr s"
    using assms(1,2) p by (simp add: insertAdminGrant_def trimAdminGrants_def run_checked_def run_stmt_def all_works_def)
  from run_op_complete[OF assms(2) this] obtain s' where run: "run_op env a (GrantAdminPermission g p) s = Inr s'" by blast
  from group_ops.appends_event[OF run assms(3)] op_tables[OF run] w run show ?thesis
    by (auto simp: op_target_def)
qed

theorem unknown_permission_granted_witness:
  "\<exists>s'. grantAdminPermission sample_group_env root_actor 99 ''fly'' sample_groups = Inr s' \<and> as_auth s' = grant_store"
  using unknown_permission_granted[OF _ sample_groups_work, of "''fly''" root_actor 99]
  by (auto simp: storable_permission_def root_actor_def sample_groups_def)

end
