(* ===== verification/Token_Scope_Handlers.thy ===== *)
theory Token_Scope_Handlers
  imports Scope_Mutation_Facts
begin

text \<open>
  The HTTP handlers of \<^verbatim>\<open>/api/v1/rbac/tokens/{id}/scope\<close>: \<open>getTokenScope\<close>, \<open>setTokenScope\<close>
  and \<open>clearTokenScope\<close> of \<^verbatim>\<open>api/rbac_token_handlers.go\<close> with the permission gate of
  \<open>handleTokenSubpath\<close> and the judgement of \<^verbatim>\<open>api/rbac_grant_scope.go\<close>. A handler first
  checks the request against the store and then opens the write's transaction; other requests
  may commit in between, so the checks read one state and the write runs on another. A
  response carries its status, its message and the reason handed to \<open>recordDenial\<close>, whose
  coalesced audit row is written later and is not part of the state here. Decoding the body
  is a parameter: \<open>None\<close> is a body that does not decode.
\<close>

section \<open>Responses\<close>

datatype message =
    Text string
  | ErrorText auth_error
  | UnknownPrivilege mcp_name
  | NoBody
  | ScopeBody "token_scope option"
  | CreatedBody int string
  | GroupBody "(int \<times> string \<times> string) option"

record response =
  rs_status :: nat
  rs_message :: message
  rs_denial :: "string option"

definition RespondError :: "nat \<Rightarrow> message \<Rightarrow> response" where
  "RespondError status msg = \<lparr>rs_status = status, rs_message = msg, rs_denial = None\<rparr>"

definition deny :: "nat \<Rightarrow> string \<Rightarrow> response" where
  "deny status reason = \<lparr>rs_status = status, rs_message = Text reason, rs_denial = Some reason\<rparr>"

text \<open>The messages the handlers answer with, where they are fixed.\<close>

definition PermManageTokenScopes :: permission where "PermManageTokenScopes = ''manage_token_scopes''"

definition refuseTokenScope :: string where
  "refuseTokenScope = ''Permission denied: the token scope change grants access that exceeds this token'' @
     [CHR 39] @ ''s access''"

definition refuseTokenNotOwned :: string where
  "refuseTokenNotOwned = ''Permission denied: only a superuser may widen or clear the scope of a token owned by '' @
     ''another user; a change to such a token must narrow it''"

definition refuseTokenScopeChanged :: string where
  "refuseTokenScopeChanged = ''Token scope changed while the request was being checked; retry the request''"

definition notSuperuser :: string where
  "notSuperuser = ''Permission denied: requires superuser privileges''"

definition FederatedAPITokenRefusalReason :: string where
  "FederatedAPITokenRefusalReason = ''Permission denied: API tokens are disabled for federated logins in this '' @
     ''installation. Contact your system administrator.''"

section \<open>The handler and its actor\<close>

text \<open>
  The fixed parts of a handler: the sharing lookup of its checker, its connection lister and
  the environment of the store's audited writes.
\<close>

record rbac_handler =
  rh_lookup :: "sharing_lookup option"
  rh_lister :: "connection_lister option"
  rh_env :: mutation_env

definition handler_checker :: "rbac_handler \<Rightarrow> auth_store \<Rightarrow> rbac_checker option" where
  "handler_checker h st = Some \<lparr>authStore = Some st, connSharingLookupFn = rh_lookup h\<rparr>"

definition systemActor :: actor where
  "systemActor = \<lparr>act_type = ''system'', act_id = None, act_name = ''system'', act_ip = ''''\<rparr>"

text \<open>The client address is a context value of its own; \<open>None\<close> is an absent one.\<close>

definition ActorFromContext :: "request_ctx \<Rightarrow> string option \<Rightarrow> actor" where
  "ActorFromContext ctx ip =
     (let name = GetUsernameFromContext ctx; addr = (case ip of None \<Rightarrow> '''' | Some a \<Rightarrow> a) in
      if IsAPITokenFromContext ctx
      then let tokenID = GetTokenIDFromContext ctx in
           if tokenID = 0 \<and> name = '''' then systemActor
           else \<lparr>act_type = ''token'', act_id = (if tokenID \<noteq> 0 then Some tokenID else None),
                 act_name = name, act_ip = addr\<rparr>
      else if name = '''' then systemActor
      else let userID = GetUserIDFromContext ctx in
           \<lparr>act_type = ''user'', act_id = (if userID \<noteq> 0 then Some userID else None), act_name = name, act_ip = addr\<rparr>)"

section \<open>Checks\<close>

definition requirePermission :: "rbac_checker option \<Rightarrow> request_ctx \<Rightarrow> permission \<Rightarrow> response option" where
  "requirePermission rc ctx permission =
     (if \<not> HasAdminPermission rc ctx permission
      then Some (deny 403 (''Permission denied: requires '' @ permission @ '' permission'')) else None)"

definition requireGrantInTokenScope :: "bool \<Rightarrow> string \<Rightarrow> response option" where
  "requireGrantInTokenScope inScope reason = (if inScope then None else Some (deny 403 reason))"

text \<open>The first scope kind that was supplied as an empty array, or the empty string.\<close>

definition emptyScopeKind :: "bool \<Rightarrow> bool \<Rightarrow> bool \<Rightarrow> string" where
  "emptyScopeKind connections mcpPrivileges adminPermissions =
     (if connections then ''connections'' else if mcpPrivileges then ''mcp_privileges''
      else if adminPermissions then ''admin_permissions'' else '''')"

definition emptyKindText :: string where
  "emptyKindText = '' must not be an empty array: a scope kind with no entries is unrestricted, so an empty array '' @
     ''would lift the restriction rather than deny everything; omit the key to leave it unchanged, or use DELETE '' @
     ''to clear the token'' @ [CHR 39] @ ''s scope''"

fun requireKnownMCPPrivileges :: "auth_store \<Rightarrow> mcp_name list \<Rightarrow> response option" where
  "requireKnownMCPPrivileges st [] = None"
| "requireKnownMCPPrivileges st (ident # rest) =
     (if ident = ''*'' then requireKnownMCPPrivileges st rest
      else case GetMCPPrivilege st ident of
        Inl _ \<Rightarrow> Some (RespondError 500 (Text ''Failed to set token scope''))
      | Inr None \<Rightarrow> Some (RespondError 400 (UnknownPrivilege ident))
      | Inr (Some _) \<Rightarrow> requireKnownMCPPrivileges st rest)"

text \<open>\<open>None\<close> as the change is the clearing of every kind.\<close>

definition requireTokenScopeChange ::
  "rbac_handler \<Rightarrow> auth_store \<Rightarrow> request_ctx \<Rightarrow> int \<Rightarrow> scope_change option \<Rightarrow> response + scope_snapshot option" where
  "requireTokenScopeChange h st ctx tid change =
     (let rc = handler_checker h st in
      if TokenHoldsEverything rc ctx then Inr None
      else case (case change of None \<Rightarrow> JudgeTokenScopeClear rc ctx tid (rh_lister h)
                 | Some ch \<Rightarrow> JudgeTokenScopeChange rc ctx tid ch) of
        Inl _ \<Rightarrow> Inl (deny 500 ''Failed to get token scope'')
      | Inr (allowed, judged) \<Rightarrow>
          (case requireGrantInTokenScope allowed refuseTokenScope of Some r \<Rightarrow> Inl r | None \<Rightarrow> Inr judged))"

definition tokenOwnerGuard :: "rbac_handler \<Rightarrow> auth_store \<Rightarrow> request_ctx \<Rightarrow> owner_guard" where
  "tokenOwnerGuard h st ctx =
     (if IsSuperuser (handler_checker h st) ctx then AnyTokenOwner else TokensOwnedBy (GetUserIDFromContext ctx))"

definition superuserOwnerAllowed :: "rbac_handler \<Rightarrow> auth_store \<Rightarrow> request_ctx \<Rightarrow> int \<Rightarrow> bool" where
  "superuserOwnerAllowed h st ctx tid =
     (let acting = GetTokenIDFromContext ctx in
      if acting > 0 \<and> acting = tid then True else IsSuperuser (handler_checker h st) ctx)"

definition respondTokenWriteError :: "auth_error \<Rightarrow> string \<Rightarrow> response" where
  "respondTokenWriteError err failure =
     (if err = ErrSuperuserTargetForbidden then deny 403 notSuperuser
      else if err = ErrTokenNotOwned then deny 403 refuseTokenNotOwned
      else if err = ErrTokenScopeChanged then deny 409 refuseTokenScopeChanged
      else if err = ErrFederatedAPITokensDisabled then deny 403 FederatedAPITokenRefusalReason
      else RespondError 500 (Text failure))"

section \<open>The handlers\<close>

text \<open>
  What \<open>setTokenScope\<close> checks, on the store \<open>st\<close>, before it writes: a refusal, or the change
  and the snapshot it was judged against.
\<close>

definition checkSetTokenScope ::
  "rbac_handler \<Rightarrow> auth_store \<Rightarrow> request_ctx \<Rightarrow> int \<Rightarrow> scope_change option \<Rightarrow>
     response + (scope_change \<times> scope_snapshot option)" where
  "checkSetTokenScope h st ctx tid body =
     (case body of
        None \<Rightarrow> Inl (RespondError 400 (Text ''Invalid request body''))
      | Some req \<Rightarrow>
          let kind = emptyScopeKind (ch_connections req = Some []) (ch_mcp req = Some []) (ch_admin req = Some []) in
          if kind \<noteq> '''' then Inl (RespondError 400 (Text (kind @ emptyKindText)))
          else case ValidateScopedConnections (entries_of (ch_connections req)) of
            Inl e \<Rightarrow> Inl (RespondError 400 (ErrorText e))
          | Inr _ \<Rightarrow>
          (case ValidateAdminPermissions (entries_of (ch_admin req)) of
            Inl e \<Rightarrow> Inl (RespondError 400 (ErrorText e))
          | Inr _ \<Rightarrow>
          (case requireKnownMCPPrivileges st (entries_of (ch_mcp req)) of
            Some r \<Rightarrow> Inl r
          | None \<Rightarrow>
          (case requireTokenScopeChange h st ctx tid (Some req) of
            Inl r \<Rightarrow> Inl r
          | Inr judged \<Rightarrow> Inr (req, judged)))))"

definition NoContent :: response where
  "NoContent = \<lparr>rs_status = 204, rs_message = NoBody, rs_denial = None\<rparr>"

text \<open>
  The handlers take the store the checks read and the state the write's transaction finds,
  and return the response with the state they leave.
\<close>

definition handleSetTokenScope ::
  "rbac_handler \<Rightarrow> request_ctx \<Rightarrow> string option \<Rightarrow> int \<Rightarrow> scope_change option \<Rightarrow> auth_store \<Rightarrow>
     audited_store \<Rightarrow> response \<times> audited_store" where
  "handleSetTokenScope h ctx ip tid body st s =
     (case checkSetTokenScope h st ctx tid body of
        Inl r \<Rightarrow> (r, s)
      | Inr (change, judged) \<Rightarrow>
          (case setTokenScope (rh_env h) (ActorFromContext ctx ip) tid change
                  (superuserOwnerAllowed h st ctx tid) (tokenOwnerGuard h st ctx) judged s of
             Inl err \<Rightarrow>
               ((if err = ErrUnknownMCPPrivilege then RespondError 400 (ErrorText err)
                 else respondTokenWriteError err ''Failed to set token scope''), s)
           | Inr s' \<Rightarrow> (NoContent, s')))"

definition handleClearTokenScope ::
  "rbac_handler \<Rightarrow> request_ctx \<Rightarrow> string option \<Rightarrow> int \<Rightarrow> auth_store \<Rightarrow> audited_store \<Rightarrow> response \<times> audited_store" where
  "handleClearTokenScope h ctx ip tid st s =
     (case requireTokenScopeChange h st ctx tid None of
        Inl r \<Rightarrow> (r, s)
      | Inr judged \<Rightarrow>
          (case clearTokenScope (rh_env h) (ActorFromContext ctx ip) tid
                  (superuserOwnerAllowed h st ctx tid) (tokenOwnerGuard h st ctx) judged s of
             Inl err \<Rightarrow> (respondTokenWriteError err ''Failed to clear token scope'', s)
           | Inr s' \<Rightarrow> (NoContent, s')))"

definition handleGetTokenScope :: "auth_store \<Rightarrow> int \<Rightarrow> response" where
  "handleGetTokenScope st tid =
     (case GetTokenScope st tid of
        Inl e \<Rightarrow> if e = ErrTokenNotFound then RespondError 404 (Text ''Token not found'')
                 else RespondError 500 (Text ''Failed to get token scope'')
      | Inr scope \<Rightarrow> \<lparr>rs_status = 200, rs_message = ScopeBody scope, rs_denial = None\<rparr>)"

text \<open>
  The route: \<open>handleTokenSubpath\<close> for a path that names a token's scope. Every method needs
  the permission to manage token scopes.
\<close>

datatype scope_request = GetScope | PutScope "scope_change option" | DeleteScope | OtherMethod

definition handleTokenScopePath ::
  "rbac_handler \<Rightarrow> request_ctx \<Rightarrow> string option \<Rightarrow> int \<Rightarrow> scope_request \<Rightarrow> auth_store \<Rightarrow> audited_store \<Rightarrow>
     response \<times> audited_store" where
  "handleTokenScopePath h ctx ip tid req st s =
     (case requirePermission (handler_checker h st) ctx PermManageTokenScopes of
        Some r \<Rightarrow> (r, s)
      | None \<Rightarrow>
          (case req of
             GetScope \<Rightarrow> (handleGetTokenScope st tid, s)
           | PutScope body \<Rightarrow> handleSetTokenScope h ctx ip tid body st s
           | DeleteScope \<Rightarrow> handleClearTokenScope h ctx ip tid st s
           | OtherMethod \<Rightarrow> (RespondError 405 (Text ''Method not allowed''), s)))"

end
