(* ===== verification/Token_Scope_Handler_Facts.thy ===== *)
theory Token_Scope_Handler_Facts
  imports Token_Scope_Handlers Visible_Connections
begin

text \<open>
  What the scope handlers guarantee: a token that writes a scope hands the target nothing
  beyond what the target's scope admitted when the transaction ran and what the acting token
  itself may reach, however other requests interleave with the write; and a request that is
  refused changes nothing.
\<close>

section \<open>Snapshots that agree\<close>

lemma maps_equal_map_of:
  assumes "maps_equal a b" "gm_wf a" "gm_wf b"
  shows "map_of a = map_of b"
proof -
  have len: "length a = length b" and sub: "\<forall>(k, v) \<in> set a. map_of b k = Some v"
    using assms(1) by (auto simp: maps_equal_def)
  have "set a \<subseteq> set b" using sub gm_entry_iff[OF assms(3)] by auto
  moreover have "card (set a) = card (set b)"
    using assms(2,3) len by (simp add: gm_wf_def distinct_map distinct_card)
  ultimately have "set a = set b" by (simp add: card_subset_eq)
  then show ?thesis using assms(2,3) map_of_inject_set by (auto simp: gm_wf_def)
qed

lemma entries_rank_cong:
  assumes "map_of (conn_entries rows) = map_of (conn_entries rows')"
  shows "entries_rank rows c = entries_rank rows' c"
proof -
  have "dom (map_of (conn_entries xs)) = {} \<longleftrightarrow> xs = []" for xs
    by (cases xs) (auto simp: conn_entries_def dom_def)
  then have "rows = [] \<longleftrightarrow> rows' = []" using assms by metis
  then show ?thesis unfolding entries_rank_def assms by simp
qed

text \<open>The scope a snapshot was taken of, seen again by the transaction that compares it.\<close>

lemma snapshot_agrees:
  assumes "guardJudgedTokenScopeTx st' tid
      (Some (newTokenScopeSnapshot (scope_conn_rows st tid) (scope_mcp_rows st tid) (scope_admin_rows st tid))) = Inr ()"
    and "store_wf st" "store_wf st'" "mcp_privilege_identifiers st' = mcp_privilege_identifiers st"
  shows "scope_rank st' tid c = scope_rank st tid c" "mcp_in_scope st' tid n = mcp_in_scope st tid n"
    "admin_in_scope st' tid p = admin_in_scope st tid p"
proof -
  let ?conns = "\<lambda>s. gm_of_entries (conn_entries (scope_conn_rows s tid))"
  let ?sorted = "sort_key sc_connection_id (scope_conn_rows st' tid)"
  have eq: "maps_equal (?conns st) (gm_of_entries (conn_entries ?sorted))"
    "set (scope_mcp_rows st tid) = set (scope_mcp_rows st' tid)"
    "set (scope_admin_rows st tid) = set (scope_admin_rows st' tid)"
    using assms(1) by (auto simp: guardJudgedTokenScopeTx_def tokenScopeSnapshotTx_def tokenConnectionScopeTx_def
        tokenMCPScopeIDsTx_def tokenAdminScopeTx_def newTokenScopeSnapshot_def snapshot_equal_def go_simps
        split: if_splits)
  have m: "map_of (gm_of_entries (conn_entries rows)) = map_of (conn_entries (scope_conn_rows s tid))"
    if "store_wf s" "set rows = set (scope_conn_rows s tid)" "length rows = length (scope_conn_rows s tid)" for s rows
    by (rule map_of_stored_conns[OF scope_rows_distinct[OF that(1)] that(2,3)])
  have "map_of (conn_entries (scope_conn_rows st tid)) = map_of (conn_entries (scope_conn_rows st' tid))"
    using maps_equal_map_of[OF eq(1)] m[OF assms(2), of "scope_conn_rows st tid"] m[OF assms(3), of ?sorted] by simp
  then show "scope_rank st' tid c = scope_rank st tid c"
    unfolding scope_rank_def by (metis entries_rank_cong)
  have ne: "scope_mcp_rows st tid = [] \<longleftrightarrow> scope_mcp_rows st' tid = []"
    "scope_admin_rows st tid = [] \<longleftrightarrow> scope_admin_rows st' tid = []"
    using eq(2,3) by (metis set_empty)+
  show "mcp_in_scope st' tid n = mcp_in_scope st tid n" using eq(2) ne assms(4) by (simp add: mcp_in_scope_def)
  show "admin_in_scope st' tid p = admin_in_scope st tid p" using eq(3) ne by (simp add: admin_in_scope_def)
qed

section \<open>A judged change\<close>

text \<open>How far a request reaches a connection, as a rank.\<close>

definition access_rank :: "rbac_checker option \<Rightarrow> request_ctx \<Rightarrow> conn_id \<Rightarrow> nat" where
  "access_rank rc ctx conn = (case CanAccessConnection rc ctx conn of (ok, l) \<Rightarrow> if ok then accessLevelRank l else 0)"

lemma ceiling_rank:
  assumes "actorCeiling rc ctx = Some c" "\<not> tc_session c" "conn \<noteq> ConnectionIDAll"
  shows "accessLevelRank (ceilingLevel c conn) = access_rank rc ctx conn"
  using assms
  by (auto simp: actorCeiling_Some ceilingLevel_def access_rank_def accessLevelRank_def const_defs split: prod.splits)

lemma judged_connections:
  assumes c: "actorCeiling rc ctx = Some c" "\<not> tc_session c" "healthy (tc_store c)" "store_wf (tc_store c)"
    and "connectionsChangeCovered c stored rows" "rows \<noteq> []" "stored_from st tid stored"
    and "connection_known rc conn" "conn \<noteq> ConnectionIDAll"
  shows "entries_rank rows conn \<le> max (scope_rank st tid conn) (access_rank rc ctx conn)"
proof -
  let ?bound = "\<lambda>k. max (accessLevelRank (storedLevel stored k)) (accessLevelRank (ceilingLevel c k))"
  have all: "accessLevelRank (ceilingLevel c ConnectionIDAll) \<le> accessLevelRank (ceilingLevel c conn)"
  proof (cases "accessLevelRank (allConnectionsLevel c) > 0")
    case True
    from allConnectionsLevel_le[OF c assms(8) True] show ?thesis
      using c(2) ceiling_rank[OF c(1,2) assms(9)] by (auto simp: ceilingLevel_def[of c ConnectionIDAll] access_rank_def)
  qed (use c(2) in \<open>simp add: ceilingLevel_def[of c ConnectionIDAll]\<close>)
  have "entries_rank rows conn \<le> ?bound conn"
  proof (rule entries_rank_bounded[OF assms(6)])
    show "\<forall>sc \<in> set rows. accessLevelRank (sc_access_level sc) \<le> ?bound (sc_connection_id sc)"
      using assms(5) by (auto simp: connectionsChangeCovered_def coversConnection_def Let_def not_less
          split: if_splits)
    show "?bound ConnectionIDAll \<le> ?bound conn"
      using all storedLevel_all_le[OF assms(7), of conn] storedLevel_rank[OF assms(7,9)] by linarith
  qed
  then show ?thesis using storedLevel_rank[OF assms(7,9)] ceiling_rank[OF c(1,2) assms(9)] by simp
qed

lemma judged_mcp:
  assumes c: "actorCeiling rc ctx = Some c" "\<not> tc_session c" "healthy (tc_store c)" "no_wildcard_item (tc_store c)"
    and "namesChangeCovered names mcpScopeWildcard (ss_mcp stored) (ss_mcpRestricted stored) (coversMCP c)"
    and "stored_from st tid stored" "m \<in> set (mcp_privilege_identifiers (tc_store c))"
    and "mcpScopeWildcard \<in> set names \<or> mpi_identifier m \<in> set names"
  shows "mcp_in_scope st tid (mpi_identifier m) \<or> CanAccessMCPItem rc ctx (mpi_identifier m)"
proof -
  have "mpi_identifier m \<noteq> mcpScopeWildcard" using c(4) assms(7) by (auto simp: no_wildcard_item_def)
  moreover have "holdsAllMCP c \<Longrightarrow> CanAccessMCPItem rc ctx (mpi_identifier m)"
    by (rule holdsAllMCP_covers[OF c _ assms(7)])
  ultimately show ?thesis using assms(1,2,5,6,8)
    by (auto simp: namesChangeCovered_def stored_from_def coversMCP_def actorCeiling_Some split: if_splits)
qed

lemma judged_admin:
  assumes c: "actorCeiling rc ctx = Some c" "\<not> tc_session c" "healthy (tc_store c)"
    and "namesChangeCovered perms AdminPermissionWildcard (ss_admin stored) (ss_adminRestricted stored) (coversAdmin c)"
    and "stored_from st tid stored" "AdminPermissionWildcard \<in> set perms \<or> p \<in> set perms"
  shows "admin_in_scope st tid p \<or> HasAdminPermission rc ctx p"
  using assms holdsAllAdmin_has[OF c, of p]
  by (auto simp: namesChangeCovered_def stored_from_def coversAdmin_def actorCeiling_Some split: if_splits)

lemma handler_checker_store [simp]: "checker_store (handler_checker h st) = Some st"
  by (simp add: handler_checker_def checker_store_def)

text \<open>A check that lets a token's change through has judged it.\<close>

lemma checked_change:
  assumes "checkSetTokenScope h st ctx tid body = Inr (change, judged)"
  shows "body = Some change \<and> ch_connections change \<noteq> Some [] \<and> ch_mcp change \<noteq> Some [] \<and> ch_admin change \<noteq> Some [] \<and>
    (TokenHoldsEverything (handler_checker h st) ctx \<and> judged = None \<or>
     JudgeTokenScopeChange (handler_checker h st) ctx tid change = Inr (True, judged))"
proof -
  from assms obtain req where body: "body = Some req" and kinds: "\<not> ch_connections req = Some []"
    "\<not> ch_mcp req = Some []" "\<not> ch_admin req = Some []"
    and chg: "requireTokenScopeChange h st ctx tid (Some req) = Inr judged" "req = change"
    by (auto simp: checkSetTokenScope_def emptyScopeKind_def Let_def split: option.splits sum.splits if_splits)
  from chg(1) have "TokenHoldsEverything (handler_checker h st) ctx \<and> judged = None \<or>
      JudgeTokenScopeChange (handler_checker h st) ctx tid req = Inr (True, judged)"
    by (auto simp: requireTokenScopeChange_def requireGrantInTokenScope_def Let_def
        split: if_splits sum.splits prod.splits option.splits)
  with body kinds chg(2) show ?thesis by auto
qed

lemma judged_by_token:
  assumes "JudgeTokenScopeChange rc ctx tid change = Inr (True, judged)" "checker_store rc = Some st"
    and "GetTokenIDFromContext ctx > 0" "store_wf st" "no_wildcard_item st"
  obtains c stored where "actorCeiling rc ctx = Some c" "\<not> tc_session c" "tc_store c = st"
    "changeWithinCeiling c stored change" "stored_from st tid stored"
    "judged = Some (newTokenScopeSnapshot (scope_conn_rows st tid) (scope_mcp_rows st tid) (scope_admin_rows st tid))"
proof -
  from assms(1) obtain c where c: "actorCeiling rc ctx = Some c" by (auto simp: JudgeTokenScopeChange_def split: option.splits)
  then have tc: "\<not> tc_session c" "tc_store c = st" using assms(2,3) by (auto simp: actorCeiling_Some)
  with assms(1) c obtain stored where "loadStoredTokenScope st tid = Inr (Some stored)"
    "changeWithinCeiling c stored change" "judged = ss_snapshot stored"
    by (auto simp: JudgeTokenScopeChange_def go_simps split: option.splits if_splits)
  then show ?thesis using that c tc loadStoredTokenScope_from[OF _ assms(4,5)] by metis
qed

lemma refusal_status:
  "requireKnownMCPPrivileges st names = Some r \<Longrightarrow> rs_status r \<noteq> 204"
  "requireTokenScopeChange h st ctx tid ch = Inl r \<Longrightarrow> rs_status r \<noteq> 204"
  "checkSetTokenScope h st ctx tid body = Inl r \<Longrightarrow> rs_status r \<noteq> 204"
  "rs_status (respondTokenWriteError e f) \<noteq> 204"
proof -
  show k: "requireKnownMCPPrivileges st names = Some r \<Longrightarrow> rs_status r \<noteq> 204" for names r
    by (induction names) (auto simp: RespondError_def split: if_splits sum.splits option.splits)
  show c: "requireTokenScopeChange h st ctx tid ch = Inl r \<Longrightarrow> rs_status r \<noteq> 204" for ch r
    by (auto simp: requireTokenScopeChange_def requireGrantInTokenScope_def deny_def Let_def
        split: if_splits sum.splits option.splits prod.splits)
  show "checkSetTokenScope h st ctx tid body = Inl r \<Longrightarrow> rs_status r \<noteq> 204"
    using k c by (auto simp: checkSetTokenScope_def RespondError_def Let_def split: option.splits if_splits sum.splits)
  show "rs_status (respondTokenWriteError e f) \<noteq> 204"
    by (simp add: respondTokenWriteError_def deny_def RespondError_def)
qed

lemma handleSetTokenScope_ok:
  assumes "handleSetTokenScope h ctx ip tid body st s = (r, s')" "rs_status r = 204"
  obtains change judged where "checkSetTokenScope h st ctx tid body = Inr (change, judged)"
    "setTokenScope (rh_env h) (ActorFromContext ctx ip) tid change (superuserOwnerAllowed h st ctx tid)
       (tokenOwnerGuard h st ctx) judged s = Inr s'"
  using assms refusal_status
  by (auto simp: handleSetTokenScope_def RespondError_def split: sum.splits if_splits)

lemma access_rank_full: "HasWriteAccess rc ctx conn \<Longrightarrow> access_rank rc ctx conn = 2"
  by (auto simp: HasWriteAccess_def access_rank_def accessLevelRank_def split: prod.splits)

text \<open>
  A written change that was judged within the acting token's ceiling, against the rows the
  transaction found again, gives the target nothing past its old scope and that ceiling.
\<close>

lemma judged_change_bounded:
  assumes "JudgeTokenScopeChange rc ctx tid change = Inr (True, judged)" "checker_store rc = Some st"
    and "GetTokenIDFromContext ctx > 0" "healthy st" "store_wf st" "no_wildcard_item st" "store_wf (as_auth s)"
    and "mcp_privilege_identifiers (as_auth s) = mcp_privilege_identifiers st"
    and conn: "connection_known rc conn" "conn \<noteq> ConnectionIDAll" and item: "m \<in> set (mcp_privilege_identifiers st)"
    and kinds: "ch_connections change \<noteq> Some []" "ch_mcp change \<noteq> Some []" "ch_admin change \<noteq> Some []"
    and set: "setTokenScope me actor tid change su owner judged s = Inr s'" and guard: "guardJudgedTokenScopeTx (as_auth s) tid judged = Inr ()"
  shows "scope_rank (as_auth s') tid conn \<le> max (scope_rank (as_auth s) tid conn) (access_rank rc ctx conn)"
    and "mcp_in_scope (as_auth s') tid (mpi_identifier m) \<Longrightarrow>
      mcp_in_scope (as_auth s) tid (mpi_identifier m) \<or> CanAccessMCPItem rc ctx (mpi_identifier m)"
    and "admin_in_scope (as_auth s') tid p \<Longrightarrow> admin_in_scope (as_auth s) tid p \<or> HasAdminPermission rc ctx p"
proof -
  note wr = written_scopes[OF set assms(7)]
  from judged_by_token[OF assms(1-3,5,6)] obtain c stored
    where c: "actorCeiling rc ctx = Some c" "\<not> tc_session c" "tc_store c = st"
    and within: "changeWithinCeiling c stored change" and from': "stored_from st tid stored"
    and judged: "judged = Some (newTokenScopeSnapshot (scope_conn_rows st tid) (scope_mcp_rows st tid)
      (scope_admin_rows st tid))" by blast
  note same = snapshot_agrees[OF guard[unfolded judged] assms(5,7,8)]
  note tc = c(1,2) assms(4-6)[folded c(3)]
  show "scope_rank (as_auth s') tid conn \<le> max (scope_rank (as_auth s) tid conn) (access_rank rc ctx conn)"
    using judged_connections[OF tc(1-4) _ _ from' conn] within kinds wr(1) same(1)
    by (cases "ch_connections change") (auto simp: scope_rank_def changeWithinCeiling_def entries_of_def split: if_splits)
  show "mcp_in_scope (as_auth s) tid (mpi_identifier m) \<or> CanAccessMCPItem rc ctx (mpi_identifier m)"
    if "mcp_in_scope (as_auth s') tid (mpi_identifier m)"
    using that judged_mcp[OF tc(1-3,5) _ from' item[folded c(3)]] within kinds wr(2,3) same(2)
    by (cases "ch_mcp change") (auto simp: changeWithinCeiling_def entries_of_def split: if_splits)
  show "admin_in_scope (as_auth s) tid p \<or> HasAdminPermission rc ctx p" if "admin_in_scope (as_auth s') tid p"
    using that judged_admin[OF tc(1-3) _ from'] within kinds wr(4,5) same(3)
    by (cases "ch_admin change") (auto simp: changeWithinCeiling_def entries_of_def split: if_splits)
qed

section \<open>Properties\<close>

text \<open>
  C31. No escalation through a token's scope. When a request made with an API token sets the
  scope of any token, its own included, and the handler answers 204, then each connection is
  in the target's scope at most at the level its scope gave when the write's transaction ran
  or at the level the acting token itself has, and each MCP item and admin permission in the
  new scope was in the old one or is one the acting token itself may use. Other requests may
  have committed between the checks, on \<open>st\<close>, and the write, on \<open>s\<close>.
\<close>

theorem put_scope_no_escalation:
  assumes "handleSetTokenScope h ctx ip tid body st s = (r, s')" "rs_status r = 204"
    and "GetTokenIDFromContext ctx > 0" "healthy st" "store_wf st" "no_wildcard_item st" "store_wf (as_auth s)"
    and "mcp_privilege_identifiers (as_auth s) = mcp_privilege_identifiers st"
    and "connection_known (handler_checker h st) conn" "conn \<noteq> ConnectionIDAll"
    and "m \<in> set (mcp_privilege_identifiers st)"
  shows "scope_rank (as_auth s') tid conn \<le>
      max (scope_rank (as_auth s) tid conn) (access_rank (handler_checker h st) ctx conn) \<and>
    (mcp_in_scope (as_auth s') tid (mpi_identifier m) \<longrightarrow> mcp_in_scope (as_auth s) tid (mpi_identifier m) \<or>
      CanAccessMCPItem (handler_checker h st) ctx (mpi_identifier m)) \<and>
    (admin_in_scope (as_auth s') tid p \<longrightarrow> admin_in_scope (as_auth s) tid p \<or>
      HasAdminPermission (handler_checker h st) ctx p)"
proof -
  let ?rc = "handler_checker h st"
  from handleSetTokenScope_ok[OF assms(1,2)] obtain change judged
    where chk: "checkSetTokenScope h st ctx tid body = Inr (change, judged)"
    and set: "setTokenScope (rh_env h) (ActorFromContext ctx ip) tid change (superuserOwnerAllowed h st ctx tid)
       (tokenOwnerGuard h st ctx) judged s = Inr s'" by blast
  note wr = written_scopes[OF set assms(7)]
  note kinds = checked_change[OF chk]
  show ?thesis
  proof (cases "TokenHoldsEverything ?rc ctx")
    case True
    from holds_everything[OF handler_checker_store assms(4-6,3) True] assms(9,11)
    have "access_rank ?rc ctx conn = 2" "CanAccessMCPItem ?rc ctx (mpi_identifier m)" "HasAdminPermission ?rc ctx p"
      using access_rank_full by blast+
    then show ?thesis by (simp add: scope_rank_def entries_rank_le_2 le_max_iff_disj)
  next
    case False
    show ?thesis
    proof (cases "scopeSteps tid change = []")
      case True
      then have "ch_mcp change = None \<and> ch_connections change = None \<and> ch_admin change = None"
        by (auto simp: scopeSteps_def split: option.splits)
      with wr(1,2,4) show ?thesis by (simp add: scope_rank_def)
    next
      case steps: False
      from False kinds have jd: "JudgeTokenScopeChange ?rc ctx tid change = Inr (True, judged)" by blast
      have guard: "guardJudgedTokenScopeTx (as_auth s) tid judged = Inr ()"
        using set steps by (auto simp: setTokenScope_def beginGuardedTokenScopeChange_def go_simps split: list.splits)
      from kinds have given: "ch_connections change \<noteq> Some []" "ch_mcp change \<noteq> Some []" "ch_admin change \<noteq> Some []" by auto
      show ?thesis
        using judged_change_bounded[OF jd handler_checker_store assms(3-11) given set guard] by blast
    qed
  qed
qed

text \<open>The example: ann's token narrows itself again.\<close>

definition sample_handler :: rbac_handler where
  "sample_handler = \<lparr>rh_lookup = Some sample_lookup, rh_lister = Some sample_lister, rh_env = sample_me\<rparr>"

definition narrow_again :: scope_change where
  "narrow_again = \<lparr>ch_connections = Some [\<lparr>sc_connection_id = 7, sc_access_level = ''read''\<rparr>],
     ch_mcp = None, ch_admin = None\<rparr>"

definition put_again :: "response \<times> audited_store" where
  "put_again = handleSetTokenScope sample_handler ann_token None 10 (Some narrow_again) sample_store sample_state"

theorem put_scope_no_escalation_witness:
  "scope_rank (as_auth (snd put_again)) 10 8 \<le>
     max (scope_rank (as_auth sample_state) 10 8) (access_rank (handler_checker sample_handler sample_store) ann_token 8)"
proof -
  have "rs_status (fst put_again) = 204" by code_simp
  moreover have "handleSetTokenScope sample_handler ann_token None 10 (Some narrow_again) sample_store sample_state =
      (fst put_again, snd put_again)" by (simp add: put_again_def)
  moreover have "GetTokenIDFromContext ann_token > 0" by code_simp
  moreover have "mcp_privilege_identifiers (as_auth sample_state) = mcp_privilege_identifiers sample_store"
    by (simp add: sample_state_def)
  moreover have "connection_known (handler_checker sample_handler sample_store) 8" by code_simp
  moreover have "no_wildcard_item sample_store" using sample_state_facts(2) by (simp add: sample_state_def)
  moreover have "hd (mcp_privilege_identifiers sample_store) \<in> set (mcp_privilege_identifiers sample_store)"
    by (simp add: sample_store_def)
  ultimately show ?thesis
    using put_scope_no_escalation[OF _ _ _ sample_healthy sample_wf _ sample_state_facts(1),
        of sample_handler ann_token None 10 "Some narrow_again" "fst put_again" "snd put_again"
          8 "hd (mcp_privilege_identifiers sample_store)" "''x''"]
    by (simp add: ConnectionIDAll_def)
qed



section \<open>A judgement is applied only to the scope it was made on\<close>

definition scopes_differ :: "auth_store \<Rightarrow> auth_store \<Rightarrow> int \<Rightarrow> bool" where
  "scopes_differ st st' tid \<longleftrightarrow>
     map_of (conn_entries (scope_conn_rows st tid)) \<noteq> map_of (conn_entries (scope_conn_rows st' tid)) \<or>
     set (scope_mcp_rows st tid) \<noteq> set (scope_mcp_rows st' tid) \<or>
     set (scope_admin_rows st tid) \<noteq> set (scope_admin_rows st' tid)"

lemma stale_guard:
  assumes "healthy st'" "store_wf st" "store_wf st'" "scopes_differ st st' tid"
  shows "guardJudgedTokenScopeTx st' tid
      (Some (newTokenScopeSnapshot (scope_conn_rows st tid) (scope_mcp_rows st tid) (scope_admin_rows st tid))) =
    Inl ErrTokenScopeChanged"
proof -
  let ?sorted = "sort_key sc_connection_id (scope_conn_rows st' tid)"
  have "\<not> maps_equal (gm_of_entries (conn_entries (scope_conn_rows st tid))) (gm_of_entries (conn_entries ?sorted))"
    if "map_of (conn_entries (scope_conn_rows st tid)) \<noteq> map_of (conn_entries (scope_conn_rows st' tid))"
    using that maps_equal_map_of[OF _ gm_of_entries_wf gm_of_entries_wf]
      map_of_stored_conns[OF scope_rows_distinct[OF assms(2)], of "scope_conn_rows st tid" tid]
      map_of_stored_conns[OF scope_rows_distinct[OF assms(3)], of ?sorted tid] by fastforce
  then show ?thesis using assms(1,4)
    by (auto simp: scopes_differ_def guardJudgedTokenScopeTx_def tokenScopeSnapshotTx_def tokenConnectionScopeTx_def
        tokenMCPScopeIDsTx_def tokenAdminScopeTx_def newTokenScopeSnapshot_def snapshot_equal_def run_read_def healthy_def)
qed

lemma checked_valid:
  assumes "checkSetTokenScope h st ctx tid body = Inr (change, judged)"
  shows "(case ch_connections change of None \<Rightarrow> Inr () | Some conns \<Rightarrow> ValidateScopedConnections conns) = Inr () \<and>
    (case ch_admin change of None \<Rightarrow> Inr () | Some perms \<Rightarrow> ValidateAdminPermissions perms) = Inr ()"
  using assms by (auto simp: checkSetTokenScope_def entries_of_def Let_def split: option.splits sum.splits if_splits)

text \<open>
  A judgement is applied only to the scope it was made on. When the change a token asks for
  was judged on one stored scope and the write's transaction finds another, the handler
  answers 409, or 403 if the owner rules refuse the write first; either way nothing is
  written and the refusal is handed to the denial audit. The caller's own token is always
  answered 409.
\<close>

theorem stale_judgement_refused:
  assumes "checkSetTokenScope h st ctx tid (Some change) = Inr (change', judged)"
    and "GetTokenIDFromContext ctx > 0" "\<not> TokenHoldsEverything (handler_checker h st) ctx"
    and "store_wf st" "no_wildcard_item st" "store_wf (as_auth s)" "healthy (as_auth s)"
    and "scopes_differ st (as_auth s) tid" "scopeSteps tid change \<noteq> []"
  shows "\<exists>r. handleSetTokenScope h ctx ip tid (Some change) st s = (r, s) \<and> rs_denial r \<noteq> None \<and>
    (rs_status r = 403 \<or> rs_status r = 409) \<and>
    (tid = GetTokenIDFromContext ctx \<and> token_owner (as_auth s) tid = Some (GetUserIDFromContext ctx) \<longrightarrow> rs_status r = 409)"
proof -
  from checked_change[OF assms(1)] assms(3) have ch: "change' = change"
    and j: "JudgeTokenScopeChange (handler_checker h st) ctx tid change = Inr (True, judged)" by auto
  from judged_by_token[OF j handler_checker_store assms(2,4,5)]
  have judged: "judged = Some (newTokenScopeSnapshot (scope_conn_rows st tid) (scope_mcp_rows st tid) (scope_admin_rows st tid))"
    by blast
  let ?su = "superuserOwnerAllowed h st ctx tid" and ?own = "tokenOwnerGuard h st ctx"
  note stale = stale_guard[OF assms(7,4,6,8), folded judged]
  have su: "guardSuperuserOwnedTokenTx (as_auth s) tid ?su \<in> {Inr (), Inl ErrSuperuserTargetForbidden}"
    using assms(7) by (auto simp: guardSuperuserOwnedTokenTx_def run_read_def healthy_def split: option.splits)
  have own: "guardTokenOwnerTx (as_auth s) tid ?own (Some change) \<in> {Inr (), Inl ErrTokenNotOwned}"
    using assms(7) by (auto simp: guardTokenOwnerTx_def storedTokenScopeTx_def tokenConnectionScopeTx_def
        tokenMCPScopeNamesTx_def tokenMCPScopeIDsTx_def tokenAdminScopeTx_def run_read_def healthy_def split: option.splits)
  have "\<exists>e. setTokenScope (rh_env h) (ActorFromContext ctx ip) tid change ?su ?own judged s = Inl e \<and>
      e \<in> {ErrSuperuserTargetForbidden, ErrTokenNotOwned, ErrTokenScopeChanged} \<and>
      (tid = GetTokenIDFromContext ctx \<and> token_owner (as_auth s) tid = Some (GetUserIDFromContext ctx) \<longrightarrow>
        e = ErrTokenScopeChanged)"
  proof -
    have self: "guardSuperuserOwnedTokenTx (as_auth s) tid ?su = Inr () \<and>
        guardTokenOwnerTx (as_auth s) tid ?own (Some change) = Inr ()"
      if "tid = GetTokenIDFromContext ctx \<and> token_owner (as_auth s) tid = Some (GetUserIDFromContext ctx)"
      using that assms(2,7) by (auto simp: guardSuperuserOwnedTokenTx_def guardTokenOwnerTx_def superuserOwnerAllowed_def
          tokenOwnerGuard_def AnyTokenOwner_def TokensOwnedBy_def run_read_def healthy_def Let_def)
    from assms(9) obtain step steps where "scopeSteps tid change = step # steps" by (cases "scopeSteps tid change") auto
    then show ?thesis using checked_valid[OF assms(1)] su own stale self assms(7)
      by (auto simp: ch setTokenScope_def beginGuardedTokenScopeChange_def run_read_def healthy_def)
  qed
  then show ?thesis using assms(1)
    by (auto simp: ch handleSetTokenScope_def respondTokenWriteError_def deny_def)
qed

text \<open>The example: between check and write the token's admin scope was narrowed.\<close>

definition raced_state :: audited_store where
  "raced_state = sample_state\<lparr>as_auth := sample_store\<lparr>token_admin_scope := (10, ''manage_probes'') # token_admin_scope sample_store\<rparr>\<rparr>"

theorem stale_judgement_refused_witness:
  "rs_status (fst (handleSetTokenScope sample_handler ann_token None 10 (Some narrow_again) sample_store raced_state)) = 409"
proof -
  have chk: "is_ok (checkSetTokenScope sample_handler sample_store ann_token 10 (Some narrow_again))" by code_simp
  then obtain change' judged where "checkSetTokenScope sample_handler sample_store ann_token 10 (Some narrow_again) = Inr (change', judged)"
    by (auto simp: is_ok_iff)
  from stale_judgement_refused[OF this, of raced_state None]
  have "\<exists>r. handleSetTokenScope sample_handler ann_token None 10 (Some narrow_again) sample_store raced_state = (r, raced_state) \<and>
      (10 = GetTokenIDFromContext ann_token \<and> token_owner (as_auth raced_state) 10 = Some (GetUserIDFromContext ann_token) \<longrightarrow>
        rs_status r = 409)"
  proof -
    have "store_wf (as_auth raced_state)" "healthy (as_auth raced_state)"
      using sample_wf sample_healthy by (simp_all add: raced_state_def sample_state_def store_wf_def healthy_def)
    moreover have "\<not> TokenHoldsEverything (handler_checker sample_handler sample_store) ann_token" by code_simp
    moreover have "GetTokenIDFromContext ann_token > 0" by code_simp
    moreover have "scopeSteps 10 narrow_again \<noteq> []" by (simp add: scopeSteps_def narrow_again_def)
    moreover have "scopes_differ sample_store (as_auth raced_state) 10"
      by (simp add: scopes_differ_def scope_admin_rows_def raced_state_def sample_state_def sample_store_def)
    moreover have "no_wildcard_item sample_store" using sample_state_facts(2) by (simp add: sample_state_def)
    ultimately show ?thesis
      using \<open>\<lbrakk>_; _; _; _; _; _; _; _\<rbrakk> \<Longrightarrow> _\<close> sample_wf by blast
  qed
  moreover have "10 = GetTokenIDFromContext ann_token" by code_simp
  moreover have "token_owner (as_auth raced_state) 10 = Some (GetUserIDFromContext ann_token)" by code_simp
  ultimately show ?thesis by auto
qed

section \<open>Tokens of superusers\<close>

definition superuser_owned :: "auth_store \<Rightarrow> int \<Rightarrow> bool" where
  "superuser_owned st tid \<longleftrightarrow>
     (\<exists>t \<in> set (tokens st). \<exists>u \<in> set (users st). tok_id t = tid \<and> usr_id u = tok_owner_id t \<and> usr_is_superuser u)"

lemma superuser_owned_guard:
  assumes "superuser_owned st tid" "store_wf st"
  shows "guardSuperuserOwnedTokenTx st tid False \<noteq> Inr ()"
proof -
  let ?rows = "[usr_is_superuser u. t \<leftarrow> tokens st, u \<leftarrow> users st, tok_id t = tid \<and> usr_id u = tok_owner_id t]"
  from assms(1) obtain t u where t: "t \<in> set (tokens st)" "u \<in> set (users st)" "tok_id t = tid" "usr_id u = tok_owner_id t"
    "usr_is_superuser u" by (auto simp: superuser_owned_def)
  have "inj_on tok_id (set (tokens st))" "inj_on usr_id (set (users st))"
    using assms(2) by (simp_all add: store_wf_def distinct_map)
  then have "t' = t \<and> u' = u" if "t' \<in> set (tokens st)" "u' \<in> set (users st)" "tok_id t' = tid" "usr_id u' = tok_owner_id t'"
    for t' u' using that t by (metis inj_onD)
  with t(5) have all: "set ?rows \<subseteq> {True}" by auto
  have "set ?rows \<noteq> {}" using t by auto
  then have "?rows \<noteq> []" by (metis list.set(1))
  then obtain rest where "?rows = True # rest" using all by (cases ?rows) auto
  then have "first_row ?rows = Some True" by (simp add: first_row_def)
  then show ?thesis by (auto simp: guardSuperuserOwnedTokenTx_def run_read_def)
qed

text \<open>
  A superuser's token is out of reach of everyone else. A caller that does not pass the
  superuser gate, and is not that very token, changes nothing of the scope of a token whose
  owner is a superuser when the transaction runs, by any method, whatever was read before.
\<close>

theorem superuser_token_protected:
  assumes "superuser_owned (as_auth s) tid" "store_wf (as_auth s)"
    and "\<not> IsSuperuser (handler_checker h st) ctx" "GetTokenIDFromContext ctx \<noteq> tid"
  shows "snd (handleTokenScopePath h ctx ip tid req st s) = s"
proof -
  have "superuserOwnerAllowed h st ctx tid = False" using assms(3,4) by (auto simp: superuserOwnerAllowed_def Let_def)
  then have "beginGuardedTokenScopeChange (as_auth s) tid (superuserOwnerAllowed h st ctx tid) owner change judged \<noteq> Inr name"
    for owner change judged name
    using superuser_owned_guard[OF assms(1,2)] by (auto simp: beginGuardedTokenScopeChange_def go_simps)
  then have "setTokenScope (rh_env h) a tid ch (superuserOwnerAllowed h st ctx tid) own judged s = Inr s' \<Longrightarrow> s' = s"
    "clearTokenScope (rh_env h) a tid (superuserOwnerAllowed h st ctx tid) own judged s \<noteq> Inr s'" for a ch own judged s'
    by (auto simp: setTokenScope_def clearTokenScope_def Let_def go_simps split: list.splits)
  then show ?thesis
    by (auto simp: handleTokenScopePath_def handleSetTokenScope_def handleClearTokenScope_def
        split: option.splits sum.splits prod.splits scope_request.splits)
qed

theorem superuser_token_protected_witness:
  "snd (handleTokenScopePath sample_handler ann_token None 20 DeleteScope sample_store sample_state) = sample_state"
proof (rule superuser_token_protected[OF _ sample_state_facts(1)])
  show "superuser_owned (as_auth sample_state) 20"
    by (simp add: superuser_owned_def sample_state_def sample_store_def)
qed code_simp+

end
