(* ===== verification/Go_Strings.thy ===== *)
theory Go_Strings
  imports Prelude
begin

text \<open>
  Go strings as lists of bytes, and what the modelled code uses of the \<^verbatim>\<open>strings\<close> package. A byte
  is a \<open>char\<close>.
\<close>

section \<open>Bytes and slices\<close>

definition byte_of :: "char \<Rightarrow> nat" where "byte_of c = of_char c"

definition squote :: char where "squote = CHR 0x27"
definition dquote :: char where "dquote = CHR 0x22"
definition backslash :: char where "backslash = CHR 0x5C"

lemmas quote_defs = squote_def dquote_def backslash_def

text \<open>\<^verbatim>\<open>strings.HasPrefix\<close>.\<close>

definition has_prefix :: "string \<Rightarrow> string \<Rightarrow> bool" where
  "has_prefix s p \<longleftrightarrow> take (length p) s = p"

text \<open>A Go slice, and \<^verbatim>\<open>strings.Index\<close> (\<open>None\<close> is -1).\<close>

definition slice :: "string \<Rightarrow> nat \<Rightarrow> nat \<Rightarrow> string" where
  "slice s i j = take (j - i) (drop i s)"

fun strings_Index :: "string \<Rightarrow> string \<Rightarrow> nat option" where
  "strings_Index [] sub = (if sub = [] then Some 0 else None)"
| "strings_Index (c # s) sub =
     (if take (length sub) (c # s) = sub then Some 0 else map_option Suc (strings_Index s sub))"

lemma strings_Index_bound: "strings_Index s sub = Some e \<Longrightarrow> e + length sub \<le> length s"
proof (induction s arbitrary: e)
  case (Cons c s)
  then show ?case
    by (auto split: if_splits option.splits) (metis length_Cons length_take min.cobounded1)
qed (simp split: if_splits)

section \<open>The strings package\<close>

text \<open>
  \<^verbatim>\<open>strings.ToUpper\<close> and \<^verbatim>\<open>ToLower\<close> map the letters of an ASCII string and otherwise apply the
  Unicode tables, which are a parameter. \<^verbatim>\<open>strings.TrimSpace\<close> removes the runes that
  \<^verbatim>\<open>unicode.IsSpace\<close> accepts, given here by their UTF-8 encodings, from both ends.
\<close>

record unicode_tables =
  uc_upper :: "string \<Rightarrow> string"
  uc_lower :: "string \<Rightarrow> string"

definition ascii_upper :: "char \<Rightarrow> char" where
  "ascii_upper c = (if CHR ''a'' \<le> c \<and> c \<le> CHR ''z'' then char_of (byte_of c - 32) else c)"

definition ascii_lower :: "char \<Rightarrow> char" where
  "ascii_lower c = (if CHR ''A'' \<le> c \<and> c \<le> CHR ''Z'' then char_of (byte_of c + 32) else c)"

definition is_ascii :: "string \<Rightarrow> bool" where
  "is_ascii s \<longleftrightarrow> list_all (\<lambda>c. byte_of c < 128) s"

definition strings_ToUpper :: "unicode_tables \<Rightarrow> string \<Rightarrow> string" where
  "strings_ToUpper uc s = (if is_ascii s then map ascii_upper s else uc_upper uc s)"

definition strings_ToLower :: "unicode_tables \<Rightarrow> string \<Rightarrow> string" where
  "strings_ToLower uc s = (if is_ascii s then map ascii_lower s else uc_lower uc s)"

definition space_runes :: "string list" where
  "space_runes =
     [[CHR '' ''], [CHR 0x09], [CHR 0x0A], [CHR 0x0B], [CHR 0x0C], [CHR 0x0D],
      [CHR 0xC2, CHR 0x85], [CHR 0xC2, CHR 0xA0], [CHR 0xE1, CHR 0x9A, CHR 0x80],
      [CHR 0xE2, CHR 0x80, CHR 0x80], [CHR 0xE2, CHR 0x80, CHR 0x81], [CHR 0xE2, CHR 0x80, CHR 0x82],
      [CHR 0xE2, CHR 0x80, CHR 0x83], [CHR 0xE2, CHR 0x80, CHR 0x84], [CHR 0xE2, CHR 0x80, CHR 0x85],
      [CHR 0xE2, CHR 0x80, CHR 0x86], [CHR 0xE2, CHR 0x80, CHR 0x87], [CHR 0xE2, CHR 0x80, CHR 0x88],
      [CHR 0xE2, CHR 0x80, CHR 0x89], [CHR 0xE2, CHR 0x80, CHR 0x8A], [CHR 0xE2, CHR 0x80, CHR 0xA8],
      [CHR 0xE2, CHR 0x80, CHR 0xA9], [CHR 0xE2, CHR 0x80, CHR 0xAF], [CHR 0xE2, CHR 0x81, CHR 0x9F],
      [CHR 0xE3, CHR 0x80, CHR 0x80]]"

definition leading_rune :: "string list \<Rightarrow> string \<Rightarrow> string option" where
  "leading_rune runes s = find (\<lambda>r. r \<noteq> [] \<and> take (length r) s = r) runes"

lemma leading_rune_shorter: "leading_rune runes s = Some r \<Longrightarrow> length (drop (length r) s) < length s"
  by (cases s) (auto simp: leading_rune_def find_Some_iff)

function trimLeadingRunes :: "string list \<Rightarrow> string \<Rightarrow> string" where
  "trimLeadingRunes runes s =
     (case leading_rune runes s of None \<Rightarrow> s | Some r \<Rightarrow> trimLeadingRunes runes (drop (length r) s))"
  by pat_completeness auto
termination
  by (relation "measure (\<lambda>(runes, s). length s)") (auto dest: leading_rune_shorter)

declare trimLeadingRunes.simps [simp del]

definition strings_TrimSpace :: "string \<Rightarrow> string" where
  "strings_TrimSpace s =
     rev (trimLeadingRunes (map rev space_runes) (rev (trimLeadingRunes space_runes s)))"

section \<open>Replacing, splitting and joining\<close>

text \<open>
  \<^verbatim>\<open>strings.ReplaceAll\<close> for a text to replace that is not empty, \<^verbatim>\<open>strings.Contains\<close>, and
  \<^verbatim>\<open>strings.Split\<close> and \<^verbatim>\<open>strings.Join\<close> for a separator of one byte.
\<close>

function strings_ReplaceAll :: "string \<Rightarrow> string \<Rightarrow> string \<Rightarrow> string" where
  "strings_ReplaceAll s old new =
     (case strings_Index s old of
        None \<Rightarrow> s
      | Some i \<Rightarrow> if old = [] then s
                 else take i s @ new @ strings_ReplaceAll (drop (i + length old) s) old new)"
  by pat_completeness auto
termination
proof (relation "measure (\<lambda>(s, old, new). length s)", goal_cases)
  case (2 s old new i)
  then have "i + length old \<le> length s" "0 < length old" using strings_Index_bound by auto
  then show ?case by (simp del: length_greater_0_conv)
qed simp

declare strings_ReplaceAll.simps [simp del]

definition strings_Contains :: "string \<Rightarrow> string \<Rightarrow> bool" where
  "strings_Contains s sub \<longleftrightarrow> strings_Index s sub \<noteq> None"

fun strings_Split :: "char \<Rightarrow> string \<Rightarrow> string list" where
  "strings_Split sep [] = [[]]"
| "strings_Split sep (c # s) =
     (if c = sep then [] # strings_Split sep s
      else case strings_Split sep s of [] \<Rightarrow> [[c]] | p # ps \<Rightarrow> (c # p) # ps)"

fun strings_Join :: "char \<Rightarrow> string list \<Rightarrow> string" where
  "strings_Join sep [] = []"
| "strings_Join sep [p] = p"
| "strings_Join sep (p # ps) = p @ sep # strings_Join sep ps"

lemma replace_byte: "strings_ReplaceAll s [c] new = concat (map (\<lambda>x. if x = c then new else [x]) s)"
proof (induction s)
  case Nil
  then show ?case by (subst strings_ReplaceAll.simps) simp
next
  case (Cons x s)
  show ?case
  proof (cases "x = c")
    case True
    then show ?thesis using Cons by (subst strings_ReplaceAll.simps) simp
  next
    case False
    have "strings_ReplaceAll (x # s) [c] new = x # strings_ReplaceAll s [c] new"
      using False by (subst (1 2) strings_ReplaceAll.simps) (auto split: option.splits)
    then show ?thesis using False Cons by simp
  qed
qed

lemma split_not_nil [simp]: "strings_Split sep s \<noteq> []"
  by (cases s) (auto split: list.splits)

lemma split_no_sep: "sep \<notin> set s \<Longrightarrow> strings_Split sep s = [s]"
  by (induction s) auto

lemma split_append_sep: "sep \<notin> set p \<Longrightarrow> strings_Split sep (p @ sep # s) = p # strings_Split sep s"
  by (induction p) auto

lemma Split_Join: "ps \<noteq> [] \<Longrightarrow> \<forall>p\<in>set ps. sep \<notin> set p \<Longrightarrow> strings_Split sep (strings_Join sep ps) = ps"
  by (induction sep ps rule: strings_Join.induct) (auto simp: split_no_sep split_append_sep)

lemma join_split: "strings_Join sep (strings_Split sep s) = s"
proof (induction s)
  case (Cons c s)
  obtain p ps where s: "strings_Split sep s = p # ps" by (cases "strings_Split sep s") auto
  have "strings_Join sep (([]::string) # p # ps) = sep # s" using Cons s by simp
  moreover have "strings_Join sep ((c # p) # ps) = c # strings_Join sep (p # ps)" by (cases ps) auto
  ultimately show ?case using Cons s by simp
qed simp

lemma index_iff: "strings_Index s sub \<noteq> None \<longleftrightarrow> (\<exists>a b. s = a @ sub @ b)"
proof (induction s)
  case Nil
  then show ?case by simp
next
  case (Cons c s)
  show ?case
  proof (cases "take (length sub) (c # s) = sub")
    case True
    then have "c # s = [] @ sub @ drop (length sub) (c # s)" by (metis append_Nil append_take_drop_id)
    then show ?thesis using True by (metis option.distinct(1) strings_Index.simps(2))
  next
    case False
    have "(\<exists>a b. c # s = a @ sub @ b) \<longleftrightarrow> (\<exists>a b. s = a @ sub @ b)"
    proof
      assume "\<exists>a b. c # s = a @ sub @ b"
      then obtain a b where ab: "c # s = a @ sub @ b" by blast
      with False have "a \<noteq> []" by (metis append_Nil append_eq_conv_conj)
      with ab show "\<exists>a b. s = a @ sub @ b" by (cases a) auto
    next
      assume "\<exists>a b. s = a @ sub @ b"
      then show "\<exists>a b. c # s = a @ sub @ b" by (metis append_Cons)
    qed
    moreover have "strings_Index (c # s) sub \<noteq> None \<longleftrightarrow> strings_Index s sub \<noteq> None" using False by simp
    ultimately show ?thesis using Cons.IH by argo
  qed
qed

lemma contains_iff: "strings_Contains s sub \<longleftrightarrow> (\<exists>a b. s = a @ sub @ b)"
  unfolding strings_Contains_def by (rule index_iff)

lemma contains_byte: "strings_Contains s [c] \<longleftrightarrow> c \<in> set s"
  by (auto simp: contains_iff in_set_conv_decomp)

lemma contains_trans: "strings_Contains s t \<Longrightarrow> strings_Contains t u \<Longrightarrow> strings_Contains s u"
  unfolding contains_iff by (metis append.assoc)

section \<open>Folding and escapes\<close>

text \<open>
  \<^verbatim>\<open>strings.EqualFold\<close> against a word in lower-case ASCII. Besides its capital, a letter folds
  with one rune outside ASCII in two cases: s with the long s and k with the Kelvin sign, given
  here by their UTF-8 encodings.
\<close>

definition fold_rune :: "char \<Rightarrow> string \<Rightarrow> nat" where
  "fold_rune c s =
     (if s \<noteq> [] \<and> ascii_lower (hd s) = c then 1
      else if c = CHR ''s'' \<and> take 2 s = [CHR 0xC5, CHR 0xBF] then 2
      else if c = CHR ''k'' \<and> take 3 s = [CHR 0xE2, CHR 0x84, CHR 0xAA] then 3
      else 0)"

fun strings_EqualFold :: "string \<Rightarrow> string \<Rightarrow> bool" where
  "strings_EqualFold s [] \<longleftrightarrow> s = []"
| "strings_EqualFold s (c # word) \<longleftrightarrow>
     fold_rune c s \<noteq> 0 \<and> strings_EqualFold (drop (fold_rune c s) s) word"

declare strings_EqualFold.simps [simp del]

text \<open>\<^verbatim>\<open>url.PathUnescape\<close>: percent escapes are decoded, and a bad one is an error.\<close>

definition hex_digit :: "char \<Rightarrow> nat option" where
  "hex_digit c =
     (if CHR ''0'' \<le> c \<and> c \<le> CHR ''9'' then Some (byte_of c - 48)
      else if CHR ''a'' \<le> c \<and> c \<le> CHR ''f'' then Some (byte_of c - 87)
      else if CHR ''A'' \<le> c \<and> c \<le> CHR ''F'' then Some (byte_of c - 55) else None)"

fun url_PathUnescape :: "string \<Rightarrow> string option" where
  "url_PathUnescape [] = Some []"
| "url_PathUnescape (c # s) =
     (if c = CHR ''%'' then
        (case s of
           a # b # r \<Rightarrow>
             (case (hex_digit a, hex_digit b) of
                (Some x, Some y) \<Rightarrow> map_option (Cons (char_of (16 * x + y))) (url_PathUnescape r)
              | _ \<Rightarrow> None)
         | _ \<Rightarrow> None)
      else map_option (Cons c) (url_PathUnescape s))"

end
