(* ===== verification/Sql_Lexer.thy ===== *)
theory Sql_Lexer
  imports Go_Strings
begin

text \<open>
  The SQL lexer of \<^verbatim>\<open>server/src/internal/sqllex\<close> (\<^verbatim>\<open>lexer.go\<close>, \<^verbatim>\<open>statements.go\<close>): where a quoted
  literal, a quoted identifier, a dollar-quoted string or a comment ends, and how a script
  splits into statements. A Go string is the list of its bytes and a byte is a \<open>char\<close>; the
  scanners work on indices, as the code does, and read \<open>s ! i\<close> only where the code has checked
  or established \<open>i < length s\<close>. The loops are recursive functions on the index, with a
  termination proof each.
\<close>

section \<open>Characters\<close>

definition IsIdentChar :: "char \<Rightarrow> bool" where
  "IsIdentChar b \<longleftrightarrow>
     (CHR ''A'' \<le> b \<and> b \<le> CHR ''Z'') \<or> (CHR ''a'' \<le> b \<and> b \<le> CHR ''z'') \<or>
     (CHR ''0'' \<le> b \<and> b \<le> CHR ''9'') \<or> b = CHR ''_'' \<or> byte_of b \<ge> 128"

definition is_digit :: "char \<Rightarrow> bool" where
  "is_digit b \<longleftrightarrow> CHR ''0'' \<le> b \<and> b \<le> CHR ''9''"

definition IsSQLNewline :: "char \<Rightarrow> bool" where
  "IsSQLNewline b \<longleftrightarrow> b = CHR 0x0A \<or> b = CHR 0x0D"

definition IsSQLSpace :: "char \<Rightarrow> bool" where
  "IsSQLSpace b \<longleftrightarrow> b = CHR '' '' \<or> b = CHR 0x09 \<or> b = CHR 0x0A \<or> b = CHR 0x0D \<or> b = CHR 0x0C \<or> b = CHR 0x0B"

definition ContinuesIdentifier :: "string \<Rightarrow> nat \<Rightarrow> bool" where
  "ContinuesIdentifier s i =
     (if i = 0 then False else let prev = s ! (i - 1) in IsIdentChar prev \<or> prev = CHR ''$'')"

text \<open>The loop to the end of a line.\<close>

definition lineEnd :: "string \<Rightarrow> nat \<Rightarrow> nat" where
  "lineEnd s i = i + length (takeWhile (\<lambda>c. \<not> IsSQLNewline c) (drop i s))"

lemma lineEnd_le: "i \<le> length s \<Longrightarrow> lineEnd s i \<le> length s"
  using length_takeWhile_le[of "\<lambda>c. \<not> IsSQLNewline c" "drop i s"] by (simp add: lineEnd_def)

lemma lineEnd_gt: "i < length s \<Longrightarrow> \<not> IsSQLNewline (s ! i) \<Longrightarrow> i < lineEnd s i"
  by (simp add: lineEnd_def Cons_nth_drop_Suc[symmetric])

lemma dash_not_newline: "s ! i = CHR ''-'' \<Longrightarrow> \<not> IsSQLNewline (s ! i)"
  by (simp add: IsSQLNewline_def)

lemma dash_line_shorter:
  "s ! i = CHR ''-'' \<Longrightarrow> i < length s \<Longrightarrow> length s - lineEnd s i < length s - i"
  using lineEnd_gt[of i s] dash_not_newline[of s i] by simp

section \<open>Dollar quotes\<close>

definition ScanDollarTag :: "string \<Rightarrow> nat \<Rightarrow> string" where
  "ScanDollarTag sql i =
     (if i \<ge> length sql \<or> sql ! i \<noteq> CHR ''$'' then ''''
      else if ContinuesIdentifier sql i then ''''
      else if i + 1 < length sql \<and> sql ! (i + 1) = CHR ''$'' then ''$$''
      else let j = i + 1 in
        if j \<ge> length sql \<or> \<not> IsIdentChar (sql ! j) \<or> is_digit (sql ! j) then ''''
        else let k = j + 1 + length (takeWhile IsIdentChar (drop (j + 1) sql)) in
          if k < length sql \<and> sql ! k = CHR ''$'' then slice sql i (k + 1) else '''')"

section \<open>Quoted literals\<close>

datatype StringReading = StandardStrings | EscapeStrings

definition StringReadings :: "StringReading list" where
  "StringReadings = [StandardStrings, EscapeStrings]"

datatype literalKind = plainLiteral | escapeLiteral | unicodeLiteral | bitLiteral | quotedIdentifier

definition literalPrefix :: "string \<Rightarrow> nat \<Rightarrow> nat \<times> literalKind" where
  "literalPrefix s i =
     (if i + 1 \<ge> length s then (0, plainLiteral)
      else let c = s ! i; d = s ! (i + 1) in
        if c \<in> {CHR ''E'', CHR ''e''} \<and> d = squote then (1, escapeLiteral)
        else if c \<in> {CHR ''B'', CHR ''b'', CHR ''X'', CHR ''x''} \<and> d = squote then (1, bitLiteral)
        else if c \<in> {CHR ''N'', CHR ''n''} \<and> d = squote then (1, plainLiteral)
        else if c \<in> {CHR ''U'', CHR ''u''} \<and> d = CHR ''&'' \<and> i + 2 < length s
        then (if s ! (i + 2) = squote then (2, unicodeLiteral)
              else if s ! (i + 2) = dquote then (2, quotedIdentifier) else (0, plainLiteral))
        else (0, plainLiteral))"

definition IsQuoteStart :: "string \<Rightarrow> nat \<Rightarrow> bool" where
  "IsQuoteStart s i =
     (if s ! i = squote \<or> s ! i = dquote then True
      else if ContinuesIdentifier s i then False
      else fst (literalPrefix s i) > 0)"

text \<open>\<open>None\<close> is the -1 of a literal that really ended.\<close>

function quoteContinuationFrom :: "string \<Rightarrow> bool \<Rightarrow> nat \<Rightarrow> nat option" where
  "quoteContinuationFrom s sawNewline i =
     (if i < length s then
        if IsSQLNewline (s ! i) then quoteContinuationFrom s True (i + 1)
        else if IsSQLSpace (s ! i) then quoteContinuationFrom s sawNewline (i + 1)
        else if s ! i = CHR ''-'' \<and> i + 1 < length s \<and> s ! (i + 1) = CHR ''-''
        then quoteContinuationFrom s sawNewline (lineEnd s i)
        else if s ! i = squote \<and> sawNewline then Some (i + 1)
        else None
      else None)"
  by pat_completeness auto
termination
  by (relation "measure (\<lambda>(s, w, i). length s - i)") (auto intro: dash_line_shorter)

declare quoteContinuationFrom.simps [simp del]

definition quoteContinuation :: "string \<Rightarrow> nat \<Rightarrow> nat option" where
  "quoteContinuation s i = quoteContinuationFrom s False i"

lemma quoteContinuationFrom_bounds:
  "quoteContinuationFrom s w i = Some j \<Longrightarrow> i < j \<and> j \<le> length s"
proof (induction s w i arbitrary: j rule: quoteContinuationFrom.induct)
  case (1 s w i)
  show ?case using "1.prems" "1.IH" lineEnd_gt[of i s, OF _ dash_not_newline]
    by (subst (asm) quoteContinuationFrom.simps) (fastforce split: if_splits)
qed

lemma quoteContinuation_bounds: "quoteContinuation s i = Some j \<Longrightarrow> i < j \<and> j \<le> length s"
  unfolding quoteContinuation_def by (rule quoteContinuationFrom_bounds)

text \<open>The loop of \<open>SkipQuoted\<close>, from just after the opening quote.\<close>

function skipQuotedFrom :: "bool \<Rightarrow> bool \<Rightarrow> bool \<Rightarrow> char \<Rightarrow> string \<Rightarrow> nat \<Rightarrow> nat" where
  "skipQuotedFrom escapes doubles continues q s i =
     (if i < length s then
        if escapes \<and> s ! i = backslash then skipQuotedFrom escapes doubles continues q s (i + 2)
        else if s ! i = q then
          if doubles \<and> i + 1 < length s \<and> s ! (i + 1) = q
          then skipQuotedFrom escapes doubles continues q s (i + 2)
          else (case (if continues then quoteContinuation s (i + 1) else None) of
                  Some j \<Rightarrow> skipQuotedFrom escapes doubles continues q s j
                | None \<Rightarrow> i + 1)
        else skipQuotedFrom escapes doubles continues q s (i + 1)
      else length s)"
  by pat_completeness auto
termination
  by (relation "measure (\<lambda>(e, d, c, q, s, i). length s - i)")
     (auto dest!: quoteContinuation_bounds simp: diff_less_mono2 split: if_splits)

declare skipQuotedFrom.simps [simp del]

definition SkipQuoted :: "string \<Rightarrow> nat \<Rightarrow> StringReading \<Rightarrow> nat" where
  "SkipQuoted s i reading =
     (let (len, kind) =
        (if s ! i = squote then (0, plainLiteral)
         else if s ! i = dquote then (0, quotedIdentifier)
         else literalPrefix s i) in
      if len = 0 \<and> s ! i \<noteq> squote \<and> s ! i \<noteq> dquote then i + 1
      else skipQuotedFrom (kind = escapeLiteral \<or> kind = plainLiteral \<and> reading = EscapeStrings)
             (kind \<noteq> bitLiteral) (kind \<noteq> quotedIdentifier) (s ! (i + len)) s (i + len + 1))"

section \<open>Comments\<close>

function skipBlockCommentFrom :: "string \<Rightarrow> nat \<Rightarrow> nat \<Rightarrow> nat" where
  "skipBlockCommentFrom s depth i =
     (if i < length s \<and> depth > 0 then
        if s ! i = CHR ''/'' \<and> i + 1 < length s \<and> s ! (i + 1) = CHR ''*''
        then skipBlockCommentFrom s (depth + 1) (i + 2)
        else if s ! i = CHR ''*'' \<and> i + 1 < length s \<and> s ! (i + 1) = CHR ''/''
        then skipBlockCommentFrom s (depth - 1) (i + 2)
        else skipBlockCommentFrom s depth (i + 1)
      else i)"
  by pat_completeness auto
termination
  by (relation "measure (\<lambda>(s, d, i). length s - i)") auto

declare skipBlockCommentFrom.simps [simp del]

definition skipBlockComment :: "string \<Rightarrow> nat \<Rightarrow> nat" where
  "skipBlockComment s i = skipBlockCommentFrom s 1 (i + 2)"

definition lineCommentAt :: "string \<Rightarrow> nat \<Rightarrow> bool" where
  "lineCommentAt s i \<longleftrightarrow> s ! i = CHR ''-'' \<and> i + 1 < length s \<and> s ! (i + 1) = CHR ''-''"

definition blockCommentAt :: "string \<Rightarrow> nat \<Rightarrow> bool" where
  "blockCommentAt s i \<longleftrightarrow> s ! i = CHR ''/'' \<and> i + 1 < length s \<and> s ! (i + 1) = CHR ''*''"

section \<open>The step every scan shares\<close>

definition SkipNonCode :: "string \<Rightarrow> nat \<Rightarrow> StringReading \<Rightarrow> nat" where
  "SkipNonCode s i reading =
     (if IsQuoteStart s i then SkipQuoted s i reading
      else let tag = ScanDollarTag s i in
        if tag \<noteq> '''' then
          (case strings_Index (drop (i + length tag) s) tag of
             None \<Rightarrow> length s
           | Some e \<Rightarrow> i + length tag + e + length tag)
        else if lineCommentAt s i then lineEnd s i
        else if blockCommentAt s i then skipBlockComment s i
        else i)"

section \<open>Masking and splitting\<close>

text \<open>
  The scan that \<open>MaskNonCode\<close>, \<open>SplitStatements\<close> and the classifiers run: at each index
  either a non-code region is jumped over or one byte of code is read. A region never ends
  before it starts.
\<close>

definition escapedAt :: "bool \<Rightarrow> string \<Rightarrow> nat \<Rightarrow> bool" where
  "escapedAt e s i \<longleftrightarrow> e \<and> s ! i = backslash"

definition doubledAt :: "bool \<Rightarrow> char \<Rightarrow> string \<Rightarrow> nat \<Rightarrow> bool" where
  "doubledAt d q s i \<longleftrightarrow> d \<and> i + 1 < length s \<and> s ! (i + 1) = q"

definition resumesAt :: "bool \<Rightarrow> string \<Rightarrow> nat \<Rightarrow> nat option" where
  "resumesAt c s i = (if c then quoteContinuation s (i + 1) else None)"

lemma skipQuotedFrom_step:
  "skipQuotedFrom e d c q s i =
     (if i < length s then
        if escapedAt e s i then skipQuotedFrom e d c q s (i + 2)
        else if s ! i = q then
          if doubledAt d q s i then skipQuotedFrom e d c q s (i + 2)
          else (case resumesAt c s i of Some j \<Rightarrow> skipQuotedFrom e d c q s j | None \<Rightarrow> i + 1)
        else skipQuotedFrom e d c q s (i + 1)
      else length s)"
  unfolding escapedAt_def doubledAt_def resumesAt_def by (rule skipQuotedFrom.simps)

lemma resumesAt_bounds: "resumesAt c s i = Some j \<Longrightarrow> i + 1 < j \<and> j \<le> length s"
  using quoteContinuation_bounds[of s "i + 1" j] by (auto simp: resumesAt_def split: if_splits)

text \<open>Induction along the loop of \<open>SkipQuoted\<close>, one case per way it moves on.\<close>

lemma skipQuotedFrom_induct [case_names past escape doubled resume stop other]:
  assumes "\<And>i. length s \<le> i \<Longrightarrow> P i"
    and "\<And>i. i < length s \<Longrightarrow> escapedAt e s i \<Longrightarrow> P (i + 2) \<Longrightarrow> P i"
    and "\<And>i. i < length s \<Longrightarrow> \<not> escapedAt e s i \<Longrightarrow> s ! i = q \<Longrightarrow> doubledAt d q s i \<Longrightarrow> P (i + 2) \<Longrightarrow> P i"
    and "\<And>i j. i < length s \<Longrightarrow> \<not> escapedAt e s i \<Longrightarrow> s ! i = q \<Longrightarrow> \<not> doubledAt d q s i \<Longrightarrow>
      resumesAt c s i = Some j \<Longrightarrow> P j \<Longrightarrow> P i"
    and "\<And>i. i < length s \<Longrightarrow> \<not> escapedAt e s i \<Longrightarrow> s ! i = q \<Longrightarrow> \<not> doubledAt d q s i \<Longrightarrow>
      resumesAt c s i = None \<Longrightarrow> P i"
    and "\<And>i. i < length s \<Longrightarrow> \<not> escapedAt e s i \<Longrightarrow> s ! i \<noteq> q \<Longrightarrow> P (i + 1) \<Longrightarrow> P i"
  shows "P i"
proof (induction "length s - i" arbitrary: i rule: less_induct)
  case less
  have smaller: "P k" if "i < k" "i < length s" for k using less[of k] that by simp
  show ?case
  proof (cases "i < length s")
    case True
    show ?thesis
    proof (cases "escapedAt e s i \<or> s ! i \<noteq> q \<or> doubledAt d q s i")
      case True
      then show ?thesis using assms(2,3,6) smaller \<open>i < length s\<close> by (metis less_add_same_cancel1 zero_less_numeral zero_less_one)
    next
      case False
      then show ?thesis using assms(4,5) smaller resumesAt_bounds \<open>i < length s\<close>
        by (metis add_lessD1 option.exhaust)
    qed
  qed (simp add: assms(1))
qed

lemma skipQuotedFrom_bounds:
  "min i (length s) \<le> skipQuotedFrom e d c q s i \<and> skipQuotedFrom e d c q s i \<le> length s"
proof (induction i rule: skipQuotedFrom_induct[where s = s and e = e and d = d and c = c and q = q])
  case (resume i j)
  then show ?case using resumesAt_bounds[of c s i j] by (subst (1 2) skipQuotedFrom_step) auto
qed (subst (1 2) skipQuotedFrom_step; auto)+

lemma skipBlockCommentFrom_bounds:
  "i \<le> length s \<Longrightarrow> i \<le> skipBlockCommentFrom s depth i \<and> skipBlockCommentFrom s depth i \<le> length s"
proof (induction s depth i rule: skipBlockCommentFrom.induct)
  case (1 s depth i)
  show ?case using "1.prems" "1.IH" by (subst (1 2) skipBlockCommentFrom.simps) (auto simp: Suc_le_eq)
qed

lemma literalPrefix_bound: "literalPrefix s i = (len, kind) \<Longrightarrow> i < length s \<Longrightarrow> i + len < length s"
  by (auto simp: literalPrefix_def Let_def split: if_splits)

lemma SkipQuoted_bounds:
  assumes "i < length s"
  shows "i < SkipQuoted s i r \<and> SkipQuoted s i r \<le> length s"
proof -
  obtain len kind where p: "(if s ! i = squote then (0, plainLiteral) else if s ! i = dquote then (0, quotedIdentifier)
      else literalPrefix s i) = (len, kind)" by fastforce
  then have "i + len < length s" using assms literalPrefix_bound by (auto split: if_splits)
  then show ?thesis
    using assms skipQuotedFrom_bounds[of "i + len + 1" s] by (auto simp: SkipQuoted_def p) (meson Suc_le_lessD le_add1 le_trans not_less_eq_eq)+
qed

lemma ScanDollarTag_bound: "ScanDollarTag s i \<noteq> [] \<Longrightarrow> i + length (ScanDollarTag s i) \<le> length s"
  by (auto simp: ScanDollarTag_def slice_def Let_def split: if_splits)

lemma SkipNonCode_bounds:
  assumes "i < length s"
  shows "i \<le> SkipNonCode s i r \<and> SkipNonCode s i r \<le> length s"
proof -
  let ?tag = "ScanDollarTag s i"
  have "strings_Index (drop (i + length ?tag) s) ?tag = Some e \<Longrightarrow> ?tag \<noteq> [] \<Longrightarrow> i + length ?tag + e + length ?tag \<le> length s" for e
    using strings_Index_bound[of "drop (i + length ?tag) s" ?tag e] ScanDollarTag_bound[of s i] by simp
  moreover have "i \<le> lineEnd s i" by (simp add: lineEnd_def)
  moreover have "blockCommentAt s i \<Longrightarrow> i \<le> skipBlockComment s i \<and> skipBlockComment s i \<le> length s"
    using skipBlockCommentFrom_bounds[of "i + 2" s 1] by (auto simp: skipBlockComment_def blockCommentAt_def)
  ultimately show ?thesis
    using assms SkipQuoted_bounds[OF assms, of r] lineEnd_le[of i s]
    by (auto simp: SkipNonCode_def Let_def split: option.splits)
qed

lemma skip_shorter:
  "i < length s \<Longrightarrow> SkipNonCode s i r \<noteq> i \<Longrightarrow> length s - SkipNonCode s i r < length s - i"
  using SkipNonCode_bounds[of i s r] by linarith

text \<open>The loops over a statement, from an index on.\<close>

function maskFrom :: "StringReading \<Rightarrow> string \<Rightarrow> nat \<Rightarrow> string" where
  "maskFrom r s i =
     (if i < length s then
        let j = SkipNonCode s i r in
        if j = i then s ! i # maskFrom r s (i + 1)
        else replicate (j - i) (CHR '' '') @ maskFrom r s j
      else [])"
  by pat_completeness auto
termination
  by (relation "measure (\<lambda>(r, s, i). length s - i)") (auto intro: skip_shorter)

declare maskFrom.simps [simp del]

definition MaskNonCode :: "string \<Rightarrow> StringReading \<Rightarrow> string" where
  "MaskNonCode s r = maskFrom r s 0"

function skipSpaceAndComments :: "string \<Rightarrow> nat \<Rightarrow> nat" where
  "skipSpaceAndComments s i =
     (if i < length s then
        if IsSQLSpace (s ! i) then skipSpaceAndComments s (i + 1)
        else if lineCommentAt s i then skipSpaceAndComments s (lineEnd s i)
        else if blockCommentAt s i then skipSpaceAndComments s (skipBlockComment s i)
        else i
      else i)"
  by pat_completeness auto
termination
proof (relation "measure (\<lambda>(s, i). length s - i)", goal_cases)
  case (4 s i)
  then have "i + 2 \<le> skipBlockComment s i"
    using skipBlockCommentFrom_bounds[of "i + 2" s 1] by (auto simp: skipBlockComment_def blockCommentAt_def)
  with 4 show ?case by auto
qed (auto simp: lineCommentAt_def intro: dash_line_shorter)

declare skipSpaceAndComments.simps [simp del]

definition StripLeadingComments :: "string \<Rightarrow> string" where
  "StripLeadingComments s = drop (skipSpaceAndComments s 0) s"

definition HasOnlyComments :: "string \<Rightarrow> bool" where
  "HasOnlyComments s \<longleftrightarrow> skipSpaceAndComments s 0 = length s"

section \<open>Statements\<close>

definition FirstKeyword :: "unicode_tables \<Rightarrow> string \<Rightarrow> string" where
  "FirstKeyword uc sql =
     (let start = skipSpaceAndComments sql 0;
          e = start + length (takeWhile IsIdentChar (drop start sql)) in
      strings_ToUpper uc (slice sql start e))"

text \<open>The parts between the semicolons that are code, before they are trimmed and filtered.\<close>

function splitFrom :: "StringReading \<Rightarrow> string \<Rightarrow> nat \<Rightarrow> nat \<Rightarrow> string list" where
  "splitFrom r sql start i =
     (if i < length sql then
        let j = SkipNonCode sql i r in
        if j \<noteq> i then splitFrom r sql start j
        else if sql ! i = CHR '';'' then slice sql start i # splitFrom r sql (i + 1) (i + 1)
        else splitFrom r sql start (i + 1)
      else [drop start sql])"
  by pat_completeness auto
termination
  by (relation "measure (\<lambda>(r, sql, start, i). length sql - i)") (auto intro: skip_shorter)

declare splitFrom.simps [simp del]

definition SplitStatements :: "string \<Rightarrow> StringReading \<Rightarrow> string list" where
  "SplitStatements sql r =
     filter (\<lambda>part. part \<noteq> [] \<and> \<not> HasOnlyComments part) (map strings_TrimSpace (splitFrom r sql 0 0))"

end
