(* ===== verification/Group_Handlers.thy ===== *)
theory Group_Handlers
  imports Group_Mutation_Facts Token_Scope_Handler_Facts Sql_Lexer
begin

text \<open>
  The HTTP handlers of \<^verbatim>\<open>/api/v1/rbac/groups\<close> that change something: groups and memberships
  (\<^verbatim>\<open>api/rbac_group_handlers.go\<close>), grants (\<^verbatim>\<open>api/rbac_group_privilege_handlers.go\<close>), the
  checks of \<^verbatim>\<open>api/rbac_grant_scope.go\<close> and \<^verbatim>\<open>api/name_validation.go\<close>. As for token scopes
  a handler checks the request on one state and writes on another, since other requests may
  commit in between; the audited mutations are those of \<open>Group_Mutations\<close> and
  \<open>Grant_Mutations\<close>. A body that does not decode is \<open>None\<close>, and so is a path segment that is
  not a number. The handlers that only read are not modelled.
\<close>

section \<open>Names\<close>

definition MaxDisplayNameLength :: nat where "MaxDisplayNameLength = 255"

text \<open>
  The JSON decoder only yields valid UTF-8, where every rune has exactly one byte that does
  not continue another.
\<close>

definition rune_count :: "string \<Rightarrow> nat" where
  "rune_count s = length (filter (\<lambda>ch. \<not> (128 \<le> (of_char ch :: nat) \<and> (of_char ch :: nat) < 192)) s)"

definition display_char :: "char \<Rightarrow> bool" where
  "display_char ch \<longleftrightarrow> (let n = (of_char ch :: nat) in
     65 \<le> n \<and> n \<le> 90 \<or> 97 \<le> n \<and> n \<le> 122 \<or> 48 \<le> n \<and> n \<le> 57 \<or> ch \<in> set '' ._()-'')"

definition ErrNameRequired :: string where "ErrNameRequired = ''Name is required''"
definition ErrNameTooLong :: string where "ErrNameTooLong = ''Name must be 255 characters or fewer''"
definition ErrNameInvalidChars :: string where
  "ErrNameInvalidChars = ''Name may only contain letters, numbers, spaces, and the characters . _ - ( )''"

text \<open>\<open>None\<close> is a nil error.\<close>

definition ValidateDisplayName :: "string \<Rightarrow> string option" where
  "ValidateDisplayName name =
     (let trimmed = strings_TrimSpace name in
      if trimmed = [] then Some ErrNameRequired
      else if rune_count name > MaxDisplayNameLength \<or> rune_count trimmed > MaxDisplayNameLength then Some ErrNameTooLong
      else if \<not> list_all display_char trimmed then Some ErrNameInvalidChars
      else None)"

section \<open>The handler\<close>

text \<open>
  The fixed parts: the RBAC handler of the token routes, the environment of the audited
  mutations, and the OIDC group map from provider groups to group names, which is a
  parameter; \<open>None\<close> is a handler without a source for it.
\<close>

record group_api =
  ga_rbac :: rbac_handler
  ga_env :: group_env
  ga_group_map :: "(string \<times> string) list option"

definition api_checker :: "group_api \<Rightarrow> group_state \<Rightarrow> rbac_checker option" where
  "api_checker h st = handler_checker (ga_rbac h) (as_auth st)"

definition federatedGroups :: "group_api \<Rightarrow> string set" where
  "federatedGroups h = (case ga_group_map h of None \<Rightarrow> {} | Some m \<Rightarrow> {g \<in> set (map snd m). g \<noteq> ''''})"

definition PermManageGroups :: permission where "PermManageGroups = ''manage_groups''"
definition PermManagePermissions :: permission where "PermManagePermissions = ''manage_permissions''"

definition quoted :: "string \<Rightarrow> string \<Rightarrow> string" where
  "quoted a b = a @ [CHR 39] @ b"

definition refuseConnectionGrant :: string where
  "refuseConnectionGrant = quoted ''Permission denied: the connection access being granted exceeds this token'' ''s access''"
definition refuseConnectionRevoke :: string where
  "refuseConnectionRevoke = quoted (''Permission denied: removing access to a connection needs read access to it, '' @
     ''and removing its last grant needs read_write, within this token'') ''s access''"
definition refuseMCPGrant :: string where
  "refuseMCPGrant = quoted ''Permission denied: the MCP privilege being granted is outside this token'' ''s access''"
definition refuseAdminGrant :: string where
  "refuseAdminGrant = quoted ''Permission denied: the admin permission being granted exceeds this token''
     (''s access; granting one also needs every connection at read_write, and granting one that manages users, '' @
      ''groups, permissions or token scopes needs every MCP privilege and admin permission too'')"
definition refuseGroupAccess :: string where
  "refuseGroupAccess = quoted (quoted ''Permission denied: the group'' ''s access exceeds this token'') ''s access''"
definition refuseGroupRemoval :: string where
  "refuseGroupRemoval = quoted (quoted ''Permission denied: removing the group'' (''s access needs read access to each of its '' @
     ''connections, and read_write on any whose last grant it holds, within this token'')) ''s access''"
definition refuseFederated :: string where
  "refuseFederated = quoted (quoted ''Permission denied: changing a group the OIDC group map names needs a superuser''
     (''s token with unrestricted scope, which exceeds this token'')) ''s access''"

definition requireSuperuser :: "rbac_checker option \<Rightarrow> request_ctx \<Rightarrow> response option" where
  "requireSuperuser rc ctx = (if \<not> IsSuperuser rc ctx then Some (deny 403 notSuperuser) else None)"

definition GetGroup :: "group_state \<Rightarrow> int \<Rightarrow> (group_snapshot option) res" where
  "GetGroup st gid = groupSnapshotTx st gid"

section \<open>Groups\<close>

definition federatedNameInTokenScope :: "group_api \<Rightarrow> group_state \<Rightarrow> request_ctx \<Rightarrow> string \<Rightarrow> bool" where
  "federatedNameInTokenScope h st ctx name \<longleftrightarrow>
     name \<notin> federatedGroups h \<or> TokenHoldsEverything (api_checker h st) ctx"

definition requireRenameInTokenScope :: "group_api \<Rightarrow> group_state \<Rightarrow> request_ctx \<Rightarrow> int \<Rightarrow> string \<Rightarrow> response option" where
  "requireRenameInTokenScope h st ctx groupID name =
     (if TokenHoldsEverything (api_checker h st) ctx then None
      else case GetGroup st groupID of
        Inl _ \<Rightarrow> Some (deny 500 ''Failed to get group'')
      | Inr None \<Rightarrow> None
      | Inr (Some group') \<Rightarrow>
          if gsn_name group' = name then None
          else if gsn_name group' \<in> federatedGroups h \<or> name \<in> federatedGroups h
          then requireGrantInTokenScope False refuseFederated
          else requireGrantInTokenScope (GroupWithinTokenScope (api_checker h st) ctx groupID) refuseGroupAccess)"

definition requireGroupDeleteInTokenScope :: "group_api \<Rightarrow> group_state \<Rightarrow> request_ctx \<Rightarrow> int \<Rightarrow> response option" where
  "requireGroupDeleteInTokenScope h st ctx groupID =
     (if federatedGroups h = {} \<or> TokenHoldsEverything (api_checker h st) ctx then None
      else case GetGroup st groupID of
        Inl _ \<Rightarrow> Some (deny 500 ''Failed to get group'')
      | Inr None \<Rightarrow> None
      | Inr (Some group') \<Rightarrow> requireGrantInTokenScope (gsn_name group' \<notin> federatedGroups h) refuseFederated)"

text \<open>
  The handlers take the state the checks read and the state the write's transaction finds.
  A first refusal ends the request.
\<close>

fun first_refusal :: "response option list \<Rightarrow> response option" where
  "first_refusal [] = None"
| "first_refusal (None # rest) = first_refusal rest"
| "first_refusal (Some r # rest) = Some r"

definition guarded :: "response option list \<Rightarrow> group_state \<Rightarrow> (response \<times> group_state) \<Rightarrow> response \<times> group_state" where
  "guarded checks s result = (case first_refusal checks of Some r \<Rightarrow> (r, s) | None \<Rightarrow> result)"

definition respondWrite :: "string \<Rightarrow> group_state \<Rightarrow> group_state res \<Rightarrow> response \<times> group_state" where
  "respondWrite failure s result =
     (case result of Inl _ \<Rightarrow> (RespondError 500 (Text failure), s) | Inr s' \<Rightarrow> (NoContent, s'))"

definition badBody :: response where
  "badBody = RespondError 400 (Text ''Invalid request body'')"

definition handleCreateGroup ::
  "group_api \<Rightarrow> request_ctx \<Rightarrow> string option \<Rightarrow> (string \<times> string) option \<Rightarrow> group_state \<Rightarrow> group_state \<Rightarrow>
     response \<times> group_state" where
  "handleCreateGroup h ctx ip body st s =
     guarded [requirePermission (api_checker h st) ctx PermManageGroups] s
       (case body of
          None \<Rightarrow> (badBody, s)
        | Some (rawName, description) \<Rightarrow>
            let name = strings_TrimSpace rawName in
            guarded [map_option (\<lambda>e. RespondError 400 (Text e)) (ValidateDisplayName name),
                     requireGrantInTokenScope (federatedNameInTokenScope h st ctx name) refuseFederated] s
              (case createGroup (ga_env h) (ActorFromContext ctx ip) name description s of
                 Inl e \<Rightarrow> ((if e = ErrGroupNameExists
                            then RespondError 409 (Text ''A group with this name already exists'')
                            else RespondError 500 (Text ''Failed to create group'')), s)
               | Inr (groupID, s') \<Rightarrow>
                   (\<lparr>rs_status = 201, rs_message = CreatedBody groupID name, rs_denial = None\<rparr>, s')))"

text \<open>After the update has committed the group is read again, and that read may fail.\<close>

definition handleUpdateGroup ::
  "group_api \<Rightarrow> request_ctx \<Rightarrow> string option \<Rightarrow> int \<Rightarrow> (string \<times> string) option \<Rightarrow> group_state \<Rightarrow> group_state \<Rightarrow>
     response \<times> group_state" where
  "handleUpdateGroup h ctx ip groupID body st s =
     guarded [requirePermission (api_checker h st) ctx PermManageGroups] s
       (case body of
          None \<Rightarrow> (badBody, s)
        | Some (rawName, description) \<Rightarrow>
            let name = strings_TrimSpace rawName in
            if name = [] \<and> description = []
            then (RespondError 400 (Text ''At least one of name or description is required''), s)
            else guarded (if name = [] then []
                          else [map_option (\<lambda>e. RespondError 400 (Text e)) (ValidateDisplayName name),
                                requireRenameInTokenScope h st ctx groupID name]) s
              (case updateGroup (ga_env h) (ActorFromContext ctx ip) groupID name description s of
                 Inl e \<Rightarrow> ((if e = ErrGroupNameExists
                            then RespondError 409 (Text ''A group with this name already exists'')
                            else if e = ErrGroupNotFound then RespondError 404 (Text ''Group not found'')
                            else RespondError 500 (Text ''Failed to update group'')), s)
               | Inr s' \<Rightarrow>
                   ((case GetGroup s' groupID of
                       Inl _ \<Rightarrow> RespondError 500 (Text ''Failed to retrieve updated group'')
                     | Inr found \<Rightarrow> \<lparr>rs_status = 200,
                         rs_message = GroupBody (map_option (\<lambda>g. (gsn_id g, gsn_name g, gsn_description g)) found),
                         rs_denial = None\<rparr>), s')))"

definition handleDeleteGroup ::
  "group_api \<Rightarrow> request_ctx \<Rightarrow> string option \<Rightarrow> int \<Rightarrow> group_state \<Rightarrow> group_state \<Rightarrow> response \<times> group_state" where
  "handleDeleteGroup h ctx ip groupID st s =
     (let rc = api_checker h st in
      guarded [requirePermission rc ctx PermManageGroups,
               requireGrantInTokenScope (CanDeleteGroup rc ctx groupID) refuseGroupRemoval,
               requireGroupDeleteInTokenScope h st ctx groupID] s
        (case deleteGroup (ga_env h) (ActorFromContext ctx ip) groupID (GroupDeleteLiftGuard rc ctx groupID) s of
           Inl e \<Rightarrow> ((if e = ErrRevokeLiftsRestriction then deny 403 refuseGroupRemoval
                      else RespondError 500 (Text ''Failed to delete group'')), s)
         | Inr s' \<Rightarrow> (NoContent, s')))"

section \<open>Members\<close>

definition addGroupMember ::
  "group_api \<Rightarrow> request_ctx \<Rightarrow> string option \<Rightarrow> int \<Rightarrow> (int option \<times> int option) option \<Rightarrow> group_state \<Rightarrow> group_state \<Rightarrow>
     response \<times> group_state" where
  "addGroupMember h ctx ip groupID body st s =
     (case body of
        None \<Rightarrow> (badBody, s)
      | Some (None, None) \<Rightarrow> (RespondError 400 (Text ''Either user_id or group_id is required''), s)
      | Some (Some u, Some g) \<Rightarrow> (RespondError 400 (Text ''Only one of user_id or group_id may be specified''), s)
      | Some (Some u, None) \<Rightarrow>
          guarded [requireGrantInTokenScope (GroupWithinTokenScope (api_checker h st) ctx groupID) refuseGroupAccess] s
            (respondWrite ''Failed to add user to group'' s
               (addUserToGroup (ga_env h) (ActorFromContext ctx ip) groupID u s))
      | Some (None, Some g) \<Rightarrow>
          guarded [requireGrantInTokenScope (GroupWithinTokenScope (api_checker h st) ctx groupID) refuseGroupAccess] s
            (respondWrite ''Failed to add group to group'' s
               (addGroupToGroup (ga_env h) (ActorFromContext ctx ip) groupID g s)))"

definition removeGroupMember ::
  "group_api \<Rightarrow> request_ctx \<Rightarrow> string option \<Rightarrow> int \<Rightarrow> string \<Rightarrow> int \<Rightarrow> group_state \<Rightarrow> group_state \<Rightarrow>
     response \<times> group_state" where
  "removeGroupMember h ctx ip groupID memberType memberID st s =
     (if memberType \<noteq> ''user'' \<and> memberType \<noteq> ''group''
      then (RespondError 400 (Text (''Invalid member type: must be '' @ [CHR 39] @ ''user'' @ [CHR 39] @ '' or '' @
              [CHR 39] @ ''group'' @ [CHR 39])), s)
      else guarded [requireGrantInTokenScope (CanRemoveGroupMember (api_checker h st) ctx groupID) refuseGroupRemoval] s
        (if memberType = ''user''
         then respondWrite ''Failed to remove user from group'' s
                (removeUserFromGroup (ga_env h) (ActorFromContext ctx ip) groupID memberID s)
         else respondWrite ''Failed to remove group from group'' s
                (removeGroupFromGroup (ga_env h) (ActorFromContext ctx ip) groupID memberID s)))"

section \<open>Grants\<close>

definition grantGroupMCP ::
  "group_api \<Rightarrow> request_ctx \<Rightarrow> string option \<Rightarrow> int \<Rightarrow> mcp_name option \<Rightarrow> group_state \<Rightarrow> group_state \<Rightarrow>
     response \<times> group_state" where
  "grantGroupMCP h ctx ip groupID body st s =
     (case body of
        None \<Rightarrow> (badBody, s)
      | Some privilege \<Rightarrow>
          if privilege = [] then (RespondError 400 (Text ''Privilege is required''), s)
          else guarded [requireGrantInTokenScope (CanGrantMCPItem (api_checker h st) ctx privilege) refuseMCPGrant] s
            (respondWrite ''Failed to grant MCP privilege'' s
               (grantMCPPrivilegeByName (ga_env h) (ActorFromContext ctx ip) groupID privilege s)))"

definition revokeGroupMCP ::
  "group_api \<Rightarrow> request_ctx \<Rightarrow> string option \<Rightarrow> int \<Rightarrow> mcp_name \<Rightarrow> group_state \<Rightarrow> response \<times> group_state" where
  "revokeGroupMCP h ctx ip groupID privilege s =
     (if privilege = []
      then (RespondError 400 (Text (''Query parameter '' @ [CHR 39] @ ''name'' @ [CHR 39] @ '' is required'')), s)
      else respondWrite ''Failed to revoke MCP privilege'' s
             (revokeMCPPrivilegeByName (ga_env h) (ActorFromContext ctx ip) groupID privilege s))"

definition grantGroupConnection ::
  "group_api \<Rightarrow> request_ctx \<Rightarrow> string option \<Rightarrow> int \<Rightarrow> (conn_id \<times> access_level) option \<Rightarrow> group_state \<Rightarrow> group_state \<Rightarrow>
     response \<times> group_state" where
  "grantGroupConnection h ctx ip groupID body st s =
     (case body of
        None \<Rightarrow> (badBody, s)
      | Some (connID, level) \<Rightarrow>
          if connID < 0 then (RespondError 400 (Text ''Valid connection_id is required''), s)
          else if level \<noteq> ''read'' \<and> level \<noteq> ''read_write''
          then (RespondError 400 (Text (''access_level must be '' @ [CHR 39] @ ''read'' @ [CHR 39] @ '' or '' @
                  [CHR 39] @ ''read_write'' @ [CHR 39])), s)
          else guarded [requireGrantInTokenScope (CanGrantConnection (api_checker h st) ctx connID level)
                          refuseConnectionGrant] s
            (respondWrite ''Failed to grant connection privilege'' s
               (grantConnectionPrivilege (ga_env h) (ActorFromContext ctx ip) groupID connID level s)))"

definition revokeGroupConnection ::
  "group_api \<Rightarrow> request_ctx \<Rightarrow> string option \<Rightarrow> int \<Rightarrow> conn_id option \<Rightarrow> group_state \<Rightarrow> group_state \<Rightarrow>
     response \<times> group_state" where
  "revokeGroupConnection h ctx ip groupID segment st s =
     (let rc = api_checker h st in
      case segment of
        None \<Rightarrow> (RespondError 400 (Text ''Invalid connection ID''), s)
      | Some connID \<Rightarrow>
          guarded [requireGrantInTokenScope (CanRevokeConnection rc ctx groupID connID) refuseConnectionRevoke] s
            (case revokeConnectionPrivilege (ga_env h) (ActorFromContext ctx ip) groupID connID
                    (Some (ConnectionLiftGuard rc ctx [connID])) s of
               Inl e \<Rightarrow> ((if e = ErrRevokeLiftsRestriction then deny 403 refuseConnectionRevoke
                          else RespondError 500 (Text ''Failed to revoke connection privilege'')), s)
             | Inr s' \<Rightarrow> (NoContent, s')))"

definition grantGroupPermission ::
  "group_api \<Rightarrow> request_ctx \<Rightarrow> string option \<Rightarrow> int \<Rightarrow> permission option \<Rightarrow> group_state \<Rightarrow> group_state \<Rightarrow>
     response \<times> group_state" where
  "grantGroupPermission h ctx ip groupID body st s =
     (case body of
        None \<Rightarrow> (badBody, s)
      | Some perm \<Rightarrow>
          if perm = [] then (RespondError 400 (Text ''Permission is required''), s)
          else guarded [requireGrantInTokenScope (CanGrantAdminPermission (api_checker h st) ctx perm) refuseAdminGrant] s
            (respondWrite ''Failed to grant permission'' s
               (grantAdminPermission (ga_env h) (ActorFromContext ctx ip) groupID perm s)))"

definition revokeGroupPermission ::
  "group_api \<Rightarrow> request_ctx \<Rightarrow> string option \<Rightarrow> int \<Rightarrow> permission \<Rightarrow> group_state \<Rightarrow> response \<times> group_state" where
  "revokeGroupPermission h ctx ip groupID perm s =
     respondWrite ''Failed to revoke permission'' s
       (revokeAdminPermission (ga_env h) (ActorFromContext ctx ip) groupID perm s)"

section \<open>Routes\<close>

text \<open>
  The routes of \<open>handleGroups\<close> and \<open>handleGroupSubpath\<close> that change something. \<open>RemoveMember\<close>
  carries the member's type and id of the path.
\<close>

datatype group_request =
    PostGroup "(string \<times> string) option"
  | PutGroup int "(string \<times> string) option"
  | DeleteGroupPath int
  | PostMember int "(int option \<times> int option) option"
  | DeleteMember int string "int option"
  | PostMCP int "mcp_name option"
  | DeleteMCP int mcp_name
  | PostConnection int "(conn_id \<times> access_level) option"
  | DeleteConnection int "conn_id option"
  | PostPermission int "permission option"
  | DeletePermission int permission

definition handleGroupMembers ::
  "group_api \<Rightarrow> request_ctx \<Rightarrow> group_state \<Rightarrow> group_state \<Rightarrow> response \<times> group_state \<Rightarrow> response \<times> group_state" where
  "handleGroupMembers h ctx st s act = guarded [requirePermission (api_checker h st) ctx PermManageGroups] s act"

definition handleGroupPrivileges ::
  "group_api \<Rightarrow> request_ctx \<Rightarrow> group_state \<Rightarrow> group_state \<Rightarrow> response \<times> group_state \<Rightarrow> response \<times> group_state" where
  "handleGroupPrivileges h ctx st s act = guarded [requirePermission (api_checker h st) ctx PermManagePermissions] s act"

definition handleGroupPermissions ::
  "group_api \<Rightarrow> request_ctx \<Rightarrow> group_state \<Rightarrow> group_state \<Rightarrow> response \<times> group_state \<Rightarrow> response \<times> group_state" where
  "handleGroupPermissions h ctx st s act = guarded [requireSuperuser (api_checker h st) ctx] s act"

fun handleGroupRequest ::
  "group_api \<Rightarrow> request_ctx \<Rightarrow> string option \<Rightarrow> group_request \<Rightarrow> group_state \<Rightarrow> group_state \<Rightarrow> response \<times> group_state" where
  "handleGroupRequest h ctx ip (PostGroup body) st s = handleCreateGroup h ctx ip body st s"
| "handleGroupRequest h ctx ip (PutGroup g body) st s = handleUpdateGroup h ctx ip g body st s"
| "handleGroupRequest h ctx ip (DeleteGroupPath g) st s = handleDeleteGroup h ctx ip g st s"
| "handleGroupRequest h ctx ip (PostMember g body) st s =
     handleGroupMembers h ctx st s (addGroupMember h ctx ip g body st s)"
| "handleGroupRequest h ctx ip (DeleteMember g ty mid) st s = handleGroupMembers h ctx st s
     (case mid of None \<Rightarrow> (RespondError 400 (Text ''Invalid member ID''), s)
      | Some m \<Rightarrow> removeGroupMember h ctx ip g ty m st s)"
| "handleGroupRequest h ctx ip (PostMCP g body) st s = handleGroupPrivileges h ctx st s (grantGroupMCP h ctx ip g body st s)"
| "handleGroupRequest h ctx ip (DeleteMCP g name) st s = handleGroupPrivileges h ctx st s (revokeGroupMCP h ctx ip g name s)"
| "handleGroupRequest h ctx ip (PostConnection g body) st s =
     handleGroupPrivileges h ctx st s (grantGroupConnection h ctx ip g body st s)"
| "handleGroupRequest h ctx ip (DeleteConnection g c) st s =
     handleGroupPrivileges h ctx st s (revokeGroupConnection h ctx ip g c st s)"
| "handleGroupRequest h ctx ip (PostPermission g body) st s =
     handleGroupPermissions h ctx st s (grantGroupPermission h ctx ip g body st s)"
| "handleGroupRequest h ctx ip (DeletePermission g perm) st s =
     handleGroupPermissions h ctx st s (revokeGroupPermission h ctx ip g perm s)"

end
