(* ===== verification/Group_Handler_Facts.thy ===== *)
theory Group_Handler_Facts
  imports Group_Handlers
begin

text \<open>
  What a request to the group routes can and cannot do. Every request that changes something
  is one audited mutation, made under the permission its route asks for and the check of the
  token's ceiling that belongs to it; so a token hands nobody more than it can do itself, and
  no token opens a connection it cannot write to.
\<close>

section \<open>A request is a checked mutation\<close>

text \<open>The permission a route asks for, and the audit action and group of what it does.\<close>

fun request_gate :: "rbac_checker option \<Rightarrow> request_ctx \<Rightarrow> group_request \<Rightarrow> bool" where
  "request_gate rc ctx (PostGroup b) = HasAdminPermission rc ctx ''manage_groups''"
| "request_gate rc ctx (PutGroup g b) = HasAdminPermission rc ctx ''manage_groups''"
| "request_gate rc ctx (DeleteGroupPath g) = HasAdminPermission rc ctx ''manage_groups''"
| "request_gate rc ctx (PostMember g b) = HasAdminPermission rc ctx ''manage_groups''"
| "request_gate rc ctx (DeleteMember g ty m) = HasAdminPermission rc ctx ''manage_groups''"
| "request_gate rc ctx (PostMCP g b) = HasAdminPermission rc ctx ''manage_permissions''"
| "request_gate rc ctx (DeleteMCP g n) = HasAdminPermission rc ctx ''manage_permissions''"
| "request_gate rc ctx (PostConnection g b) = HasAdminPermission rc ctx ''manage_permissions''"
| "request_gate rc ctx (DeleteConnection g c) = HasAdminPermission rc ctx ''manage_permissions''"
| "request_gate rc ctx (PostPermission g b) = IsSuperuser rc ctx"
| "request_gate rc ctx (DeletePermission g p) = IsSuperuser rc ctx"

fun request_action :: "group_request \<Rightarrow> string" where
  "request_action (PostGroup b) = ''group.create''"
| "request_action (PutGroup g b) = ''group.update''"
| "request_action (DeleteGroupPath g) = ''group.delete''"
| "request_action (PostMember g b) = ''group.member.add''"
| "request_action (DeleteMember g ty m) = ''group.member.remove''"
| "request_action (PostMCP g b) = ''privilege.mcp.grant''"
| "request_action (DeleteMCP g n) = ''privilege.mcp.revoke''"
| "request_action (PostConnection g b) = ''privilege.connection.grant''"
| "request_action (DeleteConnection g c) = ''privilege.connection.revoke''"
| "request_action (PostPermission g b) = ''permission.admin.grant''"
| "request_action (DeletePermission g p) = ''permission.admin.revoke''"

fun request_group :: "group_request \<Rightarrow> int option" where
  "request_group (PostGroup b) = None"
| "request_group (PutGroup g b) = Some g"
| "request_group (DeleteGroupPath g) = Some g"
| "request_group (PostMember g b) = Some g"
| "request_group (DeleteMember g ty m) = Some g"
| "request_group (PostMCP g b) = Some g"
| "request_group (DeleteMCP g n) = Some g"
| "request_group (PostConnection g b) = Some g"
| "request_group (DeleteConnection g c) = Some g"
| "request_group (PostPermission g b) = Some g"
| "request_group (DeletePermission g p) = Some g"

text \<open>What the ceiling of the caller allowed when a mutation runs for a request.\<close>

fun op_checked :: "rbac_checker option \<Rightarrow> request_ctx \<Rightarrow> group_op \<Rightarrow> bool" where
  "op_checked rc ctx (AddUserToGroup g u) = GroupWithinTokenScope rc ctx g"
| "op_checked rc ctx (AddGroupToGroup p c) = GroupWithinTokenScope rc ctx p"
| "op_checked rc ctx (GrantMCPPrivilegeByName g n) = CanGrantMCPItem rc ctx n"
| "op_checked rc ctx (GrantConnectionPrivilege g c l) = CanGrantConnection rc ctx c l"
| "op_checked rc ctx (GrantAdminPermission g p) = CanGrantAdminPermission rc ctx p"
| "op_checked rc ctx (DeleteGroup g guard) = (guard = GroupDeleteLiftGuard rc ctx g)"
| "op_checked rc ctx (RevokeConnectionPrivilege g c guard) = (guard = Some (ConnectionLiftGuard rc ctx [c]))"
| "op_checked rc ctx (GrantMCPPrivilege g p) = False"
| "op_checked rc ctx (RevokeMCPPrivilege g p) = False"
| "op_checked rc ctx op = True"

lemmas handler_defs = handleCreateGroup_def handleUpdateGroup_def handleDeleteGroup_def addGroupMember_def
  removeGroupMember_def grantGroupMCP_def revokeGroupMCP_def grantGroupConnection_def revokeGroupConnection_def
  grantGroupPermission_def revokeGroupPermission_def handleGroupMembers_def handleGroupPrivileges_def
  handleGroupPermissions_def

lemmas check_defs = requirePermission_def requireSuperuser_def requireGrantInTokenScope_def PermManageGroups_def
  PermManagePermissions_def

text \<open>A request took effect, or says it did.\<close>

definition effective :: "group_state \<Rightarrow> response \<Rightarrow> group_state \<Rightarrow> bool" where
  "effective s r s' \<longleftrightarrow> s' \<noteq> s \<or> rs_status r < 400"

text \<open>A check that refuses says so with an error status.\<close>

definition refuses :: "response option \<Rightarrow> bool" where
  "refuses c \<longleftrightarrow> (\<forall>r. c = Some r \<longrightarrow> 400 \<le> rs_status r)"

lemma refuses_simps [simp]:
  "refuses (requirePermission rc ctx p)" "refuses (requireSuperuser rc ctx)" "refuses (requireGrantInTokenScope b m)"
  "refuses (map_option (\<lambda>e. RespondError 400 (Text e)) v)"
  "refuses (requireRenameInTokenScope h st ctx g n)" "refuses (requireGroupDeleteInTokenScope h st ctx g)"
  by (auto simp: refuses_def check_defs requireRenameInTokenScope_def requireGroupDeleteInTokenScope_def deny_def
      RespondError_def split: if_splits sum.splits option.splits)

lemma guarded_effective:
  assumes "guarded checks s result = (r, s')" "effective s r s'" "\<forall>c \<in> set checks. refuses c"
  shows "(\<forall>c \<in> set checks. c = None) \<and> result = (r, s')"
proof -
  have "first_refusal checks = Some r' \<Longrightarrow> 400 \<le> rs_status r'" for r'
    using assms(3) by (induction checks rule: first_refusal.induct) (auto simp: refuses_def)
  moreover have "first_refusal checks = None \<Longrightarrow> \<forall>c \<in> set checks. c = None"
    by (induction checks rule: first_refusal.induct) auto
  ultimately show ?thesis using assms(1,2)
    by (auto simp: guarded_def effective_def split: option.splits)
qed

lemma respondWrite_effective:
  "respondWrite f s result = (r, s') \<Longrightarrow> effective s r s' \<Longrightarrow> result = Inr s' \<and> r = NoContent"
  by (auto simp: respondWrite_def effective_def RespondError_def split: sum.splits)

lemma error_effective [simp]:
  "400 \<le> n \<Longrightarrow> \<not> effective s (RespondError n m) s" "400 \<le> n \<Longrightarrow> \<not> effective s (deny n m') s" "\<not> effective s badBody s"
  by (simp_all add: effective_def RespondError_def deny_def badBody_def)

lemma no_denial [simp]: "rs_denial (RespondError n m) = None" "rs_denial NoContent = None"
  by (simp_all add: RespondError_def NoContent_def)

lemma checks_passed [simp]:
  "requirePermission rc ctx p = None \<longleftrightarrow> HasAdminPermission rc ctx p" "requireSuperuser rc ctx = None \<longleftrightarrow> IsSuperuser rc ctx"
  "requireGrantInTokenScope b m = None \<longleftrightarrow> b"
  by (simp_all add: check_defs)

lemma create_effective:
  assumes "handleCreateGroup h ctx ip body st s = (r, s')" "effective s r s'"
  shows "\<exists>n d gid. createGroup (ga_env h) (ActorFromContext ctx ip) n d s = Inr (gid, s') \<and> rs_denial r = None \<and>
    HasAdminPermission (api_checker h st) ctx ''manage_groups''"
  using assms by (auto simp: handleCreateGroup_def PermManageGroups_def Let_def split: option.splits sum.splits if_splits
      dest!: guarded_effective) blast+

lemma update_effective:
  assumes "handleUpdateGroup h ctx ip g body st s = (r, s')" "effective s r s'"
  shows "\<exists>n d. updateGroup (ga_env h) (ActorFromContext ctx ip) g n d s = Inr s' \<and> rs_denial r = None \<and>
    HasAdminPermission (api_checker h st) ctx ''manage_groups''"
  using assms by (auto simp: handleUpdateGroup_def PermManageGroups_def Let_def split: option.splits sum.splits if_splits
      dest!: guarded_effective) blast+

lemma delete_effective:
  assumes "handleDeleteGroup h ctx ip g st s = (r, s')" "effective s r s'"
  shows "deleteGroup (ga_env h) (ActorFromContext ctx ip) g (GroupDeleteLiftGuard (api_checker h st) ctx g) s = Inr s' \<and>
    rs_denial r = None \<and> HasAdminPermission (api_checker h st) ctx ''manage_groups''"
  using assms by (auto simp: handleDeleteGroup_def PermManageGroups_def Let_def split: option.splits sum.splits if_splits
      dest!: guarded_effective)

text \<open>The operation a request runs, with the check its handler made.\<close>

definition runs_op :: "group_api \<Rightarrow> request_ctx \<Rightarrow> string option \<Rightarrow> group_request \<Rightarrow> group_state \<Rightarrow> group_state \<Rightarrow>
    group_state \<Rightarrow> group_op \<Rightarrow> bool" where
  "runs_op h ctx ip req st s s' op \<longleftrightarrow> run_op (ga_env h) (ActorFromContext ctx ip) op s = Inr s' \<and>
     op_checked (api_checker h st) ctx op \<and> op_action op = request_action req \<and> op_group op = request_group req"

lemma member_effective:
  assumes "addGroupMember h ctx ip g b st s = (r, s')" "effective s r s'"
  shows "\<exists>op. runs_op h ctx ip (PostMember g b) st s s' op \<and> rs_denial r = None"
proof -
  have "runs_op h ctx ip (PostMember g b) st s s' (AddUserToGroup g u) \<and> rs_denial r = None" if "b = Some (Some u, None)" for u
    using assms that by (auto simp: addGroupMember_def runs_op_def dest!: guarded_effective respondWrite_effective)
  moreover have "runs_op h ctx ip (PostMember g b) st s s' (AddGroupToGroup g c) \<and> rs_denial r = None" if "b = Some (None, Some c)" for c
    using assms that by (auto simp: addGroupMember_def runs_op_def dest!: guarded_effective respondWrite_effective)
  ultimately show ?thesis using assms by (cases b) (auto simp: addGroupMember_def split: option.splits)
qed

lemma unmember_effective:
  assumes "removeGroupMember h ctx ip g ty m st s = (r, s')" "effective s r s'"
  shows "\<exists>op. runs_op h ctx ip (DeleteMember g ty mid) st s s' op \<and> rs_denial r = None"
proof -
  have "runs_op h ctx ip (DeleteMember g ty mid) st s s' (RemoveUserFromGroup g m) \<and> rs_denial r = None" if "ty = ''user''"
    using assms that by (auto simp: removeGroupMember_def runs_op_def dest!: guarded_effective respondWrite_effective)
  moreover have "runs_op h ctx ip (DeleteMember g ty mid) st s s' (RemoveGroupFromGroup g m) \<and> rs_denial r = None" if "ty = ''group''"
    using assms that by (auto simp: removeGroupMember_def runs_op_def dest!: guarded_effective respondWrite_effective)
  ultimately show ?thesis using assms by (auto simp: removeGroupMember_def split: if_splits)
qed

lemma mcp_effective:
  "grantGroupMCP h ctx ip g b st s = (r, s') \<Longrightarrow> effective s r s' \<Longrightarrow>
     (\<exists>n. runs_op h ctx ip (PostMCP g b) st s s' (GrantMCPPrivilegeByName g n)) \<and> rs_denial r = None"
  "revokeGroupMCP h ctx ip g n s = (r, s') \<Longrightarrow> effective s r s' \<Longrightarrow>
     runs_op h ctx ip (DeleteMCP g n) st s s' (RevokeMCPPrivilegeByName g n) \<and> rs_denial r = None"
  by (auto simp: grantGroupMCP_def revokeGroupMCP_def runs_op_def split: option.splits if_splits
      dest!: guarded_effective respondWrite_effective)

lemma connection_effective:
  "grantGroupConnection h ctx ip g b st s = (r, s') \<Longrightarrow> effective s r s' \<Longrightarrow>
     (\<exists>c l. runs_op h ctx ip (PostConnection g b) st s s' (GrantConnectionPrivilege g c l)) \<and> rs_denial r = None"
  "revokeGroupConnection h ctx ip g cid st s = (r, s') \<Longrightarrow> effective s r s' \<Longrightarrow>
     (\<exists>c guard. runs_op h ctx ip (DeleteConnection g cid) st s s' (RevokeConnectionPrivilege g c guard)) \<and> rs_denial r = None"
  by (auto simp: grantGroupConnection_def revokeGroupConnection_def runs_op_def Let_def split: option.splits if_splits sum.splits
      dest!: guarded_effective respondWrite_effective) blast+

lemma permission_effective:
  "grantGroupPermission h ctx ip g b st s = (r, s') \<Longrightarrow> effective s r s' \<Longrightarrow>
     (\<exists>p. runs_op h ctx ip (PostPermission g b) st s s' (GrantAdminPermission g p)) \<and> rs_denial r = None"
  "revokeGroupPermission h ctx ip g p s = (r, s') \<Longrightarrow> effective s r s' \<Longrightarrow>
     runs_op h ctx ip (DeletePermission g p) st s s' (RevokeAdminPermission g p) \<and> rs_denial r = None"
  by (auto simp: grantGroupPermission_def revokeGroupPermission_def runs_op_def split: option.splits if_splits
      dest!: guarded_effective respondWrite_effective)

lemma subpath_effective:
  "handleGroupMembers h ctx st s act = (r, s') \<Longrightarrow> effective s r s' \<Longrightarrow>
     HasAdminPermission (api_checker h st) ctx ''manage_groups'' \<and> act = (r, s')"
  "handleGroupPrivileges h ctx st s act = (r, s') \<Longrightarrow> effective s r s' \<Longrightarrow>
     HasAdminPermission (api_checker h st) ctx ''manage_permissions'' \<and> act = (r, s')"
  "handleGroupPermissions h ctx st s act = (r, s') \<Longrightarrow> effective s r s' \<Longrightarrow>
     IsSuperuser (api_checker h st) ctx \<and> act = (r, s')"
  by (auto simp: handleGroupMembers_def handleGroupPrivileges_def handleGroupPermissions_def PermManageGroups_def
      PermManagePermissions_def dest!: guarded_effective)

lemma request_op:
  assumes "handleGroupRequest h ctx ip req st s = (r, s')" "effective s r s'"
  shows "(\<exists>op. runs_op h ctx ip req st s s' op) \<and> request_gate (api_checker h st) ctx req \<and> rs_denial r = None"
proof (cases req)
  case (PostGroup b)
  then obtain n d gid where "createGroup (ga_env h) (ActorFromContext ctx ip) n d s = Inr (gid, s')" "rs_denial r = None"
    "HasAdminPermission (api_checker h st) ctx ''manage_groups''" using assms create_effective[of h ctx ip b st s r s'] by auto
  then show ?thesis using PostGroup by (auto simp: runs_op_def intro!: exI[of _ "CreateGroup n d"])
next
  case (PutGroup g b)
  then obtain n d where "updateGroup (ga_env h) (ActorFromContext ctx ip) g n d s = Inr s'" "rs_denial r = None"
    "HasAdminPermission (api_checker h st) ctx ''manage_groups''" using assms update_effective[of h ctx ip g b st s r s'] by auto
  then show ?thesis using PutGroup by (auto simp: runs_op_def intro!: exI[of _ "UpdateGroup g n d"])
next
  case (DeleteGroupPath g)
  then show ?thesis using assms delete_effective[of h ctx ip g st s r s']
    by (auto simp: runs_op_def intro!: exI[of _ "DeleteGroup g (GroupDeleteLiftGuard (api_checker h st) ctx g)"])
next
  case (DeleteMember g ty mid)
  then show ?thesis using assms by (auto dest!: subpath_effective unmember_effective split: option.splits)
qed (use assms in \<open>auto dest!: subpath_effective dest: member_effective mcp_effective connection_effective permission_effective\<close>)

section \<open>What a mutation can add\<close>

lemma op_new_conns:
  assumes "op_writes op s = Inr t" "(g, c, l) \<in> set (connection_privileges (as_auth t))"
  shows "(g, c, l) \<in> set (connection_privileges (as_auth s)) \<or> op = GrantConnectionPrivilege g c l"
  using assms by (cases op) (auto simp: write_defs go_simps Let_def on_auth_def split: if_splits)

lemma op_new_items:
  assumes "op_writes op s = Inr t" "(g, p) \<in> set (group_mcp_privileges (as_auth t))"
  shows "(g, p) \<in> set (group_mcp_privileges (as_auth s)) \<or> op = GrantMCPPrivilege g p \<or>
    (\<exists>n. op = GrantMCPPrivilegeByName g n \<and> resolvePrivilege s n = Inr p)"
  using assms by (cases op) (auto simp: write_defs go_simps Let_def on_auth_def split: if_splits)

lemma op_new_permissions:
  assumes "op_writes op s = Inr t" "(g, p) \<in> set (group_admin_permissions (as_auth t))"
  shows "(g, p) \<in> set (group_admin_permissions (as_auth s)) \<or> op = GrantAdminPermission g p"
  using assms by (cases op) (auto simp: write_defs go_simps Let_def on_auth_def split: if_splits)

lemma op_registry: "op_writes op s = Inr t \<Longrightarrow> mcp_privilege_identifiers (as_auth t) = mcp_privilege_identifiers (as_auth s)"
  by (cases op) (auto simp: write_defs go_simps Let_def on_auth_def split: if_splits)

text \<open>The group a mutation lets new members into.\<close>

fun op_joined :: "group_op \<Rightarrow> int option" where
  "op_joined (AddUserToGroup g u) = Some g"
| "op_joined (AddGroupToGroup p c) = Some p"
| "op_joined op = None"

lemma op_new_members:
  assumes "op_writes op s = Inr t" "m \<in> set (group_memberships (as_auth t))"
  shows "m \<in> set (group_memberships (as_auth s)) \<or> op_joined op = Some (gm_parent_group_id m)"
  using assms by (cases op) (auto simp: write_defs go_simps Let_def on_auth_def split: if_splits)

text \<open>Whoever is in a group after a mutation was in it before, or reaches it through the group joined.\<close>

lemma op_new_in_group:
  assumes "op_writes op s = Inr t" "in_group (as_auth t) u g"
  shows "in_group (as_auth s) u g \<or> (\<exists>j. op_joined op = Some j \<and> g \<in> set (ancestor_groups (as_auth s) j))"
  using assms(2)
proof induction
  case (direct m)
  then show ?case using op_new_members[OF assms(1) direct(1)] in_group.direct[of m "as_auth s" u]
    by (auto simp: set_ancestor_groups)
next
  case (nested g m)
  show ?case
  proof (cases "m \<in> set (group_memberships (as_auth s))")
    case True
    then have "(g, gm_parent_group_id m) \<in> set (parent_edges (as_auth s))" using nested(3) by (auto simp: set_parent_edges)
    then show ?thesis using nested(3,4) True in_group.nested[of "as_auth s" u g m]
      by (auto simp: set_ancestor_groups intro: rtrancl_into_rtrancl)
  qed (use op_new_members[OF assms(1) nested(2)] in \<open>auto simp: set_ancestor_groups\<close>)
qed

end
