(* ===== verification/Group_Request_Facts.thy ===== *)
theory Group_Request_Facts
  imports Group_Handler_Facts
begin

text \<open>
  The properties of the group routes: every effective request passed its gate and is in the
  audit log, a token's request hands nobody more than the token can do, and a token opens no
  connection it cannot write to.
\<close>

section \<open>What the groups of a user grant\<close>

text \<open>The level a user's groups grant on a connection, the grants on all connections included, as a rank.\<close>

definition held_rank :: "auth_store \<Rightarrow> int \<Rightarrow> conn_id \<Rightarrow> nat" where
  "held_rank st uid conn =
     (case resolveConnectionAccess (user_conns st uid) conn of (l, ok) \<Rightarrow> if ok then accessLevelRank l else 0)"

definition holds_item :: "auth_store \<Rightarrow> int \<Rightarrow> mcp_name \<Rightarrow> bool" where
  "holds_item st uid name \<longleftrightarrow> name \<in> user_mcp st uid \<or> mcpScopeWildcard \<in> user_mcp st uid"

definition holds_permission :: "auth_store \<Rightarrow> int \<Rightarrow> permission \<Rightarrow> bool" where
  "holds_permission st uid perm \<longleftrightarrow> perm \<in> user_admin st uid \<or> AdminPermissionWildcard \<in> user_admin st uid"

lemma highest_grant_rank:
  assumes "\<forall>(c, l) \<in> set rows. valid_level l"
  shows "(case highest_grant rows c of None \<Rightarrow> 0 | Some l \<Rightarrow> accessLevelRank l) \<le> n \<longleftrightarrow>
    (\<forall>l. (c, l) \<in> set rows \<longrightarrow> accessLevelRank l \<le> n)"
  using assms by (auto simp: highest_grant_def valid_level_def)

lemma held_rank_le:
  assumes "store_wf st"
  shows "held_rank st uid conn \<le> n \<longleftrightarrow> (\<forall>g d l. in_group st uid g \<and> (g, d, l) \<in> set (connection_privileges st) \<and>
    (d = conn \<or> d = ConnectionIDAll) \<longrightarrow> accessLevelRank l \<le> n)"
proof -
  let ?rows = "conn_rows_of st (user_groups_of st uid)"
  let ?at = "\<lambda>c. case map_of (user_conns st uid) c of None \<Rightarrow> 0 | Some l \<Rightarrow> accessLevelRank l"
  have valid: "map_of (user_conns st uid) c = Some l \<Longrightarrow> valid_level l" for c l
    using highest_grant_valid by (auto simp: map_of_user_conns[OF assms])
  obtain l ok where r: "resolveConnectionAccess (user_conns st uid) conn = (l, ok)" by fastforce
  have "held_rank st uid conn = max (?at conn) (?at ConnectionIDAll)"
  proof (cases ok)
    case True
    with r resolve_rank[of "user_conns st uid" conn l] valid show ?thesis by (simp add: held_rank_def)
  next
    case False
    with r resolve_ok_iff[of "user_conns st uid" conn] show ?thesis by (simp add: held_rank_def)
  qed
  also have "\<dots> \<le> n \<longleftrightarrow> (\<forall>l. (conn, l) \<in> set ?rows \<longrightarrow> accessLevelRank l \<le> n) \<and>
      (\<forall>l. (ConnectionIDAll, l) \<in> set ?rows \<longrightarrow> accessLevelRank l \<le> n)"
    using highest_grant_rank[OF conn_rows_valid[OF assms]] by (simp add: map_of_user_conns[OF assms])
  finally show ?thesis by (auto simp: set_conn_rows_of set_user_groups_of)
qed

section \<open>What a caller may grant\<close>

lemma can_grant_rank:
  assumes "checker_store rc = Some st" "healthy st" "store_wf st" "GetTokenIDFromContext ctx > 0"
    and "CanGrantConnection rc ctx d l" "d = conn \<or> d = ConnectionIDAll" "connection_known rc conn" "conn \<noteq> ConnectionIDAll"
  shows "accessLevelRank l \<le> access_rank rc ctx conn"
  using can_grant_held[OF assms] by (auto simp: access_rank_def)

lemma can_grant_item:
  assumes "checker_store rc = Some st" "healthy st" "no_wildcard_item st" "GetTokenIDFromContext ctx > 0"
    and "CanGrantMCPItem rc ctx n" "m \<in> set (mcp_privilege_identifiers st)" "n = mpi_identifier m \<or> n = mcpScopeWildcard"
  shows "CanAccessMCPItem rc ctx (mpi_identifier m)"
proof -
  from assms(5) obtain c where c: "actorCeiling rc ctx = Some c" "coversMCP c n"
    by (auto simp: CanGrantMCPItem_def split: option.splits)
  then have tc: "tc_store c = st" "\<not> tc_session c" "tc_rc c = rc" "tc_ctx c = ctx"
    using assms(1,4) by (auto simp: actorCeiling_Some)
  show ?thesis using c assms(6,7) holdsAllMCP_covers[OF c(1) tc(2), unfolded tc, OF assms(2,3) _ assms(6)]
    by (auto simp: coversMCP_def tc split: if_splits)
qed

lemma can_grant_permission:
  assumes "checker_store rc = Some st" "healthy st" "GetTokenIDFromContext ctx > 0"
    and "actorCeiling rc ctx = Some c" "coversAdmin c perm" "perm = p \<or> perm = AdminPermissionWildcard"
  shows "HasAdminPermission rc ctx p"
  using coversAdmin_has[OF assms(4) _ _ assms(5,6)] assms(1-4) by (auto simp: actorCeiling_Some)

lemma may_grant_permission:
  assumes "checker_store rc = Some st" "healthy st" "GetTokenIDFromContext ctx > 0"
    and "CanGrantAdminPermission rc ctx perm" "perm = p \<or> perm = AdminPermissionWildcard"
  shows "HasAdminPermission rc ctx p"
proof -
  from assms(4) obtain c where c: "actorCeiling rc ctx = Some c" "coversReach c (no_reach\<lparr>pr_admin := {perm}\<rparr>) None"
    by (auto simp: CanGrantAdminPermission_def split: option.splits)
  then have "holdsAllAdmin c \<or> coversAdmin c perm" by (auto simp: coversReach_def coversReachAdmin_def split: if_splits)
  then show ?thesis using holdsAllAdmin_has[OF c(1)] can_grant_permission[OF assms(1-3) c(1) _ assms(5)] assms(1-3) c(1)
    by (auto simp: actorCeiling_Some)
qed

section \<open>The effect of a checked mutation on what users hold\<close>

text \<open>
  A mutation that a token's request runs on the tables its checks have read. The rules below
  bound, for each kind of right, what a user holds afterwards.
\<close>

definition checked_run :: "rbac_checker option \<Rightarrow> request_ctx \<Rightarrow> group_op \<Rightarrow> group_state \<Rightarrow> group_state \<Rightarrow> bool" where
  "checked_run rc ctx op s t \<longleftrightarrow> op_writes op s = Inr t \<and> op_checked rc ctx op \<and> checker_store rc = Some (as_auth s) \<and>
     healthy (as_auth s) \<and> group_wf s \<and> group_wf t \<and> no_wildcard_item (as_auth s) \<and> GetTokenIDFromContext ctx > 0"

lemma joined_checked: "op_checked rc ctx op \<Longrightarrow> op_joined op = Some j \<Longrightarrow> GroupWithinTokenScope rc ctx j"
  by (cases op) auto

lemma group_conns_ge:
  assumes "store_wf st" "g \<in> set (ancestor_groups st j)" "(g, d, l) \<in> set (connection_privileges st)"
  shows "\<exists>k. map_of (group_conns st j) d = Some k \<and> accessLevelRank l \<le> accessLevelRank k"
proof -
  have row: "(d, l) \<in> set (conn_rows_of st (ancestor_groups st j))" using assms(2,3) by (auto simp: set_conn_rows_of)
  moreover have "valid_level l" using row conn_rows_valid[OF assms(1), of "ancestor_groups st j"] by auto
  ultimately show ?thesis unfolding map_of_group_conns[OF assms(1)] by (auto simp: highest_grant_def valid_level_def)
qed

lemma checked_conns:
  assumes "checked_run rc ctx op s t" "connection_known rc conn" "conn \<noteq> ConnectionIDAll"
  shows "held_rank (as_auth t) u conn \<le> max (held_rank (as_auth s) u conn) (access_rank rc ctx conn)"
proof -
  from assms(1) have w: "op_writes op s = Inr t" "op_checked rc ctx op" and rc: "checker_store rc = Some (as_auth s)"
    "healthy (as_auth s)" "store_wf (as_auth s)" "no_wildcard_item (as_auth s)" "GetTokenIDFromContext ctx > 0"
    and wf: "store_wf (as_auth t)" by (auto simp: checked_run_def group_wf_def)
  note grantable = can_grant_rank[OF rc(1-3,5) _ _ assms(2,3)]
  have "accessLevelRank l \<le> max (held_rank (as_auth s) u conn) (access_rank rc ctx conn)"
    if row: "in_group (as_auth t) u g" "(g, d, l) \<in> set (connection_privileges (as_auth t))"
      and d: "d = conn \<or> d = ConnectionIDAll" for g d l
  proof (cases "op = GrantConnectionPrivilege g d l")
    case True
    then show ?thesis using w(2) grantable[OF _ d, of l] by (simp add: le_max_iff_disj)
  next
    case False
    then have old: "(g, d, l) \<in> set (connection_privileges (as_auth s))" using op_new_conns[OF w(1) row(2)] by simp
    from op_new_in_group[OF w(1) row(1)] show ?thesis
    proof
      assume "in_group (as_auth s) u g"
      then show ?thesis using held_rank_le[OF rc(3), of u conn "held_rank (as_auth s) u conn"] old d
        by (auto simp: le_max_iff_disj)
    next
      assume "\<exists>j. op_joined op = Some j \<and> g \<in> set (ancestor_groups (as_auth s) j)"
      then obtain j where j: "op_joined op = Some j" "g \<in> set (ancestor_groups (as_auth s) j)" by blast
      obtain k where k: "map_of (group_conns (as_auth s) j) d = Some k" "accessLevelRank l \<le> accessLevelRank k"
        using group_conns_ge[OF rc(3) j(2) old] by blast
      have "CanGrantConnection rc ctx d k"
        using group_within_covers(1,2)[OF rc joined_checked[OF w(2) j(1)]] assms(2) k(1) d by blast
      then show ?thesis using grantable[OF _ d] k(2) by (fastforce simp: le_max_iff_disj)
    qed
  qed
  then show ?thesis unfolding held_rank_le[OF wf] by blast
qed

lemma resolved_item:
  assumes "store_wf (as_auth s)" "resolvePrivilege s k = Inr p" "k \<noteq> ''*''"
  shows "p \<noteq> MCPPrivilegeIDWildcard \<and> (m \<in> set (mcp_privilege_identifiers (as_auth s)) \<and> mpi_id m = p \<longrightarrow> mpi_identifier m = k)"
proof -
  from assms(2,3) obtain m0 where "first_row (filter (\<lambda>m. mpi_identifier m = k) (mcp_privilege_identifiers (as_auth s))) = Some m0"
    and id: "mpi_id m0 = p" by (auto simp: resolvePrivilege_def privilege_id_def go_simps split: option.splits)
  then have "m0 \<in> set (mcp_privilege_identifiers (as_auth s))" "mpi_identifier m0 = k"
    using first_row_SomeD by fastforce+
  note m0 = this id
  moreover have "inj_on mpi_id (set (mcp_privilege_identifiers (as_auth s)))" "mpi_id m0 > 0"
    using assms(1) m0(1) by (auto simp: store_wf_def distinct_map)
  ultimately show ?thesis by (auto simp: const_defs dest: inj_onD)
qed

lemma op_new_names:
  assumes "checked_run rc ctx op s t" "n \<in> group_mcp_set (as_auth t) g"
  shows "n \<in> group_mcp_set (as_auth s) g \<or> (\<exists>k. op = GrantMCPPrivilegeByName g k \<and> (k = n \<or> k = mcpScopeWildcard))"
proof -
  from assms(1) have w: "op_writes op s = Inr t" "op_checked rc ctx op" "store_wf (as_auth s)"
    by (auto simp: checked_run_def group_wf_def)
  from assms(2) obtain p where row: "(g, p) \<in> set (group_mcp_privileges (as_auth t))"
    and p: "(\<exists>m \<in> set (mcp_privilege_identifiers (as_auth s)). mpi_id m = p \<and> mpi_identifier m = n) \<or>
      p = MCPPrivilegeIDWildcard \<and> n = mcpScopeWildcard"
    using op_registry[OF w(1)] by (auto simp: group_mcp_set_eq split: if_splits)
  from op_new_items[OF w(1) row] w(2) p show ?thesis
    using resolved_item[OF w(3)] by (auto simp: group_mcp_set_eq const_defs) blast+
qed

lemma checked_items:
  assumes run: "checked_run rc ctx op s t" and m: "m \<in> set (mcp_privilege_identifiers (as_auth s))"
    and "holds_item (as_auth t) u (mpi_identifier m)"
  shows "holds_item (as_auth s) u (mpi_identifier m) \<or> CanAccessMCPItem rc ctx (mpi_identifier m)"
proof -
  from run have w: "op_writes op s = Inr t" "op_checked rc ctx op" and rc: "checker_store rc = Some (as_auth s)"
    "healthy (as_auth s)" "store_wf (as_auth s)" "no_wildcard_item (as_auth s)" "GetTokenIDFromContext ctx > 0"
    by (auto simp: checked_run_def group_wf_def)
  from assms(3) obtain n g where n: "n = mpi_identifier m \<or> n = mcpScopeWildcard" and g: "in_group (as_auth t) u g"
    "n \<in> group_mcp_set (as_auth t) g" by (auto simp: holds_item_def user_mcp_eq set_user_groups_of)
  note grantable = can_grant_item[OF rc(1,2,4,5) _ m]
  from op_new_names[OF run g(2)] show ?thesis
  proof
    assume old: "n \<in> group_mcp_set (as_auth s) g"
    from op_new_in_group[OF w(1) g(1)] show ?thesis
    proof
      assume "in_group (as_auth s) u g"
      then show ?thesis using old n by (auto simp: holds_item_def user_mcp_eq set_user_groups_of)
    next
      assume "\<exists>j. op_joined op = Some j \<and> g \<in> set (ancestor_groups (as_auth s) j)"
      then obtain j where j: "op_joined op = Some j" "n \<in> set (group_mcp_list (as_auth s) j)"
        using old by (auto simp: set_group_mcp_list)
      then show ?thesis using group_within_covers(3)[OF rc joined_checked[OF w(2) j(1)]] grantable n by blast
    qed
  next
    assume "\<exists>k. op = GrantMCPPrivilegeByName g k \<and> (k = n \<or> k = mcpScopeWildcard)"
    then obtain k where "op = GrantMCPPrivilegeByName g k" "k = mpi_identifier m \<or> k = mcpScopeWildcard" using n by blast
    then show ?thesis using w(2) grantable[of k] by simp
  qed
qed

lemma checked_permissions:
  assumes run: "checked_run rc ctx op s t" and "holds_permission (as_auth t) u p"
  shows "holds_permission (as_auth s) u p \<or> HasAdminPermission rc ctx p"
proof -
  from run have w: "op_writes op s = Inr t" "op_checked rc ctx op" and rc: "checker_store rc = Some (as_auth s)"
    "healthy (as_auth s)" "store_wf (as_auth s)" "no_wildcard_item (as_auth s)" "GetTokenIDFromContext ctx > 0"
    by (auto simp: checked_run_def group_wf_def)
  from assms(2) obtain q g where q: "q = p \<or> q = AdminPermissionWildcard" and g: "in_group (as_auth t) u g"
    "(g, q) \<in> set (group_admin_permissions (as_auth t))" by (auto simp: holds_permission_def user_admin_def)
  show ?thesis
  proof (cases "op = GrantAdminPermission g q")
    case True
    then show ?thesis using w(2) may_grant_permission[OF rc(1,2,5) _ q] by simp
  next
    case False
    then have old: "(g, q) \<in> set (group_admin_permissions (as_auth s))" using op_new_permissions[OF w(1) g(2)] by simp
    from op_new_in_group[OF w(1) g(1)] show ?thesis
    proof
      assume "in_group (as_auth s) u g"
      then show ?thesis using old q by (auto simp: holds_permission_def user_admin_def)
    next
      assume "\<exists>j. op_joined op = Some j \<and> g \<in> set (ancestor_groups (as_auth s) j)"
      then obtain j where j: "op_joined op = Some j" "q \<in> set (group_admin_list (as_auth s) j)"
        using old by (force simp: set_group_admin_list group_admin_rows_def)
      then show ?thesis
        using group_within_covers(4)[OF rc joined_checked[OF w(2) j(1)]] can_grant_permission[OF rc(1,2,5) _ _ q] by blast
    qed
  qed
qed

section \<open>Restrictions\<close>

text \<open>Only a delete or a revoke takes the last grant of a connection, and only past its guard.\<close>

lemma op_last_grant:
  assumes "op_writes op s = Inr t" "group_wf s" "conn \<noteq> ConnectionIDAll"
    and had: "\<exists>g l. (g, conn, l) \<in> set (connection_privileges (as_auth s))"
    and gone: "\<forall>g l. (g, conn, l) \<notin> set (connection_privileges (as_auth t))"
  shows "\<exists>g guard. (op = DeleteGroup g guard \<or> op = RevokeConnectionPrivilege g conn guard) \<and> lift_allows guard conn"
proof (cases op)
  case (DeleteGroup g guard)
  have ok: "grants_ok s" using assms(2) by (simp add: group_wf_def)
  from delete_writes[OF assms(1)[unfolded DeleteGroup]] have t: "as_auth t = drop_group g (as_auth s)"
    and guard: "guardGroupLiftsTx s guard g = Inr ()" by (auto simp: on_auth_def)
  have only: "(h, conn, l) \<in> set (connection_privileges (as_auth s)) \<Longrightarrow> h = g" for h l
    using gone drop_group_rows(6)[of h conn l "as_auth s" g] by (auto simp: t)
  then have "sole_grant (model_of s) g conn" using had assms(3) conns_None[OF ok] by (auto simp: sole_grant_def)
  moreover have "md_conns (model_of s) (g, conn) \<noteq> None" using had only conns_None[OF ok] by blast
  ultimately show ?thesis using guard_group_sound[OF ok guard] DeleteGroup by blast
next
  case (RevokeConnectionPrivilege g c guard)
  have ok: "grants_ok s" using assms(2) by (simp add: group_wf_def)
  have t: "guardLiftTx (as_auth s) guard g c = Inr ()" and rows: "set (connection_privileges (as_auth t)) =
      {(h, d, l) \<in> set (connection_privileges (as_auth s)). \<not> (h = g \<and> d = c)}"
    using assms(1) by (auto simp: RevokeConnectionPrivilege deleteConnGrant_def go_simps on_auth_def split: if_splits)
  have only: "(h, conn, l) \<in> set (connection_privileges (as_auth s)) \<Longrightarrow> h = g \<and> conn = c" for h l using gone rows by auto
  then have "sole_grant (model_of s) g c" using had assms(3) conns_None[OF ok] by (auto simp: sole_grant_def)
  then show ?thesis using guard_lift_sound[OF ok t] RevokeConnectionPrivilege only had by blast
next
  case (GrantConnectionPrivilege g c l)
  have "\<exists>g l. (g, conn, l) \<in> set (connection_privileges (as_auth t))"
    using assms(1) had by (auto simp: GrantConnectionPrivilege replaceConnGrant_def go_simps on_auth_def split: if_splits) blast+
  with gone show ?thesis by blast
qed (use assms in \<open>auto simp: write_defs go_simps Let_def on_auth_def split: if_splits\<close>)

lemma checked_lift:
  assumes "op_checked rc ctx op" "checker_store rc = Some st" "GetTokenIDFromContext ctx > 0"
    and "op = DeleteGroup g guard \<or> op = RevokeConnectionPrivilege g conn guard" "lift_allows guard conn"
  shows "CanGrantConnection rc ctx conn AccessLevelReadWrite"
proof -
  from assms(1,2,4,5) have "\<exists>ids. lift_allows (Some (ConnectionLiftGuard rc ctx ids)) conn"
    by (auto simp: GroupDeleteLiftGuard_def lift_allows_def AllowLifts_def split: sum.splits)
  then show ?thesis using lift_guard_covers assms(3) by (metis not_le)
qed

section \<open>Properties\<close>

lemma api_checker_store [simp]: "checker_store (api_checker h st) = Some (as_auth st)"
  by (simp add: api_checker_def handler_checker_def checker_store_def)

lemma actor_type [simp]: "act_type (ActorFromContext ctx ip) \<noteq> ''''"
  by (simp add: ActorFromContext_def systemActor_def Let_def)

lemma request_writes:
  assumes "handleGroupRequest h ctx ip req st s = (r, s')" "s' \<noteq> s"
  shows "\<exists>op t. op_writes op s = Inr t \<and> as_auth s' = as_auth t \<and> op_checked (api_checker h st) ctx op"
proof -
  from request_op[OF assms(1)] assms(2) obtain op where "run_op (ga_env h) (ActorFromContext ctx ip) op s = Inr s'"
    "op_checked (api_checker h st) ctx op" by (auto simp: effective_def runs_op_def)
  then show ?thesis using op_tables by blast
qed

section \<open>Examples\<close>

text \<open>The routes of the sample installation, called with the unscoped token of its superuser.\<close>

definition sample_api :: group_api where
  "sample_api = \<lparr>ga_rbac = sample_handler, ga_env = sample_group_env, ga_group_map = Some [(''idp-ops'', ''ops'')]\<rparr>"

definition drop_7 :: group_request where "drop_7 = DeleteConnection 6 (Some 7)"
definition join_dev :: group_request where "join_dev = PostMember 5 (Some (Some 2, None))"

definition root_request :: "group_request \<Rightarrow> response \<times> group_state" where
  "root_request req = handleGroupRequest sample_api root_full None req sample_groups sample_groups"

lemma root_request_eq:
  "handleGroupRequest sample_api root_full None req sample_groups sample_groups = (fst (root_request req), snd (root_request req))"
  by (simp add: root_request_def)

lemma sample_api_facts:
  "GetTokenIDFromContext root_full > 0" "healthy (as_auth sample_groups)" "store_wf (as_auth sample_groups)"
  "no_wildcard_item (as_auth sample_groups)" "connection_known (api_checker sample_api sample_groups) 7"
  "(7 :: conn_id) \<noteq> ConnectionIDAll"
  using grant_store_facts
  by (simp_all add: sample_groups_def api_checker_def sample_api_def sample_handler_def handler_checker_def sample_lookup_def
      connection_known_def checker_lookup_def const_defs)

lemma sample_requests:
  "rs_status (fst (root_request drop_7)) = 204"
  "rs_status (fst (root_request join_dev)) = 204"
  "connection_privileges (as_auth (snd (root_request drop_7))) = [(5, 8, ''read'')]"
  by code_simp+



text \<open>
  C8. Every group request that takes effect passed its gate and is in the audit log. A caller
  without the permission the route asks for is refused with 403 and changes nothing. A request
  that changes something, or answers with success, appends exactly one event, which names the
  caller, the action and the group, and no refusal is reported for it.
\<close>

theorem group_request_audited:
  assumes "handleGroupRequest h ctx ip req st s = (r, s')"
  shows "(\<not> request_gate (api_checker h st) ctx req \<longrightarrow> s' = s \<and> rs_status r = 403 \<and> rs_denial r \<noteq> None) \<and>
    (s' \<noteq> s \<or> rs_status r < 400 \<longrightarrow> rs_denial r = None \<and>
      (\<exists>row gid. ad_events (as_audit s') = ad_events (as_audit s) @ [row] \<and>
         attests (ActorFromContext ctx ip) (request_action req) gid row \<and>
         (request_group req = None \<or> request_group req = Some gid)))"
proof (intro conjI impI; (elim conjE)?)
  assume "\<not> request_gate (api_checker h st) ctx req"
  then show "s' = s" "rs_status r = 403" "rs_denial r \<noteq> None"
    using assms by (cases req; force simp: handler_defs check_defs guarded_def deny_def Let_def)+
next
  assume "s' \<noteq> s \<or> rs_status r < 400"
  then obtain op where op: "runs_op h ctx ip req st s s' op" and "rs_denial r = None"
    using request_op[OF assms] by (auto simp: effective_def)
  then show "rs_denial r = None" "\<exists>row gid. ad_events (as_audit s') = ad_events (as_audit s) @ [row] \<and>
      attests (ActorFromContext ctx ip) (request_action req) gid row \<and> (request_group req = None \<or> request_group req = Some gid)"
    using run_op_attested[of "ga_env h" "ActorFromContext ctx ip" op s s'] by (auto simp: runs_op_def attested_def)
qed

theorem group_request_audited_witness:
  "\<exists>row. ad_events (as_audit (snd (root_request drop_7))) = ad_events (as_audit sample_groups) @ [row] \<and>
     attests (ActorFromContext root_full None) ''privilege.connection.revoke'' 6 row"
  using group_request_audited[OF root_request_eq[of drop_7]] sample_requests(1) by (auto simp: drop_7_def)

text \<open>
  C7. A token opens no connection it cannot write to. A connection without any group grant is
  open to everyone when it is shared. If a token's request leaves a connection without a
  grant that had one when the write's transaction ran, then the token has read and write on
  the connection; whatever other requests committed between the checks and the write.
\<close>

theorem token_lift_needs_write:
  assumes "handleGroupRequest h ctx ip req st s = (r, s')" "GetTokenIDFromContext ctx > 0"
    and "healthy (as_auth st)" "store_wf (as_auth st)" "group_wf s"
    and "connection_known (api_checker h st) conn" "conn \<noteq> ConnectionIDAll"
    and "(g, conn, l) \<in> set (connection_privileges (as_auth s))"
    and "\<forall>g l. (g, conn, l) \<notin> set (connection_privileges (as_auth s'))"
  shows "HasWriteAccess (api_checker h st) ctx conn"
proof -
  have "s' \<noteq> s" using assms(8,9) by blast
  then obtain op t where t: "op_writes op s = Inr t" "as_auth s' = as_auth t" and op: "op_checked (api_checker h st) ctx op"
    using request_writes[OF assms(1)] by blast
  from op_last_grant[OF t(1) assms(5,7)] assms(8,9) t(2) obtain g guard where
    "op = DeleteGroup g guard \<or> op = RevokeConnectionPrivilege g conn guard" "lift_allows guard conn" by auto
  then have "CanGrantConnection (api_checker h st) ctx conn AccessLevelReadWrite"
    using checked_lift[of "api_checker h st" ctx op "as_auth st" g guard conn] op assms(2) by simp
  from can_grant_held[OF _ assms(3,4,2) this _ assms(6,7)] show ?thesis
    by (auto simp: HasWriteAccess_def accessLevelRank_def split: if_splits)
qed

theorem token_lift_needs_write_witness: "HasWriteAccess (api_checker sample_api sample_groups) root_full 7"
proof (rule token_lift_needs_write[OF root_request_eq[of drop_7] sample_api_facts(1-3) sample_groups_wf sample_api_facts(5,6)])
  show "(6, 7, ''read_write'') \<in> set (connection_privileges (as_auth sample_groups))"
    by (simp add: sample_groups_def grant_store_def sample_store_def)
qed (simp add: sample_requests)

end
