(* ===== verification/Sql_Side_Effects.thy ===== *)
theory Sql_Side_Effects
  imports Sql_Lexer
begin

text \<open>
  Calls to functions that change server, session or database state, found in a statement that
  otherwise only reads: \<^verbatim>\<open>sqllex/side_effects.go\<close>. The statement is cut into the tokens that
  calls are built from, the names that the grammar never reads as calls are marked, and the
  remaining names are compared with the lists of the source.
\<close>

section \<open>The lists\<close>

definition sideEffectingFunctionFamilies :: "(string \<times> bool \<times> string list) list" where
  "sideEffectingFunctionFamilies = [
    (''server signaling'', True,
     [''pg_cancel_backend'', ''pg_terminate_backend'', ''pg_reload_conf'', ''pg_rotate_logfile'',
      ''pg_log_backend_memory_contexts'']),
    (''server signaling before PostgreSQL 17'', False,
     [''pg_rotate_logfile_old'']),
    (''configuration settings'', True,
     [''set_config'']),
    (''backup and WAL control'', True,
     [''pg_create_restore_point'', ''pg_switch_wal'', ''pg_backup_start'', ''pg_backup_stop'']),
    (''backup and WAL control before PostgreSQL 15'', False,
     [''pg_start_backup'', ''pg_stop_backup'', ''pg_switch_xlog'']),
    (''recovery control'', True,
     [''pg_promote'', ''pg_wal_replay_pause'', ''pg_wal_replay_resume'']),
    (''recovery control before PostgreSQL 10'', False,
     [''pg_xlog_replay_pause'', ''pg_xlog_replay_resume'']),
    (''snapshot synchronization'', True,
     [''pg_log_standby_snapshot'', ''pg_export_snapshot'']),
    (''replication slots'', True,
     [''pg_create_physical_replication_slot'', ''pg_create_logical_replication_slot'',
      ''pg_drop_replication_slot'', ''pg_copy_physical_replication_slot'',
      ''pg_copy_logical_replication_slot'', ''pg_replication_slot_advance'',
      ''pg_sync_replication_slots'', ''pg_logical_emit_message'']),
    (''statistics manipulation'', True,
     [''pg_restore_relation_stats'', ''pg_clear_relation_stats'', ''pg_restore_attribute_stats'',
      ''pg_clear_attribute_stats'', ''pg_stat_force_next_flush'']),
    (''index maintenance'', True,
     [''brin_summarize_new_values'', ''brin_summarize_range'', ''brin_desummarize_range'',
      ''gin_clean_pending_list'']),
    (''collation management'', True,
     [''pg_import_system_collations'']),
    (''transaction ID assignment'', True,
     [''pg_current_xact_id'', ''txid_current'']),
    (''notifications'', True,
     [''pg_notify'']),
    (''sequences'', True,
     [''nextval'', ''setval'']),
    (''large objects'', True,
     [''lo_creat'', ''lo_create'', ''lo_from_bytea'', ''lo_import'', ''lo_export'', ''lo_open'',
      ''lo_put'', ''lo_truncate'', ''lo_truncate64'', ''lo_unlink'', ''lowrite'']),
    (''functions that run a query given as text'', True,
     [''query_to_xml'', ''query_to_xmlschema'', ''query_to_xml_and_xmlschema'', ''cursor_to_xml'',
      ''cursor_to_xmlschema'', ''ts_stat'', ''ts_rewrite'']),
    (''contrib modules'', False,
     [''pg_stat_statements_reset'', ''pg_buffercache_evict'', ''pg_buffercache_evict_relation'',
      ''pg_buffercache_evict_all'', ''pg_prewarm'', ''autoprewarm_start_worker'',
      ''autoprewarm_dump_now'', ''heap_force_kill'', ''heap_force_freeze'',
      ''pg_truncate_visibility_map'', ''postgres_fdw_disconnect'', ''postgres_fdw_disconnect_all'',
      ''pg_file_write'', ''pg_file_sync'', ''pg_file_rename'', ''pg_file_unlink'', ''pg_logfile_rotate'',
      ''schedule'', ''schedule_in_database'', ''unschedule'', ''alter_job'', ''create_node'',
      ''drop_node'', ''alter_node_add_interface'', ''alter_node_drop_interface'',
      ''create_subscription'', ''drop_subscription'', ''alter_subscription_disable'',
      ''alter_subscription_enable'', ''alter_subscription_interface'',
      ''alter_subscription_synchronize'', ''alter_subscription_resynchronize_table'',
      ''alter_subscription_add_replication_set'', ''alter_subscription_remove_replication_set'',
      ''create_replication_set'', ''alter_replication_set'', ''drop_replication_set'',
      ''replication_set_add_table'', ''replication_set_add_all_tables'',
      ''replication_set_remove_table'', ''replication_set_add_sequence'',
      ''replication_set_add_all_sequences'', ''replication_set_remove_sequence'',
      ''synchronize_sequence'', ''replicate_ddl_command'']),
    (''Spock management'', False,
     [''cleanup_resolutions'', ''convert_column_to_int8'', ''convert_sequence_to_snowflake'',
      ''node_add_interface'', ''node_alter'', ''node_create'', ''node_drop'', ''node_drop_interface'',
      ''node_info_apply'', ''node_info_emit'', ''node_refresh_info'', ''node_refresh_info_one'',
      ''pause_apply_workers'', ''resume_apply_workers'', ''repair_mode'', ''replicate_ddl'',
      ''repset_add_all_seqs'', ''repset_add_all_tables'', ''repset_add_partition'', ''repset_add_seq'',
      ''repset_add_table'', ''repset_alter'', ''repset_create'', ''repset_drop'',
      ''repset_remove_partition'', ''repset_remove_seq'', ''repset_remove_table'',
      ''reserved_object_add'', ''reserved_object_remove'', ''reset_channel_stats'',
      ''reset_subscription_stats'', ''slot_enable_failover'', ''sub_add_repset'',
      ''sub_alter_interface'', ''sub_alter_options'', ''sub_alter_skiplsn'', ''sub_alter_sync'',
      ''sub_create'', ''sub_disable'', ''sub_drop'', ''sub_enable'', ''sub_remove_repset'',
      ''sub_resync_table'', ''sync_event'', ''sync_seq'', ''terminate_active_transactions'',
      ''set_cluster_readonly'', ''unset_cluster_readonly'', ''prune_conflict_tracking''])]"

definition sideEffectingFunctionPrefixes :: "string list" where
  "sideEffectingFunctionPrefixes =
     [''pg_advisory_'', ''pg_try_advisory_'', ''pg_replication_origin_'', ''pg_logical_slot_'', ''pg_stat_reset'',
      ''dblink'', ''pg_background_'']"

definition sideEffectingSchemas :: "string list" where
  "sideEffectingSchemas = [''spock'', ''pglogical'', ''cron'']"

definition sideEffectingFunctions :: "string list" where
  "sideEffectingFunctions = concat (map (\<lambda>(family, core, names). names) sideEffectingFunctionFamilies)"

definition isSideEffectingFunctionName :: "string \<Rightarrow> bool" where
  "isSideEffectingFunctionName name \<longleftrightarrow>
     name \<in> set sideEffectingFunctions \<or> (\<exists>p \<in> set sideEffectingFunctionPrefixes. has_prefix name p)"

definition notFieldSelectable :: "string list" where
  "notFieldSelectable = [''schedule'', ''pg_replication_origin_status'']"

definition isFieldSelectedFunctionName :: "string \<Rightarrow> bool" where
  "isFieldSelectedFunctionName name \<longleftrightarrow> name \<notin> set notFieldSelectable \<and> isSideEffectingFunctionName name"

section \<open>Tokens\<close>

datatype callTokenKind = nameToken | openParenToken | closeParenToken | dotToken | commaToken | semicolonToken | otherToken

record callToken =
  ct_kind :: callTokenKind
  ct_text :: string
  ct_quoted :: bool
  ct_numeric :: bool

definition plainToken :: "callTokenKind \<Rightarrow> callToken" where
  "plainToken kind = \<lparr>ct_kind = kind, ct_text = [], ct_quoted = False, ct_numeric = False\<rparr>"

definition isKeyword :: "callToken \<Rightarrow> string \<Rightarrow> bool" where
  "isKeyword tok keyword \<longleftrightarrow> ct_kind tok = nameToken \<and> \<not> ct_quoted tok \<and> ct_text tok = keyword"

definition punctuationKind :: "char \<Rightarrow> callTokenKind" where
  "punctuationKind ch =
     (if ch = CHR ''('' then openParenToken else if ch = CHR '')'' then closeParenToken
      else if ch = CHR ''.'' then dotToken else if ch = CHR '','' then commaToken
      else if ch = CHR '';'' then semicolonToken else otherToken)"

definition isCommentStart :: "string \<Rightarrow> nat \<Rightarrow> bool" where
  "isCommentStart s i \<longleftrightarrow> i + 1 < length s \<and>
     (s ! i = CHR ''-'' \<and> s ! (i + 1) = CHR ''-'' \<or> s ! i = CHR ''/'' \<and> s ! (i + 1) = CHR ''*'')"

subsection \<open>Quoted identifiers\<close>

definition hex_value :: "char \<Rightarrow> nat option" where
  "hex_value c =
     (if CHR ''0'' \<le> c \<and> c \<le> CHR ''9'' then Some (byte_of c - 48)
      else if CHR ''a'' \<le> c \<and> c \<le> CHR ''f'' then Some (byte_of c - 87)
      else if CHR ''A'' \<le> c \<and> c \<le> CHR ''F'' then Some (byte_of c - 55)
      else None)"

text \<open>\<^verbatim>\<open>strconv.ParseUint\<close> in base 16 on at most eight digits, which cannot overflow 32 bits.\<close>

definition parse_hex :: "string \<Rightarrow> nat option" where
  "parse_hex ds =
     (if ds = [] then None
      else fold (\<lambda>c acc. case (acc, hex_value c) of (Some n, Some v) \<Rightarrow> Some (16 * n + v) | _ \<Rightarrow> None) ds (Some 0))"

text \<open>\<^verbatim>\<open>strings.Builder.WriteRune\<close>.\<close>

definition utf8_encode :: "nat \<Rightarrow> string" where
  "utf8_encode code =
     (if code < 128 then [char_of code]
      else if code < 2048 then [char_of (192 + code div 64), char_of (128 + code mod 64)]
      else if code < 65536
      then [char_of (224 + code div 4096), char_of (128 + code div 64 mod 64), char_of (128 + code mod 64)]
      else [char_of (240 + code div 262144), char_of (128 + code div 4096 mod 64),
            char_of (128 + code div 64 mod 64), char_of (128 + code mod 64)])"

function decodeUnicodeEscapes :: "string \<Rightarrow> string option" where
  "decodeUnicodeEscapes s =
     (case s of
        [] \<Rightarrow> Some []
      | c # rest \<Rightarrow>
          if c \<noteq> backslash then map_option (Cons c) (decodeUnicodeEscapes rest)
          else if rest \<noteq> [] \<and> hd rest = backslash
          then map_option (Cons backslash) (decodeUnicodeEscapes (tl rest))
          else let (digits, body) = (if rest \<noteq> [] \<and> hd rest = CHR ''+'' then (6, tl rest) else (4, rest)) in
            if digits > length body then None
            else case parse_hex (take digits body) of
              None \<Rightarrow> None
            | Some code \<Rightarrow>
                if code = 0 \<or> code > 0x10FFFF \<or> (0xD800 \<le> code \<and> code \<le> 0xDFFF) then None
                else map_option ((@) (utf8_encode code)) (decodeUnicodeEscapes (drop digits body)))"
  by pat_completeness auto
termination
  by (relation "measure length") (auto split: if_splits)

declare decodeUnicodeEscapes.simps [simp del]

fun undouble :: "char \<Rightarrow> string \<Rightarrow> string" where
  "undouble q (a # b # s) = (if a = q \<and> b = q then q # undouble q s else a # undouble q (b # s))"
| "undouble q s = s"

definition trim_suffix :: "char \<Rightarrow> string \<Rightarrow> string" where
  "trim_suffix q s = (if s \<noteq> [] \<and> last s = q then butlast s else s)"

text \<open>\<open>None\<close>: not an identifier; \<open>Some None\<close>: one that cannot be decoded.\<close>

definition quotedIdentifierAt :: "unicode_tables \<Rightarrow> string \<Rightarrow> nat \<Rightarrow> nat \<Rightarrow> (string option) option" where
  "quotedIdentifierAt uc s i e =
     (let found = (if s ! i = dquote then Some (False, i)
                   else if \<not> ContinuesIdentifier s i
                   then (case literalPrefix s i of
                           (len, kind) \<Rightarrow> if len = 0 \<or> kind \<noteq> quotedIdentifier then None else Some (True, i + len))
                   else None) in
      case found of
        None \<Rightarrow> None
      | Some (unicode, k) \<Rightarrow>
          let body = undouble dquote (trim_suffix dquote (slice s (k + 1) e)) in
          Some (map_option (strings_ToLower uc) (if unicode then decodeUnicodeEscapes body else Some body)))"

subsection \<open>The tokenizer\<close>

definition wordEnd :: "string \<Rightarrow> nat \<Rightarrow> nat" where
  "wordEnd s i = i + length (takeWhile (\<lambda>c. IsIdentChar c \<or> c = CHR ''$'') (drop i s))"

lemma wordEnd_gt: "i < length s \<Longrightarrow> IsIdentChar (s ! i) \<Longrightarrow> i < wordEnd s i"
  by (simp add: wordEnd_def Cons_nth_drop_Suc[symmetric])

lemma word_shorter: "i < length s \<Longrightarrow> IsIdentChar (s ! i) \<Longrightarrow> length s - wordEnd s i < length s - i"
  using wordEnd_gt[of i s] by linarith

text \<open>\<open>None\<close> is the result \<open>ok == false\<close>.\<close>

function tokenizeFrom :: "unicode_tables \<Rightarrow> StringReading \<Rightarrow> string \<Rightarrow> nat \<Rightarrow> (callToken list) option" where
  "tokenizeFrom uc r sql i =
     (if i < length sql then
        if IsSQLSpace (sql ! i) then tokenizeFrom uc r sql (i + 1)
        else let j = SkipNonCode sql i r in
          if j \<noteq> i then
            (case quotedIdentifierAt uc sql i j of
               Some None \<Rightarrow> None
             | Some (Some name) \<Rightarrow>
                 map_option (Cons \<lparr>ct_kind = nameToken, ct_text = name, ct_quoted = True, ct_numeric = False\<rparr>)
                   (tokenizeFrom uc r sql j)
             | None \<Rightarrow>
                 if isCommentStart sql i then tokenizeFrom uc r sql j
                 else map_option (Cons (plainToken otherToken)) (tokenizeFrom uc r sql j))
          else if IsIdentChar (sql ! i) then
            let word = strings_ToLower uc (slice sql i (wordEnd sql i)) in
            if word = ''uescape'' then None
            else map_option (Cons \<lparr>ct_kind = nameToken, ct_text = word, ct_quoted = False, ct_numeric = is_digit (sql ! i)\<rparr>)
                   (tokenizeFrom uc r sql (wordEnd sql i))
          else map_option (Cons (plainToken (punctuationKind (sql ! i)))) (tokenizeFrom uc r sql (i + 1))
      else Some [])"
  by pat_completeness auto
termination
  by (relation "measure (\<lambda>(uc, r, sql, i). length sql - i)") (auto intro: skip_shorter word_shorter)

declare tokenizeFrom.simps [simp del]

definition tokenizeForCalls :: "unicode_tables \<Rightarrow> string \<Rightarrow> StringReading \<Rightarrow> (callToken list) option" where
  "tokenizeForCalls uc sql r = tokenizeFrom uc r sql 0"

section \<open>Names that are not calls\<close>

datatype withListState = noWithList | expectCTEName | inCTE

definition withListOpeners :: "string list" where
  "withListOpeners = [''explain'', ''analyze'', ''analyse'', ''verbose'']"

definition withListClosers :: "string list" where
  "withListClosers = [''select'', ''values'', ''table'', ''insert'', ''update'', ''delete'', ''merge'']"

record withListTracker =
  wl_lists :: "withListState list"
  wl_depth :: nat

definition wl_state :: "withListTracker \<Rightarrow> withListState" where
  "wl_state w = wl_lists w ! wl_depth w"

definition wl_set :: "withListState \<Rightarrow> withListTracker \<Rightarrow> withListTracker" where
  "wl_set s w = w\<lparr>wl_lists := (wl_lists w)[wl_depth w := s]\<rparr>"

text \<open>\<open>skipColumnList\<close>: \<open>None\<close> is -1.\<close>

definition skipColumnList :: "callToken list \<Rightarrow> nat \<Rightarrow> nat option" where
  "skipColumnList tokens i =
     (let k = i + length (takeWhile (\<lambda>t. ct_kind t = nameToken \<and> \<not> ct_numeric t \<or> ct_kind t = commaToken) (drop i tokens)) in
      if k \<ge> length tokens \<or> ct_kind (tokens ! k) \<noteq> closeParenToken then None else Some (k + 1))"

definition tokenIs :: "callToken list \<Rightarrow> nat \<Rightarrow> string \<Rightarrow> bool" where
  "tokenIs tokens i keyword \<longleftrightarrow> i < length tokens \<and> isKeyword (tokens ! i) keyword"

definition kindIs :: "callToken list \<Rightarrow> nat \<Rightarrow> callTokenKind \<Rightarrow> bool" where
  "kindIs tokens i kind \<longleftrightarrow> i < length tokens \<and> ct_kind (tokens ! i) = kind"

definition isCTEDefinitionAt :: "callToken list \<Rightarrow> nat \<Rightarrow> bool" where
  "isCTEDefinitionAt tokens k =
     (case (if kindIs tokens (k + 1) openParenToken then skipColumnList tokens (k + 2) else Some (k + 1)) of
        None \<Rightarrow> False
      | Some i \<Rightarrow>
          if \<not> tokenIs tokens i ''as'' then False
          else let i = i + 1 in
            if tokenIs tokens i ''not''
            then tokenIs tokens (i + 1) ''materialized'' \<and> kindIs tokens (i + 2) openParenToken
            else let i = (if tokenIs tokens i ''materialized'' then i + 1 else i) in
              kindIs tokens i openParenToken)"

definition opensWithList :: "callToken \<Rightarrow> bool" where
  "opensWithList prev =
     (case ct_kind prev of
        openParenToken \<Rightarrow> True
      | semicolonToken \<Rightarrow> True
      | nameToken \<Rightarrow> \<not> ct_quoted prev \<and> ct_text prev \<in> set withListOpeners
      | _ \<Rightarrow> False)"

definition wl_name :: "callToken list \<Rightarrow> nat \<Rightarrow> callToken \<Rightarrow> withListTracker \<Rightarrow> withListTracker \<times> bool" where
  "wl_name tokens k prev w =
     (let tok = tokens ! k; state = wl_state w in
      if state = expectCTEName \<and> isKeyword tok ''recursive'' \<and> isKeyword prev ''with'' then (w, False)
      else if state = expectCTEName \<and> isCTEDefinitionAt tokens k then (wl_set inCTE w, True)
      else if state = expectCTEName then (wl_set noWithList w, False)
      else if state = inCTE \<and> \<not> ct_quoted tok \<and> ct_text tok \<in> set withListClosers then (wl_set noWithList w, False)
      else if isKeyword tok ''with'' \<and> opensWithList prev then (wl_set expectCTEName w, False)
      else (w, False))"

definition wl_openParen :: "callToken \<Rightarrow> bool \<Rightarrow> withListTracker \<Rightarrow> withListTracker" where
  "wl_openParen prev prevNotCall w =
     (let opensDefinition = isKeyword prev ''as'' \<or> isKeyword prev ''materialized'' \<or>
            (ct_kind prev = nameToken \<and> prevNotCall);
          state = wl_state w;
          w = (if state = expectCTEName \<or> (state = inCTE \<and> \<not> opensDefinition) then wl_set noWithList w else w);
          w = w\<lparr>wl_depth := wl_depth w + 1\<rparr>;
          w = (if wl_depth w = length (wl_lists w) then w\<lparr>wl_lists := wl_lists w @ [noWithList]\<rparr> else w) in
      wl_set noWithList w)"

definition wl_closeParen :: "withListTracker \<Rightarrow> withListTracker" where
  "wl_closeParen w =
     (let w = wl_set noWithList w in if wl_depth w > 0 then w\<lparr>wl_depth := wl_depth w - 1\<rparr> else w)"

definition wl_comma :: "withListTracker \<Rightarrow> withListTracker" where
  "wl_comma w = (if wl_state w = inCTE then wl_set expectCTEName w else wl_set noWithList w)"

definition wl_semicolon :: "withListTracker \<Rightarrow> withListTracker" where
  "wl_semicolon w = w\<lparr>wl_lists := map (\<lambda>_. noWithList) (wl_lists w), wl_depth := 0\<rparr>"

definition prevToken :: "callToken list \<Rightarrow> nat \<Rightarrow> callToken" where
  "prevToken tokens k = (if k > 0 then tokens ! (k - 1) else plainToken semicolonToken)"

text \<open>One turn of the loop: the tracker and the marks made so far, one for each token read.\<close>

definition notCallStep :: "callToken list \<Rightarrow> nat \<Rightarrow> withListTracker \<times> bool list \<Rightarrow> withListTracker \<times> bool list" where
  "notCallStep tokens k = (\<lambda>(w, marks).
     let prev = prevToken tokens k in
     case ct_kind (tokens ! k) of
       nameToken \<Rightarrow> (case wl_name tokens k prev w of (w', cte) \<Rightarrow> (w', marks @ [cte \<or> isKeyword prev ''as'']))
     | openParenToken \<Rightarrow> (wl_openParen prev (k > 0 \<and> marks ! (k - 1)) w, marks @ [False])
     | closeParenToken \<Rightarrow> (wl_closeParen w, marks @ [False])
     | commaToken \<Rightarrow> (wl_comma w, marks @ [False])
     | semicolonToken \<Rightarrow> (wl_semicolon w, marks @ [False])
     | _ \<Rightarrow> (wl_set noWithList w, marks @ [False]))"

definition tracker_start :: withListTracker where
  "tracker_start = \<lparr>wl_lists = [noWithList], wl_depth = 0\<rparr>"

definition namesThatAreNotCalls :: "callToken list \<Rightarrow> bool list" where
  "namesThatAreNotCalls tokens = snd (fold (notCallStep tokens) [0..<length tokens] (tracker_start, []))"

section \<open>Calls\<close>

definition callsWithParenthesis :: "callToken list \<Rightarrow> nat \<Rightarrow> bool" where
  "callsWithParenthesis tokens k =
     (let tok = tokens ! k in
      if k \<ge> 2 \<and> ct_kind (tokens ! (k - 1)) = dotToken \<and> ct_kind (tokens ! (k - 2)) = nameToken \<and>
         ct_text (tokens ! (k - 2)) \<in> set sideEffectingSchemas then True
      else if isSideEffectingFunctionName (ct_text tok) then True
      else ct_numeric tok \<and> (\<exists>i \<in> set [1..<length (ct_text tok)]. isSideEffectingFunctionName (drop i (ct_text tok))))"

definition callsAt :: "callToken list \<Rightarrow> bool list \<Rightarrow> nat \<Rightarrow> bool" where
  "callsAt tokens notCalls k =
     (if ct_kind (tokens ! k) \<noteq> nameToken then False
      else if kindIs tokens (k + 1) openParenToken then \<not> notCalls ! k \<and> callsWithParenthesis tokens k
      else k \<ge> 1 \<and> ct_kind (tokens ! (k - 1)) = dotToken \<and> isFieldSelectedFunctionName (ct_text (tokens ! k)))"

definition CallsSideEffectingFunction :: "unicode_tables \<Rightarrow> string \<Rightarrow> StringReading \<Rightarrow> bool" where
  "CallsSideEffectingFunction uc sql r =
     (case tokenizeForCalls uc sql r of
        None \<Rightarrow> True
      | Some tokens \<Rightarrow>
          let notCalls = namesThatAreNotCalls tokens in \<exists>k \<in> set [0..<length tokens]. callsAt tokens notCalls k)"

definition CallsSideEffectingFunctionUnderAnyReading :: "unicode_tables \<Rightarrow> string \<Rightarrow> bool" where
  "CallsSideEffectingFunctionUnderAnyReading uc sql \<longleftrightarrow>
     (\<exists>r \<in> set StringReadings. CallsSideEffectingFunction uc sql r)"

end
