(* ===== verification/Sql_Classifier.thy ===== *)
theory Sql_Classifier
  imports Sql_Side_Effects
begin

text \<open>
  The read-only classifier of the query endpoint (\<^verbatim>\<open>api/query_handlers.go\<close>): a script is
  read-only when every statement of it is, under both readings of a string literal; a
  statement is when it starts like a query and holds no writing clause and no side-effecting
  call, and an EXPLAIN is when it does not run its statement or the statement it runs is.
\<close>

section \<open>Words\<close>

text \<open>
  \<^verbatim>\<open>strings.EqualFold\<close> against the keyword EXPLAIN, none of whose letters folds with a
  character outside ASCII.
\<close>

definition equal_fold :: "string \<Rightarrow> string \<Rightarrow> bool" where
  "equal_fold a b \<longleftrightarrow> map ascii_lower a = map ascii_lower b"

definition hasKeywordPrefix :: "string \<Rightarrow> string \<Rightarrow> bool" where
  "hasKeywordPrefix sql keyword =
     (if length sql < length keyword \<or> \<not> equal_fold (take (length keyword) sql) keyword then False
      else length sql = length keyword \<or> \<not> IsIdentChar (sql ! length keyword))"

definition nextSQLWord :: "string \<Rightarrow> string \<times> string" where
  "nextSQLWord s = (takeWhile IsIdentChar s, dropWhile IsIdentChar s)"

function sqlWords :: "string \<Rightarrow> string list" where
  "sqlWords [] = []"
| "sqlWords (c # s) =
     (if \<not> IsIdentChar c then sqlWords s
      else takeWhile IsIdentChar (c # s) # sqlWords (dropWhile IsIdentChar s))"
  by pat_completeness auto
termination
  by (relation "measure length") (auto simp: less_Suc_eq_le length_dropWhile_le)

lemma keyword_shorter:
  "strings_Index (drop i u) k = Some p \<Longrightarrow> k \<noteq> [] \<Longrightarrow> length u - (p + i + length k) < length u - i"
  using strings_Index_bound[of "drop i u" k p] by (cases k) auto

text \<open>The loop of \<open>containsSQLKeyword\<close>; its callers pass constant keywords, never the empty one.\<close>

function containsKeywordFrom :: "string \<Rightarrow> string \<Rightarrow> nat \<Rightarrow> bool" where
  "containsKeywordFrom upperSQL keyword idx =
     (if keyword = [] then False
      else case strings_Index (drop idx upperSQL) keyword of
        None \<Rightarrow> False
      | Some p \<Rightarrow>
          let pos = p + idx; e = pos + length keyword;
              startOK = (pos = 0 \<or> \<not> IsIdentChar (upperSQL ! (pos - 1)));
              endOK = (e \<ge> length upperSQL \<or> \<not> IsIdentChar (upperSQL ! e)) in
          if startOK \<and> endOK then True else containsKeywordFrom upperSQL keyword e)"
  by pat_completeness auto
termination
  by (relation "measure (\<lambda>(u, k, i). length u - i)") (auto dest: keyword_shorter)

declare containsKeywordFrom.simps [simp del]

definition containsSQLKeyword :: "string \<Rightarrow> string \<Rightarrow> bool" where
  "containsSQLKeyword upperSQL keyword = containsKeywordFrom upperSQL keyword 0"

definition lockAfterFor :: "string list \<Rightarrow> bool" where
  "lockAfterFor words =
     (case dropWhile (\<lambda>w. w = ''NO'' \<or> w = ''KEY'') words of
        [] \<Rightarrow> False | w # _ \<Rightarrow> w = ''UPDATE'' \<or> w = ''SHARE'')"

fun lockingIn :: "string list \<Rightarrow> bool" where
  "lockingIn [] = False"
| "lockingIn (w # ws) = (w = ''FOR'' \<and> lockAfterFor ws \<or> lockingIn ws)"

definition containsLockingClause :: "string \<Rightarrow> bool" where
  "containsLockingClause upperSQL = lockingIn (sqlWords upperSQL)"

definition hasWritingSelectClause :: "string \<Rightarrow> bool" where
  "hasWritingSelectClause upperSQL \<longleftrightarrow> containsSQLKeyword upperSQL ''INTO'' \<or> containsLockingClause upperSQL"

section \<open>EXPLAIN\<close>

definition explainNonExecutingOptions :: "string list" where
  "explainNonExecutingOptions =
     [''VERBOSE'', ''COSTS'', ''SETTINGS'', ''GENERIC_PLAN'', ''BUFFERS'', ''WAL'', ''TIMING'', ''SUMMARY'', ''MEMORY'',
      ''SERIALIZE'', ''FORMAT'']"

definition strip :: "string \<Rightarrow> string" where
  "strip s = strings_TrimSpace (StripLeadingComments s)"

text \<open>The options, the remainder and whether the parentheses balance.\<close>

function splitExplainOptionsFrom :: "StringReading \<Rightarrow> string \<Rightarrow> int \<Rightarrow> nat \<Rightarrow> (string \<times> string) option" where
  "splitExplainOptionsFrom r s depth i =
     (if i < length s then
        let j = SkipNonCode s i r in
        if j \<noteq> i then splitExplainOptionsFrom r s depth j
        else if s ! i = CHR ''('' then splitExplainOptionsFrom r s (depth + 1) (i + 1)
        else if s ! i = CHR '')'' then
          (if depth - 1 = 0 then Some (slice s 1 i, drop (i + 1) s)
           else splitExplainOptionsFrom r s (depth - 1) (i + 1))
        else splitExplainOptionsFrom r s depth (i + 1)
      else None)"
  by pat_completeness auto
termination
  by (relation "measure (\<lambda>(r, s, d, i). length s - i)") (auto intro: skip_shorter)

declare splitExplainOptionsFrom.simps [simp del]

definition splitExplainOptions :: "StringReading \<Rightarrow> string \<Rightarrow> (string \<times> string) option" where
  "splitExplainOptions r s = splitExplainOptionsFrom r s 0 0"

function splitEntriesFrom :: "StringReading \<Rightarrow> string \<Rightarrow> int \<Rightarrow> nat \<Rightarrow> nat \<Rightarrow> string list" where
  "splitEntriesFrom r options depth start i =
     (if i < length options then
        let j = SkipNonCode options i r in
        if j \<noteq> i then splitEntriesFrom r options depth start j
        else if options ! i = CHR ''('' then splitEntriesFrom r options (depth + 1) start (i + 1)
        else if options ! i = CHR '')'' then splitEntriesFrom r options (depth - 1) start (i + 1)
        else if options ! i = CHR '','' \<and> depth = 0
        then slice options start i # splitEntriesFrom r options depth (i + 1) (i + 1)
        else splitEntriesFrom r options depth start (i + 1)
      else [drop start options])"
  by pat_completeness auto
termination
  by (relation "measure (\<lambda>(r, s, d, b, i). length s - i)") (auto intro: skip_shorter)

declare splitEntriesFrom.simps [simp del]

definition splitExplainOptionEntries :: "StringReading \<Rightarrow> string \<Rightarrow> string list" where
  "splitExplainOptionEntries r options =
     (let entries = splitEntriesFrom r options 0 0 0 in
      if length entries = 1 \<and> strip (hd entries) = [] then [] else entries)"

definition explainOptionsExecute :: "unicode_tables \<Rightarrow> StringReading \<Rightarrow> string \<Rightarrow> bool" where
  "explainOptionsExecute uc r options =
     (let entries = splitExplainOptionEntries r options in
      if entries = [] then True
      else \<exists>entry \<in> set entries.
             strings_ToUpper uc (fst (nextSQLWord (strip entry))) \<notin> set explainNonExecutingOptions)"

lemma trimLeadingRunes_shorter: "length (trimLeadingRunes runes s) \<le> length s"
proof (induction runes s rule: trimLeadingRunes.induct)
  case (1 runes s)
  then show ?case using leading_rune_shorter[of runes s]
    by (subst trimLeadingRunes.simps) (fastforce split: option.splits)
qed

lemma strip_shorter: "length (strip s) \<le> length s"
  using trimLeadingRunes_shorter[of "map rev space_runes" "rev (trimLeadingRunes space_runes (StripLeadingComments s))"]
    trimLeadingRunes_shorter[of space_runes "StripLeadingComments s"]
  by (simp add: strip_def strings_TrimSpace_def StripLeadingComments_def)

lemma explain_word_shorter:
  assumes "(w, rest) = nextSQLWord s" "strings_ToUpper uc w = kw" "kw \<in> {''ANALYZE'', ''ANALYSE'', ''VERBOSE''}"
  shows "length (strip rest) < length s"
proof -
  have "w \<noteq> []" using assms(2,3) by (auto simp: strings_ToUpper_def is_ascii_def)
  then have "length rest < length s"
    using assms(1) by (cases s) (auto simp: nextSQLWord_def less_Suc_eq_le length_dropWhile_le split: if_splits)
  with strip_shorter[of rest] show ?thesis by simp
qed

text \<open>The words ANALYZE and VERBOSE of the legacy form, in any order and number.\<close>

function explainWords :: "unicode_tables \<Rightarrow> bool \<Rightarrow> string \<Rightarrow> bool \<times> string" where
  "explainWords uc executes rest =
     (let (word, remainder) = nextSQLWord rest; upper = strings_ToUpper uc word in
      if upper = ''ANALYZE'' \<or> upper = ''ANALYSE'' then explainWords uc True (strip remainder)
      else if upper = ''VERBOSE'' then explainWords uc executes (strip remainder)
      else (executes, rest))"
  by pat_completeness auto
termination
  by (relation "measure (\<lambda>(uc, e, rest). length rest)")
     (auto intro: explain_word_shorter[OF _ refl] simp del: length_greater_0_conv)

declare explainWords.simps [simp del]

text \<open>\<open>(executes, rest)\<close>, or \<open>None\<close> for an option list that does not balance.\<close>

definition parseExplainHead :: "unicode_tables \<Rightarrow> StringReading \<Rightarrow> string \<Rightarrow> (bool \<times> string) option" where
  "parseExplainHead uc r body =
     (let rest = strip (drop (length ''EXPLAIN'') body) in
      if has_prefix rest ''('' then
        (case splitExplainOptions r rest of
           None \<Rightarrow> None
         | Some (options, remainder) \<Rightarrow> Some (explainOptionsExecute uc r options, strip remainder))
      else Some (explainWords uc False rest))"

definition explainExecutes :: "unicode_tables \<Rightarrow> string \<Rightarrow> bool" where
  "explainExecutes uc body \<longleftrightarrow>
     (\<exists>r \<in> set StringReadings. case parseExplainHead uc r body of None \<Rightarrow> True | Some (executes, _) \<Rightarrow> executes)"

section \<open>Read-only statements\<close>

definition maxExplainDepth :: nat where "maxExplainDepth = 8"

function isReadOnlyStatementAtDepth :: "unicode_tables \<Rightarrow> string \<Rightarrow> nat \<Rightarrow> StringReading \<Rightarrow> bool"
  and isReadOnlyExplain :: "unicode_tables \<Rightarrow> string \<Rightarrow> nat \<Rightarrow> StringReading \<Rightarrow> bool" where
  "isReadOnlyStatementAtDepth uc sql depth r =
     (let body = strip sql in
      if hasKeywordPrefix body ''EXPLAIN'' then isReadOnlyExplain uc body depth r
      else let upper = strings_ToUpper uc (MaskNonCode body r) in
        if has_prefix upper ''WITH'' then
          (if \<exists>kw \<in> set [''INSERT'', ''UPDATE'', ''DELETE'', ''MERGE'']. containsSQLKeyword upper kw then False
           else \<not> hasWritingSelectClause upper \<and> \<not> CallsSideEffectingFunction uc body r)
        else if has_prefix upper ''SELECT'' \<or> has_prefix upper ''TABLE ''
        then \<not> hasWritingSelectClause upper \<and> \<not> CallsSideEffectingFunction uc body r
        else has_prefix upper ''SHOW'')"
| "isReadOnlyExplain uc body depth r =
     (case parseExplainHead uc r body of
        None \<Rightarrow> False
      | Some (executes, rest) \<Rightarrow>
          if \<not> executes then True
          else if rest = [] \<or> depth \<ge> maxExplainDepth then False
          else isReadOnlyStatementAtDepth uc rest (depth + 1) r)"
  by pat_completeness auto
termination
  by (relation "measure (case_sum (\<lambda>(uc, sql, d, r). 2 * (9 - d) + 1) (\<lambda>(uc, body, d, r). 2 * (9 - d)))")
     (auto simp: maxExplainDepth_def)

declare isReadOnlyStatementAtDepth.simps [simp del] isReadOnlyExplain.simps [simp del]

definition isReadOnlyStatement :: "unicode_tables \<Rightarrow> string \<Rightarrow> bool" where
  "isReadOnlyStatement uc sql \<longleftrightarrow>
     (\<forall>r \<in> set StringReadings.
        let pieces = SplitStatements sql r; pieces = (if pieces = [] then [sql] else pieces) in
        \<forall>piece \<in> set pieces. isReadOnlyStatementAtDepth uc piece 0 r)"

end
