(* ===== verification/Sql_Lexer_Facts.thy ===== *)
theory Sql_Lexer_Facts
  imports Sql_Lexer
begin

text \<open>
  What the lexer guarantees. Every scan over a statement visits indices in the same way:
  it reads one byte of code, or jumps over a region that is not code. The locale
  \<open>code_scan\<close> states what such a scan needs of its skipping function and derives the facts
  that the masking, splitting and classifying loops share; it is interpreted on
  \<open>SkipNonCode\<close> under each reading of string literals.
\<close>

section \<open>Positions of a scan\<close>

inductive visited :: "(string \<Rightarrow> nat \<Rightarrow> nat) \<Rightarrow> string \<Rightarrow> nat \<Rightarrow> bool" for skip s where
  start: "visited skip s 0"
| code: "visited skip s i \<Longrightarrow> i < length s \<Longrightarrow> skip s i = i \<Longrightarrow> visited skip s (i + 1)"
| region: "visited skip s i \<Longrightarrow> i < length s \<Longrightarrow> skip s i \<noteq> i \<Longrightarrow> visited skip s (skip s i)"

definition code_at :: "(string \<Rightarrow> nat \<Rightarrow> nat) \<Rightarrow> string \<Rightarrow> nat \<Rightarrow> bool" where
  "code_at skip s i \<longleftrightarrow> visited skip s i \<and> i < length s \<and> skip s i = i"

definition scan_next :: "(string \<Rightarrow> nat \<Rightarrow> nat) \<Rightarrow> string \<Rightarrow> nat \<Rightarrow> nat" where
  "scan_next skip s i = (if skip s i = i then i + 1 else skip s i)"

locale code_scan =
  fixes skip :: "string \<Rightarrow> nat \<Rightarrow> nat"
  assumes skip_bounds: "i < length s \<Longrightarrow> i \<le> skip s i \<and> skip s i \<le> length s"
begin

lemma next_bounds: "i < length s \<Longrightarrow> i < scan_next skip s i \<and> scan_next skip s i \<le> length s"
  using skip_bounds[of i s] by (auto simp: scan_next_def)

lemma visited_next: "visited skip s i \<Longrightarrow> i < length s \<Longrightarrow> visited skip s (scan_next skip s i)"
  by (auto simp: scan_next_def intro: visited.code[simplified] visited.region)

lemma visited_le: "visited skip s i \<Longrightarrow> i \<le> length s"
  by (induction rule: visited.induct) (auto dest: skip_bounds)

lemma visited_cases: "visited skip s k \<Longrightarrow> k = 0 \<or> (\<exists>i. visited skip s i \<and> i < length s \<and> k = scan_next skip s i)"
  by (induction rule: visited.induct) (auto simp: scan_next_def)

text \<open>No visited index lies inside a step of the scan.\<close>

lemma visited_gap:
  assumes "visited skip s i" "visited skip s k" "i < k"
  shows "scan_next skip s i \<le> k"
  using assms
proof (induction k arbitrary: i rule: less_induct)
  case (less k)
  then obtain j where j: "visited skip s j" "j < length s" "k = scan_next skip s j"
    using visited_cases[of s k] by auto
  then have "j < k" using next_bounds[of j s] by simp
  consider "i < j" | "i = j" | "j < i" by linarith
  then show ?case
  proof cases
    case 1
    with less.IH[OF \<open>j < k\<close> less.prems(1) j(1)] \<open>j < k\<close> show ?thesis by simp
  next
    case 3
    with less.IH[OF less.prems(3) j(1) less.prems(1)] j(3) less.prems(3) show ?thesis by simp
  qed (simp add: j(3))
qed

lemma region_no_code:
  assumes "visited skip s i" "i < length s" "skip s i \<noteq> i" "i \<le> k" "k < skip s i"
  shows "\<not> code_at skip s k"
proof
  assume k: "code_at skip s k"
  then have "i \<noteq> k" using assms(3) by (auto simp: code_at_def)
  with visited_gap[OF assms(1), of k] k assms(3-5) show False by (auto simp: code_at_def scan_next_def)
qed

lemma scan_induct [case_names past code region]:
  assumes "\<And>i. length s \<le> i \<Longrightarrow> P i"
    and "\<And>i. i < length s \<Longrightarrow> skip s i = i \<Longrightarrow> P (i + 1) \<Longrightarrow> P i"
    and "\<And>i. i < length s \<Longrightarrow> skip s i \<noteq> i \<Longrightarrow> P (skip s i) \<Longrightarrow> P i"
  shows "P i"
proof (induction "length s - i" arbitrary: i rule: less_induct)
  case less
  show ?case
  proof (cases "i < length s")
    case True
    then have "P (scan_next skip s i)" using less[of "scan_next skip s i"] next_bounds[of i s] by linarith
    with True assms(2,3)[of i] show ?thesis by (auto simp: scan_next_def split: if_splits)
  qed (simp add: assms(1))
qed

end

interpretation lexer: code_scan "\<lambda>s i. SkipNonCode s i r" for r
  by unfold_locales (rule SkipNonCode_bounds)

section \<open>Masking\<close>

lemma mask_from_visited:
  assumes "visited (\<lambda>s i. SkipNonCode s i r) s i"
  shows "maskFrom r s i = map (\<lambda>k. if code_at (\<lambda>s i. SkipNonCode s i r) s k then s ! k else CHR '' '') [i..<length s]"
  using assms
proof (induction i rule: lexer.scan_induct[where s = s and r = r])
  case (code i)
  then have "code_at (\<lambda>s i. SkipNonCode s i r) s i" by (simp add: code_at_def)
  moreover have "visited (\<lambda>s i. SkipNonCode s i r) s (i + 1)" by (rule visited.code[OF code.prems code(1,2)])
  ultimately show ?case using code(1-3) by (subst maskFrom.simps) (simp add: upt_conv_Cons)
next
  case (region i)
  let ?j = "SkipNonCode s i r"
  have j: "i < ?j" "?j \<le> length s" using SkipNonCode_bounds[OF region(1), of r] region(2) by simp_all
  have "map (\<lambda>k. if code_at (\<lambda>s i. SkipNonCode s i r) s k then s ! k else CHR '' '') [i..<?j] = replicate (?j - i) (CHR '' '')"
    using lexer.region_no_code[OF region.prems region(1,2)] by (intro nth_equalityI) auto
  moreover have "visited (\<lambda>s i. SkipNonCode s i r) s ?j" by (rule visited.region[OF region.prems region(1,2)])
  moreover have "[i..<length s] = [i..<?j] @ [?j..<length s]" using j upt_add_eq_append[of i ?j "length s - ?j"] by simp
  ultimately show ?case using region(1-3) by (subst maskFrom.simps) (simp add: Let_def)
qed (simp add: maskFrom.simps)

section \<open>Splitting\<close>

fun join_semis :: "string list \<Rightarrow> string" where
  "join_semis [] = []"
| "join_semis [p] = p"
| "join_semis (p # ps) = p @ CHR '';'' # join_semis ps"

lemma splitFrom_nonempty: "splitFrom r s b i \<noteq> []"
proof (induction i arbitrary: b rule: lexer.scan_induct[where s = s and r = r])
  case (past i)
  then show ?case by (simp add: splitFrom.simps)
qed (subst splitFrom.simps; simp)+

lemma join_semis_Cons: "ps \<noteq> [] \<Longrightarrow> join_semis (p # ps) = p @ CHR '';'' # join_semis ps"
  by (cases ps) auto

lemma split_join: "b \<le> i \<Longrightarrow> b \<le> length s \<Longrightarrow> join_semis (splitFrom r s b i) = drop b s"
proof (induction i arbitrary: b rule: lexer.scan_induct[where s = s and r = r])
  case (past i)
  then show ?case by (simp add: splitFrom.simps)
next
  case (code i)
  have "slice s b i @ CHR '';'' # drop (i + 1) s = drop b s" if "s ! i = CHR '';''"
  proof -
    have "drop b s = take (i - b) (drop b s) @ drop i s"
      using code.prems by (metis append_take_drop_id drop_drop le_add_diff_inverse2)
    moreover have "drop i s = CHR '';'' # drop (i + 1) s" using code(1) that by (metis Cons_nth_drop_Suc Suc_eq_plus1)
    ultimately show ?thesis by (simp add: slice_def)
  qed
  then show ?case using code(1,2) code.prems code.IH splitFrom_nonempty
    by (subst splitFrom.simps) (auto simp: join_semis_Cons)
next
  case (region i)
  then have "b \<le> SkipNonCode s i r" using SkipNonCode_bounds[OF region(1), of r] by simp
  with region show ?case by (subst splitFrom.simps) simp
qed

lemma split_count:
  assumes "visited (\<lambda>s i. SkipNonCode s i r) s i"
  shows "length (splitFrom r s b i) = card {k. i \<le> k \<and> code_at (\<lambda>s i. SkipNonCode s i r) s k \<and> s ! k = CHR '';''} + 1"
  using assms
proof (induction i arbitrary: b rule: lexer.scan_induct[where s = s and r = r])
  case (past i)
  then have none: "{k. i \<le> k \<and> code_at (\<lambda>s i. SkipNonCode s i r) s k \<and> s ! k = CHR '';''} = {}" by (auto simp: code_at_def)
  show ?case unfolding none using past(1) by (simp add: splitFrom.simps)
next
  case (code i)
  let ?S = "\<lambda>i. {k. i \<le> k \<and> code_at (\<lambda>s i. SkipNonCode s i r) s k \<and> s ! k = CHR '';''}"
  have i: "code_at (\<lambda>s i. SkipNonCode s i r) s i" using code by (simp add: code_at_def)
  have fin: "finite (?S (i + 1))" by (rule finite_subset[of _ "{..<length s}"]) (auto simp: code_at_def)
  have "?S i = (if s ! i = CHR '';'' then insert i (?S (i + 1)) else ?S (i + 1))"
    using i by (auto simp: le_less Suc_le_eq)
  moreover have "visited (\<lambda>s i. SkipNonCode s i r) s (i + 1)" by (rule visited.code[OF code.prems code(1,2)])
  ultimately show ?case using code(1-3) fin by (subst splitFrom.simps) auto
next
  case (region i)
  let ?j = "SkipNonCode s i r"
  have "{k. i \<le> k \<and> code_at (\<lambda>s i. SkipNonCode s i r) s k \<and> s ! k = CHR '';''} =
      {k. ?j \<le> k \<and> code_at (\<lambda>s i. SkipNonCode s i r) s k \<and> s ! k = CHR '';''}"
    using lexer.region_no_code[OF region.prems region(1,2)] SkipNonCode_bounds[OF region(1), of r] by force
  moreover have "visited (\<lambda>s i. SkipNonCode s i r) s ?j" by (rule visited.region[OF region.prems region(1,2)])
  ultimately show ?case using region(1-3) by (subst splitFrom.simps) simp
qed

section \<open>Moving along a string\<close>

lemma lineEnd_shift: "lineEnd (p @ s) (length p + i) = length p + lineEnd s i"
  by (simp add: lineEnd_def)

lemma quoteContinuationFrom_shift:
  "quoteContinuationFrom (p @ s) w (length p + i) = map_option (\<lambda>j. length p + j) (quoteContinuationFrom s w i)"
proof (induction s w i rule: quoteContinuationFrom.induct)
  case (1 s w i)
  have n: "(p @ s) ! (length p + i) = s ! i" "(p @ s) ! (length p + i + 1) = s ! (i + 1)"
    by (simp_all add: nth_append)
  show ?case using "1.IH"
    by (subst (1 2) quoteContinuationFrom.simps) (auto simp: n[simplified] lineEnd_shift)
qed

lemma resumesAt_end: "quoteContinuation post 0 = None \<Longrightarrow> resumesAt c (p @ squote # post) (length p) = None"
  using quoteContinuationFrom_shift[of "p @ [squote]" post False 0]
  by (simp add: resumesAt_def quoteContinuation_def)

section \<open>Literals\<close>

text \<open>A text as the body of a string literal: every quote is doubled.\<close>

definition double_quotes :: "string \<Rightarrow> string" where
  "double_quotes x = concat (map (\<lambda>c. if c = squote then [squote, squote] else [c]) x)"

definition string_literal :: "string \<Rightarrow> string" where
  "string_literal x = squote # double_quotes x @ [squote]"

lemma skip_literal_body:
  assumes "e \<Longrightarrow> backslash \<notin> set x" "post = [] \<or> hd post \<noteq> squote" "quoteContinuation post 0 = None"
  shows "skipQuotedFrom e True True squote (p @ double_quotes x @ squote # post) (length p) =
    length p + length (double_quotes x) + 1"
  using assms(1)
proof (induction x arbitrary: p)
  case Nil
  have "\<not> doubledAt True squote (p @ squote # post) (length p)"
    using assms(2) by (cases post) (auto simp: doubledAt_def nth_append)
  then show ?case using resumesAt_end[OF assms(3), of True p]
    by (subst skipQuotedFrom_step) (simp add: double_quotes_def escapedAt_def quote_defs)
next
  case (Cons c x)
  show ?case
  proof (cases "c = squote")
    case True
    have "skipQuotedFrom e True True squote ((p @ [squote, squote]) @ double_quotes x @ squote # post) (length (p @ [squote, squote])) =
        length (p @ [squote, squote]) + length (double_quotes x) + 1"
      by (rule Cons.IH) (use Cons.prems in auto)
    then show ?thesis using True
      by (subst skipQuotedFrom_step)
         (simp add: double_quotes_def escapedAt_def doubledAt_def quote_defs nth_append)
  next
    case False
    have "skipQuotedFrom e True True squote ((p @ [c]) @ double_quotes x @ squote # post) (length (p @ [c])) =
        length (p @ [c]) + length (double_quotes x) + 1"
      by (rule Cons.IH) (use Cons.prems in auto)
    then show ?thesis using False Cons.prems
      by (subst skipQuotedFrom_step) (auto simp: double_quotes_def escapedAt_def nth_append)
  qed
qed

section \<open>Comments\<close>

text \<open>The body of a block comment: comments nest, and what closes it does not start inside.\<close>

inductive comment_body :: "string \<Rightarrow> bool" where
  empty: "comment_body []"
| plain: "comment_body w \<Longrightarrow> \<not> (c = CHR ''/'' \<and> hd (w @ ''*/'') = CHR ''*'') \<Longrightarrow>
    \<not> (c = CHR ''*'' \<and> hd (w @ ''*/'') = CHR ''/'') \<Longrightarrow> comment_body (c # w)"
| nested: "comment_body w \<Longrightarrow> comment_body v \<Longrightarrow> comment_body (''/*'' @ w @ ''*/'' @ v)"

lemma skip_comment_body:
  "comment_body w \<Longrightarrow> 0 < d \<Longrightarrow>
     skipBlockCommentFrom (p @ w @ ''*/'' @ post) d (length p) =
     skipBlockCommentFrom (p @ w @ ''*/'' @ post) (d - 1) (length p + length w + 2)"
proof (induction w arbitrary: p d post rule: comment_body.induct)
  case empty
  then show ?case by (subst skipBlockCommentFrom.simps) (simp add: nth_append)
next
  case (plain w c)
  have hd: "(w @ ''*/'' @ post) ! 0 = hd (w @ ''*/'')" by (cases w) auto
  have "skipBlockCommentFrom (p @ (c # w) @ ''*/'' @ post) d (length p) =
      skipBlockCommentFrom (p @ (c # w) @ ''*/'' @ post) d (length p + 1)"
    using plain(2,3) plain.prems hd by (subst skipBlockCommentFrom.simps) (auto simp: nth_append)
  also have "\<dots> = skipBlockCommentFrom (p @ (c # w) @ ''*/'' @ post) (d - 1) (length p + length (c # w) + 2)"
    using plain.IH[OF plain.prems, of "p @ [c]" post] by simp
  finally show ?case .
next
  case (nested w v)
  let ?s = "p @ (''/*'' @ w @ ''*/'' @ v) @ ''*/'' @ post"
  have "skipBlockCommentFrom ?s d (length p) = skipBlockCommentFrom ?s (d + 1) (length p + 2)"
    using nested.prems by (subst skipBlockCommentFrom.simps) (simp add: nth_append)
  also have "\<dots> = skipBlockCommentFrom ?s d (length p + 2 + length w + 2)"
    using nested.IH(1)[of "d + 1" "p @ ''/*''" "v @ ''*/'' @ post"] by simp
  also have "\<dots> = skipBlockCommentFrom ?s (d - 1) (length p + 2 + length w + 2 + length v + 2)"
    using nested.IH(2)[OF nested.prems, of "p @ ''/*'' @ w @ ''*/''" post] by (simp add: add.commute add.left_commute)
  finally show ?case by (simp add: add.assoc)
qed

lemma comment_region:
  assumes "comment_body w"
  shows "SkipNonCode (pre @ ''/*'' @ w @ ''*/'' @ post) (length pre) r = length pre + length w + 4"
proof -
  let ?s = "pre @ ''/*'' @ w @ ''*/'' @ post"
  have c: "?s ! length pre = CHR ''/''" "?s ! (length pre + 1) = CHR ''*''" by (simp_all add: nth_append)
  then have "\<not> IsQuoteStart ?s (length pre)" "ScanDollarTag ?s (length pre) = []"
    by (auto simp: IsQuoteStart_def quote_defs literalPrefix_def ScanDollarTag_def Let_def)
  moreover have "\<not> lineCommentAt ?s (length pre)" "blockCommentAt ?s (length pre)"
    using c by (auto simp: lineCommentAt_def blockCommentAt_def)
  moreover have "skipBlockComment ?s (length pre) = length pre + length w + 4"
    using skip_comment_body[OF assms, of 1 "pre @ ''/*''" post]
    by (simp add: skipBlockComment_def skipBlockCommentFrom.simps[of _ 0])
  ultimately show ?thesis by (simp add: SkipNonCode_def)
qed

section \<open>Properties\<close>

text \<open>
  A scan makes progress and stays in range. From every index of a statement the lexer's
  step ends at or after it and at most at the end of the statement, so that no loop over the
  statement reads outside it or runs forever.
\<close>

theorem skip_in_range:
  assumes "i < length s"
  shows "i \<le> SkipNonCode s i r \<and> SkipNonCode s i r \<le> length s \<and>
    (IsQuoteStart s i \<longrightarrow> i < SkipNonCode s i r \<and> SkipNonCode s i r = SkipQuoted s i r)"
  using SkipNonCode_bounds[OF assms, of r] SkipQuoted_bounds[OF assms, of r] by (auto simp: SkipNonCode_def)

theorem skip_in_range_witness:
  "SkipNonCode [squote, squote, CHR ''a''] 0 StandardStrings \<le> length [squote, squote, CHR ''a'']"
  using skip_in_range[of 0 "[squote, squote, CHR ''a'']" StandardStrings] by simp

text \<open>
  A literal is one region, whatever text it holds. A text written as a string literal, with
  its quotes doubled, is skipped as a whole: nothing in it is read as code, and the code after
  it is not swallowed. Where a backslash escapes, the text must hold none; and what follows
  must not continue the literal.
\<close>

theorem literal_is_one_region:
  assumes "r = StandardStrings \<or> backslash \<notin> set x"
    and "post = [] \<or> hd post \<noteq> squote" "quoteContinuation post 0 = None"
  shows "SkipNonCode (pre @ string_literal x @ post) (length pre) r = length pre + length (string_literal x)"
proof -
  have "(pre @ string_literal x @ post) ! length pre = squote" by (simp add: string_literal_def)
  then show ?thesis
    using skip_literal_body[OF _ assms(2,3), of "r = EscapeStrings" x "pre @ [squote]"] assms(1)
    by (auto simp: SkipNonCode_def IsQuoteStart_def SkipQuoted_def string_literal_def)
qed

theorem literal_is_one_region_witness:
  "SkipNonCode (''a='' @ string_literal ''x; drop'' @ '' or b'') 2 EscapeStrings = 11"
proof -
  have "quoteContinuation '' or b'' 0 = None" by code_simp
  with literal_is_one_region[of EscapeStrings "''x; drop''" "'' or b''" "''a=''"] show ?thesis
    by (simp add: string_literal_def double_quotes_def quote_defs eval_nat_numeral)
qed

text \<open>
  Block comments nest. A comment whose body is well nested is skipped exactly to its own
  closing mark, whatever comments it contains and whatever follows.
\<close>

theorem comment_is_one_region:
  assumes "comment_body w"
  shows "SkipNonCode (pre @ ''/*'' @ w @ ''*/'' @ post) (length pre) r = length pre + length w + 4"
  using assms by (rule comment_region)

theorem comment_is_one_region_witness: "SkipNonCode (''a/* x /* y */ z */b'') 1 StandardStrings = 18"
proof -
  have sp: "comment_body '' ''" "comment_body '' y ''" "comment_body '' z ''"
    by (intro comment_body.empty comment_body.plain; simp)+
  have "comment_body ('' x '' @ ''/*'' @ '' y '' @ ''*/'' @ '' z '')"
    using comment_body.nested[OF sp(2,3)] by (auto intro!: comment_body.plain)
  from comment_is_one_region[OF this, of "''a''" "''b''" StandardStrings] show ?thesis by simp
qed

text \<open>
  Masking keeps every byte of code where it is and blanks everything else: the mask has the
  statement's length, and each of its bytes is the statement's byte if the scan reads it as
  code, and a space otherwise.
\<close>

theorem mask_keeps_code:
  "length (MaskNonCode s r) = length s \<and>
   (\<forall>k < length s. MaskNonCode s r ! k =
      (if code_at (\<lambda>s i. SkipNonCode s i r) s k then s ! k else CHR '' ''))"
  using mask_from_visited[OF visited.start, of r s] by (simp add: MaskNonCode_def)

theorem mask_keeps_code_witness:
  "length (MaskNonCode ''a -- b'' StandardStrings) = 6"
  using mask_keeps_code[of "''a -- b''" StandardStrings] by simp

text \<open>
  Splitting loses nothing: the parts of a script, joined by semicolons, are the script, and
  there is one cut for each semicolon that is code and none for any other.
\<close>

theorem split_rejoins:
  "join_semis (splitFrom r sql 0 0) = sql \<and>
   length (splitFrom r sql 0 0) = card {k. code_at (\<lambda>s i. SkipNonCode s i r) sql k \<and> sql ! k = CHR '';''} + 1"
  using split_join[of 0 0 sql r] split_count[OF visited.start, of r sql 0] by simp

end
