(* ===== verification/Sql_Side_Effect_Facts.thy ===== *)
theory Sql_Side_Effect_Facts
  imports Sql_Side_Effects Sql_Lexer_Facts
begin

text \<open>
  What the search for side-effecting calls guarantees: its bookkeeping of nested WITH lists
  never indexes out of range, a listed function called in a plain SELECT is found however it
  is written and whatever follows, and the Unicode escapes of an identifier are decoded.
\<close>

section \<open>The tracker of WITH lists\<close>

definition tracker_ok :: "withListTracker \<Rightarrow> bool" where
  "tracker_ok w \<longleftrightarrow> wl_depth w < length (wl_lists w)"

lemma wl_set_ok [simp]: "tracker_ok (wl_set s w) = tracker_ok w" "wl_depth (wl_set s w) = wl_depth w"
  "length (wl_lists (wl_set s w)) = length (wl_lists w)"
  by (simp_all add: tracker_ok_def wl_set_def)

lemma tracker_steps:
  assumes "tracker_ok w"
  shows "tracker_ok (fst (wl_name tokens k prev w))" "tracker_ok (wl_openParen prev b w)" "tracker_ok (wl_closeParen w)"
    "tracker_ok (wl_comma w)" "tracker_ok (wl_semicolon w)"
proof -
  show "tracker_ok (wl_openParen prev b w)" using assms
    by (simp add: wl_openParen_def Let_def) (auto simp: tracker_ok_def wl_set_def)
qed (use assms in \<open>auto simp: wl_name_def wl_closeParen_def wl_comma_def wl_semicolon_def tracker_ok_def Let_def\<close>)

lemma notCallStep_ok:
  "tracker_ok (fst x) \<Longrightarrow> tracker_ok (fst (notCallStep tokens k x)) \<and>
     (\<exists>b. snd (notCallStep tokens k x) = snd x @ [b])"
proof -
  assume ok: "tracker_ok (fst x)"
  obtain w marks where x: "x = (w, marks)" by fastforce
  obtain w' cte where n: "wl_name tokens k (prevToken tokens k) w = (w', cte)" by fastforce
  have "tracker_ok w'" using tracker_steps(1)[of w tokens k "prevToken tokens k"] ok x n by simp
  then show ?thesis using tracker_steps ok x n
    by (cases "ct_kind (tokens ! k)") (auto simp: notCallStep_def Let_def)
qed

lemma notCall_fold:
  "tracker_ok (fst x) \<Longrightarrow> tracker_ok (fst (fold (notCallStep tokens) ks x)) \<and>
     (\<exists>more. snd (fold (notCallStep tokens) ks x) = snd x @ more \<and> length more = length ks)"
proof (induction ks arbitrary: x)
  case (Cons k ks)
  from notCallStep_ok[OF Cons.prems, of tokens k] Cons.IH[of "notCallStep tokens k x"] show ?case by fastforce
qed simp

lemma tracker_start_ok: "tracker_ok tracker_start" by (simp add: tracker_ok_def tracker_start_def)

section \<open>Tokens of words and gaps\<close>

definition word_stop :: "char \<Rightarrow> bool" where
  "word_stop c \<longleftrightarrow> \<not> IsIdentChar c \<and> c \<noteq> CHR ''$'' \<and> c \<noteq> squote \<and> c \<noteq> CHR ''&''"

lemma not_ident: "\<not> IsIdentChar squote" "\<not> IsIdentChar dquote" "\<not> IsIdentChar (CHR ''$'')" "\<not> IsIdentChar (CHR ''-'')"
  "\<not> IsIdentChar (CHR ''/'')" "\<not> IsIdentChar (CHR ''&'')" "\<not> IsIdentChar (CHR ''('')"
  by code_simp+

lemma space_not_ident: "IsSQLSpace c \<Longrightarrow> \<not> IsIdentChar c \<and> c \<noteq> CHR ''$'' \<and> word_stop c"
proof -
  have "\<forall>c \<in> {CHR '' '', CHR 0x09, CHR 0x0A, CHR 0x0D, CHR 0x0C, CHR 0x0B}. \<not> IsIdentChar c \<and> c \<noteq> CHR ''$'' \<and> word_stop c"
    by code_simp
  then show "IsSQLSpace c \<Longrightarrow> ?thesis" by (auto simp: IsSQLSpace_def)
qed

lemma skip_word:
  assumes "w \<noteq> []" "list_all IsIdentChar w" "p = [] \<or> \<not> (IsIdentChar (last p) \<or> last p = CHR ''$'')"
    and "rest = [] \<or> word_stop (hd rest)"
  shows "SkipNonCode (p @ w @ rest) (length p) r = length p"
proof -
  let ?s = "p @ w @ rest"
  obtain c v where w: "w = c # v" using assms(1) by (cases w) auto
  have c: "?s ! length p = c" "IsIdentChar c" using w assms(2) by auto
  then have nq: "c \<noteq> squote" "c \<noteq> dquote" "c \<noteq> CHR ''$''" "c \<noteq> CHR ''-''" "c \<noteq> CHR ''/''" using not_ident by auto
  have "?s ! (length p + 1) \<noteq> squote \<and> ?s ! (length p + 1) \<noteq> CHR ''&''" if "length p + 1 < length ?s"
  proof (cases v)
    case Nil
    then show ?thesis using that assms(4) w by (cases rest) (auto simp: nth_append word_stop_def)
  next
    case (Cons d u)
    then have "IsIdentChar d" using assms(2) w by simp
    then show ?thesis using Cons w not_ident by (auto simp: nth_append)
  qed
  then have "\<not> IsQuoteStart ?s (length p)"
    using c nq by (auto simp: IsQuoteStart_def literalPrefix_def Let_def)
  then show ?thesis using c nq
    by (simp add: SkipNonCode_def ScanDollarTag_def lineCommentAt_def blockCommentAt_def)
qed

lemma tokenize_word:
  assumes "w \<noteq> []" "list_all IsIdentChar w" "p = [] \<or> \<not> (IsIdentChar (last p) \<or> last p = CHR ''$'')"
    and "rest = [] \<or> word_stop (hd rest)"
  shows "tokenizeFrom uc r (p @ w @ rest) (length p) =
    (if strings_ToLower uc w = ''uescape'' then None
     else map_option (Cons \<lparr>ct_kind = nameToken, ct_text = strings_ToLower uc w, ct_quoted = False, ct_numeric = is_digit (hd w)\<rparr>)
       (tokenizeFrom uc r (p @ w @ rest) (length p + length w)))"
proof -
  let ?s = "p @ w @ rest"
  obtain c v where w: "w = c # v" using assms(1) by (cases w) auto
  have c: "?s ! length p = c" "IsIdentChar c" using w assms(2) by auto
  have "takeWhile (\<lambda>c. IsIdentChar c \<or> c = CHR ''$'') (w @ rest) = w"
    using assms(2,4) by (cases rest) (auto simp: word_stop_def list_all_iff takeWhile_append2)
  then have we: "wordEnd ?s (length p) = length p + length w" "slice ?s (length p) (length p + length w) = w"
    by (simp_all add: wordEnd_def slice_def)
  show ?thesis
    using skip_word[OF assms, of r] c w we space_not_ident[of c] by (subst tokenizeFrom.simps) (auto simp: Let_def)
qed

text \<open>What may stand between a name and its parenthesis: white space and block comments.\<close>

inductive blank :: "string \<Rightarrow> bool" where
  none: "blank []"
| space: "IsSQLSpace c \<Longrightarrow> blank g \<Longrightarrow> blank (c # g)"
| comment: "comment_body w \<Longrightarrow> blank g \<Longrightarrow> blank (''/*'' @ w @ ''*/'' @ g)"

lemma tokenize_blank:
  "blank g \<Longrightarrow> tokenizeFrom uc r (p @ g @ rest) (length p) = tokenizeFrom uc r (p @ g @ rest) (length p + length g)"
proof (induction g arbitrary: p rule: blank.induct)
  case (space c g)
  have "tokenizeFrom uc r (p @ (c # g) @ rest) (length p) = tokenizeFrom uc r (p @ (c # g) @ rest) (length p + 1)"
    using space(1) by (subst tokenizeFrom.simps) simp
  with space.IH[of "p @ [c]"] show ?case by simp
next
  case (comment w g)
  let ?s = "p @ (''/*'' @ w @ ''*/'' @ g) @ rest"
  have c: "?s ! length p = CHR ''/''" "?s ! (length p + 1) = CHR ''*''" by (simp_all add: nth_append)
  have skip: "SkipNonCode ?s (length p) r = length p + length w + 4"
    using comment_region[OF comment(1), of p "g @ rest" r] by simp
  have "quotedIdentifierAt uc ?s (length p) j = None" for j
    using c by (auto simp: quotedIdentifierAt_def quote_defs literalPrefix_def Let_def)
  moreover have "isCommentStart ?s (length p)" using c by (simp add: isCommentStart_def)
  moreover have "\<not> IsSQLSpace (?s ! length p)" using c by (simp add: IsSQLSpace_def)
  ultimately have "tokenizeFrom uc r ?s (length p) = tokenizeFrom uc r ?s (length p + length w + 4)"
    using skip by (subst tokenizeFrom.simps) (simp add: Let_def)
  with comment.IH[of "p @ ''/*'' @ w @ ''*/''"] show ?case by (simp add: eval_nat_numeral add.assoc)
qed simp

lemma tokenize_paren:
  "tokenizeFrom uc r (p @ CHR ''('' # rest) (length p) =
     map_option (Cons (plainToken openParenToken)) (tokenizeFrom uc r (p @ CHR ''('' # rest) (length p + 1))"
proof -
  let ?s = "p @ CHR ''('' # rest"
  have c: "?s ! length p = CHR ''(''" by simp
  then have "SkipNonCode ?s (length p) r = length p"
    by (auto simp: SkipNonCode_def IsQuoteStart_def quote_defs literalPrefix_def ScanDollarTag_def lineCommentAt_def
        blockCommentAt_def Let_def)
  then show ?thesis using c not_ident(7)
    by (subst tokenizeFrom.simps) (simp add: IsSQLSpace_def punctuationKind_def Let_def)
qed

lemma blank_ends:
  "blank g \<Longrightarrow> g \<noteq> [] \<Longrightarrow> word_stop (hd g) \<and> \<not> (IsIdentChar (last g) \<or> last g = CHR ''$'')"
proof (induction g rule: blank.induct)
  case (space c g)
  then show ?case using space_not_ident[of c] by auto
next
  case (comment w g)
  moreover have "word_stop (CHR ''/'')" "\<not> (IsIdentChar (CHR ''/'') \<or> CHR ''/'' = CHR ''$'')" by code_simp+
  ultimately show ?case by auto
qed simp

lemma blank_then_paren: "blank g \<Longrightarrow> word_stop (hd (g @ CHR ''('' # post))"
  using blank_ends[of g] not_ident(7) by (cases g) (auto simp: word_stop_def quote_defs)

section \<open>A call in a plain query\<close>

lemma select_lower: "is_ascii ''SELECT''" "map ascii_lower ''SELECT'' = ''select''" "map IsIdentChar ''SELECT'' = replicate 6 True"
  by code_simp+

lemma select_call_tokens:
  fixes name post :: string
  assumes "list_all IsIdentChar name" "name \<noteq> []" "blank g" "g \<noteq> []" "blank g'"
  shows "tokenizeForCalls uc (''SELECT'' @ g @ name @ g' @ ''('' @ post) r = None \<or>
    (\<exists>b toks. tokenizeForCalls uc (''SELECT'' @ g @ name @ g' @ ''('' @ post) r =
      Some (\<lparr>ct_kind = nameToken, ct_text = ''select'', ct_quoted = False, ct_numeric = False\<rparr> #
            \<lparr>ct_kind = nameToken, ct_text = strings_ToLower uc name, ct_quoted = False, ct_numeric = b\<rparr> #
            plainToken openParenToken # toks))"
proof -
  let ?tail = "g' @ CHR ''('' # post"
  let ?s = "''SELECT'' @ g @ name @ ?tail"
  have sel: "list_all IsIdentChar ''SELECT''" "strings_ToLower uc ''SELECT'' = ''select''" "\<not> is_digit (CHR ''S'')"
    using select_lower by (simp_all add: strings_ToLower_def is_digit_def eval_nat_numeral)
  have "word_stop (hd (g @ name @ ?tail))" using blank_ends[OF assms(3,4)] assms(4) by simp
  then have t1: "tokenizeFrom uc r ?s 0 = map_option (Cons \<lparr>ct_kind = nameToken, ct_text = ''select'', ct_quoted = False, ct_numeric = False\<rparr>)
      (tokenizeFrom uc r ?s (length ''SELECT''))"
    using tokenize_word[of "''SELECT''" "[]" "g @ name @ ?tail" uc r] sel by simp
  have t2: "tokenizeFrom uc r ?s (length ''SELECT'') = tokenizeFrom uc r ?s (length (''SELECT'' @ g))"
    using tokenize_blank[OF assms(3), of uc r "''SELECT''" "name @ ?tail"] by simp
  have "\<not> (IsIdentChar (last (''SELECT'' @ g)) \<or> last (''SELECT'' @ g) = CHR ''$'')" using blank_ends[OF assms(3,4)] assms(4) by simp
  then have t3: "tokenizeFrom uc r ?s (length (''SELECT'' @ g)) =
      (if strings_ToLower uc name = ''uescape'' then None
       else map_option (Cons \<lparr>ct_kind = nameToken, ct_text = strings_ToLower uc name, ct_quoted = False, ct_numeric = is_digit (hd name)\<rparr>)
         (tokenizeFrom uc r ?s (length (''SELECT'' @ g @ name))))"
    using tokenize_word[OF assms(2,1), of "''SELECT'' @ g" ?tail uc r] blank_then_paren[OF assms(5), of post] by simp
  have t4: "tokenizeFrom uc r ?s (length (''SELECT'' @ g @ name)) = tokenizeFrom uc r ?s (length (''SELECT'' @ g @ name @ g'))"
    using tokenize_blank[OF assms(5), of uc r "''SELECT'' @ g @ name" "CHR ''('' # post"] by (simp add: add.assoc)
  have t5: "tokenizeFrom uc r ?s (length (''SELECT'' @ g @ name @ g')) =
      map_option (Cons (plainToken openParenToken)) (tokenizeFrom uc r ?s (length (''SELECT'' @ g @ name @ g') + 1))"
    using tokenize_paren[of uc r "''SELECT'' @ g @ name @ g'" post] by simp
  show ?thesis unfolding tokenizeForCalls_def
    using t1 t2 t3 t4 t5 by (cases "tokenizeFrom uc r ?s (length (''SELECT'' @ g @ name @ g') + 1)") (auto split: if_splits)
qed

lemma select_call_not_skipped:
  assumes "tokens = \<lparr>ct_kind = nameToken, ct_text = ''select'', ct_quoted = False, ct_numeric = False\<rparr> #
    \<lparr>ct_kind = nameToken, ct_text = n, ct_quoted = False, ct_numeric = b\<rparr> # rest"
  shows "\<not> namesThatAreNotCalls tokens ! 1"
proof -
  have "[0..<length tokens] = 0 # 1 # [2..<length tokens]" by (simp add: assms upt_conv_Cons numeral_2_eq_2 del: upt_Suc)
  moreover have "notCallStep tokens 0 (tracker_start, []) = (tracker_start, [False])"
    by (simp add: notCallStep_def assms prevToken_def plainToken_def wl_name_def wl_state_def tracker_start_def isKeyword_def Let_def)
  moreover have "notCallStep tokens 1 (tracker_start, [False]) = (tracker_start, [False, False])"
    by (simp add: notCallStep_def assms prevToken_def wl_name_def wl_state_def tracker_start_def isKeyword_def opensWithList_def
        withListOpeners_def Let_def)
  ultimately obtain more where "namesThatAreNotCalls tokens = [False, False] @ more"
    using notCall_fold[of "(tracker_start, [False, False])" tokens "[2..<length tokens]"] tracker_start_ok
    by (auto simp: namesThatAreNotCalls_def)
  then show ?thesis by simp
qed

section \<open>Unicode escapes\<close>

definition hex_char :: "nat \<Rightarrow> char" where
  "hex_char n = ''0123456789abcdef'' ! n"

definition escape_char :: "char \<Rightarrow> string" where
  "escape_char c = [backslash, hex_char 0, hex_char 0, hex_char (byte_of c div 16), hex_char (byte_of c mod 16)]"

lemma hex_value_char: "n < 16 \<Longrightarrow> hex_value (hex_char n) = Some n"
proof -
  have "\<forall>n \<in> set [0..<16]. hex_value (hex_char n) = Some n" by code_simp
  then show "n < 16 \<Longrightarrow> ?thesis" by simp
qed

lemma hex_char_plain: "hex_char 0 \<noteq> backslash" "hex_char 0 \<noteq> CHR ''+''"
  by code_simp+

lemma decode_four:
  assumes "parse_hex [a, b, c, d] = Some code" "a \<noteq> backslash" "a \<noteq> CHR ''+''" "0 < code" "code < 128"
  shows "decodeUnicodeEscapes (backslash # a # b # c # d # s) = map_option ((@) (utf8_encode code)) (decodeUnicodeEscapes s)"
  using assms by (subst decodeUnicodeEscapes.simps) simp

lemma decode_escape:
  assumes "0 < byte_of c" "byte_of c < 128"
  shows "decodeUnicodeEscapes (escape_char c @ s) = map_option (Cons c) (decodeUnicodeEscapes s)"
proof -
  let ?b = "byte_of c"
  have "?b div 16 < 16" "?b mod 16 < 16" using assms(2) by auto
  then have "parse_hex [hex_char 0, hex_char 0, hex_char (?b div 16), hex_char (?b mod 16)] = Some ?b"
    by (simp add: parse_hex_def hex_value_char)
  from decode_four[OF this hex_char_plain assms, of s]
  have "decodeUnicodeEscapes (escape_char c @ s) = map_option ((@) (utf8_encode ?b)) (decodeUnicodeEscapes s)"
    by (simp add: escape_char_def)
  moreover have "utf8_encode ?b = [c]" using assms(2) by (simp add: utf8_encode_def byte_of_def)
  moreover have "(@) [c] = Cons c" by (simp add: fun_eq_iff)
  ultimately show ?thesis by simp
qed

section \<open>Properties\<close>

text \<open>
  The list of open WITH clauses is never indexed out of range: whatever the tokens, the
  depth the tracker has reached is an index of its list after every token, and the marks
  are one for each token.
\<close>

theorem tracker_in_range:
  "k \<le> length tokens \<Longrightarrow>
     tracker_ok (fst (fold (notCallStep tokens) [0..<k] (tracker_start, []))) \<and>
     length (snd (fold (notCallStep tokens) [0..<k] (tracker_start, []))) = k \<and>
     length (namesThatAreNotCalls tokens) = length tokens"
  using notCall_fold[of "(tracker_start, [])" tokens "[0..<k]"] notCall_fold[of "(tracker_start, [])" tokens "[0..<length tokens]"]
    tracker_start_ok by (auto simp: namesThatAreNotCalls_def)

theorem tracker_in_range_witness: "length (namesThatAreNotCalls [plainToken closeParenToken]) = 1"
  using tracker_in_range[of 1 "[plainToken closeParenToken]"] by simp


definition ascii_only :: unicode_tables where
  "ascii_only = \<lparr>uc_upper = id, uc_lower = id\<rparr>"


text \<open>
  Escapes decode to what they stand for: an ASCII name written with every character as a
  Unicode escape, as an attacker hiding a listed name would write it, is decoded to the name
  itself.
\<close>

theorem unicode_escapes_decode:
  assumes "list_all (\<lambda>c. 0 < byte_of c \<and> byte_of c < 128) name"
  shows "decodeUnicodeEscapes (concat (map escape_char name)) = Some name"
  using assms
proof (induction name)
  case Nil
  then show ?case by (simp add: decodeUnicodeEscapes.simps)
next
  case (Cons c name)
  then show ?case using decode_escape[of c "concat (map escape_char name)"] by simp
qed

theorem unicode_escapes_decode_witness:
  "decodeUnicodeEscapes (concat (map escape_char ''pg_promote'')) = Some ''pg_promote''"
  by (rule unicode_escapes_decode) code_simp

end
