(* ===== verification/Sql_Classifier_Facts.thy ===== *)
theory Sql_Classifier_Facts
  imports Sql_Classifier Sql_Side_Effect_Facts
begin

text \<open>
  What the classifier decides. The search for a keyword finds exactly the words of a text; and
  a statement is read-only exactly when a specification of reading statements, stated with the
  words of its code and without the limit on nested EXPLAINs, admits it within that limit.
\<close>

section \<open>Words that stand alone\<close>

definition occurs_at :: "string \<Rightarrow> string \<Rightarrow> nat \<Rightarrow> bool" where
  "occurs_at u k pos \<longleftrightarrow> pos + length k \<le> length u \<and> take (length k) (drop pos u) = k"

definition alone_at :: "string \<Rightarrow> string \<Rightarrow> nat \<Rightarrow> bool" where
  "alone_at u k pos \<longleftrightarrow> occurs_at u k pos \<and> (pos = 0 \<or> \<not> IsIdentChar (u ! (pos - 1))) \<and>
     (pos + length k \<ge> length u \<or> \<not> IsIdentChar (u ! (pos + length k)))"

lemma strings_Index_Some:
  "strings_Index s k = Some p \<Longrightarrow> occurs_at s k p \<and> (\<forall>q < p. \<not> occurs_at s k q)"
proof (induction s arbitrary: p)
  case (Cons c s)
  show ?case
  proof (cases "take (length k) (c # s) = k")
    case True
    then have "length k \<le> length (c # s)" by (metis length_take min.cobounded1)
    with True Cons.prems show ?thesis by (auto simp: occurs_at_def)
  next
    case False
    with Cons.prems obtain q where q: "strings_Index s k = Some q" "p = Suc q" by auto
    have "\<not> occurs_at (c # s) k n" if "n < p" for n
      using that Cons.IH[OF q(1)] q(2) False by (cases n) (auto simp: occurs_at_def)
    moreover have "occurs_at (c # s) k p" using Cons.IH[OF q(1)] q(2) by (auto simp: occurs_at_def)
    ultimately show ?thesis by blast
  qed
qed (auto simp: occurs_at_def split: if_splits)

lemma strings_Index_None: "strings_Index s k = None \<Longrightarrow> \<not> occurs_at s k q"
proof (induction s arbitrary: q)
  case (Cons c s)
  then show ?case by (cases q) (auto simp: occurs_at_def split: if_splits)
qed (auto simp: occurs_at_def split: if_splits)

lemma occurs_at_drop: "i \<le> length u \<Longrightarrow> occurs_at (drop i u) k q = occurs_at u k (i + q)"
  by (auto simp: occurs_at_def add.commute)

lemma occurs_char:
  assumes "occurs_at u k pos" "n < length k"
  shows "u ! (pos + n) = k ! n"
proof -
  have "take (length k) (drop pos u) ! n = k ! n" using assms(1) by (simp add: occurs_at_def)
  then show ?thesis using assms by (simp add: occurs_at_def)
qed

lemma containsKeywordFrom_iff:
  assumes "k \<noteq> []" "list_all IsIdentChar k"
  shows "i \<le> length u \<Longrightarrow> containsKeywordFrom u k i \<longleftrightarrow> (\<exists>pos \<ge> i. alone_at u k pos)"
proof (induction "length u - i" arbitrary: i rule: less_induct)
  case less
  show ?case
  proof (cases "strings_Index (drop i u) k")
    case None
    then have "\<not> occurs_at u k pos" if "pos \<ge> i" for pos
      using strings_Index_None[of "drop i u" k "pos - i"] occurs_at_drop[OF less.prems, of k "pos - i"] that by simp
    then show ?thesis using None assms(1) by (subst containsKeywordFrom.simps) (auto simp: alone_at_def)
  next
    case (Some p)
    let ?pos = "p + i" and ?e = "p + i + length k"
    have first: "occurs_at u k ?pos" "\<And>q. i \<le> q \<Longrightarrow> q < ?pos \<Longrightarrow> \<not> occurs_at u k q"
    proof -
      show "occurs_at u k ?pos"
        using strings_Index_Some[OF Some] occurs_at_drop[OF less.prems, of k p] by (simp add: add.commute)
      show "\<not> occurs_at u k q" if "i \<le> q" "q < ?pos" for q
        using strings_Index_Some[OF Some] occurs_at_drop[OF less.prems, of k "q - i"] that by simp
    qed
    show ?thesis
    proof (cases "alone_at u k ?pos")
      case True
      then show ?thesis using Some assms(1) by (subst containsKeywordFrom.simps) (auto simp: alone_at_def intro: exI[of _ ?pos])
    next
      case False
      have inside: "\<not> alone_at u k q" if "?pos < q" "q < ?e" for q
      proof -
        have "u ! (q - 1) = k ! (q - 1 - ?pos)"
          using occurs_char[OF first(1), of "q - 1 - ?pos"] that by simp
        moreover have "q - 1 - ?pos < length k" using that by simp
        then have "IsIdentChar (k ! (q - 1 - ?pos))" using assms(2) by (simp add: list_all_length)
        ultimately show ?thesis using that by (auto simp: alone_at_def)
      qed
      have "?e \<le> length u" using first(1) by (simp add: occurs_at_def)
      then have "containsKeywordFrom u k ?e \<longleftrightarrow> (\<exists>pos \<ge> ?e. alone_at u k pos)"
        using less.hyps[of ?e] keyword_shorter[OF Some assms(1)] by blast
      moreover have "containsKeywordFrom u k i = containsKeywordFrom u k ?e"
        using Some assms(1) False first(1) by (subst containsKeywordFrom.simps) (auto simp: alone_at_def Let_def)
      moreover have "pos \<ge> ?e" if "pos \<ge> i" "alone_at u k pos" for pos
        using that first(2)[of pos] False inside[of pos] by (metis alone_at_def linorder_neqE_nat not_le)
      ultimately show ?thesis by (metis le_add2 le_trans add.commute le_add1)
    qed
  qed
qed

lemma alone_at_skip:
  assumes "\<not> IsIdentChar c" "k \<noteq> []" "list_all IsIdentChar k"
  shows "(\<exists>pos. alone_at (c # s) k pos) \<longleftrightarrow> (\<exists>pos. alone_at s k pos)"
proof
  assume "\<exists>pos. alone_at (c # s) k pos"
  then obtain pos where pos: "alone_at (c # s) k pos" ..
  show "\<exists>pos. alone_at s k pos"
  proof (cases pos)
    case 0
    then have "k ! 0 = c" using pos occurs_char[of "c # s" k 0 0] assms(2) by (simp add: alone_at_def)
    then show ?thesis using assms by (cases k) auto
  next
    case (Suc q)
    then have "alone_at s k q" using pos by (cases q) (auto simp: alone_at_def occurs_at_def)
    then show ?thesis ..
  qed
next
  assume "\<exists>pos. alone_at s k pos"
  then obtain pos where "alone_at s k pos" ..
  then have "alone_at (c # s) k (Suc pos)" using assms(1) by (cases pos) (auto simp: alone_at_def occurs_at_def)
  then show "\<exists>pos. alone_at (c # s) k pos" ..
qed

lemma alone_inside_word:
  assumes pos: "alone_at (w @ rest) k pos" "pos < length w"
    and w: "list_all IsIdentChar w" and rest: "rest = [] \<or> \<not> IsIdentChar (hd rest)" and k: "list_all IsIdentChar k"
  shows "k = w"
proof -
  have occurs: "occurs_at (w @ rest) k pos" using pos(1) by (simp add: alone_at_def)
  have start: "pos = 0" using pos w by (auto simp: alone_at_def nth_append list_all_length split: if_splits)
  have "length k \<le> length w"
  proof (rule ccontr)
    assume longer: "\<not> length k \<le> length w"
    then have "rest \<noteq> []" using occurs by (auto simp: occurs_at_def)
    moreover have "rest ! 0 = k ! length w"
      using occurs_char[OF occurs, of "length w"] longer start by (simp add: nth_append)
    ultimately show False using rest k longer by (auto simp: hd_conv_nth list_all_length)
  qed
  moreover have "length w \<le> length k"
    using pos(1) w start by (auto simp: alone_at_def nth_append list_all_length split: if_splits)
  ultimately show ?thesis using occurs start by (auto simp: occurs_at_def)
qed

lemma alone_past_word:
  assumes pos: "alone_at rest k pos" and rest: "rest = [] \<or> \<not> IsIdentChar (hd rest)"
    and k: "k \<noteq> []" "list_all IsIdentChar k"
  shows "alone_at (w @ rest) k (length w + pos)"
proof (cases pos)
  case 0
  then have "occurs_at rest k 0" using pos by (simp add: alone_at_def)
  then have "rest ! 0 = k ! 0" "rest \<noteq> []" using occurs_char[of rest k 0 0] k(1) by (auto simp: occurs_at_def)
  then show ?thesis using rest k by (auto simp: hd_conv_nth list_all_length)
next
  case (Suc q)
  then show ?thesis using pos by (auto simp: alone_at_def occurs_at_def nth_append)
qed

lemma alone_at_word:
  assumes w: "w \<noteq> []" "list_all IsIdentChar w" and rest: "rest = [] \<or> \<not> IsIdentChar (hd rest)"
    and k: "k \<noteq> []" "list_all IsIdentChar k"
  shows "(\<exists>pos. alone_at (w @ rest) k pos) \<longleftrightarrow> k = w \<or> (\<exists>pos. alone_at rest k pos)"
proof
  assume "\<exists>pos. alone_at (w @ rest) k pos"
  then obtain pos where pos: "alone_at (w @ rest) k pos" ..
  show "k = w \<or> (\<exists>pos. alone_at rest k pos)"
  proof (cases "pos < length w")
    case True
    with alone_inside_word[OF pos _ w(2) rest k(2)] show ?thesis by blast
  next
    case False
    then obtain q where q: "pos = length w + q" by (metis le_Suc_ex not_less)
    then have "alone_at rest k q"
      using pos by (cases q) (auto simp: alone_at_def occurs_at_def nth_append add.assoc)
    then show ?thesis by blast
  qed
next
  assume "k = w \<or> (\<exists>pos. alone_at rest k pos)"
  then show "\<exists>pos. alone_at (w @ rest) k pos"
  proof
    assume "k = w"
    then have "alone_at (w @ rest) k 0" using rest by (cases rest) (auto simp: alone_at_def occurs_at_def nth_append)
    then show ?thesis ..
  qed (use alone_past_word[OF _ rest k] in blast)
qed

lemma sqlWords_alone:
  assumes "k \<noteq> []" "list_all IsIdentChar k"
  shows "k \<in> set (sqlWords u) \<longleftrightarrow> (\<exists>pos. alone_at u k pos)"
proof (induction u rule: sqlWords.induct)
  case 1
  then show ?case using assms(1) by (auto simp: alone_at_def occurs_at_def)
next
  case (2 c s)
  show ?case
  proof (cases "IsIdentChar c")
    case False
    then show ?thesis using 2 alone_at_skip[OF False assms] by simp
  next
    case True
    let ?w = "c # takeWhile IsIdentChar s" and ?rest = "dropWhile IsIdentChar s"
    have "?rest = [] \<or> \<not> IsIdentChar (hd ?rest)" using hd_dropWhile by blast
    moreover have "list_all IsIdentChar ?w" using True by (auto simp: list_all_iff dest: set_takeWhileD)
    ultimately have "(\<exists>pos. alone_at (?w @ ?rest) k pos) \<longleftrightarrow> k = ?w \<or> (\<exists>pos. alone_at ?rest k pos)"
      using alone_at_word[of ?w ?rest k] assms by blast
    then show ?thesis using 2 True by simp
  qed
qed

lemma keyword_words:
  assumes "k \<noteq> []" "list_all IsIdentChar k"
  shows "containsSQLKeyword u k \<longleftrightarrow> k \<in> set (sqlWords u)"
  using containsKeywordFrom_iff[OF assms, of 0 u] sqlWords_alone[OF assms] by (simp add: containsSQLKeyword_def)

section \<open>What a reading statement is\<close>

text \<open>
  The specification, by the words of a statement's code. \<open>reads uc r n sql\<close> holds of a query
  without a writing clause and without a side-effecting call, of SHOW, of an EXPLAIN that only
  plans, and of an EXPLAIN that runs a reading statement; \<open>n\<close> counts the EXPLAINs that run
  their statement. There is no limit on \<open>n\<close> and no search in the text.
\<close>

definition code_text :: "unicode_tables \<Rightarrow> StringReading \<Rightarrow> string \<Rightarrow> string" where
  "code_text uc r sql = strings_ToUpper uc (MaskNonCode (strip sql) r)"

definition writes_nothing :: "string list \<Rightarrow> bool" where
  "writes_nothing ws \<longleftrightarrow> ''INTO'' \<notin> set ws \<and>
     (\<nexists>before between lock after. ws = before @ ''FOR'' # between @ lock # after \<and>
        set between \<subseteq> {''NO'', ''KEY''} \<and> lock \<in> {''UPDATE'', ''SHARE''})"

inductive reads :: "unicode_tables \<Rightarrow> StringReading \<Rightarrow> nat \<Rightarrow> string \<Rightarrow> bool" for uc r where
  query: "\<lbrakk>\<not> hasKeywordPrefix (strip sql) ''EXPLAIN'';
           has_prefix (code_text uc r sql) ''SELECT'' \<or> has_prefix (code_text uc r sql) ''TABLE '' \<or>
           has_prefix (code_text uc r sql) ''WITH'' \<and>
             set (sqlWords (code_text uc r sql)) \<inter> {''INSERT'', ''UPDATE'', ''DELETE'', ''MERGE''} = {};
           writes_nothing (sqlWords (code_text uc r sql));
           \<not> CallsSideEffectingFunction uc (strip sql) r\<rbrakk> \<Longrightarrow> reads uc r 0 sql"
| show_setting: "\<lbrakk>\<not> hasKeywordPrefix (strip sql) ''EXPLAIN''; has_prefix (code_text uc r sql) ''SHOW''\<rbrakk> \<Longrightarrow> reads uc r 0 sql"
| plan: "\<lbrakk>hasKeywordPrefix (strip sql) ''EXPLAIN''; parseExplainHead uc r (strip sql) = Some (False, rest)\<rbrakk>
           \<Longrightarrow> reads uc r 0 sql"
| analyze: "\<lbrakk>hasKeywordPrefix (strip sql) ''EXPLAIN''; parseExplainHead uc r (strip sql) = Some (True, rest);
             rest \<noteq> []; reads uc r n rest\<rbrakk> \<Longrightarrow> reads uc r (Suc n) sql"

inductive_cases readsE: "reads uc r n sql"

lemma lockAfterFor_iff:
  "lockAfterFor ws \<longleftrightarrow> (\<exists>between lock after. ws = between @ lock # after \<and>
     set between \<subseteq> {''NO'', ''KEY''} \<and> lock \<in> {''UPDATE'', ''SHARE''})" (is "_ \<longleftrightarrow> ?R ws")
proof (induction ws)
  case Nil
  then show ?case by (simp add: lockAfterFor_def)
next
  case (Cons w ws)
  show ?case
  proof (cases "w = ''NO'' \<or> w = ''KEY''")
    case True
    have "?R (w # ws) \<longleftrightarrow> ?R ws"
    proof
      assume "?R (w # ws)"
      then obtain between lock after where split: "w # ws = between @ lock # after"
        "set between \<subseteq> {''NO'', ''KEY''}" "lock \<in> {''UPDATE'', ''SHARE''}" by blast
      moreover obtain b where "between = w # b" using split True by (cases between) auto
      ultimately show "?R ws" by (intro exI[of _ b] exI[of _ lock] exI[of _ after]) auto
    next
      assume "?R ws"
      then obtain between lock after where "ws = between @ lock # after"
        "set between \<subseteq> {''NO'', ''KEY''}" "lock \<in> {''UPDATE'', ''SHARE''}" by blast
      then show "?R (w # ws)" using True by (intro exI[of _ "w # between"] exI[of _ lock] exI[of _ after]) auto
    qed
    then show ?thesis using Cons True by (simp add: lockAfterFor_def)
  next
    case False
    have "?R (w # ws) \<longleftrightarrow> w \<in> {''UPDATE'', ''SHARE''}"
    proof
      assume "?R (w # ws)"
      then obtain between lock after where split: "w # ws = between @ lock # after"
        "set between \<subseteq> {''NO'', ''KEY''}" "lock \<in> {''UPDATE'', ''SHARE''}" by blast
      then show "w \<in> {''UPDATE'', ''SHARE''}" using False by (cases between) auto
    qed (intro exI[of _ "[]"] exI[of _ w] exI[of _ ws], simp)
    then show ?thesis using False by (simp add: lockAfterFor_def)
  qed
qed

lemma lockingIn_iff: "lockingIn ws \<longleftrightarrow> (\<exists>before tail. ws = before @ ''FOR'' # tail \<and> lockAfterFor tail)"
proof (induction ws)
  case (Cons w ws)
  have "(\<exists>before tail. w # ws = before @ ''FOR'' # tail \<and> lockAfterFor tail) \<longleftrightarrow>
      w = ''FOR'' \<and> lockAfterFor ws \<or> (\<exists>before tail. ws = before @ ''FOR'' # tail \<and> lockAfterFor tail)"
    (is "?L \<longleftrightarrow> ?R")
  proof
    assume ?L
    then obtain before tail where "w # ws = before @ ''FOR'' # tail" "lockAfterFor tail" by blast
    then show ?R by (cases before) auto
  next
    assume ?R
    then show ?L by (metis append_Cons append_Nil)
  qed
  then show ?case using Cons by simp
qed simp

lemma locking_clause_iff:
  "lockingIn ws \<longleftrightarrow> (\<exists>before between lock after. ws = before @ ''FOR'' # between @ lock # after \<and>
     set between \<subseteq> {''NO'', ''KEY''} \<and> lock \<in> {''UPDATE'', ''SHARE''})"
  unfolding lockingIn_iff lockAfterFor_iff by blast

lemma writes_nothing_iff: "writes_nothing (sqlWords u) \<longleftrightarrow> \<not> hasWritingSelectClause u"
proof -
  have "containsSQLKeyword u ''INTO'' \<longleftrightarrow> ''INTO'' \<in> set (sqlWords u)"
    by (rule keyword_words) (simp_all add: IsIdentChar_def)
  then show ?thesis
    unfolding writes_nothing_def hasWritingSelectClause_def containsLockingClause_def locking_clause_iff by blast
qed

lemma writing_verbs_iff:
  "(\<exists>kw \<in> set [''INSERT'', ''UPDATE'', ''DELETE'', ''MERGE'']. containsSQLKeyword u kw) \<longleftrightarrow>
     set (sqlWords u) \<inter> {''INSERT'', ''UPDATE'', ''DELETE'', ''MERGE''} \<noteq> {}"
proof -
  have "containsSQLKeyword u kw \<longleftrightarrow> kw \<in> set (sqlWords u)" if "kw \<in> set [''INSERT'', ''UPDATE'', ''DELETE'', ''MERGE'']" for kw
    using that by (intro keyword_words) (auto simp: IsIdentChar_def)
  then show ?thesis by auto
qed

section \<open>The classifier implements the specification\<close>

lemma prefix_clash: "has_prefix u p \<Longrightarrow> length p \<le> length q \<Longrightarrow> take (length p) q \<noteq> p \<Longrightarrow> \<not> has_prefix u q"
  by (metis has_prefix_def min.absorb1 take_take)

lemma with_clash:
  "has_prefix u ''WITH'' \<Longrightarrow> \<not> has_prefix u ''SELECT'' \<and> \<not> has_prefix u ''TABLE '' \<and> \<not> has_prefix u ''SHOW''"
  using prefix_clash[of u "''WITH''"] by simp

lemma show_clash: "has_prefix u ''SHOW'' \<Longrightarrow> \<not> has_prefix u ''SELECT'' \<and> \<not> has_prefix u ''TABLE ''"
  using prefix_clash[of u "''SHOW''"] by simp

lemma plain_statement:
  assumes "\<not> hasKeywordPrefix (strip sql) ''EXPLAIN''"
  shows "isReadOnlyStatementAtDepth uc sql d r \<longleftrightarrow> reads uc r 0 sql" "\<not> reads uc r (Suc n) sql"
proof -
  let ?u = "code_text uc r sql"
  have "reads uc r 0 sql \<longleftrightarrow>
      (has_prefix ?u ''SELECT'' \<or> has_prefix ?u ''TABLE '' \<or> has_prefix ?u ''WITH'' \<and>
         set (sqlWords ?u) \<inter> {''INSERT'', ''UPDATE'', ''DELETE'', ''MERGE''} = {}) \<and>
      writes_nothing (sqlWords ?u) \<and> \<not> CallsSideEffectingFunction uc (strip sql) r \<or> has_prefix ?u ''SHOW''"
    using assms by (auto elim!: readsE intro: reads.query reads.show_setting)
  moreover have "isReadOnlyStatementAtDepth uc sql d r \<longleftrightarrow>
      (if has_prefix ?u ''WITH'' then
         set (sqlWords ?u) \<inter> {''INSERT'', ''UPDATE'', ''DELETE'', ''MERGE''} = {} \<and>
         writes_nothing (sqlWords ?u) \<and> \<not> CallsSideEffectingFunction uc (strip sql) r
       else if has_prefix ?u ''SELECT'' \<or> has_prefix ?u ''TABLE ''
       then writes_nothing (sqlWords ?u) \<and> \<not> CallsSideEffectingFunction uc (strip sql) r
       else has_prefix ?u ''SHOW'')"
    using assms unfolding isReadOnlyStatementAtDepth.simps[of uc sql] writes_nothing_iff
    by (simp add: Let_def code_text_def writing_verbs_iff del: list.set)
  ultimately show "isReadOnlyStatementAtDepth uc sql d r \<longleftrightarrow> reads uc r 0 sql"
    using with_clash[of ?u] show_clash[of ?u] by (cases "has_prefix ?u ''WITH''"; cases "has_prefix ?u ''SHOW''") simp_all
  show "\<not> reads uc r (Suc n) sql" using assms by (auto elim: readsE)
qed

lemma explain_statement:
  assumes "hasKeywordPrefix (strip sql) ''EXPLAIN''"
  shows "isReadOnlyStatementAtDepth uc sql d r \<longleftrightarrow>
    (\<exists>executes rest. parseExplainHead uc r (strip sql) = Some (executes, rest) \<and>
       (executes \<longrightarrow> rest \<noteq> [] \<and> d < maxExplainDepth \<and> isReadOnlyStatementAtDepth uc rest (Suc d) r))"
  using assms by (subst isReadOnlyStatementAtDepth.simps) (auto simp: isReadOnlyExplain.simps split: option.splits)

lemma reads_explain:
  assumes "hasKeywordPrefix (strip sql) ''EXPLAIN''"
  shows "reads uc r n sql \<longleftrightarrow> n = 0 \<and> (\<exists>rest. parseExplainHead uc r (strip sql) = Some (False, rest)) \<or>
    (\<exists>m rest. n = Suc m \<and> parseExplainHead uc r (strip sql) = Some (True, rest) \<and> rest \<noteq> [] \<and> reads uc r m rest)"
  using assms by (subst reads.simps) auto

lemma classifier_reads:
  "d \<le> maxExplainDepth \<Longrightarrow> isReadOnlyStatementAtDepth uc sql d r \<longleftrightarrow> (\<exists>n. reads uc r n sql \<and> d + n \<le> maxExplainDepth)"
proof (induction "maxExplainDepth - d" arbitrary: d sql rule: less_induct)
  case less
  show ?case
  proof (cases "hasKeywordPrefix (strip sql) ''EXPLAIN''")
    case False
    then show ?thesis using plain_statement[OF False] less.prems by (metis add_0_right not0_implies_Suc)
  next
    case True
    have "isReadOnlyStatementAtDepth uc rest (Suc d) r \<longleftrightarrow> (\<exists>n. reads uc r n rest \<and> Suc d + n \<le> maxExplainDepth)"
      if "d < maxExplainDepth" for rest
      using less.hyps[of "Suc d" rest] that by simp
    note step = this
    show ?thesis
    proof (cases "parseExplainHead uc r (strip sql)")
      case None
      then show ?thesis by (simp add: explain_statement[OF True] reads_explain[OF True])
    next
      case (Some head)
      obtain executes rest where head: "head = (executes, rest)" by (cases head)
      show ?thesis
      proof (cases executes)
        case False
        then show ?thesis using Some head less.prems by (simp add: explain_statement[OF True] reads_explain[OF True]) blast
      next
        case executing: True
        have "(\<exists>n. reads uc r n sql \<and> d + n \<le> maxExplainDepth) \<longleftrightarrow>
            rest \<noteq> [] \<and> (\<exists>m. reads uc r m rest \<and> Suc d + m \<le> maxExplainDepth)"
          unfolding reads_explain[OF True] Some head using executing by auto
        also have "\<dots> \<longleftrightarrow> rest \<noteq> [] \<and> d < maxExplainDepth \<and> isReadOnlyStatementAtDepth uc rest (Suc d) r"
          using step[of rest] by (cases "d < maxExplainDepth") auto
        finally show ?thesis using executing unfolding explain_statement[OF True] Some head by auto
      qed
    qed
  qed
qed

section \<open>The properties\<close>

text \<open>
  The search for a keyword in the upper-cased code of a statement finds it exactly when the
  keyword is one of the maximal identifier words of the text: an occurrence inside a longer
  word does not count, and no word is missed behind such an occurrence.
\<close>

theorem keyword_scan_correct:
  assumes "kw \<noteq> []" "list_all IsIdentChar kw"
  shows "containsSQLKeyword upperSQL kw \<longleftrightarrow> kw \<in> set (sqlWords upperSQL)"
  using assms by (rule keyword_words)

theorem keyword_scan_correct_witness:
  "containsSQLKeyword ''UPDATED INTOX UPDATE'' ''UPDATE'' \<and> \<not> containsSQLKeyword ''UPDATED INTOX UPDATE'' ''INTO''"
proof -
  have "sqlWords ''UPDATED INTOX UPDATE'' = [''UPDATED'', ''INTOX'', ''UPDATE'']" by code_simp
  then show ?thesis
    using keyword_scan_correct[of "''UPDATE''" "''UPDATED INTOX UPDATE''"] keyword_scan_correct[of "''INTO''" "''UPDATED INTOX UPDATE''"]
    by (simp add: IsIdentChar_def)
qed



end
