(* ===== verification/Eviction_List.thy ===== *)
theory Eviction_List
  imports Prelude
begin

text \<open>
  The intrusive doubly linked list on which the audit coalescers keep their entries
  (\<^verbatim>\<open>auth/audit_eviction_list.go\<close>). Entries live in a heap of cells and are named by their
  addresses; a nil pointer is \<open>None\<close>. The operations write the links one assignment at a time,
  in the order of the code. \<open>holds l as\<close> says that the list \<open>l\<close> links exactly the cells \<open>as\<close>, oldest
  first, and the lemmas show that each operation does to \<open>as\<close> what its name promises.
\<close>

section \<open>Cells and links\<close>

type_synonym addr = nat

text \<open>An entry state with the \<open>evictionLinks\<close> embedded in it.\<close>

record 't cell =
  cl_entry :: 't
  cl_prev :: "addr option"
  cl_next :: "addr option"

record 't evictionList =
  el_heap :: "addr \<Rightarrow> 't cell"
  el_oldest :: "addr option"
  el_newest :: "addr option"

definition set_cell :: "addr \<Rightarrow> ('t cell \<Rightarrow> 't cell) \<Rightarrow> 't evictionList \<Rightarrow> 't evictionList" where
  "set_cell a f l = l\<lparr>el_heap := (el_heap l)(a := f (el_heap l a))\<rparr>"

definition set_prev :: "addr \<Rightarrow> addr option \<Rightarrow> 't evictionList \<Rightarrow> 't evictionList" where
  "set_prev a p = set_cell a (cl_prev_update (\<lambda>_. p))"

definition set_next :: "addr \<Rightarrow> addr option \<Rightarrow> 't evictionList \<Rightarrow> 't evictionList" where
  "set_next a n = set_cell a (cl_next_update (\<lambda>_. n))"

section \<open>Operations\<close>

definition pushNewest :: "addr \<Rightarrow> 't evictionList \<Rightarrow> 't evictionList" where
  "pushNewest entry l =
     (let l = set_prev entry (el_newest l) l;
          l = set_next entry None l;
          l = (case el_newest l of
                 Some n \<Rightarrow> set_next n (Some entry) l
               | None \<Rightarrow> l\<lparr>el_oldest := Some entry\<rparr>)
      in l\<lparr>el_newest := Some entry\<rparr>)"

definition insertBefore :: "addr \<Rightarrow> addr option \<Rightarrow> 't evictionList \<Rightarrow> 't evictionList" where
  "insertBefore entry nx l =
     (case nx of
        None \<Rightarrow> pushNewest entry l
      | Some n \<Rightarrow>
          let l = set_next entry (Some n) l;
              l = set_prev entry (cl_prev (el_heap l n)) l;
              l = (case cl_prev (el_heap l n) of
                     Some p \<Rightarrow> set_next p (Some entry) l
                   | None \<Rightarrow> l\<lparr>el_oldest := Some entry\<rparr>)
          in set_prev n (Some entry) l)"

text \<open>
  The walk of \<open>insertOrdered\<close> and \<open>restore\<close> to the first entry, from a given one, whose window
  opened after \<open>start\<close>. It follows links, so that it returns is a theorem, not its definition.
\<close>

partial_function (option) findAfter ::
  "('t \<Rightarrow> int) \<Rightarrow> 't evictionList \<Rightarrow> int \<Rightarrow> addr option \<Rightarrow> (addr option) option" where
  "findAfter windowStart l start nx =
     (case nx of
        None \<Rightarrow> Some None
      | Some n \<Rightarrow>
          if windowStart (cl_entry (el_heap l n)) \<le> start
          then findAfter windowStart l start (cl_next (el_heap l n))
          else Some (Some n))"

definition insertOrdered :: "('t \<Rightarrow> int) \<Rightarrow> addr \<Rightarrow> 't evictionList \<Rightarrow> ('t evictionList) option" where
  "insertOrdered windowStart entry l =
     (case findAfter windowStart l (windowStart (cl_entry (el_heap l entry))) (el_oldest l) of
        None \<Rightarrow> None
      | Some nx \<Rightarrow> Some (insertBefore entry nx l))"

definition unlink :: "addr \<Rightarrow> 't evictionList \<Rightarrow> 't evictionList" where
  "unlink entry l =
     (let l = (case cl_prev (el_heap l entry) of
                 Some p \<Rightarrow> set_next p (cl_next (el_heap l entry)) l
               | None \<Rightarrow> l\<lparr>el_oldest := cl_next (el_heap l entry)\<rparr>);
          l = (case cl_next (el_heap l entry) of
                 Some n \<Rightarrow> set_prev n (cl_prev (el_heap l entry)) l
               | None \<Rightarrow> l\<lparr>el_newest := cl_prev (el_heap l entry)\<rparr>)
      in set_next entry None (set_prev entry None l))"

section \<open>The list a heap holds\<close>

definition first_of :: "addr list \<Rightarrow> addr option \<Rightarrow> addr option" where
  "first_of as d = (case as of [] \<Rightarrow> d | a # _ \<Rightarrow> Some a)"

definition last_of :: "addr option \<Rightarrow> addr list \<Rightarrow> addr option" where
  "last_of d as = (if as = [] then d else Some (last as))"

lemma first_of_simps [simp]:
  "first_of [] d = d" "first_of (a # as) d = Some a" "first_of (as @ bs) d = first_of as (first_of bs d)"
  by (auto simp: first_of_def split: list.splits)

lemma last_of_simps [simp]:
  "last_of d [] = d" "last_of d (a # as) = last_of (Some a) as" "last_of d (as @ bs) = last_of (last_of d as) bs"
  by (auto simp: last_of_def)

text \<open>A segment of linked cells between the cells \<open>p\<close> and \<open>n\<close>.\<close>

fun segment :: "(addr \<Rightarrow> 't cell) \<Rightarrow> addr option \<Rightarrow> addr list \<Rightarrow> addr option \<Rightarrow> bool" where
  "segment h p [] n \<longleftrightarrow> True"
| "segment h p (a # as) n \<longleftrightarrow> cl_prev (h a) = p \<and> cl_next (h a) = first_of as n \<and> segment h (Some a) as n"

definition holds :: "'t evictionList \<Rightarrow> addr list \<Rightarrow> bool" where
  "holds l as \<longleftrightarrow> distinct as \<and> el_oldest l = first_of as None \<and> el_newest l = last_of None as \<and>
     segment (el_heap l) None as None"

lemma segment_append [simp]:
  "segment h p (as @ bs) n \<longleftrightarrow> segment h p as (first_of bs n) \<and> segment h (last_of p as) bs n"
  by (induction as arbitrary: p) auto

text \<open>A segment does not depend on the cells outside it, nor on what the entries hold.\<close>

lemma segment_other: "\<forall>a \<in> set as. cl_prev (h' a) = cl_prev (h a) \<and> cl_next (h' a) = cl_next (h a) \<Longrightarrow>
    segment h' p as n = segment h p as n"
  by (induction as arbitrary: p) auto

lemma segment_upd [simp]: "a \<notin> set as \<Longrightarrow> segment (h(a := c)) p as n = segment h p as n"
  by (rule segment_other) auto

lemma heap_set [simp]:
  "el_heap (set_prev a p l) = (el_heap l)(a := (el_heap l a)\<lparr>cl_prev := p\<rparr>)"
  "el_heap (set_next a n l) = (el_heap l)(a := (el_heap l a)\<lparr>cl_next := n\<rparr>)"
  "el_oldest (set_prev a p l) = el_oldest l" "el_newest (set_prev a p l) = el_newest l"
  "el_oldest (set_next a n l) = el_oldest l" "el_newest (set_next a n l) = el_newest l"
  by (simp_all add: set_prev_def set_next_def set_cell_def)

text \<open>The operations move links only: no entry changes.\<close>

lemma entry_kept [simp]:
  "cl_entry (el_heap (pushNewest a l) b) = cl_entry (el_heap l b)"
  "cl_entry (el_heap (insertBefore a nx l) b) = cl_entry (el_heap l b)"
  "cl_entry (el_heap (unlink a l) b) = cl_entry (el_heap l b)"
  by (auto simp: pushNewest_def insertBefore_def unlink_def Let_def split: option.splits)

lemma push_holds:
  assumes "holds l as" "a \<notin> set as"
  shows "holds (pushNewest a l) (as @ [a])"
proof (cases as rule: rev_cases)
  case Nil
  with assms show ?thesis by (simp add: holds_def pushNewest_def Let_def)
next
  case (snoc bs b)
  with assms have "a \<noteq> b" "b \<notin> set bs" "a \<notin> set bs" by (auto simp: holds_def)
  with assms snoc show ?thesis by (simp add: holds_def pushNewest_def Let_def)
qed

lemma insert_holds:
  assumes "holds l (as @ b # bs)" "a \<notin> set (as @ b # bs)"
  shows "holds (insertBefore a (Some b) l) (as @ a # b # bs)"
proof (cases as rule: rev_cases)
  case Nil
  with assms show ?thesis by (auto simp: holds_def insertBefore_def Let_def)
next
  case (snoc cs c)
  with assms have "a \<noteq> b" "a \<noteq> c" "b \<noteq> c" "c \<notin> set cs" "b \<notin> set cs" "a \<notin> set cs" "c \<notin> set bs" "b \<notin> set bs" "a \<notin> set bs"
    by (auto simp: holds_def)
  with assms snoc show ?thesis by (simp add: holds_def insertBefore_def Let_def)
qed

lemma insert_before_holds:
  assumes "holds l (as @ bs)" "a \<notin> set (as @ bs)"
  shows "holds (insertBefore a (first_of bs None) l) (as @ a # bs)"
  using assms push_holds[of l as a] insert_holds[of l as _ _ a] by (cases bs) (auto simp: insertBefore_def)

lemma unlink_holds:
  assumes "holds l (as @ a # bs)"
  shows "holds (unlink a l) (as @ bs)"
proof -
  have outside: "a \<notin> set as" "a \<notin> set bs" "distinct as" "distinct bs" "set as \<inter> set bs = {}"
    using assms by (auto simp: holds_def)
  show ?thesis
  proof (cases as rule: rev_cases; cases bs)
    fix cs c d ds assume "as = cs @ [c]" "bs = d # ds"
    moreover from this outside have "a \<noteq> c" "a \<noteq> d" "c \<noteq> d" "c \<notin> set cs" "d \<notin> set cs" "c \<notin> set ds" "d \<notin> set ds" by auto
    ultimately show ?thesis using assms outside by (simp add: holds_def unlink_def Let_def)
  qed (use assms outside in \<open>auto simp: holds_def unlink_def Let_def\<close>)
qed

text \<open>The walk returns on every list, at the first cell whose window opened later.\<close>

lemma findAfter_segment:
  assumes "segment (el_heap l) p as None"
  shows "findAfter ws l start (first_of as None) =
    Some (first_of (dropWhile (\<lambda>a. ws (cl_entry (el_heap l a)) \<le> start) as) None)"
  using assms by (induction as arbitrary: p) (auto simp: findAfter.simps)

lemma insert_ordered_holds:
  fixes ws :: "'t \<Rightarrow> int"
  assumes "holds l as" "a \<notin> set as"
  defines "P \<equiv> \<lambda>b. ws (cl_entry (el_heap l b)) \<le> ws (cl_entry (el_heap l a))"
  shows "\<exists>l'. insertOrdered ws a l = Some l' \<and> holds l' (takeWhile P as @ a # dropWhile P as) \<and>
    (\<forall>b. cl_entry (el_heap l' b) = cl_entry (el_heap l b))"
proof -
  have walk: "findAfter ws l (ws (cl_entry (el_heap l a))) (el_oldest l) = Some (first_of (dropWhile P as) None)"
    using findAfter_segment[of l None as ws] assms(1) by (simp add: holds_def P_def)
  show ?thesis
  proof (cases "dropWhile P as")
    case Nil
    then have "takeWhile P as @ a # dropWhile P as = as @ [a]" by (metis append_Nil2 takeWhile_dropWhile_id)
    moreover have "insertOrdered ws a l = Some (pushNewest a l)"
      using walk unfolding Nil by (simp add: insertOrdered_def insertBefore_def)
    ultimately show ?thesis using push_holds[OF assms(1,2)] by simp
  next
    case (Cons b bs)
    then have split: "as = takeWhile P as @ b # bs" by (metis takeWhile_dropWhile_id)
    have "insertOrdered ws a l = Some (insertBefore a (Some b) l)"
      using walk unfolding Cons by (simp add: insertOrdered_def)
    moreover have "holds (insertBefore a (Some b) l) (takeWhile P as @ a # b # bs)"
      using insert_holds[of l "takeWhile P as" b bs a] assms(1,2) split by metis
    ultimately show ?thesis unfolding Cons by simp
  qed
qed

end
