(* ===== verification/Audit_Coalescer.thy ===== *)
theory Audit_Coalescer
  imports Eviction_List
begin

text \<open>
  The coalescers that keep repeated refusals and failures from flooding the audit log
  (\<^verbatim>\<open>auth/audit_denials.go\<close>, \<^verbatim>\<open>auth/audit_failures.go\<close>). The two files hold the same code
  over different keys and windows: a window of failures is a number, a window of denials also
  lists targets. The operations here take the key type, the window type and the constants
  from a \<open>coalescer_config\<close>; \<open>denials\<close> and \<open>failures\<close> are the two configurations. Entries live on the
  heap of an eviction list and are found by key in a Go map of pointers. The loops follow the
  links of the list, so each operation returns an option, \<open>None\<close> standing for not returning.
\<close>

section \<open>Entries\<close>

text \<open>
  Times are nanoseconds of the monotonic clock. \<open>denialState\<close> and \<open>failureState\<close>, without the
  links, and \<open>denialSummary\<close> and \<open>failureSummary\<close>.
\<close>

record ('k, 'w) entry_state =
  es_key :: 'k
  es_firstSeen :: int
  es_lastSeen :: int
  es_suppressed :: 'w
  es_closedFirstSeen :: int

record ('k, 'w) summary =
  sm_key :: 'k
  sm_window :: 'w
  sm_firstSeen :: int
  sm_lastSeen :: int

text \<open>\<open>co_alloc\<close> is the next address the allocator hands out.\<close>

record ('k, 'w) coalescer =
  co_entries :: "('k, addr) gomap"
  co_list :: "('k, 'w) entry_state evictionList"
  co_alloc :: addr

text \<open>
  The window's zero value and its count of events; how long a window is open; the cap of the
  map; and whether \<open>restore\<close> logs a summary whose key has been opened again.
\<close>

record 'w coalescer_config =
  cf_zero :: 'w
  cf_count :: "'w \<Rightarrow> nat"
  cf_window :: int
  cf_maxKeys :: nat
  cf_logReopened :: bool

definition state_at :: "('k, 'w) coalescer \<Rightarrow> addr \<Rightarrow> ('k, 'w) entry_state" where
  "state_at c a = cl_entry (el_heap (co_list c) a)"

definition set_state :: "addr \<Rightarrow> (('k, 'w) entry_state \<Rightarrow> ('k, 'w) entry_state) \<Rightarrow> ('k, 'w) coalescer \<Rightarrow> ('k, 'w) coalescer" where
  "set_state a f c = c\<lparr>co_list := set_cell a (cl_entry_update f) (co_list c)\<rparr>"

text \<open>The allocation of a state, with nil links.\<close>

definition new_state :: "('k, 'w) entry_state \<Rightarrow> ('k, 'w) coalescer \<Rightarrow> ('k, 'w) coalescer" where
  "new_state s c = c\<lparr>co_alloc := Suc (co_alloc c),
     co_list := set_cell (co_alloc c) (\<lambda>_. \<lparr>cl_entry = s, cl_prev = None, cl_next = None\<rparr>) (co_list c)\<rparr>"

definition summary_of :: "('k, 'w) entry_state \<Rightarrow> ('k, 'w) summary" where
  "summary_of s = \<lparr>sm_key = es_key s, sm_window = es_suppressed s, sm_firstSeen = es_firstSeen s,
     sm_lastSeen = es_lastSeen s\<rparr>"

section \<open>Dropping entries\<close>

definition drop_entry ::
  "'w coalescer_config \<Rightarrow> ('k, 'w) summary list \<Rightarrow> addr \<Rightarrow> ('k, 'w) coalescer \<Rightarrow>
     ('k, 'w) summary list \<times> ('k, 'w) coalescer" where
  "drop_entry cfg expired a c =
     (let s = state_at c a;
          expired = (if cf_count cfg (es_suppressed s) > 0 then expired @ [summary_of s] else expired)
      in (expired, c\<lparr>co_list := unlink a (co_list c), co_entries := AList.delete (es_key s) (co_entries c)\<rparr>))"

partial_function (option) evictFrom ::
  "'w coalescer_config \<Rightarrow> 'k \<Rightarrow> int \<Rightarrow> addr option \<Rightarrow> ('k, 'w) summary list \<Rightarrow> ('k, 'w) coalescer \<Rightarrow>
     (('k, 'w) summary list \<times> ('k, 'w) coalescer) option" where
  "evictFrom cfg keep now st expired c =
     (case st of
        None \<Rightarrow> Some (expired, c)
      | Some a \<Rightarrow>
          let nx = cl_next (el_heap (co_list c) a);
              closed = (now - es_firstSeen (state_at c a) \<ge> cf_window cfg) in
          if \<not> closed \<and> length (co_entries c) \<le> cf_maxKeys cfg then Some (expired, c)
          else if es_key (state_at c a) \<noteq> keep
          then evictFrom cfg keep now nx (fst (drop_entry cfg expired a c)) (snd (drop_entry cfg expired a c))
          else evictFrom cfg keep now nx expired c)"

definition evict ::
  "'w coalescer_config \<Rightarrow> 'k \<Rightarrow> int \<Rightarrow> ('k, 'w) coalescer \<Rightarrow> (('k, 'w) summary list \<times> ('k, 'w) coalescer) option" where
  "evict cfg keep now c = evictFrom cfg keep now (el_oldest (co_list c)) [] c"

partial_function (option) drainFrom ::
  "'w coalescer_config \<Rightarrow> int \<Rightarrow> bool \<Rightarrow> addr option \<Rightarrow> ('k, 'w) summary list \<Rightarrow> ('k, 'w) coalescer \<Rightarrow>
     (('k, 'w) summary list \<times> ('k, 'w) coalescer) option" where
  "drainFrom cfg now all st expired c =
     (case st of
        None \<Rightarrow> Some (expired, c)
      | Some a \<Rightarrow>
          let nx = cl_next (el_heap (co_list c) a) in
          if \<not> all \<and> now - es_firstSeen (state_at c a) < cf_window cfg then Some (expired, c)
          else drainFrom cfg now all nx (fst (drop_entry cfg expired a c)) (snd (drop_entry cfg expired a c)))"

definition drain ::
  "'w coalescer_config \<Rightarrow> int \<Rightarrow> bool \<Rightarrow> ('k, 'w) coalescer \<Rightarrow> (('k, 'w) summary list \<times> ('k, 'w) coalescer) option" where
  "drain cfg now all c = drainFrom cfg now all (el_oldest (co_list c)) [] c"

section \<open>Admitting an event\<close>

text \<open>
  The decision of \<open>admit\<close>, before it evicts: whether a row is recorded, the window the row
  closes, and the coalescer. \<open>note\<close> counts one more event in a window.
\<close>

definition admit_key ::
  "'w coalescer_config \<Rightarrow> ('w \<Rightarrow> 'w) \<Rightarrow> 'k \<Rightarrow> int \<Rightarrow> ('k, 'w) coalescer \<Rightarrow> bool \<times> 'w \<times> ('k, 'w) coalescer" where
  "admit_key cfg note key now c =
     (case map_of (co_entries c) key of
        None \<Rightarrow>
          let a = co_alloc c;
              c = new_state \<lparr>es_key = key, es_firstSeen = now, es_lastSeen = now, es_suppressed = cf_zero cfg,
                es_closedFirstSeen = 0\<rparr> c
          in (True, cf_zero cfg, c\<lparr>co_entries := AList.update key a (co_entries c), co_list := pushNewest a (co_list c)\<rparr>)
      | Some a \<Rightarrow>
          let s = state_at c a in
          if now - es_firstSeen s < cf_window cfg
          then (False, cf_zero cfg,
                set_state a (\<lambda>s. s\<lparr>es_suppressed := note (es_suppressed s), es_lastSeen := now\<rparr>) c)
          else
            let c = set_state a (\<lambda>s. s\<lparr>es_closedFirstSeen := es_firstSeen s, es_firstSeen := now, es_lastSeen := now,
                  es_suppressed := cf_zero cfg\<rparr>) c
            in (True, if cf_count cfg (es_suppressed s) > 0 then note (es_suppressed s) else cf_zero cfg,
                c\<lparr>co_list := pushNewest a (unlink a (co_list c))\<rparr>))"

definition admit ::
  "'w coalescer_config \<Rightarrow> ('w \<Rightarrow> 'w) \<Rightarrow> 'k \<Rightarrow> int \<Rightarrow> ('k, 'w) coalescer \<Rightarrow>
     (bool \<times> 'w \<times> ('k, 'w) summary list \<times> ('k, 'w) coalescer) option" where
  "admit cfg note key now c =
     (let (record, closed, c) = admit_key cfg note key now c in
      case evict cfg key now c of
        None \<Rightarrow> None
      | Some (expired, c) \<Rightarrow> Some (record, closed, expired, c))"

section \<open>Undoing\<close>

definition reopen :: "'w coalescer_config \<Rightarrow> 'k \<Rightarrow> 'w \<Rightarrow> ('k, 'w) coalescer \<Rightarrow> (('k, 'w) coalescer) option" where
  "reopen cfg key closed c =
     (case map_of (co_entries c) key of
        None \<Rightarrow> Some c
      | Some a \<Rightarrow>
          let c = c\<lparr>co_list := unlink a (co_list c)\<rparr> in
          if cf_count cfg closed = 0 then Some (c\<lparr>co_entries := AList.delete key (co_entries c)\<rparr>)
          else
            let c = set_state a (\<lambda>s. s\<lparr>es_firstSeen := es_closedFirstSeen s, es_suppressed := closed\<rparr>) c in
            case insertOrdered es_firstSeen a (co_list c) of
              None \<Rightarrow> None
            | Some l \<Rightarrow> Some (c\<lparr>co_list := l\<rparr>))"

text \<open>
  The loop of \<open>restore\<close> over the sorted summaries, with the cursor it moves along the list;
  the result is the summaries written to the server log and the coalescer.
\<close>

fun restoreEach ::
  "'w coalescer_config \<Rightarrow> ('k, 'w) summary list \<Rightarrow> addr option \<Rightarrow> ('k, 'w) summary list \<Rightarrow> ('k, 'w) coalescer \<Rightarrow>
     (('k, 'w) summary list \<times> ('k, 'w) coalescer) option" where
  "restoreEach cfg [] cursor logged c = Some (logged, c)"
| "restoreEach cfg (s # ss) cursor logged c =
     (if map_of (co_entries c) (sm_key s) \<noteq> None
      then restoreEach cfg ss cursor (if cf_logReopened cfg then logged @ [s] else logged) c
      else if length (co_entries c) \<ge> cf_maxKeys cfg then restoreEach cfg ss cursor (logged @ [s]) c
      else case findAfter es_firstSeen (co_list c) (sm_firstSeen s) cursor of
        None \<Rightarrow> None
      | Some cursor \<Rightarrow>
          let a = co_alloc c;
              c = new_state \<lparr>es_key = sm_key s, es_firstSeen = sm_firstSeen s, es_lastSeen = sm_lastSeen s,
                es_suppressed = sm_window s, es_closedFirstSeen = 0\<rparr> c
          in restoreEach cfg ss cursor logged
               (c\<lparr>co_entries := AList.update (sm_key s) a (co_entries c),
                  co_list := insertBefore a cursor (co_list c)\<rparr>))"

definition restore ::
  "'w coalescer_config \<Rightarrow> ('k, 'w) summary list \<Rightarrow> ('k, 'w) coalescer \<Rightarrow>
     (('k, 'w) summary list \<times> ('k, 'w) coalescer) option" where
  "restore cfg summaries c = restoreEach cfg (sort_key sm_firstSeen summaries) (el_oldest (co_list c)) [] c"

end
