(* ===== verification/Audit_Denials.thy ===== *)
theory Audit_Denials
  imports Audit_Coalescer Audit_Log
begin

text \<open>
  Recording refusals and failures through the coalescers: the keys, windows and rows of
  \<^verbatim>\<open>auth/audit_denials.go\<close> and \<^verbatim>\<open>auth/audit_failures.go\<close>, the writes to the audit log around
  them, and the sweep of \<^verbatim>\<open>auth/audit_coalesce.go\<close>. Each transaction may fail on its own: a
  run of an operation takes the statements that fail in its first, second, ... transaction.
  Encoding details as JSON and formatting times are parameters.
\<close>

section \<open>Bounded text\<close>

text \<open>\<^verbatim>\<open>utf8.RuneStart\<close>: any byte but one of the form 10xxxxxx.\<close>

definition RuneStart :: "char \<Rightarrow> bool" where
  "RuneStart b \<longleftrightarrow> (of_char b :: nat) div 64 \<noteq> 2"

primrec runeCut :: "string \<Rightarrow> nat \<Rightarrow> nat" where
  "runeCut s 0 = 0"
| "runeCut s (Suc n) = (if RuneStart (s ! Suc n) then Suc n else runeCut s n)"

definition maxAuditErrorBytes :: nat where "maxAuditErrorBytes = 500"
definition auditErrorTruncated :: string where "auditErrorTruncated = ''... (truncated)''"
definition maxAuditIPLen :: nat where "maxAuditIPLen = 64"

definition capAuditError :: "string \<Rightarrow> string" where
  "capAuditError s =
     (if length s \<le> maxAuditErrorBytes then s
      else take (runeCut s (maxAuditErrorBytes - length auditErrorTruncated)) s @ auditErrorTruncated)"

definition capAuditIP :: "string \<Rightarrow> string" where
  "capAuditIP ip = (if length ip \<le> maxAuditIPLen then ip else take (runeCut ip maxAuditIPLen) ip)"

section \<open>Details of a row\<close>

text \<open>
  The keys of the details of a coalesced row that are present: \<open>target\<close>, \<open>repeat_count\<close>,
  \<open>targets\<close> with \<open>targets_truncated\<close>, and \<open>window_closed\<close> with \<open>first_seen\<close> and \<open>last_seen\<close>.
\<close>

record row_details =
  rd_target :: "string option"
  rd_repeat_count :: "nat option"
  rd_targets :: "(string list \<times> nat) option"
  rd_window :: "(string \<times> string) option"

record coalesce_env =
  ce_audit :: audit_env
  ce_marshal :: "row_details \<Rightarrow> string"
  ce_time :: "int \<Rightarrow> string"

section \<open>Denials\<close>

definition second :: int where "second = 10 ^ 9"

definition denialCoalesceWindow :: int where "denialCoalesceWindow = 60 * second"
definition maxDenialKeys :: nat where "maxDenialKeys = 10000"
definition maxDenialTargets :: nat where "maxDenialTargets = 20"
definition maxDenialActionLen :: nat where "maxDenialActionLen = 64"

record denialKey =
  dk_actorType :: string
  dk_actorID :: int
  dk_actorName :: string
  dk_actorIP :: string
  dk_action :: string
  dk_reason :: string

definition denialKeyOf :: "actor \<Rightarrow> string \<Rightarrow> string \<Rightarrow> denialKey" where
  "denialKeyOf actor action reason =
     \<lparr>dk_actorType = act_type actor, dk_actorID = (case act_id actor of None \<Rightarrow> 0 | Some i \<Rightarrow> i),
      dk_actorName = act_name actor, dk_actorIP = capAuditIP (act_ip actor),
      dk_action = (if length action > maxDenialActionLen then take maxDenialActionLen action else action),
      dk_reason = reason\<rparr>"

definition denialKey_event :: "denialKey \<Rightarrow> string \<Rightarrow> audit_event" where
  "denialKey_event k details =
     (newEvent \<lparr>act_type = dk_actorType k, act_id = (if dk_actorID k \<noteq> 0 then Some (dk_actorID k) else None),
        act_name = dk_actorName k, act_ip = dk_actorIP k\<rparr> (dk_action k) '''' None '''' details)
     \<lparr>ev_outcome := ''denied'', ev_error := capAuditError (dk_reason k)\<rparr>"

record denialWindow =
  dw_count :: nat
  dw_targets :: "string list"
  dw_truncated :: nat

definition denialWindow_note :: "string \<Rightarrow> denialWindow \<Rightarrow> denialWindow" where
  "denialWindow_note target w =
     (let w = w\<lparr>dw_count := Suc (dw_count w)\<rparr> in
      if target \<in> set (dw_targets w) then w
      else if length (dw_targets w) < maxDenialTargets then w\<lparr>dw_targets := dw_targets w @ [target]\<rparr>
      else w\<lparr>dw_truncated := Suc (dw_truncated w)\<rparr>)"

definition denialWindow_addTo :: "denialWindow \<Rightarrow> row_details \<Rightarrow> row_details" where
  "denialWindow_addTo w details =
     details\<lparr>rd_repeat_count := Some (dw_count w), rd_targets := Some (dw_targets w, dw_truncated w)\<rparr>"

definition denials :: "denialWindow coalescer_config" where
  "denials = \<lparr>cf_zero = \<lparr>dw_count = 0, dw_targets = [], dw_truncated = 0\<rparr>, cf_count = dw_count,
     cf_window = denialCoalesceWindow, cf_maxKeys = maxDenialKeys, cf_logReopened = True\<rparr>"

type_synonym denialSummary = "(denialKey, denialWindow) summary"
type_synonym denialCoalescer = "(denialKey, denialWindow) coalescer"

definition denialSummary_event :: "coalesce_env \<Rightarrow> denialSummary \<Rightarrow> audit_event" where
  "denialSummary_event ce d =
     denialKey_event (sm_key d) (ce_marshal ce (denialWindow_addTo (sm_window d)
       \<lparr>rd_target = None, rd_repeat_count = None, rd_targets = None,
        rd_window = Some (ce_time ce (sm_firstSeen d), ce_time ce (sm_lastSeen d))\<rparr>))"

section \<open>Failures\<close>

definition failureCoalesceWindow :: int where "failureCoalesceWindow = 60 * second"
definition maxFailureKeys :: nat where "maxFailureKeys = 10000"

record failureKey =
  fk_actorType :: string
  fk_actorID :: int
  fk_actorName :: string
  fk_actorIP :: string
  fk_action :: string
  fk_targetType :: string
  fk_targetID :: int
  fk_hasTargetID :: bool
  fk_targetName :: string
  fk_errText :: string

definition failureKeyOf :: "actor \<Rightarrow> string \<Rightarrow> string \<Rightarrow> int option \<Rightarrow> string \<Rightarrow> string \<Rightarrow> failureKey" where
  "failureKeyOf actor action targetType targetID targetName errText =
     \<lparr>fk_actorType = act_type actor, fk_actorID = (case act_id actor of None \<Rightarrow> 0 | Some i \<Rightarrow> i),
      fk_actorName = act_name actor, fk_actorIP = capAuditIP (act_ip actor), fk_action = action,
      fk_targetType = targetType, fk_targetID = (case targetID of None \<Rightarrow> 0 | Some i \<Rightarrow> i),
      fk_hasTargetID = (targetID \<noteq> None), fk_targetName = targetName, fk_errText = errText\<rparr>"

definition failureKey_event :: "failureKey \<Rightarrow> string \<Rightarrow> audit_event" where
  "failureKey_event k details =
     (newEvent \<lparr>act_type = fk_actorType k, act_id = (if fk_actorID k \<noteq> 0 then Some (fk_actorID k) else None),
        act_name = fk_actorName k, act_ip = fk_actorIP k\<rparr> (fk_action k) (fk_targetType k)
        (if fk_hasTargetID k then Some (fk_targetID k) else None) (fk_targetName k) details)
     \<lparr>ev_outcome := ''failure'', ev_error := fk_errText k\<rparr>"

definition failures :: "nat coalescer_config" where
  "failures = \<lparr>cf_zero = 0, cf_count = id, cf_window = failureCoalesceWindow, cf_maxKeys = maxFailureKeys,
     cf_logReopened = False\<rparr>"

type_synonym failureSummary = "(failureKey, nat) summary"
type_synonym failureCoalescer = "(failureKey, nat) coalescer"

definition failureSummary_event :: "coalesce_env \<Rightarrow> failureSummary \<Rightarrow> audit_event" where
  "failureSummary_event ce f =
     failureKey_event (sm_key f) (ce_marshal ce
       \<lparr>rd_target = None, rd_repeat_count = Some (sm_window f), rd_targets = None,
        rd_window = Some (ce_time ce (sm_firstSeen f), ce_time ce (sm_lastSeen f))\<rparr>)"

section \<open>Writing\<close>

text \<open>One transaction of \<open>recordAuditInOwnTx\<close>, in which the statements \<open>fails\<close> fail.\<close>

definition record_tx :: "coalesce_env \<Rightarrow> int \<Rightarrow> (audit_stmt \<Rightarrow> bool) \<Rightarrow> audit_event list \<Rightarrow> audit_db \<Rightarrow> audit_db ares" where
  "record_tx ce now fails evs db = recordAuditInOwnTx (ce_audit ce) (ce_time ce now) evs (db\<lparr>ad_fails := fails\<rparr>)"

definition writeAuditSummaries ::
  "coalesce_env \<Rightarrow> int \<Rightarrow> (audit_stmt \<Rightarrow> bool) \<Rightarrow> audit_event list \<Rightarrow> audit_db \<Rightarrow> bool \<times> audit_db" where
  "writeAuditSummaries ce now fails events db =
     (if events = [] then (True, db)
      else case record_tx ce now fails events db of
        Inl _ \<Rightarrow> (False, db)
      | Inr db' \<Rightarrow> (True, db'))"

text \<open>
  The body \<open>coalesceDenial\<close> and \<open>coalesceFailure\<close> share. \<open>summary_event\<close> builds a summary row and
  \<open>own_event\<close> the row of the event itself, from the window it closes. The result is the error
  of the own row, the summaries that \<open>restore\<close> wrote to the server log, the coalescer and the
  log; \<open>None\<close> stands for not returning.
\<close>

definition coalesce ::
  "coalesce_env \<Rightarrow> 'w coalescer_config \<Rightarrow> ('w \<Rightarrow> 'w) \<Rightarrow> (('k, 'w) summary \<Rightarrow> audit_event) \<Rightarrow> ('w \<Rightarrow> audit_event) \<Rightarrow>
     'k \<Rightarrow> int \<Rightarrow> (nat \<Rightarrow> audit_stmt \<Rightarrow> bool) \<Rightarrow> ('k, 'w) coalescer \<Rightarrow> audit_db \<Rightarrow>
     (audit_error option \<times> ('k, 'w) summary list \<times> ('k, 'w) coalescer \<times> audit_db) option" where
  "coalesce ce cfg note summary_event own_event key now fails c db =
     (case admit cfg note key now c of
        None \<Rightarrow> None
      | Some (record, closed, expired, c) \<Rightarrow>
          let (summariesWritten, db) = writeAuditSummaries ce now (fails 0) (map summary_event expired) db in
          case (if record
                then case record_tx ce now (fails 1) [own_event closed] db of
                    Inl e \<Rightarrow> map_option (\<lambda>c. (Some e, c, db)) (reopen cfg key closed c)
                  | Inr db' \<Rightarrow> Some (None, c, db')
                else Some (None, c, db)) of
            None \<Rightarrow> None
          | Some (err, c, db) \<Rightarrow>
              if summariesWritten then Some (err, [], c, db)
              else map_option (\<lambda>(logged, c). (err, logged, c, db)) (restore cfg expired c))"

text \<open>The part of the store the coalescers and the log take.\<close>

record coalescing_store =
  st_denials :: denialCoalescer
  st_failures :: failureCoalescer
  st_audit :: audit_db

definition denial_row :: "coalesce_env \<Rightarrow> denialKey \<Rightarrow> string \<Rightarrow> denialWindow \<Rightarrow> audit_event" where
  "denial_row ce key target closed =
     (let details = \<lparr>rd_target = Some target, rd_repeat_count = None, rd_targets = None, rd_window = None\<rparr>;
          details = (if dw_count closed > 0 then denialWindow_addTo closed details else details)
      in denialKey_event key (ce_marshal ce details))"

definition coalesceDenial ::
  "coalesce_env \<Rightarrow> denialKey \<Rightarrow> string \<Rightarrow> int \<Rightarrow> (nat \<Rightarrow> audit_stmt \<Rightarrow> bool) \<Rightarrow> coalescing_store \<Rightarrow>
     (audit_error option \<times> denialSummary list \<times> coalescing_store) option" where
  "coalesceDenial ce key target now fails st =
     map_option (\<lambda>(err, logged, c, db). (err, logged, st\<lparr>st_denials := c, st_audit := db\<rparr>))
       (coalesce ce denials (denialWindow_note target) (denialSummary_event ce) (denial_row ce key target)
          key now fails (st_denials st) (st_audit st))"

definition RecordCoalescedDenial ::
  "coalesce_env \<Rightarrow> actor \<Rightarrow> string \<Rightarrow> string \<Rightarrow> string \<Rightarrow> int \<Rightarrow> (nat \<Rightarrow> audit_stmt \<Rightarrow> bool) \<Rightarrow> coalescing_store \<Rightarrow>
     (audit_error option \<times> denialSummary list \<times> coalescing_store) option" where
  "RecordCoalescedDenial ce actor action target reason now fails st =
     coalesceDenial ce (denialKeyOf actor action reason) target now fails st"

text \<open>A row without repeats carries no details.\<close>

definition failure_row :: "coalesce_env \<Rightarrow> failureKey \<Rightarrow> nat \<Rightarrow> audit_event" where
  "failure_row ce key repeats = failureKey_event key
     (if repeats > 0
      then ce_marshal ce \<lparr>rd_target = None, rd_repeat_count = Some repeats, rd_targets = None, rd_window = None\<rparr>
      else '''')"

definition coalesceFailure ::
  "coalesce_env \<Rightarrow> failureKey \<Rightarrow> int \<Rightarrow> (nat \<Rightarrow> audit_stmt \<Rightarrow> bool) \<Rightarrow> coalescing_store \<Rightarrow>
     (audit_error option \<times> failureSummary list \<times> coalescing_store) option" where
  "coalesceFailure ce key now fails st =
     map_option (\<lambda>(err, logged, c, db). (err, logged, st\<lparr>st_failures := c, st_audit := db\<rparr>))
       (coalesce ce failures Suc (failureSummary_event ce) (failure_row ce key)
          key now fails (st_failures st) (st_audit st))"

text \<open>\<open>cause\<close> is the text of the error, if there is one.\<close>

definition recordFailure ::
  "coalesce_env \<Rightarrow> actor \<Rightarrow> string \<Rightarrow> string \<Rightarrow> int option \<Rightarrow> string \<Rightarrow> string option \<Rightarrow> int \<Rightarrow>
     (nat \<Rightarrow> audit_stmt \<Rightarrow> bool) \<Rightarrow> coalescing_store \<Rightarrow>
     (audit_error option \<times> failureSummary list \<times> coalescing_store) option" where
  "recordFailure ce actor action targetType targetID targetName cause now fails st =
     coalesceFailure ce (failureKeyOf actor action targetType targetID targetName
       (case cause of None \<Rightarrow> ''unknown error'' | Some e \<Rightarrow> capAuditError e)) now fails st"

text \<open>
  The sweep, and the flush at shutdown (\<open>all\<close>). The result is the summaries \<open>restore\<close> dropped
  to the server log and the store; a failed flush also writes every summary to the server
  log, which keeps no state.
\<close>

definition sweepCoalescedAudit ::
  "coalesce_env \<Rightarrow> int \<Rightarrow> bool \<Rightarrow> (audit_stmt \<Rightarrow> bool) \<Rightarrow> coalescing_store \<Rightarrow>
     (failureSummary list \<times> denialSummary list \<times> coalescing_store) option" where
  "sweepCoalescedAudit ce now all fails st =
     (case drain failures now all (st_failures st) of
        None \<Rightarrow> None
      | Some (fs, fc) \<Rightarrow>
     (case drain denials now all (st_denials st) of
        None \<Rightarrow> None
      | Some (ds, dc) \<Rightarrow>
          let (written, db) = writeAuditSummaries ce now fails
                (map (failureSummary_event ce) fs @ map (denialSummary_event ce) ds) (st_audit st) in
          if written then Some ([], [], \<lparr>st_denials = dc, st_failures = fc, st_audit = db\<rparr>)
          else case restore failures fs fc of
            None \<Rightarrow> None
          | Some (flog, fc) \<Rightarrow>
         (case restore denials ds dc of
            None \<Rightarrow> None
          | Some (dlog, dc) \<Rightarrow> Some (flog, dlog, \<lparr>st_denials = dc, st_failures = fc, st_audit = db\<rparr>))))"

end
