(* ===== verification/Audit_Coalescer_Spec.thy ===== *)
theory Audit_Coalescer_Spec
  imports Audit_Coalescer
begin

text \<open>
  What the coalescers do, without pointers: a coalescer is the queue of its entries, oldest
  window first, each key once. \<open>repr c as\<close> says that the cells \<open>as\<close> are the queue of \<open>c\<close> and that
  the map of pointers finds exactly them; every operation of the code returns on such a
  coalescer and does to the queue what the operation \<open>q_...\<close> of this theory does.
\<close>

section \<open>The queue operations\<close>

type_synonym ('k, 'w) queue = "('k, 'w) entry_state list"

definition closed_at :: "'w coalescer_config \<Rightarrow> int \<Rightarrow> ('k, 'w) entry_state \<Rightarrow> bool" where
  "closed_at cfg now s \<longleftrightarrow> now - es_firstSeen s \<ge> cf_window cfg"

definition summaries :: "'w coalescer_config \<Rightarrow> ('k, 'w) queue \<Rightarrow> ('k, 'w) summary list" where
  "summaries cfg xs = map summary_of (filter (\<lambda>s. cf_count cfg (es_suppressed s) > 0) xs)"

text \<open>\<open>n\<close> is the number of entries left, kept ones included.\<close>

fun q_evict :: "'w coalescer_config \<Rightarrow> 'k \<Rightarrow> int \<Rightarrow> nat \<Rightarrow> ('k, 'w) queue \<Rightarrow> ('k, 'w) queue \<times> ('k, 'w) queue" where
  "q_evict cfg keep now n [] = ([], [])"
| "q_evict cfg keep now n (s # xs) =
     (if \<not> closed_at cfg now s \<and> n \<le> cf_maxKeys cfg then ([], s # xs)
      else if es_key s \<noteq> keep
      then (let (dropped, rest) = q_evict cfg keep now (n - 1) xs in (s # dropped, rest))
      else (let (dropped, rest) = q_evict cfg keep now n xs in (dropped, s # rest)))"

definition q_drain :: "'w coalescer_config \<Rightarrow> int \<Rightarrow> bool \<Rightarrow> ('k, 'w) queue \<Rightarrow> ('k, 'w) queue \<times> ('k, 'w) queue" where
  "q_drain cfg now all xs = (takeWhile (\<lambda>s. all \<or> closed_at cfg now s) xs, dropWhile (\<lambda>s. all \<or> closed_at cfg now s) xs)"

definition new_entry :: "'w coalescer_config \<Rightarrow> 'k \<Rightarrow> int \<Rightarrow> ('k, 'w) entry_state" where
  "new_entry cfg key now = \<lparr>es_key = key, es_firstSeen = now, es_lastSeen = now, es_suppressed = cf_zero cfg,
     es_closedFirstSeen = 0\<rparr>"

definition count_event :: "('w \<Rightarrow> 'w) \<Rightarrow> int \<Rightarrow> ('k, 'w) entry_state \<Rightarrow> ('k, 'w) entry_state" where
  "count_event note now s = s\<lparr>es_suppressed := note (es_suppressed s), es_lastSeen := now\<rparr>"

definition next_window :: "'w coalescer_config \<Rightarrow> int \<Rightarrow> ('k, 'w) entry_state \<Rightarrow> ('k, 'w) entry_state" where
  "next_window cfg now s = s\<lparr>es_closedFirstSeen := es_firstSeen s, es_firstSeen := now, es_lastSeen := now,
     es_suppressed := cf_zero cfg\<rparr>"

definition last_window :: "'w \<Rightarrow> ('k, 'w) entry_state \<Rightarrow> ('k, 'w) entry_state" where
  "last_window closed s = s\<lparr>es_firstSeen := es_closedFirstSeen s, es_suppressed := closed\<rparr>"

abbreviation without :: "'k \<Rightarrow> ('k, 'w) queue \<Rightarrow> ('k, 'w) queue" where
  "without key xs \<equiv> filter (\<lambda>s. es_key s \<noteq> key) xs"

definition q_admit_key ::
  "'w coalescer_config \<Rightarrow> ('w \<Rightarrow> 'w) \<Rightarrow> 'k \<Rightarrow> int \<Rightarrow> ('k, 'w) queue \<Rightarrow> bool \<times> 'w \<times> ('k, 'w) queue" where
  "q_admit_key cfg note key now xs =
     (case List.find (\<lambda>s. es_key s = key) xs of
        None \<Rightarrow> (True, cf_zero cfg, xs @ [new_entry cfg key now])
      | Some s \<Rightarrow>
          if \<not> closed_at cfg now s
          then (False, cf_zero cfg, map (\<lambda>x. if es_key x = key then count_event note now x else x) xs)
          else (True, if cf_count cfg (es_suppressed s) > 0 then note (es_suppressed s) else cf_zero cfg,
                without key xs @ [next_window cfg now s]))"

definition q_admit ::
  "'w coalescer_config \<Rightarrow> ('w \<Rightarrow> 'w) \<Rightarrow> 'k \<Rightarrow> int \<Rightarrow> ('k, 'w) queue \<Rightarrow>
     bool \<times> 'w \<times> ('k, 'w) queue \<times> ('k, 'w) queue" where
  "q_admit cfg note key now xs =
     (let (record, closed, ys) = q_admit_key cfg note key now xs; (dropped, rest) = q_evict cfg key now (length ys) ys
      in (record, closed, dropped, rest))"

definition q_insert :: "('k, 'w) entry_state \<Rightarrow> ('k, 'w) queue \<Rightarrow> ('k, 'w) queue" where
  "q_insert s xs = takeWhile (\<lambda>x. es_firstSeen x \<le> es_firstSeen s) xs @ s # dropWhile (\<lambda>x. es_firstSeen x \<le> es_firstSeen s) xs"

definition q_reopen :: "'w coalescer_config \<Rightarrow> 'k \<Rightarrow> 'w \<Rightarrow> ('k, 'w) queue \<Rightarrow> ('k, 'w) queue" where
  "q_reopen cfg key closed xs =
     (case List.find (\<lambda>s. es_key s = key) xs of
        None \<Rightarrow> xs
      | Some s \<Rightarrow> if cf_count cfg closed = 0 then without key xs else q_insert (last_window closed s) (without key xs))"

definition entry_of_summary :: "('k, 'w) summary \<Rightarrow> ('k, 'w) entry_state" where
  "entry_of_summary s = \<lparr>es_key = sm_key s, es_firstSeen = sm_firstSeen s, es_lastSeen = sm_lastSeen s,
     es_suppressed = sm_window s, es_closedFirstSeen = 0\<rparr>"

text \<open>Restoring sorted summaries: the queue before the cursor, and the queue from the cursor on.\<close>

fun q_restore ::
  "'w coalescer_config \<Rightarrow> ('k, 'w) summary list \<Rightarrow> ('k, 'w) queue \<Rightarrow> ('k, 'w) queue \<Rightarrow>
     ('k, 'w) summary list \<times> ('k, 'w) queue" where
  "q_restore cfg [] done ahead = ([], done @ ahead)"
| "q_restore cfg (s # ss) done ahead =
     (if sm_key s \<in> es_key ` set (done @ ahead) then
        (let (logged, xs) = q_restore cfg ss done ahead in (if cf_logReopened cfg then s # logged else logged, xs))
      else if length (done @ ahead) \<ge> cf_maxKeys cfg then
        (let (logged, xs) = q_restore cfg ss done ahead in (s # logged, xs))
      else q_restore cfg ss
        (done @ takeWhile (\<lambda>x. es_firstSeen x \<le> sm_firstSeen s) ahead @ [entry_of_summary s])
        (dropWhile (\<lambda>x. es_firstSeen x \<le> sm_firstSeen s) ahead))"

section \<open>A coalescer and its queue\<close>

definition repr :: "('k, 'w) coalescer \<Rightarrow> addr list \<Rightarrow> bool" where
  "repr c as \<longleftrightarrow> holds (co_list c) as \<and> gm_wf (co_entries c) \<and> (\<forall>a \<in> set as. a < co_alloc c) \<and>
     (\<forall>k a. map_of (co_entries c) k = Some a \<longleftrightarrow> a \<in> set as \<and> es_key (state_at c a) = k)"

abbreviation queue_of :: "('k, 'w) coalescer \<Rightarrow> addr list \<Rightarrow> ('k, 'w) queue" where
  "queue_of c as \<equiv> map (state_at c) as"

lemma reprD:
  assumes "repr c as"
  shows "holds (co_list c) as" "distinct as" "gm_wf (co_entries c)" "\<And>a. a \<in> set as \<Longrightarrow> a < co_alloc c"
    "\<And>k a. map_of (co_entries c) k = Some a \<longleftrightarrow> a \<in> set as \<and> es_key (state_at c a) = k"
  using assms by (auto simp: repr_def holds_def)

lemma repr_key_inj: "repr c as \<Longrightarrow> a \<in> set as \<Longrightarrow> b \<in> set as \<Longrightarrow> es_key (state_at c a) = es_key (state_at c b) \<Longrightarrow> a = b"
  by (metis option.inject reprD(5))

lemma repr_size:
  assumes "repr c as"
  shows "length (co_entries c) = length as"
proof -
  have entry: "(k, a) \<in> set (co_entries c) \<longleftrightarrow> a \<in> set as \<and> es_key (state_at c a) = k" for k a
    using reprD(3,5)[OF assms] gm_entry_iff by metis
  have "inj_on snd (set (co_entries c))" by (rule inj_onI) (auto simp: entry)
  moreover have "a \<in> snd ` set (co_entries c) \<longleftrightarrow> a \<in> set as" for a
    using entry[of "es_key (state_at c a)" a] by (metis entry imageE prod.exhaust_sel rev_image_eqI snd_conv)
  then have "snd ` set (co_entries c) = set as" by blast
  ultimately have "card (set (co_entries c)) = card (set as)" by (metis card_image)
  moreover have "distinct (co_entries c)" using reprD(3)[OF assms] by (simp add: gm_wf_def distinct_map)
  ultimately show ?thesis using reprD(2)[OF assms] by (simp add: distinct_card)
qed

lemma state_at_simps [simp]:
  "state_at (set_state a f c) b = (if b = a then f (state_at c a) else state_at c b)"
  "state_at (new_state s c) b = (if b = co_alloc c then s else state_at c b)"
  "state_at (c\<lparr>co_entries := m\<rparr>) b = state_at c b"
  "state_at (c\<lparr>co_list := l\<rparr>) b = cl_entry (el_heap l b)"
  "cl_entry (el_heap (co_list c) b) = state_at c b"
  by (simp_all add: state_at_def set_state_def new_state_def set_cell_def)

lemma co_simps [simp]:
  "co_entries (set_state a f c) = co_entries c" "co_alloc (set_state a f c) = co_alloc c"
  "co_entries (new_state s c) = co_entries c" "co_alloc (new_state s c) = Suc (co_alloc c)"
  by (simp_all add: set_state_def new_state_def)

lemma holds_set_state [simp]: "holds (co_list (set_state a f c)) as = holds (co_list c) as"
proof -
  have "segment (el_heap (co_list (set_state a f c))) None as None = segment (el_heap (co_list c)) None as None"
    by (rule segment_other) (simp add: set_state_def set_cell_def)
  then show ?thesis by (simp add: holds_def) (simp add: set_state_def set_cell_def)
qed

lemma holds_new_state [simp]: "co_alloc c \<notin> set as \<Longrightarrow> holds (co_list (new_state s c)) as = holds (co_list c) as"
  by (simp add: holds_def new_state_def set_cell_def)

lemma repr_next:
  assumes "repr c (ps @ a # as)"
  shows "cl_next (el_heap (co_list c) a) = first_of as None"
  using reprD(1)[OF assms] by (simp add: holds_def)

section \<open>Dropping\<close>

lemma drop_repr:
  assumes "repr c (ps @ a # as)"
  shows "repr (snd (drop_entry cfg ex a c)) (ps @ as)"
    "fst (drop_entry cfg ex a c) = ex @ summaries cfg [state_at c a]"
    "state_at (snd (drop_entry cfg ex a c)) = state_at c"
proof -
  have out: "a \<notin> set (ps @ as)" using reprD(2)[OF assms] by simp
  have "holds (unlink a (co_list c)) (ps @ as)" using unlink_holds reprD(1)[OF assms] .
  moreover have "map_of (AList.delete (es_key (state_at c a)) (co_entries c)) k = Some b \<longleftrightarrow>
      b \<in> set (ps @ as) \<and> es_key (state_at c b) = k" for k b
  proof (cases "b = a")
    case True
    then show ?thesis using reprD(5)[OF assms, of k a] out by (simp add: delete_conv')
  next
    case False
    then have "b \<in> set (ps @ as) \<Longrightarrow> es_key (state_at c b) \<noteq> es_key (state_at c a)"
      using repr_key_inj[OF assms, of a b] by auto
    then show ?thesis using reprD(5)[OF assms, of k b] False
      by (cases "k = es_key (state_at c a)") (auto simp: delete_conv')
  qed
  moreover have "gm_wf (AList.delete (es_key (state_at c a)) (co_entries c))"
    using reprD(3)[OF assms] by (simp add: gm_wf_def distinct_delete)
  moreover have "b < co_alloc c" if "b \<in> set (ps @ as)" for b using reprD(4)[OF assms, of b] that by auto
  ultimately show "repr (snd (drop_entry cfg ex a c)) (ps @ as)"
    unfolding repr_def drop_entry_def Let_def by simp
qed (simp_all add: drop_entry_def Let_def summaries_def fun_eq_iff)

lemma evict_from_repr:
  assumes "repr c (ps @ as)" "q_evict cfg keep now (length (ps @ as)) (queue_of c as) = (dropped, rest)"
  shows "\<exists>c' qs. evictFrom cfg keep now (first_of as None) ex c = Some (ex @ summaries cfg dropped, c') \<and>
    repr c' (ps @ qs) \<and> queue_of c qs = rest \<and> state_at c' = state_at c \<and> co_alloc c' = co_alloc c"
  using assms
proof (induction as arbitrary: c ps ex dropped rest)
  case Nil
  then show ?case by (simp add: evictFrom.simps summaries_def)
next
  case (Cons a as)
  note step = evictFrom.simps[of cfg keep now "Some a" ex c] repr_next[OF Cons.prems(1)] repr_size[OF Cons.prems(1)]
    closed_at_def
  show ?case
  proof (cases "\<not> closed_at cfg now (state_at c a) \<and> length (ps @ a # as) \<le> cf_maxKeys cfg")
    case True
    then show ?thesis using Cons.prems
      by (intro exI[of _ c] exI[of _ "a # as"]) (auto simp: step summaries_def)
  next
    case stay: False
    show ?thesis
    proof (cases "es_key (state_at c a) = keep")
      case True
      obtain r where r: "q_evict cfg keep now (length ((ps @ [a]) @ as)) (queue_of c as) = (dropped, r)" "rest = state_at c a # r"
        using Cons.prems(2) stay True by (auto split: prod.splits)
      have "repr c ((ps @ [a]) @ as)" using Cons.prems(1) by simp
      from Cons.IH[OF this r(1), of ex] obtain c' qs where
        "evictFrom cfg keep now (first_of as None) ex c = Some (ex @ summaries cfg dropped, c')"
        "repr c' (ps @ a # qs)" "queue_of c qs = r" "state_at c' = state_at c" "co_alloc c' = co_alloc c" by auto
      then show ?thesis using stay True r(2) by (intro exI[of _ c'] exI[of _ "a # qs"]) (auto simp: step)
    next
      case False
      let ?d = "drop_entry cfg ex a c"
      note d = drop_repr[OF Cons.prems(1), of cfg ex]
      obtain ds where ds: "q_evict cfg keep now (length (ps @ as)) (queue_of c as) = (ds, rest)" "dropped = state_at c a # ds"
        using Cons.prems(2) stay False by (auto split: prod.splits)
      have "q_evict cfg keep now (length (ps @ as)) (queue_of (snd ?d) as) = (ds, rest)" using ds(1) by (simp add: d(3))
      from Cons.IH[OF d(1) this, of "fst ?d"] obtain c' qs where
        "evictFrom cfg keep now (first_of as None) (fst ?d) (snd ?d) = Some (fst ?d @ summaries cfg ds, c')"
        "repr c' (ps @ qs)" "queue_of c qs = rest" "state_at c' = state_at c" "co_alloc c' = co_alloc c"
        by (auto simp: d(3)) (auto simp: drop_entry_def Let_def)
      then show ?thesis using stay False d(2) ds(2)
        by (intro exI[of _ c'] exI[of _ qs]) (auto simp: step summaries_def)
    qed
  qed
qed

lemma drain_from_repr:
  assumes "repr c as"
  shows "\<exists>c' qs. drainFrom cfg now all (first_of as None) ex c =
      Some (ex @ summaries cfg (fst (q_drain cfg now all (queue_of c as))), c') \<and>
    repr c' qs \<and> queue_of c qs = snd (q_drain cfg now all (queue_of c as)) \<and> state_at c' = state_at c"
  using assms
proof (induction as arbitrary: c ex)
  case Nil
  then show ?case by (simp add: drainFrom.simps summaries_def q_drain_def)
next
  case (Cons a as)
  have r: "repr c ([] @ a # as)" using Cons.prems by simp
  note step = drainFrom.simps[of cfg now _ "Some a" ex c] repr_next[OF r]
  show ?case
  proof (cases "\<not> all \<and> \<not> closed_at cfg now (state_at c a)")
    case True
    then show ?thesis using Cons.prems
      by (intro exI[of _ c] exI[of _ "a # as"]) (auto simp: step summaries_def q_drain_def closed_at_def)
  next
    case False
    let ?d = "drop_entry cfg ex a c"
    note d = drop_repr[OF r, of cfg ex]
    have "repr (snd ?d) as" using d(1) by simp
    from Cons.IH[OF this, of "fst ?d"] obtain c' qs where
      "drainFrom cfg now all (first_of as None) (fst ?d) (snd ?d) =
         Some (fst ?d @ summaries cfg (fst (q_drain cfg now all (queue_of c as))), c')"
      "repr c' qs" "queue_of c qs = snd (q_drain cfg now all (queue_of c as))" "state_at c' = state_at c"
      by (auto simp: d(3))
    then show ?thesis using False d(2)
      by (intro exI[of _ c'] exI[of _ qs]) (auto simp: step summaries_def q_drain_def closed_at_def)
  qed
qed

section \<open>Adding and moving entries\<close>

lemma find_split: "\<forall>x \<in> set xs. \<not> P x \<Longrightarrow> P y \<Longrightarrow> List.find P (xs @ y # ys) = Some y"
  by (induction xs) auto

lemma repr_split:
  assumes "repr c as" "map_of (co_entries c) key = Some a"
  obtains ps qs where "as = ps @ a # qs" "es_key (state_at c a) = key"
    "\<And>b. b \<in> set (ps @ qs) \<Longrightarrow> es_key (state_at c b) \<noteq> key"
proof -
  have a: "a \<in> set as" "es_key (state_at c a) = key" using reprD(5)[OF assms(1)] assms(2) by auto
  then obtain ps qs where split: "as = ps @ a # qs" by (meson split_list)
  moreover have "es_key (state_at c b) \<noteq> key" if "b \<in> set (ps @ qs)" for b
    using repr_key_inj[OF assms(1), of b a] a that split reprD(2)[OF assms(1)] by auto
  ultimately show ?thesis using that a by blast
qed

lemma find_repr:
  assumes "repr c as"
  shows "List.find (\<lambda>s. es_key s = key) (queue_of c as) = map_option (state_at c) (map_of (co_entries c) key)"
proof (cases "map_of (co_entries c) key")
  case None
  then have "es_key (state_at c a) \<noteq> key" if "a \<in> set as" for a
    using reprD(5)[OF assms, of key a] that by auto
  then show ?thesis using None by (auto simp: find_None_iff)
next
  case (Some a)
  from repr_split[OF assms Some] obtain ps qs where "as = ps @ a # qs" "es_key (state_at c a) = key"
    "\<And>b. b \<in> set (ps @ qs) \<Longrightarrow> es_key (state_at c b) \<noteq> key" by blast
  then show ?thesis using Some by (auto intro!: find_split)
qed

text \<open>Relinking the same cells, with keys unchanged, and linking a new cell.\<close>

lemma repr_relink:
  assumes "repr c as" "holds l bs" "set bs = set as"
    and "\<And>a. a \<in> set as \<Longrightarrow> es_key (cl_entry (el_heap l a)) = es_key (state_at c a)"
  shows "repr (c\<lparr>co_list := l\<rparr>) bs"
  using assms reprD[OF assms(1)] by (auto simp: repr_def)

lemma repr_add:
  assumes "repr c as" "map_of (co_entries c) (es_key s) = None" "holds l bs" "set bs = insert (co_alloc c) (set as)"
    and "\<And>b. cl_entry (el_heap l b) = state_at (new_state s c) b"
  shows "repr ((new_state s c)\<lparr>co_entries := AList.update (es_key s) (co_alloc c) (co_entries c), co_list := l\<rparr>) bs"
proof -
  have fresh: "co_alloc c \<notin> set as" using reprD(4)[OF assms(1)] by blast
  have "((map_of (co_entries c))(es_key s \<mapsto> co_alloc c)) k = Some a \<longleftrightarrow>
      a \<in> insert (co_alloc c) (set as) \<and> es_key (state_at (new_state s c) a) = k" for k a
    using reprD(5)[OF assms(1), of k a] assms(2) fresh by auto
  moreover have "\<forall>a \<in> set bs. a < Suc (co_alloc c)" using assms(4) reprD(4)[OF assms(1)] by (auto simp: less_Suc_eq)
  ultimately show ?thesis using assms(3-5) reprD(3)[OF assms(1)] by (simp add: repr_def del: state_at_simps(2))
qed

lemma repr_set_state:
  assumes "repr c as" "\<And>s. es_key (f s) = es_key s"
  shows "repr (set_state a f c) as"
proof -
  have "repr (c\<lparr>co_list := co_list (set_state a f c)\<rparr>) as"
    by (rule repr_relink[OF assms(1)]) (use assms reprD(1)[OF assms(1)] in simp_all)
  then show ?thesis by (simp add: set_state_def)
qed

lemma repr_find_split:
  assumes "repr c as" "map_of (co_entries c) key = Some a"
  obtains ps qs where "as = ps @ a # qs" "a \<notin> set (ps @ qs)" "es_key (state_at c a) = key"
    "without key (queue_of c as) = queue_of c (ps @ qs)"
    "\<And>b. b \<in> set (ps @ qs) \<Longrightarrow> es_key (state_at c b) \<noteq> key"
proof -
  obtain ps qs where split: "as = ps @ a # qs" "es_key (state_at c a) = key"
    "\<And>b. b \<in> set (ps @ qs) \<Longrightarrow> es_key (state_at c b) \<noteq> key" using repr_split[OF assms] by blast
  moreover have "a \<notin> set (ps @ qs)" using split reprD(2)[OF assms(1)] by auto
  moreover have "without key (queue_of c as) = queue_of c (ps @ qs)" using split by (auto simp: filter_id_conv)
  ultimately show ?thesis using that by blast
qed

lemma admit_key_repr:
  assumes "repr c as" "admit_key cfg note key now c = (record, closed, c')"
  shows "\<exists>bs. repr c' bs \<and> q_admit_key cfg note key now (queue_of c as) = (record, closed, queue_of c' bs)"
proof (cases "map_of (co_entries c) key")
  case None
  let ?s = "new_entry cfg key now"
  have fresh: "co_alloc c \<notin> set as" using reprD(4)[OF assms(1)] by blast
  have c': "c' = (new_state ?s c)\<lparr>co_entries := AList.update (es_key ?s) (co_alloc c) (co_entries c),
      co_list := pushNewest (co_alloc c) (co_list (new_state ?s c))\<rparr>" "record" "closed = cf_zero cfg"
    using assms(2) None by (auto simp: admit_key_def new_entry_def Let_def)
  have "holds (pushNewest (co_alloc c) (co_list (new_state ?s c))) (as @ [co_alloc c])"
    by (rule push_holds) (use fresh reprD(1)[OF assms(1)] in simp_all)
  then have "repr c' (as @ [co_alloc c])"
    unfolding c' by (intro repr_add[OF assms(1)]) (use None in \<open>auto simp: new_entry_def\<close>)
  moreover have "queue_of c' as = queue_of c as" using fresh by (auto simp: c')
  ultimately show ?thesis using c' None by (intro exI[of _ "as @ [co_alloc c]"]) (simp add: q_admit_key_def find_repr[OF assms(1)])
next
  case (Some a)
  obtain ps qs where split: "as = ps @ a # qs" "a \<notin> set (ps @ qs)" "es_key (state_at c a) = key"
    "without key (queue_of c as) = queue_of c (ps @ qs)"
    "\<And>b. b \<in> set (ps @ qs) \<Longrightarrow> es_key (state_at c b) \<noteq> key" using repr_find_split[OF assms(1) Some] by blast
  show ?thesis
  proof (cases "closed_at cfg now (state_at c a)")
    case False
    then have c': "c' = set_state a (count_event note now) c" "\<not> record" "closed = cf_zero cfg"
      using assms(2) Some by (auto simp: admit_key_def Let_def closed_at_def count_event_def[abs_def])
    have "repr c' as" unfolding c' by (rule repr_set_state[OF assms(1)]) (simp add: count_event_def)
    moreover have "queue_of c' as = map (\<lambda>x. if es_key x = key then count_event note now x else x) (queue_of c as)"
      using split by (auto simp: c')
    ultimately show ?thesis using c' False Some by (intro exI[of _ as]) (simp add: q_admit_key_def find_repr[OF assms(1)])
  next
    case True
    let ?c = "set_state a (next_window cfg now) c"
    from True have c': "c' = ?c\<lparr>co_list := pushNewest a (unlink a (co_list ?c))\<rparr>" "record"
      "closed = (if cf_count cfg (es_suppressed (state_at c a)) > 0 then note (es_suppressed (state_at c a)) else cf_zero cfg)"
      using assms(2) Some by (auto simp: admit_key_def Let_def closed_at_def next_window_def[abs_def])
    have rc: "repr ?c as" by (rule repr_set_state[OF assms(1)]) (simp add: next_window_def)
    then have "holds (unlink a (co_list ?c)) (ps @ qs)" using unlink_holds reprD(1) split(1) by blast
    from push_holds[OF this split(2)] have "repr c' ((ps @ qs) @ [a])"
      unfolding c' by (intro repr_relink[OF rc]) (use split(1) in auto)
    moreover have "queue_of c' ((ps @ qs) @ [a]) = without key (queue_of c as) @ [next_window cfg now (state_at c a)]"
      unfolding split(4) using split(2) by (auto simp: c')
    ultimately show ?thesis using c' True Some
      by (intro exI[of _ "(ps @ qs) @ [a]"]) (simp add: q_admit_key_def find_repr[OF assms(1)])
  qed
qed

lemma admit_repr:
  assumes "repr c as" "q_admit cfg note key now (queue_of c as) = (record, closed, dropped, rest)"
  shows "\<exists>c' bs. admit cfg note key now c = Some (record, closed, summaries cfg dropped, c') \<and>
    repr c' bs \<and> queue_of c' bs = rest"
proof -
  obtain r cl c1 where a: "admit_key cfg note key now c = (r, cl, c1)" by (metis prod_cases3)
  from admit_key_repr[OF assms(1) a] obtain bs where b: "repr c1 bs"
    "q_admit_key cfg note key now (queue_of c as) = (r, cl, queue_of c1 bs)" by blast
  then have e: "r = record" "cl = closed" "q_evict cfg key now (length ([] @ bs)) (queue_of c1 bs) = (dropped, rest)"
    using assms(2) by (auto simp: q_admit_def split: prod.splits)
  have "repr c1 ([] @ bs)" "el_oldest (co_list c1) = first_of bs None" using b(1) reprD(1)[OF b(1)] by (simp_all add: holds_def)
  with evict_from_repr[OF this(1) e(3), of "[]"] a e(1,2) show ?thesis by (force simp: admit_def evict_def)
qed

lemma drain_repr:
  assumes "repr c as" "q_drain cfg now all (queue_of c as) = (dropped, rest)"
  shows "\<exists>c' bs. drain cfg now all c = Some (summaries cfg dropped, c') \<and> repr c' bs \<and> queue_of c' bs = rest"
proof -
  have "el_oldest (co_list c) = first_of as None" using reprD(1)[OF assms(1)] by (simp add: holds_def)
  with drain_from_repr[OF assms(1), of cfg now all "[]"] assms(2) show ?thesis by (force simp: drain_def)
qed

lemma queue_reinserted:
  assumes entries: "\<And>b. cl_entry (el_heap l b) = (if b = a then e else state_at c b)" and apart: "a \<notin> set bs"
  defines "P \<equiv> \<lambda>b. es_firstSeen (if b = a then e else state_at c b) \<le> es_firstSeen e"
  shows "queue_of (c\<lparr>co_list := l\<rparr>) (takeWhile P bs @ a # dropWhile P bs) = q_insert e (queue_of c bs)"
proof -
  have other: "queue_of (c\<lparr>co_list := l\<rparr>) xs = queue_of c xs" if "a \<notin> set xs" for xs
    using that by (auto simp: entries)
  have around: "queue_of (c\<lparr>co_list := l\<rparr>) (xs @ a # ys) = queue_of c xs @ e # queue_of c ys"
    if "a \<notin> set xs" "a \<notin> set ys" for xs ys
    using other[OF that(1)] other[OF that(2)] by (simp add: entries)
  have stop: "takeWhile P bs = takeWhile (\<lambda>b. es_firstSeen (state_at c b) \<le> es_firstSeen e) bs"
    "dropWhile P bs = dropWhile (\<lambda>b. es_firstSeen (state_at c b) \<le> es_firstSeen e) bs"
    using apart by (auto intro!: takeWhile_cong dropWhile_cong simp: P_def)
  have "a \<notin> set (takeWhile P bs)" "a \<notin> set (dropWhile P bs)"
    using apart by (meson set_takeWhileD set_dropWhileD)+
  from around[OF this] show ?thesis unfolding stop q_insert_def by (simp only: takeWhile_map dropWhile_map o_def)
qed

lemma reopen_merged_repr:
  assumes "repr c as" "map_of (co_entries c) key = Some a" "cf_count cfg closed \<noteq> 0"
    and split: "as = ps @ a # qs" "a \<notin> set (ps @ qs)"
  shows "\<exists>c' bs. reopen cfg key closed c = Some c' \<and> repr c' bs \<and>
    queue_of c' bs = q_insert (last_window closed (state_at c a)) (queue_of c (ps @ qs))"
proof -
  let ?e = "last_window closed (state_at c a)"
  let ?u = "c\<lparr>co_list := unlink a (co_list c)\<rparr>"
  let ?c = "set_state a (last_window closed) ?u"
  let ?P = "\<lambda>b. es_firstSeen (state_at ?c b) \<le> es_firstSeen (state_at ?c a)"
  let ?bs = "takeWhile ?P (ps @ qs) @ a # dropWhile ?P (ps @ qs)"
  have "holds (co_list ?u) (ps @ qs)" using unlink_holds reprD(1)[OF assms(1)] split(1) by simp
  then have "holds (co_list ?c) (ps @ qs)" by (simp only: holds_set_state)
  from insert_ordered_holds[OF this split(2), of es_firstSeen] obtain l where
    l: "insertOrdered es_firstSeen a (co_list ?c) = Some l" "holds l ?bs" "\<And>b. cl_entry (el_heap l b) = state_at ?c b"
    unfolding state_at_simps(5) by blast
  have st: "state_at ?c b = (if b = a then ?e else state_at c b)" for b by simp
  have "set ?bs = insert a (set (ps @ qs))" by (metis Un_insert_right list.simps(15) set_append takeWhile_dropWhile_id)
  then have rep: "repr (c\<lparr>co_list := l\<rparr>) ?bs"
    by (intro repr_relink[OF assms(1) l(2)]) (use split(1) l(3) in \<open>auto simp: last_window_def\<close>)
  have "queue_of (c\<lparr>co_list := l\<rparr>) ?bs = q_insert ?e (queue_of c (ps @ qs))"
    using queue_reinserted[OF l(3)[unfolded st] split(2)] unfolding st by simp
  moreover have "reopen cfg key closed c = Some (c\<lparr>co_list := l\<rparr>)"
    using assms(2,3) l(1) by (simp add: reopen_def Let_def last_window_def[abs_def] set_state_def)
  ultimately show ?thesis using rep by blast
qed

lemma reopen_repr:
  assumes "repr c as"
  shows "\<exists>c' bs. reopen cfg key closed c = Some c' \<and> repr c' bs \<and> queue_of c' bs = q_reopen cfg key closed (queue_of c as)"
proof (cases "map_of (co_entries c) key")
  case None
  then show ?thesis using assms by (intro exI[of _ c] exI[of _ as]) (simp add: reopen_def q_reopen_def find_repr[OF assms])
next
  case (Some a)
  obtain ps qs where split: "as = ps @ a # qs" "a \<notin> set (ps @ qs)" "es_key (state_at c a) = key"
    "without key (queue_of c as) = queue_of c (ps @ qs)" using repr_find_split[OF assms Some] by blast
  show ?thesis
  proof (cases "cf_count cfg closed = 0")
    case True
    let ?c = "c\<lparr>co_list := unlink a (co_list c), co_entries := AList.delete key (co_entries c)\<rparr>"
    have "?c = snd (drop_entry cfg [] a c)" by (simp add: drop_entry_def Let_def split(3))
    with drop_repr[of c ps a qs cfg "[]"] assms split(1) have "repr ?c (ps @ qs)" by simp
    then show ?thesis using True Some split(4)
      by (intro exI[of _ ?c] exI[of _ "ps @ qs"]) (simp add: reopen_def q_reopen_def find_repr[OF assms] Let_def)
  next
    case False
    then have "q_reopen cfg key closed (queue_of c as) = q_insert (last_window closed (state_at c a)) (queue_of c (ps @ qs))"
      unfolding q_reopen_def find_repr[OF assms] Some split(4) by simp
    with reopen_merged_repr[OF assms Some False split(1,2)] show ?thesis by simp
  qed
qed

lemma known_key_repr:
  assumes "repr c as"
  shows "map_of (co_entries c) k \<noteq> None \<longleftrightarrow> k \<in> es_key ` set (queue_of c as)"
  using reprD(5)[OF assms] by (auto simp: image_iff)

lemma restore_one_repr:
  assumes "repr c (ps @ as)" "map_of (co_entries c) (sm_key s) = None"
  defines "P \<equiv> \<lambda>b. es_firstSeen (state_at c b) \<le> sm_firstSeen s"
  defines "d \<equiv> (new_state (entry_of_summary s) c)\<lparr>
      co_entries := AList.update (es_key (entry_of_summary s)) (co_alloc c) (co_entries c),
      co_list := insertBefore (co_alloc c) (first_of (dropWhile P as) None) (co_list (new_state (entry_of_summary s) c))\<rparr>"
  shows "repr d ((ps @ takeWhile P as @ [co_alloc c]) @ dropWhile P as)"
    and "queue_of d (ps @ takeWhile P as @ [co_alloc c]) = queue_of c ps @ queue_of c (takeWhile P as) @ [entry_of_summary s]"
    and "queue_of d (dropWhile P as) = queue_of c (dropWhile P as)"
proof -
  let ?c = "new_state (entry_of_summary s) c" and ?a = "co_alloc c" and ?qs = "dropWhile P as"
  have fresh: "?a \<notin> set (ps @ as)" using reprD(4)[OF assms(1)] by blast
  have parts: "(ps @ takeWhile P as) @ ?qs = ps @ as" by simp
  have "holds (co_list ?c) ((ps @ takeWhile P as) @ ?qs)"
    unfolding parts using fresh reprD(1)[OF assms(1)] by simp
  then have "holds (insertBefore ?a (first_of ?qs None) (co_list ?c)) ((ps @ takeWhile P as) @ ?a # ?qs)"
    by (rule insert_before_holds) (unfold parts, rule fresh)
  moreover have "set ((ps @ takeWhile P as) @ ?a # ?qs) = insert ?a (set (ps @ as))"
    using arg_cong[OF parts, of set] by (simp only: set_append list.set) blast
  ultimately have "repr d ((ps @ takeWhile P as) @ ?a # ?qs)"
    unfolding d_def by (intro repr_add[OF assms(1)]) (use assms(2) in \<open>auto simp: entry_of_summary_def\<close>)
  then show "repr d ((ps @ takeWhile P as @ [?a]) @ ?qs)" by simp
  have same: "queue_of d bs = queue_of c bs" if "set bs \<subseteq> set (ps @ as)" for bs using that fresh by (auto simp: d_def)
  show "queue_of d (ps @ takeWhile P as @ [?a]) = queue_of c ps @ queue_of c (takeWhile P as) @ [entry_of_summary s]"
    using same[of ps] same[of "takeWhile P as"] set_takeWhileD[of _ P as] by (simp add: subset_iff d_def)
  show "queue_of d ?qs = queue_of c ?qs" using same[of ?qs] set_dropWhileD[of _ P as] by (simp add: subset_iff)
qed

lemma restore_each_repr:
  assumes "repr c (ps @ as)" "q_restore cfg ss (queue_of c ps) (queue_of c as) = (lg, xs)"
  shows "\<exists>c' bs. restoreEach cfg ss (first_of as None) logged c = Some (logged @ lg, c') \<and> repr c' bs \<and> queue_of c' bs = xs"
  using assms
proof (induction ss arbitrary: c ps as logged lg)
  case Nil
  then show ?case by (auto intro!: exI[of _ c] exI[of _ "ps @ as"])
next
  case (Cons s ss)
  note known = known_key_repr[OF Cons.prems(1), of "sm_key s"] and size = repr_size[OF Cons.prems(1)]
  show ?case
  proof (cases "map_of (co_entries c) (sm_key s) = None \<and> length (ps @ as) < cf_maxKeys cfg")
    case False
    then obtain lg' where lg': "q_restore cfg ss (queue_of c ps) (queue_of c as) = (lg', xs)"
      using Cons.prems(2) known by (auto split: if_splits prod.splits)
    from False known size Cons.IH[OF Cons.prems(1) lg', of logged] Cons.IH[OF Cons.prems(1) lg', of "logged @ [s]"] Cons.prems(2) lg'
    show ?thesis by (auto split: if_splits)
  next
    case True
    let ?P = "\<lambda>b. es_firstSeen (state_at c b) \<le> sm_firstSeen s"
    note one = restore_one_repr[OF Cons.prems(1) True[THEN conjunct1]]
    have "q_restore cfg ss (queue_of c ps @ queue_of c (takeWhile ?P as) @ [entry_of_summary s]) (queue_of c (dropWhile ?P as)) = (lg, xs)"
      using Cons.prems(2) known True by (auto simp: takeWhile_map dropWhile_map o_def split: if_splits)
    from Cons.IH[OF one(1) this[folded one(2,3)], of logged] show ?thesis
    proof (elim exE conjE)
      fix c' bs
      assume "restoreEach cfg ss (first_of (dropWhile ?P as) None) logged
          ((new_state (entry_of_summary s) c)\<lparr>
            co_entries := AList.update (es_key (entry_of_summary s)) (co_alloc c) (co_entries c),
            co_list := insertBefore (co_alloc c) (first_of (dropWhile ?P as) None) (co_list (new_state (entry_of_summary s) c))\<rparr>)
          = Some (logged @ lg, c')" and r: "repr c' bs" "queue_of c' bs = xs"
      moreover have "findAfter es_firstSeen (co_list c) (sm_firstSeen s) (first_of as None) = Some (first_of (dropWhile ?P as) None)"
        using findAfter_segment[of "co_list c" "last_of None ps" as es_firstSeen] reprD(1)[OF Cons.prems(1)]
        by (simp add: holds_def)
      ultimately show ?thesis using True size by (auto simp: entry_of_summary_def Let_def)
    qed
  qed
qed

lemma restore_repr:
  assumes "repr c as" "q_restore cfg (sort_key sm_firstSeen ss) [] (queue_of c as) = (lg, xs)"
  shows "\<exists>c' bs. restore cfg ss c = Some (lg, c') \<and> repr c' bs \<and> queue_of c' bs = xs"
  using restore_each_repr[of c "[]" as cfg "sort_key sm_firstSeen ss" lg xs "[]"] assms reprD(1)[OF assms(1)]
  by (simp add: restore_def holds_def)

end
