(* ===== verification/Audit_Coalescer_Facts.thy ===== *)
theory Audit_Coalescer_Facts
  imports Audit_Coalescer_Spec "HOL-Library.Multiset"
begin

text \<open>
  What a queue of windows keeps. The contract of a window, as the two coalescers use it, is
  the locale \<open>event_window\<close>: an empty window counts nothing, and noting an event adds one. Under
  it every operation accounts for each event (an event is held in a window, or handed to the
  caller in a summary or a closed window), and the queue stays ordered, within its cap, and
  with one entry for a key.
\<close>

section \<open>Multisets of entries\<close>

abbreviation keys :: "('k, 'w) queue \<Rightarrow> 'k list" where
  "keys xs \<equiv> map es_key xs"

lemma q_evict_mset: "q_evict cfg keep now n xs = (dropped, rest) \<Longrightarrow> mset dropped + mset rest = mset xs"
  by (induction cfg keep now n xs arbitrary: dropped rest rule: q_evict.induct) (auto split: if_splits prod.splits)

lemma q_evict_keeps: "q_evict cfg keep now n xs = (dropped, rest) \<Longrightarrow> keep \<notin> set (keys dropped)"
  by (induction cfg keep now n xs arbitrary: dropped rest rule: q_evict.induct) (auto split: if_splits prod.splits)

lemma q_evict_subseq: "q_evict cfg keep now n xs = (dropped, rest) \<Longrightarrow> sorted (map f xs) \<Longrightarrow> sorted (map f rest)"
proof (induction cfg keep now n xs arbitrary: dropped rest rule: q_evict.induct)
  case (2 cfg keep now n s xs)
  have "set rest' \<subseteq> set xs" if "q_evict cfg keep now m xs = (d, rest')" for m d rest'
    using arg_cong[OF q_evict_mset[OF that], of set_mset] by auto
  then show ?case using 2 by (fastforce split: if_splits prod.splits)
qed auto

lemma keys_of_mset: "mset xs + mset ys = mset zs \<Longrightarrow> distinct (keys zs) \<Longrightarrow>
    distinct (keys xs) \<and> distinct (keys ys) \<and> set (keys xs) \<inter> set (keys ys) = {}"
proof -
  assume "mset xs + mset ys = mset zs" "distinct (keys zs)"
  then have "mset (keys zs) = mset (keys (xs @ ys))" by (metis mset_append mset_map)
  then have "distinct (keys (xs @ ys))" using \<open>distinct (keys zs)\<close> mset_eq_imp_distinct_iff by blast
  then show ?thesis by (simp only: map_append distinct_append)
qed

lemma q_evict_size:
  assumes "q_evict cfg keep now (length xs) xs = (dropped, rest)" "length xs \<le> Suc (cf_maxKeys cfg)"
    and "distinct (keys xs)" "0 < cf_maxKeys cfg"
  shows "length rest \<le> cf_maxKeys cfg"
proof (cases "length xs \<le> cf_maxKeys cfg")
  case True
  then show ?thesis using arg_cong[OF q_evict_mset[OF assms(1)], of size] by simp
next
  case False
  have "dropped \<noteq> []"
  proof (cases xs)
    case (Cons s ys)
    show ?thesis
    proof (cases "es_key s = keep")
      case True
      then obtain t zs where "ys = t # zs" "es_key t \<noteq> keep" using False assms(3,4) Cons by (cases ys) auto
      then show ?thesis using assms(1) False Cons True by (auto split: prod.splits)
    qed (use assms(1) False Cons in \<open>auto split: prod.splits\<close>)
  qed (use False in simp)
  then show ?thesis using arg_cong[OF q_evict_mset[OF assms(1)], of size] assms(2) by (cases dropped) auto
qed

section \<open>The events a queue holds\<close>

definition held :: "'w coalescer_config \<Rightarrow> ('k, 'w) queue \<Rightarrow> nat" where
  "held cfg xs = (\<Sum>s \<leftarrow> xs. cf_count cfg (es_suppressed s))"

definition carried :: "'w coalescer_config \<Rightarrow> ('k, 'w) summary list \<Rightarrow> nat" where
  "carried cfg ss = (\<Sum>s \<leftarrow> ss. cf_count cfg (sm_window s))"

lemma held_simps [simp]: "held cfg [] = 0" "held cfg (s # xs) = cf_count cfg (es_suppressed s) + held cfg xs"
  "held cfg (xs @ ys) = held cfg xs + held cfg ys"
  by (simp_all add: held_def)

lemma carried_simps [simp]: "carried cfg [] = 0" "carried cfg (s # ss) = cf_count cfg (sm_window s) + carried cfg ss"
  "carried cfg (ss @ ts) = carried cfg ss + carried cfg ts"
  by (simp_all add: carried_def)

lemma carried_summaries [simp]: "carried cfg (summaries cfg xs) = held cfg xs"
  by (induction xs) (auto simp: summaries_def summary_of_def)

lemma held_mset: "mset xs + mset ys = mset zs \<Longrightarrow> held cfg xs + held cfg ys = held cfg zs"
  by (metis held_def mset_append mset_map sum_mset_sum_list map_append sum_list_append)

lemma carried_sort [simp]: "carried cfg (sort_key f ss) = carried cfg ss"
  by (metis carried_def mset_map mset_sort sum_mset_sum_list)

lemma held_without:
  assumes "List.find (\<lambda>s. es_key s = key) xs = Some s" "distinct (keys xs)"
  shows "held cfg xs = held cfg (without key xs) + cf_count cfg (es_suppressed s)"
  using assms
proof (induction xs)
  case (Cons x xs)
  have "without key xs = xs" if "key \<notin> set (keys xs)" using that by (auto simp: filter_id_conv)
  then show ?case using Cons by (cases "es_key x = key") auto
qed simp

section \<open>The invariant of a queue\<close>

lemma find_key: "List.find (\<lambda>s. es_key s = key) xs = Some s \<Longrightarrow> s \<in> set xs \<and> es_key s = key"
  by (metis (mono_tags, lifting) find_Some_iff nth_mem)

lemma find_unique: "s \<in> set xs \<Longrightarrow> distinct (keys xs) \<Longrightarrow> List.find (\<lambda>x. es_key x = es_key s) xs = Some s"
  by (induction xs) auto

definition queue_ok :: "'w coalescer_config \<Rightarrow> int \<Rightarrow> ('k, 'w) queue \<Rightarrow> bool" where
  "queue_ok cfg now xs \<longleftrightarrow> distinct (keys xs) \<and> sorted (map es_firstSeen xs) \<and> length xs \<le> cf_maxKeys cfg \<and>
     (\<forall>s \<in> set xs. es_firstSeen s \<le> now)"

lemma sorted_insert_ordered:
  "sorted (map es_firstSeen xs) \<Longrightarrow> sorted (map es_firstSeen (q_insert s xs))"
proof (induction xs)
  case (Cons x xs)
  show ?case
  proof (cases "es_firstSeen x \<le> es_firstSeen s")
    case True
    then have "q_insert s (x # xs) = x # q_insert s xs" by (simp add: q_insert_def)
    moreover have "set (q_insert s xs) = insert s (set xs)"
      unfolding q_insert_def by (metis Un_insert_right list.simps(15) set_append takeWhile_dropWhile_id)
    ultimately show ?thesis using Cons True by auto
  next
    case False
    then show ?thesis using Cons.prems by (auto simp: q_insert_def)
  qed
qed (simp add: q_insert_def)

lemma q_insert_set: "set (q_insert s xs) = insert s (set xs)" "length (q_insert s xs) = Suc (length xs)"
  "mset (q_insert s xs) = add_mset s (mset xs)"
proof -
  show m: "mset (q_insert s xs) = add_mset s (mset xs)"
    unfolding q_insert_def by (metis mset_append mset.simps(2) takeWhile_dropWhile_id union_mset_add_mset_right)
  from arg_cong[OF m, of set_mset] show "set (q_insert s xs) = insert s (set xs)" by simp
  from arg_cong[OF m, of size] show "length (q_insert s xs) = Suc (length xs)" by simp
qed

lemma q_insert_distinct: "distinct (keys (q_insert s xs)) \<longleftrightarrow> es_key s \<notin> set (keys xs) \<and> distinct (keys xs)"
proof -
  have "mset (keys (q_insert s xs)) = mset (es_key s # keys xs)" by (simp add: q_insert_set(3))
  then have "distinct (keys (q_insert s xs)) = distinct (es_key s # keys xs)" by (rule mset_eq_imp_distinct_iff)
  then show ?thesis by simp
qed

lemma reopen_ok:
  assumes "queue_ok cfg now xs" "List.find (\<lambda>s. es_key s = key) xs = Some s"
    and "cf_count cfg (es_suppressed s) = 0" "cf_count cfg closed > 0 \<longrightarrow> es_closedFirstSeen s \<le> now"
  shows "queue_ok cfg now (q_reopen cfg key closed xs)"
    "held cfg (q_reopen cfg key closed xs) = held cfg xs + cf_count cfg closed"
    "set (keys (q_reopen cfg key closed xs)) \<subseteq> set (keys xs)"
    "key \<in> set (keys (q_reopen cfg key closed xs)) \<longleftrightarrow> cf_count cfg closed > 0"
proof -
  let ?ys = "without key xs"
  have ys: "queue_ok cfg now ?ys" "key \<notin> set (keys ?ys)" "length ?ys < length xs" "set (keys ?ys) \<subseteq> set (keys xs)"
    using assms(1) find_key[OF assms(2)]
    by (auto simp: queue_ok_def distinct_map_filter sorted_filter le_trans[OF length_filter_le] intro!: length_filter_less)
  have held: "held cfg xs = held cfg ?ys" using held_without[OF assms(2), of cfg] assms(1,3) by (simp add: queue_ok_def)
  let ?s = "last_window closed s"
  have s: "es_key ?s = key" "key \<in> set (keys xs)" using find_key[OF assms(2)] by (auto simp: last_window_def)
  have in_ok: "queue_ok cfg now (q_insert ?s ?ys)" if "cf_count cfg closed > 0"
  proof -
    have "distinct (keys (q_insert ?s ?ys))" using ys(1,2) s(1) by (simp add: q_insert_distinct queue_ok_def)
    then show ?thesis using ys(1,3) assms(1,4) that sorted_insert_ordered[of ?ys ?s]
      by (auto simp: queue_ok_def q_insert_set(1,2) last_window_def)
  qed
  have "held cfg (q_insert ?s ?ys) = held cfg ?ys + cf_count cfg closed"
    using held_mset[of "[?s]" ?ys "q_insert ?s ?ys" cfg] by (simp add: q_insert_set(3) last_window_def)
  then show "queue_ok cfg now (q_reopen cfg key closed xs)"
    "held cfg (q_reopen cfg key closed xs) = held cfg xs + cf_count cfg closed"
    "set (keys (q_reopen cfg key closed xs)) \<subseteq> set (keys xs)"
    "key \<in> set (keys (q_reopen cfg key closed xs)) \<longleftrightarrow> cf_count cfg closed > 0"
    using ys held in_ok s assms(2) by (auto simp: q_reopen_def q_insert_set(1))
qed

text \<open>
  Restoring summaries whose keys the queue does not have: none of them is skipped as opened
  again, so that each is put back or written to the server log.
\<close>

lemma restore_accounts:
  assumes "q_restore cfg ss done ahead = (logged, xs)" "distinct (map sm_key ss)"
    and "set (map sm_key ss) \<inter> set (keys (done @ ahead)) = {}"
  shows "carried cfg logged + held cfg xs = held cfg (done @ ahead) + carried cfg ss"
  using assms
proof (induction cfg ss "done" ahead arbitrary: logged xs rule: q_restore.induct)
  case (2 cfg s ss d ahead)
  let ?P = "\<lambda>x. es_firstSeen x \<le> sm_firstSeen s"
  have new: "sm_key s \<notin> es_key ` set (d @ ahead)" using "2.prems"(3) by auto
  have parts: "held cfg (takeWhile ?P ahead) + held cfg (dropWhile ?P ahead) = held cfg ahead"
    "set (keys (takeWhile ?P ahead)) \<union> set (keys (dropWhile ?P ahead)) = set (keys ahead)"
    by (metis held_simps(3) takeWhile_dropWhile_id, metis map_append set_append takeWhile_dropWhile_id)
  show ?case
  proof (cases "length (d @ ahead) \<ge> cf_maxKeys cfg")
    case True
    then show ?thesis using 2(2)[OF new True] "2.prems" new by (auto split: prod.splits)
  next
    case False
    have "set (map sm_key ss) \<inter> set (keys ((d @ takeWhile ?P ahead @ [entry_of_summary s]) @ dropWhile ?P ahead)) = {}"
      using "2.prems"(2,3) parts(2) by (auto simp: entry_of_summary_def)
    from 2(3)[OF new False _ _ this, of logged xs] "2.prems"(1,2) new False parts(1) show ?thesis
      by (simp add: entry_of_summary_def)
  qed
qed simp

lemma restore_keys:
  assumes "q_restore cfg ss done ahead = (logged, xs)"
  shows "set (keys (done @ ahead)) \<subseteq> set (keys xs) \<and> set (keys xs) \<subseteq> set (keys (done @ ahead)) \<union> set (map sm_key ss)"
  using assms
proof (induction cfg ss "done" ahead arbitrary: logged xs rule: q_restore.induct)
  case (2 cfg s ss d ahead)
  let ?P = "\<lambda>x. es_firstSeen x \<le> sm_firstSeen s"
  have parts: "set (keys (takeWhile ?P ahead)) \<union> set (keys (dropWhile ?P ahead)) = set (keys ahead)"
    by (metis map_append set_append takeWhile_dropWhile_id)
  show ?case
  proof (cases "sm_key s \<in> es_key ` set (d @ ahead) \<or> length (d @ ahead) \<ge> cf_maxKeys cfg")
    case True
    then obtain lg where "q_restore cfg ss d ahead = (lg, xs)" using "2.prems" by (auto split: if_splits prod.splits)
    then have "set (keys (d @ ahead)) \<subseteq> set (keys xs) \<and> set (keys xs) \<subseteq> set (keys (d @ ahead)) \<union> set (map sm_key ss)"
      using 2(1,2) True by blast
    then show ?thesis by auto
  next
    case False
    let ?ys = "(d @ takeWhile ?P ahead @ [entry_of_summary s]) @ dropWhile ?P ahead"
    have "set (keys ?ys) = insert (sm_key s) (set (keys (d @ ahead)))" using parts by (auto simp: entry_of_summary_def)
    moreover have "set (keys ?ys) \<subseteq> set (keys xs) \<and> set (keys xs) \<subseteq> set (keys ?ys) \<union> set (map sm_key ss)"
      using 2(3) False "2.prems" by auto
    ultimately show ?thesis by auto
  qed
qed auto

lemma restore_ok:
  assumes "q_restore cfg ss done ahead = (logged, xs)" "queue_ok cfg now (done @ ahead)"
    and "sorted (map sm_firstSeen ss)" "\<forall>s \<in> set ss. sm_firstSeen s \<le> now"
    and "\<forall>x \<in> set done. \<forall>s \<in> set ss. es_firstSeen x \<le> sm_firstSeen s"
  shows "queue_ok cfg now xs"
  using assms
proof (induction cfg ss "done" ahead arbitrary: logged xs rule: q_restore.induct)
  case (2 cfg s ss d ahead)
  let ?P = "\<lambda>x. es_firstSeen x \<le> sm_firstSeen s"
  show ?case
  proof (cases "sm_key s \<in> es_key ` set (d @ ahead) \<or> length (d @ ahead) \<ge> cf_maxKeys cfg")
    case True
    then show ?thesis using 2(1,2) "2.prems" by (auto split: if_splits prod.splits)
  next
    case False
    let ?xs = "(d @ takeWhile ?P ahead @ [entry_of_summary s]) @ dropWhile ?P ahead"
    have e: "?xs = d @ q_insert (entry_of_summary s) ahead" by (simp add: q_insert_def entry_of_summary_def)
    have "queue_ok cfg now ?xs"
      using "2.prems"(2,4,5) False sorted_insert_ordered[of ahead "entry_of_summary s"] unfolding e
      by (auto simp: queue_ok_def q_insert_set q_insert_distinct sorted_append entry_of_summary_def)
    moreover have "\<forall>x \<in> set (d @ takeWhile ?P ahead @ [entry_of_summary s]). \<forall>s \<in> set ss. es_firstSeen x \<le> sm_firstSeen s"
      using "2.prems"(3,5) by (auto simp: entry_of_summary_def dest!: set_takeWhileD)
    moreover have "q_restore cfg ss (d @ takeWhile ?P ahead @ [entry_of_summary s]) (dropWhile ?P ahead) = (logged, xs)"
      using False "2.prems"(1) by simp
    moreover have "sorted (map sm_firstSeen ss)" "\<forall>s \<in> set ss. sm_firstSeen s \<le> now" using "2.prems"(3,4) by simp_all
    ultimately show ?thesis using 2(3) False by blast
  qed
qed simp

section \<open>The contract of a window\<close>

locale event_window =
  fixes cfg :: "'w coalescer_config" and note_in :: "'e \<Rightarrow> 'w \<Rightarrow> 'w"
  assumes zero: "cf_count cfg (cf_zero cfg) = 0"
    and noted: "cf_count cfg (note_in e w) = Suc (cf_count cfg w)"
    and cap: "0 < cf_maxKeys cfg"
    and window: "0 < cf_window cfg"
begin

lemma held_count:
  assumes "List.find (\<lambda>s. es_key s = key) xs = Some s" "distinct (keys xs)"
  shows "held cfg (map (\<lambda>x. if es_key x = key then count_event (note_in e) now x else x) xs) = Suc (held cfg xs)"
  using assms
proof (induction xs)
  case (Cons x xs)
  have "map (\<lambda>x. if es_key x = key then count_event (note_in e) now x else x) xs = xs" if "key \<notin> set (keys xs)"
    using that by (intro map_idI) auto
  then show ?case using Cons by (auto simp: count_event_def noted split: if_splits)
qed simp

text \<open>What \<open>admit\<close> decides accounts for the event it was called with.\<close>

lemma admit_key_accounts:
  assumes "q_admit_key cfg (note_in e) key now xs = (record, closed, ys)" "distinct (keys xs)"
  shows "held cfg ys + (if record then max 1 (cf_count cfg closed) else 0) = held cfg xs + 1"
  using assms held_without[of key xs] held_count[of key xs]
  by (auto simp: q_admit_key_def new_entry_def next_window_def zero noted split: option.splits if_splits)

lemma keys_count: "keys (map (\<lambda>x. if es_key x = key then count_event note now x else x) xs) = keys xs"
  by (induction xs) (auto simp: count_event_def)

lemma keys_without: "keys (without key xs) = filter (\<lambda>k. k \<noteq> key) (keys xs)"
  by (simp add: filter_map o_def)

lemma admit_key_cases:
  assumes "q_admit_key cfg note key now xs = (record, closed, ys)"
  shows "key \<notin> set (keys xs) \<and> keys ys = keys xs @ [key] \<or>
    key \<in> set (keys xs) \<and> (keys ys = keys xs \<or> keys ys = filter (\<lambda>k. k \<noteq> key) (keys xs) @ [key])"
proof (cases "List.find (\<lambda>s. es_key s = key) xs")
  case None
  then have "ys = xs @ [new_entry cfg key now]" using assms by (simp add: q_admit_key_def)
  moreover have "key \<notin> set (keys xs)" using None by (auto simp: find_None_iff)
  ultimately show ?thesis by (simp add: new_entry_def)
next
  case (Some s)
  then have "key \<in> set (keys xs)" using find_key by fastforce
  moreover have "es_key (next_window cfg now s) = key" using find_key[OF Some] by (simp add: next_window_def)
  ultimately show ?thesis using assms Some keys_count[of key _ now xs] keys_without[of key xs]
    by (auto simp: q_admit_key_def simp del: map_map split: if_splits)
qed

lemma key_list:
  assumes "key \<notin> set K \<and> L = K @ [key] \<or> key \<in> set K \<and> (L = K \<or> L = filter (\<lambda>k. k \<noteq> key) K @ [key])" "distinct K"
  shows "distinct L" "key \<in> set L" "set L = insert key (set K)" "length L \<le> Suc (length K)"
  using assms length_filter_le[of "\<lambda>k. k \<noteq> key" K] by auto

lemma admit_key_keys:
  assumes "q_admit_key cfg note key now xs = (record, closed, ys)" "distinct (keys xs)"
  shows "distinct (keys ys)" "key \<in> set (keys ys)" "set (keys ys) = insert key (set (keys xs))" "length ys \<le> Suc (length xs)"
  using key_list[OF admit_key_cases[OF assms(1)] assms(2)] by simp_all

lemma admit_key_ok:
  assumes "q_admit_key cfg note key now xs = (record, closed, ys)" "queue_ok cfg t xs" "t \<le> now"
  shows "sorted (map es_firstSeen ys)" "\<forall>s \<in> set ys. es_firstSeen s \<le> now"
proof -
  have before: "\<forall>s \<in> set xs. es_firstSeen s \<le> now" "sorted (map es_firstSeen xs)"
    using assms(2,3) by (auto simp: queue_ok_def)
  have same: "map es_firstSeen (map (\<lambda>x. if es_key x = key then count_event note now x else x) xs) = map es_firstSeen xs"
    by (simp add: count_event_def)
  show "sorted (map es_firstSeen ys)" "\<forall>s \<in> set ys. es_firstSeen s \<le> now"
    using assms(1) before same
    by (auto simp: q_admit_key_def new_entry_def next_window_def sorted_append sorted_filter count_event_def
        simp del: map_map split: option.splits if_splits)
qed

text \<open>The entry of the key is new or reopened, with nothing held, when a row is recorded.\<close>

lemma admit_key_entry:
  assumes "q_admit_key cfg note key now xs = (True, closed, ys)" "queue_ok cfg t xs" "t \<le> now"
  shows "\<exists>s \<in> set ys. es_key s = key \<and> cf_count cfg (es_suppressed s) = 0 \<and>
    (cf_count cfg closed > 0 \<longrightarrow> es_closedFirstSeen s \<le> now)"
proof (cases "List.find (\<lambda>s. es_key s = key) xs")
  case None
  then show ?thesis using assms(1) zero by (auto simp: q_admit_key_def new_entry_def)
next
  case (Some s)
  then have "es_firstSeen s \<le> now" "es_key s = key" using find_key[OF Some] assms(2,3) by (auto simp: queue_ok_def)
  then show ?thesis using assms(1) Some zero by (auto simp: q_admit_key_def next_window_def split: if_splits)
qed

lemma admit_ok:
  assumes "q_admit cfg (note_in e) key now xs = (record, closed, dropped, rest)" "queue_ok cfg t xs" "t \<le> now"
  shows "queue_ok cfg now rest"
    "held cfg dropped + held cfg rest + (if record then max 1 (cf_count cfg closed) else 0) = held cfg xs + 1"
    "distinct (keys dropped)" "set (keys dropped) \<inter> set (keys rest) = {}"
    "key \<in> set (keys rest)" "\<forall>s \<in> set dropped. es_firstSeen s \<le> now"
    "record \<Longrightarrow> \<exists>s. List.find (\<lambda>s. es_key s = key) rest = Some s \<and> cf_count cfg (es_suppressed s) = 0 \<and>
       (cf_count cfg closed > 0 \<longrightarrow> es_closedFirstSeen s \<le> now)"
proof -
  obtain ys where ys: "q_admit_key cfg (note_in e) key now xs = (record, closed, ys)"
    "q_evict cfg key now (length ys) ys = (dropped, rest)"
    using assms(1) by (auto simp: q_admit_def split: prod.splits)
  have d: "distinct (keys xs)" using assms(2) by (simp add: queue_ok_def)
  note k = admit_key_keys[OF ys(1) d] and ok = admit_key_ok[OF ys(1) assms(2,3)]
    and m = q_evict_mset[OF ys(2)] and keep = q_evict_keeps[OF ys(2)]
  note parts = keys_of_mset[OF m k(1)]
  have all: "set dropped \<union> set rest = set ys" using arg_cong[OF m, of set_mset] by simp
  have "length rest \<le> cf_maxKeys cfg"
    using q_evict_size[OF ys(2) _ k(1) cap] k(4) assms(2) by (simp add: queue_ok_def)
  then show "queue_ok cfg now rest" using parts q_evict_subseq[OF ys(2) ok(1)] ok(2) all by (auto simp: queue_ok_def)
  show "held cfg dropped + held cfg rest + (if record then max 1 (cf_count cfg closed) else 0) = held cfg xs + 1"
    using admit_key_accounts[OF ys(1) d] held_mset[OF m, of cfg] by simp
  show "distinct (keys dropped)" "set (keys dropped) \<inter> set (keys rest) = {}" using parts by simp_all
  show "\<forall>s \<in> set dropped. es_firstSeen s \<le> now" using ok(2) all by blast
  have in_rest: "s \<in> set rest" if "s \<in> set ys" "es_key s = key" for s using that all keep by auto
  show "key \<in> set (keys rest)" using k(2) in_rest by auto
  show "\<exists>s. List.find (\<lambda>s. es_key s = key) rest = Some s \<and> cf_count cfg (es_suppressed s) = 0 \<and>
       (cf_count cfg closed > 0 \<longrightarrow> es_closedFirstSeen s \<le> now)" if r: "record"
  proof -
    obtain s where s: "s \<in> set rest" "es_key s = key" "cf_count cfg (es_suppressed s) = 0"
      "cf_count cfg closed > 0 \<longrightarrow> es_closedFirstSeen s \<le> now"
      using admit_key_entry[OF _ assms(2,3), of "note_in e" key closed ys] ys(1) r in_rest by (metis (full_types))
    moreover have "List.find (\<lambda>s. es_key s = key) rest = Some s" using find_unique[OF s(1)] parts s(2) by simp
    ultimately show ?thesis by (intro exI[of _ s]) simp
  qed
qed

end

end
