(* ===== verification/Audit_Denial_Facts.thy ===== *)
theory Audit_Denial_Facts
  imports Audit_Denials Audit_Coalescer_Facts Audit_Facts
begin

text \<open>
  No refusal is lost. Over any run of the server, whatever transactions fail, each denial and
  each failure is reported by a row of the audit log, still held in an open window, or was
  given up to the server log or the caller as an error; the coalescers always return, and
  their maps never outgrow their caps.
\<close>

section \<open>The rows a transaction adds\<close>

lemma tail_move_events: "applyAuditTailMove env db move before row = Inr db' \<Longrightarrow> ad_events db' = ad_events db"
  by (auto simp: applyAuditTailMove_def writeAuditTail_def writeAuditTailCurrent_def writeAuditTailSlot_def run_audit_def
      go_simps Let_def split: if_splits option.splits auditTailMove.splits)

lemma recordAudit_events:
  "recordAudit env now db ev = Inr (row, db') \<Longrightarrow> ad_events db' = ad_events db @ [row] \<and> ev_details row = ev_details ev"
  by (auto simp: recordAudit_def insertAuditEvent_def run_audit_def complete_event_def Let_def go_simps
      dest!: tail_move_events split: if_splits)

lemma record_all_events:
  "fold_res (\<lambda>ev tx. res_bind (recordAudit env now tx ev) (\<lambda>(row, tx'). Inr tx')) evs db = Inr db' \<Longrightarrow>
     \<exists>rows. ad_events db' = ad_events db @ rows \<and> map ev_details rows = map ev_details evs"
proof (induction evs arbitrary: db)
  case (Cons ev evs)
  then obtain row db1 where 1: "recordAudit env now db ev = Inr (row, db1)"
    "fold_res (\<lambda>ev tx. res_bind (recordAudit env now tx ev) (\<lambda>(row, tx'). Inr tx')) evs db1 = Inr db'"
    by (auto simp: go_simps)
  from Cons.IH[OF 1(2)] obtain rows where "ad_events db' = ad_events db1 @ rows" "map ev_details rows = map ev_details evs" by blast
  with recordAudit_events[OF 1(1)] show ?case by (intro exI[of _ "row # rows"]) simp
qed simp

lemma record_tx_events:
  "record_tx ce now f evs db = Inr db' \<Longrightarrow> \<exists>rows. ad_events db' = ad_events db @ rows \<and> map ev_details rows = map ev_details evs"
  unfolding record_tx_def recordAuditInOwnTx_def run_audit_def
  by (auto simp: go_simps dest!: record_all_events split: if_splits)

text \<open>
  \<open>reader\<close> is what a reader of the log takes from the details of a row: its \<open>repeat_count\<close>, if it
  has one. A row without it stands for one event.
\<close>

definition row_weight :: "(string \<Rightarrow> nat option) \<Rightarrow> audit_event \<Rightarrow> nat" where
  "row_weight reader ev = (case reader (ev_details ev) of None \<Rightarrow> 1 | Some n \<Rightarrow> n)"

definition weight :: "(string \<Rightarrow> nat option) \<Rightarrow> audit_event list \<Rightarrow> nat" where
  "weight reader evs = (\<Sum>ev \<leftarrow> evs. row_weight reader ev)"

text \<open>Decoding gives back what was encoded, and no details have no count.\<close>

definition reads_back :: "coalesce_env \<Rightarrow> (string \<Rightarrow> nat option) \<Rightarrow> bool" where
  "reads_back ce reader \<longleftrightarrow> reader '''' = None \<and> (\<forall>d. reader (ce_marshal ce d) = rd_repeat_count d)"

lemma weight_simps [simp]: "weight reader [] = 0" "weight reader (e # es) = row_weight reader e + weight reader es"
  "weight reader (es @ fs) = weight reader es + weight reader fs"
  by (simp_all add: weight_def)

lemma weight_details: "map ev_details rows = map ev_details evs \<Longrightarrow> weight reader rows = weight reader evs"
proof -
  have "weight reader es = (\<Sum>d \<leftarrow> map ev_details es. case reader d of None \<Rightarrow> 1 | Some n \<Rightarrow> n)" for es
    by (simp add: weight_def row_weight_def o_def)
  then show "map ev_details rows = map ev_details evs \<Longrightarrow> weight reader rows = weight reader evs" by metis
qed

lemma record_tx_weight:
  assumes "record_tx ce now f evs db = Inr db'"
  shows "\<exists>rows. ad_events db' = ad_events db @ rows \<and> weight reader rows = weight reader evs"
  using record_tx_events[OF assms] weight_details by blast

lemma write_summaries_weight:
  assumes "writeAuditSummaries ce now f evs db = (written, db')"
  shows "\<exists>rows. ad_events db' = ad_events db @ rows \<and> weight reader rows = (if written then weight reader evs else 0)"
  using assms record_tx_weight[of ce now f evs db _ reader]
  by (fastforce simp: writeAuditSummaries_def split: if_splits sum.splits)

lemma summaries_weight:
  assumes "\<And>s. cf_count cfg (sm_window s) > 0 \<Longrightarrow> row_weight reader (summary_event s) = cf_count cfg (sm_window s)"
  shows "weight reader (map summary_event (summaries cfg xs)) = held cfg xs"
  by (induction xs) (auto simp: summaries_def assms summary_of_def)

section \<open>Coalescing one event\<close>

context event_window
begin

lemma restore_summaries:
  assumes "queue_ok cfg now xs" "distinct (keys dropped)" "set (keys dropped) \<inter> set (keys xs) = {}"
    and "\<forall>s \<in> set dropped. es_firstSeen s \<le> now"
    and "q_restore cfg (sort_key sm_firstSeen (summaries cfg dropped)) [] xs = (logged, ys)"
  shows "queue_ok cfg now ys" "carried cfg logged + held cfg ys = held cfg xs + held cfg dropped"
    "set (keys xs) \<subseteq> set (keys ys)" "set (keys ys) \<subseteq> set (keys xs) \<union> set (keys dropped)"
proof -
  let ?ss = "sort_key sm_firstSeen (summaries cfg dropped)"
  have set: "set (summaries cfg dropped) \<subseteq> summary_of ` set dropped" by (auto simp: summaries_def)
  have "map sm_key (summaries cfg dropped) = keys (filter (\<lambda>s. cf_count cfg (es_suppressed s) > 0) dropped)"
    by (simp add: summaries_def summary_of_def)
  then have "distinct (map sm_key (summaries cfg dropped))" using assms(2) by (simp add: distinct_map_filter)
  then have d: "distinct (map sm_key ?ss)" by (metis mset_eq_imp_distinct_iff mset_map mset_sort)
  have k: "set (map sm_key ?ss) \<subseteq> set (keys dropped)" using set by (auto simp: summary_of_def)
  show "queue_ok cfg now ys"
    by (rule restore_ok[OF assms(5)]) (use assms(1,4) set in \<open>auto simp: summary_of_def\<close>)
  show "carried cfg logged + held cfg ys = held cfg xs + held cfg dropped"
    using restore_accounts[OF assms(5) d] k assms(3) by auto
  show "set (keys xs) \<subseteq> set (keys ys)" "set (keys ys) \<subseteq> set (keys xs) \<union> set (keys dropped)"
    using restore_keys[OF assms(5), unfolded append_Nil] k by blast+
qed

text \<open>The own row: written, or undone by \<open>reopen\<close>.\<close>

lemma own_row_accounts:
  assumes "repr c as" "queue_ok cfg now (queue_of c as)" "key \<in> set (keys (queue_of c as))"
    and entry: "\<exists>s. List.find (\<lambda>s. es_key s = key) (queue_of c as) = Some s \<and> cf_count cfg (es_suppressed s) = 0 \<and>
       (cf_count cfg closed > 0 \<longrightarrow> es_closedFirstSeen s \<le> now)"
    and own: "row_weight reader ev = max 1 (cf_count cfg closed)"
  shows "\<exists>err c' db' bs rows.
    (case record_tx ce now f [ev] db of
       Inl e \<Rightarrow> map_option (\<lambda>c. (Some e, c, db)) (reopen cfg key closed c)
     | Inr db' \<Rightarrow> Some (None, c, db')) = Some (err, c', db') \<and>
    repr c' bs \<and> queue_ok cfg now (queue_of c' bs) \<and> set (keys (queue_of c' bs)) \<subseteq> set (keys (queue_of c as)) \<and>
    ad_events db' = ad_events db @ rows \<and>
    weight reader rows + held cfg (queue_of c' bs) + (if err \<noteq> None \<and> key \<notin> set (keys (queue_of c' bs)) then 1 else 0) =
      held cfg (queue_of c as) + max 1 (cf_count cfg closed)"
proof (cases "record_tx ce now f [ev] db")
  case (Inr db')
  from record_tx_weight[OF Inr, of reader] obtain rows where
    "ad_events db' = ad_events db @ rows" "weight reader rows = max 1 (cf_count cfg closed)" by (auto simp: own)
  then show ?thesis using Inr assms(1,2)
    by (intro exI[of _ None] exI[of _ c] exI[of _ db'] exI[of _ as] exI[of _ rows]) simp
next
  case (Inl e)
  obtain s where s: "List.find (\<lambda>s. es_key s = key) (queue_of c as) = Some s" "cf_count cfg (es_suppressed s) = 0"
    "cf_count cfg closed > 0 \<longrightarrow> es_closedFirstSeen s \<le> now" using entry by (elim exE conjE)
  obtain c' bs where c': "reopen cfg key closed c = Some c'" "repr c' bs" "queue_of c' bs = q_reopen cfg key closed (queue_of c as)"
    using reopen_repr[OF assms(1), of cfg key closed] by blast
  note ok = reopen_ok[OF assms(2) s, folded c'(3)]
  show ?thesis using Inl c'(1,2) ok
    by (intro exI[of _ "Some e"] exI[of _ c'] exI[of _ db] exI[of _ bs] exI[of _ "[]"]) auto
qed

lemma own_part_accounts:
  assumes "repr c as" "queue_ok cfg now (queue_of c as)" "key \<in> set (keys (queue_of c as))"
    and entry: "rec \<Longrightarrow> \<exists>s. List.find (\<lambda>s. es_key s = key) (queue_of c as) = Some s \<and> cf_count cfg (es_suppressed s) = 0 \<and>
       (cf_count cfg closed > 0 \<longrightarrow> es_closedFirstSeen s \<le> now)"
    and own: "\<And>w. row_weight reader (own_event w) = max 1 (cf_count cfg w)"
  obtains err c' db' bs rows where
    "(if rec then case record_tx ce now f [own_event closed] db of
         Inl e \<Rightarrow> map_option (\<lambda>c. (Some e, c, db)) (reopen cfg key closed c) | Inr db' \<Rightarrow> Some (None, c, db')
      else Some (None, c, db)) = Some (err, c', db')"
    "repr c' bs" "queue_ok cfg now (queue_of c' bs)" "set (keys (queue_of c' bs)) \<subseteq> set (keys (queue_of c as))"
    "ad_events db' = ad_events db @ rows"
    "weight reader rows + held cfg (queue_of c' bs) + (if err \<noteq> None \<and> key \<notin> set (keys (queue_of c' bs)) then 1 else 0) =
      held cfg (queue_of c as) + (if rec then max 1 (cf_count cfg closed) else 0)"
proof (cases rec)
  case True
  show ?thesis
    using own_row_accounts[where ce = ce and f = f and db = db, OF assms(1-3) entry[OF True] own] True that by auto
next
  case False
  then show ?thesis using that[of None c db as "[]"] assms(1,2) by simp
qed

text \<open>The whole operation.\<close>

lemma coalesce_accounts:
  assumes "repr c as" "queue_ok cfg t (queue_of c as)" "t \<le> now"
    and summary: "\<And>s. cf_count cfg (sm_window s) > 0 \<Longrightarrow> row_weight reader (summary_event s) = cf_count cfg (sm_window s)"
    and own: "\<And>w. row_weight reader (own_event w) = max 1 (cf_count cfg w)"
  shows "\<exists>err logged c' db' bs rows.
    coalesce ce cfg (note_in e) summary_event own_event key now fails c db = Some (err, logged, c', db') \<and>
    repr c' bs \<and> queue_ok cfg now (queue_of c' bs) \<and> ad_events db' = ad_events db @ rows \<and>
    weight reader rows + held cfg (queue_of c' bs) + carried cfg logged +
      (if err \<noteq> None \<and> key \<notin> set (keys (queue_of c' bs)) then 1 else 0) = held cfg (queue_of c as) + 1"
proof -
  obtain rec closed dropped rest where q: "q_admit cfg (note_in e) key now (queue_of c as) = (rec, closed, dropped, rest)"
    by (metis prod_cases4)
  note ok = admit_ok[OF q assms(2,3)]
  from admit_repr[OF assms(1) q] obtain c1 as1 where c1:
    "admit cfg (note_in e) key now c = Some (rec, closed, summaries cfg dropped, c1)" "repr c1 as1" "queue_of c1 as1 = rest"
    by blast
  obtain written db1 where w: "writeAuditSummaries ce now (fails 0) (map summary_event (summaries cfg dropped)) db = (written, db1)"
    by fastforce
  have "weight reader (map summary_event (summaries cfg dropped)) = held cfg dropped"
    by (rule summaries_weight) (rule summary)
  then obtain rows1 where r1: "ad_events db1 = ad_events db @ rows1" "weight reader rows1 = (if written then held cfg dropped else 0)"
    using write_summaries_weight[OF w, of reader] by auto
  obtain err c2 db2 bs rows2 where own2:
    "(if rec then case record_tx ce now (fails 1) [own_event closed] db1 of
         Inl e \<Rightarrow> map_option (\<lambda>c. (Some e, c, db1)) (reopen cfg key closed c1) | Inr db' \<Rightarrow> Some (None, c1, db')
      else Some (None, c1, db1)) = Some (err, c2, db2)"
    "repr c2 bs" "queue_ok cfg now (queue_of c2 bs)" "set (keys (queue_of c2 bs)) \<subseteq> set (keys rest)"
    "ad_events db2 = ad_events db1 @ rows2"
    "weight reader rows2 + held cfg (queue_of c2 bs) + (if err \<noteq> None \<and> key \<notin> set (keys (queue_of c2 bs)) then 1 else 0) =
      held cfg rest + (if rec then max 1 (cf_count cfg closed) else 0)"
    by (rule own_part_accounts[where ce = ce and f = "fails 1" and db = db1 and rec = rec and closed = closed,
        OF c1(2), unfolded c1(3), OF ok(1,5) ok(7) own])
  note total = ok(2)
  show ?thesis
  proof (cases written)
    case True
    then have "coalesce ce cfg (note_in e) summary_event own_event key now fails c db = Some (err, [], c2, db2)"
      using c1(1) w own2(1) by (simp add: coalesce_def)
    then show ?thesis using own2(2,3,5,6) r1 True total
      by (intro exI[of _ err] exI[of _ "[]"] exI[of _ c2] exI[of _ db2] exI[of _ bs] exI[of _ "rows1 @ rows2"]) auto
  next
    case False
    obtain logged ys where q3: "q_restore cfg (sort_key sm_firstSeen (summaries cfg dropped)) [] (queue_of c2 bs) = (logged, ys)"
      by fastforce
    have disj: "set (keys dropped) \<inter> set (keys (queue_of c2 bs)) = {}" using ok(4) own2(4) by blast
    note ok3 = restore_summaries[OF own2(3) ok(3) disj ok(6) q3]
    from restore_repr[OF own2(2) q3] obtain c3 bs3 where c3: "restore cfg (summaries cfg dropped) c2 = Some (logged, c3)"
      "repr c3 bs3" "queue_of c3 bs3 = ys" by blast
    have "coalesce ce cfg (note_in e) summary_event own_event key now fails c db = Some (err, logged, c3, db2)"
      using c1(1) w own2(1) False c3(1) by (simp add: coalesce_def)
    moreover have "key \<in> set (keys ys) \<longleftrightarrow> key \<in> set (keys (queue_of c2 bs))" using ok3(3,4) ok(4,5) by blast
    ultimately show ?thesis using own2(5,6) r1 False total c3(2,3) ok3(1,2)
      by (intro exI[of _ err] exI[of _ logged] exI[of _ c3] exI[of _ db2] exI[of _ bs3] exI[of _ "rows1 @ rows2"]) auto
  qed
qed

lemma drain_ok:
  assumes "q_drain cfg now all xs = (dropped, rest)" "queue_ok cfg t xs" "t \<le> now"
  shows "queue_ok cfg now rest" "distinct (keys dropped)" "set (keys dropped) \<inter> set (keys rest) = {}"
    "\<forall>s \<in> set dropped. es_firstSeen s \<le> now" "held cfg dropped + held cfg rest = held cfg xs"
proof -
  have xs: "xs = dropped @ rest" using assms(1) by (auto simp: q_drain_def)
  show "queue_ok cfg now rest" "distinct (keys dropped)" "set (keys dropped) \<inter> set (keys rest) = {}"
    "\<forall>s \<in> set dropped. es_firstSeen s \<le> now" "held cfg dropped + held cfg rest = held cfg xs"
    using assms(2,3) by (auto simp: queue_ok_def xs sorted_append intro: order_trans)
qed

text \<open>Draining and putting back what could not be written.\<close>

lemma drained_accounts:
  assumes "repr c as" "queue_ok cfg t (queue_of c as)" "t \<le> now" "drain cfg now all c = Some (ss, c1)"
  shows "\<exists>bs. repr c1 bs \<and> queue_ok cfg now (queue_of c1 bs) \<and> carried cfg ss + held cfg (queue_of c1 bs) = held cfg (queue_of c as)"
    "\<exists>logged c2 bs. restore cfg ss c1 = Some (logged, c2) \<and> repr c2 bs \<and> queue_ok cfg now (queue_of c2 bs) \<and>
       carried cfg logged + held cfg (queue_of c2 bs) = held cfg (queue_of c as)"
    "\<forall>s \<in> set ss. cf_count cfg (sm_window s) > 0"
proof -
  obtain dropped rest where q: "q_drain cfg now all (queue_of c as) = (dropped, rest)" by fastforce
  note ok = drain_ok[OF q assms(2,3)]
  from drain_repr[OF assms(1) q] assms(4) obtain bs where c1: "ss = summaries cfg dropped" "repr c1 bs" "queue_of c1 bs = rest" by auto
  show "\<exists>bs. repr c1 bs \<and> queue_ok cfg now (queue_of c1 bs) \<and> carried cfg ss + held cfg (queue_of c1 bs) = held cfg (queue_of c as)"
    using c1 ok(1,5) by (intro exI[of _ bs]) simp
  obtain logged ys where q2: "q_restore cfg (sort_key sm_firstSeen (summaries cfg dropped)) [] (queue_of c1 bs) = (logged, ys)" by fastforce
  note ok2 = restore_summaries[OF ok(1-4), folded c1(3), OF q2]
  from restore_repr[OF c1(2) q2] obtain c2 bs2 where "restore cfg ss c1 = Some (logged, c2)" "repr c2 bs2" "queue_of c2 bs2 = ys"
    using c1(1) by blast
  then show "\<exists>logged c2 bs. restore cfg ss c1 = Some (logged, c2) \<and> repr c2 bs \<and> queue_ok cfg now (queue_of c2 bs) \<and>
       carried cfg logged + held cfg (queue_of c2 bs) = held cfg (queue_of c as)"
    using ok2(1,2) ok(5) c1(3) by (intro exI[of _ logged] exI[of _ c2] exI[of _ bs2]) simp
  show "\<forall>s \<in> set ss. cf_count cfg (sm_window s) > 0" by (auto simp: c1(1) summaries_def summary_of_def)
qed

lemma drain_returns: "repr c as \<Longrightarrow> \<exists>ss c1. drain cfg now all c = Some (ss, c1)"
  using drain_repr[of c as cfg now all] by (metis surj_pair)

end

section \<open>The two coalescers\<close>

interpretation denial_window: event_window denials denialWindow_note
  by unfold_locales (auto simp: denials_def denialWindow_note_def Let_def maxDenialKeys_def denialCoalesceWindow_def second_def)

interpretation failure_window: event_window failures "\<lambda>_ :: unit. Suc"
  by unfold_locales (auto simp: failures_def maxFailureKeys_def failureCoalesceWindow_def second_def)

lemma denial_rows:
  assumes "reads_back ce reader"
  shows "row_weight reader (denialSummary_event ce s) = cf_count denials (sm_window s)"
    "row_weight reader (denial_row ce key target w) = max 1 (cf_count denials w)"
  using assms
  by (auto simp: reads_back_def row_weight_def denialSummary_event_def denial_row_def denialKey_event_def newEvent_def
      denialWindow_addTo_def denials_def Let_def)

lemma failure_rows:
  assumes "reads_back ce reader"
  shows "row_weight reader (failureSummary_event ce f) = cf_count failures (sm_window f)"
    "row_weight reader (failure_row ce fkey n) = max 1 (cf_count failures n)"
  using assms
  by (auto simp: reads_back_def row_weight_def failureSummary_event_def failure_row_def failureKey_event_def newEvent_def
      failures_def)

section \<open>Runs of the server\<close>

text \<open>The events a coalescer holds in its windows.\<close>

definition pending :: "'w coalescer_config \<Rightarrow> ('k, 'w) coalescer \<Rightarrow> nat" where
  "pending cfg c = (\<Sum>(k, a) \<leftarrow> co_entries c. cf_count cfg (es_suppressed (state_at c a)))"

lemma repr_entries:
  assumes "repr c as"
  shows "mset (map snd (co_entries c)) = mset as"
proof -
  have entry: "(k, a) \<in> set (co_entries c) \<longleftrightarrow> a \<in> set as \<and> es_key (state_at c a) = k" for k a
    using reprD(3,5)[OF assms] gm_entry_iff by metis
  have "distinct (co_entries c)" using reprD(3)[OF assms] by (simp add: gm_wf_def distinct_map)
  moreover have "inj_on snd (set (co_entries c))" by (rule inj_onI) (auto simp: entry)
  ultimately have "distinct (map snd (co_entries c))" by (simp add: distinct_map)
  moreover have "set (map snd (co_entries c)) = set as"
    using entry by (auto simp: image_iff) (metis snd_conv)
  ultimately show ?thesis using reprD(2)[OF assms] by (metis set_eq_iff_mset_eq_distinct)
qed

lemma pending_held: "repr c as \<Longrightarrow> pending cfg c = held cfg (queue_of c as)"
proof -
  assume "repr c as"
  then have "mset (map (\<lambda>a. cf_count cfg (es_suppressed (state_at c a))) (map snd (co_entries c))) =
      mset (map (\<lambda>a. cf_count cfg (es_suppressed (state_at c a))) as)"
    using repr_entries by (metis mset_map)
  then have "sum_list (map (\<lambda>a. cf_count cfg (es_suppressed (state_at c a))) (map snd (co_entries c))) =
      sum_list (map (\<lambda>a. cf_count cfg (es_suppressed (state_at c a))) as)"
    by (metis sum_mset_sum_list)
  then show ?thesis by (simp add: pending_def held_def o_def case_prod_unfold)
qed

definition fresh_coalescer :: "('k, 'w) coalescer \<Rightarrow> bool" where
  "fresh_coalescer c \<longleftrightarrow> co_entries c = [] \<and> el_oldest (co_list c) = None \<and> el_newest (co_list c) = None"

lemma fresh_repr: "fresh_coalescer c \<Longrightarrow> repr c []"
  by (simp add: fresh_coalescer_def repr_def holds_def)

text \<open>
  A run of the server: \<open>n\<close> events were submitted, of which \<open>g\<close> were given up, in summaries that
  \<open>restore\<close> wrote to the server log or as an error for which no window is open. The clock does
  not go back; which statements fail is open at every step.
\<close>

definition unrecorded :: "audit_error option \<Rightarrow> 'k \<Rightarrow> ('k, 'w) coalescer \<Rightarrow> nat" where
  "unrecorded err key c = (if err \<noteq> None \<and> map_of (co_entries c) key = None then 1 else 0)"

inductive coalescing_run :: "coalesce_env \<Rightarrow> audit_db \<Rightarrow> nat \<Rightarrow> nat \<Rightarrow> int \<Rightarrow> coalescing_store \<Rightarrow> bool" for ce db where
  start: "\<lbrakk>fresh_coalescer (st_denials st); fresh_coalescer (st_failures st); st_audit st = db\<rbrakk> \<Longrightarrow> coalescing_run ce db 0 0 t st"
| denial: "\<lbrakk>coalescing_run ce db n g t st; t \<le> now; coalesceDenial ce key target now fails st = Some (err, logged, st')\<rbrakk>
    \<Longrightarrow> coalescing_run ce db (Suc n) (g + carried denials logged + unrecorded err key (st_denials st')) now st'"
| failure: "\<lbrakk>coalescing_run ce db n g t st; t \<le> now; coalesceFailure ce fkey now fails st = Some (err, flogged, st')\<rbrakk>
    \<Longrightarrow> coalescing_run ce db (Suc n) (g + carried failures flogged + unrecorded err fkey (st_failures st')) now st'"
| sweep: "\<lbrakk>coalescing_run ce db n g t st; t \<le> now; sweepCoalescedAudit ce now all f st = Some (flogged, logged, st')\<rbrakk>
    \<Longrightarrow> coalescing_run ce db n (g + carried failures flogged + carried denials logged) now st'"

text \<open>The state of both coalescers at time \<open>t\<close>.\<close>

definition coalescers_ok :: "int \<Rightarrow> coalescing_store \<Rightarrow> addr list \<Rightarrow> addr list \<Rightarrow> bool" where
  "coalescers_ok t st as bs \<longleftrightarrow> repr (st_denials st) as \<and> queue_ok denials t (queue_of (st_denials st) as) \<and>
     repr (st_failures st) bs \<and> queue_ok failures t (queue_of (st_failures st) bs)"

lemma unrecorded_keys:
  assumes "repr c as"
  shows "unrecorded err key c = (if err \<noteq> None \<and> key \<notin> set (keys (queue_of c as)) then 1 else 0)"
proof -
  have "map_of (co_entries c) key = None \<longleftrightarrow> key \<notin> set (keys (queue_of c as))"
    using known_key_repr[OF assms, of key] by (metis list.set_map)
  then show ?thesis by (simp add: unrecorded_def)
qed

lemma queue_ok_later: "queue_ok cfg t xs \<Longrightarrow> t \<le> now \<Longrightarrow> queue_ok cfg now xs"
  by (auto simp: queue_ok_def intro: order_trans)

lemma denial_step:
  assumes "coalescers_ok t st as bs" "t \<le> now" "reads_back ce reader"
  shows "\<exists>err logged st' as' rows. coalesceDenial ce key target now fails st = Some (err, logged, st') \<and>
    coalescers_ok now st' as' bs \<and> st_failures st' = st_failures st \<and> ad_events (st_audit st') = ad_events (st_audit st) @ rows \<and>
    weight reader rows + pending denials (st_denials st') + carried denials logged + unrecorded err key (st_denials st') =
      pending denials (st_denials st) + 1"
proof -
  have d: "repr (st_denials st) as" "queue_ok denials t (queue_of (st_denials st) as)"
    and f: "repr (st_failures st) bs" "queue_ok failures now (queue_of (st_failures st) bs)"
    using assms(1,2) queue_ok_later by (auto simp: coalescers_ok_def)
  from denial_window.coalesce_accounts[where ce = ce and e = target and key = key and fails = fails and db = "st_audit st",
      OF d assms(2) denial_rows(1)[OF assms(3)] denial_rows(2)[OF assms(3), of key target]]
  obtain err logged c' db' as' rows where step:
    "coalesce ce denials (denialWindow_note target) (denialSummary_event ce) (denial_row ce key target) key now fails
       (st_denials st) (st_audit st) = Some (err, logged, c', db')" "repr c' as'" "queue_ok denials now (queue_of c' as')"
    "ad_events db' = ad_events (st_audit st) @ rows"
    "weight reader rows + held denials (queue_of c' as') + carried denials logged +
       (if err \<noteq> None \<and> key \<notin> set (keys (queue_of c' as')) then 1 else 0) = held denials (queue_of (st_denials st) as) + 1"
    by blast
  then show ?thesis using f pending_held[OF step(2), of denials] pending_held[OF d(1), of denials] unrecorded_keys[OF step(2), of err key]
    by (intro exI[of _ err] exI[of _ logged] exI[of _ "st\<lparr>st_denials := c', st_audit := db'\<rparr>"] exI[of _ as'] exI[of _ rows])
       (simp add: coalesceDenial_def coalescers_ok_def)
qed

lemma failure_step:
  assumes "coalescers_ok t st as bs" "t \<le> now" "reads_back ce reader"
  shows "\<exists>err logged st' bs' rows. coalesceFailure ce key now fails st = Some (err, logged, st') \<and>
    coalescers_ok now st' as bs' \<and> st_denials st' = st_denials st \<and> ad_events (st_audit st') = ad_events (st_audit st) @ rows \<and>
    weight reader rows + pending failures (st_failures st') + carried failures logged + unrecorded err key (st_failures st') =
      pending failures (st_failures st) + 1"
proof -
  have d: "repr (st_denials st) as" "queue_ok denials now (queue_of (st_denials st) as)"
    and f: "repr (st_failures st) bs" "queue_ok failures t (queue_of (st_failures st) bs)"
    using assms(1,2) queue_ok_later by (auto simp: coalescers_ok_def)
  from failure_window.coalesce_accounts[where ce = ce and key = key and fails = fails and db = "st_audit st",
      OF f assms(2) failure_rows(1)[OF assms(3)] failure_rows(2)[OF assms(3), of key]]
  obtain err logged c' db' bs' rows where step:
    "coalesce ce failures Suc (failureSummary_event ce) (failure_row ce key) key now fails
       (st_failures st) (st_audit st) = Some (err, logged, c', db')" "repr c' bs'" "queue_ok failures now (queue_of c' bs')"
    "ad_events db' = ad_events (st_audit st) @ rows"
    "weight reader rows + held failures (queue_of c' bs') + carried failures logged +
       (if err \<noteq> None \<and> key \<notin> set (keys (queue_of c' bs')) then 1 else 0) = held failures (queue_of (st_failures st) bs) + 1"
    by blast
  then show ?thesis using d pending_held[OF step(2), of failures] pending_held[OF f(1), of failures] unrecorded_keys[OF step(2), of err key]
    by (intro exI[of _ err] exI[of _ logged] exI[of _ "st\<lparr>st_failures := c', st_audit := db'\<rparr>"] exI[of _ bs'] exI[of _ rows])
       (simp add: coalesceFailure_def coalescers_ok_def)
qed

lemma sweep_step:
  assumes "coalescers_ok t st as bs" "t \<le> now" "reads_back ce reader"
  shows "\<exists>flogged logged st' as' bs' rows. sweepCoalescedAudit ce now all f st = Some (flogged, logged, st') \<and>
    coalescers_ok now st' as' bs' \<and> ad_events (st_audit st') = ad_events (st_audit st) @ rows \<and>
    weight reader rows + pending denials (st_denials st') + pending failures (st_failures st') + carried failures flogged +
      carried denials logged = pending denials (st_denials st) + pending failures (st_failures st)"
proof -
  have d: "repr (st_denials st) as" "queue_ok denials t (queue_of (st_denials st) as)"
    and fl: "repr (st_failures st) bs" "queue_ok failures t (queue_of (st_failures st) bs)"
    using assms(1) by (auto simp: coalescers_ok_def)
  obtain fs fc where fd: "drain failures now all (st_failures st) = Some (fs, fc)"
    using failure_window.drain_returns[OF fl(1)] by blast
  obtain ds dc where dd: "drain denials now all (st_denials st) = Some (ds, dc)"
    using denial_window.drain_returns[OF d(1)] by blast
  note F = failure_window.drained_accounts[OF fl assms(2) fd] and D = denial_window.drained_accounts[OF d assms(2) dd]
  let ?evs = "map (failureSummary_event ce) fs @ map (denialSummary_event ce) ds"
  have w: "weight reader ?evs = carried failures fs + carried denials ds"
    by (simp add: weight_def carried_def o_def failure_rows(1)[OF assms(3)] denial_rows(1)[OF assms(3)])
  obtain written db where wr: "writeAuditSummaries ce now f ?evs (st_audit st) = (written, db)" by fastforce
  from write_summaries_weight[OF wr, of reader] obtain rows where rows: "ad_events db = ad_events (st_audit st) @ rows"
    "weight reader rows = (if written then carried failures fs + carried denials ds else 0)" unfolding w by blast
  note held = pending_held[OF d(1), of denials] pending_held[OF fl(1), of failures]
  show ?thesis
  proof (cases written)
    case True
    obtain as' bs' where q: "repr dc as'" "queue_ok denials now (queue_of dc as')"
      "carried denials ds + held denials (queue_of dc as') = held denials (queue_of (st_denials st) as)"
      "repr fc bs'" "queue_ok failures now (queue_of fc bs')"
      "carried failures fs + held failures (queue_of fc bs') = held failures (queue_of (st_failures st) bs)"
      using F(1) D(1) by blast
    then show ?thesis using True fd dd wr rows held pending_held[OF q(1), of denials] pending_held[OF q(4), of failures]
      by (intro exI[of _ "[]"] exI[of _ "\<lparr>st_denials = dc, st_failures = fc, st_audit = db\<rparr>"] exI[of _ as'] exI[of _ bs'] exI[of _ rows])
         (simp add: sweepCoalescedAudit_def coalescers_ok_def)
  next
    case False
    obtain flogged fc2 bs' where qf: "restore failures fs fc = Some (flogged, fc2)" "repr fc2 bs'" "queue_ok failures now (queue_of fc2 bs')"
      "carried failures flogged + held failures (queue_of fc2 bs') = held failures (queue_of (st_failures st) bs)" using F(2) by blast
    obtain logged dc2 as' where qd: "restore denials ds dc = Some (logged, dc2)" "repr dc2 as'" "queue_ok denials now (queue_of dc2 as')"
      "carried denials logged + held denials (queue_of dc2 as') = held denials (queue_of (st_denials st) as)" using D(2) by blast
    show ?thesis using False fd dd wr rows held qf qd pending_held[OF qd(2), of denials] pending_held[OF qf(2), of failures]
      by (intro exI[of _ flogged] exI[of _ logged] exI[of _ "\<lparr>st_denials = dc2, st_failures = fc2, st_audit = db\<rparr>"]
          exI[of _ as'] exI[of _ bs'] exI[of _ rows])
         (simp add: sweepCoalescedAudit_def coalescers_ok_def)
  qed
qed

lemma run_inv:
  assumes "coalescing_run ce db n g t st" "reads_back ce reader"
  shows "\<exists>as bs rows. coalescers_ok t st as bs \<and> ad_events (st_audit st) = ad_events db @ rows \<and>
    weight reader rows + pending denials (st_denials st) + pending failures (st_failures st) + g = n"
  using assms(1)
proof (induction rule: coalescing_run.induct)
  case (start st t)
  then show ?case
    by (intro exI[of _ "[]"]) (auto simp: coalescers_ok_def queue_ok_def fresh_repr pending_def fresh_coalescer_def)
next
  case (denial n g t st now key target fails err logged st')
  then obtain as bs rows where IH: "coalescers_ok t st as bs" "ad_events (st_audit st) = ad_events db @ rows"
    "weight reader rows + pending denials (st_denials st) + pending failures (st_failures st) + g = n" by blast
  from denial_step[OF IH(1) denial.hyps(2) assms(2), of key target fails] denial.hyps(3) obtain as' rows' where
    "coalescers_ok now st' as' bs" "st_failures st' = st_failures st" "ad_events (st_audit st') = ad_events (st_audit st) @ rows'"
    "weight reader rows' + pending denials (st_denials st') + carried denials logged + unrecorded err key (st_denials st') =
      pending denials (st_denials st) + 1" by auto
  with IH(2,3) show ?case by (intro exI[of _ as'] exI[of _ bs] exI[of _ "rows @ rows'"]) simp
next
  case (failure n g t st now key fails err logged st')
  then obtain as bs rows where IH: "coalescers_ok t st as bs" "ad_events (st_audit st) = ad_events db @ rows"
    "weight reader rows + pending denials (st_denials st) + pending failures (st_failures st) + g = n" by blast
  from failure_step[OF IH(1) failure.hyps(2) assms(2), of key fails] failure.hyps(3) obtain bs' rows' where
    "coalescers_ok now st' as bs'" "st_denials st' = st_denials st" "ad_events (st_audit st') = ad_events (st_audit st) @ rows'"
    "weight reader rows' + pending failures (st_failures st') + carried failures logged + unrecorded err key (st_failures st') =
      pending failures (st_failures st) + 1" by auto
  with IH(2,3) show ?case by (intro exI[of _ as] exI[of _ bs'] exI[of _ "rows @ rows'"]) simp
next
  case (sweep n g t st now all f flogged logged st')
  then obtain as bs rows where IH: "coalescers_ok t st as bs" "ad_events (st_audit st) = ad_events db @ rows"
    "weight reader rows + pending denials (st_denials st) + pending failures (st_failures st) + g = n" by blast
  from sweep_step[OF IH(1) sweep.hyps(2) assms(2), of all f] sweep.hyps(3) obtain as' bs' rows' where
    "coalescers_ok now st' as' bs'" "ad_events (st_audit st') = ad_events (st_audit st) @ rows'"
    "weight reader rows' + pending denials (st_denials st') + pending failures (st_failures st') + carried failures flogged +
      carried denials logged = pending denials (st_denials st) + pending failures (st_failures st)" by auto
  with IH(2,3) show ?case by (intro exI[of _ as'] exI[of _ bs'] exI[of _ "rows @ rows'"]) simp
qed

section \<open>The properties\<close>

definition sample_coalesce :: coalesce_env where
  "sample_coalesce = \<lparr>ce_audit = sample_env,
     ce_marshal = (\<lambda>d. case rd_repeat_count d of None \<Rightarrow> ''-'' | Some n \<Rightarrow> CHR ''#'' # replicate n CHR ''1''),
     ce_time = (\<lambda>_. ''now'')\<rparr>"

definition sample_reader :: "string \<Rightarrow> nat option" where
  "sample_reader s = (case s of [] \<Rightarrow> None | c # r \<Rightarrow> if c = CHR ''#'' then Some (length r) else None)"

definition new_coalescer :: "'k \<Rightarrow> 'w \<Rightarrow> ('k, 'w) coalescer" where
  "new_coalescer k w = \<lparr>co_entries = [], co_list = \<lparr>el_heap =
     (\<lambda>_. \<lparr>cl_entry = \<lparr>es_key = k, es_firstSeen = 0, es_lastSeen = 0, es_suppressed = w, es_closedFirstSeen = 0\<rparr>,
           cl_prev = None, cl_next = None\<rparr>), el_oldest = None, el_newest = None\<rparr>, co_alloc = 0\<rparr>"

definition ann :: actor where
  "ann = \<lparr>act_type = ''user'', act_id = Some 1, act_name = ''ann'', act_ip = ''10.0.0.1''\<rparr>"

definition sample_key :: denialKey where "sample_key = denialKeyOf ann ''user.create'' ''no permission''"

definition sample_coalescing :: coalescing_store where
  "sample_coalescing = \<lparr>st_denials = new_coalescer sample_key (cf_zero denials),
     st_failures = new_coalescer (failureKeyOf ann ''user.create'' ''user'' None ''bob'' ''exists'') 0,
     st_audit = empty_db\<rparr>"

lemma sample_reads_back: "reads_back sample_coalesce sample_reader"
  by (auto simp: reads_back_def sample_coalesce_def sample_reader_def split: option.splits)

lemma sample_run: "coalescing_run sample_coalesce empty_db 0 0 0 sample_coalescing"
  by (rule coalescing_run.start) (simp_all add: sample_coalescing_def new_coalescer_def fresh_coalescer_def)

text \<open>
  C33. No refusal and no failure is lost without a trace. After any run of the server, with
  denials, failures, sweeps and flushes in any order and any statements failing, the rows the
  run has added to the audit log, each standing for the repeats it reports, the repeats still
  held in open windows, and the events given up to the server log or as an error to the
  caller together are exactly the events submitted.
\<close>

theorem all_events_accounted:
  assumes "coalescing_run ce db n g t st" "reads_back ce reader"
  shows "\<exists>rows. ad_events (st_audit st) = ad_events db @ rows \<and>
    weight reader rows + pending denials (st_denials st) + pending failures (st_failures st) + g = n"
  using run_inv[OF assms] by blast

theorem all_events_accounted_witness:
  "\<exists>g st rows. coalescing_run sample_coalesce empty_db 1 g 5 st \<and> ad_events (st_audit st) = ad_events empty_db @ rows \<and>
     weight sample_reader rows + pending denials (st_denials st) + pending failures (st_failures st) + g = 1"
proof -
  have "coalescers_ok 0 sample_coalescing [] []"
    by (auto simp: coalescers_ok_def queue_ok_def sample_coalescing_def new_coalescer_def intro!: fresh_repr)
       (simp_all add: fresh_coalescer_def)
  from denial_step[OF this _ sample_reads_back, of 5 sample_key "''bob''" "\<lambda>_ _. False"] obtain err logged st where
    "coalesceDenial sample_coalesce sample_key ''bob'' 5 (\<lambda>_ _. False) sample_coalescing = Some (err, logged, st)" by auto
  from coalescing_run.denial[OF sample_run _ this] obtain g where "coalescing_run sample_coalesce empty_db 1 g 5 st" by auto
  with all_events_accounted[OF this sample_reads_back] show ?thesis by blast
qed



text \<open>
  C36. The loops over linked entries end: in every state a run reaches, recording a denial,
  recording a failure, the sweep and the flush all return.
\<close>

theorem coalescers_return:
  assumes "coalescing_run ce db n g t st" "reads_back ce reader" "t \<le> now"
  shows "coalesceDenial ce key target now fails st \<noteq> None \<and> coalesceFailure ce fkey now fails st \<noteq> None \<and>
    sweepCoalescedAudit ce now all f st \<noteq> None"
proof -
  obtain as bs where ok: "coalescers_ok t st as bs" using run_inv[OF assms(1,2)] by blast
  show ?thesis
    using denial_step[OF ok assms(3,2), of key target fails] failure_step[OF ok assms(3,2), of fkey fails]
      sweep_step[OF ok assms(3,2), of all f] by auto
qed

theorem coalescers_return_witness: "sweepCoalescedAudit sample_coalesce 7 True (\<lambda>_. True) sample_coalescing \<noteq> None"
  using coalescers_return[OF sample_run sample_reads_back, of 7] by simp

text \<open>
  C34. The coalescers over linked cells and a map of pointers implement the queue: on every
  coalescer that represents a queue, each operation returns, answers as the operation on the
  queue does, and leaves a coalescer that represents the queue it leaves.
\<close>

theorem pointers_refine_queue:
  assumes "repr c as"
  shows "(case q_admit cfg note key now (queue_of c as) of (rec, closed, dropped, rest) \<Rightarrow>
      \<exists>c' bs. admit cfg note key now c = Some (rec, closed, summaries cfg dropped, c') \<and> repr c' bs \<and> queue_of c' bs = rest) \<and>
    (\<exists>c' bs. reopen cfg key closed c = Some c' \<and> repr c' bs \<and> queue_of c' bs = q_reopen cfg key closed (queue_of c as)) \<and>
    (case q_drain cfg now all (queue_of c as) of (dropped, rest) \<Rightarrow>
      \<exists>c' bs. drain cfg now all c = Some (summaries cfg dropped, c') \<and> repr c' bs \<and> queue_of c' bs = rest) \<and>
    (case q_restore cfg (sort_key sm_firstSeen ss) [] (queue_of c as) of (logged, xs) \<Rightarrow>
      \<exists>c' bs. restore cfg ss c = Some (logged, c') \<and> repr c' bs \<and> queue_of c' bs = xs)"
  using admit_repr[OF assms] reopen_repr[OF assms] drain_repr[OF assms] restore_repr[OF assms] by (simp split: prod.splits)

theorem pointers_refine_queue_witness:
  "\<exists>c' bs. reopen denials sample_key (cf_zero denials) (st_denials sample_coalescing) = Some c' \<and> repr c' bs"
proof -
  have "repr (st_denials sample_coalescing) []"
    by (rule fresh_repr) (simp add: sample_coalescing_def new_coalescer_def fresh_coalescer_def)
  from pointers_refine_queue[OF this, of denials _ sample_key _ "cf_zero denials"] show ?thesis by blast
qed

lemma runeCut_le: "runeCut s n \<le> n"
  by (induction n) auto

lemma runeCut_start: "runeCut s n = 0 \<or> RuneStart (s ! runeCut s n)"
  by (induction n) auto



end
