(* ===== verification/Rate_Limiter.thy ===== *)
theory Rate_Limiter
  imports Prelude
begin

text \<open>
  The limiter of authentication attempts per address (\<^verbatim>\<open>auth/rate_limiter.go\<close>). Every method
  holds the limiter's lock, so that a run is a sequence of methods; the clock is read by each
  and is an argument here, in nanoseconds. The goroutine of \<open>cleanupLoop\<close> is a \<open>cleanup\<close> that may
  come at any point of a run.
\<close>

section \<open>The limiter\<close>

definition minute :: int where "minute = 60 * 10 ^ 9"

record rate_limiter =
  rl_attempts :: "(string, int list) gomap"
  rl_windowDuration :: int
  rl_maxAttempts :: int
  rl_cleanupInterval :: int

definition NewRateLimiter :: "int \<Rightarrow> int \<Rightarrow> int list \<Rightarrow> rate_limiter" where
  "NewRateLimiter windowMinutes maxAttempts cleanupInterval =
     \<lparr>rl_attempts = [], rl_windowDuration = windowMinutes * minute, rl_maxAttempts = maxAttempts,
      rl_cleanupInterval =
        (if length cleanupInterval > 0 \<and> cleanupInterval ! 0 > 0 then cleanupInterval ! 0 else minute)\<rparr>"

text \<open>The loop that counts the attempts after the cutoff.\<close>

definition validAttempts :: "rate_limiter \<Rightarrow> int \<Rightarrow> int list \<Rightarrow> int" where
  "validAttempts rl now attempts =
     int (length (filter (\<lambda>timestamp. timestamp > now - rl_windowDuration rl) attempts))"

definition IsAllowed :: "string \<Rightarrow> int \<Rightarrow> rate_limiter \<Rightarrow> bool" where
  "IsAllowed ipAddress now rl =
     (case map_of (rl_attempts rl) ipAddress of
        None \<Rightarrow> True
      | Some attempts \<Rightarrow> validAttempts rl now attempts < rl_maxAttempts rl)"

text \<open>\<open>now\<close> is the clock at the check and \<open>stamp\<close> the clock when the attempt is recorded.\<close>

definition CheckAndRecord :: "string \<Rightarrow> int \<Rightarrow> int \<Rightarrow> rate_limiter \<Rightarrow> bool \<times> rate_limiter" where
  "CheckAndRecord ipAddress now stamp rl =
     (let attempts = gm_get [] (rl_attempts rl) ipAddress in
      if validAttempts rl now attempts \<ge> rl_maxAttempts rl then (False, rl)
      else (True, rl\<lparr>rl_attempts := AList.update ipAddress (attempts @ [stamp]) (rl_attempts rl)\<rparr>))"

definition RecordFailedAttempt :: "string \<Rightarrow> int \<Rightarrow> rate_limiter \<Rightarrow> rate_limiter" where
  "RecordFailedAttempt ipAddress now rl =
     (case map_of (rl_attempts rl) ipAddress of
        None \<Rightarrow> rl\<lparr>rl_attempts := AList.update ipAddress [now] (rl_attempts rl)\<rparr>
      | Some attempts \<Rightarrow> rl\<lparr>rl_attempts := AList.update ipAddress (attempts @ [now]) (rl_attempts rl)\<rparr>)"

definition Refund :: "string \<Rightarrow> rate_limiter \<Rightarrow> rate_limiter" where
  "Refund ipAddress rl =
     (let attempts = gm_get [] (rl_attempts rl) ipAddress in
      if length attempts = 0 then rl
      else if length attempts = 1 then rl\<lparr>rl_attempts := AList.delete ipAddress (rl_attempts rl)\<rparr>
      else rl\<lparr>rl_attempts := AList.update ipAddress (take (length attempts - 1) attempts) (rl_attempts rl)\<rparr>)"

definition Reset :: "string \<Rightarrow> rate_limiter \<Rightarrow> rate_limiter" where
  "Reset ipAddress rl = rl\<lparr>rl_attempts := AList.delete ipAddress (rl_attempts rl)\<rparr>"

definition cleanup :: "int \<Rightarrow> rate_limiter \<Rightarrow> rate_limiter" where
  "cleanup now rl =
     (let cutoff = now - rl_windowDuration rl;
          kept = map (\<lambda>(ip, attempts). (ip, filter (\<lambda>timestamp. timestamp > cutoff) attempts)) (rl_attempts rl)
      in rl\<lparr>rl_attempts := filter (\<lambda>(ip, valid). length valid > 0) kept\<rparr>)"

definition GetRemainingAttempts :: "string \<Rightarrow> int \<Rightarrow> rate_limiter \<Rightarrow> int" where
  "GetRemainingAttempts ipAddress now rl =
     (case map_of (rl_attempts rl) ipAddress of
        None \<Rightarrow> rl_maxAttempts rl
      | Some attempts \<Rightarrow>
          let remaining = rl_maxAttempts rl - validAttempts rl now attempts in
          if remaining < 0 then 0 else remaining)"

section \<open>What the operations do to the attempts of an address\<close>

definition attempts_of :: "rate_limiter \<Rightarrow> string \<Rightarrow> int list" where
  "attempts_of rl ip = gm_get [] (rl_attempts rl) ip"

definition limiter_wf :: "rate_limiter \<Rightarrow> bool" where
  "limiter_wf rl \<longleftrightarrow> gm_wf (rl_attempts rl) \<and> (\<forall>ip. map_of (rl_attempts rl) ip \<noteq> Some [])"

lemma map_of_kept:
  "distinct (map fst m) \<Longrightarrow> map_of (filter (\<lambda>(k, v). P v) (map (\<lambda>(k, v). (k, f v)) m)) k =
     (case map_of m k of None \<Rightarrow> None | Some v \<Rightarrow> if P (f v) then Some (f v) else None)"
proof (induction m)
  case (Cons e m)
  obtain k' v where e: "e = (k', v)" by fastforce
  have "map_of m k' = None" using Cons.prems e by (simp add: map_of_eq_None_iff)
  then show ?case using Cons e by (auto split: option.splits)
qed simp

lemma cleanup_attempts:
  assumes "gm_wf (rl_attempts rl)"
  shows "attempts_of (cleanup now rl) ip = filter (\<lambda>ts. ts > now - rl_windowDuration rl) (attempts_of rl ip)"
  using assms by (auto simp: attempts_of_def gm_get_def cleanup_def Let_def gm_wf_def map_of_kept split: option.splits)

lemma check_attempts:
  "fst (CheckAndRecord ip now stamp rl) \<Longrightarrow>
     attempts_of (snd (CheckAndRecord ip now stamp rl)) x = (if x = ip then attempts_of rl ip @ [stamp] else attempts_of rl x)"
  "\<not> fst (CheckAndRecord ip now stamp rl) \<Longrightarrow> snd (CheckAndRecord ip now stamp rl) = rl"
  "fst (CheckAndRecord ip now stamp rl) \<longleftrightarrow> validAttempts rl now (attempts_of rl ip) < rl_maxAttempts rl"
  by (auto simp: CheckAndRecord_def attempts_of_def gm_get_def Let_def split: if_splits)

lemma other_attempts:
  "attempts_of (RecordFailedAttempt ip now rl) x = (if x = ip then attempts_of rl ip @ [now] else attempts_of rl x)"
  "x \<noteq> ip \<Longrightarrow> attempts_of (Refund ip rl) x = attempts_of rl x"
  "x \<noteq> ip \<Longrightarrow> attempts_of (Reset ip rl) x = attempts_of rl x"
  by (auto simp: RecordFailedAttempt_def Refund_def Reset_def attempts_of_def gm_get_def Let_def delete_conv' split: option.splits)

lemma fixed_parts [simp]:
  "rl_windowDuration (snd (CheckAndRecord ip now stamp rl)) = rl_windowDuration rl"
  "rl_maxAttempts (snd (CheckAndRecord ip now stamp rl)) = rl_maxAttempts rl"
  "rl_windowDuration (RecordFailedAttempt ip now rl) = rl_windowDuration rl"
  "rl_maxAttempts (RecordFailedAttempt ip now rl) = rl_maxAttempts rl"
  "rl_windowDuration (Refund ip rl) = rl_windowDuration rl" "rl_maxAttempts (Refund ip rl) = rl_maxAttempts rl"
  "rl_windowDuration (Reset ip rl) = rl_windowDuration rl" "rl_maxAttempts (Reset ip rl) = rl_maxAttempts rl"
  "rl_windowDuration (cleanup now rl) = rl_windowDuration rl" "rl_maxAttempts (cleanup now rl) = rl_maxAttempts rl"
  by (auto simp: CheckAndRecord_def RecordFailedAttempt_def Refund_def Reset_def cleanup_def Let_def split: option.splits)

lemma wf_update: "limiter_wf rl \<Longrightarrow> ts \<noteq> [] \<Longrightarrow> limiter_wf (rl\<lparr>rl_attempts := AList.update ip ts (rl_attempts rl)\<rparr>)"
  by (auto simp: limiter_wf_def)

lemma wf_delete: "limiter_wf rl \<Longrightarrow> limiter_wf (rl\<lparr>rl_attempts := AList.delete ip (rl_attempts rl)\<rparr>)"
  by (auto simp: limiter_wf_def gm_wf_def distinct_delete delete_conv')

lemma limiter_wf_kept [go_intros]:
  assumes "limiter_wf rl"
  shows "limiter_wf (snd (CheckAndRecord ip now stamp rl))" "limiter_wf (RecordFailedAttempt ip now rl)"
    "limiter_wf (Refund ip rl)" "limiter_wf (Reset ip rl)" "limiter_wf (cleanup now rl)"
proof -
  have "take (length ts - Suc 0) ts \<noteq> []" if "length ts \<noteq> Suc 0" "ts \<noteq> []" for ts :: "int list"
    using that by (cases ts) auto
  then show "limiter_wf (snd (CheckAndRecord ip now stamp rl))" "limiter_wf (RecordFailedAttempt ip now rl)"
    "limiter_wf (Refund ip rl)" "limiter_wf (Reset ip rl)"
    using assms wf_update[OF assms] wf_delete[OF assms]
    by (auto simp: CheckAndRecord_def RecordFailedAttempt_def Refund_def Reset_def Let_def split: option.splits)
  have "distinct (map fst (filter P (map (\<lambda>(ip, ts). (ip, f ts)) m)))" if "distinct (map fst m)" for P f and m :: "(string \<times> int list) list"
    using that by (intro distinct_map_filter) (simp add: o_def case_prod_unfold)
  then show "limiter_wf (cleanup now rl)"
    using assms by (auto simp: limiter_wf_def gm_wf_def cleanup_def Let_def map_of_kept split: option.splits)
qed

section \<open>Runs\<close>

text \<open>
  A run of a limiter as one address sees it: any calls for any addresses and any clean-ups, by
  a clock that does not go back, except that the address itself is neither refunded nor
  reset. \<open>G\<close> lists the stamps of the attempts that \<open>CheckAndRecord\<close> granted to it.
\<close>

inductive limiter_run :: "rate_limiter \<Rightarrow> string \<Rightarrow> int \<Rightarrow> int list \<Rightarrow> rate_limiter \<Rightarrow> bool" for start ip where
  init: "limiter_run start ip t [] start"
| check: "\<lbrakk>limiter_run start ip t G rl; t \<le> now; now \<le> stamp\<rbrakk>
    \<Longrightarrow> limiter_run start ip stamp (if x = ip \<and> fst (CheckAndRecord x now stamp rl) then G @ [stamp] else G)
          (snd (CheckAndRecord x now stamp rl))"
| failed: "\<lbrakk>limiter_run start ip t G rl; t \<le> now\<rbrakk> \<Longrightarrow> limiter_run start ip now G (RecordFailedAttempt x now rl)"
| refund: "\<lbrakk>limiter_run start ip t G rl; x \<noteq> ip\<rbrakk> \<Longrightarrow> limiter_run start ip t G (Refund x rl)"
| reset: "\<lbrakk>limiter_run start ip t G rl; x \<noteq> ip\<rbrakk> \<Longrightarrow> limiter_run start ip t G (Reset x rl)"
| cleanup: "\<lbrakk>limiter_run start ip t G rl; t \<le> now\<rbrakk> \<Longrightarrow> limiter_run start ip now G (cleanup now rl)"

abbreviation after :: "int \<Rightarrow> int list \<Rightarrow> int list" where
  "after c ts \<equiv> filter (\<lambda>ts. ts > c) ts"

abbreviation granted_in :: "int \<Rightarrow> int \<Rightarrow> int list \<Rightarrow> int list" where
  "granted_in x w G \<equiv> filter (\<lambda>g. x < g \<and> g \<le> x + w) G"

text \<open>Every grant that a check can still count is on the list of attempts.\<close>

definition limiter_inv :: "rate_limiter \<Rightarrow> string \<Rightarrow> int \<Rightarrow> int list \<Rightarrow> rate_limiter \<Rightarrow> bool" where
  "limiter_inv start ip t G rl \<longleftrightarrow> limiter_wf rl \<and> rl_windowDuration rl = rl_windowDuration start \<and>
     rl_maxAttempts rl = rl_maxAttempts start \<and>
     (\<forall>c \<ge> t - rl_windowDuration start. length (after c G) \<le> length (after c (attempts_of rl ip))) \<and>
     (\<forall>x. int (length (granted_in x (rl_windowDuration start) G)) \<le> max 0 (rl_maxAttempts start))"

lemma after_mono: "c \<le> d \<Longrightarrow> length (after d ts) \<le> length (after c ts)"
  by (induction ts) auto

lemma granted_after: "length (granted_in x w G) \<le> length (after x G)"
  by (induction G) auto

lemma after_cleanup: "c \<ge> d \<Longrightarrow> after c (after d ts) = after c ts"
  by (induction ts) auto

lemma grant_inv:
  assumes "limiter_inv start ip t G rl" "t \<le> now" "now \<le> stamp" "fst (CheckAndRecord ip now stamp rl)"
  shows "limiter_inv start ip stamp (G @ [stamp]) (snd (CheckAndRecord ip now stamp rl))"
proof -
  let ?w = "rl_windowDuration start" and ?A = "attempts_of rl ip"
  have inv: "limiter_wf rl" "rl_windowDuration rl = ?w" "rl_maxAttempts rl = rl_maxAttempts start"
    "\<And>c. c \<ge> t - ?w \<Longrightarrow> length (after c G) \<le> length (after c ?A)"
    "\<And>x. int (length (granted_in x ?w G)) \<le> max 0 (rl_maxAttempts start)"
    using assms(1) by (auto simp: limiter_inv_def)
  have room: "int (length (after (now - ?w) ?A)) < rl_maxAttempts start"
    using assms(4) inv(2,3) by (simp add: check_attempts(3) validAttempts_def)
  have "int (length (granted_in x ?w (G @ [stamp]))) \<le> max 0 (rl_maxAttempts start)" for x
  proof (cases "x < stamp \<and> stamp \<le> x + ?w")
    case True
    have "length (granted_in x ?w G) \<le> length (after x G)" by (rule granted_after)
    also have "\<dots> \<le> length (after x ?A)" using inv(4)[of x] True assms(2,3) by simp
    also have "\<dots> \<le> length (after (now - ?w) ?A)" using after_mono[of "now - ?w" x] True assms(3) by simp
    finally show ?thesis using room True by simp
  next
    case False
    then show ?thesis using inv(5)[of x] by auto
  qed
  moreover have "length (after c (G @ [stamp])) \<le> length (after c (?A @ [stamp]))" if "c \<ge> stamp - ?w" for c
    using inv(4)[of c] that assms(2,3) by simp
  ultimately show ?thesis using inv assms(4) limiter_wf_kept(1)[OF inv(1)] by (simp add: limiter_inv_def check_attempts(1))
qed

lemma longer_inv:
  assumes "limiter_inv start ip t G rl" "t \<le> t'" "limiter_wf rl'" "rl_windowDuration rl' = rl_windowDuration rl"
    and "rl_maxAttempts rl' = rl_maxAttempts rl"
    and "\<And>c. c \<ge> t' - rl_windowDuration rl \<Longrightarrow> length (after c (attempts_of rl ip)) \<le> length (after c (attempts_of rl' ip))"
  shows "limiter_inv start ip t' G rl'"
  using assms unfolding limiter_inv_def by (smt (verit) dual_order.trans)

lemma run_limiter_inv:
  assumes "limiter_run start ip t G rl" "limiter_wf start"
  shows "limiter_inv start ip t G rl"
  using assms(1)
proof (induction rule: limiter_run.induct)
  case (init t)
  then show ?case using assms(2) by (simp add: limiter_inv_def)
next
  case (check t G rl now stamp x)
  have wf: "limiter_wf rl" using check.IH by (simp add: limiter_inv_def)
  show ?case
  proof (cases "x = ip \<and> fst (CheckAndRecord x now stamp rl)")
    case True
    then show ?thesis using grant_inv[OF check.IH check.hyps(2,3)] by auto
  next
    case False
    have "attempts_of (snd (CheckAndRecord x now stamp rl)) ip = attempts_of rl ip"
      using False by (cases "fst (CheckAndRecord x now stamp rl)") (auto simp: check_attempts(1,2))
    then have "limiter_inv start ip stamp G (snd (CheckAndRecord x now stamp rl))"
      using check.hyps(2,3) by (intro longer_inv[OF check.IH] limiter_wf_kept wf) auto
    then show ?thesis using False by auto
  qed
next
  case (failed t G rl now x)
  then show ?case
    by (intro longer_inv[OF failed.IH] limiter_wf_kept) (auto simp: other_attempts limiter_inv_def)
next
  case (refund t G rl x)
  then show ?case by (intro longer_inv[OF refund.IH] limiter_wf_kept) (auto simp: other_attempts limiter_inv_def)
next
  case (reset t G rl x)
  then show ?case by (intro longer_inv[OF reset.IH] limiter_wf_kept) (auto simp: other_attempts limiter_inv_def)
next
  case (cleanup t G rl now)
  then have wf: "limiter_wf rl" "gm_wf (rl_attempts rl)" by (simp_all add: limiter_inv_def limiter_wf_def)
  have "length (after c (attempts_of rl ip)) \<le> length (after c (attempts_of (cleanup now rl) ip))"
    if "c \<ge> now - rl_windowDuration rl" for c
    unfolding cleanup_attempts[OF wf(2)] after_cleanup[OF that] by simp
  then show ?case using cleanup.hyps by (intro longer_inv[OF cleanup.IH] limiter_wf_kept(5)[OF wf(1)]) auto
qed

section \<open>The properties\<close>

lemma new_limiter_wf: "limiter_wf (NewRateLimiter windowMinutes maxAttempts interval)"
  by (simp add: limiter_wf_def NewRateLimiter_def)



lemma cleanup_lookup:
  assumes "gm_wf (rl_attempts rl)"
  shows "map_of (rl_attempts (cleanup now rl)) ip = (case map_of (rl_attempts rl) ip of None \<Rightarrow> None
    | Some ts \<Rightarrow> if after (now - rl_windowDuration rl) ts = [] then None else Some (after (now - rl_windowDuration rl) ts))"
  using assms by (auto simp: cleanup_def Let_def gm_wf_def map_of_kept split: option.splits)

lemma valid_after_cleanup:
  "now \<le> later \<Longrightarrow> validAttempts (cleanup now rl) later (after (now - rl_windowDuration rl) ts) = validAttempts rl later ts"
proof -
  assume "now \<le> later"
  then have "now - rl_windowDuration rl \<le> later - rl_windowDuration rl" by simp
  from after_cleanup[OF this, of ts] show ?thesis by (simp only: validAttempts_def fixed_parts)
qed

text \<open>
  The clean-up cannot be noticed: for every address and every later time the limiter
  answers after a clean-up as it would have answered without it. The maximum is positive, as
  an address with no entry is always allowed.
\<close>

theorem cleanup_unnoticed:
  assumes "limiter_wf rl" "now \<le> later" "0 < rl_maxAttempts rl"
  shows "IsAllowed ip later (cleanup now rl) = IsAllowed ip later rl \<and>
    GetRemainingAttempts ip later (cleanup now rl) = GetRemainingAttempts ip later rl \<and>
    fst (CheckAndRecord ip later stamp (cleanup now rl)) = fst (CheckAndRecord ip later stamp rl)"
proof -
  have wf: "gm_wf (rl_attempts rl)" using assms(1) by (simp add: limiter_wf_def)
  have gone: "validAttempts rl later ts = 0" if "after (now - rl_windowDuration rl) ts = []" for ts
    using after_cleanup[of "now - rl_windowDuration rl" "later - rl_windowDuration rl" ts] assms(2) that
    by (simp add: validAttempts_def)
  have kept: "validAttempts (cleanup now rl) later (after (now - rl_windowDuration rl) ts) = validAttempts rl later ts" for ts
    by (rule valid_after_cleanup[OF assms(2)])
  have "fst (CheckAndRecord ip later stamp (cleanup now rl)) = fst (CheckAndRecord ip later stamp rl)"
    unfolding check_attempts(3) cleanup_attempts[OF wf] kept by simp
  moreover have "IsAllowed ip later (cleanup now rl) = IsAllowed ip later rl"
    "GetRemainingAttempts ip later (cleanup now rl) = GetRemainingAttempts ip later rl"
    unfolding IsAllowed_def GetRemainingAttempts_def cleanup_lookup[OF wf]
    using assms(3) gone kept by (auto split: option.splits)
  ultimately show ?thesis by blast
qed

theorem cleanup_unnoticed_witness:
  "IsAllowed ''10.0.0.1'' 9 (cleanup 5 (NewRateLimiter 1 1 [])) = IsAllowed ''10.0.0.1'' 9 (NewRateLimiter 1 1 [])"
  using cleanup_unnoticed[OF new_limiter_wf, of 5 9 1 1 "[]" "''10.0.0.1''"] by (simp add: NewRateLimiter_def)

text \<open>
  A login returns what it spent and no more: a refund right after a granted attempt leaves
  for every address the attempts it had before.
\<close>

theorem refund_undoes_grant:
  assumes "limiter_wf rl" "CheckAndRecord ip now stamp rl = (True, rl')"
  shows "map_of (rl_attempts (Refund ip rl')) = map_of (rl_attempts rl) \<and> rl_maxAttempts (Refund ip rl') = rl_maxAttempts rl \<and>
    rl_windowDuration (Refund ip rl') = rl_windowDuration rl"
proof -
  have rl': "rl' = rl\<lparr>rl_attempts := AList.update ip (attempts_of rl ip @ [stamp]) (rl_attempts rl)\<rparr>"
    using assms(2) by (auto simp: CheckAndRecord_def attempts_of_def Let_def split: if_splits)
  show ?thesis
  proof (cases "map_of (rl_attempts rl) ip")
    case None
    then show ?thesis by (auto simp: rl' Refund_def gm_get_def attempts_of_def Let_def delete_conv' fun_eq_iff)
  next
    case (Some ts)
    moreover have "ts \<noteq> []" using assms(1) Some by (auto simp: limiter_wf_def)
    ultimately show ?thesis by (auto simp: rl' Refund_def gm_get_def attempts_of_def Let_def fun_eq_iff)
  qed
qed

theorem refund_undoes_grant_witness:
  "map_of (rl_attempts (Refund ''10.0.0.1'' (snd (CheckAndRecord ''10.0.0.1'' 2 3 (NewRateLimiter 1 1 []))))) =
     map_of (rl_attempts (NewRateLimiter 1 1 []))"
proof -
  let ?rl = "NewRateLimiter 1 1 []"
  have "fst (CheckAndRecord ''10.0.0.1'' 2 3 ?rl)" by code_simp
  then have "CheckAndRecord ''10.0.0.1'' 2 3 ?rl = (True, snd (CheckAndRecord ''10.0.0.1'' 2 3 ?rl))" by (metis prod.collapse)
  from refund_undoes_grant[OF new_limiter_wf this] show ?thesis by blast
qed

end
