(* ===== verification/Sample_Streaks.thy ===== *)
theory Sample_Streaks
  imports Prelude "HOL-Library.Word"
begin

text \<open>
  Threshold hysteresis of the alerter (\<^verbatim>\<open>alerter/src/internal/engine/hysteresis.go\<close>): per key,
  how many consecutive distinct samples a condition has held for. The first part is the data
  structure \<open>sampleStreaks\<close> with its operations. The second part is what it promises: a
  reference in which the run of a key is the list of the samples counted in it, computed from
  the history of calls alone, and the proof that the counters implement it as long as the
  64-bit pass number has not wrapped around. A sample is identified by its collection time,
  in nanoseconds. The mutex makes every operation one step.
\<close>

section \<open>The counters\<close>

record sampleStreak =
  str_sample :: int
  str_count :: int
  str_pass :: "64 word"

record 'k sampleStreaks =
  str_entries :: "('k, sampleStreak) gomap"
  str_current :: "64 word"

definition new_streaks :: "'k sampleStreaks" where
  "new_streaks = \<lparr>str_entries = [], str_current = 0\<rparr>"

definition startPass :: "'k sampleStreaks \<Rightarrow> 'k sampleStreaks" where
  "startPass s = s\<lparr>str_current := str_current s + 1\<rparr>"

definition observe :: "'k \<Rightarrow> int \<Rightarrow> bool \<Rightarrow> 'k sampleStreaks \<Rightarrow> 'k sampleStreaks \<times> int" where
  "observe key sample holds s =
     (if \<not> holds then (s\<lparr>str_entries := AList.delete key (str_entries s)\<rparr>, 0)
      else case map_of (str_entries s) key of
        None \<Rightarrow>
          (s\<lparr>str_entries := AList.update key
               \<lparr>str_sample = sample, str_count = 1, str_pass = str_current s\<rparr> (str_entries s)\<rparr>, 1)
      | Some entry \<Rightarrow>
          let entry = entry\<lparr>str_pass := str_current s\<rparr>;
              entry = (if str_sample entry < sample
                       then entry\<lparr>str_sample := sample, str_count := str_count entry + 1\<rparr>
                       else entry)
          in (s\<lparr>str_entries := AList.update key entry (str_entries s)\<rparr>, str_count entry))"

text \<open>The function a caller passes may be nil.\<close>

definition sweep :: "('k \<Rightarrow> bool) option \<Rightarrow> 'k sampleStreaks \<Rightarrow> 'k sampleStreaks" where
  "sweep keep s = s\<lparr>str_entries := filter
     (\<lambda>(key, entry). str_pass entry = str_current s \<or> (case keep of None \<Rightarrow> False | Some f \<Rightarrow> f key))
     (str_entries s)\<rparr>"

definition retain :: "('k \<Rightarrow> bool) \<Rightarrow> 'k sampleStreaks \<Rightarrow> 'k sampleStreaks" where
  "retain keep s = s\<lparr>str_entries := filter (\<lambda>(key, entry). keep key) (str_entries s)\<rparr>"

definition streak_count :: "'k \<Rightarrow> 'k sampleStreaks \<Rightarrow> int" where
  "streak_count key s = (case map_of (str_entries s) key of None \<Rightarrow> 0 | Some e \<Rightarrow> str_count e)"

definition streak_size :: "'k sampleStreaks \<Rightarrow> nat" where
  "streak_size s = length (str_entries s)"

section \<open>Histories of calls\<close>

datatype 'k streak_op =
    StartPass
  | Observe 'k int bool
  | Sweep "('k \<Rightarrow> bool) option"
  | Retain "'k \<Rightarrow> bool"

primrec streak_step :: "'k streak_op \<Rightarrow> 'k sampleStreaks \<Rightarrow> 'k sampleStreaks" where
  "streak_step StartPass s = startPass s"
| "streak_step (Observe k t h) s = fst (observe k t h s)"
| "streak_step (Sweep keep) s = sweep keep s"
| "streak_step (Retain keep) s = retain keep s"

definition streaks_after :: "'k streak_op list \<Rightarrow> 'k sampleStreaks" where
  "streaks_after ops = fold streak_step ops new_streaks"

lemma streaks_after_Nil [simp]: "streaks_after [] = new_streaks"
  by (simp add: streaks_after_def)

lemma streaks_after_snoc [simp]: "streaks_after (ops @ [op]) = streak_step op (streaks_after ops)"
  by (simp add: streaks_after_def)

section \<open>The reference: runs of samples\<close>

text \<open>
  The run of one key is the list of the samples counted in it, oldest first. A judgement that
  the condition holds adds its sample unless the newest one counted is as new; a judgement
  that it does not hold ends the run, and so does a sweep of a pass that did not judge the
  key and was not asked to keep it. The flag records whether the current pass has judged it.
\<close>

definition count_sample :: "int \<Rightarrow> int list \<Rightarrow> int list" where
  "count_sample t run = (if run = [] \<or> last run < t then run @ [t] else run)"

fun run_step :: "'k \<Rightarrow> 'k streak_op \<Rightarrow> int list \<times> bool \<Rightarrow> int list \<times> bool" where
  "run_step k StartPass (run, seen) = (run, False)"
| "run_step k (Observe k' t h) (run, seen) =
     (if k' \<noteq> k then (run, seen) else if h then (count_sample t run, True) else ([], seen))"
| "run_step k (Sweep keep) (run, seen) =
     (if seen \<or> (case keep of None \<Rightarrow> False | Some f \<Rightarrow> f k) then (run, seen) else ([], seen))"
| "run_step k (Retain keep) (run, seen) = (if keep k then (run, seen) else ([], seen))"

definition run_state :: "'k streak_op list \<Rightarrow> 'k \<Rightarrow> int list \<times> bool" where
  "run_state ops k = fold (run_step k) ops ([], True)"

definition run_of :: "'k streak_op list \<Rightarrow> 'k \<Rightarrow> int list" where
  "run_of ops k = fst (run_state ops k)"

lemma run_state_Nil [simp]: "run_state [] k = ([], True)"
  by (simp add: run_state_def)

lemma run_state_snoc [simp]: "run_state (ops @ [op]) k = run_step k op (run_state ops k)"
  by (simp add: run_state_def)

definition passes :: "'k streak_op list \<Rightarrow> nat" where
  "passes ops = length (filter (\<lambda>op. op = StartPass) ops)"

lemma passes_snoc [simp]:
  "passes [] = 0" "passes (ops @ [op]) = passes ops + (if op = StartPass then 1 else 0)"
  by (simp_all add: passes_def)

lemma passes_append: "passes (ops @ ops') = passes ops + passes ops'"
  by (simp add: passes_def)

section \<open>The counters implement the reference\<close>

definition entry_matches :: "'k sampleStreaks \<Rightarrow> 'k \<Rightarrow> int list \<times> bool \<Rightarrow> bool" where
  "entry_matches s k r = (case map_of (str_entries s) k of
       None \<Rightarrow> fst r = []
     | Some e \<Rightarrow> fst r \<noteq> [] \<and> last (fst r) = str_sample e \<and> str_count e = int (length (fst r))
         \<and> str_pass e \<le> str_current s \<and> (snd r \<longleftrightarrow> str_pass e = str_current s))"

lemma map_of_filter_keyed:
  "gm_wf m \<Longrightarrow> map_of (filter (\<lambda>(k, v). P k v) m) k =
     (case map_of m k of None \<Rightarrow> None | Some v \<Rightarrow> if P k v then Some v else None)"
  unfolding gm_wf_def
proof (induction m)
  case (Cons kv m)
  obtain k' v where "kv = (k', v)" by force
  with Cons show ?case
    by (auto split: option.splits simp: map_of_eq_None_iff dest: map_of_SomeD)
qed simp

lemma gm_wf_filter [simp]: "gm_wf m \<Longrightarrow> gm_wf (filter P m)"
  by (auto simp: gm_wf_def distinct_map inj_on_def)

lemma gm_wf_delete [simp]: "gm_wf m \<Longrightarrow> gm_wf (AList.delete k m)"
  by (simp add: gm_wf_def distinct_delete)

lemma streak_step_wf:
  "gm_wf (str_entries s) \<Longrightarrow> gm_wf (str_entries (streak_step op s))"
  by (cases op) (auto simp: startPass_def observe_def sweep_def retain_def Let_def split: option.splits)

lemma count_sample_props:
  "count_sample t run \<noteq> []" "last (count_sample t run) = (if run = [] then t else max (last run) t)"
  by (auto simp: count_sample_def)

lemma observe_matches:
  assumes "gm_wf (str_entries s)" and "entry_matches s k r"
  shows "entry_matches (fst (observe k' t h s)) k (run_step k (Observe k' t h) r)"
proof (cases r)
  case (Pair run seen)
  with assms show ?thesis
    by (auto simp: entry_matches_def observe_def Let_def count_sample_def delete_conv'
        split: option.splits if_splits)
qed

lemma next_pass:
  assumes "unat (p :: 64 word) + 1 < 2 ^ 64"
  shows "unat (p + 1) = unat p + 1" and "p < p + 1"
proof -
  show eq: "unat (p + 1) = unat p + 1"
    using assms by (simp add: unat_word_ariths)
  then show "p < p + 1" by (simp add: word_less_nat_alt)
qed

lemma start_matches:
  assumes "unat (str_current s) + 1 < 2 ^ 64" and "entry_matches s k r"
  shows "entry_matches (startPass s) k (run_step k StartPass r)"
proof (cases r)
  case (Pair run seen)
  with assms(2) next_pass[OF assms(1)] show ?thesis
    by (auto simp: entry_matches_def startPass_def split: option.splits)
qed

lemma drop_matches:
  assumes "gm_wf (str_entries s)" and "entry_matches s k r"
  shows "entry_matches (sweep keep s) k (run_step k (Sweep keep) r)"
    and "entry_matches (retain f s) k (run_step k (Retain f) r)"
  using assms
  by (cases r; auto simp: entry_matches_def sweep_def retain_def map_of_filter_keyed
      split: option.splits if_splits)+

lemma streaks_refine:
  assumes "passes ops < 2 ^ 64"
  shows "gm_wf (str_entries (streaks_after ops)) \<and> unat (str_current (streaks_after ops)) = passes ops
    \<and> entry_matches (streaks_after ops) k (run_state ops k)"
  using assms
proof (induction ops rule: rev_induct)
  case Nil
  then show ?case by (simp add: new_streaks_def entry_matches_def)
next
  case (snoc op ops)
  then have IH: "gm_wf (str_entries (streaks_after ops))"
    "unat (str_current (streaks_after ops)) = passes ops"
    "entry_matches (streaks_after ops) k (run_state ops k)"
    by auto
  have "unat (str_current (streak_step op (streaks_after ops))) = passes (ops @ [op])"
    using IH(2) snoc.prems next_pass(1)
    by (cases op) (auto simp: startPass_def observe_def sweep_def retain_def Let_def split: option.splits)
  moreover have "entry_matches (streak_step op (streaks_after ops)) k (run_step k op (run_state ops k))"
    using IH snoc.prems
    by (cases op) (simp_all add: start_matches observe_matches drop_matches)
  ultimately show ?case using IH(1) by (simp add: streak_step_wf)
qed

section \<open>What a count proves\<close>

text \<open>
  The judgements of a key in a history, and the samples it was judged to hold on since the
  last judgement that it did not.
\<close>

definition judgements :: "'k streak_op list \<Rightarrow> 'k \<Rightarrow> (int \<times> bool) list" where
  "judgements ops k = concat (map (\<lambda>op. case op of
     Observe k' t h \<Rightarrow> if k' = k then [(t, h)] else [] | _ \<Rightarrow> []) ops)"

definition held_samples :: "'k streak_op list \<Rightarrow> 'k \<Rightarrow> int list" where
  "held_samples ops k = map fst (rev (takeWhile snd (rev (judgements ops k))))"

lemma held_samples_Nil [simp]: "held_samples [] k = []"
  by (simp add: held_samples_def judgements_def)

lemma held_samples_snoc:
  "held_samples (ops @ [op]) k = (case op of
     Observe k' t h \<Rightarrow> if k' \<noteq> k then held_samples ops k else if h then held_samples ops k @ [t] else []
   | _ \<Rightarrow> held_samples ops k)"
  by (cases op) (auto simp: held_samples_def judgements_def)

lemma held_samples_judged: "t \<in> set (held_samples ops k) \<Longrightarrow> Observe k t True \<in> set ops"
  by (induction ops rule: rev_induct)
     (auto simp: held_samples_snoc split: streak_op.splits if_splits)

lemma run_of_snoc [simp]:
  "run_of [] k = []"
  "run_of (ops @ [StartPass]) k = run_of ops k"
  "run_of (ops @ [Observe k' t h]) k =
     (if k' \<noteq> k then run_of ops k else if h then count_sample t (run_of ops k) else [])"
  "run_of (ops @ [Retain keep]) k = (if keep k then run_of ops k else [])"
  by (cases "run_state ops k"; simp add: run_of_def)+

lemma run_of_sweep: "run_of (ops @ [Sweep keep]) k = [] \<or> run_of (ops @ [Sweep keep]) k = run_of ops k"
  by (cases "run_state ops k") (simp add: run_of_def)

lemma count_sample_sorted: "sorted_wrt (<) run \<Longrightarrow> sorted_wrt (<) (count_sample t run)"
  by (cases run rule: rev_cases) (fastforce simp: count_sample_def sorted_wrt_append)+

lemma run_of_sorted: "sorted_wrt (<) (run_of ops k)"
proof (induction ops rule: rev_induct)
  case (snoc op ops)
  then show ?case
    using run_of_sweep[of ops _ k] by (cases op) (auto simp: count_sample_sorted, metis sorted_wrt.simps(1))
qed simp

lemma run_of_held: "set (run_of ops k) \<subseteq> set (held_samples ops k)"
proof (induction ops rule: rev_induct)
  case (snoc op ops)
  show ?case
  proof (cases op)
    case (Sweep keep)
    then show ?thesis using snoc run_of_sweep[of ops keep k] by (auto simp: held_samples_snoc)
  qed (use snoc in \<open>auto simp: held_samples_snoc count_sample_def\<close>)
qed simp

text \<open>With no sweep and samples read in order, the run is exactly the distinct samples held.\<close>

definition judges_only :: "'k streak_op list \<Rightarrow> bool" where
  "judges_only ops \<longleftrightarrow> list_all (\<lambda>op. case op of StartPass \<Rightarrow> True | Observe _ _ _ \<Rightarrow> True | _ \<Rightarrow> False) ops"

lemma run_of_exact:
  assumes "judges_only ops" and "sorted (held_samples ops k)"
  shows "set (run_of ops k) = set (held_samples ops k)
    \<and> (run_of ops k \<noteq> [] \<longrightarrow> last (run_of ops k) = last (held_samples ops k))"
  using assms
proof (induction ops rule: rev_induct)
  case (snoc op ops)
  have only: "judges_only ops" and op: "op = StartPass \<or> (\<exists>k' t h. op = Observe k' t h)"
    using snoc.prems(1) by (auto simp: judges_only_def split: streak_op.splits)
  show ?case
  proof (cases "\<exists>t. op = Observe k t True")
    case True
    then obtain t where t: "op = Observe k t True" ..
    with snoc.prems have sorted: "sorted (held_samples ops k @ [t])" by (simp add: held_samples_snoc)
    then have IH: "set (run_of ops k) = set (held_samples ops k)"
      "run_of ops k \<noteq> [] \<Longrightarrow> last (run_of ops k) = last (held_samples ops k)"
      using snoc.IH only by (auto simp: sorted_append)
    then have "run_of ops k \<noteq> [] \<Longrightarrow> last (run_of ops k) \<le> t"
      using sorted last_in_set[of "run_of ops k"] by (auto simp: sorted_append)
    then consider "run_of ops k = []" | "run_of ops k \<noteq> []" "last (run_of ops k) < t"
      | "run_of ops k \<noteq> []" "last (run_of ops k) = t" by fastforce
    then show ?thesis
    proof cases
      case 3
      then have "t \<in> set (held_samples ops k)" using IH(1) last_in_set by blast
      with 3 IH t show ?thesis by (simp add: held_samples_snoc count_sample_def insert_absorb)
    qed (use IH t in \<open>simp_all add: held_samples_snoc count_sample_def\<close>)
  next
    case False
    with op snoc only show ?thesis by (auto simp: held_samples_snoc)
  qed
qed simp

section \<open>The contract the evaluator and the cleaner use\<close>

text \<open>
  A counter that returns, for each judgement, the length of the run it leaves. Its clients
  compare that number with \<open>trigger_count\<close> or \<open>clear_count\<close>.
\<close>

locale run_counter =
  fixes after :: "'k streak_op list \<Rightarrow> 's"
    and judge :: "'k \<Rightarrow> int \<Rightarrow> bool \<Rightarrow> 's \<Rightarrow> 's \<times> int"
  assumes judge_after: "fst (judge k t h (after ops)) = after (ops @ [Observe k t h])"
    and judge_count: "passes ops < 2 ^ 64 \<Longrightarrow>
      snd (judge k t h (after ops)) = int (length (run_of (ops @ [Observe k t h]) k))"
begin

text \<open>A count of \<open>n\<close> rests on \<open>n\<close> samples, each newer than the one before, on all of which
  the condition held and between which it was not judged to have ended.\<close>

lemma count_evidence:
  assumes "passes ops < 2 ^ 64" and "n \<le> snd (judge k t h (after ops))"
  obtains ss where "sorted_wrt (<) ss" and "n \<le> int (length ss)"
    and "set ss \<subseteq> set (held_samples (ops @ [Observe k t h]) k)"
  using assms judge_count run_of_sorted run_of_held by metis

lemma broken_run: "passes ops < 2 ^ 64 \<Longrightarrow> snd (judge k t False (after ops)) = 0"
  by (simp add: judge_count)

text \<open>Reading a sample again changes nothing.\<close>

lemma same_sample_again:
  assumes "passes ops < 2 ^ 64"
  shows "snd (judge k t True (fst (judge k t True (after ops)))) = snd (judge k t True (after ops))"
proof -
  have "passes (ops @ [Observe k t True]) < 2 ^ 64" using assms by simp
  then show ?thesis
    using assms unfolding judge_after by (simp only: judge_count run_of_snoc) (simp add: count_sample_def)
qed

end

lemma observe_returns_count: "snd (observe k t h s) = streak_count k (fst (observe k t h s))"
  by (auto simp: observe_def streak_count_def Let_def delete_conv' split: option.splits)

lemma streak_count_run:
  assumes "passes ops < 2 ^ 64"
  shows "streak_count k (streaks_after ops) = int (length (run_of ops k))"
  using streaks_refine[OF assms, of k]
  by (auto simp: streak_count_def entry_matches_def run_of_def split: option.splits)

interpretation streaks: run_counter streaks_after observe
proof
  fix k :: 'k and t h and ops :: "'k streak_op list"
  show after: "fst (observe k t h (streaks_after ops)) = streaks_after (ops @ [Observe k t h])"
    by simp
  assume "passes ops < 2 ^ 64"
  then show "snd (observe k t h (streaks_after ops)) = int (length (run_of (ops @ [Observe k t h]) k))"
    using streak_count_run[of "ops @ [Observe k t h]" k] by (simp add: observe_returns_count)
qed

text \<open>
  C21. The counters implement the reference. After any history of calls with fewer than
  \<open>2 ^ 64\<close> passes, the count of a key is the length of its run: samples in strictly increasing
  order, on each of which the condition was judged to hold and after the first of which it was
  never judged to have ended. When nothing was swept and the samples were read in order, it is
  exactly the number of distinct samples the condition has held on since it last did not.
\<close>

theorem streak_counts_distinct_samples:
  assumes "passes ops < 2 ^ 64"
  shows "streak_count k (streaks_after ops) = int (length (run_of ops k))
    \<and> sorted_wrt (<) (run_of ops k) \<and> set (run_of ops k) \<subseteq> set (held_samples ops k)
    \<and> (judges_only ops \<and> sorted (held_samples ops k) \<longrightarrow>
        streak_count k (streaks_after ops) = int (card (set (held_samples ops k))))"
proof -
  have count: "streak_count k (streaks_after ops) = int (length (run_of ops k))"
    by (rule streak_count_run[OF assms])
  have "length (run_of ops k) = card (set (run_of ops k))"
    using run_of_sorted[of ops k] by (simp add: distinct_card strict_sorted_iff)
  then have "judges_only ops \<and> sorted (held_samples ops k) \<longrightarrow>
      streak_count k (streaks_after ops) = int (card (set (held_samples ops k)))"
    using count run_of_exact[of ops k] by simp
  with count run_of_sorted[of ops k] run_of_held[of ops k] show ?thesis by (intro conjI)
qed

text \<open>Two samples of one key, the first read twice: the count is two.\<close>

theorem streak_counts_distinct_samples_witness:
  "streak_count ''k'' (streaks_after [StartPass, Observe ''k'' 5 False, StartPass, Observe ''k'' 7 True,
     StartPass, Observe ''k'' 7 True, StartPass, Observe ''k'' 9 True]) = 2"
  using streak_counts_distinct_samples[of "[StartPass, Observe ''k'' 5 False, StartPass,
      Observe ''k'' 7 True, StartPass, Observe ''k'' 7 True, StartPass, Observe ''k'' 9 True]" "''k''"]
  by (simp add: passes_def judges_only_def held_samples_def judgements_def)

end
