(* ===== verification/Go_Float.thy ===== *)
theory Go_Float
  imports Decimal_Text Complex_Main "HOL-Library.Log_Nat"
begin

text \<open>
  Go's \<open>float64\<close> as the alerter uses it. A finite value is its rational value, so the
  comparisons are exact; the two zeros are one value, which no comparison tells apart. An
  arithmetic operation is the exact one followed by rounding to the nearest binary64 number,
  ties to even, with overflow to infinity and gradual underflow.
\<close>

datatype float64 = NaN | NegInf | Fin rat | PosInf

section \<open>Comparisons\<close>

fun f_less :: "float64 \<Rightarrow> float64 \<Rightarrow> bool" where
  "f_less (Fin a) (Fin b) = (a < b)"
| "f_less NegInf (Fin b) = True"
| "f_less NegInf PosInf = True"
| "f_less (Fin a) PosInf = True"
| "f_less _ _ = False"

fun f_eq :: "float64 \<Rightarrow> float64 \<Rightarrow> bool" where
  "f_eq NaN _ = False"
| "f_eq _ NaN = False"
| "f_eq a b = (a = b)"

definition f_le :: "float64 \<Rightarrow> float64 \<Rightarrow> bool" where
  "f_le a b \<longleftrightarrow> f_less a b \<or> f_eq a b"

section \<open>Rounding\<close>

definition round_even :: "rat \<Rightarrow> int" where
  "round_even q = (let n = \<lfloor>q\<rfloor>; d = q - of_int n in
     if d < 1 / 2 \<or> (d = 1 / 2 \<and> even n) then n else n + 1)"

text \<open>The exponent of the leading binary digit of a positive rational.\<close>

definition top_exponent :: "rat \<Rightarrow> int" where
  "top_exponent q = (let (a, b) = quotient_of q; l = bitlen a - bitlen b in
     if of_int a < of_int b * (2 :: rat) powi l then l - 1 else l)"

definition round_abs :: "rat \<Rightarrow> rat" where
  "round_abs q = (let e = max (top_exponent q - 52) (- 1074) in
     of_int (round_even (q / 2 powi e)) * 2 powi e)"

definition round64 :: "rat \<Rightarrow> float64" where
  "round64 q =
     (if q = 0 then Fin 0
      else let r = round_abs \<bar>q\<bar> in
        if 2 ^ 1024 \<le> r then (if q < 0 then NegInf else PosInf)
        else Fin (if q < 0 then - r else r))"

section \<open>Arithmetic\<close>

fun f_sign :: "float64 \<Rightarrow> int" where
  "f_sign (Fin a) = (if a < 0 then - 1 else if a = 0 then 0 else 1)"
| "f_sign NegInf = - 1"
| "f_sign PosInf = 1"
| "f_sign NaN = 0"

definition f_inf :: "int \<Rightarrow> float64" where
  "f_inf s = (if s < 0 then NegInf else if s = 0 then NaN else PosInf)"

fun f_mult :: "float64 \<Rightarrow> float64 \<Rightarrow> float64" where
  "f_mult (Fin a) (Fin b) = round64 (a * b)"
| "f_mult NaN _ = NaN"
| "f_mult _ NaN = NaN"
| "f_mult a b = f_inf (f_sign a * f_sign b)"

fun f_add :: "float64 \<Rightarrow> float64 \<Rightarrow> float64" where
  "f_add (Fin a) (Fin b) = round64 (a + b)"
| "f_add NaN _ = NaN"
| "f_add _ NaN = NaN"
| "f_add PosInf NegInf = NaN"
| "f_add NegInf PosInf = NaN"
| "f_add PosInf _ = PosInf"
| "f_add NegInf _ = NegInf"
| "f_add _ b = b"

text \<open>The divisors of the code are positive constants and positive intervals.\<close>

fun f_div_pos :: "float64 \<Rightarrow> rat \<Rightarrow> float64" where
  "f_div_pos (Fin a) d = round64 (a / d)"
| "f_div_pos f d = f"

definition f_of_int :: "int \<Rightarrow> float64" where
  "f_of_int n = round64 (of_int n)"

section \<open>Rendering\<close>

text \<open>The verb \<^verbatim>\<open>%.0f\<close> rounds the exact value to an integer, ties to even.\<close>

fun format_f0 :: "float64 \<Rightarrow> string" where
  "format_f0 NaN = ''NaN''"
| "format_f0 PosInf = ''+Inf''"
| "format_f0 NegInf = ''-Inf''"
| "format_f0 (Fin q) = (if q < 0 then ''-'' else '''') @ nat_string (nat (round_even \<bar>q\<bar>))"

lemma f_less_irrefl [simp]: "\<not> f_less a a"
  by (cases a) auto

lemma f_less_trans: "f_less a b \<Longrightarrow> f_less b c \<Longrightarrow> f_less a c"
  by (cases a; cases b; cases c) auto

text \<open>Unless a side is NaN, the comparisons are those of a linear order.\<close>

lemma f_compare_cases:
  assumes "a \<noteq> NaN" and "b \<noteq> NaN"
  shows "f_le a b \<longleftrightarrow> \<not> f_less b a" "f_eq a b \<longleftrightarrow> a = b"
  using assms by (cases a; cases b; auto simp: f_le_def)+

lemma f_compare_NaN [simp]:
  "\<not> f_less NaN a" "\<not> f_less a NaN" "\<not> f_le NaN a" "\<not> f_le a NaN" "\<not> f_eq NaN a" "\<not> f_eq a NaN"
  by (cases a; simp add: f_le_def)+

end
