(* ===== verification/Alert_Store.thy ===== *)
theory Alert_Store
  imports Sample_Streaks Go_Float
begin

text \<open>
  The datastore of the alerter as its threshold engine uses it: the tables, the engine's
  state and the queries of \<^verbatim>\<open>database/alert_queries.go\<close>, \<^verbatim>\<open>database/queries.go\<close> and
  \<^verbatim>\<open>database/metric_queries.go\<close>. The database is shared with the other goroutines of the
  alerter, the server and the collector, and each query is a statement of its own, so every
  statement is preceded by whatever the others have done to the tables since the one before
  (\<open>w_others\<close>), and may fail, having been applied or not. The metric tables and the staleness
  view are read-only here: what their queries return is part of the world.
\<close>

section \<open>Rows and structs\<close>

record alert_rule =
  ru_id :: int
  ru_name :: string
  ru_description :: string
  ru_category :: string
  ru_metric_name :: string
  ru_default_operator :: string
  ru_default_threshold :: float64
  ru_default_severity :: string
  ru_default_enabled :: bool
  ru_required_extension :: "string option"

record alert_threshold =
  th_scope :: string
  th_rule_id :: int
  th_connection_id :: "int option"
  th_cluster_id :: "int option"
  th_group_id :: "int option"
  th_database_name :: "string option"
  th_threshold :: float64
  th_operator :: string
  th_severity :: string
  th_enabled :: bool

record blackout =
  bo_scope :: string
  bo_connection_id :: "int option"
  bo_group_id :: "int option"
  bo_cluster_id :: "int option"
  bo_database_name :: "string option"
  bo_start_time :: int
  bo_end_time :: int

text \<open>The columns of \<^verbatim>\<open>connections\<close> and \<^verbatim>\<open>clusters\<close> that the queries read; \<open>co_deleted\<close> is that
  \<^verbatim>\<open>deleted_at\<close>, which a later migration adds, is set.\<close>

record connection_row =
  co_id :: int
  co_name :: string
  co_cluster_id :: "int option"
  co_is_monitored :: bool
  co_deleted :: bool

record cluster_row =
  cl_id :: int
  cl_group_id :: "int option"

text \<open>A row of \<^verbatim>\<open>alerts\<close>; the connection is NULL for a system alert. The two columns of the
  re-evaluation worker are left out.\<close>

record alert_row =
  al_id :: int
  al_type :: string
  al_rule_id :: "int option"
  al_connection_id :: "int option"
  al_database_name :: "string option"
  al_object_name :: "string option"
  al_probe_name :: "string option"
  al_metric_name :: "string option"
  al_metric_value :: "float64 option"
  al_threshold_value :: "float64 option"
  al_operator :: "string option"
  al_severity :: string
  al_title :: string
  al_description :: string
  al_correlation_id :: "string option"
  al_status :: string
  al_triggered_at :: int
  al_cleared_at :: "int option"
  al_last_updated :: "int option"
  al_anomaly_score :: "float64 option"
  al_anomaly_details :: "string option"
  al_ai_analysis :: "string option"
  al_ai_analysis_metric_value :: "float64 option"

text \<open>The Go struct: the connection is 0 for none.\<close>

record alert =
  ID :: int
  AlertType :: string
  RuleID :: "int option"
  ConnectionID :: int
  DatabaseName :: "string option"
  ObjectName :: "string option"
  ProbeName :: "string option"
  MetricName :: "string option"
  MetricValue :: "float64 option"
  ThresholdValue :: "float64 option"
  Operator :: "string option"
  Severity :: string
  Title :: string
  Description :: string
  CorrelationID :: "string option"
  Status :: string
  TriggeredAt :: int
  ClearedAt :: "int option"
  LastUpdated :: "int option"
  AnomalyScore :: "float64 option"
  AnomalyDetails :: "string option"

definition nullableConnectionID :: "int \<Rightarrow> int option" where
  "nullableConnectionID i = (if i = 0 then None else Some i)"

definition connectionIDFromNullable :: "int option \<Rightarrow> int" where
  "connectionIDFromNullable c = (case c of None \<Rightarrow> 0 | Some i \<Rightarrow> i)"

definition scanAlert :: "alert_row \<Rightarrow> alert" where
  "scanAlert r =
     \<lparr>ID = al_id r, AlertType = al_type r, RuleID = al_rule_id r,
      ConnectionID = connectionIDFromNullable (al_connection_id r),
      DatabaseName = al_database_name r, ObjectName = al_object_name r, ProbeName = al_probe_name r,
      MetricName = al_metric_name r, MetricValue = al_metric_value r,
      ThresholdValue = al_threshold_value r, Operator = al_operator r, Severity = al_severity r,
      Title = al_title r, Description = al_description r, CorrelationID = al_correlation_id r,
      Status = al_status r, TriggeredAt = al_triggered_at r, ClearedAt = al_cleared_at r,
      LastUpdated = al_last_updated r, AnomalyScore = al_anomaly_score r,
      AnomalyDetails = al_anomaly_details r\<rparr>"

lemma scanAlert_simps [simp]:
  "ID (scanAlert r) = al_id r" "AlertType (scanAlert r) = al_type r" "RuleID (scanAlert r) = al_rule_id r"
  "ConnectionID (scanAlert r) = connectionIDFromNullable (al_connection_id r)"
  "DatabaseName (scanAlert r) = al_database_name r" "ProbeName (scanAlert r) = al_probe_name r"
  "MetricName (scanAlert r) = al_metric_name r" "MetricValue (scanAlert r) = al_metric_value r"
  "ThresholdValue (scanAlert r) = al_threshold_value r" "Operator (scanAlert r) = al_operator r"
  "Severity (scanAlert r) = al_severity r" "Title (scanAlert r) = al_title r"
  "Description (scanAlert r) = al_description r" "Status (scanAlert r) = al_status r"
  "TriggeredAt (scanAlert r) = al_triggered_at r"
  by (simp_all add: scanAlert_def)

record metric_value =
  mv_connection_id :: int
  mv_database_name :: "string option"
  mv_object_name :: "string option"
  mv_value :: float64
  mv_collected_at :: int

record probe_staleness =
  ps_connection_id :: int
  ps_connection_name :: string
  ps_probe_name :: string
  ps_collection_interval :: int
  ps_staleness_ratio :: float64
  ps_since_collected :: int
  ps_last_collected :: int
  ps_is_available :: bool
  ps_unavailable_reason :: "string option"

text \<open>An entry of the metric registry, less the text of its queries, and a row its latest
  query returns, of which the scan type reads two, three or all of the leading columns.\<close>

datatype scan_type = ScanBasic | ScanWithDB | ScanWithDBObject

record metric_config =
  mc_scan :: scan_type
  mc_clear_when_absent :: bool
  mc_probe_name :: string
  mc_absence_window :: int

record latest_row =
  lr_connection_id :: int
  lr_database_name :: string
  lr_object_name :: string
  lr_value :: float64
  lr_collected_at :: int

section \<open>The tables and the engine\<close>

record alert_db =
  alerts :: "alert_row list"
  alerts_seq :: int
  acknowledgments :: "int list"
  alert_rules :: "alert_rule list"
  alert_thresholds :: "alert_threshold list"
  blackouts :: "blackout list"
  connections :: "connection_row list"
  clusters :: "cluster_row list"

record thresholdSampleKey =
  key_rule_id :: int
  key_connection_id :: int
  key_database_name :: string
  key_has_database :: bool

datatype notification_type = AlertFire | AlertClear

record engine =
  en_db :: alert_db
  en_trigger :: "thresholdSampleKey sampleStreaks"
  en_clear :: "int sampleStreaks"
  en_submitted :: "(alert \<times> notification_type) list"
  en_step :: nat

text \<open>The statements, and what may become of one: it is done, it fails without an effect, or
  its effect is applied but the answer is lost.\<close>

datatype alert_stmt =
    QRules | QLatest string | QDeleted | QExtension string | QBlackout
  | QServerThreshold | QClusterThreshold | QGroupThreshold | QDefaultThreshold
  | QOpenAlert | QRecentlyCleared | XUpdateValues | XCreate
  | XBegin | XReactivate | XDropAcks | XCommit
  | QStaleness | QRuleByName string | QOpenProbeAlert | QRecentlyClearedProbe
  | QActiveAlerts | QRuleByID int | QUnmonitored | XDescription | XClear | QStalenessContext

datatype outcome = Done | Failed | Lost

record world =
  w_outcome :: "nat \<Rightarrow> alert_stmt \<Rightarrow> outcome"
  w_others :: "nat \<Rightarrow> alert_db \<Rightarrow> alert_db"
  w_now :: "nat \<Rightarrow> int"
  w_db_now :: "nat \<Rightarrow> int"
  w_cancelled :: "nat \<Rightarrow> bool"
  w_accepts :: "nat \<Rightarrow> bool"
  w_latest :: "nat \<Rightarrow> string \<Rightarrow> latest_row list"
  w_staleness :: "nat \<Rightarrow> probe_staleness list"
  w_extensions :: "nat \<Rightarrow> string \<Rightarrow> int list"
  w_context :: "nat \<Rightarrow> int \<Rightarrow> string \<Rightarrow> (string \<times> int) option"
  w_real :: "float64 \<Rightarrow> float64"
  w_registry :: "string \<Rightarrow> metric_config option"
  w_config :: "(int \<times> int) option"
  w_pool :: bool

datatype alert_error = DatabaseError | ErrNoRows | ErrMetricNotSupported | ErrNoMetricData

type_synonym 'a result = "engine \<times> (alert_error + 'a)"

text \<open>
  One statement: the others run, then it is executed at its place in the order of the
  engine's statements. The world's clocks, its reads and the cancellation of the context are
  indexed by that place.
\<close>

definition run_query :: "world \<Rightarrow> alert_stmt \<Rightarrow> (alert_db \<Rightarrow> alert_db \<times> 'a) \<Rightarrow> engine \<Rightarrow> 'a result" where
  "run_query w q f e =
     (let n = en_step e; d = w_others w n (en_db e); (d', v) = f d in
      case w_outcome w n q of
        Done \<Rightarrow> (e\<lparr>en_db := d', en_step := n + 1\<rparr>, Inr v)
      | Failed \<Rightarrow> (e\<lparr>en_db := d, en_step := n + 1\<rparr>, Inl DatabaseError)
      | Lost \<Rightarrow> (e\<lparr>en_db := d', en_step := n + 1\<rparr>, Inl DatabaseError))"

definition read_query :: "world \<Rightarrow> alert_stmt \<Rightarrow> (alert_db \<Rightarrow> 'a) \<Rightarrow> engine \<Rightarrow> 'a result" where
  "read_query w q f = run_query w q (\<lambda>d. (d, f d))"

definition exec_query :: "world \<Rightarrow> alert_stmt \<Rightarrow> (alert_db \<Rightarrow> alert_db) \<Rightarrow> engine \<Rightarrow> unit result" where
  "exec_query w q f = run_query w q (\<lambda>d. (f d, ()))"

definition on_alerts :: "(alert_row list \<Rightarrow> alert_row list) \<Rightarrow> alert_db \<Rightarrow> alert_db" where
  "on_alerts f d = d\<lparr>alerts := f (alerts d)\<rparr>"

definition update_alert :: "int \<Rightarrow> (alert_row \<Rightarrow> alert_row) \<Rightarrow> alert_db \<Rightarrow> alert_db" where
  "update_alert i f = on_alerts (map (\<lambda>r. if al_id r = i then f r else r))"

section \<open>Queries on alerts\<close>

definition is_open :: "alert_row \<Rightarrow> bool" where
  "is_open r \<longleftrightarrow> al_status r = ''active'' \<or> al_status r = ''acknowledged''"

definition GetActiveThresholdAlert ::
  "world \<Rightarrow> int \<Rightarrow> int \<Rightarrow> string option \<Rightarrow> engine \<Rightarrow> alert option result" where
  "GetActiveThresholdAlert w ruleID connID dbName = read_query w QOpenAlert (\<lambda>d. map_option scanAlert (find
     (\<lambda>r. al_rule_id r = Some ruleID \<and> al_connection_id r = Some connID \<and> is_open r
          \<and> al_database_name r = dbName) (alerts d)))"

definition GetActiveThresholdAlertForProbe ::
  "world \<Rightarrow> int \<Rightarrow> int \<Rightarrow> string \<Rightarrow> engine \<Rightarrow> alert option result" where
  "GetActiveThresholdAlertForProbe w ruleID connID probe =
     read_query w QOpenProbeAlert (\<lambda>d. map_option scanAlert (find
       (\<lambda>r. al_rule_id r = Some ruleID \<and> al_connection_id r = Some connID
            \<and> al_probe_name r = Some probe \<and> is_open r) (alerts d)))"

text \<open>The interval is \<open>int(cooldown.Seconds())\<close> seconds before the database's clock.\<close>

definition cleared_within :: "int \<Rightarrow> int \<Rightarrow> alert_row \<Rightarrow> bool" where
  "cleared_within now cooldown r \<longleftrightarrow> al_status r = ''cleared'' \<and>
     (case al_cleared_at r of None \<Rightarrow> False
      | Some t \<Rightarrow> now - cooldown div 1000000000 * 1000000000 < t)"

definition GetRecentlyClearedAlert ::
  "world \<Rightarrow> int \<Rightarrow> int \<Rightarrow> string option \<Rightarrow> int \<Rightarrow> engine \<Rightarrow> bool result" where
  "GetRecentlyClearedAlert w ruleID connID dbName cooldown e =
     read_query w QRecentlyCleared (\<lambda>d. list_ex
       (\<lambda>r. al_rule_id r = Some ruleID \<and> al_connection_id r = Some connID
            \<and> cleared_within (w_db_now w (en_step e)) cooldown r \<and> al_database_name r = dbName)
       (alerts d)) e"

definition GetRecentlyClearedAlertForProbe ::
  "world \<Rightarrow> int \<Rightarrow> int \<Rightarrow> string \<Rightarrow> int \<Rightarrow> engine \<Rightarrow> bool result" where
  "GetRecentlyClearedAlertForProbe w ruleID connID probe cooldown e =
     read_query w QRecentlyClearedProbe (\<lambda>d. list_ex
       (\<lambda>r. al_rule_id r = Some ruleID \<and> al_connection_id r = Some connID
            \<and> al_probe_name r = Some probe \<and> cleared_within (w_db_now w (en_step e)) cooldown r)
       (alerts d)) e"

text \<open>\<^verbatim>\<open>metric_value IS DISTINCT FROM $2\<close> compares stored values; the columns are REAL.\<close>

definition UpdateAlertValues ::
  "world \<Rightarrow> int \<Rightarrow> float64 \<Rightarrow> float64 \<Rightarrow> string \<Rightarrow> string \<Rightarrow> engine \<Rightarrow> unit result" where
  "UpdateAlertValues w i value threshold operator severity e =
     exec_query w XUpdateValues (update_alert i (\<lambda>r.
       let same = (al_metric_value r = Some (w_real w value)) in
       r\<lparr>al_metric_value := Some (w_real w value), al_last_updated := Some (w_now w (en_step e)),
         al_threshold_value := Some (w_real w threshold), al_operator := Some operator,
         al_severity := severity,
         al_ai_analysis := if same then al_ai_analysis r else None,
         al_ai_analysis_metric_value := if same then al_ai_analysis_metric_value r else None\<rparr>)) e"

definition alert_to_row :: "world \<Rightarrow> alert \<Rightarrow> int \<Rightarrow> alert_row" where
  "alert_to_row w a i =
     \<lparr>al_id = i, al_type = AlertType a, al_rule_id = RuleID a,
      al_connection_id = nullableConnectionID (ConnectionID a), al_database_name = DatabaseName a,
      al_object_name = ObjectName a, al_probe_name = ProbeName a, al_metric_name = MetricName a,
      al_metric_value = map_option (w_real w) (MetricValue a),
      al_threshold_value = map_option (w_real w) (ThresholdValue a), al_operator = Operator a,
      al_severity = Severity a, al_title = Title a, al_description = Description a,
      al_correlation_id = CorrelationID a, al_status = Status a, al_triggered_at = TriggeredAt a,
      al_cleared_at = None, al_last_updated = None,
      al_anomaly_score = map_option (w_real w) (AnomalyScore a),
      al_anomaly_details = AnomalyDetails a, al_ai_analysis = None,
      al_ai_analysis_metric_value = None\<rparr>"

text \<open>\<^verbatim>\<open>RETURNING id\<close> gives the struct its identifier.\<close>

definition CreateAlert :: "world \<Rightarrow> alert \<Rightarrow> engine \<Rightarrow> alert result" where
  "CreateAlert w a = run_query w XCreate (\<lambda>d. let i = alerts_seq d + 1 in
     (d\<lparr>alerts := alerts d @ [alert_to_row w a i], alerts_seq := i\<rparr>, a\<lparr>ID := i\<rparr>))"

definition GetActiveAlerts :: "world \<Rightarrow> engine \<Rightarrow> alert list result" where
  "GetActiveAlerts w = read_query w QActiveAlerts (\<lambda>d. map scanAlert
     (sort_key (\<lambda>r. - al_triggered_at r) (filter (\<lambda>r. al_status r = ''active'') (alerts d))))"

definition ClearAlert :: "world \<Rightarrow> int \<Rightarrow> engine \<Rightarrow> unit result" where
  "ClearAlert w i e = exec_query w XClear (update_alert i (\<lambda>r.
     r\<lparr>al_status := ''cleared'', al_cleared_at := Some (w_now w (en_step e))\<rparr>)) e"

definition UpdateAlertDescription :: "world \<Rightarrow> int \<Rightarrow> string \<Rightarrow> engine \<Rightarrow> unit result" where
  "UpdateAlertDescription w i description e = exec_query w XDescription (update_alert i (\<lambda>r.
     r\<lparr>al_description := description, al_last_updated := Some (w_db_now w (en_step e))\<rparr>)) e"

text \<open>
  The transaction of \<open>ReactivateAlert\<close>: its effect becomes visible at the commit. The UPDATE
  locks the row, so the guard on its status still holds then.
\<close>

definition reactivate :: "int \<Rightarrow> int \<Rightarrow> alert_db \<Rightarrow> alert_db" where
  "reactivate i now d =
     (let hit = (\<lambda>r. al_id r = i \<and> al_status r = ''acknowledged'') in
      if list_ex hit (alerts d)
      then on_alerts (map (\<lambda>r. if hit r then r\<lparr>al_status := ''active'', al_last_updated := Some now\<rparr> else r))
             (d\<lparr>acknowledgments := filter (\<lambda>a. a \<noteq> i) (acknowledgments d)\<rparr>)
      else d)"

definition ReactivateAlert :: "world \<Rightarrow> int \<Rightarrow> engine \<Rightarrow> unit result" where
  "ReactivateAlert w i e =
     (case read_query w XBegin (\<lambda>_. ()) e of
        (e1, Inl err) \<Rightarrow> (e1, Inl err)
      | (e1, Inr _) \<Rightarrow>
     (let now = w_now w (en_step e1) in
      case read_query w XReactivate (\<lambda>d.
             list_ex (\<lambda>r. al_id r = i \<and> al_status r = ''acknowledged'') (alerts d)) e1 of
        (e2, Inl err) \<Rightarrow> (e2, Inl err)
      | (e2, Inr hit) \<Rightarrow>
          if \<not> hit then read_query w XCommit (\<lambda>_. ()) e2
          else (case read_query w XDropAcks (\<lambda>_. ()) e2 of
              (e3, Inl err) \<Rightarrow> (e3, Inl err)
            | (e3, Inr _) \<Rightarrow> exec_query w XCommit (reactivate i now) e3)))"

section \<open>Rules, thresholds and blackouts\<close>

definition GetEnabledAlertRules :: "world \<Rightarrow> engine \<Rightarrow> alert_rule list result" where
  "GetEnabledAlertRules w = read_query w QRules (\<lambda>d.
     sort_key ru_category (sort_key ru_name (filter ru_default_enabled (alert_rules d))))"

definition single_row :: "alert_error + 'a option \<Rightarrow> alert_error + 'a" where
  "single_row r = (case r of Inl err \<Rightarrow> Inl err | Inr None \<Rightarrow> Inl ErrNoRows | Inr (Some x) \<Rightarrow> Inr x)"

definition GetAlertRuleByName :: "world \<Rightarrow> string \<Rightarrow> engine \<Rightarrow> alert_rule result" where
  "GetAlertRuleByName w name e = map_prod id single_row
     (read_query w (QRuleByName name) (\<lambda>d. find (\<lambda>r. ru_name r = name) (alert_rules d)) e)"

definition GetAlertRuleByID :: "world \<Rightarrow> int \<Rightarrow> engine \<Rightarrow> alert_rule result" where
  "GetAlertRuleByID w i e = map_prod id single_row
     (read_query w (QRuleByID i) (\<lambda>d. find (\<lambda>r. ru_id r = i) (alert_rules d)) e)"

definition cluster_of :: "alert_db \<Rightarrow> int \<Rightarrow> int option" where
  "cluster_of d connID = Option.bind (find (\<lambda>c. co_id c = connID) (connections d)) co_cluster_id"

definition group_of :: "alert_db \<Rightarrow> int \<Rightarrow> int option" where
  "group_of d connID = Option.bind (cluster_of d connID)
     (\<lambda>cl. Option.bind (find (\<lambda>c. cl_id c = cl) (clusters d)) cl_group_id)"

type_synonym effective_threshold = "float64 \<times> string \<times> string \<times> bool"

definition override_values :: "alert_threshold \<Rightarrow> effective_threshold" where
  "override_values t = (th_threshold t, th_operator t, th_severity t, th_enabled t)"

definition server_override :: "int \<Rightarrow> int \<Rightarrow> string option \<Rightarrow> alert_db \<Rightarrow> effective_threshold option" where
  "server_override ruleID connID dbName d = map_option override_values (find (\<lambda>_. True)
     (sort_key (\<lambda>t. th_database_name t = None) (filter
       (\<lambda>t. th_scope t = ''server'' \<and> th_rule_id t = ruleID \<and> th_connection_id t = Some connID
            \<and> (th_database_name t = dbName \<or> th_database_name t = None))
       (alert_thresholds d))))"

definition cluster_override :: "int \<Rightarrow> int \<Rightarrow> alert_db \<Rightarrow> effective_threshold option" where
  "cluster_override ruleID connID d = map_option override_values (find
     (\<lambda>t. th_scope t = ''cluster'' \<and> th_rule_id t = ruleID \<and> th_cluster_id t \<noteq> None
          \<and> th_cluster_id t = cluster_of d connID) (alert_thresholds d))"

definition group_override :: "int \<Rightarrow> int \<Rightarrow> alert_db \<Rightarrow> effective_threshold option" where
  "group_override ruleID connID d = map_option override_values (find
     (\<lambda>t. th_scope t = ''group'' \<and> th_rule_id t = ruleID \<and> th_group_id t \<noteq> None
          \<and> th_group_id t = group_of d connID) (alert_thresholds d))"

definition default_values :: "int \<Rightarrow> alert_db \<Rightarrow> effective_threshold option" where
  "default_values ruleID d = map_option
     (\<lambda>r. (ru_default_threshold r, ru_default_operator r, ru_default_severity r, ru_default_enabled r))
     (find (\<lambda>r. ru_id r = ruleID) (alert_rules d))"

text \<open>Any error of a query, not only an empty result, makes the next level the answer.\<close>

definition GetEffectiveThreshold ::
  "world \<Rightarrow> int \<Rightarrow> int \<Rightarrow> string option \<Rightarrow> engine \<Rightarrow> engine \<times> effective_threshold" where
  "GetEffectiveThreshold w ruleID connID dbName e =
     (case map_prod id single_row (read_query w QServerThreshold (server_override ruleID connID dbName) e) of
        (e1, Inr v) \<Rightarrow> (e1, v)
      | (e1, Inl _) \<Rightarrow>
     (case map_prod id single_row (read_query w QClusterThreshold (cluster_override ruleID connID) e1) of
        (e2, Inr v) \<Rightarrow> (e2, v)
      | (e2, Inl _) \<Rightarrow>
     (case map_prod id single_row (read_query w QGroupThreshold (group_override ruleID connID) e2) of
        (e3, Inr v) \<Rightarrow> (e3, v)
      | (e3, Inl _) \<Rightarrow>
     (case map_prod id single_row (read_query w QDefaultThreshold (default_values ruleID) e3) of
        (e4, Inr v) \<Rightarrow> (e4, v)
      | (e4, Inl _) \<Rightarrow> (e4, Fin 0, '''', '''', False)))))"

definition blackout_applies :: "alert_db \<Rightarrow> int \<Rightarrow> int option \<Rightarrow> string option \<Rightarrow> blackout \<Rightarrow> bool" where
  "blackout_applies d now connID dbName b \<longleftrightarrow>
     bo_start_time b \<le> now \<and> now \<le> bo_end_time b \<and>
     (bo_scope b = ''estate''
      \<or> (bo_scope b = ''group'' \<and> bo_group_id b \<noteq> None \<and> bo_group_id b = Option.bind connID (group_of d))
      \<or> (bo_scope b = ''cluster'' \<and> bo_cluster_id b \<noteq> None
           \<and> bo_cluster_id b = Option.bind connID (cluster_of d))
      \<or> (bo_scope b = ''server''
           \<and> (bo_connection_id b = None \<or> bo_connection_id b = connID)
           \<and> (bo_database_name b = None \<or> bo_database_name b = dbName)))"

definition IsBlackoutActive ::
  "world \<Rightarrow> int option \<Rightarrow> string option \<Rightarrow> engine \<Rightarrow> bool result" where
  "IsBlackoutActive w connID dbName e = read_query w QBlackout
     (\<lambda>d. 0 < length (filter (blackout_applies d (w_now w (en_step e)) connID dbName) (blackouts d))) e"

section \<open>Metric reads\<close>

primrec scan_row :: "scan_type \<Rightarrow> latest_row \<Rightarrow> metric_value" where
  "scan_row ScanBasic r =
     \<lparr>mv_connection_id = lr_connection_id r, mv_database_name = None, mv_object_name = None,
      mv_value = lr_value r, mv_collected_at = lr_collected_at r\<rparr>"
| "scan_row ScanWithDB r =
     \<lparr>mv_connection_id = lr_connection_id r, mv_database_name = Some (lr_database_name r),
      mv_object_name = None, mv_value = lr_value r, mv_collected_at = lr_collected_at r\<rparr>"
| "scan_row ScanWithDBObject r =
     \<lparr>mv_connection_id = lr_connection_id r, mv_database_name = Some (lr_database_name r),
      mv_object_name = Some (lr_object_name r), mv_value = lr_value r,
      mv_collected_at = lr_collected_at r\<rparr>"

definition dropDeletedConnections :: "world \<Rightarrow> metric_value list \<Rightarrow> engine \<Rightarrow> metric_value list result" where
  "dropDeletedConnections w values e =
     (if values = [] then (e, Inr values)
      else read_query w QDeleted (\<lambda>d. filter
        (\<lambda>v. mv_connection_id v \<notin> set (map co_id (filter co_deleted (connections d)))) values) e)"

definition GetLatestMetricValues :: "world \<Rightarrow> string \<Rightarrow> engine \<Rightarrow> metric_value list result" where
  "GetLatestMetricValues w metric e =
     (case w_registry w metric of
        None \<Rightarrow> (e, Inl ErrMetricNotSupported)
      | Some cfg \<Rightarrow>
     (case read_query w (QLatest metric)
            (\<lambda>_. map (scan_row (mc_scan cfg)) (w_latest w (en_step e) metric)) e of
        (e1, Inl err) \<Rightarrow> (e1, Inl err)
      | (e1, Inr values) \<Rightarrow>
     (case dropDeletedConnections w values e1 of
        (e2, Inl err) \<Rightarrow> (e2, Inl err)
      | (e2, Inr kept) \<Rightarrow> if kept = [] then (e2, Inl ErrNoMetricData) else (e2, Inr kept))))"

definition MetricIsServerWide :: "world \<Rightarrow> string \<Rightarrow> bool" where
  "MetricIsServerWide w metric =
     (case w_registry w metric of None \<Rightarrow> False | Some cfg \<Rightarrow> mc_scan cfg = ScanBasic)"

definition MetricClearsWhenAbsent :: "world \<Rightarrow> string \<Rightarrow> bool" where
  "MetricClearsWhenAbsent w metric =
     (case w_registry w metric of None \<Rightarrow> False | Some cfg \<Rightarrow> mc_clear_when_absent cfg)"

definition MetricProbeName :: "world \<Rightarrow> string \<Rightarrow> string" where
  "MetricProbeName w metric = (case w_registry w metric of None \<Rightarrow> '''' | Some cfg \<Rightarrow> mc_probe_name cfg)"

definition MetricAbsenceWindow :: "world \<Rightarrow> string \<Rightarrow> int" where
  "MetricAbsenceWindow w metric = (case w_registry w metric of None \<Rightarrow> 0 | Some cfg \<Rightarrow> mc_absence_window cfg)"

definition GetProbeStalenessByConnection :: "world \<Rightarrow> engine \<Rightarrow> probe_staleness list result" where
  "GetProbeStalenessByConnection w e = read_query w QStaleness (\<lambda>_. w_staleness w (en_step e)) e"

definition GetProbeStalenessContext :: "world \<Rightarrow> int \<Rightarrow> string \<Rightarrow> engine \<Rightarrow> (string \<times> int) option result" where
  "GetProbeStalenessContext w connID probe e =
     read_query w QStalenessContext (\<lambda>_. w_context w (en_step e) connID probe) e"

definition GetConnectionsWithExtension :: "world \<Rightarrow> string \<Rightarrow> engine \<Rightarrow> int list result" where
  "GetConnectionsWithExtension w ext e = read_query w (QExtension ext) (\<lambda>_. w_extensions w (en_step e) ext) e"

definition GetUnmonitoredConnections :: "world \<Rightarrow> engine \<Rightarrow> (int, string) gomap result" where
  "GetUnmonitoredConnections w = read_query w QUnmonitored (\<lambda>d. gm_of_entries
     (map (\<lambda>c. (co_id c, co_name c)) (filter (\<lambda>c. \<not> co_is_monitored c \<and> \<not> co_deleted c) (connections d))))"

definition IsSystem :: "alert \<Rightarrow> bool" where
  "IsSystem a \<longleftrightarrow> AlertType a = ''system''"

section \<open>Notifications\<close>

definition queueNotification :: "world \<Rightarrow> alert \<Rightarrow> notification_type \<Rightarrow> engine \<Rightarrow> engine" where
  "queueNotification w a t e =
     (if w_pool w \<and> w_accepts w (en_step e) then e\<lparr>en_submitted := en_submitted e @ [(a, t)]\<rparr> else e)"

end
