(* ===== verification/Threshold_Engine.thy ===== *)
theory Threshold_Engine
  imports Alert_Store
begin

text \<open>
  The threshold evaluator of the alerter (\<^verbatim>\<open>engine/thresholds.go\<close>): one pass over the enabled
  rules, then the two passes over the probes that are late or have stopped being available.
  A pass is a function on the engine's state; it returns early where the code does, and what
  a failed statement leaves undone is left undone here.
\<close>

section \<open>Constants and configuration\<close>

definition AlertCooldownPeriod :: int where
  "AlertCooldownPeriod = 300000000000"

definition metricStalenessRuleName :: string where
  "metricStalenessRuleName = ''metric_staleness''"

definition probeUnavailableRuleName :: string where
  "probeUnavailableRuleName = ''probe_unavailable''"

definition probeUnavailableMetricName :: string where
  "probeUnavailableMetricName = ''probe_available''"

definition thresholdTriggerCount :: "world \<Rightarrow> int" where
  "thresholdTriggerCount w = (case w_config w of None \<Rightarrow> 1 | Some (t, c) \<Rightarrow> if t < 1 then 1 else t)"

definition thresholdClearCount :: "world \<Rightarrow> int" where
  "thresholdClearCount w = (case w_config w of None \<Rightarrow> 1 | Some (t, c) \<Rightarrow> if c < 1 then 1 else c)"

definition newThresholdSampleKey :: "int \<Rightarrow> metric_value \<Rightarrow> thresholdSampleKey" where
  "newThresholdSampleKey ruleID mv =
     (case mv_database_name mv of
        None \<Rightarrow> \<lparr>key_rule_id = ruleID, key_connection_id = mv_connection_id mv,
                 key_database_name = '''', key_has_database = False\<rparr>
      | Some n \<Rightarrow> \<lparr>key_rule_id = ruleID, key_connection_id = mv_connection_id mv,
                 key_database_name = n, key_has_database = True\<rparr>)"

section \<open>Thresholds\<close>

definition checkThreshold :: "float64 \<Rightarrow> string \<Rightarrow> float64 \<Rightarrow> bool" where
  "checkThreshold value operator threshold =
     (if operator = ''>'' then f_less threshold value
      else if operator = ''>='' then f_le threshold value
      else if operator = ''<'' then f_less value threshold
      else if operator = ''<='' then f_le value threshold
      else if operator = ''=='' then f_eq value threshold
      else if operator = ''!='' then \<not> f_eq value threshold
      else False)"

record thresholdViolation =
  tv_value :: float64
  tv_threshold :: float64
  tv_operator :: string
  tv_severity :: string

definition threshold_alert ::
  "alert_rule \<Rightarrow> thresholdViolation \<Rightarrow> int \<Rightarrow> string option \<Rightarrow> string option \<Rightarrow> int \<Rightarrow> alert" where
  "threshold_alert rule v connID dbName objectName now =
     \<lparr>ID = 0, AlertType = ''threshold'', RuleID = Some (ru_id rule), ConnectionID = connID,
      DatabaseName = dbName, ObjectName = objectName, ProbeName = None,
      MetricName = Some (ru_metric_name rule), MetricValue = Some (tv_value v),
      ThresholdValue = Some (tv_threshold v), Operator = Some (tv_operator v),
      Severity = tv_severity v, Title = ru_name rule, Description = ru_description rule,
      CorrelationID = None, Status = ''active'', TriggeredAt = now, ClearedAt = None,
      LastUpdated = None, AnomalyScore = None, AnomalyDetails = None\<rparr>"

text \<open>The branch of \<open>triggerThresholdAlert\<close> for an alert that is already open.\<close>

definition update_open_alert :: "world \<Rightarrow> thresholdViolation \<Rightarrow> alert \<Rightarrow> engine \<Rightarrow> engine" where
  "update_open_alert w v existing e =
     (let needsReactivation = (Status existing = ''acknowledged'' \<and> Severity existing \<noteq> tv_severity v) in
      case UpdateAlertValues w (ID existing) (tv_value v) (tv_threshold v) (tv_operator v) (tv_severity v) e of
        (e1, Inl _) \<Rightarrow> e1
      | (e1, Inr _) \<Rightarrow>
          if \<not> needsReactivation then e1
          else (case ReactivateAlert w (ID existing) e1 of
              (e2, Inl _) \<Rightarrow> e2
            | (e2, Inr _) \<Rightarrow>
                queueNotification w (existing\<lparr>Severity := tv_severity v, Status := ''active''\<rparr>) AlertFire e2))"

text \<open>The branch that raises an alert: the cooldown, then the insertion and its notification.\<close>

definition create_and_notify :: "world \<Rightarrow> alert \<Rightarrow> engine \<Rightarrow> engine" where
  "create_and_notify w a e =
     (case CreateAlert w a e of
        (e1, Inl _) \<Rightarrow> e1
      | (e1, Inr a') \<Rightarrow> queueNotification w a' AlertFire e1)"

definition raise_alert ::
  "world \<Rightarrow> alert_rule \<Rightarrow> thresholdViolation \<Rightarrow> int \<Rightarrow> string option \<Rightarrow> string option \<Rightarrow> engine \<Rightarrow> engine" where
  "raise_alert w rule v connID dbName objectName e =
     (case GetRecentlyClearedAlert w (ru_id rule) connID dbName AlertCooldownPeriod e of
        (e1, Inr True) \<Rightarrow> e1
      | (e1, _) \<Rightarrow> create_and_notify w
          (threshold_alert rule v connID dbName objectName (w_now w (en_step e1))) e1)"

definition triggerThresholdAlert ::
  "world \<Rightarrow> alert_rule \<Rightarrow> thresholdViolation \<Rightarrow> int \<Rightarrow> string option \<Rightarrow> string option \<Rightarrow> bool \<Rightarrow> engine \<Rightarrow> engine" where
  "triggerThresholdAlert w rule v connID dbName objectName sustained e =
     (case GetActiveThresholdAlert w (ru_id rule) connID dbName e of
        (e1, Inr (Some existing)) \<Rightarrow> update_open_alert w v existing e1
      | (e1, _) \<Rightarrow> if \<not> sustained then e1 else raise_alert w rule v connID dbName objectName e1)"

section \<open>One rule on every connection\<close>

text \<open>None is a nil map: every connection qualifies.\<close>

definition connectionsWithRequiredExtension ::
  "world \<Rightarrow> alert_rule \<Rightarrow> engine \<Rightarrow> engine \<times> int list option" where
  "connectionsWithRequiredExtension w rule e =
     (case ru_required_extension rule of
        None \<Rightarrow> (e, None)
      | Some ext \<Rightarrow>
          if ext = '''' then (e, None)
          else (case GetConnectionsWithExtension w ext e of
              (e1, Inl _) \<Rightarrow> (e1, None)
            | (e1, Inr ids) \<Rightarrow> (e1, Some ids)))"

text \<open>An error of the blackout query is logged and the blackout taken as not active.\<close>

definition blackout_active :: "world \<Rightarrow> int \<Rightarrow> string option \<Rightarrow> engine \<Rightarrow> engine \<times> bool" where
  "blackout_active w connID dbName e =
     (case IsBlackoutActive w (Some connID) dbName e of
        (e1, Inl _) \<Rightarrow> (e1, False)
      | (e1, Inr active) \<Rightarrow> (e1, active))"

definition observe_trigger :: "thresholdSampleKey \<Rightarrow> int \<Rightarrow> bool \<Rightarrow> engine \<Rightarrow> engine \<times> int" where
  "observe_trigger key sample holds e =
     (case observe key sample holds (en_trigger e) of (s, n) \<Rightarrow> (e\<lparr>en_trigger := s\<rparr>, n))"

definition judge_value ::
  "world \<Rightarrow> alert_rule \<Rightarrow> int \<Rightarrow> metric_value \<Rightarrow> effective_threshold \<Rightarrow> engine \<Rightarrow> engine" where
  "judge_value w rule triggerCount mv eff e =
     (case eff of (threshold, operator, severity, enabled) \<Rightarrow>
        if \<not> enabled then e
        else let violated = checkThreshold (mv_value mv) operator threshold in
          case observe_trigger (newThresholdSampleKey (ru_id rule) mv) (mv_collected_at mv) violated e of
            (e1, breaches) \<Rightarrow>
              if violated
              then triggerThresholdAlert w rule
                \<lparr>tv_value = mv_value mv, tv_threshold = threshold, tv_operator = operator, tv_severity = severity\<rparr>
                (mv_connection_id mv) (mv_database_name mv) (mv_object_name mv)
                (triggerCount \<le> breaches) e1
              else e1)"

definition evaluate_value ::
  "world \<Rightarrow> alert_rule \<Rightarrow> int list option \<Rightarrow> int \<Rightarrow> metric_value \<Rightarrow> engine \<Rightarrow> engine" where
  "evaluate_value w rule withExtension triggerCount mv e =
     (if (case withExtension of None \<Rightarrow> False | Some ids \<Rightarrow> mv_connection_id mv \<notin> set ids) then e
      else case blackout_active w (mv_connection_id mv) (mv_database_name mv) e of
        (e1, True) \<Rightarrow> e1
      | (e1, False) \<Rightarrow>
          (case GetEffectiveThreshold w (ru_id rule) (mv_connection_id mv) (mv_database_name mv) e1 of
             (e2, eff) \<Rightarrow> judge_value w rule triggerCount mv eff e2))"

text \<open>A loop that stops when the context is cancelled.\<close>

fun while_live :: "world \<Rightarrow> ('a \<Rightarrow> engine \<Rightarrow> engine) \<Rightarrow> 'a list \<Rightarrow> engine \<Rightarrow> engine" where
  "while_live w f [] e = e"
| "while_live w f (x # xs) e = (if w_cancelled w (en_step e) then e else while_live w f xs (f x e))"

definition evaluateRuleForAllConnections :: "world \<Rightarrow> alert_rule \<Rightarrow> engine \<Rightarrow> engine \<times> bool" where
  "evaluateRuleForAllConnections w rule e =
     (case GetLatestMetricValues w (ru_metric_name rule) e of
        (e1, Inl err) \<Rightarrow> (e1, err = ErrNoMetricData)
      | (e1, Inr values) \<Rightarrow>
          (case connectionsWithRequiredExtension w rule e1 of
             (e2, withExtension) \<Rightarrow>
               (while_live w (evaluate_value w rule withExtension (thresholdTriggerCount w)) values e2, True)))"

section \<open>Probe-scoped rules\<close>

definition stalenessMinutes :: "int \<Rightarrow> float64 \<Rightarrow> float64" where
  "stalenessMinutes interval ratio = f_div_pos (f_mult (f_of_int interval) ratio) 60"

definition stalenessAlertDescription :: "string \<Rightarrow> string \<Rightarrow> float64 \<Rightarrow> float64 \<Rightarrow> string" where
  "stalenessAlertDescription probeName connectionName elapsed threshold =
     ''The '' @ probeName @ '' probe on '' @ connectionName @ '' has not collected data for ''
     @ format_f0 elapsed @ '' minutes (threshold: '' @ format_f0 threshold
     @ '' minutes). Dashboards may show outdated data.''"

definition unavailableProbeReason :: "probe_staleness \<Rightarrow> string" where
  "unavailableProbeReason entry =
     (case ps_unavailable_reason entry of
        None \<Rightarrow> ''no reason recorded''
      | Some r \<Rightarrow> if r \<noteq> '''' then r else ''no reason recorded'')"

definition probeUnavailableAlertDescription :: "string \<Rightarrow> string \<Rightarrow> string \<Rightarrow> string" where
  "probeUnavailableAlertDescription probeName connectionName reason =
     ''The '' @ probeName @ '' probe on '' @ connectionName
     @ '' was collecting and is no longer available ('' @ reason
     @ ''). Metric collection for this probe has stopped, so dashboards and alert rules that depend on it cannot be evaluated until it is available again.''"

definition probe_alert ::
  "alert_rule \<Rightarrow> probe_staleness \<Rightarrow> float64 \<Rightarrow> float64 \<Rightarrow> string \<Rightarrow> string \<Rightarrow> string \<Rightarrow> string \<Rightarrow> int \<Rightarrow> alert" where
  "probe_alert rule entry value threshold operator severity title description now =
     \<lparr>ID = 0, AlertType = ''threshold'', RuleID = Some (ru_id rule), ConnectionID = ps_connection_id entry,
      DatabaseName = None, ObjectName = None, ProbeName = Some (ps_probe_name entry),
      MetricName = Some (ru_metric_name rule), MetricValue = Some value,
      ThresholdValue = Some threshold, Operator = Some operator, Severity = severity,
      Title = title, Description = description, CorrelationID = None, Status = ''active'',
      TriggeredAt = now, ClearedAt = None, LastUpdated = None, AnomalyScore = None,
      AnomalyDetails = None\<rparr>"

text \<open>What both probe rules do once their condition holds: update the open alert of the probe,
  or raise one unless it was cleared recently. A failed lookup waits for the next pass.\<close>

definition raise_probe_alert ::
  "world \<Rightarrow> alert_rule \<Rightarrow> probe_staleness \<Rightarrow> float64 \<Rightarrow> effective_threshold \<Rightarrow> string \<Rightarrow> string \<Rightarrow> int \<Rightarrow> engine \<Rightarrow> engine" where
  "raise_probe_alert w rule entry value eff title description now e =
     (case eff of (threshold, operator, severity, _) \<Rightarrow>
      case GetActiveThresholdAlertForProbe w (ru_id rule) (ps_connection_id entry) (ps_probe_name entry) e of
        (e1, Inl _) \<Rightarrow> e1
      | (e1, Inr (Some existing)) \<Rightarrow>
          fst (UpdateAlertValues w (ID existing) value threshold operator severity e1)
      | (e1, Inr None) \<Rightarrow>
          (case GetRecentlyClearedAlertForProbe w (ru_id rule) (ps_connection_id entry)
                  (ps_probe_name entry) AlertCooldownPeriod e1 of
             (e2, Inr True) \<Rightarrow> e2
           | (e2, _) \<Rightarrow> create_and_notify w
               (probe_alert rule entry value threshold operator severity title description now) e2))"

definition evaluate_stale_entry :: "world \<Rightarrow> alert_rule \<Rightarrow> probe_staleness \<Rightarrow> engine \<Rightarrow> engine" where
  "evaluate_stale_entry w rule entry e =
     (if \<not> ps_is_available entry then e
      else case blackout_active w (ps_connection_id entry) None e of
        (e1, True) \<Rightarrow> e1
      | (e1, False) \<Rightarrow>
          (case GetEffectiveThreshold w (ru_id rule) (ps_connection_id entry) None e1 of
             (e2, threshold, operator, severity, enabled) \<Rightarrow>
               if \<not> enabled \<or> \<not> checkThreshold (ps_staleness_ratio entry) operator threshold then e2
               else raise_probe_alert w rule entry (ps_staleness_ratio entry)
                 (threshold, operator, severity, enabled)
                 (''Stale metrics: '' @ ps_probe_name entry @ '' on '' @ ps_connection_name entry)
                 (stalenessAlertDescription (ps_probe_name entry) (ps_connection_name entry)
                    (stalenessMinutes (ps_collection_interval entry) (ps_staleness_ratio entry))
                    (stalenessMinutes (ps_collection_interval entry) threshold))
                 (w_now w (en_step e2)) e2))"

text \<open>The probe is reported with the value 0 as long as it is unavailable. The alert's time is
  taken after the cooldown query, two statements on.\<close>

definition evaluateProbeUnavailableEntry :: "world \<Rightarrow> alert_rule \<Rightarrow> probe_staleness \<Rightarrow> engine \<Rightarrow> engine" where
  "evaluateProbeUnavailableEntry w rule entry e =
     (case blackout_active w (ps_connection_id entry) None e of
        (e1, True) \<Rightarrow> e1
      | (e1, False) \<Rightarrow>
          (case GetEffectiveThreshold w (ru_id rule) (ps_connection_id entry) None e1 of
             (e2, threshold, operator, severity, enabled) \<Rightarrow>
               if \<not> enabled \<or> \<not> checkThreshold (Fin 0) operator threshold then e2
               else raise_probe_alert w rule entry (Fin 0) (threshold, operator, severity, enabled)
                 (''Probe unavailable: '' @ ps_probe_name entry @ '' on '' @ ps_connection_name entry)
                 (probeUnavailableAlertDescription (ps_probe_name entry) (ps_connection_name entry)
                    (unavailableProbeReason entry))
                 (w_now w (en_step e2 + 2)) e2))"

definition evaluateMetricStaleness :: "world \<Rightarrow> probe_staleness list \<Rightarrow> engine \<Rightarrow> engine" where
  "evaluateMetricStaleness w entries e =
     (case GetAlertRuleByName w metricStalenessRuleName e of
        (e1, Inl _) \<Rightarrow> e1
      | (e1, Inr rule) \<Rightarrow>
          if \<not> ru_default_enabled rule then e1
          else while_live w (evaluate_stale_entry w rule) entries e1)"

definition evaluateProbeUnavailable :: "world \<Rightarrow> probe_staleness list \<Rightarrow> engine \<Rightarrow> engine" where
  "evaluateProbeUnavailable w entries e =
     (case GetAlertRuleByName w probeUnavailableRuleName e of
        (e1, Inl _) \<Rightarrow> e1
      | (e1, Inr rule) \<Rightarrow>
          if \<not> ru_default_enabled rule then e1
          else while_live w (\<lambda>entry e. if ps_is_available entry then e
                 else evaluateProbeUnavailableEntry w rule entry e) entries e1)"

definition evaluateProbeScopedRules :: "world \<Rightarrow> engine \<Rightarrow> engine" where
  "evaluateProbeScopedRules w e =
     (case GetProbeStalenessByConnection w e of
        (e1, Inl _) \<Rightarrow> e1
      | (e1, Inr entries) \<Rightarrow>
          evaluateProbeUnavailable w entries (evaluateMetricStaleness w entries e1))"

section \<open>The pass\<close>

text \<open>The rules whose values could not be read, or None when the pass was cancelled.\<close>

fun evaluate_rules :: "world \<Rightarrow> alert_rule list \<Rightarrow> int list \<Rightarrow> engine \<Rightarrow> engine \<times> int list option" where
  "evaluate_rules w [] unread e = (e, Some unread)"
| "evaluate_rules w (rule # rules) unread e =
     (if w_cancelled w (en_step e) then (e, None)
      else case evaluateRuleForAllConnections w rule e of
        (e1, ok) \<Rightarrow> evaluate_rules w rules (if ok then unread else ru_id rule # unread) e1)"

definition evaluateThresholds :: "world \<Rightarrow> engine \<Rightarrow> engine" where
  "evaluateThresholds w e =
     (case GetEnabledAlertRules w e of
        (e1, Inl _) \<Rightarrow> e1
      | (e1, Inr rules) \<Rightarrow>
          (case evaluate_rules w rules [] (e1\<lparr>en_trigger := startPass (en_trigger e1)\<rparr>) of
             (e2, None) \<Rightarrow> e2
           | (e2, Some unread) \<Rightarrow>
               evaluateProbeScopedRules w
                 (e2\<lparr>en_trigger := sweep (Some (\<lambda>key. key_rule_id key \<in> set unread)) (en_trigger e2)\<rparr>)))"

end
