(* ===== verification/Alert_Cleaner.thy ===== *)
theory Alert_Cleaner
  imports Threshold_Engine
begin

text \<open>
  The alert cleaner (\<^verbatim>\<open>engine/cleanup.go\<close>): one pass over the active alerts, which closes
  those on connections that are no longer monitored, retires those that can no longer be
  evaluated, and clears the threshold alerts whose condition has been seen to end. The two
  snapshots a pass reads at most once are threaded through it.
\<close>

section \<open>The snapshots of a pass\<close>

text \<open>None is a snapshot that has not been read; a failed read is remembered.\<close>

record snapshots =
  sn_unmonitored :: "(alert_error + (int, string) gomap) option"
  sn_staleness :: "(alert_error + probe_staleness list) option"
  sn_read_at :: int

definition new_snapshots :: snapshots where
  "new_snapshots = \<lparr>sn_unmonitored = None, sn_staleness = None, sn_read_at = 0\<rparr>"

type_synonym cleaning = "engine \<times> snapshots"

definition get_unmonitored :: "world \<Rightarrow> cleaning \<Rightarrow> cleaning \<times> (alert_error + (int, string) gomap)" where
  "get_unmonitored w c = (case c of (e, sn) \<Rightarrow>
     (case sn_unmonitored sn of
        Some r \<Rightarrow> ((e, sn), r)
      | None \<Rightarrow> (case GetUnmonitoredConnections w e of
          (e1, r) \<Rightarrow> ((e1, sn\<lparr>sn_unmonitored := Some r\<rparr>), r))))"

definition get_staleness :: "world \<Rightarrow> cleaning \<Rightarrow> cleaning \<times> (alert_error + probe_staleness list)" where
  "get_staleness w c = (case c of (e, sn) \<Rightarrow>
     (case sn_staleness sn of
        Some r \<Rightarrow> ((e, sn), r)
      | None \<Rightarrow> (case GetProbeStalenessByConnection w e of
          (e1, r) \<Rightarrow> ((e1, sn\<lparr>sn_staleness := Some r, sn_read_at := w_now w (en_step e)\<rparr>), r))))"

definition snapshot_age :: "world \<Rightarrow> cleaning \<Rightarrow> int" where
  "snapshot_age w c = (case c of (e, sn) \<Rightarrow>
     (case sn_staleness sn of None \<Rightarrow> 0 | Some _ \<Rightarrow> w_now w (en_step e) - sn_read_at sn))"

text \<open>\<^verbatim>\<open>Duration.Seconds\<close> divides towards zero.\<close>

definition duration_seconds :: "int \<Rightarrow> float64" where
  "duration_seconds d = (let s = sgn d * (\<bar>d\<bar> div 1000000000) in
     f_add (f_of_int s) (f_div_pos (f_of_int (d - s * 1000000000)) 1000000000))"

definition currentStalenessRatio :: "probe_staleness \<Rightarrow> int \<Rightarrow> float64" where
  "currentStalenessRatio entry age =
     (if ps_collection_interval entry \<le> 0 then ps_staleness_ratio entry
      else f_div_pos (duration_seconds (ps_since_collected entry + age))
             (of_int (ps_collection_interval entry)))"

section \<open>Clearing\<close>

definition clearResolvedAlert :: "world \<Rightarrow> alert \<Rightarrow> engine \<Rightarrow> engine" where
  "clearResolvedAlert w a e =
     (case ClearAlert w (ID a) e of
        (e1, Inl _) \<Rightarrow> e1
      | (e1, Inr _) \<Rightarrow> queueNotification w a AlertClear e1)"

definition observe_clear :: "int \<Rightarrow> int \<Rightarrow> bool \<Rightarrow> engine \<Rightarrow> engine \<times> int" where
  "observe_clear i sample holds e =
     (case observe i sample holds (en_clear e) of (s, n) \<Rightarrow> (e\<lparr>en_clear := s\<rparr>, n))"

definition recordViolatingSample :: "alert \<Rightarrow> int \<Rightarrow> engine \<Rightarrow> engine" where
  "recordViolatingSample a sample e = fst (observe_clear (ID a) sample False e)"

definition recordResolvedSample :: "world \<Rightarrow> alert \<Rightarrow> int \<Rightarrow> engine \<Rightarrow> engine" where
  "recordResolvedSample w a sample e =
     (case observe_clear (ID a) sample True e of
        (e1, resolved) \<Rightarrow> if resolved < thresholdClearCount w then e1 else clearResolvedAlert w a e1)"

text \<open>Closing an alert without a notification, with a description that says why. The text the
  code itself wrote, which opens with the prefix, is not wrapped again.\<close>

definition close_with_reason :: "world \<Rightarrow> alert \<Rightarrow> string \<Rightarrow> string \<Rightarrow> engine \<Rightarrow> engine" where
  "close_with_reason w a pre description e =
     (let e1 = (if take (length pre) (Description a) = pre then e
                else fst (UpdateAlertDescription w (ID a) description e))
      in fst (ClearAlert w (ID a) e1))"

definition unmonitoredClearDescriptionPrefix :: string where
  "unmonitoredClearDescriptionPrefix = ''Monitoring stopped: ''"

definition unmonitoredClearDescription :: "string \<Rightarrow> string \<Rightarrow> string" where
  "unmonitoredClearDescription connectionName previous =
     unmonitoredClearDescriptionPrefix @ ''monitoring of '' @ connectionName
     @ '' was turned off, so this alert was closed without the condition it reports being observed to end. The alert said: ''
     @ previous"

definition databaseScopedClearDescriptionPrefix :: string where
  "databaseScopedClearDescriptionPrefix = ''Closed without re-evaluation: ''"

definition databaseScopedClearDescription :: "string \<Rightarrow> string \<Rightarrow> string" where
  "databaseScopedClearDescription metric previous =
     databaseScopedClearDescriptionPrefix @ ''the metric '' @ metric
     @ '' is now reported for the whole server rather than per database, so this alert, which names a database, can no longer be evaluated and was closed without the condition it reports being observed to end. The alert said: ''
     @ previous"

definition clearAlertForUnmonitoredConnection :: "world \<Rightarrow> alert \<Rightarrow> cleaning \<Rightarrow> cleaning \<times> bool" where
  "clearAlertForUnmonitoredConnection w a c =
     (case get_unmonitored w c of
        (c1, Inl _) \<Rightarrow> (c1, False)
      | ((e1, sn1), Inr unmonitored) \<Rightarrow>
          (case map_of unmonitored (ConnectionID a) of
             None \<Rightarrow> ((e1, sn1), False)
           | Some connectionName \<Rightarrow>
               ((close_with_reason w a unmonitoredClearDescriptionPrefix
                   (unmonitoredClearDescription connectionName (Description a)) e1, sn1), True)))"

definition retireDatabaseScopedAlert :: "world \<Rightarrow> alert \<Rightarrow> string \<Rightarrow> engine \<Rightarrow> engine" where
  "retireDatabaseScopedAlert w a metric e =
     close_with_reason w a databaseScopedClearDescriptionPrefix
       (databaseScopedClearDescription metric (Description a)) e"

section \<open>Metrics that went quiet\<close>

datatype absentMetricVerdict =
    AbsentMetricClear | AbsentMetricNotAbsenceDriven | AbsentMetricNoProbe | AbsentMetricNoWindow
  | AbsentMetricProbeNotReporting

definition entry_for :: "int \<Rightarrow> string \<Rightarrow> probe_staleness list \<Rightarrow> probe_staleness option" where
  "entry_for connID probe = find (\<lambda>entry. ps_connection_id entry = connID \<and> ps_probe_name entry = probe)"

definition classifyAbsentMetric ::
  "bool \<Rightarrow> string \<Rightarrow> int \<Rightarrow> int \<Rightarrow> probe_staleness list \<Rightarrow> int \<Rightarrow> absentMetricVerdict" where
  "classifyAbsentMetric clearsWhenAbsent probe window connID entries age =
     (if \<not> clearsWhenAbsent then AbsentMetricNotAbsenceDriven
      else if probe = '''' then AbsentMetricNoProbe
      else if window \<le> 0 then AbsentMetricNoWindow
      else case entry_for connID probe entries of
        None \<Rightarrow> AbsentMetricProbeNotReporting
      | Some entry \<Rightarrow>
          if \<not> ps_is_available entry then AbsentMetricProbeNotReporting
          else if ps_since_collected entry + age \<le> window then AbsentMetricClear
          else AbsentMetricProbeNotReporting)"

text \<open>The zero time, when no entry matches, is year 1.\<close>

definition zero_time :: int where
  "zero_time = - 62135596800000000000"

definition probeLastCollected :: "probe_staleness list \<Rightarrow> int \<Rightarrow> string \<Rightarrow> int" where
  "probeLastCollected entries connID probe =
     (case entry_for connID probe entries of None \<Rightarrow> zero_time | Some entry \<Rightarrow> ps_last_collected entry)"

definition resolveAbsentMetric :: "world \<Rightarrow> alert \<Rightarrow> string \<Rightarrow> cleaning \<Rightarrow> cleaning" where
  "resolveAbsentMetric w a metric c =
     (let clears = MetricClearsWhenAbsent w metric;
          probe = MetricProbeName w metric;
          window = MetricAbsenceWindow w metric in
      case (if clears \<and> probe \<noteq> '''' \<and> 0 < window then get_staleness w c else (c, Inr [])) of
        (c1, Inl _) \<Rightarrow> c1
      | (c1, Inr entries) \<Rightarrow>
          (case classifyAbsentMetric clears probe window (ConnectionID a) entries (snapshot_age w c1) of
             AbsentMetricClear \<Rightarrow>
               map_prod (recordResolvedSample w a (probeLastCollected entries (ConnectionID a) probe)) id c1
           | _ \<Rightarrow> c1))"

section \<open>Staleness alerts\<close>

definition unavailableProbeDescriptionPrefix :: string where
  "unavailableProbeDescriptionPrefix = ''Collection has stopped: ''"

definition unavailableProbeDescription :: "probe_staleness \<Rightarrow> string \<Rightarrow> string" where
  "unavailableProbeDescription entry reason =
     unavailableProbeDescriptionPrefix @ ''the '' @ ps_probe_name entry @ '' probe on ''
     @ ps_connection_name entry @ '' is no longer available ('' @ reason
     @ ''). Metrics from this probe are neither arriving nor being evaluated, so conditions it reports on cannot be seen. This alert stays active until the probe collects again, or until the probe or connection is disabled.''"

definition is_held :: "string \<Rightarrow> bool" where
  "is_held description \<longleftrightarrow>
     take (length unavailableProbeDescriptionPrefix) description = unavailableProbeDescriptionPrefix"

text \<open>Writing a description when it has changed; the alert in memory follows the write.\<close>

definition set_description :: "world \<Rightarrow> alert \<Rightarrow> string \<Rightarrow> engine \<Rightarrow> engine \<times> alert" where
  "set_description w a description e =
     (if description = Description a then (e, a)
      else case UpdateAlertDescription w (ID a) description e of
        (e1, Inl _) \<Rightarrow> (e1, a)
      | (e1, Inr _) \<Rightarrow> (e1, a\<lparr>Description := description\<rparr>))"

definition holdStalenessAlertForUnavailableProbe :: "world \<Rightarrow> alert \<Rightarrow> probe_staleness \<Rightarrow> engine \<Rightarrow> engine \<times> alert" where
  "holdStalenessAlertForUnavailableProbe w a entry =
     set_description w a (unavailableProbeDescription entry (unavailableProbeReason entry))"

definition restoreStalenessAlertDescription ::
  "world \<Rightarrow> alert \<Rightarrow> string \<Rightarrow> string \<Rightarrow> int \<Rightarrow> float64 \<Rightarrow> float64 \<Rightarrow> engine \<Rightarrow> engine \<times> alert" where
  "restoreStalenessAlertDescription w a probeName connectionName interval ratio threshold e =
     (if \<not> is_held (Description a) then (e, a)
      else let ratio = (case MetricValue a of None \<Rightarrow> ratio | Some v \<Rightarrow> v) in
        set_description w a (stalenessAlertDescription probeName connectionName
          (stalenessMinutes interval ratio) (stalenessMinutes interval threshold)) e)"

definition restoreHeldDescriptionBeforeClear :: "world \<Rightarrow> alert \<Rightarrow> string \<Rightarrow> float64 \<Rightarrow> engine \<Rightarrow> engine \<times> alert" where
  "restoreHeldDescriptionBeforeClear w a probe threshold e =
     (if \<not> is_held (Description a) then (e, a)
      else case GetProbeStalenessContext w (ConnectionID a) probe e of
        (e1, Inl _) \<Rightarrow> (e1, a)
      | (e1, Inr None) \<Rightarrow> (e1, a)
      | (e1, Inr (Some (connectionName, interval))) \<Rightarrow>
          restoreStalenessAlertDescription w a probe connectionName interval (Fin 0) threshold e1)"

definition checkStalenessAlertResolved ::
  "world \<Rightarrow> alert \<Rightarrow> string \<Rightarrow> string \<Rightarrow> float64 \<Rightarrow> cleaning \<Rightarrow> cleaning" where
  "checkStalenessAlertResolved w a probe operator threshold c =
     (case get_staleness w c of
        (c1, Inl _) \<Rightarrow> c1
      | ((e1, sn1), Inr entries) \<Rightarrow>
          (case entry_for (ConnectionID a) probe entries of
             Some entry \<Rightarrow>
               if \<not> ps_is_available entry
               then (fst (holdStalenessAlertForUnavailableProbe w a entry e1), sn1)
               else let ratio = currentStalenessRatio entry (snapshot_age w (e1, sn1)) in
                 (case restoreStalenessAlertDescription w a (ps_probe_name entry) (ps_connection_name entry)
                         (ps_collection_interval entry) ratio threshold e1 of
                    (e2, a2) \<Rightarrow>
                      (if \<not> checkThreshold ratio operator threshold then clearResolvedAlert w a2 e2 else e2, sn1))
           | None \<Rightarrow>
               (case restoreHeldDescriptionBeforeClear w a probe threshold e1 of
                  (e2, a2) \<Rightarrow> (clearResolvedAlert w a2 e2, sn1))))"

definition checkProbeUnavailableAlertResolved :: "world \<Rightarrow> alert \<Rightarrow> string \<Rightarrow> cleaning \<Rightarrow> cleaning" where
  "checkProbeUnavailableAlertResolved w a probe c =
     (case get_staleness w c of
        (c1, Inl _) \<Rightarrow> c1
      | ((e1, sn1), Inr entries) \<Rightarrow>
          (case entry_for (ConnectionID a) probe entries of
             Some entry \<Rightarrow> if \<not> ps_is_available entry then (e1, sn1) else (clearResolvedAlert w a e1, sn1)
           | None \<Rightarrow> (clearResolvedAlert w a e1, sn1)))"

section \<open>The check of one alert\<close>

definition matches_alert :: "alert \<Rightarrow> metric_value \<Rightarrow> bool" where
  "matches_alert a mv \<longleftrightarrow> mv_connection_id mv = ConnectionID a
     \<and> (case DatabaseName a of None \<Rightarrow> True | Some n \<Rightarrow> mv_database_name mv = Some n)"

definition check_metric_alert :: "world \<Rightarrow> alert \<Rightarrow> string \<Rightarrow> string \<Rightarrow> float64 \<Rightarrow> cleaning \<Rightarrow> cleaning" where
  "check_metric_alert w a metric operator threshold c = (case c of (e, sn) \<Rightarrow>
     (case GetLatestMetricValues w metric e of
        (e1, Inl err) \<Rightarrow>
          if err = ErrNoMetricData then resolveAbsentMetric w a metric (e1, sn) else (e1, sn)
      | (e1, Inr values) \<Rightarrow>
          (case find (matches_alert a) values of
             None \<Rightarrow> resolveAbsentMetric w a metric (e1, sn)
           | Some mv \<Rightarrow>
               if checkThreshold (mv_value mv) operator threshold
               then (recordViolatingSample a (mv_collected_at mv) e1, sn)
               else (recordResolvedSample w a (mv_collected_at mv) e1, sn))))"

definition checkAlertResolved :: "world \<Rightarrow> alert \<Rightarrow> int list option \<Rightarrow> cleaning \<Rightarrow> cleaning" where
  "checkAlertResolved w a withExtension c =
     (case (MetricName a, ThresholdValue a, Operator a) of
        (Some metric, Some threshold, Some operator) \<Rightarrow>
          (case ProbeName a of
             Some probe \<Rightarrow>
               if metric = probeUnavailableMetricName
               then checkProbeUnavailableAlertResolved w a probe c
               else checkStalenessAlertResolved w a probe operator threshold c
           | None \<Rightarrow>
               if DatabaseName a \<noteq> None \<and> MetricIsServerWide w metric
               then map_prod (retireDatabaseScopedAlert w a metric) id c
               else if (case withExtension of None \<Rightarrow> False | Some ids \<Rightarrow> ConnectionID a \<notin> set ids) then c
               else check_metric_alert w a metric operator threshold c)
      | _ \<Rightarrow> c)"

section \<open>The pass\<close>

text \<open>Which connections each rule may be evaluated on; one lookup per rule and per extension.\<close>

record gate_state =
  gt_gates :: "(int, int list option) gomap"
  gt_extensions :: "(string, int list option) gomap"

definition resolve_gate :: "world \<Rightarrow> alert \<Rightarrow> gate_state \<times> engine \<Rightarrow> gate_state \<times> engine" where
  "resolve_gate w a g = (case g of (gs, e) \<Rightarrow>
     (case RuleID a of
        None \<Rightarrow> (gs, e)
      | Some ruleID \<Rightarrow>
          if AlertType a \<noteq> ''threshold'' \<or> map_of (gt_gates gs) ruleID \<noteq> None then (gs, e)
          else let gs1 = gs\<lparr>gt_gates := AList.update ruleID None (gt_gates gs)\<rparr> in
            (case GetAlertRuleByID w ruleID e of
               (e1, Inl _) \<Rightarrow> (gs1, e1)
             | (e1, Inr rule) \<Rightarrow>
                 (case ru_required_extension rule of
                    None \<Rightarrow> (gs1, e1)
                  | Some ext \<Rightarrow>
                      if ext = '''' then (gs1, e1)
                      else (case map_of (gt_extensions gs1) ext of
                          Some ids \<Rightarrow> (gs1\<lparr>gt_gates := AList.update ruleID ids (gt_gates gs1)\<rparr>, e1)
                        | None \<Rightarrow>
                            (case connectionsWithRequiredExtension w rule e1 of
                               (e2, ids) \<Rightarrow>
                                 (gs1\<lparr>gt_extensions := AList.update ext ids (gt_extensions gs1),
                                      gt_gates := AList.update ruleID ids (gt_gates gs1)\<rparr>, e2)))))))"

definition resolveExtensionGates :: "world \<Rightarrow> alert list \<Rightarrow> engine \<Rightarrow> (int, int list option) gomap \<times> engine" where
  "resolveExtensionGates w as e =
     map_prod gt_gates id (fold (resolve_gate w) as (\<lparr>gt_gates = [], gt_extensions = []\<rparr>, e))"

definition clean_alert :: "world \<Rightarrow> (int, int list option) gomap \<Rightarrow> alert \<Rightarrow> cleaning \<Rightarrow> cleaning" where
  "clean_alert w gates a c =
     (if IsSystem a then c
      else case clearAlertForUnmonitoredConnection w a c of
        (c1, True) \<Rightarrow> c1
      | (c1, False) \<Rightarrow>
          (case RuleID a of
             None \<Rightarrow> c1
           | Some ruleID \<Rightarrow>
               if AlertType a = ''threshold'' then checkAlertResolved w a (gm_get None gates ruleID) c1
               else c1))"

text \<open>The flag is false when the pass was cancelled.\<close>

fun clean_alerts ::
  "world \<Rightarrow> (int, int list option) gomap \<Rightarrow> alert list \<Rightarrow> cleaning \<Rightarrow> cleaning \<times> bool" where
  "clean_alerts w gates [] c = (c, True)"
| "clean_alerts w gates (a # as) c =
     (if w_cancelled w (en_step (fst c)) then (c, False)
      else clean_alerts w gates as (clean_alert w gates a c))"

definition cleanResolvedAlerts :: "world \<Rightarrow> engine \<Rightarrow> engine" where
  "cleanResolvedAlerts w e =
     (case GetActiveAlerts w e of
        (e1, Inl _) \<Rightarrow> e1
      | (e1, Inr as) \<Rightarrow>
          (case resolveExtensionGates w as e1 of
             (gates, e2) \<Rightarrow>
               (case clean_alerts w gates as (e2, new_snapshots) of
                  ((e3, sn3), False) \<Rightarrow> e3
                | ((e3, sn3), True) \<Rightarrow>
                    e3\<lparr>en_clear := retain (\<lambda>i. i \<in> set (map ID as)) (en_clear e3)\<rparr>)))"

end
