(* ===== verification/Threshold_Moves.thy ===== *)
theory Threshold_Moves
  imports Threshold_Engine
begin

text \<open>
  What the evaluator does to the world, as a step relation. A move is one statement, one call
  on the trigger counts, one submitted notification, or the three statements by which an alert
  is raised; it carries what the code has established when it makes the move. Every pass is a
  sequence of such moves (\<open>evaluateThresholds_runs\<close>), so a property of the evaluator is proved
  by rule induction over them, whatever the others do between two statements.
\<close>

named_theorems move_intros "moves and their composition"

section \<open>Statements\<close>

definition tick :: "world \<Rightarrow> engine \<Rightarrow> engine" where
  "tick w e = e\<lparr>en_db := w_others w (en_step e) (en_db e), en_step := en_step e + 1\<rparr>"

definition write_db :: "world \<Rightarrow> (alert_db \<Rightarrow> alert_db) \<Rightarrow> engine \<Rightarrow> engine" where
  "write_db w f e = e\<lparr>en_db := f (w_others w (en_step e) (en_db e)), en_step := en_step e + 1\<rparr>"

lemma tick_simps [simp]:
  "en_db (tick w e) = w_others w (en_step e) (en_db e)" "en_trigger (tick w e) = en_trigger e"
  "en_clear (tick w e) = en_clear e" "en_submitted (tick w e) = en_submitted e"
  "en_step (tick w e) = en_step e + 1"
  by (simp_all add: tick_def)

lemma write_db_simps [simp]:
  "en_db (write_db w f e) = f (w_others w (en_step e) (en_db e))"
  "en_trigger (write_db w f e) = en_trigger e" "en_clear (write_db w f e) = en_clear e"
  "en_submitted (write_db w f e) = en_submitted e" "en_step (write_db w f e) = en_step e + 1"
  by (simp_all add: write_db_def)

lemma run_query_cases:
  assumes "run_query w q f e = (e1, r)"
  obtains "w_outcome w (en_step e) q = Failed" "e1 = tick w e" "r = Inl DatabaseError"
  | "w_outcome w (en_step e) q \<noteq> Failed" "e1 = write_db w (\<lambda>d. fst (f d)) e"
      "r = (if w_outcome w (en_step e) q = Done
            then Inr (snd (f (w_others w (en_step e) (en_db e)))) else Inl DatabaseError)"
  using assms
  by (cases "w_outcome w (en_step e) q")
     (auto simp: run_query_def Let_def tick_def write_db_def split: prod.splits)

lemma read_query_eq:
  "read_query w q f e =
     (tick w e, if w_outcome w (en_step e) q = Done
                then Inr (f (w_others w (en_step e) (en_db e))) else Inl DatabaseError)"
  by (cases "w_outcome w (en_step e) q") (auto simp: read_query_def run_query_def Let_def tick_def)

lemma exec_query_eq:
  "exec_query w q f e =
     (if w_outcome w (en_step e) q = Failed then tick w e else write_db w f e,
      if w_outcome w (en_step e) q = Done then Inr () else Inl DatabaseError)"
  by (cases "w_outcome w (en_step e) q")
     (auto simp: exec_query_def run_query_def Let_def tick_def write_db_def)

section \<open>What a move rests on\<close>

definition metric_key :: "int \<Rightarrow> int \<Rightarrow> string option \<Rightarrow> thresholdSampleKey" where
  "metric_key ruleID connID dbName =
     \<lparr>key_rule_id = ruleID, key_connection_id = connID,
      key_database_name = (case dbName of None \<Rightarrow> '''' | Some n \<Rightarrow> n), key_has_database = (dbName \<noteq> None)\<rparr>"

lemma newThresholdSampleKey_eq:
  "newThresholdSampleKey ruleID mv = metric_key ruleID (mv_connection_id mv) (mv_database_name mv)"
  by (simp add: newThresholdSampleKey_def metric_key_def split: option.splits)

lemma metric_key_inject:
  "metric_key r c n = metric_key r' c' n' \<longleftrightarrow> r = r' \<and> c = c' \<and> n = n'"
  by (cases n; cases n') (auto simp: metric_key_def)

text \<open>At some statement no blackout was seen for the connection and database, or the query failed.\<close>

definition not_blacked_out :: "world \<Rightarrow> int \<Rightarrow> string option \<Rightarrow> bool" where
  "not_blacked_out w connID dbName \<longleftrightarrow> (\<exists>n d. w_outcome w n QBlackout \<noteq> Done
     \<or> (\<forall>b \<in> set (blackouts (w_others w n d)).
          \<not> blackout_applies (w_others w n d) (w_now w n) (Some connID) dbName b))"

text \<open>The threshold settings in force for a rule on a connection and database.\<close>

definition in_force :: "world \<Rightarrow> int \<Rightarrow> int \<Rightarrow> string option \<Rightarrow> effective_threshold \<Rightarrow> bool" where
  "in_force w ruleID connID dbName eff \<longleftrightarrow>
     (\<exists>e. snd (GetEffectiveThreshold w ruleID connID dbName e) = eff)"

text \<open>The values a rule is evaluated on.\<close>

definition read_value :: "world \<Rightarrow> alert_rule \<Rightarrow> metric_value \<Rightarrow> bool" where
  "read_value w rule mv \<longleftrightarrow> (\<exists>cfg n row. w_registry w (ru_metric_name rule) = Some cfg
     \<and> w_outcome w n (QLatest (ru_metric_name rule)) = Done \<and> row \<in> set (w_latest w n (ru_metric_name rule)) \<and> mv = scan_row (mc_scan cfg) row)"

text \<open>A judgement is right: the sample was read, and compared with the threshold in force.\<close>

definition judged :: "world \<Rightarrow> thresholdSampleKey \<Rightarrow> int \<Rightarrow> bool \<Rightarrow> bool" where
  "judged w k t holds \<longleftrightarrow> (\<exists>rule mv threshold operator severity.
     read_value w rule mv \<and> k = newThresholdSampleKey (ru_id rule) mv \<and> t = mv_collected_at mv
     \<and> in_force w (ru_id rule) (mv_connection_id mv) (mv_database_name mv) (threshold, operator, severity, True)
     \<and> holds = checkThreshold (mv_value mv) operator threshold
     \<and> not_blacked_out w (mv_connection_id mv) (mv_database_name mv))"

definition open_for :: "int \<Rightarrow> int \<Rightarrow> alert_row \<Rightarrow> bool" where
  "open_for ruleID connID r \<longleftrightarrow> al_rule_id r = Some ruleID \<and> al_connection_id r = Some connID \<and> is_open r"

definition add_alert :: "world \<Rightarrow> alert \<Rightarrow> alert_db \<Rightarrow> alert_db" where
  "add_alert w a d = d\<lparr>alerts := alerts d @ [alert_to_row w a (alerts_seq d + 1)], alerts_seq := alerts_seq d + 1\<rparr>"

text \<open>
  What holds when an alert is raised, at the statement that looks for an open one. For a
  metric: the lookup failed or found none, and the condition has held for \<open>trigger_count\<close>
  samples. For a probe: the lookup found none.
\<close>

definition metric_raise :: "world \<Rightarrow> engine \<Rightarrow> alert \<Rightarrow> int \<Rightarrow> bool" where
  "metric_raise w e a ruleID \<longleftrightarrow> ProbeName a = None
     \<and> thresholdTriggerCount w \<le> streak_count (metric_key ruleID (ConnectionID a) (DatabaseName a)) (en_trigger e)
     \<and> (w_outcome w (en_step e) QOpenAlert = Done \<longrightarrow>
          \<not> (\<exists>r \<in> set (alerts (en_db (tick w e))).
               open_for ruleID (ConnectionID a) r \<and> al_database_name r = DatabaseName a))"

definition probe_raise :: "world \<Rightarrow> engine \<Rightarrow> alert \<Rightarrow> int \<Rightarrow> bool" where
  "probe_raise w e a ruleID \<longleftrightarrow> DatabaseName a = None
     \<and> (\<exists>p. ProbeName a = Some p
          \<and> \<not> (\<exists>r \<in> set (alerts (en_db (tick w e))).
                 open_for ruleID (ConnectionID a) r \<and> al_probe_name r = Some p))"

text \<open>An update that keeps what an alert is about and its status.\<close>

definition row_scope :: "alert_row \<Rightarrow> int option \<times> int option \<times> string option \<times> string option" where
  "row_scope r = (al_rule_id r, al_connection_id r, al_database_name r, al_probe_name r)"

definition keeps_scope :: "(alert_row \<Rightarrow> alert_row) \<Rightarrow> bool" where
  "keeps_scope f \<longleftrightarrow> (\<forall>r. al_id (f r) = al_id r \<and> row_scope (f r) = row_scope r)"

definition keeps_status :: "(alert_row \<Rightarrow> alert_row) \<Rightarrow> bool" where
  "keeps_status f \<longleftrightarrow> (\<forall>r. al_status (f r) = al_status r \<and> al_cleared_at (f r) = al_cleared_at r)"

section \<open>Moves\<close>

inductive move :: "world \<Rightarrow> engine \<Rightarrow> thresholdSampleKey streak_op list \<Rightarrow> engine \<Rightarrow> bool" for w where
  m_read: "move w e [] (tick w e)"
| m_update: "keeps_scope f \<Longrightarrow> keeps_status f \<Longrightarrow>
    move w e [] (write_db w (update_alert i f) e)"
| m_reactivate: "move w e [] (write_db w (reactivate i now) e)"
| m_raise: "RuleID a = Some ruleID \<Longrightarrow> Status a = ''active'' \<Longrightarrow>
    metric_raise w e a ruleID \<or> probe_raise w e a ruleID \<Longrightarrow>
    not_blacked_out w (ConnectionID a) (DatabaseName a) \<Longrightarrow>
    move w e [] (write_db w (add_alert w a) (tick w (tick w e)))"
| m_notify: "not_blacked_out w (ConnectionID a) (DatabaseName a) \<Longrightarrow>
    move w e [] (e\<lparr>en_submitted := en_submitted e @ [(a, AlertFire)]\<rparr>)"
| m_start: "move w e [StartPass] (e\<lparr>en_trigger := startPass (en_trigger e)\<rparr>)"
| m_judge: "judged w k t holds \<Longrightarrow>
    move w e [Observe k t holds] (e\<lparr>en_trigger := fst (observe k t holds (en_trigger e))\<rparr>)"
| m_sweep: "move w e [Sweep keep] (e\<lparr>en_trigger := sweep keep (en_trigger e)\<rparr>)"

inductive trace :: "world \<Rightarrow> engine \<Rightarrow> thresholdSampleKey streak_op list \<Rightarrow> engine \<Rightarrow> bool" for w where
  tr_refl: "trace w e [] e"
| tr_step: "trace w e ops e1 \<Longrightarrow> move w e1 op e2 \<Longrightarrow> trace w e (ops @ op) e2"

lemma trace_trans: "trace w e1 ops' e2 \<Longrightarrow> trace w e ops e1 \<Longrightarrow> trace w e (ops @ ops') e2"
proof (induction rule: trace.induct)
  case (tr_step e ops e1 op e2)
  then show ?case using trace.tr_step by (metis append.assoc)
qed simp

lemma trace_move: "move w e op e1 \<Longrightarrow> trace w e op e1"
  using trace.tr_step[OF trace.tr_refl] by fastforce

text \<open>Sequences of moves inside a pass.\<close>

definition runs :: "world \<Rightarrow> engine \<Rightarrow> engine \<Rightarrow> bool" where
  "runs w e e' \<longleftrightarrow> (\<exists>ops. trace w e ops e' \<and> passes ops = 0)"

lemma runs_refl [simp, move_intros]: "runs w e e"
  unfolding runs_def using trace.tr_refl passes_snoc(1) by blast

lemma runs_trans: "runs w e e1 \<Longrightarrow> runs w e1 e2 \<Longrightarrow> runs w e e2"
proof -
  assume "runs w e e1" and "runs w e1 e2"
  then obtain ops ops' where "trace w e ops e1" "trace w e1 ops' e2" "passes ops = 0" "passes ops' = 0"
    unfolding runs_def by blast
  then have "trace w e (ops @ ops') e2" and "passes (ops @ ops') = 0"
    using trace_trans by (blast, simp add: passes_append)
  then show ?thesis unfolding runs_def by blast
qed

lemma runs_move: "runs w e e1 \<Longrightarrow> move w e1 ops e2 \<Longrightarrow> passes ops = 0 \<Longrightarrow> runs w e e2"
  using runs_trans trace_move runs_def by blast

lemma runs_tick [move_intros]: "runs w e e1 \<Longrightarrow> runs w e (tick w e1)"
  by (rule runs_move[OF _ m_read]) simp_all

lemma runs_update [move_intros]:
  "keeps_scope f \<Longrightarrow> keeps_status f \<Longrightarrow> runs w e e1 \<Longrightarrow>
     runs w e (write_db w (update_alert i f) e1)"
  by (rule runs_move[OF _ m_update]) simp_all

lemma runs_reactivate [move_intros]: "runs w e e1 \<Longrightarrow> runs w e (write_db w (reactivate i now) e1)"
  by (rule runs_move[OF _ m_reactivate]) simp_all

lemma runs_notify [move_intros]:
  "not_blacked_out w (ConnectionID a) (DatabaseName a) \<Longrightarrow> runs w e e1 \<Longrightarrow>
     runs w e (queueNotification w a AlertFire e1)"
  by (auto simp: queueNotification_def intro: runs_move[OF _ m_notify])

section \<open>Every pass is a sequence of moves\<close>

lemma keeps_scope_values [move_intros]:
  "keeps_scope (\<lambda>r. r\<lparr>al_metric_value := a, al_last_updated := b, al_threshold_value := c,
     al_operator := d, al_severity := s, al_ai_analysis := g r, al_ai_analysis_metric_value := h r\<rparr>)"
  by (simp add: keeps_scope_def row_scope_def)

lemma keeps_status_values [move_intros]:
  "keeps_status (\<lambda>r. r\<lparr>al_metric_value := a, al_last_updated := b, al_threshold_value := c,
     al_operator := d, al_severity := s, al_ai_analysis := g r, al_ai_analysis_metric_value := h r\<rparr>)"
  by (simp add: keeps_status_def)

lemma runs_UpdateAlertValues [move_intros]:
  "runs w e e1 \<Longrightarrow> runs w e (fst (UpdateAlertValues w i value threshold operator severity e1))"
  by (auto simp: UpdateAlertValues_def exec_query_eq Let_def intro!: move_intros)

lemma runs_ReactivateAlert [move_intros]: "runs w e e1 \<Longrightarrow> runs w e (fst (ReactivateAlert w i e1))"
  by (auto simp: ReactivateAlert_def read_query_eq exec_query_eq Let_def intro!: move_intros)

lemma read_fst: "read_query w q f e = (e1, r) \<Longrightarrow> e1 = tick w e"
  by (simp add: read_query_eq)

text \<open>The reads made of several statements.\<close>

lemma GetEffectiveThreshold_runs: "runs w e e1 \<Longrightarrow> runs w e (fst (GetEffectiveThreshold w r c n e1))"
  by (auto simp: GetEffectiveThreshold_def read_query_eq single_row_def split: option.splits
      intro!: move_intros)

lemma GetLatestMetricValues_runs: "runs w e e1 \<Longrightarrow> runs w e (fst (GetLatestMetricValues w m e1))"
  by (auto simp: GetLatestMetricValues_def dropDeletedConnections_def read_query_eq split: option.splits
      intro!: move_intros)

lemma connectionsWithRequiredExtension_runs:
  "runs w e e1 \<Longrightarrow> runs w e (fst (connectionsWithRequiredExtension w rule e1))"
  by (auto simp: connectionsWithRequiredExtension_def GetConnectionsWithExtension_def read_query_eq
      split: option.splits intro!: move_intros)

lemma blackout_active_eq:
  "blackout_active w c n e = (tick w e, w_outcome w (en_step e) QBlackout = Done \<and>
     (\<exists>b \<in> set (blackouts (en_db (tick w e))). blackout_applies (en_db (tick w e)) (w_now w (en_step e)) (Some c) n b))"
  by (auto simp: blackout_active_def IsBlackoutActive_def read_query_eq go_simps)

lemma blackout_inactive: "blackout_active w c n e = (e1, False) \<Longrightarrow> not_blacked_out w c n"
  unfolding blackout_active_eq not_blacked_out_def by auto

lemma create_and_notify_cases:
  "create_and_notify w a e \<in> {tick w e, write_db w (add_alert w a) e,
     queueNotification w (a\<lparr>ID := alerts_seq (en_db (tick w e)) + 1\<rparr>) AlertFire (write_db w (add_alert w a) e)}"
  by (cases "w_outcome w (en_step e) XCreate")
     (auto simp: create_and_notify_def CreateAlert_def run_query_def Let_def tick_def write_db_def add_alert_def)

text \<open>Raising an alert: the lookup and the cooldown, then the insertion.\<close>

lemma runs_create [move_intros]:
  assumes "RuleID a = Some ruleID" and "Status a = ''active''"
    and "metric_raise w e1 a ruleID \<or> probe_raise w e1 a ruleID"
    and "not_blacked_out w (ConnectionID a) (DatabaseName a)" and "runs w e e1"
  shows "runs w e (create_and_notify w a (tick w (tick w e1)))"
proof -
  let ?e2 = "tick w (tick w e1)"
  have "runs w e (write_db w (add_alert w a) ?e2)"
    by (rule runs_move[OF assms(5) m_raise[OF assms(1-4)]]) simp
  moreover from this have "runs w e (queueNotification w (a\<lparr>ID := i\<rparr>) AlertFire (write_db w (add_alert w a) ?e2))" for i
    using assms(4) by (auto intro!: runs_notify)
  moreover have "runs w e (tick w ?e2)" using assms(5) by (intro runs_tick)
  ultimately show ?thesis using create_and_notify_cases[of w a ?e2] by auto
qed

lemma update_open_alert_runs:
  assumes "not_blacked_out w (ConnectionID existing) (DatabaseName existing)" and "runs w e e1"
  shows "runs w e (update_open_alert w v existing e1)"
proof -
  obtain e2 r2 where U: "UpdateAlertValues w (ID existing) (tv_value v) (tv_threshold v) (tv_operator v)
      (tv_severity v) e1 = (e2, r2)" by force
  have e2: "runs w e e2"
    using runs_UpdateAlertValues[OF assms(2)] U by (metis fst_conv)
  obtain e3 r3 where R: "ReactivateAlert w (ID existing) e2 = (e3, r3)" by force
  have "runs w e e3" using runs_ReactivateAlert[OF e2] R by (metis fst_conv)
  with e2 U R assms(1) show ?thesis
    by (auto simp: update_open_alert_def Let_def split: sum.splits intro!: runs_notify)
qed

lemma triggerThresholdAlert_runs:
  assumes "sustained \<Longrightarrow> thresholdTriggerCount w \<le> streak_count (metric_key (ru_id rule) connID dbName) (en_trigger e1)"
    and "not_blacked_out w connID dbName" and "runs w e e1"
  shows "runs w e (triggerThresholdAlert w rule v connID dbName objectName sustained e1)"
proof -
  define a where "a = threshold_alert rule v connID dbName objectName (w_now w (en_step (tick w (tick w e1))))"
  define r where "r = snd (GetActiveThresholdAlert w (ru_id rule) connID dbName e1)"
  have get: "GetActiveThresholdAlert w (ru_id rule) connID dbName e1 = (tick w e1, r)"
    by (simp add: r_def GetActiveThresholdAlert_def read_query_eq)
  have a: "RuleID a = Some (ru_id rule)" "Status a = ''active''" "ProbeName a = None"
    "ConnectionID a = connID" "DatabaseName a = dbName"
    by (simp_all add: a_def threshold_alert_def)
  show ?thesis
  proof (cases "\<exists>existing. r = Inr (Some existing)")
    case True
    then obtain existing where ex: "r = Inr (Some existing)" by blast
    then have "ConnectionID existing = connID" "DatabaseName existing = dbName"
      by (auto simp: r_def GetActiveThresholdAlert_def read_query_eq connectionIDFromNullable_def
          find_Some_iff split: if_splits)
    with ex get assms(2,3) show ?thesis
      by (simp add: triggerThresholdAlert_def update_open_alert_runs runs_tick)
  next
    case False
    have none: "w_outcome w (en_step e1) QOpenAlert = Done \<Longrightarrow>
      \<not> (\<exists>r \<in> set (alerts (en_db (tick w e1))). open_for (ru_id rule) connID r \<and> al_database_name r = dbName)"
      using False by (auto simp: r_def GetActiveThresholdAlert_def read_query_eq open_for_def find_None_iff)
    have raise: "raise_alert w rule v connID dbName objectName (tick w e1) =
        tick w (tick w e1) \<or> raise_alert w rule v connID dbName objectName (tick w e1) =
        create_and_notify w a (tick w (tick w e1))"
      by (auto simp: raise_alert_def GetRecentlyClearedAlert_def read_query_eq a_def
          split: bool.splits)
    have created: "runs w e (create_and_notify w a (tick w (tick w e1)))" if sustained
    proof (rule runs_create)
      show "metric_raise w e1 a (ru_id rule) \<or> probe_raise w e1 a (ru_id rule)"
        using none assms(1)[OF that] a unfolding metric_raise_def by simp
    qed (use a assms(2,3) in simp_all)
    have "triggerThresholdAlert w rule v connID dbName objectName sustained e1 =
        (if sustained then raise_alert w rule v connID dbName objectName (tick w e1) else tick w e1)"
      using False by (simp add: triggerThresholdAlert_def get split: sum.splits option.splits)
    with raise created show ?thesis using assms(3) by (auto intro!: runs_tick)
  qed
qed

lemma raise_probe_alert_runs:
  assumes "not_blacked_out w (ps_connection_id entry) None" and "runs w e e1"
  shows "runs w e (raise_probe_alert w rule entry value eff title description now e1)"
proof -
  obtain threshold operator severity en where eff: "eff = (threshold, operator, severity, en)"
    by (cases eff)
  define a where "a = probe_alert rule entry value threshold operator severity title description now"
  define r where "r = snd (GetActiveThresholdAlertForProbe w (ru_id rule) (ps_connection_id entry)
      (ps_probe_name entry) e1)"
  have get: "GetActiveThresholdAlertForProbe w (ru_id rule) (ps_connection_id entry)
      (ps_probe_name entry) e1 = (tick w e1, r)"
    by (simp add: r_def GetActiveThresholdAlertForProbe_def read_query_eq)
  have a: "RuleID a = Some (ru_id rule)" "Status a = ''active''" "ProbeName a = Some (ps_probe_name entry)"
    "ConnectionID a = ps_connection_id entry" "DatabaseName a = None"
    by (simp_all add: a_def probe_alert_def)
  consider err where "r = Inl err" | existing where "r = Inr (Some existing)" | "r = Inr None"
    by (cases r; cases "projr r") auto
  then show ?thesis
  proof cases
    case 3
    then have "probe_raise w e1 a (ru_id rule)"
      using a by (auto simp: probe_raise_def r_def GetActiveThresholdAlertForProbe_def read_query_eq
          open_for_def find_None_iff split: if_splits)
    then have "runs w e (create_and_notify w a (tick w (tick w e1)))"
      using a assms by (intro runs_create[where ruleID = "ru_id rule"]) auto
    with 3 assms(2) show ?thesis
      by (auto simp: raise_probe_alert_def get eff GetRecentlyClearedAlertForProbe_def read_query_eq
          a_def[symmetric] split: bool.splits intro: runs_tick)
  qed (use assms(2) in \<open>auto simp: raise_probe_alert_def get eff intro!: move_intros\<close>)
qed

lemma runs_judge:
  assumes "judged w k t holds" and "runs w e e1"
  shows "runs w e (fst (observe_trigger k t holds e1))"
proof -
  have eq: "fst (observe_trigger k t holds e1) = e1\<lparr>en_trigger := fst (observe k t holds (en_trigger e1))\<rparr>"
    by (simp add: observe_trigger_def split: prod.splits)
  show ?thesis unfolding eq
    by (rule runs_move[OF assms(2) m_judge[OF assms(1)]]) (simp add: passes_def)
qed

lemma GetLatestMetricValues_read:
  assumes "GetLatestMetricValues w (ru_metric_name rule) e = (e1, Inr values)" and "mv \<in> set values"
  shows "read_value w rule mv"
  using assms
  by (fastforce simp: GetLatestMetricValues_def dropDeletedConnections_def read_query_eq read_value_def
      split: option.splits if_splits)

lemma judge_value_runs:
  assumes "read_value w rule mv" and "not_blacked_out w (mv_connection_id mv) (mv_database_name mv)"
    and "in_force w (ru_id rule) (mv_connection_id mv) (mv_database_name mv) eff" and "runs w e e1"
  shows "runs w e (judge_value w rule (thresholdTriggerCount w) mv eff e1)"
proof -
  obtain threshold operator severity en where eff: "eff = (threshold, operator, severity, en)"
    by (cases eff)
  let ?k = "newThresholdSampleKey (ru_id rule) mv" and ?t = "mv_collected_at mv"
    and ?h = "checkThreshold (mv_value mv) operator threshold"
  define o2 where "o2 = observe_trigger ?k ?t ?h e1"
  have o2: "observe_trigger ?k ?t ?h e1 = (fst o2, snd o2)" by (simp add: o2_def)
  have count: "snd o2 = streak_count ?k (en_trigger (fst o2))"
    by (simp add: o2_def observe_trigger_def split: prod.splits)
       (metis fst_conv observe_returns_count snd_conv)
  show ?thesis
  proof (cases en)
    case True
    then have "judged w ?k ?t ?h"
      using assms(1-3) eff unfolding judged_def
      by (intro exI[of _ rule] exI[of _ mv] exI[of _ threshold] exI[of _ operator] exI[of _ severity]) simp
    then have runs2: "runs w e (fst o2)"
      unfolding o2_def using assms(4) by (rule runs_judge)
    show ?thesis
      using True runs2 assms(2) count o2
      by (simp add: judge_value_def eff Let_def newThresholdSampleKey_eq triggerThresholdAlert_runs)
  next
    case False
    with assms(4) show ?thesis by (simp add: judge_value_def eff)
  qed
qed

lemma evaluate_value_runs:
  assumes "read_value w rule mv" and "runs w e e1"
  shows "runs w e (evaluate_value w rule gate (thresholdTriggerCount w) mv e1)"
proof -
  obtain active where B: "blackout_active w (mv_connection_id mv) (mv_database_name mv) e1 = (tick w e1, active)"
    by (simp add: blackout_active_eq)
  define g where "g = GetEffectiveThreshold w (ru_id rule) (mv_connection_id mv) (mv_database_name mv) (tick w e1)"
  have "runs w e (fst g)"
    unfolding g_def using assms(2) by (intro GetEffectiveThreshold_runs runs_tick)
  moreover have "in_force w (ru_id rule) (mv_connection_id mv) (mv_database_name mv) (snd g)"
    unfolding in_force_def g_def by blast
  ultimately have "runs w e (judge_value w rule (thresholdTriggerCount w) mv (snd g) (fst g))" if "\<not> active"
    using judge_value_runs[OF assms(1)] blackout_inactive[of w _ _ e1] B that by simp
  with B assms(2) show ?thesis
    by (cases active) (auto simp: evaluate_value_def g_def[symmetric] case_prod_beta intro: runs_tick
        split: option.splits)
qed

lemma while_live_runs:
  assumes "\<And>x e1. x \<in> set xs \<Longrightarrow> runs w e e1 \<Longrightarrow> runs w e (f x e1)" and "runs w e e1"
  shows "runs w e (while_live w f xs e1)"
  using assms by (induction xs arbitrary: e1) auto

lemma evaluateRuleForAllConnections_runs:
  assumes "runs w e e1"
  shows "runs w e (fst (evaluateRuleForAllConnections w rule e1))"
proof -
  obtain e2 r where L: "GetLatestMetricValues w (ru_metric_name rule) e1 = (e2, r)" by force
  have e2: "runs w e e2" using GetLatestMetricValues_runs[OF assms, of "ru_metric_name rule"] L by simp
  obtain e3 gate where C: "connectionsWithRequiredExtension w rule e2 = (e3, gate)" by force
  have e3: "runs w e e3" using connectionsWithRequiredExtension_runs[OF e2, of rule] C by simp
  show ?thesis
  proof (cases r)
    case (Inr vs)
    have "runs w e (while_live w (evaluate_value w rule gate (thresholdTriggerCount w)) vs e3)"
      using e3 L Inr by (intro while_live_runs evaluate_value_runs) (auto dest: GetLatestMetricValues_read)
    with L C Inr show ?thesis by (simp add: evaluateRuleForAllConnections_def)
  qed (use L e2 in \<open>simp add: evaluateRuleForAllConnections_def\<close>)
qed

lemma evaluate_rules_runs:
  "runs w e e1 \<Longrightarrow> runs w e (fst (evaluate_rules w rules unread e1))"
proof (induction rules arbitrary: unread e1)
  case (Cons rule rules)
  obtain e2 ok where "evaluateRuleForAllConnections w rule e1 = (e2, ok)" by force
  moreover from this have "runs w e e2"
    using evaluateRuleForAllConnections_runs[OF Cons.prems, of rule] by simp
  ultimately show ?case using Cons by simp
qed simp

lemma probe_entry_runs:
  assumes "runs w e e1"
  shows "runs w e (evaluate_stale_entry w rule entry e1)"
    and "runs w e (evaluateProbeUnavailableEntry w rule entry e1)"
proof -
  obtain active where B: "blackout_active w (ps_connection_id entry) None e1 = (tick w e1, active)"
    by (simp add: blackout_active_eq)
  define g where "g = GetEffectiveThreshold w (ru_id rule) (ps_connection_id entry) None (tick w e1)"
  have g: "runs w e (fst g)"
    unfolding g_def using assms by (intro GetEffectiveThreshold_runs runs_tick)
  have raise: "runs w e (raise_probe_alert w rule entry v eff title description now (fst g))"
    if "\<not> active" for v eff title description now
    using raise_probe_alert_runs[OF _ g] blackout_inactive[of w _ _ e1] B that by simp
  show "runs w e (evaluate_stale_entry w rule entry e1)"
    using B g raise assms
    by (cases active) (auto simp: evaluate_stale_entry_def g_def[symmetric] split: prod.splits intro!: runs_tick)
  show "runs w e (evaluateProbeUnavailableEntry w rule entry e1)"
    using B g raise assms
    by (cases active)
       (auto simp: evaluateProbeUnavailableEntry_def g_def[symmetric] split: prod.splits intro!: runs_tick)
qed

lemma GetAlertRuleByName_tick: "GetAlertRuleByName w name e = (e1, r) \<Longrightarrow> e1 = tick w e"
  by (auto simp: GetAlertRuleByName_def read_query_eq)

lemma evaluateProbeScopedRules_runs:
  assumes "runs w e e1"
  shows "runs w e (evaluateProbeScopedRules w e1)"
proof -
  have stale: "runs w e (evaluateMetricStaleness w entries e1)" if "runs w e e1" for entries e1
    using that
    by (auto simp: evaluateMetricStaleness_def split: prod.splits sum.splits
        dest!: GetAlertRuleByName_tick intro!: while_live_runs probe_entry_runs runs_tick)
  have unavailable: "runs w e (evaluateProbeUnavailable w entries e1)" if "runs w e e1" for entries e1
    using that
    by (auto simp: evaluateProbeUnavailable_def split: prod.splits sum.splits
        dest!: GetAlertRuleByName_tick intro!: while_live_runs probe_entry_runs runs_tick)
  show ?thesis
    using assms
    by (auto simp: evaluateProbeScopedRules_def GetProbeStalenessByConnection_def read_query_eq
        intro!: unavailable stale runs_tick)
qed

text \<open>A pass starts at most one pass of the counters.\<close>

theorem evaluateThresholds_trace:
  obtains ops where "trace w e ops (evaluateThresholds w e)" and "passes ops \<le> 1"
proof -
  obtain r where R: "GetEnabledAlertRules w e = (tick w e, r)"
    by (simp add: GetEnabledAlertRules_def read_query_eq)
  have t0: "trace w e [] (tick w e)" by (rule trace_move[OF m_read])
  show thesis
  proof (cases r)
    case (Inl err)
    with R t0 that show thesis by (simp add: evaluateThresholds_def)
  next
    case (Inr rules)
    define e1 where "e1 = (tick w e)\<lparr>en_trigger := startPass (en_trigger e)\<rparr>"
    have t1: "trace w e [StartPass] e1"
      using trace.tr_step[OF t0 m_start[of w "tick w e"]] by (simp add: e1_def)
    obtain e2 res where E: "evaluate_rules w rules [] e1 = (e2, res)" by force
    obtain ops2 where t2: "trace w e1 ops2 e2" "passes ops2 = 0"
      using evaluate_rules_runs[OF runs_refl, of w e1 rules "[]"] E by (auto simp: runs_def)
    have t12: "trace w e ([StartPass] @ ops2) e2" by (rule trace_trans[OF t2(1) t1])
    show thesis
    proof (cases res)
      case None
      with R Inr E t12 t2(2) that show thesis
        by (simp add: evaluateThresholds_def e1_def[symmetric] passes_def)
    next
      case (Some unread)
      define keep where "keep = Some (\<lambda>key :: thresholdSampleKey. key_rule_id key \<in> set unread)"
      define e3 where "e3 = e2\<lparr>en_trigger := sweep keep (en_trigger e2)\<rparr>"
      have t3: "trace w e (([StartPass] @ ops2) @ [Sweep keep]) e3"
        unfolding e3_def by (rule trace.tr_step[OF t12 m_sweep])
      obtain ops4 where t4: "trace w e3 ops4 (evaluateProbeScopedRules w e3)" "passes ops4 = 0"
        using evaluateProbeScopedRules_runs[OF runs_refl, of w e3] by (auto simp: runs_def)
      have "trace w e ((([StartPass] @ ops2) @ [Sweep keep]) @ ops4) (evaluateThresholds w e)"
        using trace_trans[OF t4(1) t3] R Inr E Some
        by (simp add: evaluateThresholds_def e1_def[symmetric] e3_def keep_def)
      moreover have "passes ((([StartPass] @ ops2) @ [Sweep keep]) @ ops4) \<le> 1"
        using t2(2) t4(2) by (simp add: passes_append) (simp add: passes_def)
      ultimately show thesis using that by blast
    qed
  qed
qed

end
