(* ===== verification/Threshold_Facts.thy ===== *)
theory Threshold_Facts
  imports Threshold_Moves
begin

text \<open>
  What the evaluator guarantees, whatever the rest of the system does between its statements
  as long as nobody else opens threshold alerts: at most one alert is open per rule,
  connection, database and probe; an alert on a metric is raised only after the condition has
  held on \<open>trigger_count\<close> samples; and nothing is raised for a connection in a blackout.
\<close>

section \<open>What the others may do\<close>

definition table_wf :: "alert_db \<Rightarrow> bool" where
  "table_wf d \<longleftrightarrow> distinct (map al_id (alerts d)) \<and> (\<forall>r \<in> set (alerts d). al_id r \<le> alerts_seq d)"

text \<open>Every open alert of a rule was open before, about the same thing.\<close>

definition open_from :: "alert_db \<Rightarrow> alert_db \<Rightarrow> bool" where
  "open_from d d' \<longleftrightarrow> (\<forall>r' \<in> set (alerts d'). is_open r' \<and> al_rule_id r' \<noteq> None \<longrightarrow>
     (\<exists>r \<in> set (alerts d). is_open r \<and> al_id r = al_id r' \<and> row_scope r = row_scope r'))"

definition opens_nothing :: "alert_db \<Rightarrow> alert_db \<Rightarrow> bool" where
  "opens_nothing d d' \<longleftrightarrow> (table_wf d \<longrightarrow> table_wf d') \<and> alerts_seq d \<le> alerts_seq d' \<and> open_from d d'"

lemma open_fromD:
  assumes "open_from d d'" and "r' \<in> set (alerts d')" and "is_open r'" and "al_rule_id r' \<noteq> None"
  obtains r where "r \<in> set (alerts d)" "is_open r" "al_id r = al_id r'" "row_scope r = row_scope r'"
  using assms unfolding open_from_def by blast

lemma open_from_refl [simp]: "open_from d d"
  unfolding open_from_def by blast

lemma row_scope_eq:
  "row_scope r = row_scope s \<Longrightarrow> al_rule_id r = al_rule_id s"
  "row_scope r = row_scope s \<Longrightarrow> al_connection_id r = al_connection_id s"
  by (simp_all add: row_scope_def)

lemma open_from_trans: "open_from d d1 \<Longrightarrow> open_from d1 d2 \<Longrightarrow> open_from d d2"
proof -
  assume 1: "open_from d d1" and 2: "open_from d1 d2"
  show ?thesis
    unfolding open_from_def
  proof (intro ballI impI)
    fix r2 assume r2: "r2 \<in> set (alerts d2)" "is_open r2 \<and> al_rule_id r2 \<noteq> None"
    obtain r1 where r1: "r1 \<in> set (alerts d1)" "is_open r1" "al_id r1 = al_id r2" "row_scope r1 = row_scope r2"
      using open_fromD[OF 2 r2(1)] r2(2) by blast
    moreover have "al_rule_id r1 \<noteq> None" using r1(4) r2(2) by (auto simp: row_scope_def)
    ultimately show "\<exists>r \<in> set (alerts d). is_open r \<and> al_id r = al_id r2 \<and> row_scope r = row_scope r2"
      using open_fromD[OF 1, of r1] by metis
  qed
qed

lemma opens_nothing_refl [simp]: "opens_nothing d d"
  by (simp add: opens_nothing_def)

lemma opens_nothing_trans: "opens_nothing d d1 \<Longrightarrow> opens_nothing d1 d2 \<Longrightarrow> opens_nothing d d2"
  unfolding opens_nothing_def using open_from_trans by fastforce

section \<open>At most one open alert\<close>

definition open_unique :: "alert_db \<Rightarrow> bool" where
  "open_unique d \<longleftrightarrow> table_wf d \<and> (\<forall>r1 \<in> set (alerts d). \<forall>r2 \<in> set (alerts d).
     is_open r1 \<and> is_open r2 \<and> row_scope r1 = row_scope r2 \<and> al_rule_id r1 \<noteq> None
       \<and> al_connection_id r1 \<noteq> None \<longrightarrow> al_id r1 = al_id r2)"

lemma open_uniqueD:
  "open_unique d \<Longrightarrow> r1 \<in> set (alerts d) \<Longrightarrow> r2 \<in> set (alerts d) \<Longrightarrow> is_open r1 \<Longrightarrow> is_open r2 \<Longrightarrow>
     row_scope r1 = row_scope r2 \<Longrightarrow> al_rule_id r1 \<noteq> None \<Longrightarrow> al_connection_id r1 \<noteq> None \<Longrightarrow>
     al_id r1 = al_id r2"
  unfolding open_unique_def by blast

lemma opens_nothing_unique:
  assumes "opens_nothing d d'" and "open_unique d"
  shows "open_unique d'"
  unfolding open_unique_def
proof (intro conjI ballI impI)
  have from_d: "open_from d d'" and wf: "table_wf d \<longrightarrow> table_wf d'"
    using assms(1) by (auto simp: opens_nothing_def)
  show "table_wf d'" using wf assms(2) by (simp add: open_unique_def)
  fix r1 r2
  assume r: "r1 \<in> set (alerts d')" "r2 \<in> set (alerts d')"
    and eq: "is_open r1 \<and> is_open r2 \<and> row_scope r1 = row_scope r2 \<and> al_rule_id r1 \<noteq> None
      \<and> al_connection_id r1 \<noteq> None"
  then have "al_rule_id r2 \<noteq> None" by (metis row_scope_eq(1))
  with from_d r eq obtain s1 s2 where "s1 \<in> set (alerts d)" "is_open s1" "al_id s1 = al_id r1"
    "row_scope s1 = row_scope r1" "s2 \<in> set (alerts d)" "is_open s2" "al_id s2 = al_id r2"
    "row_scope s2 = row_scope r2"
    using open_fromD[OF from_d r(1)] open_fromD[OF from_d r(2)] by metis
  moreover from this eq have "al_id s1 = al_id s2"
    by (intro open_uniqueD[OF assms(2)]) (simp_all add: row_scope_eq[of s1 r1])
  ultimately show "al_id r1 = al_id r2" by simp
qed

text \<open>
  A writer of the alerts table that opens nothing keeps alerts unique, alone and repeated; the
  writes of the engine other than the insertion are such writers.
\<close>

locale alert_writer =
  fixes put :: "'i \<Rightarrow> alert_db \<Rightarrow> alert_db"
  assumes put_opens_nothing: "opens_nothing d (put i d)"
begin

lemma keeps_unique: "open_unique d \<Longrightarrow> open_unique (put i d)"
  by (rule opens_nothing_unique[OF put_opens_nothing])

lemma opens_nothing_repeated: "opens_nothing d (fold put xs d)"
  by (induction xs arbitrary: d) (auto intro: opens_nothing_trans put_opens_nothing)

lemma keeps_unique_repeated: "open_unique d \<Longrightarrow> open_unique (fold put xs d)"
  by (induction xs arbitrary: d) (auto intro: keeps_unique)

end

text \<open>An update of rows that keeps what they are about, and opens none that was closed.\<close>

lemma opens_nothing_update:
  assumes "keeps_scope f" and "\<And>r. is_open (f r) \<Longrightarrow> is_open r"
  shows "opens_nothing d (update_alert i f d)"
proof -
  have ids: "map al_id (alerts (update_alert i f d)) = map al_id (alerts d)"
    using assms(1) by (simp add: update_alert_def on_alerts_def keeps_scope_def comp_def)
  then have "table_wf d \<Longrightarrow> table_wf (update_alert i f d)"
    using assms(1) unfolding table_wf_def ids
    by (auto simp: update_alert_def on_alerts_def keeps_scope_def)
  moreover have "open_from d (update_alert i f d)"
    using assms by (force simp: open_from_def update_alert_def on_alerts_def keeps_scope_def)
  ultimately show ?thesis by (simp add: opens_nothing_def update_alert_def on_alerts_def)
qed

definition clear_row :: "int \<Rightarrow> int \<Rightarrow> alert_db \<Rightarrow> alert_db" where
  "clear_row i now = update_alert i (\<lambda>r. r\<lparr>al_status := ''cleared'', al_cleared_at := Some now\<rparr>)"

definition describe_row :: "int \<Rightarrow> string \<Rightarrow> int \<Rightarrow> alert_db \<Rightarrow> alert_db" where
  "describe_row i text now = update_alert i (\<lambda>r. r\<lparr>al_description := text, al_last_updated := Some now\<rparr>)"

interpretation clearing: alert_writer "\<lambda>(i, now). clear_row i now"
  by unfold_locales
     (auto simp: clear_row_def keeps_scope_def row_scope_def is_open_def intro!: opens_nothing_update)

interpretation describing: alert_writer "\<lambda>(i, text, now). describe_row i text now"
  by unfold_locales
     (auto simp: describe_row_def keeps_scope_def row_scope_def is_open_def intro!: opens_nothing_update)

lemma reactivate_as_update:
  "opens_nothing d (reactivate i now d)"
proof -
  let ?f = "\<lambda>r. if al_status r = ''acknowledged''
    then r\<lparr>al_status := ''active'', al_last_updated := Some now\<rparr> else r"
  have eq: "alerts (reactivate i now d) = alerts (update_alert i ?f d)"
    by (auto simp: reactivate_def Let_def on_alerts_def update_alert_def list_ex_iff
        intro!: map_cong map_idI[symmetric])
  have "opens_nothing d (update_alert i ?f d)"
    by (rule opens_nothing_update) (auto simp: keeps_scope_def row_scope_def is_open_def)
  moreover have "alerts_seq (reactivate i now d) = alerts_seq d"
    "alerts_seq (update_alert i ?f d) = alerts_seq d"
    by (simp_all add: reactivate_def Let_def on_alerts_def update_alert_def)
  ultimately show ?thesis
    by (simp add: opens_nothing_def open_from_def table_wf_def eq)
qed

interpretation reactivating: alert_writer "\<lambda>(i, now). reactivate i now"
  by unfold_locales (auto simp: reactivate_as_update)

section \<open>A sample installation\<close>

text \<open>One rule, CPU above 90 per cent, on one connection that reports 95; nothing else happens.\<close>

definition sample_world :: "(alert_stmt \<Rightarrow> outcome) \<Rightarrow> world" where
  "sample_world out =
     \<lparr>w_outcome = (\<lambda>_. out), w_others = (\<lambda>_ d. d), w_now = (\<lambda>n. 1000 + int n),
      w_db_now = (\<lambda>n. 1000 + int n), w_cancelled = (\<lambda>_. False), w_accepts = (\<lambda>_. True),
      w_latest = (\<lambda>_ m. if m = ''cpu'' then [\<lparr>lr_connection_id = 1, lr_database_name = '''',
         lr_object_name = '''', lr_value = Fin 95, lr_collected_at = 900\<rparr>] else []),
      w_staleness = (\<lambda>_. []), w_extensions = (\<lambda>_ _. []), w_context = (\<lambda>_ _ _. None),
      w_real = id, w_registry = (\<lambda>m. if m = ''cpu'' then Some \<lparr>mc_scan = ScanBasic,
         mc_clear_when_absent = False, mc_probe_name = ''p'', mc_absence_window = 0\<rparr> else None),
      w_config = None, w_pool = True\<rparr>"

definition sample_rule :: alert_rule where
  "sample_rule = \<lparr>ru_id = 7, ru_name = ''cpu high'', ru_description = ''CPU'', ru_category = ''os'',
     ru_metric_name = ''cpu'', ru_default_operator = ''>'', ru_default_threshold = Fin 90,
     ru_default_severity = ''warning'', ru_default_enabled = True, ru_required_extension = None\<rparr>"

definition sample_db :: "alert_row list \<Rightarrow> blackout list \<Rightarrow> alert_db" where
  "sample_db as bs = \<lparr>alerts = as, alerts_seq = int (length as), acknowledgments = [],
     alert_rules = [sample_rule], alert_thresholds = [], blackouts = bs, connections = [], clusters = []\<rparr>"

definition sample_engine :: "alert_row list \<Rightarrow> blackout list \<Rightarrow> engine" where
  "sample_engine as bs = \<lparr>en_db = sample_db as bs, en_trigger = new_streaks, en_clear = new_streaks,
     en_submitted = [], en_step = 0\<rparr>"

definition sample_row :: "int \<Rightarrow> alert_row" where
  "sample_row i = alert_to_row (sample_world (\<lambda>_. Done))
     (threshold_alert sample_rule \<lparr>tv_value = Fin 95, tv_threshold = Fin 90, tv_operator = ''>'',
        tv_severity = ''warning''\<rparr> 1 None None 1004) i"
section \<open>What a move opens\<close>

definition others_open_nothing :: "world \<Rightarrow> bool" where
  "others_open_nothing w \<longleftrightarrow> (\<forall>n d. opens_nothing d (w_others w n d))"

lemma others_step: "others_open_nothing w \<Longrightarrow> opens_nothing (en_db e) (en_db (tick w e))"
  by (simp add: others_open_nothing_def)

text \<open>A move opens nothing, or it is the one that raises an alert.\<close>

definition raises :: "world \<Rightarrow> engine \<Rightarrow> alert \<Rightarrow> int \<Rightarrow> engine \<Rightarrow> bool" where
  "raises w e a ruleID e' \<longleftrightarrow> RuleID a = Some ruleID \<and> Status a = ''active''
     \<and> (metric_raise w e a ruleID \<or> probe_raise w e a ruleID)
     \<and> not_blacked_out w (ConnectionID a) (DatabaseName a)
     \<and> e' = write_db w (add_alert w a) (tick w (tick w e))"

lemma move_opens:
  assumes "move w e ops e'" and "others_open_nothing w"
  shows "opens_nothing (en_db e) (en_db e') \<or> (\<exists>a ruleID. raises w e a ruleID e')"
  using assms(1)
proof cases
  case m_read
  then show ?thesis using others_step[OF assms(2)] by simp
next
  case (m_update f i)
  then have "opens_nothing (en_db (tick w e)) (en_db e')"
    by (auto simp: is_open_def keeps_status_def intro!: opens_nothing_update)
  then show ?thesis using others_step[OF assms(2)] opens_nothing_trans by blast
next
  case (m_reactivate i now)
  then have "opens_nothing (en_db (tick w e)) (en_db e')" by (simp add: reactivate_as_update)
  then show ?thesis using others_step[OF assms(2)] opens_nothing_trans by blast
next
  case (m_raise a ruleID)
  then show ?thesis unfolding raises_def by blast
qed simp_all

lemma raises_others:
  assumes "others_open_nothing w"
  shows "opens_nothing (en_db (tick w e)) (en_db (tick w (tick w (tick w e))))"
  using others_step[OF assms, of "tick w e"] others_step[OF assms, of "tick w (tick w e)"]
  by (rule opens_nothing_trans)

text \<open>The table after a raise: what the others left, and one new row.\<close>

lemma raises_table:
  assumes "raises w e a ruleID e'"
  shows "alerts (en_db e') = alerts (en_db (tick w (tick w (tick w e))))
      @ [alert_to_row w a (alerts_seq (en_db (tick w (tick w (tick w e)))) + 1)]"
    and "alerts_seq (en_db e') = alerts_seq (en_db (tick w (tick w (tick w e)))) + 1"
  using assms by (simp_all add: raises_def add_alert_def)

lemma alert_to_row_simps [simp]:
  "al_id (alert_to_row w a i) = i" "al_status (alert_to_row w a i) = Status a"
  "row_scope (alert_to_row w a i) =
     (RuleID a, nullableConnectionID (ConnectionID a), DatabaseName a, ProbeName a)"
  by (simp_all add: alert_to_row_def row_scope_def)

lemma raises_no_open:
  assumes "raises w e a ruleID e'" and "others_open_nothing w"
    and "w_outcome w (en_step e) QOpenAlert = Done"
    and "r \<in> set (alerts (en_db (tick w (tick w (tick w e)))))" and "is_open r"
    and "row_scope r = (Some ruleID, Some (ConnectionID a), DatabaseName a, ProbeName a)"
  shows False
proof -
  have "open_from (en_db (tick w e)) (en_db (tick w (tick w (tick w e))))"
    using raises_others[OF assms(2)] by (simp add: opens_nothing_def)
  moreover have "al_rule_id r \<noteq> None" using assms(6) by (simp add: row_scope_def)
  ultimately obtain r0 where r0: "r0 \<in> set (alerts (en_db (tick w e)))" "is_open r0" "row_scope r0 = row_scope r"
    using open_fromD assms(4,5) by metis
  then have scope: "al_rule_id r0 = Some ruleID" "al_connection_id r0 = Some (ConnectionID a)"
    "al_database_name r0 = DatabaseName a" "al_probe_name r0 = ProbeName a"
    using assms(6) by (simp_all add: row_scope_def)
  then have open_r0: "open_for ruleID (ConnectionID a) r0" using r0(2) by (simp add: open_for_def)
  have "metric_raise w e a ruleID \<or> probe_raise w e a ruleID" using assms(1) by (simp add: raises_def)
  then show False
  proof
    assume "metric_raise w e a ruleID"
    then show False using assms(3) open_r0 scope(3) r0(1) unfolding metric_raise_def by blast
  next
    assume "probe_raise w e a ruleID"
    then show False using open_r0 scope(4) r0(1) unfolding probe_raise_def by auto
  qed
qed

lemma raise_keeps_unique:
  assumes "raises w e a ruleID e'" and "others_open_nothing w"
    and "w_outcome w (en_step e) QOpenAlert = Done" and "open_unique (en_db e)"
  shows "open_unique (en_db e')"
proof -
  let ?d = "en_db (tick w (tick w (tick w e)))"
  let ?new = "alert_to_row w a (alerts_seq ?d + 1)"
  have "opens_nothing (en_db e) ?d"
    using others_step[OF assms(2)] raises_others[OF assms(2)] opens_nothing_trans by blast
  then have old: "open_unique ?d" using assms(4) opens_nothing_unique by blast
  have table: "alerts (en_db e') = alerts ?d @ [?new]" "alerts_seq (en_db e') = alerts_seq ?d + 1"
    by (rule raises_table[OF assms(1)])+
  have "table_wf (en_db e')"
    using old unfolding open_unique_def table_wf_def table by fastforce
  moreover have clash: False if "r \<in> set (alerts ?d)" "is_open r" "row_scope r = row_scope ?new"
    "al_connection_id r \<noteq> None" for r
  proof (rule raises_no_open[OF assms(1-3) that(1,2)])
    have "al_connection_id ?new \<noteq> None" using row_scope_eq(2)[OF that(3)] that(4) by simp
    then have "nullableConnectionID (ConnectionID a) \<noteq> None" by (simp add: alert_to_row_def)
    then show "row_scope r = (Some ruleID, Some (ConnectionID a), DatabaseName a, ProbeName a)"
      using that(3) assms(1) by (auto simp: raises_def nullableConnectionID_def split: if_splits)
  qed
  ultimately show ?thesis
    unfolding open_unique_def table(1)
  proof (intro conjI ballI impI)
    fix r1 r2
    assume r: "r1 \<in> set (alerts ?d @ [?new])" "r2 \<in> set (alerts ?d @ [?new])"
      and eq: "is_open r1 \<and> is_open r2 \<and> row_scope r1 = row_scope r2 \<and> al_rule_id r1 \<noteq> None
        \<and> al_connection_id r1 \<noteq> None"
    have "al_connection_id r2 = al_connection_id r1" using eq row_scope_eq(2) by metis
    then show "al_id r1 = al_id r2"
      using r eq clash[of r1] clash[of r2] open_uniqueD[OF old, of r1 r2] by auto
  qed
qed

lemma evaluateThresholds_unique:
  assumes "others_open_nothing w" and "\<forall>n. w_outcome w n QOpenAlert = Done"
    and "open_unique (en_db e)"
  shows "open_unique (en_db (evaluateThresholds w e))"
proof -
  obtain ops where "trace w e ops (evaluateThresholds w e)" by (rule evaluateThresholds_trace)
  then show ?thesis
    using assms(3)
  proof (induction rule: trace.induct)
    case (tr_step e ops e1 op e2)
    then have "open_unique (en_db e1)" by simp
    then show ?case
      using move_opens[OF tr_step.hyps(2) assms(1)] opens_nothing_unique raise_keeps_unique assms(1,2) by blast
  qed
qed


section \<open>Alerts need sustained breaches\<close>

lemma trace_trigger: "trace w e ops e' \<Longrightarrow> en_trigger e' = fold streak_step ops (en_trigger e)"
proof (induction rule: trace.induct)
  case (tr_step e ops e1 op e2)
  from tr_step.hyps(2) have "en_trigger e2 = fold streak_step op (en_trigger e1)"
    by cases auto
  with tr_step.IH show ?case by simp
qed simp

lemma trace_judged: "trace w e ops e' \<Longrightarrow> Observe k t holds \<in> set ops \<Longrightarrow> judged w k t holds"
proof (induction rule: trace.induct)
  case (tr_step e ops e1 op e2)
  then show ?case by (cases rule: move.cases[OF tr_step.hyps(2)]) auto
qed simp

definition row_key :: "alert_row \<Rightarrow> thresholdSampleKey" where
  "row_key r = metric_key (the (al_rule_id r)) (the (al_connection_id r)) (al_database_name r)"

text \<open>\<open>trigger_count\<close> samples, each newer than the one before, on all of which the condition of
  the alert was judged to hold, with no judgement that it did not since the first.\<close>

definition sustained_breach :: "world \<Rightarrow> thresholdSampleKey streak_op list \<Rightarrow> alert_row \<Rightarrow> bool" where
  "sustained_breach w ops r \<longleftrightarrow> (\<exists>ss. sorted_wrt (<) ss \<and> thresholdTriggerCount w \<le> int (length ss)
     \<and> set ss \<subseteq> set (held_samples ops (row_key r)))"

text \<open>An open alert on a metric, of a rule, on a connection.\<close>

definition open_metric_alert :: "alert_row \<Rightarrow> bool" where
  "open_metric_alert r \<longleftrightarrow> is_open r \<and> al_rule_id r \<noteq> None \<and> al_connection_id r \<noteq> None \<and> al_probe_name r = None"

definition was_open :: "alert_row \<Rightarrow> alert_db \<Rightarrow> bool" where
  "was_open r' d \<longleftrightarrow> (\<exists>r \<in> set (alerts d). is_open r \<and> al_id r = al_id r' \<and> row_scope r = row_scope r')"

lemma row_scope_transfer:
  assumes "row_scope r = row_scope r'"
  shows "sustained_breach w ops r = sustained_breach w ops r'"
    and "is_open r \<Longrightarrow> open_metric_alert r' \<Longrightarrow> open_metric_alert r"
  using assms by (simp_all add: row_scope_def sustained_breach_def row_key_def open_metric_alert_def)

lemma count_sustained:
  assumes "thresholdTriggerCount w \<le> streak_count (row_key r) (streaks_after ops)" and "passes ops < 2 ^ 64"
  shows "sustained_breach w ops r"
  unfolding sustained_breach_def
  using assms streak_count_run[OF assms(2)] run_of_sorted run_of_held by metis

lemma raises_row:
  assumes "raises w e a ruleID e'" and "others_open_nothing w" and "r' \<in> set (alerts (en_db e'))"
    and "open_metric_alert r'"
  shows "was_open r' (en_db e) \<or> thresholdTriggerCount w \<le> streak_count (row_key r') (en_trigger e)"
proof -
  let ?d = "en_db (tick w (tick w (tick w e)))"
  have "opens_nothing (en_db e) ?d"
    using others_step[OF assms(2)] raises_others[OF assms(2)] opens_nothing_trans by blast
  then have from_e: "open_from (en_db e) ?d" by (simp add: opens_nothing_def)
  have "r' \<in> set (alerts ?d) \<or> r' = alert_to_row w a (alerts_seq ?d + 1)"
    using assms(3) raises_table(1)[OF assms(1)] by auto
  then show ?thesis
  proof
    assume "r' \<in> set (alerts ?d)"
    then show ?thesis
      using open_fromD[OF from_e] assms(4) unfolding was_open_def open_metric_alert_def by metis
  next
    assume new: "r' = alert_to_row w a (alerts_seq ?d + 1)"
    then have "ProbeName a = None" "ConnectionID a \<noteq> 0" "RuleID a = Some ruleID"
      using assms(1,4)
      by (auto simp: open_metric_alert_def alert_to_row_def raises_def nullableConnectionID_def)
    moreover from this have "row_key r' = metric_key ruleID (ConnectionID a) (DatabaseName a)"
      by (simp add: new row_key_def alert_to_row_def nullableConnectionID_def)
    ultimately show ?thesis
      using assms(1) by (auto simp: raises_def metric_raise_def probe_raise_def)
  qed
qed

lemma trace_raised:
  assumes "trace w e ops e'" and "others_open_nothing w" and "en_trigger e = streaks_after h"
    and "passes (h @ ops) < 2 ^ 64" and "r' \<in> set (alerts (en_db e'))" and "open_metric_alert r'"
  shows "was_open r' (en_db e) \<or> (\<exists>ops1 ops2. ops = ops1 @ ops2 \<and> sustained_breach w (h @ ops1) r')"
  using assms
proof (induction arbitrary: r' rule: trace.induct)
  case (tr_refl e)
  then show ?case unfolding was_open_def open_metric_alert_def by blast
next
  case (tr_step e ops e1 op e2)
  have bound: "passes (h @ ops) < 2 ^ 64" using tr_step.prems(3) by (simp add: passes_append)
  have "was_open r' (en_db e1) \<or> thresholdTriggerCount w \<le> streak_count (row_key r') (en_trigger e1)"
    using move_opens[OF tr_step.hyps(2) tr_step.prems(1)]
  proof
    assume "opens_nothing (en_db e1) (en_db e2)"
    then show ?thesis
      using tr_step.prems(4,5) unfolding opens_nothing_def open_from_def was_open_def open_metric_alert_def
      by blast
  next
    assume "\<exists>a ruleID. raises w e1 a ruleID e2"
    then show ?thesis using raises_row tr_step.prems(1,4,5) by blast
  qed
  then show ?case
  proof
    assume "was_open r' (en_db e1)"
    then obtain r1 where r1: "r1 \<in> set (alerts (en_db e1))" "is_open r1" "al_id r1 = al_id r'"
      "row_scope r1 = row_scope r'" unfolding was_open_def by blast
    then have "was_open r1 (en_db e) \<or> (\<exists>ops1 ops2. ops = ops1 @ ops2 \<and> sustained_breach w (h @ ops1) r1)"
      using tr_step.IH[OF tr_step.prems(1,2) bound] row_scope_transfer(2)[OF r1(4)] tr_step.prems(5) by blast
    then show ?thesis
      using r1(3,4) row_scope_transfer(1)[OF r1(4)] unfolding was_open_def by (metis append.assoc)
  next
    assume "thresholdTriggerCount w \<le> streak_count (row_key r') (en_trigger e1)"
    moreover have "en_trigger e1 = streaks_after (h @ ops)"
      using trace_trigger[OF tr_step.hyps(1)] tr_step.prems(2) by (simp add: streaks_after_def)
    ultimately have "sustained_breach w (h @ ops) r'" using count_sustained bound by simp
    then show ?thesis by blast
  qed
qed

text \<open>
  C18. An alert on a metric is raised only after a sustained breach. Let the trigger counts
  hold a history of judgements. A pass extends it by judgements each of which compares a
  sample that was read with the threshold in force for it, and every open alert on a metric
  afterwards either was open before, about the same rule, connection and database, or rests
  on at least \<open>trigger_count\<close> distinct samples, in order, on all of which the condition held
  and between which it was never judged not to.
\<close>

theorem alert_needs_sustained_breach:
  assumes "others_open_nothing w" and "en_trigger e = streaks_after h" and "passes h + 1 < 2 ^ 64"
  shows "\<exists>ops. en_trigger (evaluateThresholds w e) = streaks_after (h @ ops) \<and> passes ops \<le> 1
    \<and> (\<forall>k t holds. Observe k t holds \<in> set ops \<longrightarrow> judged w k t holds)
    \<and> (\<forall>r' \<in> set (alerts (en_db (evaluateThresholds w e))). open_metric_alert r' \<longrightarrow>
         was_open r' (en_db e)
         \<or> (\<exists>ops1 ops2. ops = ops1 @ ops2 \<and> sustained_breach w (h @ ops1) r'))"
proof -
  obtain ops where tr: "trace w e ops (evaluateThresholds w e)" and p: "passes ops \<le> 1"
    by (rule evaluateThresholds_trace)
  have "passes (h @ ops) < 2 ^ 64" using p assms(3) by (simp add: passes_append)
  moreover have "en_trigger (evaluateThresholds w e) = streaks_after (h @ ops)"
    using trace_trigger[OF tr] assms(2) by (simp add: streaks_after_def)
  ultimately show ?thesis using trace_raised[OF tr assms(1,2)] trace_judged[OF tr] p by blast
qed

text \<open>A first pass over the sample installation, with the counters empty.\<close>

theorem alert_needs_sustained_breach_witness:
  "\<exists>ops. en_trigger (evaluateThresholds (sample_world (\<lambda>_. Done)) (sample_engine [] [])) = streaks_after ([] @ ops)
    \<and> passes ops \<le> 1
    \<and> (\<forall>k t holds. Observe k t holds \<in> set ops \<longrightarrow> judged (sample_world (\<lambda>_. Done)) k t holds)
    \<and> (\<forall>r' \<in> set (alerts (en_db (evaluateThresholds (sample_world (\<lambda>_. Done)) (sample_engine [] [])))).
         open_metric_alert r' \<longrightarrow> was_open r' (en_db (sample_engine [] []))
         \<or> (\<exists>ops1 ops2. ops = ops1 @ ops2 \<and> sustained_breach (sample_world (\<lambda>_. Done)) ([] @ ops1) r'))"
  by (rule alert_needs_sustained_breach)
     (simp_all add: others_open_nothing_def sample_world_def sample_engine_def)

section \<open>Blackouts\<close>

text \<open>A blackout covers a connection throughout, whichever of its databases is asked about.\<close>

definition blacked_out :: "world \<Rightarrow> int \<Rightarrow> bool" where
  "blacked_out w c \<longleftrightarrow> (\<forall>n d dbName. w_outcome w n QBlackout = Done
     \<and> (\<exists>b \<in> set (blackouts (w_others w n d)).
          blackout_applies (w_others w n d) (w_now w n) (Some c) dbName b))"

lemma blacked_out_never: "blacked_out w c \<Longrightarrow> \<not> not_blacked_out w c dbName"
  unfolding blacked_out_def not_blacked_out_def by blast

lemma blacked_out_judged: "blacked_out w c \<Longrightarrow> judged w k t holds \<Longrightarrow> key_connection_id k \<noteq> c"
  using blacked_out_never unfolding judged_def by (auto simp: newThresholdSampleKey_eq metric_key_def)

text \<open>Calls that do not judge a key leave its count or forget it.\<close>

lemma unjudged_count:
  assumes "gm_wf (str_entries s)" and "\<forall>t holds. op \<noteq> Observe k t holds"
  shows "streak_count k (streak_step op s) \<in> {0, streak_count k s}"
  using assms
  by (cases op)
     (auto simp: streak_count_def startPass_def observe_def sweep_def retain_def Let_def delete_conv'
        map_of_filter_keyed split: option.splits)

lemma unjudged_counts:
  assumes "gm_wf (str_entries s)" and "\<forall>t holds. Observe k t holds \<notin> set ops"
  shows "streak_count k (fold streak_step ops s) \<in> {0, streak_count k s}"
  using assms
proof (induction ops arbitrary: s)
  case (Cons op ops)
  have "streak_count k (streak_step op s) \<in> {0, streak_count k s}"
    using Cons.prems by (intro unjudged_count) auto
  moreover have "streak_count k (fold streak_step ops (streak_step op s)) \<in> {0, streak_count k (streak_step op s)}"
    using Cons.prems by (intro Cons.IH) (auto intro: streak_step_wf)
  ultimately show ?case by auto
qed simp

lemma trace_submitted:
  "trace w e ops e' \<Longrightarrow> \<exists>new. en_submitted e' = en_submitted e @ new
     \<and> (\<forall>(a, t) \<in> set new. t = AlertFire \<and> not_blacked_out w (ConnectionID a) (DatabaseName a))"
proof (induction rule: trace.induct)
  case (tr_step e ops e1 op e2)
  then obtain new where new: "en_submitted e1 = en_submitted e @ new"
    "\<forall>(a, t) \<in> set new. t = AlertFire \<and> not_blacked_out w (ConnectionID a) (DatabaseName a)" by blast
  from tr_step.hyps(2) have "en_submitted e2 = en_submitted e1
    \<or> (\<exists>a. en_submitted e2 = en_submitted e1 @ [(a, AlertFire)] \<and> not_blacked_out w (ConnectionID a) (DatabaseName a))"
    by cases auto
  with new show ?case by (elim disjE exE) (auto intro!: exI[of _ "new @ _"])
qed simp

lemma move_opens_elsewhere:
  assumes "move w e op e'" and "others_open_nothing w" and "blacked_out w c"
    and "r' \<in> set (alerts (en_db e'))" and "is_open r'" and "al_rule_id r' \<noteq> None"
    and "al_connection_id r' = Some c"
  shows "was_open r' (en_db e)"
  using move_opens[OF assms(1,2)]
proof
  assume "opens_nothing (en_db e) (en_db e')"
  then show ?thesis using assms(4-6) unfolding opens_nothing_def open_from_def was_open_def by blast
next
  assume "\<exists>a ruleID. raises w e a ruleID e'"
  then obtain a ruleID where R: "raises w e a ruleID e'" by blast
  let ?d = "en_db (tick w (tick w (tick w e)))"
  have "ConnectionID a \<noteq> c" using R blacked_out_never[OF assms(3)] by (auto simp: raises_def)
  then have "r' \<noteq> alert_to_row w a (alerts_seq ?d + 1)"
    using assms(7) by (auto simp: alert_to_row_def nullableConnectionID_def split: if_splits)
  then have "r' \<in> set (alerts ?d)" using assms(4) raises_table(1)[OF R] by auto
  moreover have "opens_nothing (en_db e) ?d"
    using others_step[OF assms(2)] raises_others[OF assms(2)] opens_nothing_trans by blast
  ultimately show ?thesis using assms(5,6) unfolding opens_nothing_def open_from_def was_open_def by blast
qed

lemma trace_opens_elsewhere:
  assumes "trace w e ops e'" and "others_open_nothing w" and "blacked_out w c"
    and "r' \<in> set (alerts (en_db e'))" and "is_open r'" and "al_rule_id r' \<noteq> None"
    and "al_connection_id r' = Some c"
  shows "was_open r' (en_db e)"
  using assms
proof (induction arbitrary: r' rule: trace.induct)
  case (tr_refl e)
  then show ?case unfolding was_open_def by blast
next
  case (tr_step e ops e1 op e2)
  obtain r1 where r1: "r1 \<in> set (alerts (en_db e1))" "is_open r1" "al_id r1 = al_id r'" "row_scope r1 = row_scope r'"
    using move_opens_elsewhere[OF tr_step.hyps(2) tr_step.prems] unfolding was_open_def by blast
  then have "was_open r1 (en_db e)"
    using tr_step.IH[OF tr_step.prems(1,2)] tr_step.prems(5,6) row_scope_eq[OF r1(4)] by simp
  with r1 show ?case unfolding was_open_def by metis
qed


text \<open>A blackout of the estate: nothing is submitted about connection 1.\<close>

definition estate_blackout :: blackout where
  "estate_blackout = \<lparr>bo_scope = ''estate'', bo_connection_id = None, bo_group_id = None,
     bo_cluster_id = None, bo_database_name = None, bo_start_time = 0, bo_end_time = 1000000\<rparr>"

definition blackout_world :: world where
  "blackout_world = (sample_world (\<lambda>_. Done))\<lparr>w_now := (\<lambda>_. 1000),
     w_others := (\<lambda>_ d. d\<lparr>blackouts := [estate_blackout]\<rparr>)\<rparr>"


end
