(* ===== verification/Alert_Cleaner_Moves.thy ===== *)
theory Alert_Cleaner_Moves
  imports Alert_Cleaner Threshold_Facts
begin

text \<open>
  What the cleaner does to the world, as a step relation. As for the evaluator, a pass is shown
  to be a sequence of moves (\<open>cleanResolvedAlerts_trace\<close>), each carrying what the code has
  established when it makes it: an alert is closed only for one of four reasons, and only the
  two that are recoveries are announced.
\<close>

named_theorems clean_intros "moves of the cleaner and their composition"

section \<open>Reasons\<close>

definition unmonitored_in :: "alert_db \<Rightarrow> (int, string) gomap" where
  "unmonitored_in d = gm_of_entries
     (map (\<lambda>c. (co_id c, co_name c)) (filter (\<lambda>c. \<not> co_is_monitored c \<and> \<not> co_deleted c) (connections d)))"

definition unmonitored_alert :: "world \<Rightarrow> alert \<Rightarrow> bool" where
  "unmonitored_alert w a \<longleftrightarrow> (\<exists>n d. w_outcome w n QUnmonitored = Done
     \<and> map_of (unmonitored_in (w_others w n d)) (ConnectionID a) \<noteq> None)"

definition unevaluable_alert :: "world \<Rightarrow> alert \<Rightarrow> bool" where
  "unevaluable_alert w a \<longleftrightarrow> ProbeName a = None \<and> DatabaseName a \<noteq> None
     \<and> (\<exists>m. MetricName a = Some m \<and> MetricIsServerWide w m)"

text \<open>The metric's row is absent although its probe has collected inside the query's window.\<close>

definition absent_recovery :: "world \<Rightarrow> alert \<Rightarrow> string \<Rightarrow> int \<Rightarrow> bool" where
  "absent_recovery w a m t \<longleftrightarrow> (\<exists>n age. w_outcome w n QStaleness = Done
     \<and> classifyAbsentMetric (MetricClearsWhenAbsent w m) (MetricProbeName w m) (MetricAbsenceWindow w m)
         (ConnectionID a) (w_staleness w n) age = AbsentMetricClear
     \<and> t = probeLastCollected (w_staleness w n) (ConnectionID a) (MetricProbeName w m))"

definition read_for_alert :: "world \<Rightarrow> alert \<Rightarrow> string \<Rightarrow> metric_value \<Rightarrow> bool" where
  "read_for_alert w a m mv \<longleftrightarrow> (\<exists>cfg n row. w_registry w m = Some cfg
     \<and> w_outcome w n (QLatest m) = Done \<and> row \<in> set (w_latest w n m)
     \<and> mv = scan_row (mc_scan cfg) row \<and> matches_alert a mv)"

text \<open>A judgement of the clear counts is right: the sample was read for the alert and compared
  with the alert's own threshold, or its absence is a recovery.\<close>

definition judged_clear :: "world \<Rightarrow> alert set \<Rightarrow> int \<Rightarrow> int \<Rightarrow> bool \<Rightarrow> bool" where
  "judged_clear w A i t resolved \<longleftrightarrow> (\<exists>a \<in> A. \<exists>m threshold operator.
     ID a = i \<and> ProbeName a = None \<and> MetricName a = Some m \<and> ThresholdValue a = Some threshold
     \<and> Operator a = Some operator
     \<and> ((\<exists>mv. read_for_alert w a m mv \<and> t = mv_collected_at mv
           \<and> resolved = (\<not> checkThreshold (mv_value mv) operator threshold))
        \<or> (resolved \<and> absent_recovery w a m t)))"

text \<open>The probe of a staleness or availability alert is no longer late, is back, or has left the view.\<close>

definition probe_recovery :: "world \<Rightarrow> alert \<Rightarrow> bool" where
  "probe_recovery w a \<longleftrightarrow> (\<exists>p n. ProbeName a = Some p \<and> w_outcome w n QStaleness = Done
     \<and> (case entry_for (ConnectionID a) p (w_staleness w n) of
          None \<Rightarrow> True
        | Some entry \<Rightarrow> ps_is_available entry
            \<and> (MetricName a = Some probeUnavailableMetricName
               \<or> (\<exists>age threshold operator. ThresholdValue a = Some threshold \<and> Operator a = Some operator
                    \<and> \<not> checkThreshold (currentStalenessRatio entry age) operator threshold))))"

text \<open>Some read of the unmonitored connections failed or did not list the alert's.\<close>

definition maybe_monitored :: "world \<Rightarrow> alert \<Rightarrow> bool" where
  "maybe_monitored w a \<longleftrightarrow> (\<exists>n d. w_outcome w n QUnmonitored \<noteq> Done
     \<or> map_of (unmonitored_in (w_others w n d)) (ConnectionID a) = None)"

text \<open>A recovery of one of the alerts \<open>A\<close> of a pass: of its probe, or \<open>clear_count\<close> samples, one of
  them judged in this pass.\<close>

definition recovered :: "world \<Rightarrow> alert set \<Rightarrow> engine \<Rightarrow> alert \<Rightarrow> bool" where
  "recovered w A e a \<longleftrightarrow> maybe_monitored w a \<and> (probe_recovery w a
     \<or> (ProbeName a = None \<and> thresholdClearCount w \<le> streak_count (ID a) (en_clear e)
        \<and> (\<exists>t. judged_clear w A (ID a) t True)))"

section \<open>Moves\<close>

inductive clean_move :: "world \<Rightarrow> alert set \<Rightarrow> engine \<Rightarrow> int streak_op list \<Rightarrow> engine \<Rightarrow> bool" for w A where
  c_read: "clean_move w A e [] (tick w e)"
| c_describe: "clean_move w A e [] (write_db w (describe_row i text now) e)"
| c_clear: "a \<in> A \<Longrightarrow> recovered w A e a \<or> unmonitored_alert w a \<or> unevaluable_alert w a \<Longrightarrow>
    \<not> IsSystem a \<Longrightarrow> clean_move w A e [] (write_db w (clear_row (ID a) now) e)"
| c_notify: "a \<in> A \<Longrightarrow> recovered w A e a \<Longrightarrow>
    clean_move w A e [] (e\<lparr>en_submitted := en_submitted e @ [(a\<lparr>Description := text\<rparr>, AlertClear)]\<rparr>)"
| c_judge: "judged_clear w A i t resolved \<Longrightarrow>
    clean_move w A e [Observe i t resolved] (e\<lparr>en_clear := fst (observe i t resolved (en_clear e))\<rparr>)"
| c_retain: "clean_move w A e [Retain keep] (e\<lparr>en_clear := retain keep (en_clear e)\<rparr>)"

inductive clean_trace :: "world \<Rightarrow> alert set \<Rightarrow> engine \<Rightarrow> int streak_op list \<Rightarrow> engine \<Rightarrow> bool" for w A where
  ct_refl: "clean_trace w A e [] e"
| ct_step: "clean_trace w A e ops e1 \<Longrightarrow> clean_move w A e1 op e2 \<Longrightarrow> clean_trace w A e (ops @ op) e2"

definition cleans :: "world \<Rightarrow> alert set \<Rightarrow> engine \<Rightarrow> engine \<Rightarrow> bool" where
  "cleans w A e e' \<longleftrightarrow> (\<exists>ops. clean_trace w A e ops e')"

lemma cleans_refl [simp, clean_intros]: "cleans w A e e"
  unfolding cleans_def using ct_refl by blast

lemma cleans_move: "cleans w A e e1 \<Longrightarrow> clean_move w A e1 op e2 \<Longrightarrow> cleans w A e e2"
  unfolding cleans_def using ct_step by blast

lemma cleans_tick [clean_intros]: "cleans w A e e1 \<Longrightarrow> cleans w A e (tick w e1)"
  by (rule cleans_move[OF _ c_read])

lemma cleans_describe [clean_intros]:
  "cleans w A e e1 \<Longrightarrow> cleans w A e (fst (UpdateAlertDescription w i text e1))"
  using cleans_move[OF _ c_describe] cleans_tick
  by (auto simp: UpdateAlertDescription_def exec_query_eq describe_row_def)

section \<open>Every pass is a sequence of moves\<close>

text \<open>The snapshots of a pass hold what one of its queries returned.\<close>

definition unmonitored_read :: "world \<Rightarrow> (int, string) gomap \<Rightarrow> bool" where
  "unmonitored_read w m \<longleftrightarrow> (\<exists>n d. w_outcome w n QUnmonitored = Done \<and> m = unmonitored_in (w_others w n d))"

definition staleness_read :: "world \<Rightarrow> probe_staleness list \<Rightarrow> bool" where
  "staleness_read w entries \<longleftrightarrow> (\<exists>n. w_outcome w n QStaleness = Done \<and> entries = w_staleness w n)"

definition unmonitored_failed :: "world \<Rightarrow> bool" where
  "unmonitored_failed w \<longleftrightarrow> (\<exists>n. w_outcome w n QUnmonitored \<noteq> Done)"

lemma snapshot_reads:
  "w_outcome w n QUnmonitored \<noteq> Done \<Longrightarrow> unmonitored_failed w"
  "w_outcome w n QUnmonitored = Done \<Longrightarrow> unmonitored_read w (unmonitored_in (w_others w n d))"
  "w_outcome w n QStaleness = Done \<Longrightarrow> staleness_read w (w_staleness w n)"
  unfolding unmonitored_read_def staleness_read_def unmonitored_failed_def by blast+

definition snap_ok :: "world \<Rightarrow> snapshots \<Rightarrow> bool" where
  "snap_ok w sn \<longleftrightarrow> (\<forall>err. sn_unmonitored sn = Some (Inl err) \<longrightarrow> unmonitored_failed w)
     \<and> (\<forall>m. sn_unmonitored sn = Some (Inr m) \<longrightarrow> unmonitored_read w m)
     \<and> (\<forall>entries. sn_staleness sn = Some (Inr entries) \<longrightarrow> staleness_read w entries)"

definition cleaning_ok :: "world \<Rightarrow> alert set \<Rightarrow> engine \<Rightarrow> cleaning \<Rightarrow> bool" where
  "cleaning_ok w A e c \<longleftrightarrow> cleans w A e (fst c) \<and> snap_ok w (snd c)"

lemma cleaning_ok_map:
  "cleaning_ok w A e c \<Longrightarrow> (cleans w A e (fst c) \<Longrightarrow> cleans w A e (f (fst c))) \<Longrightarrow>
     cleaning_ok w A e (map_prod f id c)"
  by (simp add: cleaning_ok_def)

lemma get_staleness_ok:
  assumes "get_staleness w c = (c1, r)" and "cleaning_ok w A e c"
  shows "cleaning_ok w A e c1 \<and> (\<forall>entries. r = Inr entries \<longrightarrow> staleness_read w entries)"
proof (cases c)
  case (Pair e0 sn)
  show ?thesis
  proof (cases "sn_staleness sn")
    case None
    with assms Pair show ?thesis
      by (auto simp: get_staleness_def GetProbeStalenessByConnection_def read_query_eq cleaning_ok_def
          snap_ok_def split: if_splits intro!: clean_intros snapshot_reads)
  next
    case (Some r')
    with assms Pair show ?thesis by (auto simp: get_staleness_def cleaning_ok_def snap_ok_def)
  qed
qed

lemma get_unmonitored_ok:
  assumes "get_unmonitored w c = (c1, r)" and "cleaning_ok w A e c"
  shows "cleaning_ok w A e c1 \<and> (\<forall>m. r = Inr m \<longrightarrow> unmonitored_read w m)
    \<and> (\<forall>err. r = Inl err \<longrightarrow> unmonitored_failed w)"
proof (cases c)
  case (Pair e0 sn)
  show ?thesis
  proof (cases "sn_unmonitored sn")
    case None
    with assms Pair show ?thesis
      by (auto simp: get_unmonitored_def GetUnmonitoredConnections_def read_query_eq cleaning_ok_def
          snap_ok_def unmonitored_in_def[symmetric] split: if_splits intro!: clean_intros snapshot_reads)
  next
    case (Some r')
    with assms Pair show ?thesis by (auto simp: get_unmonitored_def cleaning_ok_def snap_ok_def)
  qed
qed

text \<open>Clearing an alert, with and without its notification.\<close>

lemma cleans_clear:
  assumes "a \<in> A" and "\<not> IsSystem a" and "recovered w A e1 a \<or> unmonitored_alert w a \<or> unevaluable_alert w a"
    and "cleans w A e e1"
  shows "cleans w A e (fst (ClearAlert w (ID a) e1))"
  using cleans_move[OF assms(4) c_clear[OF assms(1,3,2)]] cleans_tick[OF assms(4)]
  by (auto simp: ClearAlert_def exec_query_eq clear_row_def)

lemma clear_keeps_counts: "en_clear (fst (ClearAlert w i e)) = en_clear e"
  by (simp add: ClearAlert_def exec_query_eq)

lemma cleans_resolved:
  assumes "a \<in> A" and "\<not> IsSystem a" and "recovered w A e1 a" and "cleans w A e e1"
  shows "cleans w A e (clearResolvedAlert w (a\<lparr>Description := text\<rparr>) e1)"
proof -
  obtain e2 r where C: "ClearAlert w (ID a) e1 = (e2, r)" by force
  have e2: "cleans w A e e2" using cleans_clear[OF assms(1,2) _ assms(4)] assms(3) C by (metis fst_conv)
  have "recovered w A e2 a" using assms(3) clear_keeps_counts[of w "ID a" e1] C by (simp add: recovered_def)
  then have "cleans w A e (queueNotification w (a\<lparr>Description := text\<rparr>) AlertClear e2)"
    using e2 assms(1) by (auto simp: queueNotification_def intro: cleans_move[OF _ c_notify])
  with C e2 show ?thesis by (simp add: clearResolvedAlert_def split: sum.splits)
qed

lemma cleans_resolved_same:
  assumes "a \<in> A" and "\<not> IsSystem a" and "recovered w A e1 a" and "cleans w A e e1"
  shows "cleans w A e (clearResolvedAlert w a e1)"
  using cleans_resolved[OF assms, of "Description a"] by simp

lemma close_with_reason_ok:
  assumes "a \<in> A" and "\<not> IsSystem a" and "unmonitored_alert w a \<or> unevaluable_alert w a" and "cleans w A e e1"
  shows "cleans w A e (close_with_reason w a pre text e1)"
  using cleans_clear[OF assms(1,2)] assms(3) cleans_describe[OF assms(4)] assms(4)
  unfolding close_with_reason_def Let_def by simp

lemma cleans_observe:
  assumes "judged_clear w A i t resolved" and "cleans w A e e1"
  shows "cleans w A e (fst (observe_clear i t resolved e1))"
  using cleans_move[OF assms(2) c_judge[OF assms(1)]]
  by (cases "observe i t resolved (en_clear e1)") (simp add: observe_clear_def)

lemma recordViolatingSample_ok:
  "judged_clear w A (ID a) t False \<Longrightarrow> cleans w A e e1 \<Longrightarrow> cleans w A e (recordViolatingSample a t e1)"
  unfolding recordViolatingSample_def by (rule cleans_observe)

lemma recordResolvedSample_ok:
  assumes "a \<in> A" and "\<not> IsSystem a" and "ProbeName a = None" and "judged_clear w A (ID a) t True"
    and "cleans w A e e1" and "maybe_monitored w a"
  shows "cleans w A e (recordResolvedSample w a t e1)"
proof -
  obtain e2 n where O: "observe_clear (ID a) t True e1 = (e2, n)" by force
  have e2: "cleans w A e e2" using cleans_observe[OF assms(4,5)] O by simp
  have "n = streak_count (ID a) (en_clear e2)"
    using O observe_returns_count[of "ID a" t True "en_clear e1"]
    by (auto simp: observe_clear_def split: prod.splits)
  then have "\<not> n < thresholdClearCount w \<Longrightarrow> recovered w A e2 a" using assms(3,4,6) by (auto simp: recovered_def)
  with O e2 assms(1,2) show ?thesis
    by (auto simp: recordResolvedSample_def intro: cleans_resolved_same)
qed

lemma clearAlertForUnmonitoredConnection_ok:
  assumes "a \<in> A" and "\<not> IsSystem a" and "cleaning_ok w A e c"
  shows "cleaning_ok w A e (fst (clearAlertForUnmonitoredConnection w a c))"
    and "\<not> snd (clearAlertForUnmonitoredConnection w a c) \<Longrightarrow> maybe_monitored w a"
proof -
  obtain c1 r where G: "get_unmonitored w c = (c1, r)" by (meson surj_pair)
  note ok = get_unmonitored_ok[OF G assms(3)]
  obtain e1 sn1 where c1: "c1 = (e1, sn1)" by force
  have "cleaning_ok w A e (close_with_reason w a pre desc e1, sn1)"
    if "r = Inr m" and "map_of m (ConnectionID a) = Some name" for m name pre desc
  proof -
    have "unmonitored_alert w a"
      using ok that unfolding unmonitored_alert_def unmonitored_read_def by fastforce
    with ok c1 assms(1,2) show ?thesis by (simp add: cleaning_ok_def close_with_reason_ok)
  qed
  with ok G c1 show "cleaning_ok w A e (fst (clearAlertForUnmonitoredConnection w a c))"
    by (auto simp: clearAlertForUnmonitoredConnection_def split: sum.splits option.splits)
  assume "\<not> snd (clearAlertForUnmonitoredConnection w a c)"
  then have "(\<exists>err. r = Inl err) \<or> (\<exists>m. r = Inr m \<and> map_of m (ConnectionID a) = None)"
    using G c1 by (auto simp: clearAlertForUnmonitoredConnection_def split: sum.splits option.splits)
  then show "maybe_monitored w a"
    using ok unfolding maybe_monitored_def unmonitored_read_def unmonitored_failed_def by blast
qed

lemma set_description_ok:
  "cleans w A e e1 \<Longrightarrow> set_description w a desc e1 = (e2, a2) \<Longrightarrow>
     cleans w A e e2 \<and> en_clear e2 = en_clear e1 \<and> a2 = a\<lparr>Description := Description a2\<rparr>"
  using cleans_describe[of w A e e1 "ID a" desc]
  by (auto simp: set_description_def UpdateAlertDescription_def exec_query_eq split: if_splits)

lemma restoreStalenessAlertDescription_ok:
  "cleans w A e e1 \<Longrightarrow> restoreStalenessAlertDescription w a p n i ratio threshold e1 = (e2, a2) \<Longrightarrow>
     cleans w A e e2 \<and> en_clear e2 = en_clear e1 \<and> a2 = a\<lparr>Description := Description a2\<rparr>"
  by (auto simp: restoreStalenessAlertDescription_def Let_def dest: set_description_ok split: if_splits)

lemma restoreHeldDescriptionBeforeClear_ok:
  assumes "cleans w A e e1" and "restoreHeldDescriptionBeforeClear w a p threshold e1 = (e2, a2)"
  shows "cleans w A e e2 \<and> en_clear e2 = en_clear e1 \<and> a2 = a\<lparr>Description := Description a2\<rparr>"
  using assms cleans_tick[OF assms(1)] restoreStalenessAlertDescription_ok[OF cleans_tick[OF assms(1)]]
  by (auto simp: restoreHeldDescriptionBeforeClear_def GetProbeStalenessContext_def read_query_eq
      split: if_splits option.splits dest!: restoreStalenessAlertDescription_ok[rotated])

lemma resolveAbsentMetric_ok:
  assumes "a \<in> A" and "\<not> IsSystem a" and "ProbeName a = None" and "MetricName a = Some m"
    and "ThresholdValue a = Some threshold" and "Operator a = Some operator" and "cleaning_ok w A e c"
    and "maybe_monitored w a"
  shows "cleaning_ok w A e (resolveAbsentMetric w a m c)"
proof -
  let ?clears = "MetricClearsWhenAbsent w m" and ?probe = "MetricProbeName w m"
    and ?window = "MetricAbsenceWindow w m"
  define g where "g = (if ?clears \<and> ?probe \<noteq> '''' \<and> 0 < ?window then get_staleness w c else (c, Inr []))"
  obtain c1 r where G: "g = (c1, r)" by (meson surj_pair)
  have c1: "cleaning_ok w A e c1"
    using G get_staleness_ok[of w c c1 r A e] assms(7) by (auto simp: g_def split: if_splits)
  show ?thesis
  proof (cases r)
    case (Inl err)
    with G c1 show ?thesis by (simp add: resolveAbsentMetric_def Let_def g_def[symmetric])
  next
    case (Inr entries)
    define verdict where
      "verdict = classifyAbsentMetric ?clears ?probe ?window (ConnectionID a) entries (snapshot_age w c1)"
    have "cleaning_ok w A e (map_prod (recordResolvedSample w a
        (probeLastCollected entries (ConnectionID a) ?probe)) id c1)" if "verdict = AbsentMetricClear"
    proof (rule cleaning_ok_map[OF c1])
      have "?clears \<and> ?probe \<noteq> '''' \<and> 0 < ?window"
        using that by (auto simp: verdict_def classifyAbsentMetric_def split: if_splits)
      then have "staleness_read w entries"
        using G Inr get_staleness_ok[of w c c1 r A e] assms(7) by (simp add: g_def)
      then have "absent_recovery w a m (probeLastCollected entries (ConnectionID a) ?probe)"
        using that unfolding absent_recovery_def staleness_read_def verdict_def by blast
      then have "judged_clear w A (ID a) (probeLastCollected entries (ConnectionID a) ?probe) True"
        using assms(1,3-6) unfolding judged_clear_def by blast
      then show "cleans w A e (recordResolvedSample w a
          (probeLastCollected entries (ConnectionID a) ?probe) (fst c1))" if "cleans w A e (fst c1)"
        using recordResolvedSample_ok[OF assms(1-3)] assms(8) that by blast
    qed
    with G Inr c1 show ?thesis
      by (cases verdict) (simp_all add: resolveAbsentMetric_def Let_def g_def[symmetric] verdict_def[symmetric])
  qed
qed

lemma staleness_probe_recovery:
  assumes "staleness_read w entries" and "ProbeName a = Some p"
  shows "entry_for (ConnectionID a) p entries = None \<Longrightarrow> probe_recovery w a"
    and "entry_for (ConnectionID a) p entries = Some entry \<Longrightarrow> ps_is_available entry \<Longrightarrow>
      MetricName a = Some probeUnavailableMetricName \<Longrightarrow> probe_recovery w a"
    and "entry_for (ConnectionID a) p entries = Some entry \<Longrightarrow> ps_is_available entry \<Longrightarrow>
      ThresholdValue a = Some threshold \<Longrightarrow> Operator a = Some operator \<Longrightarrow>
      \<not> checkThreshold (currentStalenessRatio entry age) operator threshold \<Longrightarrow> probe_recovery w a"
  using assms unfolding probe_recovery_def staleness_read_def by force+

lemma checkProbeUnavailableAlertResolved_ok:
  assumes "a \<in> A" and "\<not> IsSystem a" and "ProbeName a = Some p"
    and "MetricName a = Some probeUnavailableMetricName" and "cleaning_ok w A e c"
    and "maybe_monitored w a"
  shows "cleaning_ok w A e (checkProbeUnavailableAlertResolved w a p c)"
proof -
  obtain e1 sn1 r where G: "get_staleness w c = ((e1, sn1), r)" by (metis surj_pair)
  note ok = get_staleness_ok[OF G assms(5)]
  have "cleaning_ok w A e (clearResolvedAlert w a e1, sn1)" if "probe_recovery w a"
    using ok that assms(1,2,6) by (simp add: cleaning_ok_def cleans_resolved_same recovered_def)
  with ok G show ?thesis
    using staleness_probe_recovery(1,2)[OF _ assms(3)] assms(4)
    by (auto simp: checkProbeUnavailableAlertResolved_def split: sum.splits option.splits)
qed

lemma checkStalenessAlertResolved_ok:
  assumes "a \<in> A" and "\<not> IsSystem a" and "ProbeName a = Some p"
    and "ThresholdValue a = Some threshold" and "Operator a = Some operator" and "cleaning_ok w A e c"
    and "maybe_monitored w a"
  shows "cleaning_ok w A e (checkStalenessAlertResolved w a p operator threshold c)"
proof -
  obtain e1 sn1 r where G: "get_staleness w c = ((e1, sn1), r)" by (metis surj_pair)
  note ok = get_staleness_ok[OF G assms(6)]
  have e1: "cleans w A e e1" and sn1: "snap_ok w sn1" using ok by (simp_all add: cleaning_ok_def)
  have clear: "cleans w A e (clearResolvedAlert w a2 e2)"
    if "cleans w A e e2 \<and> en_clear e2 = en_clear e1 \<and> a2 = a\<lparr>Description := Description a2\<rparr>"
      and "probe_recovery w a" for e2 a2
    using cleans_resolved[OF assms(1,2), of w e2 e "Description a2"] that assms(7) by (simp add: recovered_def)
  show ?thesis
  proof (cases r)
    case (Inl err)
    with ok G show ?thesis by (simp add: checkStalenessAlertResolved_def)
  next
    case (Inr entries)
    then have read: "staleness_read w entries" using ok by simp
    show ?thesis
    proof (cases "entry_for (ConnectionID a) p entries")
      case None
      obtain e2 a2 where R: "restoreHeldDescriptionBeforeClear w a p threshold e1 = (e2, a2)"
        by (meson surj_pair)
      show ?thesis
        using clear[OF restoreHeldDescriptionBeforeClear_ok[OF e1 R]
            staleness_probe_recovery(1)[OF read assms(3) None]] None R Inr G sn1
        by (simp add: checkStalenessAlertResolved_def cleaning_ok_def)
    next
      case (Some entry)
      define ratio where "ratio = currentStalenessRatio entry (snapshot_age w (e1, sn1))"
      obtain e2 a2 where R: "restoreStalenessAlertDescription w a (ps_probe_name entry)
          (ps_connection_name entry) (ps_collection_interval entry) ratio threshold e1 = (e2, a2)"
        by (meson surj_pair)
      note ok2 = restoreStalenessAlertDescription_ok[OF e1 R]
      have "cleans w A e (clearResolvedAlert w a2 e2)"
        if "ps_is_available entry" "\<not> checkThreshold ratio operator threshold"
        using clear[OF ok2] staleness_probe_recovery(3)[OF read assms(3) Some that(1) assms(4,5)] that(2)
        unfolding ratio_def by blast
      moreover obtain e3 a3 where H: "holdStalenessAlertForUnavailableProbe w a entry e1 = (e3, a3)"
        by (meson surj_pair)
      moreover from H have "cleans w A e e3"
        using set_description_ok[OF e1] unfolding holdStalenessAlertForUnavailableProbe_def by blast
      ultimately show ?thesis
        using Some R Inr G sn1 ok2
        by (simp add: checkStalenessAlertResolved_def cleaning_ok_def Let_def ratio_def[symmetric])
    qed
  qed
qed

lemma cleans_latest:
  assumes "GetLatestMetricValues w m e1 = (e2, r)" and "cleans w A e e1"
  shows "cleans w A e e2"
  using assms
  by (auto simp: GetLatestMetricValues_def dropDeletedConnections_def read_query_eq
      split: option.splits if_splits intro!: clean_intros)

lemma latest_for_alert:
  assumes "GetLatestMetricValues w m e1 = (e2, Inr vs)" and "find (matches_alert a) vs = Some mv"
  shows "read_for_alert w a m mv"
proof -
  have mv: "mv \<in> set vs" "matches_alert a mv"
    using assms(2) by (auto simp: find_Some_iff)
  obtain cfg where cfg: "w_registry w m = Some cfg"
    using assms(1) by (auto simp: GetLatestMetricValues_def split: option.splits)
  have "w_outcome w (en_step e1) (QLatest m) = Done"
    "set vs \<subseteq> scan_row (mc_scan cfg) ` set (w_latest w (en_step e1) m)"
    using assms(1) cfg
    by (auto simp: GetLatestMetricValues_def dropDeletedConnections_def read_query_eq split: if_splits)
  with mv cfg show ?thesis unfolding read_for_alert_def by blast
qed

lemma check_metric_alert_ok:
  assumes "a \<in> A" and "\<not> IsSystem a" and "ProbeName a = None" and "MetricName a = Some m"
    and "ThresholdValue a = Some threshold" and "Operator a = Some operator" and "cleaning_ok w A e c"
    and "maybe_monitored w a"
  shows "cleaning_ok w A e (check_metric_alert w a m operator threshold c)"
proof -
  obtain e0 sn where c: "c = (e0, sn)" by (meson surj_pair)
  obtain e1 r where L: "GetLatestMetricValues w m e0 = (e1, r)" by (meson surj_pair)
  have e1: "cleans w A e e1" and sn: "snap_ok w sn"
    using cleans_latest[OF L] assms(7) c by (simp_all add: cleaning_ok_def)
  then have absent: "cleaning_ok w A e (resolveAbsentMetric w a m (e1, sn))"
    using assms by (intro resolveAbsentMetric_ok) (simp_all add: cleaning_ok_def)
  have sampled: "judged_clear w A (ID a) (mv_collected_at mv) (\<not> checkThreshold (mv_value mv) operator threshold)"
    if "r = Inr vs" "find (matches_alert a) vs = Some mv" for vs mv
    using latest_for_alert[of w m e0 e1 vs a mv] L that assms(1,3-6) unfolding judged_clear_def by blast
  show ?thesis
  proof (cases r)
    case (Inl err)
    with L c e1 sn absent show ?thesis by (simp add: check_metric_alert_def cleaning_ok_def)
  next
    case (Inr vs)
    show ?thesis
    proof (cases "find (matches_alert a) vs")
      case None
      with L c Inr absent show ?thesis by (simp add: check_metric_alert_def)
    next
      case (Some mv)
      then show ?thesis
        using L c Inr e1 sn sampled[OF Inr Some] recordViolatingSample_ok[of w A a]
          recordResolvedSample_ok[OF assms(1-3), of w "mv_collected_at mv" e e1] assms(8)
        by (cases "checkThreshold (mv_value mv) operator threshold")
           (simp_all add: check_metric_alert_def cleaning_ok_def)
    qed
  qed
qed

lemma checkAlertResolved_ok:
  assumes "a \<in> A" and "\<not> IsSystem a" and "cleaning_ok w A e c" and "maybe_monitored w a"
  shows "cleaning_ok w A e (checkAlertResolved w a gate c)"
proof (cases "MetricName a = None \<or> ThresholdValue a = None \<or> Operator a = None")
  case True
  with assms(3) show ?thesis by (auto simp: checkAlertResolved_def split: option.splits)
next
  case False
  then obtain m threshold operator where a: "MetricName a = Some m" "ThresholdValue a = Some threshold"
    "Operator a = Some operator" by auto
  have retire: "cleaning_ok w A e (map_prod (retireDatabaseScopedAlert w a m) id c)"
    if "ProbeName a = None" "DatabaseName a \<noteq> None" "MetricIsServerWide w m"
  proof (rule cleaning_ok_map[OF assms(3)])
    have "unevaluable_alert w a" using that a unfolding unevaluable_alert_def by blast
    then show "cleans w A e (retireDatabaseScopedAlert w a m (fst c))" if "cleans w A e (fst c)"
      unfolding retireDatabaseScopedAlert_def using close_with_reason_ok[OF assms(1,2)] that by blast
  qed
  show ?thesis
  proof (cases "ProbeName a")
    case (Some p)
    with a assms show ?thesis
      using checkProbeUnavailableAlertResolved_ok[of a A p w e c]
        checkStalenessAlertResolved_ok[of a A p threshold operator w e c]
      by (auto simp: checkAlertResolved_def)
  next
    case None
    with a assms retire show ?thesis
      using check_metric_alert_ok[of a A m threshold operator w e c]
      by (auto simp: checkAlertResolved_def split: option.splits)
  qed
qed

lemma clean_alert_ok:
  assumes "a \<in> A" and "cleaning_ok w A e c"
  shows "cleaning_ok w A e (clean_alert w gates a c)"
proof (cases "IsSystem a")
  case False
  obtain c1 b where C: "clearAlertForUnmonitoredConnection w a c = (c1, b)" by (meson surj_pair)
  have "cleaning_ok w A e c1" and "\<not> b \<Longrightarrow> maybe_monitored w a"
    using clearAlertForUnmonitoredConnection_ok[OF assms(1) False assms(2)] C by simp_all
  then show ?thesis
    using C False checkAlertResolved_ok[OF assms(1) False]
    by (cases b) (auto simp: clean_alert_def split: option.splits)
qed (use assms(2) in \<open>simp add: clean_alert_def\<close>)

lemma clean_alerts_ok:
  "set as \<subseteq> A \<Longrightarrow> cleaning_ok w A e c \<Longrightarrow> cleaning_ok w A e (fst (clean_alerts w gates as c))"
proof (induction as arbitrary: c)
  case (Cons a as)
  then show ?case using Cons.IH[OF _ clean_alert_ok, of a c] by simp
qed simp

lemma resolve_gate_ok: "cleans w A e (snd g) \<Longrightarrow> cleans w A e (snd (resolve_gate w a g))"
  by (auto simp: resolve_gate_def connectionsWithRequiredExtension_def GetAlertRuleByID_def
      GetConnectionsWithExtension_def read_query_eq single_row_def Let_def
      split: prod.splits option.splits sum.splits if_splits intro!: clean_intros)

lemma fold_gates_ok: "cleans w A e (snd g) \<Longrightarrow> cleans w A e (snd (fold (resolve_gate w) as g))"
proof (induction as arbitrary: g)
  case (Cons a as)
  then show ?case using Cons.IH[OF resolve_gate_ok] by simp
qed simp

lemma resolveExtensionGates_ok:
  assumes "resolveExtensionGates w as e1 = (gates, e2)" and "cleans w A e e1"
  shows "cleans w A e e2"
proof -
  define g0 where "g0 = (\<lparr>gt_gates = [], gt_extensions = []\<rparr>, e1)"
  have "cleans w A e (snd (fold (resolve_gate w) as g0))"
    using assms(2) by (intro fold_gates_ok) (simp add: g0_def)
  moreover have "snd (fold (resolve_gate w) as g0) = snd (resolveExtensionGates w as e1)"
    by (simp add: resolveExtensionGates_def g0_def)
  ultimately show ?thesis using assms(1) by simp
qed

text \<open>The alerts a pass looks at: those active at its first statement.\<close>

definition active_alerts :: "world \<Rightarrow> engine \<Rightarrow> alert set" where
  "active_alerts w e = scanAlert ` {r \<in> set (alerts (en_db (tick w e))). al_status r = ''active''}"

theorem cleanResolvedAlerts_trace:
  obtains ops where "clean_trace w (active_alerts w e) e ops (cleanResolvedAlerts w e)"
proof -
  let ?A = "active_alerts w e"
  obtain r where G: "GetActiveAlerts w e = (tick w e, r)" by (simp add: GetActiveAlerts_def read_query_eq)
  have "cleans w ?A e (cleanResolvedAlerts w e)"
  proof (cases r)
    case (Inl err)
    with G show ?thesis by (auto simp: cleanResolvedAlerts_def intro!: clean_intros)
  next
    case (Inr as)
    then have as: "set as \<subseteq> ?A"
      using G by (auto simp: GetActiveAlerts_def read_query_eq active_alerts_def split: if_splits)
    obtain gates e2 where R: "resolveExtensionGates w as (tick w e) = (gates, e2)" by (meson surj_pair)
    have "cleans w ?A e e2"
      by (rule resolveExtensionGates_ok[OF R]) (intro clean_intros)
    then have start: "cleaning_ok w ?A e (e2, new_snapshots)"
      by (simp add: cleaning_ok_def snap_ok_def new_snapshots_def)
    obtain e3 sn3 fin where C: "clean_alerts w gates as (e2, new_snapshots) = ((e3, sn3), fin)"
      by (metis surj_pair)
    have e3: "cleans w ?A e e3"
      using clean_alerts_ok[OF as start, of gates] C by (simp add: cleaning_ok_def)
    show ?thesis
      using G Inr R C e3 cleans_move[OF e3 c_retain]
      by (cases fin) (simp_all add: cleanResolvedAlerts_def)
  qed
  then show thesis using that unfolding cleans_def by blast
qed

end
