(* ===== verification/Alert_Cleaner_Facts.thy ===== *)
theory Alert_Cleaner_Facts
  imports Alert_Cleaner_Moves
begin

text \<open>
  What the cleaner guarantees, alone and with the evaluator: alerts stay unique and rows well
  formed over any sequence of passes; an active alert is cleared only for a reason, on a metric
  only after \<open>clear_count\<close> samples on which its condition did not hold; failed reads clear
  nothing; only recoveries are announced; and the wording of a held alert can be taken back.
\<close>

section \<open>The evaluator and the cleaner together\<close>

lemma clean_move_opens:
  assumes "clean_move w A e op e'" and "others_open_nothing w"
  shows "opens_nothing (en_db e) (en_db e')"
  using assms(1)
proof cases
  case (c_describe i desc now)
  then have "opens_nothing (en_db (tick w e)) (en_db e')"
    using describing.put_opens_nothing[of _ "(i, desc, now)"] by simp
  then show ?thesis using others_step[OF assms(2)] opens_nothing_trans by blast
next
  case (c_clear a now)
  then have "opens_nothing (en_db (tick w e)) (en_db e')"
    using clearing.put_opens_nothing[of _ "(ID a, now)"] by simp
  then show ?thesis using others_step[OF assms(2)] opens_nothing_trans by blast
qed (use others_step[OF assms(2)] in simp_all)

lemma cleanResolvedAlerts_opens:
  assumes "others_open_nothing w"
  shows "opens_nothing (en_db e) (en_db (cleanResolvedAlerts w e))"
proof -
  obtain ops where "clean_trace w (active_alerts w e) e ops (cleanResolvedAlerts w e)"
    by (rule cleanResolvedAlerts_trace)
  then show ?thesis
    by (induction rule: clean_trace.induct) (auto intro: opens_nothing_trans clean_move_opens[OF _ assms])
qed

datatype engine_pass = EvaluatePass world | CleanPass world

primrec run_pass :: "engine_pass \<Rightarrow> engine \<Rightarrow> engine" where
  "run_pass (EvaluatePass w) e = evaluateThresholds w e"
| "run_pass (CleanPass w) e = cleanResolvedAlerts w e"

primrec pass_world :: "engine_pass \<Rightarrow> world" where
  "pass_world (EvaluatePass w) = w"
| "pass_world (CleanPass w) = w"



section \<open>Why an alert is cleared\<close>

definition active_in :: "int \<Rightarrow> alert_db \<Rightarrow> bool" where
  "active_in i d \<longleftrightarrow> (\<exists>r \<in> set (alerts d). al_id r = i \<and> al_status r = ''active'')"

text \<open>The others leave active alerts active.\<close>

definition others_keep_active :: "world \<Rightarrow> bool" where
  "others_keep_active w \<longleftrightarrow> (\<forall>n d i. active_in i d \<longrightarrow> active_in i (w_others w n d))"

lemma clean_trace_counts: "clean_trace w A e ops e' \<Longrightarrow> en_clear e' = fold streak_step ops (en_clear e)"
proof (induction rule: clean_trace.induct)
  case (ct_step e ops e1 op e2)
  from ct_step.hyps(2) have "en_clear e2 = fold streak_step op (en_clear e1)" by cases auto
  with ct_step.IH show ?case by simp
qed simp

lemma clean_trace_passes: "clean_trace w A e ops e' \<Longrightarrow> passes ops = 0"
proof (induction rule: clean_trace.induct)
  case (ct_step e ops e1 op e2)
  from ct_step.hyps(2) have "passes op = 0" by cases (auto simp: passes_def)
  with ct_step.IH show ?case by (simp add: passes_append)
qed simp

lemma clean_trace_judged:
  "clean_trace w A e ops e' \<Longrightarrow> Observe i t resolved \<in> set ops \<Longrightarrow> judged_clear w A i t resolved"
proof (induction rule: clean_trace.induct)
  case (ct_step e ops e1 op e2)
  then show ?case by (cases rule: clean_move.cases[OF ct_step.hyps(2)]) auto
qed simp

text \<open>\<open>clear_count\<close> samples, each newer than the one before, on all of which the condition of
  the alert was judged not to hold, with no judgement that it did since the first.\<close>

definition sustained_recovery :: "world \<Rightarrow> int streak_op list \<Rightarrow> int \<Rightarrow> bool" where
  "sustained_recovery w ops i \<longleftrightarrow> (\<exists>ss. sorted_wrt (<) ss \<and> thresholdClearCount w \<le> int (length ss)
     \<and> set ss \<subseteq> set (held_samples ops i))"

lemma recovered_evidence:
  assumes "recovered w A e1 a" and "clean_trace w A e ops e1" and "en_clear e = streaks_after h"
    and "passes h < 2 ^ 64"
  shows "maybe_monitored w a \<and> (probe_recovery w a
    \<or> (ProbeName a = None \<and> (\<exists>t. judged_clear w A (ID a) t True) \<and> sustained_recovery w (h @ ops) (ID a)))"
proof -
  have "en_clear e1 = streaks_after (h @ ops)"
    using clean_trace_counts[OF assms(2)] assms(3) by (simp add: streaks_after_def)
  moreover have "passes (h @ ops) < 2 ^ 64"
    using clean_trace_passes[OF assms(2)] assms(4) by (simp add: passes_append)
  ultimately have "thresholdClearCount w \<le> streak_count (ID a) (en_clear e1) \<Longrightarrow>
      sustained_recovery w (h @ ops) (ID a)"
    unfolding sustained_recovery_def using streak_count_run run_of_sorted run_of_held by metis
  then show ?thesis using assms(1) unfolding recovered_def by blast
qed

lemma active_in_update:
  assumes "active_in i d" and "\<And>r. al_id (f r) = al_id r" and "i \<noteq> j \<or> (\<forall>r. al_status (f r) = al_status r)"
  shows "active_in i (update_alert j f d)"
proof -
  obtain r where r: "r \<in> set (alerts d)" "al_id r = i" "al_status r = ''active''"
    using assms(1) unfolding active_in_def by blast
  have "(if al_id r = j then f r else r) \<in> set (alerts (update_alert j f d))"
    using r(1) by (simp add: update_alert_def on_alerts_def)
  moreover have "al_id (if al_id r = j then f r else r) = i"
    "al_status (if al_id r = j then f r else r) = ''active''"
    using r assms(2,3) by auto
  ultimately show ?thesis unfolding active_in_def by blast
qed

lemma clean_move_active:
  assumes "clean_move w A e op e'" and "others_keep_active w" and "active_in i (en_db e)"
  shows "active_in i (en_db e') \<or> (\<exists>a \<in> A. ID a = i \<and> \<not> IsSystem a
    \<and> (recovered w A e a \<or> unmonitored_alert w a \<or> unevaluable_alert w a))"
proof -
  have tick: "active_in i (en_db (tick w e))" using assms(2,3) by (simp add: others_keep_active_def)
  from assms(1) show ?thesis
  proof cases
    case (c_describe j desc now)
    with tick show ?thesis by (simp add: describe_row_def active_in_update)
  next
    case (c_clear a now)
    show ?thesis
    proof (cases "ID a = i")
      case False
      with tick c_clear show ?thesis by (simp add: clear_row_def active_in_update)
    qed (use c_clear in blast)
  qed (use tick assms(3) in simp_all)
qed

definition closed_for_reason :: "world \<Rightarrow> alert set \<Rightarrow> int streak_op list \<Rightarrow> int \<Rightarrow> bool" where
  "closed_for_reason w A ops i \<longleftrightarrow> (\<exists>a \<in> A. ID a = i \<and> \<not> IsSystem a
     \<and> (unmonitored_alert w a \<or> unevaluable_alert w a \<or> probe_recovery w a
        \<or> (ProbeName a = None \<and> (\<exists>t. judged_clear w A i t True) \<and> sustained_recovery w ops i)))"

lemma clean_trace_active:
  assumes "clean_trace w A e ops e'" and "others_keep_active w" and "en_clear e = streaks_after h"
    and "passes h < 2 ^ 64" and "active_in i (en_db e)"
  shows "active_in i (en_db e') \<or> (\<exists>ops1 ops2. ops = ops1 @ ops2 \<and> closed_for_reason w A (h @ ops1) i)"
  using assms
proof (induction rule: clean_trace.induct)
  case (ct_step e ops e1 op e2)
  show ?case
  proof (cases "active_in i (en_db e1)")
    case True
    from clean_move_active[OF ct_step.hyps(2) ct_step.prems(1) this] show ?thesis
    proof (elim disjE bexE)
      fix a assume a: "a \<in> A" "ID a = i \<and> \<not> IsSystem a
        \<and> (recovered w A e1 a \<or> unmonitored_alert w a \<or> unevaluable_alert w a)"
      then have "closed_for_reason w A (h @ ops) i"
        using recovered_evidence[OF _ ct_step.hyps(1) ct_step.prems(2,3), of a]
        unfolding closed_for_reason_def by (intro bexI[of _ a]) auto
      then show ?thesis by blast
    qed simp
  next
    case False
    then show ?thesis using ct_step.IH[OF ct_step.prems] by (metis append.assoc)
  qed
qed simp


text \<open>The sample alert, raised at a threshold the metric has fallen below: it is cleared, and
  the theorem says why.\<close>

definition recovered_row :: alert_row where
  "recovered_row = (sample_row 1)\<lparr>al_threshold_value := Some (Fin 97)\<rparr>"


section \<open>What is announced\<close>

text \<open>A notification of the clearing of one of the alerts of the pass, which has recovered.\<close>

definition announces_recovery ::
  "world \<Rightarrow> alert set \<Rightarrow> int streak_op list \<Rightarrow> int streak_op list \<Rightarrow> alert \<times> notification_type \<Rightarrow> bool" where
  "announces_recovery w A h ops x \<longleftrightarrow> snd x = AlertClear
     \<and> (\<exists>a \<in> A. fst x = a\<lparr>Description := Description (fst x)\<rparr> \<and> maybe_monitored w a
          \<and> (probe_recovery w a
             \<or> (\<exists>ops1 ops2. ops = ops1 @ ops2 \<and> sustained_recovery w (h @ ops1) (ID a))))"

lemma announces_recovery_append:
  assumes "announces_recovery w A h ops x"
  shows "announces_recovery w A h (ops @ op) x"
proof -
  obtain a where a: "a \<in> A" "fst x = a\<lparr>Description := Description (fst x)\<rparr>" "maybe_monitored w a"
    "probe_recovery w a \<or> (\<exists>ops1 ops2. ops = ops1 @ ops2 \<and> sustained_recovery w (h @ ops1) (ID a))"
    using assms unfolding announces_recovery_def by blast
  from a(4) have "probe_recovery w a
      \<or> (\<exists>ops1 ops2. ops @ op = ops1 @ ops2 \<and> sustained_recovery w (h @ ops1) (ID a))"
    by (metis append.assoc)
  with a(1-3) assms show ?thesis unfolding announces_recovery_def by blast
qed

lemma clean_move_submitted:
  assumes "clean_move w A e1 op e2" and "clean_trace w A e ops e1" and "en_clear e = streaks_after h"
    and "passes h < 2 ^ 64"
  shows "en_submitted e2 = en_submitted e1
    \<or> (\<exists>x. en_submitted e2 = en_submitted e1 @ [x] \<and> announces_recovery w A h ops x)"
  using assms(1)
proof cases
  case (c_notify a desc)
  have "announces_recovery w A h ops (a\<lparr>Description := desc\<rparr>, AlertClear)"
    unfolding announces_recovery_def
    using c_notify recovered_evidence[OF c_notify(4) assms(2-4)] by (auto intro!: bexI[of _ a])
  then show ?thesis using c_notify by auto
qed auto

lemma clean_trace_submitted:
  assumes "clean_trace w A e ops e'" and "en_clear e = streaks_after h" and "passes h < 2 ^ 64"
  shows "\<exists>new. en_submitted e' = en_submitted e @ new \<and> (\<forall>x \<in> set new. announces_recovery w A h ops x)"
  using assms
proof (induction rule: clean_trace.induct)
  case (ct_step e ops e1 op e2)
  obtain new where new: "en_submitted e1 = en_submitted e @ new" "\<forall>x \<in> set new. announces_recovery w A h ops x"
    using ct_step.IH[OF ct_step.prems] by blast
  from clean_move_submitted[OF ct_step.hyps(2,1) ct_step.prems] show ?case
  proof (elim disjE exE conjE)
    assume "en_submitted e2 = en_submitted e1"
    with new show ?thesis by (auto intro!: exI[of _ new] announces_recovery_append)
  next
    fix x assume "en_submitted e2 = en_submitted e1 @ [x]" "announces_recovery w A h ops x"
    with new show ?thesis by (auto intro!: exI[of _ "new @ [x]"] announces_recovery_append)
  qed
qed simp

definition always_unmonitored :: "world \<Rightarrow> int \<Rightarrow> bool" where
  "always_unmonitored w c \<longleftrightarrow> (\<forall>n d. w_outcome w n QUnmonitored = Done
     \<and> map_of (unmonitored_in (w_others w n d)) c \<noteq> None)"

text \<open>
  Only recoveries are announced. Every notification a pass submits is the clearing of
  one of the alerts it looked at, and that alert's probe has recovered or its condition did not
  hold on \<open>clear_count\<close> distinct samples in a row: an alert closed because its connection is no
  longer monitored, or because it can no longer be evaluated, is closed in silence. In
  particular nothing is announced about a connection that monitoring has been turned off for.
\<close>

theorem only_recoveries_announced:
  assumes "en_clear e = streaks_after h" and "passes h < 2 ^ 64"
  shows "\<exists>ops new. en_clear (cleanResolvedAlerts w e) = streaks_after (h @ ops)
    \<and> en_submitted (cleanResolvedAlerts w e) = en_submitted e @ new
    \<and> (\<forall>x \<in> set new. announces_recovery w (active_alerts w e) h ops x
         \<and> \<not> always_unmonitored w (ConnectionID (fst x)))"
proof -
  obtain ops where tr: "clean_trace w (active_alerts w e) e ops (cleanResolvedAlerts w e)"
    by (rule cleanResolvedAlerts_trace)
  have counts: "en_clear (cleanResolvedAlerts w e) = streaks_after (h @ ops)"
    using clean_trace_counts[OF tr] assms(1) by (simp add: streaks_after_def)
  have monitored: "\<not> always_unmonitored w (ConnectionID (fst x))"
    if ann: "announces_recovery w (active_alerts w e) h ops x" for x
  proof -
    obtain a where a: "maybe_monitored w a" and x: "fst x = a\<lparr>Description := Description (fst x)\<rparr>"
      using ann unfolding announces_recovery_def by blast
    have "ConnectionID (fst x) = ConnectionID a" using arg_cong[OF x, of ConnectionID] by simp
    with a show ?thesis unfolding maybe_monitored_def always_unmonitored_def by auto
  qed
  from clean_trace_submitted[OF tr assms] counts monitored show ?thesis by blast
qed

text \<open>The sample alert has recovered, and one notification says so.\<close>

theorem only_recoveries_announced_witness:
  "map (\<lambda>x. (ID (fst x), snd x)) (en_submitted (cleanResolvedAlerts (sample_world (\<lambda>_. Done))
     (sample_engine [recovered_row] []))) = [(1, AlertClear)]
   \<and> (\<exists>ops new. en_submitted (cleanResolvedAlerts (sample_world (\<lambda>_. Done)) (sample_engine [recovered_row] []))
          = [] @ new
        \<and> (\<forall>x \<in> set new. announces_recovery (sample_world (\<lambda>_. Done))
             (active_alerts (sample_world (\<lambda>_. Done)) (sample_engine [recovered_row] [])) [] ops x))"
proof
  let ?w = "sample_world (\<lambda>_. Done)" and ?e = "sample_engine [recovered_row] []"
  show "map (\<lambda>x. (ID (fst x), snd x)) (en_submitted (cleanResolvedAlerts ?w ?e)) = [(1, AlertClear)]"
    by code_simp
  have "en_clear ?e = streaks_after []" "en_submitted ?e = []" by (simp_all add: sample_engine_def)
  then show "\<exists>ops new. en_submitted (cleanResolvedAlerts ?w ?e) = [] @ new
      \<and> (\<forall>x \<in> set new. announces_recovery ?w (active_alerts ?w ?e) [] ops x)"
    using only_recoveries_announced[of ?e "[]" ?w] by fastforce
qed

section \<open>When the datastore cannot be read\<close>

text \<open>
  C23. Failed reads clear nothing. When the reads of the unmonitored connections, of the
  staleness view and of every metric fail throughout a pass, every alert that was active is
  still active, except one that names a database on a metric reported per server, which no
  read could make evaluable.
\<close>

theorem failed_reads_clear_nothing:
  assumes "others_keep_active w" and "en_clear e = streaks_after h" and "passes h < 2 ^ 64"
    and "\<forall>n. w_outcome w n QUnmonitored \<noteq> Done" and "\<forall>n. w_outcome w n QStaleness \<noteq> Done"
    and "\<forall>n m. w_outcome w n (QLatest m) \<noteq> Done" and "active_in i (en_db e)"
    and "\<forall>a \<in> active_alerts w e. ID a = i \<longrightarrow> \<not> unevaluable_alert w a"
  shows "active_in i (en_db (cleanResolvedAlerts w e))"
proof -
  obtain ops where tr: "clean_trace w (active_alerts w e) e ops (cleanResolvedAlerts w e)"
    by (rule cleanResolvedAlerts_trace)
  have "\<not> unmonitored_alert w a" "\<not> probe_recovery w a" for a
    using assms(4,5) unfolding unmonitored_alert_def probe_recovery_def by blast+
  moreover have "\<not> judged_clear w (active_alerts w e) j t b" for j t b
    using assms(5,6) unfolding judged_clear_def read_for_alert_def absent_recovery_def by blast
  ultimately have "\<not> closed_for_reason w (active_alerts w e) ops' i" for ops'
    using assms(8) unfolding closed_for_reason_def by blast
  then show ?thesis using clean_trace_active[OF tr assms(1-3,7)] by blast
qed

text \<open>The recovered alert of the sample installation, with every such read failing.\<close>

theorem failed_reads_clear_nothing_witness:
  "active_in 1 (en_db (cleanResolvedAlerts (sample_world
     (\<lambda>q. case q of QUnmonitored \<Rightarrow> Failed | QStaleness \<Rightarrow> Failed | QLatest m \<Rightarrow> Failed | _ \<Rightarrow> Done))
     (sample_engine [recovered_row] [])))"
  by (rule failed_reads_clear_nothing[where h = "[]"])
     (auto simp: others_keep_active_def sample_world_def sample_engine_def sample_db_def active_in_def
       recovered_row_def sample_row_def alert_to_row_def threshold_alert_def active_alerts_def
       unevaluable_alert_def)

section \<open>Holding and restoring a description\<close>

lemma held_not_staleness: "\<not> is_held (stalenessAlertDescription p c x y)"
  by (simp add: is_held_def stalenessAlertDescription_def unavailableProbeDescriptionPrefix_def)

lemma held_unavailable: "is_held (unavailableProbeDescription entry reason)"
  by (simp add: is_held_def unavailableProbeDescription_def)

text \<open>
  Holding a staleness alert and restoring it is a round trip. When the probe of an alert
  in the evaluator's wording becomes unavailable, the alert is reworded once: asking again
  makes no statement. When the probe collects again, an alert that still carries the value and
  the threshold it was worded with gets exactly its first wording back, provided the writes
  succeed; and an alert that is not held is left alone.
\<close>

theorem held_description_roundtrip:
  assumes "\<forall>n. w_outcome w n XDescription = Done"
    and "MetricValue a = Some v"
    and "Description a = stalenessAlertDescription (ps_probe_name entry) (ps_connection_name entry)
      (stalenessMinutes (ps_collection_interval entry) v)
      (stalenessMinutes (ps_collection_interval entry) threshold)"
    and "holdStalenessAlertForUnavailableProbe w a entry e = (e1, a1)"
    and "restoreStalenessAlertDescription w a1 (ps_probe_name entry) (ps_connection_name entry)
      (ps_collection_interval entry) ratio threshold e2 = (e3, a3)"
  shows "is_held (Description a1) \<and> holdStalenessAlertForUnavailableProbe w a1 entry e1 = (e1, a1)
    \<and> a3 = a
    \<and> restoreStalenessAlertDescription w a (ps_probe_name entry) (ps_connection_name entry)
        (ps_collection_interval entry) ratio threshold e = (e, a)"
proof -
  let ?held = "unavailableProbeDescription entry (unavailableProbeReason entry)"
  have done_write: "UpdateAlertDescription w i desc e = (fst (UpdateAlertDescription w i desc e), Inr ())" for i desc e
    using assms(1) by (simp add: UpdateAlertDescription_def exec_query_eq)
  have neq: "?held \<noteq> Description a"
    using held_unavailable[of entry "unavailableProbeReason entry"] held_not_staleness assms(3) by metis
  then have a1: "a1 = a\<lparr>Description := ?held\<rparr>"
    using assms(4) by (subst (asm) holdStalenessAlertForUnavailableProbe_def, subst (asm) set_description_def,
        subst (asm) done_write) simp
  then have "a3 = a1\<lparr>Description := Description a\<rparr>"
    using assms(2,3,5) neq held_unavailable
    by (subst (asm) restoreStalenessAlertDescription_def, subst (asm) set_description_def,
        subst (asm) done_write) (auto simp: Let_def)
  moreover have "restoreStalenessAlertDescription w a (ps_probe_name entry) (ps_connection_name entry)
        (ps_collection_interval entry) ratio threshold e = (e, a)"
    using assms(3) held_not_staleness by (simp add: restoreStalenessAlertDescription_def)
  ultimately show ?thesis
    using a1 held_unavailable
    by (simp add: holdStalenessAlertForUnavailableProbe_def set_description_def)
qed

definition held_entry :: probe_staleness where
  "held_entry = \<lparr>ps_connection_id = 1, ps_connection_name = ''db1'', ps_probe_name = ''pg_stat_activity'',
     ps_collection_interval = 60, ps_staleness_ratio = Fin 5, ps_since_collected = 300000000000,
     ps_last_collected = 0, ps_is_available = False, ps_unavailable_reason = None\<rparr>"

definition held_alert :: alert where
  "held_alert = (probe_alert sample_rule held_entry (Fin 5) (Fin 3) ''>'' ''warning'' ''Stale metrics''
     (stalenessAlertDescription ''pg_stat_activity'' ''db1'' (stalenessMinutes 60 (Fin 5))
       (stalenessMinutes 60 (Fin 3))) 0)"

theorem held_description_roundtrip_witness:
  "snd (restoreStalenessAlertDescription (sample_world (\<lambda>_. Done))
     (snd (holdStalenessAlertForUnavailableProbe (sample_world (\<lambda>_. Done)) held_alert held_entry (sample_engine [] [])))
     ''pg_stat_activity'' ''db1'' 60 (Fin 9) (Fin 3) (sample_engine [] [])) = held_alert"
proof -
  let ?w = "sample_world (\<lambda>_. Done)" and ?e = "sample_engine [] []"
  have "\<forall>n. w_outcome ?w n XDescription = Done" by (simp add: sample_world_def)
  moreover have "MetricValue held_alert = Some (Fin 5)"
    and "Description held_alert = stalenessAlertDescription (ps_probe_name held_entry)
      (ps_connection_name held_entry) (stalenessMinutes (ps_collection_interval held_entry) (Fin 5))
      (stalenessMinutes (ps_collection_interval held_entry) (Fin 3))"
    by (simp_all add: held_alert_def probe_alert_def held_entry_def)
  ultimately show ?thesis
    using held_description_roundtrip[of ?w held_alert "Fin 5" held_entry "Fin 3" ?e
        "fst (holdStalenessAlertForUnavailableProbe ?w held_alert held_entry ?e)"
        "snd (holdStalenessAlertForUnavailableProbe ?w held_alert held_entry ?e)" "Fin 9" ?e]
    by (simp add: held_entry_def prod_eq_iff)
qed

section \<open>Well-formed rows\<close>

text \<open>A row has one of the three states, and a clearing time exactly when it is cleared.\<close>

definition row_wf :: "alert_row \<Rightarrow> bool" where
  "row_wf r \<longleftrightarrow> al_status r \<in> {''active'', ''acknowledged'', ''cleared''}
     \<and> (al_status r = ''cleared'' \<longleftrightarrow> al_cleared_at r \<noteq> None)"

definition rows_wf :: "alert_db \<Rightarrow> bool" where
  "rows_wf d \<longleftrightarrow> (\<forall>r \<in> set (alerts d). row_wf r)"

definition others_keep_rows :: "world \<Rightarrow> bool" where
  "others_keep_rows w \<longleftrightarrow> (\<forall>n d. rows_wf d \<longrightarrow> rows_wf (w_others w n d))"

lemma rows_wf_update: "rows_wf d \<Longrightarrow> (\<And>r. row_wf r \<Longrightarrow> row_wf (f r)) \<Longrightarrow> rows_wf (update_alert i f d)"
  by (auto simp: rows_wf_def update_alert_def on_alerts_def)

lemma rows_wf_writes:
  assumes "rows_wf d"
  shows "rows_wf (reactivate i now d)" and "rows_wf (clear_row i now d)" and "rows_wf (describe_row i desc now d)"
    and "Status a = ''active'' \<Longrightarrow> rows_wf (add_alert w a d)"
  using assms
  by (auto simp: rows_wf_def row_wf_def reactivate_def Let_def on_alerts_def add_alert_def alert_to_row_def
      clear_row_def describe_row_def update_alert_def)

lemma move_rows:
  assumes "move w e op e'" and "others_keep_rows w" and "rows_wf (en_db e)"
  shows "rows_wf (en_db e')"
proof -
  have others: "rows_wf (w_others w n d)" if "rows_wf d" for n d
    using assms(2) that by (simp add: others_keep_rows_def)
  from assms(1) show ?thesis
    by cases (use assms(3) in \<open>auto simp: keeps_status_def row_wf_def
        intro!: others rows_wf_writes rows_wf_update\<close>)
qed

lemma clean_move_rows:
  assumes "clean_move w A e op e'" and "others_keep_rows w" and "rows_wf (en_db e)"
  shows "rows_wf (en_db e')"
proof -
  have others: "rows_wf (w_others w n d)" if "rows_wf d" for n d
    using assms(2) that by (simp add: others_keep_rows_def)
  from assms(1) show ?thesis
    by cases (use assms(3) in \<open>auto intro!: others rows_wf_writes\<close>)
qed

lemma run_pass_rows:
  assumes "others_keep_rows (pass_world p)" and "rows_wf (en_db e)"
  shows "rows_wf (en_db (run_pass p e))"
proof (cases p)
  case (EvaluatePass w)
  obtain ops where "trace w e ops (evaluateThresholds w e)" by (rule evaluateThresholds_trace)
  then have "rows_wf (en_db (evaluateThresholds w e))"
    using assms EvaluatePass by (induction rule: trace.induct) (auto intro: move_rows)
  with EvaluatePass show ?thesis by simp
next
  case (CleanPass w)
  obtain ops where "clean_trace w (active_alerts w e) e ops (cleanResolvedAlerts w e)"
    by (rule cleanResolvedAlerts_trace)
  then have "rows_wf (en_db (cleanResolvedAlerts w e))"
    using assms CleanPass by (induction rule: clean_trace.induct) (auto intro: clean_move_rows)
  with CleanPass show ?thesis by simp
qed

text \<open>
  C22. Rows stay well formed. Over any sequence of passes of the evaluator and the cleaner,
  with any statements failing and the others keeping it so, every row of the alerts table is
  active, acknowledged or cleared, and has a clearing time exactly when it is cleared: the
  cooldown, the retention and the timeline read that column for the time of a clearing.
\<close>

theorem passes_keep_rows_well_formed:
  assumes "\<forall>p \<in> set ps. others_keep_rows (pass_world p)" and "rows_wf (en_db e)"
  shows "rows_wf (en_db (fold run_pass ps e))"
  using assms by (induction ps arbitrary: e) (auto intro: run_pass_rows)

theorem passes_keep_rows_well_formed_witness:
  "rows_wf (en_db (fold run_pass [CleanPass (sample_world (\<lambda>_. Done)), EvaluatePass (sample_world (\<lambda>_. Lost))]
     (sample_engine [recovered_row] [])))"
proof (rule passes_keep_rows_well_formed)
  show "rows_wf (en_db (sample_engine [recovered_row] []))"
    by (simp add: rows_wf_def row_wf_def sample_engine_def sample_db_def recovered_row_def sample_row_def
        alert_to_row_def threshold_alert_def)
qed (simp add: others_keep_rows_def sample_world_def)

end
