(* ===== verification/Conn_String.thy ===== *)
theory Conn_String
  imports Go_Strings Decimal_Text
begin

text \<open>
  Connection strings (\<^verbatim>\<open>pkg/connstring\<close>): building one from parameters and removing the
  passwords from one. The scanner of the redactor follows libpq. A position in a string is the
  text that remains from it, and a span is the text it covers. The order in which a Go map is
  ranged over is the order of the list that stands for it.
\<close>

section \<open>Building\<close>

definition EscapeValue :: "string \<Rightarrow> string" where
  "EscapeValue v =
     (let v = strings_ReplaceAll v [backslash] [backslash, backslash];
          v = strings_ReplaceAll v [squote] [squote, squote] in v)"

definition build_part :: "string \<times> string \<Rightarrow> string" where
  "build_part p = (case p of (key, v) \<Rightarrow> key @ CHR ''='' # squote # EscapeValue v @ [squote])"

definition Build :: "(string, string) gomap \<Rightarrow> string" where
  "Build params = strings_Join (CHR '' '') (map build_part params)"

record datastoreConfig =
  dc_Host :: string
  dc_HostAddr :: string
  dc_Database :: string
  dc_Username :: string
  dc_Password :: string
  dc_PasswordFile :: string
  dc_Port :: int
  dc_SSLMode :: string
  dc_SSLCert :: string
  dc_SSLKey :: string
  dc_SSLRootCert :: string

definition set_param :: "string \<Rightarrow> string \<Rightarrow> (string, string) gomap \<Rightarrow> (string, string) gomap" where
  "set_param key v m = (if v = [] then m else AList.update key v m)"

definition config_params :: "datastoreConfig \<Rightarrow> string \<Rightarrow> (string, string) gomap" where
  "config_params cfg applicationName =
     (let m = AList.update ''dbname'' (dc_Database cfg) [];
          m = AList.update ''user'' (dc_Username cfg) m;
          m = set_param ''hostaddr'' (dc_HostAddr cfg) m;
          m = set_param ''host'' (dc_Host cfg) m;
          m = (if dc_Port cfg \<noteq> 0 then AList.update ''port'' (FormatInt (dc_Port cfg)) m else m);
          m = set_param ''password'' (dc_Password cfg) m;
          m = set_param ''sslmode'' (dc_SSLMode cfg) m;
          m = set_param ''sslcert'' (dc_SSLCert cfg) m;
          m = set_param ''sslkey'' (dc_SSLKey cfg) m;
          m = set_param ''sslrootcert'' (dc_SSLRootCert cfg) m
      in set_param ''application_name'' applicationName m)"

text \<open>\<open>rangeOver\<close> is the order in which the runtime ranges over the map.\<close>

definition BuildFromConfig ::
  "((string, string) gomap \<Rightarrow> (string, string) gomap) \<Rightarrow> datastoreConfig \<Rightarrow> string \<Rightarrow> string" where
  "BuildFromConfig rangeOver cfg applicationName = Build (rangeOver (config_params cfg applicationName))"

section \<open>Keyword and value pairs\<close>

definition RedactedPassword :: string where "RedactedPassword = ''********''"

datatype conn_error = errMalformed

definition uriPrefixes :: "string list" where
  "uriPrefixes = [''postgresql://'', ''postgres://'']"

definition isPasswordKey :: "unicode_tables \<Rightarrow> string \<Rightarrow> bool" where
  "isPasswordKey uc key \<longleftrightarrow> strings_ToLower uc key \<in> {''password'', ''sslpassword''}"

definition hasURIPrefix :: "string \<Rightarrow> bool" where
  "hasURIPrefix s \<longleftrightarrow> list_ex (has_prefix s) uriPrefixes"

definition isConnSpace :: "char \<Rightarrow> bool" where
  "isConnSpace c \<longleftrightarrow> c \<in> {CHR '' '', CHR 0x09, CHR 0x0A, CHR 0x0B, CHR 0x0C, CHR 0x0D}"

record span =
  sp_text :: string
  sp_decoded :: string

definition span_cons :: "string \<Rightarrow> string \<Rightarrow> span \<times> string \<Rightarrow> span \<times> string" where
  "span_cons raw dec r = (case r of (sp, rest) \<Rightarrow>
     (\<lparr>sp_text = raw @ sp_text sp, sp_decoded = dec @ sp_decoded sp\<rparr>, rest))"

text \<open>The loops of \<open>scanKeywordValue\<close>, in a quoted value after its quote and in an unquoted one.\<close>

fun scanQuoted :: "string \<Rightarrow> conn_error + span \<times> string" where
  "scanQuoted [] = Inl errMalformed"
| "scanQuoted [c] = (if c = squote then Inr (\<lparr>sp_text = [c], sp_decoded = []\<rparr>, []) else Inl errMalformed)"
| "scanQuoted (c # d # s) =
     (if c = backslash then map_sum id (span_cons [c, d] [d]) (scanQuoted s)
      else if c = squote then Inr (\<lparr>sp_text = [c], sp_decoded = []\<rparr>, d # s)
      else map_sum id (span_cons [c] [c]) (scanQuoted (d # s)))"

fun scanUnquoted :: "string \<Rightarrow> span \<times> string" where
  "scanUnquoted [] = (\<lparr>sp_text = [], sp_decoded = []\<rparr>, [])"
| "scanUnquoted [c] =
     (if isConnSpace c then (\<lparr>sp_text = [], sp_decoded = []\<rparr>, [c])
      else (\<lparr>sp_text = [c], sp_decoded = (if c = backslash then [] else [c])\<rparr>, []))"
| "scanUnquoted (c # d # s) =
     (if isConnSpace c then (\<lparr>sp_text = [], sp_decoded = []\<rparr>, c # d # s)
      else if c = backslash then span_cons [c, d] [d] (scanUnquoted s)
      else span_cons [c] [c] (scanUnquoted (d # s)))"

definition scanKeywordValue :: "string \<Rightarrow> conn_error + span \<times> string" where
  "scanKeywordValue s =
     (case s of
        c # r \<Rightarrow> if c = squote then map_sum id (span_cons [c] []) (scanQuoted r) else Inr (scanUnquoted s)
      | [] \<Rightarrow> Inr (scanUnquoted s))"

text \<open>
  One round of the loop of \<open>redactKeywordValue\<close>: what stands before the value (blanks, the
  keyword, the equals sign), the keyword, and the value.
\<close>

record conn_pair =
  cp_before :: string
  cp_key :: string
  cp_value :: span

definition scanPair :: "string \<Rightarrow> conn_error + conn_pair \<times> string" where
  "scanPair s =
     (let s1 = dropWhile isConnSpace s;
          key = takeWhile (\<lambda>c. c \<noteq> CHR ''='' \<and> \<not> isConnSpace c) s1;
          s2 = dropWhile isConnSpace (drop (length key) s1)
      in if s2 = [] \<or> hd s2 \<noteq> CHR ''='' then Inl errMalformed
         else let s3 = dropWhile isConnSpace (tl s2) in
           res_bind (scanKeywordValue s3) (\<lambda>(val, rest).
             Inr (\<lparr>cp_before = take (length s - length s3) s, cp_key = key, cp_value = val\<rparr>, rest)))"

lemma scanQuoted_text:
  "scanQuoted s = Inr (sp, rest) \<Longrightarrow> s = sp_text sp @ rest \<and> length (sp_decoded sp) \<le> length (sp_text sp)"
  by (induction s arbitrary: sp rest rule: scanQuoted.induct)
     (force simp: span_cons_def map_sum_def split: if_splits sum.splits)+

lemma scanUnquoted_text:
  "scanUnquoted s = (sp, rest) \<Longrightarrow> s = sp_text sp @ rest \<and> length (sp_decoded sp) \<le> length (sp_text sp)"
  by (induction s arbitrary: sp rest rule: scanUnquoted.induct)
     (fastforce simp: span_cons_def split: if_splits prod.splits)+

lemma scanKeywordValue_text:
  assumes "scanKeywordValue s = Inr (sp, rest)"
  shows "s = sp_text sp @ rest \<and> length (sp_decoded sp) \<le> length (sp_text sp)"
  using assms scanUnquoted_text[of s sp rest]
  by (auto simp: scanKeywordValue_def span_cons_def map_sum_def split: list.splits if_splits sum.splits
        dest!: scanQuoted_text)

lemma suffix_dropWhile: "\<exists>u. s = u @ dropWhile P s"
  by (metis takeWhile_dropWhile_id)

lemma scanPair_text:
  assumes "scanPair s = Inr (p, rest)"
  shows "s = cp_before p @ sp_text (cp_value p) @ rest \<and> cp_before p \<noteq> []
    \<and> length (sp_decoded (cp_value p)) \<le> length (sp_text (cp_value p))"
proof -
  define s1 where "s1 = dropWhile isConnSpace s"
  define key where "key = takeWhile (\<lambda>c. c \<noteq> CHR ''='' \<and> \<not> isConnSpace c) s1"
  define s2 where "s2 = dropWhile isConnSpace (drop (length key) s1)"
  define s3 where "s3 = dropWhile isConnSpace (tl s2)"
  note defs = scanPair_def Let_def s1_def[symmetric] key_def[symmetric] s2_def[symmetric] s3_def[symmetric]
  have ok: "s2 \<noteq> []" "hd s2 = CHR ''=''" using assms unfolding defs by (auto split: if_splits)
  then obtain val where val: "scanKeywordValue s3 = Inr (val, rest)"
    and p: "p = \<lparr>cp_before = take (length s - length s3) s, cp_key = key, cp_value = val\<rparr>"
    using assms unfolding defs by (auto simp: res_bind_eq_Inr)
  obtain u1 where u1: "s = u1 @ s1" using suffix_dropWhile[of s isConnSpace] unfolding s1_def by blast
  obtain u2 where u2: "drop (length key) s1 = u2 @ s2"
    using suffix_dropWhile[of "drop (length key) s1" isConnSpace] unfolding s2_def by blast
  obtain u3 where u3: "tl s2 = u3 @ s3" using suffix_dropWhile[of "tl s2" isConnSpace] unfolding s3_def by blast
  have "s = (u1 @ take (length key) s1 @ u2 @ [hd s2] @ u3) @ s3"
    using u1 u2 u3 ok by (metis append.assoc append_Cons append_Nil append_take_drop_id list.collapse)
  then obtain u where u: "s = u @ s3" "u \<noteq> []" by (metis append_is_Nil_conv list.distinct(1))
  then have "take (length s - length s3) s = u" by simp
  then show ?thesis using u p scanKeywordValue_text[OF val] by auto
qed

text \<open>The pairs of a string and the blanks after the last.\<close>

function scanPairs :: "string \<Rightarrow> conn_error + conn_pair list \<times> string" where
  "scanPairs s =
     (if dropWhile isConnSpace s = [] then Inr ([], s)
      else case scanPair s of
        Inl err \<Rightarrow> Inl err
      | Inr (p, rest) \<Rightarrow> map_sum id (map_prod (Cons p) id) (scanPairs rest))"
  by pat_completeness auto
termination
proof (relation "measure length", goal_cases)
  case (2 s r p rest)
  then have "s = cp_before p @ sp_text (cp_value p) @ rest" "cp_before p \<noteq> []"
    using scanPair_text[of s p rest] by auto
  then show ?case by (metis append.assoc append_is_Nil_conv in_measure length_append length_greater_0_conv less_add_same_cancel2)
qed simp

declare scanPairs.simps [simp del]

lemma scanPairs_end: "dropWhile isConnSpace s = [] \<Longrightarrow> scanPairs s = Inr ([], s)"
  by (subst scanPairs.simps) simp

lemma scanPairs_step:
  assumes "dropWhile isConnSpace s \<noteq> []"
  shows "scanPairs s = (case scanPair s of
      Inl err \<Rightarrow> Inl err
    | Inr (p, rest) \<Rightarrow> map_sum id (map_prod (Cons p) id) (scanPairs rest))"
  using assms by (subst scanPairs.simps) (simp only: if_False)

lemma scanPairs_shorter:
  assumes "scanPairs s = Inr (ps, tail)" and "p \<in> set ps"
  shows "length (sp_decoded (cp_value p)) < length s"
  using assms
proof (induction s arbitrary: ps rule: scanPairs.induct)
  case (1 s)
  have ne: "dropWhile isConnSpace s \<noteq> []" using "1.prems" scanPairs_end[of s] by (cases ps) auto
  with "1.prems" obtain p1 rest qs where p1: "scanPair s = Inr (p1, rest)"
    and qs: "scanPairs rest = Inr (qs, tail)" "ps = p1 # qs"
    by (auto simp: scanPairs_step map_sum_def map_prod_def simp del: dropWhile_eq_Nil_conv split: sum.splits)
  note parts = scanPair_text[OF p1]
  have sum: "length s = length (cp_before p1) + length (sp_text (cp_value p1)) + length rest"
    using parts by (metis add.assoc length_append)
  have b: "length (cp_before p1) > 0" using parts by simp
  show ?case
  proof (cases "p = p1")
    case True
    show ?thesis unfolding True using parts[THEN conjunct2, THEN conjunct2] sum b by linarith
  next
    case False
    then have "length (sp_decoded (cp_value p)) < length rest"
      using "1.IH"[OF ne p1 refl qs(1)] qs(2) "1.prems"(2) by simp
    then show ?thesis using sum by linarith
  qed
qed

section \<open>URIs\<close>

fun queryStart :: "bool \<Rightarrow> string \<Rightarrow> nat option" where
  "queryStart inBrackets [] = None"
| "queryStart inBrackets (c # s) =
     (if c = CHR ''['' then map_option Suc (queryStart True s)
      else if c = CHR '']'' then map_option Suc (queryStart False s)
      else if c = CHR ''?'' \<and> \<not> inBrackets then Some 0
      else map_option Suc (queryStart inBrackets s))"

definition redact_userinfo :: "string \<Rightarrow> string" where
  "redact_userinfo userinfo =
     (case strings_Index userinfo '':'' of
        Some colon \<Rightarrow> if colon + 1 < length userinfo then take (colon + 1) userinfo @ RedactedPassword else userinfo
      | None \<Rightarrow> userinfo)"

definition redact_param :: "unicode_tables \<Rightarrow> string \<Rightarrow> string" where
  "redact_param uc param =
     (case strings_Index param ''='' of
        None \<Rightarrow> param
      | Some eq \<Rightarrow>
          let key = take eq param;
              key = (case url_PathUnescape key of Some decoded \<Rightarrow> decoded | None \<Rightarrow> key)
          in if isPasswordKey uc key then take (eq + 1) param @ RedactedPassword else param)"

definition redact_query :: "unicode_tables \<Rightarrow> string \<Rightarrow> string" where
  "redact_query uc rest =
     (case queryStart False rest of
        None \<Rightarrow> rest
      | Some q \<Rightarrow> take (q + 1) rest @
          strings_Join (CHR ''&'') (map (redact_param uc) (strings_Split (CHR ''&'') (drop (q + 1) rest))))"

definition redactURI :: "unicode_tables \<Rightarrow> string \<Rightarrow> string" where
  "redactURI uc s =
     (let prefixLen = (case find (has_prefix s) uriPrefixes of None \<Rightarrow> 0 | Some p \<Rightarrow> length p);
          rest = drop prefixLen s;
          userinfo = takeWhile (\<lambda>c. c \<noteq> CHR ''@'' \<and> c \<noteq> CHR ''/'') rest;
          after = drop (length userinfo) rest
      in take prefixLen s @
         (if after \<noteq> [] \<and> hd after = CHR ''@''
          then redact_userinfo userinfo @ ''@'' @ redact_query uc (tl after)
          else redact_query uc rest))"

section \<open>Redaction\<close>

definition looksLikeConnString :: "string \<Rightarrow> bool" where
  "looksLikeConnString s \<longleftrightarrow> hasURIPrefix s \<or> strings_Contains s ''=''"

function RedactPasswords :: "unicode_tables \<Rightarrow> string \<Rightarrow> string"
  and redactKeywordValue :: "unicode_tables \<Rightarrow> string \<Rightarrow> conn_error + string" where
  "RedactPasswords uc conninfo =
     (if hasURIPrefix conninfo then redactURI uc conninfo
      else case redactKeywordValue uc conninfo of
        Inl err \<Rightarrow> RedactedPassword
      | Inr out \<Rightarrow> out)"
| "redactKeywordValue uc s =
     (case scanPairs s of
        Inl err \<Rightarrow> Inl err
      | Inr (ps, tail) \<Rightarrow>
          Inr (concat (map (\<lambda>p. cp_before p @
            (let val = cp_value p in
             if isPasswordKey uc (cp_key p) then RedactedPassword
             else if strings_EqualFold (cp_key p) ''dbname'' \<and> looksLikeConnString (sp_decoded val)
             then let inner = RedactPasswords uc (sp_decoded val) in
               if inner \<noteq> sp_decoded val then squote # EscapeValue inner @ [squote] else sp_text val
             else sp_text val)) ps) @ tail))"
  by pat_completeness auto
termination
  by (relation "measure (\<lambda>x. case x of Inl (uc, s) \<Rightarrow> 2 * length s + 1 | Inr (uc, s) \<Rightarrow> 2 * length s)")
     (auto dest: scanPairs_shorter)

declare RedactPasswords.simps [simp del] redactKeywordValue.simps [simp del]

end
