(* ===== verification/Pg_Settings.thy ===== *)
theory Pg_Settings
  imports Conn_String
begin

text \<open>
  Redaction of PostgreSQL settings (\<^verbatim>\<open>pkg/pgsettings\<close>): which settings can hold a credential,
  and what remains of their values. A shell command keeps the names of its leading assignments
  and its program name.
\<close>

section \<open>Which settings\<close>

definition RedactedValue :: string where "RedactedValue = RedactedPassword"

text \<open>Go maps to \<open>true\<close>, as the lists of their keys.\<close>

definition conninfoSettings :: "string list" where
  "conninfoSettings = [''primary_conninfo'']"

definition pg_wholeValueSettings :: "string list" where
  "pg_wholeValueSettings = [''ssl_passphrase_command'']"

definition NonCredentialSettings :: "string list" where
  "NonCredentialSettings = [''md5_password_warnings'', ''password_encryption'', ''ssl_passphrase_command_supports_reload'']"

definition shellCommandSettings :: "string list" where
  "shellCommandSettings = [''archive_command'', ''archive_cleanup_command'', ''restore_command'', ''recovery_end_command'']"

definition CredentialSettings :: "string list" where
  "CredentialSettings = sort (conninfoSettings @ pg_wholeValueSettings @ shellCommandSettings)"

definition customSecretFragments :: "string list" where
  "customSecretFragments = [''password'', ''passwd'', ''passphrase'', ''secret'', ''token'', ''credential'', ''private_key'']"

definition IsCredentialSetting :: "unicode_tables \<Rightarrow> string \<Rightarrow> bool" where
  "IsCredentialSetting uc name =
     (let name = strings_ToLower uc name in
      if name \<in> set conninfoSettings \<or> name \<in> set pg_wholeValueSettings \<or> name \<in> set shellCommandSettings then True
      else if \<not> strings_Contains name ''.'' then False
      else list_ex (strings_Contains name) customSecretFragments)"

definition IsConnectionStringSetting :: "unicode_tables \<Rightarrow> string \<Rightarrow> bool" where
  "IsConnectionStringSetting uc name \<longleftrightarrow> strings_ToLower uc name \<in> set conninfoSettings"

section \<open>Shell words\<close>

definition isShellBlank :: "char \<Rightarrow> bool" where
  "isShellBlank c \<longleftrightarrow> c = CHR '' '' \<or> c = CHR 0x09"

definition unsafeShellChars :: string where
  "unsafeShellChars = '';&|<>()`$'' @ [CHR 0x0A, CHR 0x0D]"

text \<open>The rest of the text after a double-quoted string, from just after its opening quote.\<close>

fun skipDoubleQuoted :: "string \<Rightarrow> string option" where
  "skipDoubleQuoted [] = None"
| "skipDoubleQuoted (c # s) =
     (if c = dquote then Some s
      else if c = CHR ''$'' \<or> c = CHR ''`'' then None
      else if c = backslash then skipDoubleQuoted (tl s)
      else skipDoubleQuoted s)"

definition skipShellWordPart :: "string \<Rightarrow> string option" where
  "skipShellWordPart s =
     (case s of
        [] \<Rightarrow> None
      | c # r \<Rightarrow>
          if c = squote then
            (case strings_Index r [squote] of None \<Rightarrow> None | Some e \<Rightarrow> Some (drop (e + 1) r))
          else if c = dquote then skipDoubleQuoted r
          else if c = backslash then (if r = [] then None else Some (tl r))
          else if c \<in> set unsafeShellChars then None
          else Some r)"

lemma skipDoubleQuoted_shorter: "skipDoubleQuoted s = Some r \<Longrightarrow> length r < length s"
  by (induction s arbitrary: r rule: skipDoubleQuoted.induct) (fastforce split: if_splits)+

lemma skipShellWordPart_shorter: "skipShellWordPart s = Some r \<Longrightarrow> length r < length s"
  by (auto simp: skipShellWordPart_def split: list.splits if_splits option.splits dest: skipDoubleQuoted_shorter)

text \<open>The text left after the first word, or nothing when the word cannot be picked out.\<close>

function shellWordEnd :: "string \<Rightarrow> string option" where
  "shellWordEnd s =
     (case s of
        [] \<Rightarrow> Some []
      | c # r \<Rightarrow>
          if isShellBlank c then Some s
          else case skipShellWordPart s of None \<Rightarrow> None | Some t \<Rightarrow> shellWordEnd t)"
  by pat_completeness auto
termination
  by (relation "measure length") (auto dest: skipShellWordPart_shorter)

declare shellWordEnd.simps [simp del]

definition nextShellWord :: "string \<Rightarrow> (string \<times> string) option" where
  "nextShellWord s = map_option (\<lambda>rest. (take (length s - length rest) s, rest)) (shellWordEnd s)"

fun isBlankShellWord :: "string \<Rightarrow> bool" where
  "isBlankShellWord [] = True"
| "isBlankShellWord (c # s) =
     (if c = squote \<or> c = dquote then isBlankShellWord s
      else if c = backslash then
        (if s \<noteq> [] \<and> \<not> isShellBlank (hd s) then False else isBlankShellWord (tl s))
      else if \<not> isShellBlank c then False
      else isBlankShellWord s)"

definition is_letter :: "char \<Rightarrow> bool" where
  "is_letter c \<longleftrightarrow> CHR ''A'' \<le> c \<and> c \<le> CHR ''Z'' \<or> CHR ''a'' \<le> c \<and> c \<le> CHR ''z''"

definition is_decimal :: "char \<Rightarrow> bool" where
  "is_decimal c \<longleftrightarrow> CHR ''0'' \<le> c \<and> c \<le> CHR ''9''"

text \<open>The code ranges over runes; a rune outside ASCII is refused, as each of its bytes is here.\<close>

definition isShellVariableName :: "string \<Rightarrow> bool" where
  "isShellVariableName name =
     (case name of
        [] \<Rightarrow> False
      | c # s \<Rightarrow> (c = CHR ''_'' \<or> is_letter c) \<and> list_all (\<lambda>c. c = CHR ''_'' \<or> is_letter c \<or> is_decimal c) s)"

definition isPlainProgramName :: "string \<Rightarrow> bool" where
  "isPlainProgramName word = list_all (\<lambda>c. is_letter c \<or> is_decimal c \<or> c \<in> set ''_./+-~'') word"

section \<open>Redaction\<close>

definition trimBlanks :: "string \<Rightarrow> string" where
  "trimBlanks s = dropWhile isShellBlank s"

lemma shellWordEnd_shorter:
  "shellWordEnd s = Some r \<Longrightarrow> s \<noteq> [] \<Longrightarrow> \<not> isShellBlank (hd s) \<Longrightarrow> length r < length s"
proof (induction s arbitrary: r rule: shellWordEnd.induct)
  case (1 s)
  obtain c u where s: "s = c # u" using "1.prems" by (cases s) auto
  then obtain t where t: "skipShellWordPart s = Some t" "shellWordEnd t = Some r"
    using "1.prems" by (subst (asm) shellWordEnd.simps) (auto split: option.splits)
  have "length t < length s" using skipShellWordPart_shorter[OF t(1)] .
  moreover have "length r \<le> length t"
  proof (cases "t = [] \<or> isShellBlank (hd t)")
    case True
    then show ?thesis using t(2) by (subst (asm) shellWordEnd.simps) (cases t; auto)
  next
    case False
    then show ?thesis using "1.IH"[of c u t r] s t "1.prems" by fastforce
  qed
  ultimately show ?case by simp
qed

text \<open>
  The loop of \<open>RedactShellCommand\<close> over the words from a position that is not blank: the words
  to show, or nothing when the command is redacted in full.
\<close>

function shellWords :: "string \<Rightarrow> string list option" where
  "shellWords rest =
     (if rest = [] \<or> isShellBlank (hd rest) then Some []
      else case nextShellWord rest of
        None \<Rightarrow> None
      | Some (word, after) \<Rightarrow>
          let rest = trimBlanks after in
          (case strings_Index word ''='' of
             Some eq \<Rightarrow>
               let envName = take eq word; envValue = drop (eq + 1) word in
               if \<not> isShellVariableName envName \<or> isBlankShellWord envValue then None
               else map_option (Cons (envName @ ''='' @ RedactedValue)) (shellWords rest)
           | None \<Rightarrow>
               if \<not> isPlainProgramName word then None
               else Some (word # (if rest \<noteq> [] then [RedactedValue] else []))))"
  by pat_completeness auto
termination
proof (relation "measure length", goal_cases)
  case (2 rest r word after)
  then have "length after < length rest"
    using shellWordEnd_shorter[of rest after] by (auto simp: nextShellWord_def)
  moreover have "length (trimBlanks after) \<le> length after" by (simp add: trimBlanks_def length_dropWhile_le)
  ultimately show ?case using 2 by simp
qed simp

declare shellWords.simps [simp del]

definition RedactShellCommand :: "string \<Rightarrow> string" where
  "RedactShellCommand command =
     (if strings_Contains command [backslash, CHR 0x0A] then RedactedValue
      else let rest = trimBlanks command in
        if rest = [] then command
        else case shellWords rest of
          None \<Rightarrow> RedactedValue
        | Some out \<Rightarrow> strings_Join (CHR '' '') out)"

definition RedactValue :: "unicode_tables \<Rightarrow> string \<Rightarrow> string \<Rightarrow> string" where
  "RedactValue uc name v =
     (if v = [] \<or> \<not> IsCredentialSetting uc name then v
      else let lower = strings_ToLower uc name in
        if lower \<in> set conninfoSettings then RedactPasswords uc v
        else if lower \<in> set shellCommandSettings then RedactShellCommand v
        else RedactedValue)"

end
