(* ===== verification/Sql_Redact.thy ===== *)
theory Sql_Redact
  imports Pg_Settings
begin

text \<open>
  Redaction of statement text (\<^verbatim>\<open>pkg/sqlredact\<close>): the lexer, the names that mark a secret, and the
  walk over the tokens that replaces the constants behind them. A token carries the slices of
  the text that its offsets delimit; a position of the lexer is the text that remains from it,
  and an offset at a token boundary is the number of the token.
\<close>

section \<open>Names\<close>

definition redactedLiteral :: string where
  "redactedLiteral = squote # RedactedPassword @ [squote]"

definition secretNameFragments :: "string list" where
  "secretNameFragments = [''password'', ''passwd'', ''passphrase'', ''secret'', ''token'', ''credential'', ''private_key'']"

definition nonSecretNames :: "string list" where
  "nonSecretNames = NonCredentialSettings @ [''password_required'']"

definition wholeValueSettings :: "unicode_tables \<Rightarrow> string list" where
  "wholeValueSettings uc = filter (\<lambda>name. \<not> IsConnectionStringSetting uc name) CredentialSettings"

definition triggerFragments :: "unicode_tables \<Rightarrow> string list" where
  "triggerFragments uc = [''pass'', ''secret'', ''token'', ''credential'', ''private_key'',
     ''postgres://'', ''postgresql://''] @ wholeValueSettings uc"

definition MightContainSecret :: "unicode_tables \<Rightarrow> string \<Rightarrow> bool" where
  "MightContainSecret uc s = list_ex (strings_Contains (strings_ToLower uc s)) (triggerFragments uc)"

definition CandidatePatterns :: "unicode_tables \<Rightarrow> string list" where
  "CandidatePatterns uc = map (\<lambda>f. ''%'' @ f @ ''%'') (triggerFragments uc)"

definition isSecretName :: "unicode_tables \<Rightarrow> string \<Rightarrow> bool" where
  "isSecretName uc name =
     (let name = strings_ToLower uc name in
      if name \<in> set nonSecretNames then False
      else if name \<in> set (wholeValueSettings uc) then True
      else list_ex (strings_Contains name) secretNameFragments)"

section \<open>Tokens\<close>

datatype tokenKind = tokSpace | tokComment | tokIdent | tokQuotedIdent | tokString | tokDollar | tokOp | tokOther

text \<open>\<open>tk_open\<close> is the text from the start of the token to its body.\<close>

record token =
  tk_kind :: tokenKind
  tk_text :: string
  tk_open :: string
  tk_body :: string
  tk_escapes :: bool
  tk_unicode :: bool
  tk_terminated :: bool
  tk_tag :: string

definition plain_token :: "tokenKind \<Rightarrow> string \<Rightarrow> token" where
  "plain_token k s = \<lparr>tk_kind = k, tk_text = s, tk_open = [], tk_body = [], tk_escapes = False,
     tk_unicode = False, tk_terminated = False, tk_tag = []\<rparr>"

definition isLiteral :: "token \<Rightarrow> bool" where
  "isLiteral t \<longleftrightarrow> tk_kind t = tokString \<or> tk_kind t = tokDollar"

definition token_is :: "token \<Rightarrow> tokenKind \<Rightarrow> string \<Rightarrow> bool" where
  "token_is t k word \<longleftrightarrow> tk_kind t = k \<and> strings_EqualFold (tk_text t) word"

definition isSpace :: "char \<Rightarrow> bool" where
  "isSpace c \<longleftrightarrow> c \<in> {CHR '' '', CHR 0x09, CHR 0x0A, CHR 0x0D, CHR 0x0C, CHR 0x0B}"

definition isDigit :: "char \<Rightarrow> bool" where
  "isDigit c \<longleftrightarrow> CHR ''0'' \<le> c \<and> c \<le> CHR ''9''"

definition isIdentStart :: "char \<Rightarrow> bool" where
  "isIdentStart c \<longleftrightarrow> CHR ''a'' \<le> c \<and> c \<le> CHR ''z'' \<or> CHR ''A'' \<le> c \<and> c \<le> CHR ''Z'' \<or> c = CHR ''_'' \<or> byte_of c \<ge> 128"

definition isIdentCont :: "char \<Rightarrow> bool" where
  "isIdentCont c \<longleftrightarrow> isIdentStart c \<or> isDigit c \<or> c = CHR ''$''"

definition isOpChar :: "char \<Rightarrow> bool" where
  "isOpChar c \<longleftrightarrow> c \<in> set ''=<>:!''"

definition constantName :: "token \<Rightarrow> string option" where
  "constantName t =
     (if tk_kind t \<noteq> tokString \<or> length (tk_open t) \<noteq> 1 \<or> \<not> tk_terminated t then None
      else if \<not> list_all (\<lambda>c. isIdentCont c \<or> c = CHR ''.'') (tk_body t) then None
      else if tk_body t = [] then None else Some (tk_body t))"

definition isName :: "token \<Rightarrow> bool" where
  "isName t \<longleftrightarrow> tk_kind t = tokIdent \<or> tk_kind t = tokQuotedIdent"

definition token_name :: "token \<Rightarrow> string" where
  "token_name t =
     (if tk_kind t = tokQuotedIdent then strings_ReplaceAll (tk_body t) [dquote, dquote] [dquote]
      else tk_text t)"

definition isSeparator :: "token \<Rightarrow> bool" where
  "isSeparator t =
     (case tk_kind t of
        tokOp \<Rightarrow> tk_text t \<in> {''='', ''=>'', '':=''}
      | tokIdent \<Rightarrow> strings_EqualFold (tk_text t) ''to''
      | _ \<Rightarrow> False)"

definition ambiguousEscapes :: "token \<Rightarrow> bool" where
  "ambiguousEscapes t \<longleftrightarrow>
     tk_kind t = tokString \<and> \<not> tk_escapes t \<and> \<not> tk_unicode t \<and> strings_Contains (tk_body t) [backslash]"

section \<open>The lexer\<close>

text \<open>The text after a block comment, the nesting being \<open>depth\<close>.\<close>

fun afterBlockComment :: "nat \<Rightarrow> string \<Rightarrow> string" where
  "afterBlockComment depth [] = []"
| "afterBlockComment depth [c] = []"
| "afterBlockComment depth (c # d # s) =
     (if c = CHR ''/'' \<and> d = CHR ''*'' then afterBlockComment (depth + 1) s
      else if c = CHR ''*'' \<and> d = CHR ''/'' then (if depth = 1 then s else afterBlockComment (depth - 1) s)
      else afterBlockComment depth (d # s))"

definition consumed :: "string \<Rightarrow> string \<Rightarrow> string" where
  "consumed s rest = take (length s - length rest) s"

definition lexBlockComment :: "string \<Rightarrow> token \<times> string" where
  "lexBlockComment s =
     (let rest = afterBlockComment 0 s in (plain_token tokComment (consumed s rest), rest))"

text \<open>
  The loops of \<open>lexString\<close> and \<open>lexQuotedIdent\<close> from just after the opening quote: the body,
  whether it is closed, and the text after it.
\<close>

definition body_cons :: "string \<Rightarrow> string \<times> bool \<times> string \<Rightarrow> string \<times> bool \<times> string" where
  "body_cons cs r = (case r of (body, closed, rest) \<Rightarrow> (cs @ body, closed, rest))"

fun quotedBody :: "char \<Rightarrow> bool \<Rightarrow> string \<Rightarrow> string \<times> bool \<times> string" where
  "quotedBody q escapes [] = ([], False, [])"
| "quotedBody q escapes [c] = (if c = q then ([], True, []) else ([c], False, []))"
| "quotedBody q escapes (c # d # s) =
     (if c = q \<and> d = q then body_cons [c, d] (quotedBody q escapes s)
      else if c = q then ([], True, d # s)
      else if escapes \<and> c = backslash then body_cons [c, d] (quotedBody q escapes s)
      else body_cons [c] (quotedBody q escapes (d # s)))"

definition lexString :: "string \<Rightarrow> bool \<Rightarrow> bool \<Rightarrow> string \<Rightarrow> token \<times> string" where
  "lexString opener escapes unicode s =
     (case quotedBody squote escapes s of (body, closed, rest) \<Rightarrow>
        (\<lparr>tk_kind = tokString, tk_text = opener @ body @ (if closed then [squote] else []),
          tk_open = opener, tk_body = body, tk_escapes = escapes, tk_unicode = unicode,
          tk_terminated = closed, tk_tag = []\<rparr>, rest))"

definition lexQuotedIdent :: "string \<Rightarrow> token \<times> string" where
  "lexQuotedIdent s =
     (case quotedBody dquote False s of (body, closed, rest) \<Rightarrow>
        (\<lparr>tk_kind = tokQuotedIdent, tk_text = dquote # body @ (if closed then [dquote] else []),
          tk_open = [dquote], tk_body = body, tk_escapes = False, tk_unicode = False,
          tk_terminated = closed, tk_tag = []\<rparr>, rest))"

text \<open>From a dollar sign, with the text after it.\<close>

definition lexDollar :: "string \<Rightarrow> token \<times> string" where
  "lexDollar s =
     (if s \<noteq> [] \<and> isDigit (hd s)
      then (plain_token tokOther (CHR ''$'' # takeWhile isDigit s), dropWhile isDigit s)
      else let name = (if s \<noteq> [] \<and> isIdentStart (hd s) then takeWhile (\<lambda>c. isIdentStart c \<or> isDigit c) s else []);
               after = drop (length name) s
        in if after = [] \<or> hd after \<noteq> CHR ''$'' then (plain_token tokOther ''$'', s)
           else let tag = CHR ''$'' # name @ ''$''; r = tl after in
             (case strings_Index r tag of
                Some k \<Rightarrow> (\<lparr>tk_kind = tokDollar, tk_text = tag @ take k r @ tag, tk_open = tag, tk_body = take k r,
                   tk_escapes = False, tk_unicode = False, tk_terminated = True, tk_tag = tag\<rparr>, drop (k + length tag) r)
              | None \<Rightarrow> (\<lparr>tk_kind = tokDollar, tk_text = tag @ r, tk_open = tag, tk_body = r,
                   tk_escapes = False, tk_unicode = False, tk_terminated = False, tk_tag = tag\<rparr>, [])))"

definition lexIdentOrPrefixedString :: "unicode_tables \<Rightarrow> string \<Rightarrow> token \<times> string" where
  "lexIdentOrPrefixedString uc s =
     (let ident = hd s # takeWhile isIdentCont (tl s);
          after = drop (length ident) s;
          word = strings_ToLower uc ident
      in if after \<noteq> [] \<and> hd after = squote \<and> word = ''e'' then lexString (ident @ [squote]) True False (tl after)
         else if after \<noteq> [] \<and> hd after = squote \<and> word \<in> {''b'', ''x'', ''n''}
         then lexString (ident @ [squote]) False False (tl after)
         else if word = ''u'' \<and> take 2 after = [CHR ''&'', squote]
         then lexString (ident @ [CHR ''&'', squote]) False True (drop 2 after)
         else (plain_token tokIdent ident, after))"

text \<open>One round of the loop of \<open>lex\<close>, at a text that is not empty.\<close>

definition lexToken :: "unicode_tables \<Rightarrow> string \<Rightarrow> token \<times> string" where
  "lexToken uc s =
     (let c = hd s; r = tl s in
      if isSpace c then (plain_token tokSpace (takeWhile isSpace s), dropWhile isSpace s)
      else if c = CHR ''-'' \<and> r \<noteq> [] \<and> hd r = CHR ''-''
      then (plain_token tokComment (takeWhile (\<lambda>c. c \<noteq> CHR 0x0A) s), dropWhile (\<lambda>c. c \<noteq> CHR 0x0A) s)
      else if c = CHR ''/'' \<and> r \<noteq> [] \<and> hd r = CHR ''*'' then lexBlockComment s
      else if c = squote then lexString [squote] False False r
      else if c = dquote then lexQuotedIdent r
      else if c = CHR ''$'' then lexDollar r
      else if isIdentStart c then lexIdentOrPrefixedString uc s
      else if isOpChar c then (plain_token tokOp (takeWhile isOpChar s), dropWhile isOpChar s)
      else (plain_token tokOther [c], r))"

lemma quotedBody_text:
  "quotedBody q e s = (body, closed, rest) \<Longrightarrow> s = body @ (if closed then [q] else []) @ rest"
  by (induction q e s arbitrary: body closed rest rule: quotedBody.induct)
     (fastforce simp: body_cons_def split: if_splits prod.splits)+

lemma lexString_text:
  "lexString opener e u s = (t, rest) \<Longrightarrow> tk_text t @ rest = opener @ s \<and> length opener \<le> length (tk_text t)"
  using quotedBody_text[of squote e s] by (auto simp: lexString_def split: prod.splits)

lemma lexQuotedIdent_text: "lexQuotedIdent s = (t, rest) \<Longrightarrow> tk_text t @ rest = dquote # s \<and> tk_text t \<noteq> []"
  using quotedBody_text[of dquote False s] by (auto simp: lexQuotedIdent_def split: prod.splits)

lemma afterBlockComment_suffix: "\<exists>u. s = u @ afterBlockComment d s"
proof (induction d s rule: afterBlockComment.induct)
  case (3 d c e s)
  then show ?case by (auto split: if_splits) (metis append_Cons)+
qed auto

lemma afterBlockComment_shorter: "s \<noteq> [] \<Longrightarrow> length (afterBlockComment d s) < length s"
proof (induction d s rule: afterBlockComment.induct)
  case (3 d c e s)
  have "length (afterBlockComment k s) \<le> length s" for k
    using afterBlockComment_suffix[of s k] by (metis le_add2 length_append)
  then show ?case using "3.IH"(3) by (auto simp: less_Suc_eq_le le_SucI split: if_splits)
qed auto

lemma consumed_suffix: "s = u @ rest \<Longrightarrow> consumed s rest = u"
  by (simp add: consumed_def)

lemma strings_Index_split:
  "strings_Index s sub = Some k \<Longrightarrow> s = take k s @ sub @ drop (k + length sub) s"
proof (induction s arbitrary: k)
  case (Cons c s)
  show ?case
  proof (cases "take (length sub) (c # s) = sub")
    case True
    then have "k = 0" using Cons.prems by simp
    then show ?thesis using True append_take_drop_id[of "length sub" "c # s"] by simp
  next
    case False
    then show ?thesis using Cons by auto
  qed
qed (simp split: if_splits)

lemma takeWhile_drop [simp]: "takeWhile P s @ drop (length (takeWhile P s)) s = s"
  by (metis dropWhile_eq_drop takeWhile_dropWhile_id)

lemma lexDollar_text: "lexDollar s = (t, rest) \<Longrightarrow> tk_text t @ rest = CHR ''$'' # s \<and> tk_text t \<noteq> []"
proof -
  assume lex: "lexDollar s = (t, rest)"
  define name where "name = (if s \<noteq> [] \<and> isIdentStart (hd s) then takeWhile (\<lambda>c. isIdentStart c \<or> isDigit c) s else [])"
  define after where "after = drop (length name) s"
  have s: "s = name @ after"
    unfolding after_def name_def by simp
  show ?thesis
  proof (cases "s \<noteq> [] \<and> isDigit (hd s)")
    case True
    then show ?thesis using lex by (auto simp: lexDollar_def plain_token_def)
  next
    case False
    note step = lex[unfolded lexDollar_def if_not_P[OF False] Let_def name_def[symmetric] after_def[symmetric]]
    show ?thesis
    proof (cases "after = [] \<or> hd after \<noteq> CHR ''$''")
      case True
      then show ?thesis using step by (auto simp: plain_token_def)
    next
      case False
      then obtain r where r: "after = CHR ''$'' # r" by (cases after) auto
      let ?tag = "CHR ''$'' # name @ ''$''"
      show ?thesis
      proof (cases "strings_Index r ?tag")
        case None
        then show ?thesis using step r s by auto
      next
        case (Some k)
        then show ?thesis using step r s strings_Index_split[OF Some, symmetric] by auto
      qed
    qed
  qed
qed

lemma lexIdentOrPrefixedString_text:
  assumes "lexIdentOrPrefixedString uc s = (t, rest)" and "s \<noteq> []"
  shows "tk_text t @ rest = s \<and> tk_text t \<noteq> []"
proof -
  define ident where "ident = hd s # takeWhile isIdentCont (tl s)"
  define after where "after = drop (length ident) s"
  have s: "s = ident @ after"
    using assms(2) by (cases s) (auto simp: ident_def after_def)
  have ne: "ident \<noteq> []" by (simp add: ident_def)
  note step = assms(1)[unfolded lexIdentOrPrefixedString_def Let_def ident_def[symmetric] after_def[symmetric]]
  show ?thesis
  proof (cases "(t, rest) = (plain_token tokIdent ident, after)")
    case True
    then show ?thesis using s ne by (simp add: plain_token_def)
  next
    case False
    consider (one) e r where "after = squote # r" "lexString (ident @ [squote]) e False r = (t, rest)"
      | (two) "take 2 after = [CHR ''&'', squote]" "lexString (ident @ [CHR ''&'', squote]) False True (drop 2 after) = (t, rest)"
      using step False by (cases after) (auto split: if_splits)
    then show ?thesis
    proof cases
      case one
      then show ?thesis using s lexString_text[OF one(2)] by auto
    next
      case two
      have "[CHR ''&'', squote] @ drop 2 after = after" using two(1) append_take_drop_id[of 2 after] by simp
      then show ?thesis using s lexString_text[OF two(2)] by auto
    qed
  qed
qed

lemma lexToken_text:
  assumes "lexToken uc s = (t, rest)" and "s \<noteq> []"
  shows "tk_text t @ rest = s \<and> tk_text t \<noteq> []"
proof -
  obtain c r where s: "s = c # r" using assms(2) by (cases s) auto
  have "consumed s (afterBlockComment 0 s) @ afterBlockComment 0 s = s \<and> consumed s (afterBlockComment 0 s) \<noteq> []"
  proof -
    obtain u where u: "s = u @ afterBlockComment 0 s" using afterBlockComment_suffix by blast
    moreover have "u \<noteq> []" using afterBlockComment_shorter[OF assms(2), of 0] u by (metis append_Nil less_irrefl)
    ultimately show ?thesis using consumed_suffix[OF u] by simp
  qed
  then show ?thesis using assms s
    by (auto simp: lexToken_def Let_def plain_token_def lexBlockComment_def split: if_splits
        dest: lexString_text lexQuotedIdent_text lexDollar_text lexIdentOrPrefixedString_text)
qed

function lex :: "unicode_tables \<Rightarrow> string \<Rightarrow> token list" where
  "lex uc s = (if s = [] then [] else case lexToken uc s of (t, rest) \<Rightarrow> t # lex uc rest)"
  by pat_completeness auto
termination
proof (relation "measure (\<lambda>(uc, s). length s)", goal_cases)
  case (2 uc s t rest)
  then have "tk_text t @ rest = s" "tk_text t \<noteq> []" using lexToken_text[of uc s t rest] by auto
  then show ?case by auto
qed simp

declare lex.simps [simp del]

lemma lex_Nil [simp]: "lex uc [] = []"
  by (simp add: lex.simps)

lemma lex_step: "s \<noteq> [] \<Longrightarrow> lexToken uc s = (t, rest) \<Longrightarrow> lex uc s = t # lex uc rest"
  by (subst lex.simps) simp

section \<open>Connection strings in constants\<close>

definition mentionsConnSecret :: "unicode_tables \<Rightarrow> string \<Rightarrow> bool" where
  "mentionsConnSecret uc body =
     (let lower = strings_ToLower uc body in
      strings_Contains lower ''password'' \<or> strings_Contains lower ''postgres://'' \<or> strings_Contains lower ''postgresql://'')"

definition truncatedInURIHost :: "string \<Rightarrow> bool" where
  "truncatedInURIHost body =
     (let lower = map ascii_lower body;
          ends = (\<lambda>prefix i. \<not> list_ex (\<lambda>c. c = CHR ''@'' \<or> c = CHR ''/'') (drop (i + length prefix) body))
      in case strings_Index lower ''postgresql://'' of
           Some i \<Rightarrow> ends ''postgresql://'' i
         | None \<Rightarrow> (case strings_Index lower ''postgres://'' of
             Some i \<Rightarrow> ends ''postgres://'' i
           | None \<Rightarrow> False))"

text \<open>The replacement and whether it runs to the end of the text; nothing when nothing changed.\<close>

definition redactConnString :: "unicode_tables \<Rightarrow> token \<Rightarrow> (string \<times> bool) option" where
  "redactConnString uc t =
     (let body = tk_body t in
      if \<not> mentionsConnSecret uc body then None
      else if \<not> tk_terminated t \<and> truncatedInURIHost body then Some (redactedLiteral, True)
      else if tk_kind t = tokDollar then
        let red = RedactPasswords uc body in
        if red = body then None else Some (tk_tag t @ red @ (if tk_terminated t then tk_tag t else []), False)
      else if tk_escapes t \<or> tk_unicode t then Some (redactedLiteral, False)
      else if ambiguousEscapes t then Some (redactedLiteral, True)
      else
        let v = strings_ReplaceAll body [squote, squote] [squote]; red = RedactPasswords uc v in
        if red = v then None
        else Some (tk_open t @ strings_ReplaceAll red [squote] [squote, squote] @
                   (if tk_terminated t then [squote] else []), False))"

section \<open>The walk\<close>

text \<open>What has been written, and the number of the first token not yet written.\<close>

type_synonym written = "string \<times> nat"

definition tokens_text :: "token list \<Rightarrow> string" where
  "tokens_text toks = concat (map tk_text toks)"

definition emit :: "token list \<Rightarrow> nat \<Rightarrow> nat \<Rightarrow> string \<Rightarrow> written \<Rightarrow> written" where
  "emit toks start stop repl w = (case w of (out, upTo) \<Rightarrow>
     (out @ tokens_text (take (start - upTo) (drop upTo toks)) @ repl, stop))"

text \<open>The numbers of the tokens that are neither blanks nor comments, and the \<open>k\<close>th of them.\<close>

definition significant :: "token \<Rightarrow> bool" where
  "significant t \<longleftrightarrow> tk_kind t \<noteq> tokSpace \<and> tk_kind t \<noteq> tokComment"

definition sig_of :: "token list \<Rightarrow> nat list" where
  "sig_of toks = filter (\<lambda>i. significant (toks ! i)) [0..<length toks]"

abbreviation tok :: "token list \<Rightarrow> nat list \<Rightarrow> nat \<Rightarrow> token" where
  "tok toks sig k \<equiv> toks ! (sig ! k)"

text \<open>The last of the constants that continue the one at \<open>m\<close>.\<close>

function runEnd :: "token list \<Rightarrow> nat list \<Rightarrow> nat \<Rightarrow> nat" where
  "runEnd toks sig m =
     (if m + 1 < length sig \<and> isLiteral (tok toks sig (m + 1)) then runEnd toks sig (m + 1) else m)"
  by pat_completeness auto
termination by (relation "measure (\<lambda>(toks, sig, m). length sig - m)") auto

declare runEnd.simps [simp del]

definition redactValueAt :: "token list \<Rightarrow> nat list \<Rightarrow> nat \<Rightarrow> written \<Rightarrow> written \<times> nat \<times> bool" where
  "redactValueAt toks sig m w =
     (let first = tok toks sig m;
          l = runEnd toks sig m;
          stop = (if ambiguousEscapes first then length toks else sig ! l + 1)
      in (emit toks (sig ! m) stop redactedLiteral w, l, stop = length toks))"

function dottedStart :: "token list \<Rightarrow> nat list \<Rightarrow> nat \<Rightarrow> nat" where
  "dottedStart toks sig j =
     (if 2 \<le> j \<and> token_is (tok toks sig (j - 1)) tokOther ''.'' \<and> isName (tok toks sig (j - 2))
      then dottedStart toks sig (j - 2) else j)"
  by pat_completeness auto
termination by (relation "measure (\<lambda>(toks, sig, j). j)") auto

declare dottedStart.simps [simp del]

definition isSetTarget :: "token list \<Rightarrow> nat list \<Rightarrow> nat \<Rightarrow> bool" where
  "isSetTarget toks sig k =
     (let j = dottedStart toks sig k;
          j = (if 1 \<le> j \<and> (token_is (tok toks sig (j - 1)) tokIdent ''local'' \<or>
                           token_is (tok toks sig (j - 1)) tokIdent ''session'') then j - 1 else j)
      in 1 \<le> j \<and> token_is (tok toks sig (j - 1)) tokIdent ''set'')"

function semicolonFrom :: "token list \<Rightarrow> nat list \<Rightarrow> nat \<Rightarrow> nat" where
  "semicolonFrom toks sig stop =
     (if stop < length sig \<and> \<not> token_is (tok toks sig stop) tokOther '';''
      then semicolonFrom toks sig (stop + 1) else stop)"
  by pat_completeness auto
termination by (relation "measure (\<lambda>(toks, sig, m). length sig - m)") auto

declare semicolonFrom.simps [simp del]

definition setValueEnd :: "token list \<Rightarrow> nat list \<Rightarrow> nat \<Rightarrow> nat" where
  "setValueEnd toks sig m =
     (let stop = semicolonFrom toks sig m; v = tok toks sig m; s = tk_text v in
      if stop = m + 1 \<and> (token_is v tokIdent ''default''
           \<or> 1 < length s \<and> s ! 0 = CHR ''$'' \<and> isDigit (s ! 1)) then m
      else stop)"

text \<open>
  The rules of one token, in the order of the code: the next token to look at, or nothing when
  the walk is over, and what has been written.
\<close>

definition nameRule :: "unicode_tables \<Rightarrow> token list \<Rightarrow> nat list \<Rightarrow> nat \<Rightarrow> written \<Rightarrow> written \<times> nat option" where
  "nameRule uc toks sig k w =
     (let separated = k + 1 < length sig \<and> isSeparator (tok toks sig (k + 1));
          m = (if separated then k + 2 else k + 1) in
      if length sig \<le> m then (w, Some (k + 1))
      else let v = tok toks sig m in
        if isLiteral v then
          (case redactValueAt toks sig m w of (w', l, toEnd) \<Rightarrow> (w', if toEnd then None else Some (l + 1)))
        else if separated \<and> tk_kind v = tokQuotedIdent then
          (emit toks (sig ! m) (sig ! m + 1) (dquote # RedactedPassword @ [dquote]) w, Some (m + 1))
        else if separated \<and> isSetTarget toks sig k then
          let stop = setValueEnd toks sig m in
          if m < stop then (emit toks (sig ! m) (sig ! (stop - 1) + 1) redactedLiteral w, Some stop)
          else (w, Some (k + 1))
        else (w, Some (k + 1)))"

definition connRule :: "unicode_tables \<Rightarrow> token list \<Rightarrow> nat list \<Rightarrow> nat \<Rightarrow> written \<Rightarrow> written \<times> nat option" where
  "connRule uc toks sig k w =
     (case redactConnString uc (tok toks sig k) of
        None \<Rightarrow> (w, Some (k + 1))
      | Some (repl, toEnd) \<Rightarrow>
          if toEnd then (emit toks (sig ! k) (length toks) repl w, None)
          else (emit toks (sig ! k) (sig ! k + 1) repl w, Some (k + 1)))"

definition constantRule :: "unicode_tables \<Rightarrow> token list \<Rightarrow> nat list \<Rightarrow> nat \<Rightarrow> written \<Rightarrow> written \<times> nat option" where
  "constantRule uc toks sig k w =
     (case constantName (tok toks sig k) of
        None \<Rightarrow> connRule uc toks sig k w
      | Some name \<Rightarrow>
          if k + 2 < length sig \<and> isSecretName uc name \<and> token_is (tok toks sig (k + 1)) tokOther '',''
             \<and> isLiteral (tok toks sig (k + 2)) then
            (case redactValueAt toks sig (k + 2) w of (w', l, toEnd) \<Rightarrow> (w', if toEnd then None else Some (l + 1)))
          else if strings_ToLower uc name \<in> set nonSecretNames then (w, Some (k + 1))
          else connRule uc toks sig k w)"

definition tokenRule :: "unicode_tables \<Rightarrow> token list \<Rightarrow> nat list \<Rightarrow> nat \<Rightarrow> written \<Rightarrow> written \<times> nat option" where
  "tokenRule uc toks sig k w =
     (let t = tok toks sig k in
      if isName t \<and> isSecretName uc (token_name t) then nameRule uc toks sig k w
      else if \<not> isLiteral t then (w, Some (k + 1))
      else constantRule uc toks sig k w)"

lemma runEnd_ge: "m \<le> runEnd toks sig m"
proof (induction toks sig m rule: runEnd.induct)
  case (1 toks sig m)
  then show ?case
    by (cases "m + 1 < length sig \<and> isLiteral (tok toks sig (m + 1))") (auto simp: runEnd.simps[of toks sig m])
qed

lemma tokenRule_advances: "tokenRule uc toks sig k w = (w', Some k') \<Longrightarrow> k < k'"
  using runEnd_ge[of "k + 1" toks sig] runEnd_ge[of "k + 2" toks sig]
  by (auto simp: tokenRule_def nameRule_def constantRule_def connRule_def redactValueAt_def Let_def
      split: if_splits option.splits prod.splits)

function redactLoop :: "unicode_tables \<Rightarrow> token list \<Rightarrow> nat list \<Rightarrow> nat \<Rightarrow> written \<Rightarrow> written" where
  "redactLoop uc toks sig k w =
     (if k < length sig then
        (case tokenRule uc toks sig k w of
           (w', None) \<Rightarrow> w'
         | (w', Some k') \<Rightarrow> redactLoop uc toks sig k' w')
      else w)"
  by pat_completeness auto
termination
proof (relation "measure (\<lambda>(uc, toks, sig, k, w). length sig - k)", goal_cases)
  case (2 uc toks sig k w w' nx k')
  then show ?case using tokenRule_advances[of uc toks sig k w w' k'] by auto
qed simp

declare redactLoop.simps [simp del]

definition redactTokens :: "unicode_tables \<Rightarrow> token list \<Rightarrow> string" where
  "redactTokens uc toks =
     (case redactLoop uc toks (sig_of toks) 0 ([], 0) of (out, upTo) \<Rightarrow> out @ tokens_text (drop upTo toks))"

definition RedactQuery :: "unicode_tables \<Rightarrow> string \<Rightarrow> string" where
  "RedactQuery uc query = (if \<not> MightContainSecret uc query then query else redactTokens uc (lex uc query))"

end
