(* ===== verification/Conn_String_Facts.thy ===== *)
theory Conn_String_Facts
  imports Conn_String "HOL-Library.Multiset"
begin

text \<open>
  What the redaction of connection strings guarantees. Connection strings are described as
  libpq describes them, independently of the scanner: settings with blanks around them, their
  values quoted or bare, with escaped characters. Redaction does not depend on the passwords
  and keeps the other settings, in both formats; a string that was built reads back as it was
  meant exactly when no value holds a single quote.
\<close>

section \<open>Connection strings as libpq describes them\<close>

datatype conn_char = Plain char | Escaped char

primrec char_text :: "conn_char \<Rightarrow> string" where
  "char_text (Plain c) = [c]"
| "char_text (Escaped c) = [backslash, c]"

primrec char_value :: "conn_char \<Rightarrow> char" where
  "char_value (Plain c) = c"
| "char_value (Escaped c) = c"

abbreviation chars_text :: "conn_char list \<Rightarrow> string" where
  "chars_text cs \<equiv> concat (map char_text cs)"

datatype conn_value = Quoted "conn_char list" | Bare "conn_char list"

primrec value_text :: "conn_value \<Rightarrow> string" where
  "value_text (Quoted cs) = squote # chars_text cs @ [squote]"
| "value_text (Bare cs) = chars_text cs"

primrec value_decoded :: "conn_value \<Rightarrow> string" where
  "value_decoded (Quoted cs) = map char_value cs"
| "value_decoded (Bare cs) = map char_value cs"

definition quotable :: "conn_char \<Rightarrow> bool" where
  "quotable x = (case x of Plain c \<Rightarrow> c \<noteq> squote \<and> c \<noteq> backslash | Escaped c \<Rightarrow> True)"

definition bareable :: "conn_char \<Rightarrow> bool" where
  "bareable x = (case x of Plain c \<Rightarrow> \<not> isConnSpace c \<and> c \<noteq> backslash | Escaped c \<Rightarrow> True)"

primrec value_wf :: "conn_value \<Rightarrow> bool" where
  "value_wf (Quoted cs) \<longleftrightarrow> list_all quotable cs"
| "value_wf (Bare cs) \<longleftrightarrow> list_all bareable cs \<and> cs \<noteq> [] \<and> hd cs \<noteq> Plain squote"

definition keyword :: "string \<Rightarrow> bool" where
  "keyword k \<longleftrightarrow> k \<noteq> [] \<and> list_all (\<lambda>c. c \<noteq> CHR ''='' \<and> c \<noteq> CHR ''/'' \<and> \<not> isConnSpace c) k"

abbreviation blanks :: "string \<Rightarrow> bool" where
  "blanks s \<equiv> list_all isConnSpace s"

text \<open>A setting, with the blanks before it, before its equals sign and after that.\<close>

record setting =
  se_gap :: string
  se_key :: string
  se_pre :: string
  se_post :: string
  se_value :: conn_value

definition setting_before :: "setting \<Rightarrow> string" where
  "setting_before x = se_gap x @ se_key x @ se_pre x @ CHR ''='' # se_post x"

definition setting_text :: "setting \<Rightarrow> string" where
  "setting_text x = setting_before x @ value_text (se_value x)"

definition setting_wf :: "setting \<Rightarrow> bool" where
  "setting_wf x \<longleftrightarrow> blanks (se_gap x) \<and> keyword (se_key x) \<and> blanks (se_pre x) \<and> blanks (se_post x)
     \<and> value_wf (se_value x)"

text \<open>A bare value ends at a blank or at the end.\<close>

definition ends_value :: "conn_value \<Rightarrow> string \<Rightarrow> bool" where
  "ends_value v rest \<longleftrightarrow> (\<exists>cs. v = Quoted cs) \<or> rest = [] \<or> isConnSpace (hd rest)"

abbreviation settings_text :: "setting list \<Rightarrow> string" where
  "settings_text xs \<equiv> concat (map setting_text xs)"

fun settings_wf :: "setting list \<Rightarrow> string \<Rightarrow> bool" where
  "settings_wf [] rest = True"
| "settings_wf (x # xs) rest \<longleftrightarrow>
     setting_wf x \<and> ends_value (se_value x) (settings_text xs @ rest) \<and> settings_wf xs rest"

definition pair_of :: "setting \<Rightarrow> conn_pair" where
  "pair_of x = \<lparr>cp_before = setting_before x, cp_key = se_key x,
     cp_value = \<lparr>sp_text = value_text (se_value x), sp_decoded = value_decoded (se_value x)\<rparr>\<rparr>"

section \<open>The scanner reads them\<close>

lemma not_space [simp]: "\<not> isConnSpace (CHR ''='')" "\<not> isConnSpace squote" "\<not> isConnSpace backslash"
  by (auto simp: isConnSpace_def quote_defs)

lemma scanQuoted_chars:
  "list_all quotable cs \<Longrightarrow> scanQuoted (chars_text cs @ squote # r)
     = Inr (\<lparr>sp_text = chars_text cs @ [squote], sp_decoded = map char_value cs\<rparr>, r)"
proof (induction cs)
  case Nil
  then show ?case by (cases r) (auto simp: quote_defs)
next
  case (Cons x cs)
  obtain y ys where more: "chars_text cs @ squote # r = y # ys" by (cases "chars_text cs") auto
  show ?case using Cons more
    by (cases x) (auto simp: quotable_def span_cons_def)
qed

lemma scanUnquoted_chars:
  "list_all bareable cs \<Longrightarrow> r = [] \<or> isConnSpace (hd r) \<Longrightarrow> scanUnquoted (chars_text cs @ r)
     = (\<lparr>sp_text = chars_text cs, sp_decoded = map char_value cs\<rparr>, r)"
proof (induction cs)
  case Nil
  then show ?case by (cases r rule: scanUnquoted.cases) auto
next
  case (Cons x cs)
  show ?case
  proof (cases x)
    case (Plain c)
    then show ?thesis using Cons by (cases "chars_text cs @ r") (auto simp: bareable_def span_cons_def)
  next
    case (Escaped c)
    then show ?thesis using Cons by (auto simp: bareable_def span_cons_def)
  qed
qed

lemma scanKeywordValue_value:
  assumes "value_wf v" and "ends_value v r"
  shows "scanKeywordValue (value_text v @ r)
    = Inr (\<lparr>sp_text = value_text v, sp_decoded = value_decoded v\<rparr>, r)"
proof (cases v)
  case (Quoted cs)
  then show ?thesis using assms scanQuoted_chars[of cs r] by (simp add: scanKeywordValue_def span_cons_def)
next
  case (Bare cs)
  then obtain x xs where cs: "cs = x # xs" using assms by (cases cs) auto
  have "hd (chars_text cs) \<noteq> squote" using assms Bare cs
    by (cases x) (auto simp: quote_defs)
  moreover have "chars_text cs \<noteq> []" using cs by (cases x) auto
  ultimately have "scanKeywordValue (chars_text cs @ r) = Inr (scanUnquoted (chars_text cs @ r))"
    by (cases "chars_text cs") (auto simp: scanKeywordValue_def)
  then show ?thesis using assms Bare scanUnquoted_chars[of cs r] by (simp add: ends_value_def)
qed

lemma dropWhile_blanks:
  "blanks b \<Longrightarrow> r = [] \<or> \<not> isConnSpace (hd r) \<Longrightarrow> dropWhile isConnSpace (b @ r) = r"
  by (induction b) (auto simp: dropWhile_eq_self_iff)

lemma value_text_head: "value_wf v \<Longrightarrow> value_text v \<noteq> [] \<and> \<not> isConnSpace (hd (value_text v))"
  by (cases v) (auto simp: bareable_def neq_Nil_conv split: conn_char.splits)

lemma keyword_head: "keyword k \<Longrightarrow> k \<noteq> [] \<and> \<not> isConnSpace (hd k)"
  by (cases k) (auto simp: keyword_def)

lemma takeWhile_keyword:
  assumes "keyword k" and "blanks b"
  shows "takeWhile (\<lambda>c. c \<noteq> CHR ''='' \<and> \<not> isConnSpace c) (k @ b @ CHR ''='' # r) = k"
  using assms by (cases b) (auto simp: keyword_def list_all_iff takeWhile_append)

lemma scanPair_setting:
  assumes "setting_wf x" and "ends_value (se_value x) r"
  shows "scanPair (setting_text x @ r) = Inr (pair_of x, r)"
proof -
  let ?v = "value_text (se_value x) @ r"
  let ?s = "setting_text x @ r"
  have wf: "blanks (se_gap x)" "keyword (se_key x)" "blanks (se_pre x)" "blanks (se_post x)" "value_wf (se_value x)"
    using assms by (auto simp: setting_wf_def)
  have whole: "?s = se_gap x @ se_key x @ se_pre x @ CHR ''='' # se_post x @ ?v"
    by (simp add: setting_text_def setting_before_def)
  have s1: "dropWhile isConnSpace ?s = se_key x @ se_pre x @ CHR ''='' # se_post x @ ?v"
    unfolding whole using keyword_head[OF wf(2)] by (intro dropWhile_blanks[OF wf(1)]) simp
  have key: "takeWhile (\<lambda>c. c \<noteq> CHR ''='' \<and> \<not> isConnSpace c) (dropWhile isConnSpace ?s) = se_key x"
    unfolding s1 by (rule takeWhile_keyword[OF wf(2,3)])
  have s2: "dropWhile isConnSpace (drop (length (se_key x)) (dropWhile isConnSpace ?s)) = CHR ''='' # se_post x @ ?v"
    unfolding s1 using dropWhile_blanks[OF wf(3), of "CHR ''='' # se_post x @ ?v"] by simp
  have s3: "dropWhile isConnSpace (se_post x @ ?v) = ?v"
    using value_text_head[OF wf(5)] by (intro dropWhile_blanks[OF wf(4)]) (simp add: hd_append)
  have before: "take (length ?s - length ?v) ?s = setting_before x"
    by (simp add: setting_text_def)
  show ?thesis
    unfolding scanPair_def Let_def key s2 list.sel s3 before scanKeywordValue_value[OF wf(5) assms(2)]
    by (simp add: pair_of_def)
qed

lemma scanPairs_settings:
  "settings_wf xs r \<Longrightarrow> scanPairs (settings_text xs @ r)
     = map_sum id (map_prod ((@) (map pair_of xs)) id) (scanPairs r)"
proof (induction xs)
  case Nil
  then show ?case by (cases "scanPairs r") (auto simp: map_prod_def)
next
  case (Cons x xs)
  let ?r = "settings_text xs @ r"
  have "keyword (se_key x)" using Cons.prems by (simp add: setting_wf_def)
  then have "dropWhile isConnSpace (setting_text x @ ?r) \<noteq> []"
    by (simp add: setting_text_def setting_before_def)
  then have "scanPairs (setting_text x @ ?r)
      = map_sum id (map_prod (Cons (pair_of x)) id) (scanPairs ?r)"
    using Cons.prems scanPair_setting[of x ?r] by (simp add: scanPairs_step del: dropWhile_eq_Nil_conv)
  then show ?case using Cons by (cases "scanPairs r") (auto simp: map_prod_def)
qed

lemma scanPairs_text:
  assumes "settings_wf xs tail" and "blanks tail"
  shows "scanPairs (settings_text xs @ tail) = Inr (map pair_of xs, tail)"
proof -
  have "dropWhile isConnSpace tail = []" using assms(2) by (simp add: list_all_iff)
  then show ?thesis using scanPairs_settings[OF assms(1)] scanPairs_end[of tail] by simp
qed

section \<open>Redaction of keyword and value pairs\<close>

lemma prefix_slash: "p \<in> set uriPrefixes \<Longrightarrow> CHR ''/'' \<in> set p \<and> CHR ''='' \<notin> set p \<and> \<not> isConnSpace (hd p)"
  by (auto simp: uriPrefixes_def isConnSpace_def)

lemma no_prefix:
  assumes "CHR ''/'' \<notin> set u" shows "\<not> hasURIPrefix (u @ CHR ''='' # r)"
proof
  assume "hasURIPrefix (u @ CHR ''='' # r)"
  then obtain p where p: "p \<in> set uriPrefixes" "take (length p) (u @ CHR ''='' # r) = p"
    by (auto simp: hasURIPrefix_def has_prefix_def list_ex_iff)
  show False
  proof (cases "length p \<le> length u")
    case True
    then have "set p \<subseteq> set u" using p(2) by (metis set_take_subset take_append diff_is_0_eq' take0 append_Nil2)
    then show False using prefix_slash[OF p(1)] assms by auto
  next
    case False
    then have "p = u @ CHR ''='' # take (length p - Suc (length u)) r"
      using p(2) by (cases "length p - length u") (auto simp: take_Cons')
    then have "CHR ''='' \<in> set p" by (metis in_set_conv_decomp)
    then show False using prefix_slash[OF p(1)] by auto
  qed
qed

lemma settings_no_prefix:
  assumes "settings_wf xs tail" and "blanks tail"
  shows "\<not> hasURIPrefix (settings_text xs @ tail)"
proof (cases xs)
  case Nil
  have "\<not> has_prefix tail p" if "p \<in> set uriPrefixes" for p
    using that assms(2) prefix_slash[OF that]
    by (cases tail; cases p) (auto simp: has_prefix_def uriPrefixes_def)
  then show ?thesis using Nil by (auto simp: hasURIPrefix_def list_ex_iff)
next
  case (Cons x ys)
  have wf: "blanks (se_gap x)" "keyword (se_key x)" "blanks (se_pre x)"
    using assms Cons by (auto simp: setting_wf_def)
  have "CHR ''/'' \<notin> set (se_gap x @ se_key x @ se_pre x)"
    using wf by (auto simp: list_all_iff keyword_def isConnSpace_def)
  then show ?thesis using Cons no_prefix[of "se_gap x @ se_key x @ se_pre x"]
    by (simp add: setting_text_def setting_before_def)
qed

text \<open>What a setting becomes: the password is replaced, a nested connection string redacted.\<close>

definition redacted_setting :: "unicode_tables \<Rightarrow> setting \<Rightarrow> string" where
  "redacted_setting uc x = setting_before x @
     (if isPasswordKey uc (se_key x) then RedactedPassword
      else if strings_EqualFold (se_key x) ''dbname'' \<and> looksLikeConnString (value_decoded (se_value x))
        \<and> RedactPasswords uc (value_decoded (se_value x)) \<noteq> value_decoded (se_value x)
      then squote # EscapeValue (RedactPasswords uc (value_decoded (se_value x))) @ [squote]
      else value_text (se_value x))"

lemma RedactPasswords_settings:
  assumes "settings_wf xs tail" and "blanks tail"
  shows "RedactPasswords uc (settings_text xs @ tail) = concat (map (redacted_setting uc) xs) @ tail"
proof -
  have pair: "cp_before (pair_of x) @
      (let val = cp_value (pair_of x) in
       if isPasswordKey uc (cp_key (pair_of x)) then RedactedPassword
       else if strings_EqualFold (cp_key (pair_of x)) ''dbname'' \<and> looksLikeConnString (sp_decoded val)
       then let inner = RedactPasswords uc (sp_decoded val) in
         if inner \<noteq> sp_decoded val then squote # EscapeValue inner @ [squote] else sp_text val
       else sp_text val) = redacted_setting uc x" for x
    by (simp add: pair_of_def redacted_setting_def Let_def)
  have "redactKeywordValue uc (settings_text xs @ tail) = Inr (concat (map (redacted_setting uc) xs) @ tail)"
    by (simp only: redactKeywordValue.simps scanPairs_text[OF assms] sum.case prod.case map_map comp_def pair)
  then show ?thesis using settings_no_prefix[OF assms] by (simp add: RedactPasswords.simps)
qed

section \<open>Redaction of URIs\<close>

text \<open>
  A URI with a user and a password, a host part and query parameters. A question mark opens the
  query outside brackets only.
\<close>

definition bracket_after :: "bool \<Rightarrow> string \<Rightarrow> bool" where
  "bracket_after b s = fold (\<lambda>c b. if c = CHR ''['' then True else if c = CHR '']'' then False else b) s b"

definition host_wf :: "string \<Rightarrow> bool" where
  "host_wf h \<longleftrightarrow> CHR ''?'' \<notin> set h \<and> \<not> bracket_after False h"

definition user_wf :: "string \<Rightarrow> bool" where
  "user_wf u \<longleftrightarrow> CHR '':'' \<notin> set u \<and> CHR ''@'' \<notin> set u \<and> CHR ''/'' \<notin> set u"

definition secret_wf :: "string \<Rightarrow> bool" where
  "secret_wf w \<longleftrightarrow> w \<noteq> [] \<and> CHR ''@'' \<notin> set w \<and> CHR ''/'' \<notin> set w"

definition param_wf :: "string \<times> string \<Rightarrow> bool" where
  "param_wf p = (case p of (k, v) \<Rightarrow> CHR ''='' \<notin> set k \<and> CHR ''&'' \<notin> set k \<and> CHR ''&'' \<notin> set v)"

definition param_text :: "string \<times> string \<Rightarrow> string" where
  "param_text p = (case p of (k, v) \<Rightarrow> k @ CHR ''='' # v)"

definition uri_text :: "string \<Rightarrow> string \<Rightarrow> string \<Rightarrow> string \<Rightarrow> (string \<times> string) list \<Rightarrow> string" where
  "uri_text scheme user secret host params = scheme @ user @ CHR '':'' # secret @ CHR ''@'' #
     host @ CHR ''?'' # strings_Join (CHR ''&'') (map param_text params)"

definition secret_param :: "unicode_tables \<Rightarrow> string \<Rightarrow> bool" where
  "secret_param uc k = isPasswordKey uc (case url_PathUnescape k of Some d \<Rightarrow> d | None \<Rightarrow> k)"

definition masked_param :: "unicode_tables \<Rightarrow> string \<times> string \<Rightarrow> string \<times> string" where
  "masked_param uc p = (case p of (k, v) \<Rightarrow> (k, if secret_param uc k then RedactedPassword else v))"

lemma index_byte: "c \<notin> set a \<Longrightarrow> strings_Index (a @ c # b) [c] = Some (length a)"
  by (induction a) auto

lemma redact_param_text: "param_wf p \<Longrightarrow> redact_param uc (param_text p) = param_text (masked_param uc p)"
  by (cases p) (simp add: param_wf_def param_text_def masked_param_def redact_param_def secret_param_def index_byte)

lemma queryStart_host:
  "CHR ''?'' \<notin> set h \<Longrightarrow> \<not> bracket_after b h \<Longrightarrow> queryStart b (h @ CHR ''?'' # q) = Some (length h)"
  by (induction h arbitrary: b) (auto simp: bracket_after_def)

lemma params_split:
  assumes "params \<noteq> []" and "list_all param_wf params"
  shows "strings_Split (CHR ''&'') (strings_Join (CHR ''&'') (map param_text params)) = map param_text params"
  using assms by (intro Split_Join) (auto simp: list_all_iff param_wf_def param_text_def)

lemma redact_query_params:
  assumes "host_wf h" and "params \<noteq> []" and "list_all param_wf params"
  shows "redact_query uc (h @ CHR ''?'' # strings_Join (CHR ''&'') (map param_text params))
    = h @ CHR ''?'' # strings_Join (CHR ''&'') (map (param_text \<circ> masked_param uc) params)"
proof -
  have "map (redact_param uc \<circ> param_text) params = map (param_text \<circ> masked_param uc) params"
    using assms(3) redact_param_text by (auto simp: list_all_iff)
  then show ?thesis using assms queryStart_host[of h False] params_split[OF assms(2,3)]
    by (simp add: redact_query_def host_wf_def del: map_eq_conv)
qed

lemma scheme_found:
  "scheme \<in> set uriPrefixes \<Longrightarrow> hasURIPrefix (scheme @ r) \<and> find (has_prefix (scheme @ r)) uriPrefixes = Some scheme"
  by (auto simp: uriPrefixes_def hasURIPrefix_def has_prefix_def)

lemma redact_userinfo_text:
  assumes "user_wf u" and "secret_wf w"
  shows "redact_userinfo (u @ CHR '':'' # w) = u @ CHR '':'' # RedactedPassword"
  using assms index_byte[of "CHR '':''" u w] by (simp add: redact_userinfo_def user_wf_def secret_wf_def)

lemma RedactPasswords_uri:
  assumes "scheme \<in> set uriPrefixes" "user_wf u" "secret_wf w" "host_wf h" "params \<noteq> []" "list_all param_wf params"
  shows "RedactPasswords uc (uri_text scheme u w h params)
    = uri_text scheme u RedactedPassword h (map (masked_param uc) params)"
proof -
  let ?q = "h @ CHR ''?'' # strings_Join (CHR ''&'') (map param_text params)"
  let ?ui = "u @ CHR '':'' # w"
  have uri: "uri_text scheme u w h params = scheme @ ?ui @ CHR ''@'' # ?q" by (simp add: uri_text_def)
  have ui: "takeWhile (\<lambda>c. c \<noteq> CHR ''@'' \<and> c \<noteq> CHR ''/'') (?ui @ CHR ''@'' # ?q) = ?ui"
    using assms(2,3) by (subst takeWhile_append2) (auto simp: user_wf_def secret_wf_def)
  have "redactURI uc (scheme @ ?ui @ CHR ''@'' # ?q) = scheme @ redact_userinfo ?ui @ ''@'' @ redact_query uc ?q"
    unfolding redactURI_def Let_def using scheme_found[OF assms(1)] ui by simp
  then show ?thesis unfolding uri RedactPasswords.simps
    using scheme_found[OF assms(1)] redact_userinfo_text[OF assms(2,3)] redact_query_params[OF assms(4-6)]
    by (simp add: uri_text_def comp_def)
qed

section \<open>Secrecy\<close>

text \<open>Connection strings that differ in nothing but their passwords.\<close>

definition same_setting :: "unicode_tables \<Rightarrow> setting \<Rightarrow> setting \<Rightarrow> bool" where
  "same_setting uc x y \<longleftrightarrow> (\<exists>v. y = x\<lparr>se_value := v\<rparr>) \<and> (isPasswordKey uc (se_key x) \<or> x = y)"

definition same_param :: "unicode_tables \<Rightarrow> string \<times> string \<Rightarrow> string \<times> string \<Rightarrow> bool" where
  "same_param uc p q \<longleftrightarrow> fst p = fst q \<and> (secret_param uc (fst p) \<or> p = q)"

inductive differ_in_passwords :: "unicode_tables \<Rightarrow> string \<Rightarrow> string \<Rightarrow> bool" for uc where
  settings: "settings_wf xs tail \<Longrightarrow> settings_wf ys tail \<Longrightarrow> blanks tail \<Longrightarrow> list_all2 (same_setting uc) xs ys
    \<Longrightarrow> differ_in_passwords uc (settings_text xs @ tail) (settings_text ys @ tail)"
| uri: "scheme \<in> set uriPrefixes \<Longrightarrow> user_wf u \<Longrightarrow> secret_wf w \<Longrightarrow> secret_wf w' \<Longrightarrow> host_wf h \<Longrightarrow> ps \<noteq> []
    \<Longrightarrow> list_all param_wf ps \<Longrightarrow> list_all param_wf qs \<Longrightarrow> list_all2 (same_param uc) ps qs
    \<Longrightarrow> differ_in_passwords uc (uri_text scheme u w h ps) (uri_text scheme u w' h qs)"

lemma same_setting_redacted: "same_setting uc x y \<Longrightarrow> redacted_setting uc x = redacted_setting uc y"
  by (auto simp: same_setting_def redacted_setting_def setting_before_def)

lemma same_param_masked: "same_param uc p q \<Longrightarrow> masked_param uc p = masked_param uc q"
  by (cases p; cases q) (auto simp: same_param_def masked_param_def)

lemma list_all2_map_eq:
  "list_all2 R xs ys \<Longrightarrow> (\<And>x y. R x y \<Longrightarrow> f x = f y) \<Longrightarrow> map f xs = map f ys"
  by (induction rule: list_all2_induct) auto


definition plain_value :: "string \<Rightarrow> conn_value" where
  "plain_value v = Bare (map Plain v)"

definition sample_setting :: "string \<Rightarrow> string \<Rightarrow> conn_value \<Rightarrow> setting" where
  "sample_setting gap key v = \<lparr>se_gap = gap, se_key = key, se_pre = [], se_post = [], se_value = v\<rparr>"

definition ascii_tables :: unicode_tables where
  "ascii_tables = \<lparr>uc_upper = id, uc_lower = id\<rparr>"

lemmas sample_settings = sample_setting_def plain_value_def setting_wf_def keyword_def bareable_def quotable_def
  ends_value_def isConnSpace_def quote_defs same_setting_def
  setting_text_def setting_before_def


section \<open>Building and reading back\<close>

definition conninfo_pairs :: "string \<Rightarrow> conn_error + (string \<times> string) list" where
  "conninfo_pairs s = map_sum id (\<lambda>(ps, tail). map (\<lambda>p. (cp_key p, sp_decoded (cp_value p))) ps) (scanPairs s)"

text \<open>A built value without single quotes is a quoted value whose backslashes are escaped.\<close>

definition escaped_chars :: "string \<Rightarrow> conn_char list" where
  "escaped_chars v = map (\<lambda>c. if c = backslash then Escaped c else Plain c) v"

lemma EscapeValue_chars: "squote \<notin> set v \<Longrightarrow> EscapeValue v = chars_text (escaped_chars v)"
  by (induction v) (auto simp: EscapeValue_def replace_byte escaped_chars_def quote_defs)

lemma EscapeValue_append: "EscapeValue (u @ v) = EscapeValue u @ EscapeValue v"
  by (simp add: EscapeValue_def replace_byte)

lemma EscapeValue_quote: "EscapeValue (squote # v) = squote # squote # EscapeValue v"
  by (simp add: EscapeValue_def replace_byte quote_defs)

lemma escaped_chars_value [simp]: "map char_value (escaped_chars v) = v"
  by (induction v) (auto simp: escaped_chars_def)

lemma escaped_chars_quotable: "squote \<notin> set v \<Longrightarrow> list_all quotable (escaped_chars v)"
  by (induction v) (auto simp: escaped_chars_def quotable_def)

definition built_setting :: "string \<Rightarrow> string \<times> string \<Rightarrow> setting" where
  "built_setting gap p = sample_setting gap (fst p) (Quoted (escaped_chars (snd p)))"

lemma built_setting_text:
  "squote \<notin> set (snd p) \<Longrightarrow> setting_text (built_setting gap p) = gap @ build_part p"
  by (cases p) (simp add: built_setting_def sample_setting_def setting_text_def setting_before_def build_part_def EscapeValue_chars)

lemma built_setting_wf:
  "keyword (fst p) \<Longrightarrow> squote \<notin> set (snd p) \<Longrightarrow> blanks gap \<Longrightarrow> setting_wf (built_setting gap p)"
  by (simp add: built_setting_def sample_setting_def setting_wf_def escaped_chars_quotable)

fun built_settings :: "(string \<times> string) list \<Rightarrow> setting list" where
  "built_settings [] = []"
| "built_settings (p # ps) = built_setting [] p # map (built_setting '' '') ps"

definition decoded_pair :: "conn_pair \<Rightarrow> string \<times> string" where
  "decoded_pair p = (cp_key p, sp_decoded (cp_value p))"

abbreviation quoteless :: "string \<times> string \<Rightarrow> bool" where
  "quoteless p \<equiv> squote \<notin> set (snd p)"

lemma join_concat: "strings_Join sep (p # ps) = p @ concat (map (Cons sep) ps)"
  by (induction ps arbitrary: p) auto

lemma decoded_built: "decoded_pair (pair_of (built_setting gap p)) = p"
  by (simp add: decoded_pair_def pair_of_def built_setting_def sample_setting_def)

lemma decoded_built_settings: "map (decoded_pair \<circ> pair_of) (built_settings ps) = ps"
  by (cases ps) (simp_all add: decoded_built comp_def)

lemma built_settings_text:
  assumes "list_all quoteless a"
  shows "settings_text (built_settings a) = Build a"
proof (cases a)
  case (Cons p ps)
  have "map (setting_text \<circ> built_setting '' '') ps = map (Cons (CHR '' '') \<circ> build_part) ps"
    using assms Cons by (auto simp: list_all_iff built_setting_text)
  then show ?thesis using assms Cons by (simp add: Build_def join_concat built_setting_text del: map_eq_conv)
qed (simp add: Build_def)

lemma settings_wf_quoted:
  "list_all setting_wf xs \<Longrightarrow> list_all (\<lambda>x. \<exists>cs. se_value x = Quoted cs) xs \<Longrightarrow> settings_wf xs r"
  by (induction xs) (auto simp: ends_value_def)

lemma built_settings_wf:
  assumes "list_all (keyword \<circ> fst) a" and "list_all quoteless a"
  shows "list_all setting_wf (built_settings a) \<and> list_all (\<lambda>x. \<exists>cs. se_value x = Quoted cs) (built_settings a)"
proof (cases a)
  case (Cons p ps)
  have "blanks '' ''" by (simp add: isConnSpace_def)
  then show ?thesis using assms Cons
    by (auto simp: list_all_iff built_setting_wf) (auto simp: built_setting_def sample_setting_def)
qed simp

lemma conninfo_pairs_settings:
  "settings_wf xs r \<Longrightarrow> conninfo_pairs (settings_text xs @ r)
     = map_sum id ((@) (map (decoded_pair \<circ> pair_of) xs)) (conninfo_pairs r)"
  by (cases "scanPairs r") (auto simp: conninfo_pairs_def scanPairs_settings decoded_pair_def comp_def)

lemma Build_cut:
  assumes "list_all quoteless a" and "squote \<notin> set u"
  defines "gap \<equiv> if a = [] then [] else '' ''"
  shows "\<exists>r. Build (a @ (k, u @ squote # w) # b) = settings_text (built_settings a @ [built_setting gap (k, u)]) @ r"
proof -
  have part: "build_part (k, u @ squote # w) = setting_text (built_setting [] (k, u)) @ squote # EscapeValue w @ [squote]"
    using assms(2) by (simp add: build_part_def EscapeValue_append EscapeValue_quote built_setting_text)
  have gap: "setting_text (built_setting gap (k, u)) = gap @ setting_text (built_setting [] (k, u))"
    using assms(2) by (simp add: built_setting_text)
  show ?thesis
  proof (cases a)
    case Nil
    then show ?thesis using part gap by (simp add: Build_def join_concat gap_def)
  next
    case (Cons p ps)
    then have "Build (a @ (k, u @ squote # w) # b)
      = Build a @ '' '' @ build_part (k, u @ squote # w) @ concat (map (Cons (CHR '' '') \<circ> build_part) b)"
      by (simp add: Build_def join_concat)
    moreover have "a \<noteq> []" using Cons by simp
    ultimately show ?thesis using part gap built_settings_text[OF assms(1)] by (simp add: gap_def)
  qed
qed

lemma quoteless_reads_back:
  assumes "list_all (keyword \<circ> fst) params" and "list_all quoteless params"
  shows "conninfo_pairs (Build params) = Inr params"
proof -
  have "conninfo_pairs (settings_text (built_settings params) @ []) = Inr params"
    using built_settings_wf[OF assms] decoded_built_settings[of params]
    by (subst conninfo_pairs_settings) (auto intro: settings_wf_quoted simp: conninfo_pairs_def scanPairs_end)
  then show ?thesis using built_settings_text[OF assms(2)] by simp
qed

text \<open>
  C27. A connection string that was built reads back as the parameters it was built from exactly
  when no value holds a single quote. \<open>EscapeValue\<close> doubles a single quote, which the scanner, as
  libpq, takes for the end of the value: the rest of the value is then read as more settings.
\<close>

theorem build_reads_back:
  assumes "list_all (keyword \<circ> fst) params"
  shows "conninfo_pairs (Build params) = Inr params \<longleftrightarrow> (\<forall>(k, v)\<in>set params. squote \<notin> set v)"
proof
  assume "\<forall>(k, v)\<in>set params. squote \<notin> set v"
  then have "list_all quoteless params" by (auto simp: list_all_iff)
  then show "conninfo_pairs (Build params) = Inr params" by (rule quoteless_reads_back[OF assms])
next
  assume reads: "conninfo_pairs (Build params) = Inr params"
  show "\<forall>(k, v)\<in>set params. squote \<notin> set v"
  proof (rule ccontr)
    assume "\<not> (\<forall>(k, v)\<in>set params. squote \<notin> set v)"
    then have "\<exists>p\<in>set params. \<not> quoteless p" by force
    then obtain a p b where split: "params = a @ p # b" and "\<not> quoteless p" and a: "\<forall>x\<in>set a. quoteless x"
      using split_list_first_prop[of params "\<lambda>p. \<not> quoteless p"] by blast
    then obtain u w where p: "p = (fst p, u @ squote # w)" and u: "squote \<notin> set u"
      by (metis split_list_first prod.collapse)
    let ?gap = "if a = [] then [] else '' ''"
    let ?xs = "built_settings a @ [built_setting ?gap (fst p, u)]"
    have qa: "list_all quoteless a" using a by (simp add: list_all_iff)
    obtain r where r: "Build params = settings_text ?xs @ r"
      using Build_cut[OF qa u, of "fst p" w b] p split by metis
    have "keyword (fst p)" "list_all (keyword \<circ> fst) a" using assms split by (auto simp: list_all_iff)
    then have "settings_wf ?xs r"
      using built_settings_wf[OF _ qa] built_setting_wf[of "(fst p, u)" ?gap] u
      by (intro settings_wf_quoted) (auto simp: isConnSpace_def built_setting_def sample_setting_def)
    then have "conninfo_pairs (Build params) = map_sum id ((@) (a @ [(fst p, u)])) (conninfo_pairs r)"
      unfolding r using conninfo_pairs_settings[of ?xs r] decoded_built_settings[of a] decoded_built by simp
    then have "\<exists>l. params = a @ (fst p, u) # l" using reads by (cases "conninfo_pairs r") auto
    then have "p = (fst p, u)" using split by auto
    then show False using p by (metis append_self_conv list.distinct(1) prod.inject)
  qed
qed

theorem build_reads_back_witness:
  "conninfo_pairs (Build [(''user'', ''rep''), (''password'', ''pa'' @ squote # ''=ss'')])
     \<noteq> Inr [(''user'', ''rep''), (''password'', ''pa'' @ squote # ''=ss'')]
   \<and> conninfo_pairs (Build [(''user'', ''rep''), (''password'', ''p a='' @ [backslash])])
     = Inr [(''user'', ''rep''), (''password'', ''p a='' @ [backslash])]"
proof -
  have "list_all (keyword \<circ> fst) [(''user'', v), (''password'', w)]" for v w :: string
    by (simp add: keyword_def isConnSpace_def)
  then show ?thesis using build_reads_back[of "[(''user'', ''rep''), (''password'', ''pa'' @ squote # ''=ss'')]"]
      build_reads_back[of "[(''user'', ''rep''), (''password'', ''p a='' @ [backslash])]"]
    by (simp add: quote_defs)
qed

text \<open>
  The parameters of a configuration are built in whatever order the runtime ranges over them, and
  read back as those parameters.
\<close>

lemma config_params_keys:
  "fst ` set (config_params cfg app) \<subseteq> {''dbname'', ''user'', ''hostaddr'', ''host'', ''port'', ''password'',
     ''sslmode'', ''sslcert'', ''sslkey'', ''sslrootcert'', ''application_name''}"
  by (auto simp: config_params_def set_param_def Let_def dom_update dest!: set_mp[OF equalityD1[OF dom_update]])

lemma config_reads_back:
  assumes "mset (rangeOver (config_params cfg app)) = mset (config_params cfg app)"
    and "\<forall>v \<in> snd ` set (config_params cfg app). squote \<notin> set v"
  shows "\<exists>ps. conninfo_pairs (BuildFromConfig rangeOver cfg app) = Inr ps \<and> mset ps = mset (config_params cfg app)"
proof -
  let ?ps = "rangeOver (config_params cfg app)"
  have set: "set ?ps = set (config_params cfg app)" using assms(1) by (metis set_mset_mset)
  have "list_all (keyword \<circ> fst) ?ps"
    unfolding list_all_iff set using config_params_keys[of cfg app] by (auto simp: keyword_def isConnSpace_def)
  moreover have "list_all quoteless ?ps" using assms(2) set by (auto simp: list_all_iff)
  ultimately have "conninfo_pairs (Build ?ps) = Inr ?ps" by (rule quoteless_reads_back)
  then show ?thesis using assms(1) by (auto simp: BuildFromConfig_def)
qed

end
