(* ===== verification/Pg_Settings_Facts.thy ===== *)
theory Pg_Settings_Facts
  imports Pg_Settings Conn_String_Facts
begin

text \<open>
  What the redaction of settings guarantees. A shell command is described by its words and
  their quoting, independently of the splitter: what is shown of it are the names of its
  assignments and its program, whatever their values and the arguments are. Redacting a
  setting again changes nothing, connection strings apart.
\<close>

section \<open>Shell words\<close>

datatype shell_part = Lit char | Esc char | Single string | Double "conn_char list"

primrec part_text :: "shell_part \<Rightarrow> string" where
  "part_text (Lit c) = [c]"
| "part_text (Esc c) = [backslash, c]"
| "part_text (Single b) = squote # b @ [squote]"
| "part_text (Double cs) = dquote # chars_text cs @ [dquote]"

definition doubleable :: "conn_char \<Rightarrow> bool" where
  "doubleable x = (case x of Plain c \<Rightarrow> c \<noteq> dquote \<and> c \<noteq> backslash \<and> c \<noteq> CHR ''$'' \<and> c \<noteq> CHR ''`'' | Escaped c \<Rightarrow> True)"

definition literal_char :: "char \<Rightarrow> bool" where
  "literal_char c \<longleftrightarrow> \<not> isShellBlank c \<and> c \<notin> {squote, dquote, backslash} \<and> c \<notin> set unsafeShellChars"

primrec part_wf :: "shell_part \<Rightarrow> bool" where
  "part_wf (Lit c) \<longleftrightarrow> literal_char c"
| "part_wf (Esc c) \<longleftrightarrow> True"
| "part_wf (Single b) \<longleftrightarrow> squote \<notin> set b"
| "part_wf (Double cs) \<longleftrightarrow> list_all doubleable cs"

abbreviation word_text :: "shell_part list \<Rightarrow> string" where
  "word_text ps \<equiv> concat (map part_text ps)"

lemma skipDoubleQuoted_chars: "list_all doubleable cs \<Longrightarrow> skipDoubleQuoted (chars_text cs @ dquote # r) = Some r"
proof (induction cs)
  case (Cons x cs)
  then show ?case by (cases x) (auto simp: doubleable_def quote_defs)
qed simp

lemma skipShellWordPart_part: "part_wf p \<Longrightarrow> skipShellWordPart (part_text p @ r) = Some r"
proof (cases p)
  case (Single b)
  assume "part_wf p"
  then show ?thesis using Single index_byte[of squote b r] by (simp add: skipShellWordPart_def)
next
  case (Double cs)
  assume "part_wf p"
  then show ?thesis using Double skipDoubleQuoted_chars[of cs r]
    by (simp add: skipShellWordPart_def quote_defs)
qed (auto simp: skipShellWordPart_def literal_char_def quote_defs)

lemma part_head: "part_wf p \<Longrightarrow> part_text p \<noteq> [] \<and> \<not> isShellBlank (hd (part_text p))"
  by (cases p) (auto simp: literal_char_def isShellBlank_def quote_defs)

lemma shellWordEnd_word:
  "list_all part_wf ps \<Longrightarrow> r = [] \<or> isShellBlank (hd r) \<Longrightarrow> shellWordEnd (word_text ps @ r) = Some r"
proof (induction ps)
  case Nil
  then show ?case by (cases r) (auto simp: shellWordEnd.simps)
next
  case (Cons p ps)
  let ?s = "part_text p @ word_text ps @ r"
  have p: "part_wf p" using Cons.prems by simp
  obtain c u where s: "?s = c # u" "\<not> isShellBlank c"
    using part_head[OF p] by (cases "part_text p") auto
  have "skipShellWordPart ?s = Some (word_text ps @ r)" by (rule skipShellWordPart_part[OF p])
  then have "shellWordEnd ?s = shellWordEnd (word_text ps @ r)"
    using s by (subst shellWordEnd.simps) simp
  then show ?case using Cons by simp
qed

lemma nextShellWord_word:
  assumes "list_all part_wf ps" and "r = [] \<or> isShellBlank (hd r)"
  shows "nextShellWord (word_text ps @ r) = Some (word_text ps, r)"
  using shellWordEnd_word[OF assms] by (simp add: nextShellWord_def)

lemma word_text_literal: "word_text (map Lit s) = s"
  by (induction s) auto

definition word_char :: "char \<Rightarrow> bool" where
  "word_char c \<longleftrightarrow> is_letter c \<or> is_decimal c \<or> c \<in> set ''_./+-~''"

lemma special_not_word: "list_all (\<lambda>c. \<not> word_char c)
    ([CHR '' '', CHR 0x09, CHR 0x27, CHR 0x22, CHR 0x5C, CHR ''=''] @ unsafeShellChars)"
  by code_simp

lemma word_char_literal: "word_char c \<Longrightarrow> literal_char c \<and> c \<noteq> CHR ''=''"
  using special_not_word by (auto simp: literal_char_def isShellBlank_def quote_defs list_all_iff)

lemma name_literal:
  assumes "isShellVariableName n" shows "list_all part_wf (map Lit n) \<and> CHR ''='' \<notin> set n \<and> n \<noteq> []"
proof -
  have "\<forall>c\<in>set n. word_char c" using assms
    by (auto simp: isShellVariableName_def word_char_def list_all_iff split: list.splits)
  then show ?thesis using assms word_char_literal
    by (fastforce simp: list_all_iff isShellVariableName_def split: list.splits)
qed

lemma program_literal:
  assumes "isPlainProgramName n" shows "list_all part_wf (map Lit n) \<and> CHR ''='' \<notin> set n"
proof -
  have "\<forall>c\<in>set n. word_char c" using assms
    by (auto simp: isPlainProgramName_def word_char_def list_all_iff)
  then show ?thesis using word_char_literal by (fastforce simp: list_all_iff)
qed

section \<open>What is shown of a command\<close>

text \<open>The leading assignments, each with its value and the blanks after it, before the rest.\<close>

record assignment =
  as_name :: string
  as_value :: "shell_part list"
  as_gap :: string

definition assign_text :: "assignment \<Rightarrow> string" where
  "assign_text a = as_name a @ CHR ''='' # word_text (as_value a) @ as_gap a"

definition assign_wf :: "assignment \<Rightarrow> bool" where
  "assign_wf a \<longleftrightarrow> isShellVariableName (as_name a) \<and> list_all part_wf (as_value a)
     \<and> \<not> isBlankShellWord (word_text (as_value a)) \<and> list_all isShellBlank (as_gap a)"

abbreviation assigns_text :: "assignment list \<Rightarrow> string" where
  "assigns_text xs \<equiv> concat (map assign_text xs)"

fun assigns_wf :: "assignment list \<Rightarrow> string \<Rightarrow> bool" where
  "assigns_wf [] rest = True"
| "assigns_wf (x # xs) rest \<longleftrightarrow>
     assign_wf x \<and> (as_gap x \<noteq> [] \<or> assigns_text xs @ rest = []) \<and> assigns_wf xs rest"

definition masked_name :: "string \<Rightarrow> string" where
  "masked_name n = n @ CHR ''='' # RedactedValue"

definition starts_word :: "string \<Rightarrow> bool" where
  "starts_word s \<longleftrightarrow> s = [] \<or> \<not> isShellBlank (hd s)"

lemma trimBlanks_blanks: "list_all isShellBlank b \<Longrightarrow> starts_word r \<Longrightarrow> trimBlanks (b @ r) = r"
  by (induction b) (auto simp: trimBlanks_def starts_word_def dropWhile_eq_self_iff)

lemma name_starts: "isShellVariableName n \<Longrightarrow> starts_word (n @ r) \<and> n @ r \<noteq> []"
  using name_literal[of n] by (cases n) (auto simp: starts_word_def literal_char_def)

lemma assigns_start: "assigns_wf xs r \<Longrightarrow> starts_word r \<Longrightarrow> starts_word (assigns_text xs @ r)"
  using name_starts by (cases xs) (auto simp: assign_text_def assign_wf_def)

lemma shellWords_assign:
  assumes "assign_wf a" and "as_gap a \<noteq> [] \<or> r = []" and "starts_word r"
  shows "shellWords (assign_text a @ r) = map_option (Cons (masked_name (as_name a))) (shellWords r)"
proof -
  let ?n = "as_name a" and ?v = "word_text (as_value a)"
  let ?w = "?n @ CHR ''='' # ?v"
  have wf: "isShellVariableName ?n" "list_all part_wf (as_value a)" "\<not> isBlankShellWord ?v" "list_all isShellBlank (as_gap a)"
    using assms(1) by (auto simp: assign_wf_def)
  have whole: "assign_text a @ r = ?w @ (as_gap a @ r)" by (simp add: assign_text_def)
  have parts: "?w = word_text (map Lit ?n @ Lit (CHR ''='') # as_value a)"
    using word_text_literal[of ?n] by simp
  have "literal_char (CHR ''='')" by code_simp
  then have "list_all part_wf (map Lit ?n @ Lit (CHR ''='') # as_value a)"
    using name_literal[OF wf(1)] wf(2) by simp
  moreover have "as_gap a @ r = [] \<or> isShellBlank (hd (as_gap a @ r))"
    using assms(2) wf(4) by (cases "as_gap a") auto
  ultimately have word: "nextShellWord (?w @ (as_gap a @ r)) = Some (?w, as_gap a @ r)"
    unfolding parts by (rule nextShellWord_word)
  have eq: "strings_Index ?w ''='' = Some (length ?n)" using name_literal[OF wf(1)] by (intro index_byte) simp
  have start: "\<not> (?w @ (as_gap a @ r) = [] \<or> isShellBlank (hd (?w @ (as_gap a @ r))))"
    using name_starts[OF wf(1)] by (auto simp: starts_word_def)
  show ?thesis unfolding whole
    by (subst shellWords.simps, subst if_not_P[OF start], subst word)
       (use wf assms(3) in \<open>simp add: eq trimBlanks_blanks masked_name_def\<close>)
qed

lemma shellWords_assigns:
  "assigns_wf xs r \<Longrightarrow> starts_word r \<Longrightarrow> shellWords (assigns_text xs @ r)
     = map_option ((@) (map (masked_name \<circ> as_name) xs)) (shellWords r)"
proof (induction xs)
  case Nil
  then show ?case by (simp add: option.map_ident)
next
  case (Cons x xs)
  then show ?case using shellWords_assign[of x "assigns_text xs @ r"] assigns_start[of xs r]
    by (auto simp: option.map_comp comp_def)
qed

definition shown_program :: "string \<Rightarrow> string \<Rightarrow> string list" where
  "shown_program p args = p # (if list_all isShellBlank args then [] else [RedactedValue])"

lemma shellWords_program:
  assumes "isPlainProgramName p" and "p \<noteq> []" and "args = [] \<or> isShellBlank (hd args)"
  shows "shellWords (p @ args) = Some (shown_program p args)"
proof -
  have lit: "list_all part_wf (map Lit p)" "CHR ''='' \<notin> set p" using program_literal[OF assms(1)] by auto
  have word: "nextShellWord (p @ args) = Some (p, args)"
    using nextShellWord_word[OF lit(1) assms(3)] by (simp only: word_text_literal)
  have start: "\<not> (p @ args = [] \<or> isShellBlank (hd (p @ args)))"
    using lit(1) assms(2) by (cases p) (auto simp: literal_char_def)
  have eq: "strings_Index p ''='' = None" using lit(2) contains_byte[of p "CHR ''=''"] by (simp add: strings_Contains_def)
  have blank: "trimBlanks args = [] \<longleftrightarrow> list_all isShellBlank args" by (simp add: trimBlanks_def list_all_iff)
  show ?thesis
    by (subst shellWords.simps, subst if_not_P[OF start]) (simp add: word eq assms(1) blank shown_program_def)
qed

abbreviation continued :: "string \<Rightarrow> bool" where
  "continued s \<equiv> strings_Contains s [backslash, CHR 0x0A]"

lemma RedactShellCommand_words:
  assumes "\<not> continued command" and "trimBlanks command = s" and "s \<noteq> []" and "shellWords s = Some out"
  shows "RedactShellCommand command = strings_Join (CHR '' '') out"
  using assms by (simp add: RedactShellCommand_def)



section \<open>Redacting again\<close>

definition shown_words :: "string list \<Rightarrow> bool" where
  "shown_words out \<longleftrightarrow> (\<exists>names prog. out = map masked_name names @ prog \<and> list_all isShellVariableName names
     \<and> (prog = [] \<or> (\<exists>p. isPlainProgramName p \<and> p \<noteq> [] \<and> (prog = [p] \<or> prog = [p, RedactedValue]))))"

lemma shown_words_assign:
  assumes "isShellVariableName n" and "shown_words out"
  shows "shown_words (masked_name n # out)"
proof -
  from assms(2) obtain names prog where "out = map masked_name names @ prog" "list_all isShellVariableName names"
    "prog = [] \<or> (\<exists>p. isPlainProgramName p \<and> p \<noteq> [] \<and> (prog = [p] \<or> prog = [p, RedactedValue]))"
    unfolding shown_words_def by blast
  then show ?thesis unfolding shown_words_def using assms(1)
    by (intro exI[of _ "n # names"] exI[of _ prog]) simp
qed

lemma shown_words_program:
  "isPlainProgramName p \<Longrightarrow> p \<noteq> [] \<Longrightarrow> out = [p] \<or> out = [p, RedactedValue] \<Longrightarrow> shown_words out"
  unfolding shown_words_def by (rule exI[of _ "[]"]) auto

lemma word_not_nil:
  assumes "nextShellWord s = Some (word, after)" and "s \<noteq> []" and "\<not> isShellBlank (hd s)"
  shows "word \<noteq> []"
  using assms shellWordEnd_shorter[of s after] by (auto simp: nextShellWord_def)

lemma shellWords_shape: "shellWords s = Some out \<Longrightarrow> shown_words out"
proof (induction s arbitrary: out rule: shellWords.induct)
  case (1 s)
  show ?case
  proof (cases "s = [] \<or> isShellBlank (hd s)")
    case True
    then have "out = []" using "1.prems" by (subst (asm) shellWords.simps) simp
    then show ?thesis by (simp add: shown_words_def)
  next
    case start: False
    then obtain word after where word: "nextShellWord s = Some (word, after)"
      using "1.prems" by (subst (asm) shellWords.simps) (auto split: option.splits)
    note step = "1.prems"[unfolded shellWords.simps[of s] if_not_P[OF start] word option.case prod.case Let_def]
    show ?thesis
    proof (cases "strings_Index word ''=''")
      case None
      then have "isPlainProgramName word" "out = word # (if trimBlanks after \<noteq> [] then [RedactedValue] else [])"
        using step by (auto split: if_splits)
      then show ?thesis using word_not_nil[OF word] start by (auto intro: shown_words_program)
    next
      case (Some eq)
      then obtain rest where rest: "shellWords (trimBlanks after) = Some rest"
        and name: "isShellVariableName (take eq word)" and out: "out = masked_name (take eq word) # rest"
        and ok: "\<not> (\<not> isShellVariableName (take eq word) \<or> isBlankShellWord (drop (eq + 1) word))"
        using step by (auto simp: masked_name_def split: if_splits)
      have "shown_words rest" using "1.IH"[OF start word refl refl Some refl refl ok rest] .
      then show ?thesis using name out by (simp add: shown_words_assign)
    qed
  qed
qed

definition masked_assign :: "string \<Rightarrow> string \<Rightarrow> assignment" where
  "masked_assign gap n = \<lparr>as_name = n, as_value = map Lit RedactedValue, as_gap = gap\<rparr>"

lemma masked_assign_wf: "isShellVariableName n \<Longrightarrow> list_all isShellBlank gap \<Longrightarrow> assign_wf (masked_assign gap n)"
proof -
  have "list_all part_wf (map Lit RedactedValue)" "\<not> isBlankShellWord RedactedValue" by code_simp+
  then show "isShellVariableName n \<Longrightarrow> list_all isShellBlank gap \<Longrightarrow> ?thesis"
    using word_text_literal[of RedactedValue] by (simp add: assign_wf_def masked_assign_def)
qed

lemma masked_assign_text: "assign_text (masked_assign gap n) = masked_name n @ gap"
  using word_text_literal[of RedactedValue] by (simp add: assign_text_def masked_assign_def masked_name_def)

lemma program_starts: "isPlainProgramName p \<Longrightarrow> p \<noteq> [] \<Longrightarrow> starts_word (p @ r)"
  using program_literal[of p] by (cases p) (auto simp: starts_word_def literal_char_def)

lemma shellWords_names:
  assumes "list_all isShellVariableName names" and "starts_word (strings_Join (CHR '' '') prog)"
    and "shellWords (strings_Join (CHR '' '') prog) = Some prog" and "prog \<noteq> [] \<Longrightarrow> strings_Join (CHR '' '') prog \<noteq> []"
  shows "starts_word (strings_Join (CHR '' '') (map masked_name names @ prog))
    \<and> shellWords (strings_Join (CHR '' '') (map masked_name names @ prog)) = Some (map masked_name names @ prog)"
  using assms(1)
proof (induction names)
  case Nil
  then show ?case using assms(2,3) by simp
next
  case (Cons n names)
  let ?out = "map masked_name names @ prog"
  let ?gap = "if ?out = [] then [] else '' ''"
  have n: "isShellVariableName n" using Cons.prems by simp
  have join: "strings_Join (CHR '' '') (masked_name n # ?out)
      = assign_text (masked_assign ?gap n) @ strings_Join (CHR '' '') ?out"
    unfolding masked_assign_text by (cases ?out) auto
  have ok: "as_gap (masked_assign ?gap n) \<noteq> [] \<or> strings_Join (CHR '' '') ?out = []"
    by (auto simp: masked_assign_def)
  have "list_all isShellBlank ?gap" by (simp add: isShellBlank_def)
  from shellWords_assign[OF masked_assign_wf[OF n this] ok] Cons
  have "shellWords (strings_Join (CHR '' '') (masked_name n # ?out)) = Some (masked_name n # ?out)"
    unfolding join by (simp add: masked_assign_def)
  moreover have "starts_word (strings_Join (CHR '' '') (masked_name n # ?out))"
    unfolding join masked_assign_text using name_starts[OF n] by (simp add: masked_name_def)
  ultimately show ?case by simp
qed

lemma shellWords_again:
  assumes "shown_words out"
  shows "starts_word (strings_Join (CHR '' '') out) \<and> shellWords (strings_Join (CHR '' '') out) = Some out"
proof -
  obtain names prog where out: "out = map masked_name names @ prog" and names: "list_all isShellVariableName names"
    and prog: "prog = [] \<or> (\<exists>p. isPlainProgramName p \<and> p \<noteq> [] \<and> (prog = [p] \<or> prog = [p, RedactedValue]))"
    using assms unfolding shown_words_def by blast
  have "starts_word (strings_Join (CHR '' '') prog) \<and> shellWords (strings_Join (CHR '' '') prog) = Some prog
      \<and> (prog \<noteq> [] \<longrightarrow> strings_Join (CHR '' '') prog \<noteq> [])"
    using prog
  proof
    assume "prog = []"
    then show ?thesis by (simp add: starts_word_def shellWords.simps)
  next
    assume "\<exists>p. isPlainProgramName p \<and> p \<noteq> [] \<and> (prog = [p] \<or> prog = [p, RedactedValue])"
    then obtain p where p: "isPlainProgramName p" "p \<noteq> []" "prog = [p] \<or> prog = [p, RedactedValue]" by blast
    have "\<not> list_all isShellBlank (CHR '' '' # RedactedValue)" "isShellBlank (CHR '' '')" by code_simp+
    then show ?thesis using p(3) program_starts[OF p(1,2)] shellWords_program[OF p(1,2), of "[]"] p(2)
        shellWords_program[OF p(1,2), of "CHR '' '' # RedactedValue"] program_starts[OF p(1,2), of "[]"]
      by (auto simp: shown_program_def)
  qed
  then show ?thesis unfolding out using shellWords_names[OF names, of prog] by blast
qed

lemma shown_words_clean:
  assumes "shown_words out" shows "backslash \<notin> set (strings_Join (CHR '' '') out)"
proof -
  have "backslash \<notin> set n" if "isShellVariableName n \<or> isPlainProgramName n" for n
    using that name_literal[of n] program_literal[of n] by (auto simp: list_all_iff literal_char_def)
  then have "\<forall>w\<in>set out. backslash \<notin> set w"
    using assms by (auto simp: shown_words_def masked_name_def list_all_iff RedactedValue_def RedactedPassword_def quote_defs)
  then show ?thesis by (induction "CHR '' ''" out rule: strings_Join.induct) (auto simp: quote_defs)
qed

lemma RedactShellCommand_mask: "RedactShellCommand RedactedValue = RedactedValue"
  by code_simp

lemma RedactShellCommand_idempotent: "RedactShellCommand (RedactShellCommand c) = RedactShellCommand c"
proof (cases "continued c \<or> trimBlanks c = [] \<or> shellWords (trimBlanks c) = None")
  case True
  then have "RedactShellCommand c = RedactedValue \<or> RedactShellCommand c = c"
    by (auto simp: RedactShellCommand_def Let_def)
  then show ?thesis by (auto simp: RedactShellCommand_mask)
next
  case False
  then obtain out where out: "shellWords (trimBlanks c) = Some out" by auto
  let ?j = "strings_Join (CHR '' '') out"
  note shape = shellWords_shape[OF out]
  have red: "RedactShellCommand c = ?j" using False out by (simp add: RedactShellCommand_def)
  have "\<not> continued ?j" using shown_words_clean[OF shape] by (auto simp: contains_iff)
  moreover have "trimBlanks ?j = ?j"
    using shellWords_again[OF shape] trimBlanks_blanks[of "[]" ?j] by simp
  moreover have "shellWords ?j = Some out" using shellWords_again[OF shape] by simp
  ultimately show ?thesis unfolding red by (cases "?j = []") (auto simp: RedactShellCommand_def)
qed

text \<open>
  Redacting a setting again changes nothing, for every setting whose value is not a
  connection string: the collector redacts a value before it is stored and the server again when
  it is read, and both show the same text.
\<close>

theorem setting_redacted_once:
  assumes "\<not> IsConnectionStringSetting uc name"
  shows "RedactValue uc name (RedactValue uc name v) = RedactValue uc name v"
proof -
  have "RedactedValue \<noteq> []" by code_simp
  then show ?thesis using assms
    by (auto simp: RedactValue_def Let_def IsConnectionStringSetting_def RedactShellCommand_idempotent)
qed

theorem setting_redacted_once_witness:
  "RedactValue ascii_tables ''restore_command'' (RedactValue ascii_tables ''restore_command'' ''KEY=s3cret get %f'')
   = RedactValue ascii_tables ''restore_command'' ''KEY=s3cret get %f''"
proof -
  have "\<not> IsConnectionStringSetting ascii_tables ''restore_command''" by code_simp
  then show ?thesis by (rule setting_redacted_once)
qed

text \<open>
  A connection string is redacted further when a quoted password is directly followed by the
  next keyword: the closing quote that separated them is gone.
\<close>

lemma conninfo_redacted_further:
  "RedactValue ascii_tables ''primary_conninfo'' (''password='' @ squote # ''s3cret'' @ squote # ''user=rep'')
     = ''password=********user=rep''
   \<and> RedactValue ascii_tables ''primary_conninfo'' ''password=********user=rep'' = ''password=********''"
  by code_simp

end
