(* ===== verification/Sql_Redact_Facts.thy ===== *)
theory Sql_Redact_Facts
  imports Sql_Redact Pg_Settings_Facts
begin

text \<open>
  What the redaction of statement text guarantees: the lexer loses nothing, and the cheap check
  that skips most statements skips only those the redaction would not change.
\<close>

section \<open>The lexer loses nothing\<close>

lemma tokens_text_Cons [simp]: "tokens_text (t # ts) = tk_text t @ tokens_text ts"
  by (simp add: tokens_text_def)

lemma tokens_text_Nil [simp]: "tokens_text [] = []"
  by (simp add: tokens_text_def)

lemma tokens_text_append [simp]: "tokens_text (ts @ us) = tokens_text ts @ tokens_text us"
  by (simp add: tokens_text_def)

lemma lex_text: "tokens_text (lex uc s) = s"
proof (induction uc s rule: lex.induct)
  case (1 uc s)
  show ?case
  proof (cases "s = []")
    case False
    obtain t rest where t: "lexToken uc s = (t, rest)" by fastforce
    have "tokens_text (lex uc rest) = rest" using "1.IH"[OF False t[symmetric]] .
    then show ?thesis using lex_step[OF False t] lexToken_text[OF t False] by simp
  qed simp
qed

section \<open>Lower-casing works rune by rune\<close>

text \<open>
  What is asked of lower-casing outside ASCII: an ASCII byte is a rune of its own, so that the
  text before it and the text after it are lowered separately, as \<^verbatim>\<open>strings.ToLower\<close> does.
\<close>

definition lower_by_runes :: "unicode_tables \<Rightarrow> bool" where
  "lower_by_runes uc \<longleftrightarrow> (\<forall>a c b. byte_of c < 128 \<longrightarrow>
     strings_ToLower uc (a @ c # b) = strings_ToLower uc a @ ascii_lower c # strings_ToLower uc b)"

lemma lower_Nil [simp]: "strings_ToLower uc [] = []"
  by (simp add: strings_ToLower_def is_ascii_def)

lemma lower_at:
  "lower_by_runes uc \<Longrightarrow> byte_of c < 128 \<Longrightarrow>
     strings_ToLower uc (a @ c # b) = strings_ToLower uc a @ ascii_lower c # strings_ToLower uc b"
  by (simp add: lower_by_runes_def)

definition ascii_between :: "string \<Rightarrow> string \<Rightarrow> bool" where
  "ascii_between a b \<longleftrightarrow> a = [] \<or> b = [] \<or> byte_of (last a) < 128 \<or> byte_of (hd b) < 128"

lemma lower_append:
  assumes "lower_by_runes uc" and "ascii_between a b"
  shows "strings_ToLower uc (a @ b) = strings_ToLower uc a @ strings_ToLower uc b"
proof -
  consider "a = [] \<or> b = []" | "a \<noteq> []" "byte_of (last a) < 128" | "b \<noteq> []" "byte_of (hd b) < 128"
    using assms(2) unfolding ascii_between_def by blast
  then show ?thesis
  proof cases
    case 2
    then obtain x c where a: "a = x @ [c]" by (metis append_butlast_last_id)
    then show ?thesis using 2 lower_at[OF assms(1), of c x b] lower_at[OF assms(1), of c x "[]"] by simp
  next
    case 3
    then obtain c y where b: "b = c # y" by (cases b) auto
    then show ?thesis using 3 lower_at[OF assms(1), of c a y] lower_at[OF assms(1), of c "[]" y] by simp
  qed auto
qed

lemma ascii_bytes [simp]: "byte_of squote < 128" "byte_of dquote < 128" "byte_of (CHR ''$'') < 128" "byte_of (CHR ''/'') < 128"
  by (simp_all add: byte_of_def quote_defs)

text \<open>A quoted token is its opening, its body and, when it is closed, its closing delimiter.\<close>

definition delimited :: "token \<Rightarrow> bool" where
  "delimited t \<longleftrightarrow> (\<exists>close. tk_text t = tk_open t @ tk_body t @ close \<and> tk_open t \<noteq> []
     \<and> byte_of (last (tk_open t)) < 128 \<and> (close = [] \<longleftrightarrow> \<not> tk_terminated t)
     \<and> (close \<noteq> [] \<longrightarrow> byte_of (hd close) < 128 \<and> byte_of (last close) < 128))"

definition plain_kind :: "token \<Rightarrow> bool" where
  "plain_kind t \<longleftrightarrow> \<not> isLiteral t \<and> tk_kind t \<noteq> tokQuotedIdent"

lemma quotedBody_open: "quotedBody q e s = (body, False, rest) \<Longrightarrow> rest = []"
  by (induction q e s arbitrary: body rule: quotedBody.induct)
     (fastforce simp: body_cons_def split: if_splits prod.splits)+

lemma lexString_shape:
  assumes "lexString opener e u s = (t, rest)" and "opener \<noteq> []" and "last opener = squote"
  shows "delimited t \<and> (rest = [] \<or> tk_terminated t)"
proof -
  obtain body closed where q: "quotedBody squote e s = (body, closed, rest)"
    using assms(1) by (auto simp: lexString_def split: prod.splits)
  then have "delimited t" "tk_terminated t = closed"
    using assms by (auto simp: lexString_def delimited_def)
  then show ?thesis using q quotedBody_open[of squote e s body rest] by (cases closed) auto
qed

lemma lexQuotedIdent_shape: "lexQuotedIdent s = (t, rest) \<Longrightarrow> delimited t \<and> (rest = [] \<or> tk_terminated t)"
proof -
  assume lex: "lexQuotedIdent s = (t, rest)"
  then obtain body closed where q: "quotedBody dquote False s = (body, closed, rest)"
    by (auto simp: lexQuotedIdent_def split: prod.splits)
  then have "delimited t" "tk_terminated t = closed"
    using lex by (auto simp: lexQuotedIdent_def delimited_def)
  then show ?thesis using q quotedBody_open[of dquote False s body rest] by (cases closed) auto
qed

lemma delimited_end: "delimited t \<Longrightarrow> rest = [] \<or> tk_terminated t \<Longrightarrow> ascii_between (tk_text t) rest"
  by (auto simp: delimited_def ascii_between_def)

lemma plain_token_kind [simp]:
  "tk_kind (plain_token k s) = k" "tk_text (plain_token k s) = s" "tk_body (plain_token k s) = []"
  by (simp_all add: plain_token_def)

lemma digit_ascii: "isDigit c \<Longrightarrow> byte_of c < 128"
proof -
  assume "isDigit c"
  then have "c \<le> CHR ''9''" by (simp add: isDigit_def)
  then show ?thesis by (simp add: byte_of_def less_eq_char_def)
qed

lemma last_takeWhile: "takeWhile P s \<noteq> [] \<Longrightarrow> P (last (takeWhile P s))"
  by (metis last_in_set set_takeWhileD)

lemma lexDollar_shape:
  assumes "lexDollar s = (t, rest)"
  shows "(plain_kind t \<or> delimited t) \<and> ascii_between (tk_text t) rest"
proof (cases "plain_kind t")
  case True
  then have "tk_text t = CHR ''$'' # takeWhile isDigit s \<or> tk_text t = ''$''"
    using assms by (auto simp: lexDollar_def Let_def plain_kind_def isLiteral_def split: if_splits option.splits)
  moreover have "byte_of (last (CHR ''$'' # takeWhile isDigit s)) < 128"
    using digit_ascii[OF last_takeWhile[of isDigit s]] by simp
  ultimately show ?thesis using True by (auto simp: ascii_between_def)
next
  case False
  then have "delimited t \<and> (rest = [] \<or> tk_terminated t)"
    using assms by (auto simp: lexDollar_def Let_def plain_kind_def isLiteral_def delimited_def split: if_splits option.splits)
  then show ?thesis using delimited_end by auto
qed

lemma not_ident_ascii: "\<not> isIdentCont c \<or> \<not> isIdentStart c \<Longrightarrow> byte_of c < 128"
  by (auto simp: isIdentCont_def isIdentStart_def)

lemma lexIdent_shape:
  assumes "lexIdentOrPrefixedString uc s = (t, rest)" and "s \<noteq> []"
  shows "(plain_kind t \<or> delimited t) \<and> ascii_between (tk_text t) rest"
proof -
  define ident where "ident = hd s # takeWhile isIdentCont (tl s)"
  define after where "after = drop (length ident) s"
  note step = assms(1)[unfolded lexIdentOrPrefixedString_def Let_def ident_def[symmetric] after_def[symmetric]]
  show ?thesis
  proof (cases "(t, rest) = (plain_token tokIdent ident, after)")
    case True
    have "after = dropWhile isIdentCont (tl s)"
      using assms(2) by (cases s) (auto simp: after_def ident_def dropWhile_eq_drop)
    then have "after = [] \<or> byte_of (hd after) < 128" using hd_dropWhile[of isIdentCont "tl s"] not_ident_ascii by auto
    then show ?thesis using True by (auto simp: plain_kind_def isLiteral_def ascii_between_def)
  next
    case False
    then obtain opener e u r where "lexString opener e u r = (t, rest)" "opener \<noteq> []" "last opener = squote"
      using step by (auto split: if_splits)
    then show ?thesis using lexString_shape delimited_end by blast
  qed
qed

lemma afterBlockComment_slash:
  "afterBlockComment d s = rest \<Longrightarrow> rest \<noteq> [] \<Longrightarrow> \<exists>u. s = u @ CHR ''/'' # rest"
proof (induction d s rule: afterBlockComment.induct)
  case (3 d c e s)
  show ?case
  proof (cases "c = CHR ''*'' \<and> e = CHR ''/'' \<and> d = 1")
    case True
    then have "c # e # s = [c] @ CHR ''/'' # rest" using 3 by simp
    then show ?thesis by blast
  next
    case False
    then have "(\<exists>u. s = u @ CHR ''/'' # rest) \<or> (\<exists>u. e # s = u @ CHR ''/'' # rest)"
      using 3 by (cases "c = CHR ''/'' \<and> e = CHR ''*''"; cases "c = CHR ''*'' \<and> e = CHR ''/''") auto
    then show ?thesis by (metis append_Cons)
  qed
qed auto

lemma lexToken_shape:
  assumes "lexToken uc s = (t, rest)" and "s \<noteq> []"
  shows "(plain_kind t \<or> delimited t) \<and> ascii_between (tk_text t) rest"
proof -
  obtain c r where s: "s = c # r" using assms(2) by (cases s) auto
  note step = assms(1)[unfolded lexToken_def s list.sel Let_def]
  have plain: "?thesis" if "t = plain_token k u" "k \<in> {tokSpace, tokComment, tokOp, tokOther}"
    "rest = [] \<or> byte_of (last u) < 128 \<or> byte_of (hd rest) < 128" for k u
    using that by (auto simp: plain_kind_def isLiteral_def ascii_between_def)
  have spaces: "byte_of (last (takeWhile P s)) < 128" if "P c" "\<And>c. P c \<Longrightarrow> byte_of c < 128" for P
    using that last_takeWhile[of P s] s by simp
  have sp: "byte_of c < 128" if "isSpace c" for c using that by (auto simp: isSpace_def byte_of_def)
  have op: "byte_of c < 128" if "isOpChar c" for c using that by (auto simp: isOpChar_def byte_of_def)
  have nl: "rest = [] \<or> byte_of (hd rest) < 128" if "rest = dropWhile (\<lambda>c. c \<noteq> CHR 0x0A) s"
    using that hd_dropWhile[of "\<lambda>c. c \<noteq> CHR 0x0A" s] by (auto simp: byte_of_def)
  have block: "rest = [] \<or> byte_of (last (consumed s rest)) < 128" if after: "rest = afterBlockComment 0 s"
  proof (cases "rest = []")
    case False
    then obtain u where "s = (u @ ''/'') @ rest" using afterBlockComment_slash[OF after[symmetric]] by auto
    then have "consumed s rest = u @ ''/''" using consumed_suffix by blast
    then show ?thesis by simp
  qed simp
  consider "isSpace c" | "\<not> isSpace c" "c = CHR ''-'' \<and> r \<noteq> [] \<and> hd r = CHR ''-''"
    | "\<not> isSpace c" "c = CHR ''/'' \<and> r \<noteq> [] \<and> hd r = CHR ''*''"
    | "lexString [squote] False False r = (t, rest) \<or> lexQuotedIdent r = (t, rest) \<or> lexDollar r = (t, rest)
        \<or> lexIdentOrPrefixedString uc s = (t, rest)"
    | "isOpChar c" "t = plain_token tokOp (takeWhile isOpChar s)"
    | "\<not> isIdentStart c" "t = plain_token tokOther [c]"
    using step s by (auto split: if_splits)
  then show ?thesis
  proof cases
    case 1 then show ?thesis using step s spaces[of isSpace] sp by (intro plain[of tokSpace "takeWhile isSpace s"]) auto
  next
    case 2 then show ?thesis using step s nl
      by (intro plain[of tokComment "takeWhile (\<lambda>c. c \<noteq> CHR 0x0A) s"]) (auto simp: isSpace_def)
  next
    case 3
    then have "t = plain_token tokComment (consumed s (afterBlockComment 0 s))" "rest = afterBlockComment 0 s"
      using step s by (auto simp: lexBlockComment_def Let_def isSpace_def)
    then show ?thesis using block by (intro plain[of tokComment "consumed s rest"]) auto
  next
    case 4 then show ?thesis
      using lexString_shape[of "[squote]" False False r t rest] lexQuotedIdent_shape[of r t rest] lexDollar_shape[of r t rest]
        lexIdent_shape[OF _ assms(2), of uc t rest] delimited_end by auto
  next
    case 5 then show ?thesis using spaces[of isOpChar] op by (intro plain[of tokOp "takeWhile isOpChar s"]) auto
  next
    case 6 then show ?thesis using not_ident_ascii by (intro plain[of tokOther "[c]"]) auto
  qed
qed

lemma lex_shape: "t \<in> set (lex uc s) \<Longrightarrow> plain_kind t \<or> delimited t"
proof (induction uc s rule: lex.induct)
  case (1 uc s)
  then have ne: "s \<noteq> []" by auto
  obtain u rest where u: "lexToken uc s = (u, rest)" by fastforce
  show ?case using "1.prems" "1.IH"[OF ne u[symmetric]] lexToken_shape[OF u ne] lex_step[OF ne u] by auto
qed

lemma token_lower_contained:
  "lower_by_runes uc \<Longrightarrow> t \<in> set (lex uc s) \<Longrightarrow> strings_Contains (strings_ToLower uc s) (strings_ToLower uc (tk_text t))"
proof (induction uc s rule: lex.induct)
  case (1 uc s)
  then have ne: "s \<noteq> []" by auto
  obtain u rest where u: "lexToken uc s = (u, rest)" by fastforce
  have "strings_ToLower uc (tk_text u @ rest) = strings_ToLower uc (tk_text u) @ strings_ToLower uc rest"
    using lexToken_shape[OF u ne] by (intro lower_append[OF "1.prems"(1)]) simp
  then have low: "strings_ToLower uc s = strings_ToLower uc (tk_text u) @ strings_ToLower uc rest"
    using lexToken_text[OF u ne] by simp
  show ?case
  proof (cases "t = u")
    case True
    then show ?thesis unfolding contains_iff using low by (metis append_Nil)
  next
    case False
    then have "strings_Contains (strings_ToLower uc rest) (strings_ToLower uc (tk_text t))"
      using "1.prems" "1.IH"[OF ne u[symmetric]] lex_step[OF ne u] by simp
    then show ?thesis unfolding contains_iff low by (metis append.assoc)
  qed
qed

lemma body_lower_contained:
  assumes "lower_by_runes uc" and "delimited t"
  shows "strings_Contains (strings_ToLower uc (tk_text t)) (strings_ToLower uc (tk_body t))"
proof -
  obtain close where t: "tk_text t = tk_open t @ tk_body t @ close" "byte_of (last (tk_open t)) < 128"
    "close \<noteq> [] \<longrightarrow> byte_of (hd close) < 128"
    using assms(2) by (auto simp: delimited_def)
  have "strings_ToLower uc (tk_text t)
      = strings_ToLower uc (tk_open t) @ strings_ToLower uc (tk_body t) @ strings_ToLower uc close"
    using t lower_append[OF assms(1), of "tk_open t" "tk_body t @ close"] lower_append[OF assms(1), of "tk_body t" close]
    by (auto simp: ascii_between_def)
  then show ?thesis unfolding contains_iff by blast
qed

lemma contains_avoiding:
  assumes "strings_Contains (x @ c # y) f" and "c \<notin> set f"
  shows "strings_Contains x f \<or> strings_Contains y f"
proof -
  obtain a b where ab: "x @ c # y = a @ f @ b" using assms(1) contains_iff by blast
  then consider us where "x = a @ us" "us @ c # y = f @ b" | us where "a = x @ us" "c # y = us @ f @ b"
    by (auto simp: append_eq_append_conv2)
  then show ?thesis
  proof cases
    case 1
    then consider vs where "us = f @ vs" | vs where "f = us @ vs" "c # y = vs @ b" by (auto simp: append_eq_append_conv2)
    then show ?thesis
    proof cases
      case 1
      then show ?thesis using \<open>x = a @ us\<close> contains_iff by blast
    next
      case 2
      then have "vs = []" using assms(2) by (cases vs) auto
      then have "x = a @ f @ []" using 2 \<open>x = a @ us\<close> by simp
      then show ?thesis using contains_iff by blast
    qed
  next
    case 2
    show ?thesis
    proof (cases us)
      case Nil
      then show ?thesis using 2 assms(2) by (cases f) (auto simp: contains_iff)
    next
      case (Cons d ds)
      then show ?thesis using 2 contains_iff by auto
    qed
  qed
qed

lemma undoubled_contained:
  assumes "lower_by_runes uc" and "dquote \<notin> set f"
  shows "strings_Contains (strings_ToLower uc (strings_ReplaceAll b [dquote, dquote] [dquote])) f
    \<Longrightarrow> strings_Contains (strings_ToLower uc b) f"
proof (induction "length b" arbitrary: b rule: less_induct)
  case less
  show ?case
  proof (cases "strings_Index b [dquote, dquote]")
    case None
    then show ?thesis using less.prems by (subst (asm) strings_ReplaceAll.simps) simp
  next
    case (Some i)
    define u where "u = take i b"
    define v where "v = drop (i + 2) b"
    have b: "b = u @ dquote # dquote # v"
      using strings_Index_split[OF Some] by (simp add: u_def v_def)
    have "strings_ReplaceAll b [dquote, dquote] [dquote] = u @ dquote # strings_ReplaceAll v [dquote, dquote] [dquote]"
      using Some by (subst strings_ReplaceAll.simps) (simp add: u_def v_def numeral_2_eq_2)
    moreover have low: "ascii_lower dquote = dquote" by code_simp
    ultimately have "strings_Contains (strings_ToLower uc u) f
        \<or> strings_Contains (strings_ToLower uc (strings_ReplaceAll v [dquote, dquote] [dquote])) f"
      using less.prems lower_at[OF assms(1), of dquote u] contains_avoiding[OF _ assms(2)] by simp
    then have "strings_Contains (strings_ToLower uc u) f \<or> strings_Contains (strings_ToLower uc v) f"
      using less.hyps[of v] b by auto
    moreover have "strings_ToLower uc b = strings_ToLower uc u @ dquote # dquote # strings_ToLower uc v"
      using lower_at[OF assms(1), of dquote u "dquote # v"] lower_at[OF assms(1), of dquote "[]" v] b low by simp
    ultimately show ?thesis unfolding contains_iff by (metis append.assoc append_Cons)
  qed
qed

section \<open>The cheap check\<close>

lemma wholeValueSettings_eq: "wholeValueSettings uc =
    [''archive_cleanup_command'', ''archive_command'', ''recovery_end_command'', ''restore_command'', ''ssl_passphrase_command'']"
proof -
  have "list_all (\<lambda>n. is_ascii n \<and> map ascii_lower n = n) CredentialSettings" by code_simp
  then have "strings_ToLower uc n = n" if "n \<in> set CredentialSettings" for n
    using that by (simp add: strings_ToLower_def list_all_iff)
  then have "wholeValueSettings uc = filter (\<lambda>n. n \<notin> set conninfoSettings) CredentialSettings"
    unfolding wholeValueSettings_def IsConnectionStringSetting_def by (intro filter_cong) auto
  also have "\<dots> = [''archive_cleanup_command'', ''archive_command'', ''recovery_end_command'', ''restore_command'',
      ''ssl_passphrase_command'']" by code_simp
  finally show ?thesis .
qed

lemma triggers_cover:
  "list_all (\<lambda>f. dquote \<notin> set f \<and> list_ex (strings_Contains f) (triggerFragments uc))
     (secretNameFragments @ wholeValueSettings uc @ [''password'', ''postgres://'', ''postgresql://''])"
  unfolding triggerFragments_def wholeValueSettings_eq by code_simp

lemma trigger_of:
  assumes "f \<in> set (secretNameFragments @ wholeValueSettings uc @ [''password'', ''postgres://'', ''postgresql://''])"
  shows "dquote \<notin> set f \<and> (\<exists>g\<in>set (triggerFragments uc). strings_Contains f g)"
  using triggers_cover[of uc] assms unfolding list_all_iff list_ex_iff by blast

lemma contains_self: "strings_Contains s s"
  unfolding contains_iff by (metis append_Nil append_Nil2)

lemma secret_name_fragment:
  assumes "isSecretName uc n"
  shows "\<exists>f \<in> set (secretNameFragments @ wholeValueSettings uc). strings_Contains (strings_ToLower uc n) f"
  using assms contains_self[of "strings_ToLower uc n"]
  by (auto simp: isSecretName_def Let_def list_ex_iff split: if_splits)

lemma token_mentions:
  assumes "lower_by_runes uc" and "t \<in> set (lex uc q)"
    and "f \<in> set (secretNameFragments @ wholeValueSettings uc @ [''password'', ''postgres://'', ''postgresql://''])"
    and "strings_Contains (strings_ToLower uc (tk_text t)) f \<or> delimited t \<and> strings_Contains (strings_ToLower uc (tk_body t)) f"
  shows "MightContainSecret uc q"
proof -
  have "strings_Contains (strings_ToLower uc (tk_text t)) f"
    using assms(4) body_lower_contained[OF assms(1)] contains_trans by blast
  then have "strings_Contains (strings_ToLower uc q) f"
    using token_lower_contained[OF assms(1,2)] contains_trans by blast
  then show ?thesis using trigger_of[OF assms(3)] contains_trans
    unfolding MightContainSecret_def list_ex_iff by blast
qed

lemma secret_token_mentions:
  assumes "lower_by_runes uc" and "t \<in> set (lex uc q)" and "isName t" and "isSecretName uc (token_name t)"
  shows "MightContainSecret uc q"
proof -
  obtain f where f: "f \<in> set (secretNameFragments @ wholeValueSettings uc)"
    "strings_Contains (strings_ToLower uc (token_name t)) f" using secret_name_fragment[OF assms(4)] by blast
  have "dquote \<notin> set f" using trigger_of[of f uc] f(1) by auto
  have "strings_Contains (strings_ToLower uc (tk_text t)) f \<or> delimited t \<and> strings_Contains (strings_ToLower uc (tk_body t)) f"
  proof (cases "tk_kind t = tokQuotedIdent")
    case True
    then have "delimited t" using lex_shape[OF assms(2)] by (simp add: plain_kind_def)
    moreover have "strings_Contains (strings_ToLower uc (tk_body t)) f"
      using f(2) True undoubled_contained[OF assms(1) \<open>dquote \<notin> set f\<close>] by (simp add: token_name_def)
    ultimately show ?thesis by simp
  next
    case False
    then show ?thesis using f(2) by (simp add: token_name_def)
  qed
  then show ?thesis using token_mentions[OF assms(1,2)] f(1) by auto
qed

lemma secret_constant_mentions:
  assumes "lower_by_runes uc" and "t \<in> set (lex uc q)" and "isLiteral t"
    and "isSecretName uc (tk_body t) \<or> mentionsConnSecret uc (tk_body t)"
  shows "MightContainSecret uc q"
proof -
  have "delimited t" using lex_shape[OF assms(2)] assms(3) by (simp add: plain_kind_def)
  moreover have "\<exists>f \<in> set (secretNameFragments @ wholeValueSettings uc @ [''password'', ''postgres://'', ''postgresql://'']).
      strings_Contains (strings_ToLower uc (tk_body t)) f"
    using assms(4) secret_name_fragment[of uc "tk_body t"] by (auto simp: mentionsConnSecret_def Let_def)
  ultimately show ?thesis using token_mentions[OF assms(1,2)] by blast
qed

lemma sig_of_bound: "k < length (sig_of toks) \<Longrightarrow> sig_of toks ! k < length toks"
  using nth_mem[of k "sig_of toks"] by (auto simp: sig_of_def)

lemma redactLoop_untouched:
  assumes "\<And>k. k < length sig \<Longrightarrow> tokenRule uc toks sig k w = (w, Some (k + 1))"
  shows "redactLoop uc toks sig k w = w"
proof (induction "length sig - k" arbitrary: k)
  case 0
  then show ?case by (simp add: redactLoop.simps)
next
  case (Suc n)
  then have "k < length sig" "redactLoop uc toks sig (k + 1) w = w" by auto
  then show ?case using assms by (subst redactLoop.simps) simp
qed

lemma unmentioned_untouched:
  assumes "lower_by_runes uc" and "\<not> MightContainSecret uc q"
  shows "redactTokens uc (lex uc q) = q"
proof -
  let ?toks = "lex uc q"
  have "tokenRule uc ?toks (sig_of ?toks) k w = (w, Some (k + 1))" if k: "k < length (sig_of ?toks)" for k w
  proof -
    let ?t = "tok ?toks (sig_of ?toks) k"
    have t: "?t \<in> set ?toks" using sig_of_bound[OF k] by simp
    have body: "constantName ?t = Some n \<Longrightarrow> n = tk_body ?t" for n
      by (auto simp: constantName_def split: if_splits)
    have "\<not> (isName ?t \<and> isSecretName uc (token_name ?t))"
      using secret_token_mentions[OF assms(1) t] assms(2) by blast
    moreover have "constantRule uc ?toks (sig_of ?toks) k w = (w, Some (k + 1))" if "isLiteral ?t"
    proof -
      have none: "\<not> isSecretName uc (tk_body ?t)" "\<not> mentionsConnSecret uc (tk_body ?t)"
        using secret_constant_mentions[OF assms(1) t that] assms(2) by blast+
      then have "connRule uc ?toks (sig_of ?toks) k w = (w, Some (k + 1))"
        by (simp add: connRule_def redactConnString_def Let_def)
      then show ?thesis using none(1) body by (cases "constantName ?t") (auto simp: constantRule_def)
    qed
    ultimately show ?thesis unfolding tokenRule_def Let_def by (simp only: if_False if_True split: if_split) simp
  qed
  then have "redactLoop uc ?toks (sig_of ?toks) 0 ([], 0) = ([], 0)" by (rule redactLoop_untouched)
  then show ?thesis by (simp add: redactTokens_def lex_text)
qed

text \<open>
  C28. The cheap check is sound: skipping the lexer for the statements in which no trigger
  fragment occurs gives the text the full redaction gives, for every statement.
\<close>

theorem cheap_check_sound:
  assumes "lower_by_runes uc"
  shows "RedactQuery uc q = redactTokens uc (lex uc q)"
  using unmentioned_untouched[OF assms, of q] by (simp add: RedactQuery_def)

definition byte_tables :: unicode_tables where
  "byte_tables = \<lparr>uc_upper = map ascii_upper, uc_lower = map ascii_lower\<rparr>"

lemma byte_tables_runes: "lower_by_runes byte_tables"
  by (simp add: lower_by_runes_def strings_ToLower_def byte_tables_def)

theorem cheap_check_sound_witness:
  "RedactQuery byte_tables ''SET app.pin = 1234'' = redactTokens byte_tables (lex byte_tables ''SET app.pin = 1234'')"
  by (rule cheap_check_sound[OF byte_tables_runes])

end
