(* ===== verification/Sql_Redact_Secrecy.thy ===== *)
theory Sql_Redact_Secrecy
  imports Sql_Redact_Facts
begin

text \<open>
  The constant behind a secret's name does not influence what is shown of a statement. The walk
  over the tokens treats two token lists that differ in that constant alike, and the lexer
  gives two such lists for two statements that differ in it.
\<close>

section \<open>Tokens that differ in one constant\<close>

definition quiet :: "token \<Rightarrow> bool" where
  "quiet t \<longleftrightarrow> tk_kind t = tokString \<and> \<not> ambiguousEscapes t"

definition swappable :: "token list \<Rightarrow> nat \<Rightarrow> token \<Rightarrow> bool" where
  "swappable toks i t \<longleftrightarrow> i < length toks \<and> quiet (toks ! i) \<and> quiet t"

lemma swap_kind:
  assumes "swappable toks i t"
  shows "tk_kind (toks[i := t] ! j) = tk_kind (toks ! j)"
  using assms by (cases "i = j") (auto simp: swappable_def quiet_def)

lemma swap_token_is:
  "swappable toks i t \<Longrightarrow> k \<noteq> tokString \<Longrightarrow> token_is (toks[i := t] ! j) k word = token_is (toks ! j) k word"
  by (cases "i = j") (auto simp: swappable_def quiet_def token_is_def)

lemma swap_isName: "swappable toks i t \<Longrightarrow> isName (toks[i := t] ! j) = isName (toks ! j)"
  by (simp add: isName_def swap_kind)

lemma swap_isLiteral: "swappable toks i t \<Longrightarrow> isLiteral (toks[i := t] ! j) = isLiteral (toks ! j)"
  by (simp add: isLiteral_def swap_kind)

lemma swap_isSeparator: "swappable toks i t \<Longrightarrow> isSeparator (toks[i := t] ! j) = isSeparator (toks ! j)"
  by (cases "i = j") (auto simp: swappable_def quiet_def isSeparator_def)

lemma swap_ambiguous: "swappable toks i t \<Longrightarrow> ambiguousEscapes (toks[i := t] ! j) = ambiguousEscapes (toks ! j)"
  by (cases "i = j") (auto simp: swappable_def quiet_def)

lemma swap_sig: "swappable toks i t \<Longrightarrow> sig_of (toks[i := t]) = sig_of toks"
  by (simp add: sig_of_def significant_def swap_kind)

lemma swap_runEnd: "swappable toks i t \<Longrightarrow> runEnd (toks[i := t]) sig m = runEnd toks sig m"
proof (induction toks sig m rule: runEnd.induct)
  case (1 toks sig m)
  then show ?case
    by (cases "m + 1 < length sig \<and> isLiteral (tok toks sig (m + 1))")
       (auto simp: runEnd.simps[of _ sig m] swap_isLiteral)
qed

lemma swap_dottedStart: "swappable toks i t \<Longrightarrow> dottedStart (toks[i := t]) sig j = dottedStart toks sig j"
proof (induction toks sig j rule: dottedStart.induct)
  case (1 toks sig j)
  then show ?case
    by (cases "2 \<le> j \<and> token_is (tok toks sig (j - 1)) tokOther ''.'' \<and> isName (tok toks sig (j - 2))")
       (auto simp: dottedStart.simps[of _ sig j] swap_token_is swap_isName)
qed

lemma swap_isSetTarget: "swappable toks i t \<Longrightarrow> isSetTarget (toks[i := t]) sig k = isSetTarget toks sig k"
  by (simp add: isSetTarget_def swap_dottedStart swap_token_is)

lemma swap_semicolonFrom: "swappable toks i t \<Longrightarrow> semicolonFrom (toks[i := t]) sig m = semicolonFrom toks sig m"
proof (induction toks sig m rule: semicolonFrom.induct)
  case (1 toks sig m)
  then show ?case
    by (cases "m < length sig \<and> \<not> token_is (tok toks sig m) tokOther '';''")
       (auto simp: semicolonFrom.simps[of _ sig m] swap_token_is)
qed

lemma swap_setValueEnd:
  "swappable toks i t \<Longrightarrow> sig ! m \<noteq> i \<Longrightarrow> setValueEnd (toks[i := t]) sig m = setValueEnd toks sig m"
  by (simp add: setValueEnd_def swap_semicolonFrom swap_token_is)

lemma swap_emit:
  assumes "start \<le> i \<or> i < snd w"
  shows "emit (toks[i := t]) start stop repl w = emit toks start stop repl w"
proof -
  obtain out u where w: "w = (out, u)" by fastforce
  have "take (start - u) (drop u (toks[i := t])) = take (start - u) (drop u toks)"
  proof (cases "i < u")
    case True
    then show ?thesis by simp
  next
    case False
    then have "start - u \<le> i - u" using assms w by auto
    then show ?thesis using False by (simp add: drop_update_swap)
  qed
  then show ?thesis using w by (simp add: emit_def)
qed

lemma swap_redactValueAt:
  assumes "swappable toks i t" and "sig ! m \<le> i \<or> i < snd w"
  shows "redactValueAt (toks[i := t]) sig m w = redactValueAt toks sig m w"
  using assms by (simp add: redactValueAt_def Let_def swap_runEnd swap_ambiguous swap_emit)

section \<open>The walk treats them alike\<close>

text \<open>The \<open>p\<close>th significant token is a constant behind the unquoted secret name at \<open>n\<close>.\<close>

definition secret_place :: "unicode_tables \<Rightarrow> token list \<Rightarrow> nat list \<Rightarrow> nat \<Rightarrow> nat \<Rightarrow> bool" where
  "secret_place uc toks sig n p \<longleftrightarrow> p < length sig \<and> isLiteral (tok toks sig p)
     \<and> tk_kind (tok toks sig n) = tokIdent \<and> isSecretName uc (tk_text (tok toks sig n))
     \<and> (p = n + 1 \<or> p = n + 2 \<and> isSeparator (tok toks sig (n + 1)))"

text \<open>A walk is before the name, or past the constant and has written past it.\<close>

definition clear_of :: "nat \<Rightarrow> nat \<Rightarrow> nat \<Rightarrow> nat \<Rightarrow> written \<Rightarrow> bool" where
  "clear_of n p i k w \<longleftrightarrow> k \<le> n \<or> p < k \<and> i < snd w"

lemma literal_not_separator: "isLiteral t \<Longrightarrow> \<not> isSeparator t"
  by (auto simp: isLiteral_def isSeparator_def)

lemma sig_of_strict: "sorted_wrt (<) (sig_of toks)"
  unfolding sig_of_def by (intro sorted_wrt_filter) simp

lemma sig_of_mono: "j < k \<Longrightarrow> k < length (sig_of toks) \<Longrightarrow> sig_of toks ! j < sig_of toks ! k"
  using sig_of_strict[of toks] by (simp add: sorted_wrt_nth_less)

lemma sig_of_mono_le: "j \<le> k \<Longrightarrow> k < length (sig_of toks) \<Longrightarrow> sig_of toks ! j \<le> sig_of toks ! k"
  using sig_of_mono[of j k toks] by (cases "j = k") auto

text \<open>The value the rule of a name looks at, from before the secret name, is not past the constant.\<close>

lemma value_not_past:
  assumes "secret_place uc toks sig n p" and "k \<le> n"
    and "m = (if k + 1 < length sig \<and> isSeparator (tok toks sig (k + 1)) then k + 2 else k + 1)"
  shows "m \<le> p"
  using assms literal_not_separator[of "tok toks sig p"] by (cases "k = n") (auto simp: secret_place_def)

lemma swap_tokenRule:
  assumes sw: "swappable toks i t" and sig: "sig = sig_of toks" and pl: "secret_place uc toks sig n p"
    and i: "sig ! p = i" and k: "k < length sig" and cl: "clear_of n p i k w"
  shows "tokenRule uc (toks[i := t]) sig k w = tokenRule uc toks sig k w"
proof -
  have p: "p < length sig" "n < p" using pl by (auto simp: secret_place_def)
  have at: "sig ! m \<le> i \<or> i < snd w" if "m \<le> p \<or> p < k" for m
    using that cl p(2) sig_of_mono_le[of m p toks] p(1) i sig by (auto simp: clear_of_def)
  have "k \<noteq> p" using cl p(2) by (auto simp: clear_of_def)
  then have "sig ! k \<noteq> i" using sig_of_mono[of k p toks] sig_of_mono[of p k toks] k p(1) i sig by (cases "k < p") auto
  then have same: "tok (toks[i := t]) sig k = tok toks sig k" by simp
  have name: "nameRule uc (toks[i := t]) sig k w = nameRule uc toks sig k w"
  proof -
    define m where "m = (if k + 1 < length sig \<and> isSeparator (tok toks sig (k + 1)) then k + 2 else k + 1)"
    have "m \<le> p \<or> p < k" using cl value_not_past[OF pl _ m_def] by (auto simp: clear_of_def)
    then have mi: "sig ! m \<le> i \<or> i < snd w" by (rule at)
    have "isLiteral (toks ! i)" using sw by (simp add: swappable_def quiet_def isLiteral_def)
    then have "\<not> isLiteral (tok toks sig m) \<Longrightarrow> sig ! m \<noteq> i" by auto
    then show ?thesis unfolding nameRule_def Let_def
      by (simp only: swap_isSeparator[OF sw] swap_isLiteral[OF sw] swap_kind[OF sw] swap_isSetTarget[OF sw]
          m_def[symmetric] swap_redactValueAt[OF sw mi] swap_emit[OF mi])
         (auto simp: swap_setValueEnd[OF sw])
  qed
  have conn: "connRule uc (toks[i := t]) sig k w = connRule uc toks sig k w"
    using at[of k] cl p(2) by (auto simp: connRule_def same swap_emit clear_of_def split: option.splits)
  have const: "constantRule uc (toks[i := t]) sig k w = constantRule uc toks sig k w" if "isLiteral (tok toks sig k)"
  proof -
    have "k \<noteq> n" using that pl by (auto simp: secret_place_def isLiteral_def)
    then have "k + 2 \<le> p \<or> p < k" using cl p(2) by (auto simp: clear_of_def)
    then have "redactValueAt (toks[i := t]) sig (k + 2) w = redactValueAt toks sig (k + 2) w"
      using swap_redactValueAt[OF sw at] by blast
    then show ?thesis
      by (simp add: constantRule_def conn same swap_token_is[OF sw] swap_isLiteral[OF sw] del: add_2_eq_Suc' split: option.split)
  qed
  show ?thesis using name const by (simp add: tokenRule_def Let_def same)
qed

lemma runEnd_bound: "m < length sig \<Longrightarrow> runEnd toks sig m < length sig"
proof (induction toks sig m rule: runEnd.induct)
  case (1 toks sig m)
  then show ?case
    by (cases "m + 1 < length sig \<and> isLiteral (tok toks sig (m + 1))") (auto simp: runEnd.simps[of _ sig m])
qed

lemma runEnd_literals: "m < j \<Longrightarrow> j \<le> runEnd toks sig m \<Longrightarrow> isLiteral (tok toks sig j)"
proof (induction toks sig m rule: runEnd.induct)
  case (1 toks sig m)
  then show ?case
    by (cases "m + 1 < length sig \<and> isLiteral (tok toks sig (m + 1))"; cases "j = m + 1")
       (auto simp: runEnd.simps[of _ sig m])
qed

lemma semicolonFrom_bound: "m \<le> length sig \<Longrightarrow> semicolonFrom toks sig m \<le> length sig"
proof (induction toks sig m rule: semicolonFrom.induct)
  case (1 toks sig m)
  then show ?case
    by (cases "m < length sig \<and> \<not> token_is (tok toks sig m) tokOther '';''") (auto simp: semicolonFrom.simps[of _ sig m])
qed

lemma semicolonFrom_stop:
  "semicolonFrom toks sig m < length sig \<Longrightarrow> token_is (tok toks sig (semicolonFrom toks sig m)) tokOther '';''"
proof (induction toks sig m rule: semicolonFrom.induct)
  case (1 toks sig m)
  then show ?case
    by (cases "m < length sig \<and> \<not> token_is (tok toks sig m) tokOther '';''") (auto simp: semicolonFrom.simps[of _ sig m])
qed

lemma place_kinds:
  assumes "secret_place uc toks sig n p" and "n < j" and "j \<le> p"
  shows "tk_kind (tok toks sig j) \<noteq> tokOther \<and> tk_kind (tok toks sig j) \<noteq> tokQuotedIdent
    \<and> (j < p \<longrightarrow> \<not> isLiteral (tok toks sig j))"
proof -
  have "j = p \<or> j = n + 1 \<and> isSeparator (tok toks sig (n + 1))" using assms by (auto simp: secret_place_def)
  then show ?thesis using assms(1) literal_not_separator by (auto simp: secret_place_def isLiteral_def isSeparator_def)
qed

lemma value_run_clear:
  assumes sig: "sig = sig_of toks" and pl: "secret_place uc toks sig n p" and i: "sig ! p = i"
    and m: "m < length sig" "isLiteral (tok toks sig m)"
    and red: "redactValueAt toks sig m w = (w', l, toEnd)"
  shows "(toEnd \<longrightarrow> i < snd w') \<and> clear_of n p i (l + 1) w'"
proof -
  have l: "l = runEnd toks sig m" and w': "snd w' = length toks \<or> snd w' = sig ! l + 1"
    and e: "toEnd \<longrightarrow> snd w' = length toks"
    using red by (auto simp: redactValueAt_def Let_def emit_def split: prod.splits if_splits)
  have p: "p < length sig" "n < p" using pl by (auto simp: secret_place_def)
  have "i < length toks" using sig_of_bound[of p toks] p(1) sig i by simp
  moreover have "clear_of n p i (l + 1) w'"
  proof (cases "p \<le> l")
    case True
    then have "i \<le> sig ! l" using sig_of_mono_le[of p l toks] runEnd_bound[OF m(1), of toks] l i sig by simp
    then show ?thesis using True w' \<open>i < length toks\<close> by (auto simp: clear_of_def)
  next
    case False
    have "l < n"
    proof (rule ccontr)
      assume "\<not> l < n"
      have "isLiteral (tok toks sig l)"
        using m(2) runEnd_ge[of m toks sig] runEnd_literals[of m l toks sig] l by (cases "l = m") auto
      then have "l = n" using place_kinds[OF pl, of l] False \<open>\<not> l < n\<close> by (cases "l = n") auto
      then show False using \<open>isLiteral (tok toks sig l)\<close> pl by (auto simp: secret_place_def isLiteral_def)
    qed
    then show ?thesis by (simp add: clear_of_def)
  qed
  ultimately show ?thesis using e by auto
qed

definition stays_clear :: "nat \<Rightarrow> nat \<Rightarrow> nat \<Rightarrow> written \<times> nat option \<Rightarrow> bool" where
  "stays_clear n p i r = (case r of (w, None) \<Rightarrow> i < snd w | (w, Some k) \<Rightarrow> clear_of n p i k w)"

lemma emit_snd [simp]: "snd (emit toks start stop repl w) = stop"
  by (simp add: emit_def split: prod.splits)

lemma clear_after: "clear_of n p i k w \<Longrightarrow> p < k \<Longrightarrow> n < p \<Longrightarrow> k < k' \<Longrightarrow> clear_of n p i k' w"
  by (auto simp: clear_of_def)

lemma value_rule_clear:
  assumes "sig = sig_of toks" "secret_place uc toks sig n p" "sig ! p = i" "m < length sig" "isLiteral (tok toks sig m)"
  shows "stays_clear n p i (case redactValueAt toks sig m w of (w', l, toEnd) \<Rightarrow> (w', if toEnd then None else Some (l + 1)))"
proof -
  obtain w' l toEnd where red: "redactValueAt toks sig m w = (w', l, toEnd)" by (metis prod_cases3)
  then show ?thesis using value_run_clear[OF assms red] by (simp add: stays_clear_def)
qed

lemma setValueEnd_clear:
  assumes sig: "sig = sig_of toks" and pl: "secret_place uc toks sig n p" and i: "sig ! p = i"
    and m: "m < length sig" and st: "m < stop" "stop = setValueEnd toks sig m"
  shows "clear_of n p i stop (emit toks (sig ! m) (sig ! (stop - 1) + 1) redactedLiteral w)"
proof -
  have stop: "stop = semicolonFrom toks sig m" using st by (auto simp: setValueEnd_def Let_def split: if_splits)
  have le: "stop \<le> length sig" using semicolonFrom_bound[of m sig toks] m stop by simp
  have p: "p < length sig" "n < p" using pl by (auto simp: secret_place_def)
  have "stop \<le> n \<or> p < stop"
  proof (rule ccontr)
    assume "\<not> ?thesis"
    then have "n < stop" "stop \<le> p" by auto
    then have "token_is (tok toks sig stop) tokOther '';''" using semicolonFrom_stop[of toks sig m] stop p(1) by simp
    then show False using place_kinds[OF pl \<open>n < stop\<close> \<open>stop \<le> p\<close>] by (simp add: token_is_def)
  qed
  moreover have "i < sig ! (stop - 1) + 1" if "p < stop"
    using that sig_of_mono_le[of p "stop - 1" toks] le i sig by fastforce
  ultimately show ?thesis by (auto simp: clear_of_def)
qed

lemma nameRule_clear:
  assumes sig: "sig = sig_of toks" and pl: "secret_place uc toks sig n p" and i: "sig ! p = i"
    and k: "k < length sig" and cl: "clear_of n p i k w"
  shows "stays_clear n p i (nameRule uc toks sig k w)"
proof -
  define sep where "sep \<longleftrightarrow> k + 1 < length sig \<and> isSeparator (tok toks sig (k + 1))"
  define m where "m = (if sep then k + 2 else k + 1)"
  have p: "p < length sig" "n < p" using pl by (auto simp: secret_place_def)
  have lit: "k = n \<Longrightarrow> m < length sig \<and> isLiteral (tok toks sig m)"
    using pl literal_not_separator[of "tok toks sig p"] unfolding m_def sep_def by (auto simp: secret_place_def)
  have next_clear: "clear_of n p i (k + 1) w" if "k \<noteq> n" using that cl p(2) by (auto simp: clear_of_def)
  have rule: "nameRule uc toks sig k w =
     (if length sig \<le> m then (w, Some (k + 1))
      else if isLiteral (tok toks sig m) then
        (case redactValueAt toks sig m w of (w', l, toEnd) \<Rightarrow> (w', if toEnd then None else Some (l + 1)))
      else if sep \<and> tk_kind (tok toks sig m) = tokQuotedIdent then
        (emit toks (sig ! m) (sig ! m + 1) (dquote # RedactedPassword @ [dquote]) w, Some (m + 1))
      else if sep \<and> isSetTarget toks sig k \<and> m < setValueEnd toks sig m then
        (emit toks (sig ! m) (sig ! (setValueEnd toks sig m - 1) + 1) redactedLiteral w, Some (setValueEnd toks sig m))
      else (w, Some (k + 1)))"
    unfolding nameRule_def Let_def sep_def[symmetric] m_def[symmetric] by simp
  have quoted: "clear_of n p i (m + 1) (emit toks (sig ! m) (sig ! m + 1) r w)"
    if "m < length sig" "tk_kind (tok toks sig m) = tokQuotedIdent" for r
  proof (cases "p < k")
    case True
    then have "i < sig ! m" using sig_of_mono[of p m toks] that(1) i sig by (simp add: m_def)
    then show ?thesis using True by (simp add: clear_of_def m_def)
  next
    case False
    then have "m \<le> p" using cl value_not_past[OF pl, of k m] by (auto simp: clear_of_def m_def sep_def)
    then have "m \<le> n" using place_kinds[OF pl, of m] that(2) by (cases "n < m") auto
    moreover have "m \<noteq> n" using that(2) pl by (auto simp: secret_place_def)
    ultimately show ?thesis by (simp add: clear_of_def)
  qed
  show ?thesis
  proof (cases "length sig \<le> m")
    case True
    then show ?thesis unfolding rule using next_clear lit by (cases "k = n") (auto simp: stays_clear_def)
  next
    case False
    then have m: "m < length sig" by simp
    consider "isLiteral (tok toks sig m)" | "\<not> isLiteral (tok toks sig m)" "sep" "tk_kind (tok toks sig m) = tokQuotedIdent"
      | "\<not> isLiteral (tok toks sig m)" "\<not> (sep \<and> tk_kind (tok toks sig m) = tokQuotedIdent)" by blast
    then show ?thesis
    proof cases
      case 1
      then show ?thesis unfolding rule using m value_rule_clear[OF sig pl i m 1, of w] by simp
    next
      case 2
      then show ?thesis unfolding rule using m quoted by (simp add: stays_clear_def)
    next
      case 3
      then have "k \<noteq> n" using lit by blast
      then show ?thesis unfolding rule using 3 m setValueEnd_clear[OF sig pl i m _ refl, of w] next_clear
        by (auto simp: stays_clear_def)
    qed
  qed
qed

lemma tokenRule_clear:
  assumes sig: "sig = sig_of toks" and pl: "secret_place uc toks sig n p" and i: "sig ! p = i"
    and k: "k < length sig" and cl: "clear_of n p i k w"
  shows "stays_clear n p i (tokenRule uc toks sig k w)"
proof (cases "isName (tok toks sig k) \<and> isSecretName uc (token_name (tok toks sig k))")
  case True
  then show ?thesis using nameRule_clear[OF assms] by (simp add: tokenRule_def Let_def)
next
  case False
  have p: "p < length sig" "n < p" using pl by (auto simp: secret_place_def)
  have "isName (tok toks sig n)" "isSecretName uc (token_name (tok toks sig n))"
    using pl by (auto simp: secret_place_def isName_def token_name_def)
  then have "k \<noteq> n" using False by blast
  then have next_clear: "clear_of n p i (Suc k) w'" if "k < n \<or> i < snd w'" for w'
    using that cl by (auto simp: clear_of_def)
  have at: "k < n \<or> i < sig ! k \<and> i < snd w"
    using cl \<open>k \<noteq> n\<close> sig_of_mono[of p k toks] k i sig by (auto simp: clear_of_def)
  have "i < length toks" using sig_of_bound[of p toks] p(1) sig i by simp
  then have conn: "stays_clear n p i (connRule uc toks sig k w)"
    using at by (auto simp: connRule_def stays_clear_def intro!: next_clear split: option.splits)
  have const: "stays_clear n p i (constantRule uc toks sig k w)"
    using conn at value_rule_clear[OF sig pl i, of "k + 2" w]
    by (auto simp: constantRule_def stays_clear_def intro!: next_clear split: option.splits if_splits)
  show ?thesis using False const at by (auto simp: tokenRule_def Let_def stays_clear_def intro!: next_clear)
qed

lemma swap_redactLoop:
  assumes sw: "swappable toks i t" and sig: "sig = sig_of toks" and pl: "secret_place uc toks sig n p"
    and i: "sig ! p = i" and cl: "clear_of n p i k w"
  shows "redactLoop uc (toks[i := t]) sig k w = redactLoop uc toks sig k w \<and> i < snd (redactLoop uc toks sig k w)"
  using cl
proof (induction "length sig - k" arbitrary: k w rule: less_induct)
  case less
  have p: "p < length sig" "n < p" using pl by (auto simp: secret_place_def)
  show ?case
  proof (cases "k < length sig")
    case False
    then show ?thesis using less.prems p by (auto simp: redactLoop.simps clear_of_def)
  next
    case True
    obtain w' nx where rule: "tokenRule uc toks sig k w = (w', nx)" by fastforce
    have same: "tokenRule uc (toks[i := t]) sig k w = (w', nx)"
      using swap_tokenRule[OF sw sig pl i True less.prems] rule by simp
    have clear: "stays_clear n p i (w', nx)" using tokenRule_clear[OF sig pl i True less.prems] rule by simp
    show ?thesis
    proof (cases nx)
      case None
      then show ?thesis using True rule same clear by (simp add: redactLoop.simps[of _ _ _ k] stays_clear_def)
    next
      case (Some k')
      then have "length sig - k' < length sig - k" using tokenRule_advances[of uc toks sig k w w' k'] rule True by auto
      then show ?thesis using less.hyps[of k' w'] Some True rule same clear
        by (simp add: redactLoop.simps[of _ _ _ k] stays_clear_def)
    qed
  qed
qed

lemma swap_redactTokens:
  assumes sw: "swappable toks i t" and pl: "secret_place uc toks (sig_of toks) n p" and i: "sig_of toks ! p = i"
  shows "redactTokens uc (toks[i := t]) = redactTokens uc toks"
proof -
  obtain out u where loop: "redactLoop uc toks (sig_of toks) 0 ([], 0) = (out, u)" by fastforce
  have "clear_of n p i 0 ([], 0)" by (simp add: clear_of_def)
  from swap_redactLoop[OF sw refl pl i this]
  have "redactLoop uc (toks[i := t]) (sig_of toks) 0 ([], 0) = (out, u)" "i < u" using loop by simp_all
  then show ?thesis using loop by (simp add: redactTokens_def swap_sig[OF sw])
qed

section \<open>The lexer is local\<close>

text \<open>
  A token that ends before a single quote is the same whatever follows the quote: \<open>x\<close> and \<open>y\<close>
  are texts from a single quote on.
\<close>

definition from_quote :: "string \<Rightarrow> bool" where
  "from_quote x \<longleftrightarrow> x \<noteq> [] \<and> hd x = squote"

lemma from_quote_iff: "from_quote x \<longleftrightarrow> (\<exists>x'. x = squote # x')"
  by (cases x) (auto simp: from_quote_def)

lemma takeWhile_local:
  "from_quote x \<Longrightarrow> \<not> P squote \<Longrightarrow> takeWhile P (s @ x) = takeWhile P s \<and> dropWhile P (s @ x) = dropWhile P s @ x"
  unfolding from_quote_iff by (elim exE) (induction s; simp)

lemma quotedBody_shorter: "quotedBody q e s = (b, c, r) \<Longrightarrow> s \<noteq> [] \<Longrightarrow> length r < length s"
  using quotedBody_text[of q e s b c r] quotedBody_open[of q e s b r] by (cases c) auto

lemma quotedBody_local:
  assumes "from_quote x" and "from_quote y"
  shows "quotedBody q e (s @ x) = (b, c, r @ x) \<Longrightarrow> quotedBody q e (s @ y) = (b, c, r @ y)"
proof (induction q e s arbitrary: b r rule: quotedBody.induct)
  case (1 q e)
  then show ?case using quotedBody_shorter[of q e x b c "r @ x"] assms(1) by (simp add: from_quote_def)
next
  case (2 q e d)
  obtain x' y' where xy: "x = squote # x'" "y = squote # y'" using assms unfolding from_quote_iff by blast
  have short: "length r' < length (squote # x')" if "quotedBody q e x' = (b', c', r') \<or> quotedBody q e (squote # x') = (b', c', r')" for b' c' r'
    using that quotedBody_shorter[of q e x' b' c' r'] quotedBody_shorter[of q e "squote # x'" b' c' r'] by (cases x') auto
  show ?case using 2 short unfolding xy
    by (auto simp: body_cons_def split: if_splits prod.splits) force+
next
  case (3 q e c' d s)
  then show ?case by (fastforce simp: body_cons_def split: if_splits prod.splits)
qed

lemma lexString_local:
  assumes "from_quote x" "from_quote y" and "lexString opener e u (s @ x) = (t, r @ x)"
  shows "lexString opener e u (s @ y) = (t, r @ y)"
proof -
  obtain b c where "quotedBody squote e (s @ x) = (b, c, r @ x)"
    using assms(3) by (auto simp: lexString_def split: prod.splits)
  then show ?thesis using assms(3) quotedBody_local[OF assms(1,2)] by (simp add: lexString_def)
qed

lemma lexQuotedIdent_local:
  assumes "from_quote x" "from_quote y" and "lexQuotedIdent (s @ x) = (t, r @ x)"
  shows "lexQuotedIdent (s @ y) = (t, r @ y)"
proof -
  obtain b c where "quotedBody dquote False (s @ x) = (b, c, r @ x)"
    using assms(3) by (auto simp: lexQuotedIdent_def split: prod.splits)
  then show ?thesis using assms(3) quotedBody_local[OF assms(1,2)] by (simp add: lexQuotedIdent_def)
qed

lemma afterBlockComment_local:
  assumes "from_quote x" and "from_quote y"
  shows "afterBlockComment d (s @ x) = r @ x \<Longrightarrow> afterBlockComment d (s @ y) = r @ y"
proof (induction d s rule: afterBlockComment.induct)
  case (1 d)
  then show ?case using afterBlockComment_shorter[of x d] assms(1) by (simp add: from_quote_def)
next
  case (2 d c)
  obtain x' y' where xy: "x = squote # x'" "y = squote # y'" using assms unfolding from_quote_iff by blast
  have "afterBlockComment d (squote # x') = r @ squote # x'" using 2 by (simp add: xy quote_defs)
  then have "length (r @ squote # x') < length (squote # x')" using afterBlockComment_shorter[of "squote # x'" d] by simp
  then show ?case by simp
next
  case (3 d c e s)
  then show ?case by (auto split: if_splits)
qed

lemma index_local:
  assumes "strings_Index (s @ x) tag = Some k" and "k + length tag \<le> length s"
  shows "strings_Index (s @ y) tag = Some k"
  using assms
proof (induction s arbitrary: k)
  case Nil
  then show ?case by (cases y) auto
next
  case (Cons c s)
  show ?case
  proof (cases "k = 0")
    case True
    then have "take (length tag) (c # s @ x) = tag" using Cons.prems by (auto split: if_splits)
    then have "take (length tag) (c # s @ y) = tag" using Cons.prems True by (cases "length tag") auto
    then show ?thesis using True by simp
  next
    case False
    then have no: "take (length tag) (c # s @ x) \<noteq> tag" and k: "strings_Index (s @ x) tag = Some (k - 1)"
      using Cons.prems by (auto split: if_splits)
    have "length tag \<le> length (c # s)" using Cons.prems by simp
    then have "take (length tag) (c # s @ y) \<noteq> tag" using no by (cases "length tag") auto
    moreover have "strings_Index (s @ y) tag = Some (k - 1)" using Cons.IH[OF k] Cons.prems False by simp
    ultimately show ?thesis using False by simp
  qed
qed

lemma ident_not_quote [simp]:
  "\<not> isIdentStart squote" "\<not> isIdentCont squote" "\<not> isDigit squote" "\<not> isSpace squote" "\<not> isOpChar squote"
  by code_simp+

lemma lexDollar_local:
  assumes "from_quote x" "from_quote y" and "lexDollar (s @ x) = (t, r @ x)"
  shows "lexDollar (s @ y) = (t, r @ y)"
proof -
  obtain x' y' where xy: "x = squote # x'" "y = squote # y'" using assms unfolding from_quote_iff by blast
  define name where "name = (if s \<noteq> [] \<and> isIdentStart (hd s) then takeWhile (\<lambda>c. isIdentStart c \<or> isDigit c) s else [])"
  define after where "after = drop (length name) s"
  have len: "length name \<le> length s" by (simp add: name_def length_takeWhile_le)
  have name: "name = (if s @ z \<noteq> [] \<and> isIdentStart (hd (s @ z)) then takeWhile (\<lambda>c. isIdentStart c \<or> isDigit c) (s @ z) else [])"
    "drop (length name) (s @ z) = after @ z" if "from_quote z" for z
    using that takeWhile_local[OF that, of "\<lambda>c. isIdentStart c \<or> isDigit c" s] len
    by (auto simp: name_def after_def hd_append from_quote_def)
  have digit: "s @ z \<noteq> [] \<and> isDigit (hd (s @ z)) \<longleftrightarrow> s \<noteq> [] \<and> isDigit (hd s)" if "from_quote z" for z
    using that by (auto simp: hd_append from_quote_def)
  show ?thesis
  proof (cases "s \<noteq> [] \<and> isDigit (hd s)")
    case True
    then show ?thesis using assms takeWhile_local[of x isDigit s] takeWhile_local[of y isDigit s]
      by (simp add: lexDollar_def hd_append)
  next
    case False
    note step = assms(3)[unfolded lexDollar_def digit[OF assms(1)] if_not_P[OF False] Let_def name(1)[OF assms(1), symmetric] name(2)[OF assms(1)]]
    note goal = lexDollar_def[of "s @ y", unfolded digit[OF assms(2)] if_not_P[OF False] Let_def name(1)[OF assms(2), symmetric] name(2)[OF assms(2)]]
    show ?thesis
    proof (cases "after = [] \<or> hd after \<noteq> CHR ''$''")
      case True
      then have "hd (after @ z) \<noteq> CHR ''$'' \<and> after @ z \<noteq> []" if "from_quote z" for z
        using that by (cases after) (auto simp: from_quote_def quote_defs)
      then show ?thesis using step goal assms(1,2) by auto
    next
      case False
      then obtain a where a: "after = CHR ''$'' # a" by (cases after) auto
      let ?tag = "CHR ''$'' # name @ ''$''"
      have "\<exists>k. strings_Index (a @ x) ?tag = Some k \<and> r @ x = drop (k + length ?tag) (a @ x)"
        using step a xy(1) by (auto split: option.splits)
      then obtain k where k: "strings_Index (a @ x) ?tag = Some k" "r @ x = drop (k + length ?tag) (a @ x)" by blast
      have "length (r @ x) = length (a @ x) - (k + length ?tag)" using k(2) by (metis length_drop)
      moreover have "k + length ?tag \<le> length (a @ x)" using strings_Index_bound[OF k(1)] .
      ultimately have le: "k + length ?tag \<le> length a" by simp
      then have "strings_Index (a @ y) ?tag = Some k" using index_local[OF k(1)] by blast
      moreover have "r = drop (k + length ?tag) a" using k(2) le by simp
      ultimately show ?thesis using step goal a k(1) le by (auto split: option.splits)
    qed
  qed
qed

lemma lexString_shorter: "lexString opener e u s = (t, rest) \<Longrightarrow> length rest \<le> length s"
proof -
  assume "lexString opener e u s = (t, rest)"
  then obtain b c where "quotedBody squote e s = (b, c, rest)" by (auto simp: lexString_def split: prod.splits)
  then show ?thesis using quotedBody_text[of squote e s b c rest] by simp
qed

text \<open>The branches of \<open>lexIdentOrPrefixedString\<close>, from the identifier and the text after it.\<close>

definition ident_branches :: "unicode_tables \<Rightarrow> string \<Rightarrow> string \<Rightarrow> token \<times> string" where
  "ident_branches uc ident after =
     (let word = strings_ToLower uc ident in
      if after \<noteq> [] \<and> hd after = squote \<and> word = ''e'' then lexString (ident @ [squote]) True False (tl after)
      else if after \<noteq> [] \<and> hd after = squote \<and> word \<in> {''b'', ''x'', ''n''}
      then lexString (ident @ [squote]) False False (tl after)
      else if word = ''u'' \<and> take 2 after = [CHR ''&'', squote]
      then lexString (ident @ [CHR ''&'', squote]) False True (drop 2 after)
      else (plain_token tokIdent ident, after))"

lemma lexIdent_branches:
  assumes "s \<noteq> []"
  shows "lexIdentOrPrefixedString uc s
    = ident_branches uc (hd s # takeWhile isIdentCont (tl s)) (dropWhile isIdentCont (tl s))"
proof -
  have "drop (length (hd s # takeWhile isIdentCont (tl s))) s = dropWhile isIdentCont (tl s)"
    using assms by (cases s) (auto simp: dropWhile_eq_drop)
  then show ?thesis by (simp only: lexIdentOrPrefixedString_def ident_branches_def Let_def)
qed

lemma ident_branches_local:
  assumes "from_quote x" "from_quote y" and "ident_branches uc ident (a @ x) = (t, r @ x)"
  shows "ident_branches uc ident (a @ y) = (t, r @ y)"
proof -
  obtain x' y' where xy: "x = squote # x'" "y = squote # y'" using assms unfolding from_quote_iff by blast
  have no: "lexString opener e u x' \<noteq> (t, r @ squote # x')" for opener e u
    using lexString_shorter[of opener e u x' t "r @ squote # x'"] by auto
  note loc = lexString_local[OF assms(1,2), unfolded xy]
  consider "a = []" | c where "a = [c]" | c d b where "a = c # d # b" by (cases a rule: remdups_adj.cases) auto
  then show ?thesis
  proof cases
    case 1
    then show ?thesis using assms(3) no by (auto simp: ident_branches_def Let_def xy quote_defs split: if_splits)
  next
    case 2
    then show ?thesis using assms(3) no loc[of _ _ _ "[]"]
      by (auto simp: ident_branches_def Let_def xy numeral_2_eq_2 split: if_splits)
  next
    case 3
    then show ?thesis using assms(3) loc[of _ _ _ "d # b"] loc[of _ _ _ b]
      by (auto simp: ident_branches_def Let_def xy numeral_2_eq_2 split: if_splits)
  qed
qed

lemma lexIdent_local:
  assumes "from_quote x" "from_quote y" "s \<noteq> []" and "lexIdentOrPrefixedString uc (s @ x) = (t, r @ x)"
  shows "lexIdentOrPrefixedString uc (s @ y) = (t, r @ y)"
  using assms ident_branches_local[OF assms(1,2), of uc "hd s # takeWhile isIdentCont (tl s)" "dropWhile isIdentCont (tl s)"]
    takeWhile_local[of x isIdentCont "tl s"] takeWhile_local[of y isIdentCont "tl s"]
  by (simp add: lexIdent_branches hd_append tl_append2)

lemma newline_local:
  assumes "from_quote x" "from_quote y" and "dropWhile (\<lambda>c. c \<noteq> CHR 0x0A) (s @ x) = r @ x"
  shows "takeWhile (\<lambda>c. c \<noteq> CHR 0x0A) (s @ y) = takeWhile (\<lambda>c. c \<noteq> CHR 0x0A) (s @ x)
    \<and> dropWhile (\<lambda>c. c \<noteq> CHR 0x0A) (s @ y) = r @ y"
proof (cases "CHR 0x0A \<in> set s")
  case True
  then have "takeWhile (\<lambda>c. c \<noteq> CHR 0x0A) (s @ z) = takeWhile (\<lambda>c. c \<noteq> CHR 0x0A) s"
    "dropWhile (\<lambda>c. c \<noteq> CHR 0x0A) (s @ z) = dropWhile (\<lambda>c. c \<noteq> CHR 0x0A) s @ z" for z
    by (rule takeWhile_append1, simp) (rule dropWhile_append1[OF True], simp)
  then show ?thesis using assms(3) by simp
next
  case False
  obtain x' where x: "x = squote # x'" using assms(1) unfolding from_quote_iff by blast
  have "dropWhile (\<lambda>c. c \<noteq> CHR 0x0A) (s @ x) = dropWhile (\<lambda>c. c \<noteq> CHR 0x0A) x'"
    using False by (subst dropWhile_append2) (auto simp: x quote_defs)
  then have "length (r @ x) \<le> length x'" using assms(3) length_dropWhile_le[of "\<lambda>c. c \<noteq> CHR 0x0A" x'] by simp
  then show ?thesis using x by simp
qed

lemma lexToken_local:
  assumes "from_quote x" "from_quote y" "s \<noteq> []" and "lexToken uc (s @ x) = (t, r @ x)"
  shows "lexToken uc (s @ y) = (t, r @ y)"
proof -
  obtain c u where s: "s = c # u" using assms(3) by (cases s) auto
  have head: "u @ z \<noteq> [] \<and> hd (u @ z) = d \<longleftrightarrow> u \<noteq> [] \<and> hd u = d" if "from_quote z" "d \<noteq> squote" for z d
    using that by (auto simp: hd_append from_quote_def)
  have lit: "CHR ''-'' \<noteq> squote" "CHR ''*'' \<noteq> squote" by code_simp+
  note unf = Let_def s append_Cons list.sel
  note step = assms(4)[unfolded lexToken_def unf head[OF assms(1) lit(1)] head[OF assms(1) lit(2)]]
  note goal = lexToken_def[of uc "s @ y", unfolded unf head[OF assms(2) lit(1)] head[OF assms(2) lit(2)]]
  have sp: "takeWhile P (c # u @ y) = takeWhile P (c # u @ x) \<and> dropWhile P (c # u @ y) = dropWhile P s @ y
      \<and> dropWhile P (c # u @ x) = dropWhile P s @ x" if "\<not> P squote" for P
    using takeWhile_local[OF assms(1), of P s] takeWhile_local[OF assms(2), of P s] that s by simp
  have nl: "takeWhile (\<lambda>c. c \<noteq> CHR 0x0A) (c # u @ y) = takeWhile (\<lambda>c. c \<noteq> CHR 0x0A) (c # u @ x)
      \<and> dropWhile (\<lambda>c. c \<noteq> CHR 0x0A) (c # u @ y) = r @ y" if "dropWhile (\<lambda>c. c \<noteq> CHR 0x0A) (c # u @ x) = r @ x"
    using newline_local[OF assms(1,2), of s r] that s by simp
  have block_local: "lexBlockComment (c # u @ y) = (t, r @ y)" if "lexBlockComment (c # u @ x) = (t, r @ x)"
  proof -
    have rx: "afterBlockComment 0 (s @ x) = r @ x" using that s by (simp add: lexBlockComment_def Let_def)
    then have ry: "afterBlockComment 0 (s @ y) = r @ y" by (rule afterBlockComment_local[OF assms(1,2)])
    have "length (r @ x) < length (s @ x)" using afterBlockComment_shorter[of "s @ x" 0] rx assms(3) by simp
    then have "consumed (s @ y) (r @ y) = consumed (s @ x) (r @ x)" by (simp add: consumed_def)
    then show ?thesis using that rx ry s by (auto simp: lexBlockComment_def Let_def)
  qed
  consider (space) "isSpace c"
    | (line) "\<not> isSpace c" "c = CHR ''-'' \<and> u \<noteq> [] \<and> hd u = CHR ''-''"
    | (block) "\<not> isSpace c" "\<not> (c = CHR ''-'' \<and> u \<noteq> [] \<and> hd u = CHR ''-'')" "c = CHR ''/'' \<and> u \<noteq> [] \<and> hd u = CHR ''*''"
    | (more) "\<not> isSpace c" "\<not> (c = CHR ''-'' \<and> u \<noteq> [] \<and> hd u = CHR ''-'')" "\<not> (c = CHR ''/'' \<and> u \<noteq> [] \<and> hd u = CHR ''*'')"
    by blast
  then have "lexToken uc (c # u @ y) = (t, r @ y)"
  proof cases
    case space
    show ?thesis using step sp[of isSpace] unfolding goal if_P[OF space] by auto
  next
    case line
    show ?thesis using step nl unfolding goal if_not_P[OF line(1)] if_P[OF line(2)] by auto
  next
    case block
    show ?thesis using step unfolding goal if_not_P[OF block(1)] if_not_P[OF block(2)] if_P[OF block(3)]
      by (auto intro: block_local)
  next
    case more
    show ?thesis using step sp[of isOpChar] lexString_local[OF assms(1,2), of "[squote]" False False u t r]
        lexQuotedIdent_local[OF assms(1,2), of u t r] lexDollar_local[OF assms(1,2), of u t r]
        lexIdent_local[OF assms(1-3), of uc t r]
      unfolding goal if_not_P[OF more(1)] if_not_P[OF more(2)] if_not_P[OF more(3)] s append_Cons
      by (auto split: if_splits simp del: takeWhile.simps dropWhile.simps)
  qed
  then show ?thesis using s by simp
qed

lemma lex_local:
  assumes "from_quote x" "from_quote y"
  shows "lex uc (s @ x) = A @ L \<Longrightarrow> tokens_text A = s \<Longrightarrow> L = lex uc x \<and> lex uc (s @ y) = A @ lex uc y"
proof (induction A arbitrary: s)
  case Nil
  then show ?case by simp
next
  case (Cons t A)
  have ne: "s @ x \<noteq> []" using assms(1) by (simp add: from_quote_def)
  obtain u rest where u: "lexToken uc (s @ x) = (u, rest)" by fastforce
  then have t: "u = t" "lex uc rest = A @ L" using Cons.prems(1) lex_step[OF ne u] by auto
  then have s: "tk_text t \<noteq> []" "rest = tokens_text A @ x"
    using lexToken_text[OF u ne] Cons.prems(2) by auto
  have IH: "L = lex uc x \<and> lex uc (tokens_text A @ y) = A @ lex uc y"
    using Cons.IH[of "tokens_text A"] t s(2) by simp
  have "s \<noteq> []" using Cons.prems(2) s(1) by auto
  then have "lexToken uc (s @ y) = (t, tokens_text A @ y)"
    using lexToken_local[OF assms] u t(1) s(2) by simp
  then show ?case using IH lex_step[of "s @ y" uc t] \<open>s \<noteq> []\<close> by simp
qed

section \<open>Secrecy\<close>

definition sql_literal :: "string \<Rightarrow> string" where
  "sql_literal w = squote # strings_ReplaceAll w [squote] [squote, squote] @ [squote]"

definition literal_token :: "string \<Rightarrow> token" where
  "literal_token w = \<lparr>tk_kind = tokString, tk_text = sql_literal w, tk_open = [squote],
     tk_body = strings_ReplaceAll w [squote] [squote, squote], tk_escapes = False, tk_unicode = False,
     tk_terminated = True, tk_tag = []\<rparr>"

lemma quotedBody_doubled:
  assumes "post = [] \<or> hd post \<noteq> squote"
  shows "quotedBody squote False (strings_ReplaceAll w [squote] [squote, squote] @ squote # post)
    = (strings_ReplaceAll w [squote] [squote, squote], True, post)"
proof (induction w)
  case Nil
  then show ?case using assms by (cases post) (auto simp: replace_byte)
next
  case (Cons c w)
  obtain d s where more: "strings_ReplaceAll w [squote] [squote, squote] @ squote # post = d # s"
    by (cases "strings_ReplaceAll w [squote] [squote, squote]") auto
  show ?case using Cons more by (simp add: replace_byte body_cons_def)
qed

lemma lex_literal:
  assumes "post = [] \<or> hd post \<noteq> squote"
  shows "lex uc (sql_literal w @ post) = literal_token w # lex uc post"
proof (rule lex_step)
  have "\<not> isSpace squote" "squote \<noteq> CHR ''-''" "squote \<noteq> CHR ''/''" by code_simp+
  then show "lexToken uc (sql_literal w @ post) = (literal_token w, post)"
    using quotedBody_doubled[OF assms, of w]
    by (simp add: lexToken_def sql_literal_def lexString_def literal_token_def)
qed (simp add: sql_literal_def)

lemma quiet_literal: "backslash \<notin> set w \<Longrightarrow> quiet (literal_token w)"
  by (auto simp: quiet_def literal_token_def ambiguousEscapes_def contains_byte replace_byte quote_defs)

lemma map_plus_upt: "map ((+) a) [0..<b] = [a..<a + b]"
  by (induction b) auto

lemma sig_of_append: "sig_of (A @ B) = sig_of A @ map ((+) (length A)) (sig_of B)"
proof -
  have "[0..<length A + length B] = [0..<length A] @ map ((+) (length A)) [0..<length B]"
    using upt_add_eq_append[of 0 "length A" "length B"] by (simp add: map_plus_upt)
  moreover have "filter (\<lambda>i. significant ((A @ B) ! i)) [0..<length A] = sig_of A"
    unfolding sig_of_def by (rule filter_cong) (auto simp: nth_append)
  ultimately show ?thesis by (simp add: sig_of_def[of "A @ B"] sig_of_def[of B] filter_map comp_def)
qed

lemma sig_of_tokens: "map ((!) toks) (sig_of toks) = filter significant toks"
proof (induction toks rule: rev_induct)
  case (snoc t toks)
  have "map ((!) (toks @ [t])) (sig_of toks) = map ((!) toks) (sig_of toks)"
    using sig_of_bound[of _ toks] by (auto simp: in_set_conv_nth nth_append)
  then show ?case using snoc by (simp add: sig_of_append) (simp add: sig_of_def)
qed (simp add: sig_of_def)

definition secret_before :: "unicode_tables \<Rightarrow> token list \<Rightarrow> bool" where
  "secret_before uc A \<longleftrightarrow> (\<exists>C n S. filter significant A = C @ n # S \<and> tk_kind n = tokIdent
     \<and> isSecretName uc (tk_text n) \<and> (S = [] \<or> (\<exists>s. S = [s] \<and> isSeparator s)))"

lemma secret_before_place:
  assumes "secret_before uc A" and "isLiteral t" and toks_def: "toks = A @ t # B"
  shows "\<exists>n p. secret_place uc toks (sig_of toks) n p \<and> sig_of toks ! p = length A"
proof -
  obtain C n S where A: "filter significant A = C @ n # S" and n: "tk_kind n = tokIdent" "isSecretName uc (tk_text n)"
    and S: "S = [] \<or> (\<exists>s. S = [s] \<and> isSeparator s)" using assms(1) unfolding secret_before_def by blast
  let ?sig = "sig_of toks" and ?p = "length (C @ n # S)"
  have sigt: "significant t" using assms(2) by (auto simp: significant_def isLiteral_def)
  have len: "length (sig_of A) = ?p" using sig_of_tokens[of A] A by (metis length_map)
  have "sig_of [t] = [0]" using sigt by (simp add: sig_of_def)
  then have "sig_of (t # B) = 0 # map ((+) 1) (sig_of B)" using sig_of_append[of "[t]" B] by simp
  then have split: "?sig = sig_of A @ length A # map ((+) (length A)) (tl (sig_of (t # B)))"
    using sig_of_append[of A "t # B"] by (simp add: toks_def)
  have all: "map ((!) toks) ?sig = C @ n # S @ t # filter significant B"
    using sig_of_tokens[of toks] A sigt by (simp add: toks_def)
  have at: "tok toks ?sig k = (C @ n # S @ t # filter significant B) ! k" if "k \<le> ?p" for k
  proof -
    have "k < length ?sig" using that split len by simp
    then show ?thesis using all by (metis nth_map)
  qed
  have "secret_place uc toks ?sig (length C) ?p"
    using n S assms(2) split len at[of ?p] at[of "length C"] at[of "length C + 1"]
    by (auto simp: secret_place_def nth_append)
  moreover have "?sig ! ?p = length A" using split len by (simp add: nth_append)
  ultimately show ?thesis by blast
qed



text \<open>
  A statement is redacted further when a connection string in it is: the quotes around its
  password separated it from the next keyword.
\<close>

lemma statement_redacted_further:
  "RedactQuery byte_tables (''SELECT dblink('' @ sql_literal (''password='' @ squote # ''x'' @ squote # ''user=u'') @ '')'')
     = ''SELECT dblink('' @ sql_literal ''password=********user=u'' @ '')''
   \<and> RedactQuery byte_tables (''SELECT dblink('' @ sql_literal ''password=********user=u'' @ '')'')
     = ''SELECT dblink('' @ sql_literal ''password=********'' @ '')''"
  by code_simp

end
