(* ===== verification/Spec2Isabelle.thy ===== *)
theory Spec2Isabelle
  imports Visible_Connections Scope_Mutation_Facts Group_Request_Facts Sql_Classifier_Facts
    Audit_Denial_Facts Rate_Limiter Alert_Cleaner_Facts Sql_Redact_Secrecy
begin

text \<open>
  A verification library for the server, the alerter and the redaction packages of the pgEdge AI
  DBA Workbench.

  \<^bold>\<open>The program.\<close> The Workbench is a Go monorepo: a collector that samples PostgreSQL servers into
  a datastore, an alerter that evaluates the samples, a server with a REST and an MCP
  interface, and a web client. The library is about the part of the server that decides what
  a caller may do and keeps the record of it, about the part of the alerter that opens and
  closes threshold alerts, and about the shared packages that keep credentials out of what is
  stored and shown:

  \<^item> the authentication store (\<^verbatim>\<open>server/src/internal/auth\<close>), an SQLite database of users, groups,
    grants, API tokens and token scopes;
  \<^item> the RBAC checker, which every handler asks before it acts for a request;
  \<^item> the ceiling of an API token, which bounds what a request made with a token may hand on,
    and the handlers that change token scopes under it;
  \<^item> the audit log, a hash chain with a tail anchor, its verifier, and the coalescers that keep
    repeated refusals from flooding it;
  \<^item> the limiter of authentication attempts;
  \<^item> the SQL lexer and the classifier that lets only reading statements run unconfirmed;
  \<^item> the threshold evaluator of the alerter (\<^verbatim>\<open>alerter/src/internal/engine\<close>), which compares the
    latest samples with the rules and raises alerts, and the alert cleaner, which clears them;
    both count consecutive samples before they act;
  \<^item> the redaction of connection strings, of PostgreSQL settings and of SQL statements
    (\<^verbatim>\<open>pkg/connstring\<close>, \<^verbatim>\<open>pkg/pgsettings\<close>, \<^verbatim>\<open>pkg/sqlredact\<close>), which the collector applies before it
    stores a sample and the server before it shows one.

  A request carries an identity (a session or a token) in its context. The checker reads the
  store for it and answers; a handler asks the checker and then the store, which guards the
  write again inside its own transaction and appends to the audit log in the same transaction;
  a refusal goes to the denial coalescer, which shares the log. The evaluator and the cleaner
  are two goroutines over the same tables: each pass is a sequence of single statements, and
  the other goroutine, the server and the collector may write between any two of them.

  \<^bold>\<open>Conventions.\<close> A Go result \<open>(T, error)\<close> is a sum, a Go map an association list with distinct
  keys, a table the list of its rows, and a struct a record. A database statement is a value of
  a datatype, and the store carries the predicate of the statements that fail; a read of a
  failing statement is an error, so that every error path of the code is a branch of the
  model. Names are those of the source, with the receiver as prefix where two methods share
  one. The library theories hold:

  \<^item> \<open>Prelude\<close>: results, loops that stop at an error, Go maps, and the evaluation of a recursive
    SQL query with the proof that it computes a reflexive transitive closure; the rule
    collections \<open>go_simps\<close>, \<open>go_intros\<close> and \<open>cte_simps\<close>.
  \<^item> \<open>Auth_Store\<close>: the tables and the read methods of \<^verbatim>\<open>types.go\<close>, \<^verbatim>\<open>store.go\<close>, \<^verbatim>\<open>groups.go\<close>,
    \<^verbatim>\<open>privileges.go\<close>. \<open>Group_Hierarchy\<close>: what those reads mean. The locale \<open>store_read\<close> is the
    contract of a read (it fails only when a statement fails, and otherwise returns the value
    of a function of the tables); it is interpreted for every read the access checks use, and
    gives that failures are never turned into answers.
  \<^item> \<open>Token_Scope\<close>: the scope tables of a token, their reads, validation and in-transaction
    writers (\<^verbatim>\<open>token_scope.go\<close>). \<open>Stored_Scope\<close>: the guards that a scope write runs in its own
    transaction (\<^verbatim>\<open>token_owner_guard.go\<close>, \<^verbatim>\<open>token_scope_snapshot.go\<close>,
    \<^verbatim>\<open>token_superuser_owner.go\<close>).
  \<^item> \<open>Rbac_Checker\<close>: every check and report of \<^verbatim>\<open>access.go\<close> and the context getters of
    \<^verbatim>\<open>middleware.go\<close>. \<open>Rbac_Facts\<close>: a token never exceeds its owner, the scope is a ceiling,
    failures and missing identity only deny, and what passes the superuser gate.
    \<open>Visible_Connections\<close>: the connections listed are the connections granted.
  \<^item> \<open>Token_Ceiling\<close> and \<open>Grant_Scope\<close>: \<^verbatim>\<open>token_ceiling.go\<close> and \<^verbatim>\<open>grant_scope.go\<close>; what a token may
    grant, revoke or bring through a membership lies within what it holds.
  \<^item> \<open>Audit_Log\<close>, \<open>Audit_Verify\<close>, \<open>Audit_Facts\<close>: appending with the tail anchors (\<^verbatim>\<open>audit.go\<close>,
    \<^verbatim>\<open>audit_tail.go\<close>), the verifier (\<^verbatim>\<open>audit_verify.go\<close>, \<^verbatim>\<open>audit_head.go\<close>); what the server wrote
    verifies, and what verifies under the same anchor is what the server wrote.
  \<^item> \<open>Scope_Mutations\<close>, \<open>Scope_Mutation_Facts\<close>: the audited set and clear of a scope, their exact
    effect, and that a non-owner can only narrow.
  \<^item> \<open>Token_Scope_Handlers\<close>, \<open>Token_Scope_Handler_Facts\<close>: the REST handlers of a token's scope
    (\<^verbatim>\<open>api/rbac_token_handlers.go\<close>, \<^verbatim>\<open>api/rbac_grant_scope.go\<close>). The checks run on one store and
    the write on another, with any requests committed in between: no escalation, no effect of
    a refusal, no write under a judgement that is out of date.
  \<^item> \<open>Group_Mutations\<close>, \<open>Grant_Mutations\<close>: the audited mutations of groups, memberships and grants
    (\<^verbatim>\<open>groups.go\<close>, \<^verbatim>\<open>privileges.go\<close>, \<^verbatim>\<open>actor_store_groups.go\<close>, \<^verbatim>\<open>actor_store_privileges.go\<close>), each
    one transaction over tables with the constraints of the schema. \<open>Group_Invariants\<close>: the
    invariant of the tables, which every operation keeps, and the locale \<open>audited_write\<close>, the
    contract of a mutation (its writes alone change tables, and it appends one event),
    interpreted for all of them. \<open>Group_Spec\<close>: the operations on maps and sets, which the
    mutations implement in both directions. \<open>Group_Mutation_Facts\<close>: runs of mutations by any
    actors with any failures.
  \<^item> \<open>Group_Handlers\<close>, \<open>Group_Handler_Facts\<close>, \<open>Group_Request_Facts\<close>: the REST handlers of groups,
    members and grants (\<^verbatim>\<open>api/rbac_group_handlers.go\<close>,
    \<^verbatim>\<open>api/rbac_group_privilege_handlers.go\<close>, \<^verbatim>\<open>api/name_validation.go\<close>). Each effective request is
    one checked mutation; so a token hands out nothing it lacks, opens no connection it cannot
    write to, and leaves one event behind.
  \<^item> \<open>Eviction_List\<close>, \<open>Audit_Coalescer\<close>, \<open>Audit_Coalescer_Spec\<close>, \<open>Audit_Coalescer_Facts\<close>,
    \<open>Audit_Denials\<close>, \<open>Audit_Denial_Facts\<close>: the coalescers of \<^verbatim>\<open>audit_denials.go\<close>,
    \<^verbatim>\<open>audit_failures.go\<close> and \<^verbatim>\<open>audit_coalesce.go\<close> over the intrusive list of
    \<^verbatim>\<open>audit_eviction_list.go\<close>. The links live in an explicit heap; the specification is a queue
    of windows, and every operation refines it. The locale \<open>event_window\<close> is the contract of a
    window (an empty one counts nothing, noting adds one), interpreted for denials and for
    failures; under it events are conserved, the queue stays ordered, and the cap holds.
  \<^item> \<open>Rate_Limiter\<close>: \<^verbatim>\<open>rate_limiter.go\<close>; the ceiling per window over every interleaving.
  \<^item> \<open>Sql_Lexer\<close>, \<open>Sql_Lexer_Facts\<close>, \<open>Sql_Side_Effects\<close>, \<open>Sql_Side_Effect_Facts\<close>, \<open>Sql_Classifier\<close>,
    \<open>Sql_Classifier_Facts\<close>: \<^verbatim>\<open>sqllex\<close> and the classifier of \<^verbatim>\<open>api/query_handlers.go\<close>. The
    locale \<open>code_scan\<close> is the contract of a scanner that skips literals and comments, with the
    lexer as its interpretation; literals and comments are single regions, splitting and
    masking lose nothing, listed calls are found, and the classifier decides a specification
    by the words of a statement.
  \<^item> \<open>Decimal_Text\<close>, \<open>Go_Float\<close>: integers as text, and \<open>float64\<close> as the special values and the
    rational numbers, with the comparisons of the language.
  \<^item> \<open>Sample_Streaks\<close>: the counters of \<^verbatim>\<open>hysteresis.go\<close>; the locale \<open>run_counter\<close> is the contract
    of a count (it is the length of a run of newer and newer samples), interpreted for them,
    and over any history of calls they implement the reference definition of a run.
  \<^item> \<open>Alert_Store\<close>: the tables, the engine's state and the queries of \<^verbatim>\<open>alert_queries.go\<close>,
    \<^verbatim>\<open>queries.go\<close> and \<^verbatim>\<open>metric_queries.go\<close>. A statement is done, fails, or is done with its
    answer lost, as the world says, and the others write before each of them.
  \<^item> \<open>Threshold_Engine\<close>, \<open>Threshold_Moves\<close>, \<open>Threshold_Facts\<close>: a pass of the evaluator
    (\<^verbatim>\<open>thresholds.go\<close>), the step relation \<open>move\<close> of what it can do to the world with what it has
    established when it does so, and what follows by rule induction: no alert without a
    sustained breach, blackouts honoured.
  \<^item> \<open>Alert_Cleaner\<close>, \<open>Alert_Cleaner_Moves\<close>, \<open>Alert_Cleaner_Facts\<close>: the same for the cleaner
    (\<^verbatim>\<open>cleanup.go\<close>): one open alert per scope over any sequence of passes of both, alerts cleared
    only for a reason, failed reads clear nothing, well-formed rows. The locale \<open>alert_writer\<close>
    is the contract of a write that opens no alert, interpreted for clearing, rewording and
    reactivating.
  \<^item> \<open>Go_Strings\<close>: Go strings as lists of bytes, and the functions of the \<^verbatim>\<open>strings\<close> package.
  \<^item> \<open>Conn_String\<close>, \<open>Conn_String_Facts\<close>: building a connection string and removing the passwords
    from one, in both formats of libpq, with the configuration of the datastore
    (\<^verbatim>\<open>pkg/datastoreconfig\<close>). Connection strings are described independently of the scanner; what
    is shown of one does not depend on its passwords, and a built one reads back as it was
    meant when no value holds a single quote.
  \<^item> \<open>Pg_Settings\<close>, \<open>Pg_Settings_Facts\<close>: which settings can hold a credential and what is shown of
    them; of a shell command, the names of its assignments and its program.
  \<^item> \<open>Sql_Redact\<close>, \<open>Sql_Redact_Facts\<close>, \<open>Sql_Redact_Secrecy\<close>: the lexer of statements, the rules over
    its tokens and the loop that applies them. The lexer loses nothing, the cheap check skips
    only statements without a secret, and the constant behind a secret's name does not
    influence what is shown.

  \<^bold>\<open>Parameters.\<close> HMAC, SHA-256 and JSON are functions of an environment record. What the
  theorems ask of them is stated where it is used: \<open>no_collision\<close> (the keyed hash does not
  collide on the rows compared) for tamper evidence, \<open>reads_back\<close> (a count that was encoded is
  decoded again) for the accounting of denials. The upper- and lower-casing of text outside
  ASCII is a pair of tables; only the cheap check of the redaction asks anything of it,
  \<open>lower_by_runes\<close> (lower-casing works on either side of an ASCII byte separately). The order in
  which a Go map is ranged over is a function that permutes its entries. The list of the monitored connections and
  their sharing come from the datastore, through the lookup and lister of the checker;
  \<open>connection_known\<close> says that the lookup knows a connection. \<open>store_wf\<close> is what the schema's
  keys and constraints keep (distinct identifiers, valid access levels); \<open>no_wildcard_item\<close>
  says that no registered MCP item is named like the wildcard; \<open>healthy\<close> that no statement
  fails. Times are integers in nanoseconds, and the clock of a run does not go back.

  The world of the alerter is a record: the clock, the outcome of each statement, the samples
  and the staleness view at each statement, the rounding of a number stored in a \<open>REAL\<close> column,
  the registry of metrics, the configured counts and the writes of the others. What a theorem
  asks of the others is a rely condition named in it: \<open>others_open_nothing\<close> (they open no
  threshold alert), \<open>others_keep_active\<close> (they leave active alerts active) or \<open>others_keep_rows\<close>
  (they keep rows well formed).

  \<^bold>\<open>Loops.\<close> Loops over slices and byte strings are recursive functions with a measure, so that
  they always return. Loops along links are partial functions into \<open>option\<close>, and that they
  return in every reachable state is proved (\<open>coalescers_return\<close>). No definition uses fuel; the
  only bound in the model, eight executing EXPLAINs, is the code's own \<open>maxExplainDepth\<close>.

  \<^bold>\<open>Not modelled.\<close> HTTP decoding and routing, the group handlers that only read, and the
  handlers whose work is SQL over the datastore; the mutations of users, token creation and
  deletion, the registration of MCP items, federation and OIDC; sessions, bcrypt and randomness; purging, re-chaining and
  re-anchoring the audit log and the migrations of its schema; executing the classified
  statements; the MCP tools, the language-model proxy and the chat; the SQL of each metric, the
  anomaly tiers, connection-error alerts, scheduled blackouts, retention and the delivery of
  notifications in the alerter; the collector, the other shared packages (encryption, masking by
  regular expressions, embeddings, workers, logging) and the web client. The text of log lines is left out
  throughout, and concurrency is the interleaving of operations that hold the store's lock.

  \<^bold>\<open>Next.\<close> Token creation and deletion and the mutations of users; purge and re-anchor of the
  audit log; connection-error alerts and scheduled blackouts.
\<close>

end
